(* ===== verification/Prelude.thy ===== *)
theory Prelude
  imports Complex_Main "HOL-Library.AList" "HOL-Library.Product_Lexorder"
begin

text \<open>
  Shared vocabulary of the development: how JavaScript values that occur in every
  component are represented, and the generic lemmas the component proofs share.

  \<^item> An optional or nullable property is an \<open>option\<close>; \<open>x ?? d\<close> is \<open>nullish x d\<close> and
    \<open>x ?? y\<close> between two optional values is \<open>orelse x y\<close>.
  \<^item> An object used as a dictionary is an association list in \<open>Object.entries\<close> order:
    \<open>map_of\<close> reads it, \<open>AList.update\<close> assigns a property (in place, or appended),
    \<open>AList.delete\<close> is the \<open>delete\<close> operator.
  \<^item> A timestamp string is a \<open>stamp\<close>: either the ISO text of an instant, kept as its epoch
    milliseconds, or text \<open>Date.parse\<close> cannot read. Instants are assumed to lie in the
    range an ECMAScript Date represents.
  \<^item> Strings are lists of characters; a JavaScript number that may be fractional (money,
    rates, ranks) is a \<open>rat\<close>, so rounding of binary floating point is not modelled.
\<close>

named_theorems decision_defs
  \<open>definitions of the pure routing decisions, unfolded by the component proofs\<close>

named_theorems frame_simps
  \<open>what an operation leaves unchanged\<close>

section \<open>Optional values\<close>

definition nullish :: "'a option \<Rightarrow> 'a \<Rightarrow> 'a" where
  "nullish x d = (case x of Some v \<Rightarrow> v | None \<Rightarrow> d)"

definition orelse :: "'a option \<Rightarrow> 'a option \<Rightarrow> 'a option" where
  "orelse x y = (case x of Some v \<Rightarrow> Some v | None \<Rightarrow> y)"

lemma nullish_simps [simp]:
  "nullish (Some v) d = v"
  "nullish None d = d"
  by (simp_all add: nullish_def)

lemma orelse_simps [simp]:
  "orelse (Some v) y = Some v"
  "orelse None y = y"
  "orelse x None = x"
  by (simp_all add: orelse_def split: option.split)

lemma orelse_eq_None [simp]: "orelse x y = None \<longleftrightarrow> x = None \<and> y = None"
  by (cases x) simp_all

lemma orelse_SomeE:
  assumes "orelse x y = Some v"
  obtains (left) "x = Some v" | (right) "x = None" "y = Some v"
  using assms by (cases x) auto

section \<open>Timestamps\<close>

datatype stamp = Iso int | Unparsable string

fun date_parse :: "stamp \<Rightarrow> int option" where
  "date_parse (Iso ms) = Some ms"
| "date_parse (Unparsable _) = None"

definition parse_opt :: "stamp option \<Rightarrow> int option" where
  "parse_opt s = Option.bind s date_parse"

lemma parse_opt_simps [simp]:
  "parse_opt None = None"
  "parse_opt (Some s) = date_parse s"
  by (simp_all add: parse_opt_def)

text \<open>Whether a timestamp property is present and not the empty string.\<close>

fun truthy_stamp :: "stamp option \<Rightarrow> bool" where
  "truthy_stamp (Some (Unparsable [])) = False"
| "truthy_stamp (Some _) = True"
| "truthy_stamp None = False"

text \<open>\<open>Date.parse(s) <= now\<close> and \<open>Date.parse(s) > now\<close>: both are false of an unreadable text.\<close>

definition stamp_le :: "stamp option \<Rightarrow> int \<Rightarrow> bool" where
  "stamp_le s now = (case parse_opt s of Some t \<Rightarrow> t \<le> now | None \<Rightarrow> False)"

definition stamp_gt :: "stamp option \<Rightarrow> int \<Rightarrow> bool" where
  "stamp_gt s now = (case parse_opt s of Some t \<Rightarrow> t > now | None \<Rightarrow> False)"

section \<open>Lists\<close>

definition head_opt :: "'a list \<Rightarrow> 'a option" where
  "head_opt xs = (case xs of [] \<Rightarrow> None | x # _ \<Rightarrow> Some x)"

definition last_opt :: "'a list \<Rightarrow> 'a option" where
  "last_opt xs = (if xs = [] then None else Some (last xs))"

definition find_last :: "('a \<Rightarrow> bool) \<Rightarrow> 'a list \<Rightarrow> 'a option" where
  "find_last P xs = List.find P (rev xs)"

lemma head_opt_simps [simp]:
  "head_opt [] = None"
  "head_opt (x # xs) = Some x"
  by (simp_all add: head_opt_def)

lemma head_opt_eq_None [simp]: "head_opt xs = None \<longleftrightarrow> xs = []"
  by (cases xs) simp_all

lemma head_opt_in_set: "head_opt xs = Some x \<Longrightarrow> x \<in> set xs"
  by (cases xs) simp_all

lemma last_opt_simps [simp]:
  "last_opt [] = None"
  "last_opt (xs @ [x]) = Some x"
  by (simp_all add: last_opt_def)

lemma last_opt_in_set: "last_opt xs = Some x \<Longrightarrow> x \<in> set xs"
  by (auto simp: last_opt_def split: if_splits)

lemma find_last_append [simp]:
  "find_last P (xs @ [x]) = (if P x then Some x else find_last P xs)"
  by (simp add: find_last_def)

lemma find_last_Nil [simp]: "find_last P [] = None"
  by (simp add: find_last_def)

lemma find_SomeD: "List.find P xs = Some x \<Longrightarrow> x \<in> set xs \<and> P x"
  by (auto simp: find_Some_iff)

lemma find_last_SomeD: "find_last P xs = Some x \<Longrightarrow> x \<in> set xs \<and> P x"
  by (auto simp: find_last_def dest: find_SomeD)

lemma find_last_None_iff: "find_last P xs = None \<longleftrightarrow> (\<forall>x \<in> set xs. \<not> P x)"
  by (auto simp: find_last_def find_None_iff)

lemma map_of_in_set: "map_of xs k = Some v \<Longrightarrow> (k, v) \<in> set xs"
  by (rule map_of_SomeD)

lemma map_of_eq_None_find: "map_of xs k = map_option snd (List.find (\<lambda>e. fst e = k) xs)"
  by (induction xs) auto

section \<open>The least element under a key\<close>

text \<open>
  \<open>[...xs].sort(byKey).at(0)\<close>: a stable sort followed by reading the first element is the
  first element with the least key.
\<close>

lemma sort_key_head_in: "head_opt (sort_key f xs) = Some x \<Longrightarrow> x \<in> set xs"
  by (auto dest: head_opt_in_set)

lemma sort_key_head_least:
  assumes "head_opt (sort_key f xs) = Some x" and "y \<in> set xs"
  shows "f x \<le> f y"
proof -
  have sorted: "sorted (map f (sort_key f xs))" by simp
  from assms(1) obtain ys where split: "sort_key f xs = x # ys"
    by (cases "sort_key f xs") auto
  from assms(2) have "y \<in> set (sort_key f xs)" by simp
  with split have "y = x \<or> y \<in> set ys" by auto
  with sorted split show ?thesis by auto
qed

lemma sort_key_head_None [simp]: "head_opt (sort_key f xs) = None \<longleftrightarrow> xs = []"
  by (metis head_opt_eq_None set_empty set_sort)

section \<open>Strings\<close>

definition starts_with :: "string \<Rightarrow> string \<Rightarrow> bool" where
  "starts_with s p = (take (length p) s = p)"

fun join_with :: "string \<Rightarrow> string list \<Rightarrow> string" where
  "join_with sep [] = []"
| "join_with sep [x] = x"
| "join_with sep (x # y # xs) = x @ sep @ join_with sep (y # xs)"

text \<open>\<open>String.prototype.includes\<close> and the lower-casing of ASCII letters.\<close>

fun includes_str :: "string \<Rightarrow> string \<Rightarrow> bool" where
  "includes_str [] p = (p = [])"
| "includes_str (c # cs) p = (starts_with (c # cs) p \<or> includes_str cs p)"

definition lower_char :: "char \<Rightarrow> char" where
  "lower_char c =
     (if 65 \<le> (of_char c :: nat) \<and> of_char c \<le> (90 :: nat) then char_of ((of_char c :: nat) + 32)
      else c)"

definition lower_case :: "string \<Rightarrow> string" where
  "lower_case s = map lower_char s"

definition is_digit :: "char \<Rightarrow> bool" where
  "is_digit c = (48 \<le> (of_char c :: nat) \<and> of_char c \<le> (57 :: nat))"

text \<open>A character of the regular expression class \<open>\w\<close>.\<close>

definition is_word_char :: "char \<Rightarrow> bool" where
  "is_word_char c =
     (let n = (of_char c :: nat)
      in (48 \<le> n \<and> n \<le> 57) \<or> (65 \<le> n \<and> n \<le> 90) \<or> n = 95 \<or> (97 \<le> n \<and> n \<le> 122))"

text \<open>A number in a message: \<open>String(n)\<close>.\<close>

fun show_nat :: "nat \<Rightarrow> string" where
  "show_nat n =
     (if n < 10 then [char_of (48 + n)] else show_nat (n div 10) @ [char_of (48 + n mod 10)])"

declare show_nat.simps [simp del]

text \<open>Code-unit order of strings, as the \<open><\<close> operator compares them.\<close>

fun string_less :: "string \<Rightarrow> string \<Rightarrow> bool" where
  "string_less [] [] = False"
| "string_less [] (_ # _) = True"
| "string_less (_ # _) [] = False"
| "string_less (a # as) (b # bs) =
     (of_char a < (of_char b :: nat) \<or> (a = b \<and> string_less as bs))"

lemma string_less_irrefl [simp]: "\<not> string_less s s"
  by (induction s) auto

lemma string_less_trans: "string_less a b \<Longrightarrow> string_less b c \<Longrightarrow> string_less a c"
proof (induction a b arbitrary: c rule: string_less.induct)
  case (4 a as b bs)
  then show ?case by (cases c) auto
next
  case (2 b bs)
  then show ?case by (cases c) auto
qed auto

lemma string_less_linear: "string_less a b \<or> a = b \<or> string_less b a"
proof (induction a b rule: string_less.induct)
  case (4 a as b bs)
  have "of_char a < (of_char b :: nat) \<or> a = b \<or> of_char b < (of_char a :: nat)"
    by (metis linorder_neqE_nat of_char_eq_iff)
  with 4 show ?case by auto
qed auto

lemma string_less_asym: "string_less a b \<Longrightarrow> \<not> string_less b a"
  using string_less_trans string_less_irrefl by blast

end
