(* ===== verification/Contract_Types.thy ===== *)
theory Contract_Types
  imports Prelude
begin

text \<open>
  The data the controller's decisions are about, as \<open>src/contract/index.mjs\<close> and the modules
  beside it declare them: runtimes, gates, Definition of Done items, nodes, the contract, and
  a node's persisted snapshot with its routing record.

  A record has the fields the modelled code reads or writes. A field the modelled code only
  carries along (prompts, paths, pricing, file scopes kept by other modules) is left out.
  The harness \<open>config\<close> object is kept as its string-valued entries, the only ones read here.
\<close>

section \<open>Enumerations\<close>

datatype role = Worker | Judge

datatype status =
    Pending | Running | Done | No_op | Blocked | Failed | Exhausted | Stalled | Canceled

datatype phase = Ph_waiting | Ph_worker | Ph_judge | Ph_complete | Ph_dependency | Ph_canceled

datatype severity = Sev_none | Minor | Major | Critical

datatype verdict_kind = V_pass | V_fail | V_invalid

datatype review_mode = Rev_none | Rev_advisory | Rev_blocking

text \<open>\<open>TERMINAL\<close>, \<open>PARKED\<close> and \<open>SETTLED\<close> of \<open>src/engine/prompts.mjs\<close>.\<close>

fun TERMINAL :: "status \<Rightarrow> bool" where
  "TERMINAL s = (s \<in> {Done, No_op, Canceled})"

fun PARKED :: "status \<Rightarrow> bool" where
  "PARKED s = (s \<in> {Blocked, Failed, Exhausted, Stalled})"

fun SETTLED :: "status \<Rightarrow> bool" where
  "SETTLED s = (TERMINAL s \<or> PARKED s)"

lemma SETTLED_iff: "SETTLED s \<longleftrightarrow> s \<noteq> Pending \<and> s \<noteq> Running"
  by (cases s) simp_all

fun role_phase :: "role \<Rightarrow> phase" where
  "role_phase Worker = Ph_worker"
| "role_phase Judge = Ph_judge"

fun role_text :: "role \<Rightarrow> string" where
  "role_text Worker = ''worker''"
| "role_text Judge = ''judge''"

section \<open>Runtimes\<close>

datatype tier = Tier_num nat | Tier_name string

record runtime =
  rt_harness :: string
  rt_model :: string
  rt_vendor :: string
  rt_config :: "(string \<times> string) list option"
  rt_executable :: "string option"
  rt_costRank :: "rat option"
  rt_tier :: "tier option"
  rt_fallback :: "string option"
  rt_maxConcurrent :: "nat option"

record availability =
  av_available :: bool
  av_exhaustedUntil :: "stamp option"
  av_reason :: string
  av_observedAt :: "stamp option"
  av_window :: "string option"

section \<open>Nodes and the contract\<close>

record skip_when =
  sk_maxChangedPaths :: nat

record gate =
  gt_enabled :: bool
  gt_review :: "review_mode option"
  gt_runtime :: "string option"
  gt_failOn :: "severity list option"
  gt_maxRevisions :: "nat option"
  gt_skipWhen :: "skip_when option"

datatype proof_kind = Proof_command | Proof_path | Proof_verification

record dod_item =
  dod_id :: string
  dod_proof :: "(proof_kind \<times> string) option"
  dod_judgment :: bool

datatype mutation_tier = Mt_high | Mt_medium | Mt_low

record command =
  cmd_argv :: "string list"
  cmd_timeoutSec :: "rat option"
  cmd_repeat :: "nat option"
  cmd_env :: "string list option"
  cmd_mutation :: "mutation_tier option"
  cmd_cwd :: "string option"

datatype packet_mode = Mode_execution | Mode_discovery | Mode_autonomous

record human_step =
  hs_step :: string
  hs_command :: string

record node =
  nd_id :: string
  nd_runtime :: "string option"
  nd_dependsOn :: "string list"
  nd_definitionOfDone :: "dod_item list"
  nd_gate :: gate
  nd_timeoutSec :: "rat option"
  nd_mode :: packet_mode
  nd_readFiles :: "string list"
  nd_writeFiles :: "string list"
  nd_writeRoots :: "string list"
  nd_verification :: "command list"
  nd_requirementIds :: "string list"
  nd_humanStep :: "human_step option"
  nd_sameProviderReview :: bool
  nd_replayPolicy :: "string option"

record contract =
  ct_id :: string
  ct_runtimes :: "(string \<times> runtime) list"
  ct_defaultWorker :: "string option"
  ct_defaultJudge :: "string option"
  ct_judges :: "string list option"
  ct_sameVendor :: bool
  ct_nodes :: "node list"
  ct_maxParallel :: int
  ct_timeoutSec :: rat
  ct_sharedVerification :: "command list option"
  ct_finalVerification :: "command list option"

text \<open>\<open>contract.runtimes[id]\<close>\<close>

abbreviation runtime_of :: "contract \<Rightarrow> string \<Rightarrow> runtime option" where
  "runtime_of c \<equiv> map_of (ct_runtimes c)"

section \<open>Gate results and errors\<close>

record finding =
  fi_severity :: severity
  fi_description :: string
  fi_evidence :: string

record gate_result =
  gr_verdict :: verdict_kind
  gr_maxSeverity :: severity
  gr_summary :: string
  gr_findings :: "finding list"

record snap_error =
  er_code :: string
  er_message :: string
  er_exhaustedUntil :: "stamp option"

abbreviation mk_error :: "string \<Rightarrow> string \<Rightarrow> snap_error" where
  "mk_error c m \<equiv> \<lparr>er_code = c, er_message = m, er_exhaustedUntil = None\<rparr>"

section \<open>Routing records\<close>

record usage =
  us_inputTokens :: "int option"
  us_outputTokens :: "int option"
  us_cacheReadInputTokens :: "int option"

record assignments =
  as_worker :: string
  as_judge :: string
  as_composedWorker :: bool
  as_composedJudge :: bool

record history_entry =
  he_at :: stamp
  he_role :: role
  he_runtime :: string
  he_nextRuntime :: "string option"
  he_revision :: "nat option"
  he_hop :: "nat option"
  he_status :: "status option"
  he_errorCode :: "string option"
  he_backoffSec :: "rat option"
  he_backoffUntil :: "stamp option"
  he_usage :: "usage option"
  he_costUsd :: "rat option"
  he_priced :: bool

text \<open>
  Why an override names the runtime it names: the sentence \<open>routeReason\<close> builds, kept as its
  template and the values it interpolates (\<open>src/engine/backoff.mjs\<close>).
\<close>

datatype route_reason =
    Reason_quota_reset role string stamp string
  | Reason_network_retry role string stamp string
  | Reason_network_failed role string string string
  | Reason_protocol role string string string
  | Reason_exhausted role string string string

record override =
  ov_at :: stamp
  ov_role :: role
  ov_runtime :: string
  ov_nextRuntime :: "string option"
  ov_revision :: "nat option"
  ov_hop :: "nat option"
  ov_reason :: "route_reason option"
  ov_backoffSec :: "rat option"
  ov_backoffUntil :: "stamp option"
  ov_usage :: "usage option"
  ov_costUsd :: "rat option"
  ov_priced :: bool

record tier_candidate =
  tc_runtimeId :: string
  tc_exhaustedUntil :: "stamp option"

record tier_exhaustion =
  te_role :: role
  te_candidates :: "tier_candidate list"

text \<open>
  The sentence a skipped judge carries (\<open>src/engine/judge-list.mjs\<close>), kept as its template and
  values; the code compares it with the first of them only.
\<close>

datatype skip_reason =
    Skip_attempted
  | Skip_undeclared
  | Skip_same_provider string
  | Skip_refusal string
  | Skip_window string rat

record judge_skip =
  js_id :: string
  js_reason :: skip_reason

record judge_list_state =
  jl_list :: "string list"
  jl_chosen :: "string option"
  jl_skipped :: "judge_skip list"

record routing =
  ro_history :: "history_entry list"
  ro_currentOverride :: "override option"
  ro_assignments :: "assignments option"
  ro_availability :: "(string \<times> availability) list option"
  ro_tierExhaustion :: "tier_exhaustion option"
  ro_tierExhaustionCycle :: "nat option"
  ro_judgeList :: "judge_list_state option"

text \<open>\<open>state.routing ?? {}\<close>: no history, no override, nothing assigned.\<close>

definition empty_routing :: routing where
  "empty_routing = \<lparr>ro_history = [], ro_currentOverride = None, ro_assignments = None,
     ro_availability = None, ro_tierExhaustion = None, ro_tierExhaustionCycle = None,
     ro_judgeList = None\<rparr>"

section \<open>Node snapshots\<close>

record invocation =
  in_id :: string
  in_phase :: role
  in_runtimeId :: "string option"
  in_revision :: "nat option"
  in_cycle :: "nat option"
  in_costUsd :: "rat option"
  in_usage :: "usage option"
  in_continuationId :: "string option"
  in_runId :: "string option"
  in_campaignId :: "string option"
  in_role :: "role option"
  in_promptPath :: "string option"
  in_stdoutPath :: "string option"
  in_stderrPath :: "string option"
  in_snapshotPath :: "string option"
  in_active :: bool
  in_startedAt :: "stamp option"
  in_closedAt :: "stamp option"

record exec_override =
  xo_kind :: string
  xo_timeoutSec :: "rat option"
  xo_reason :: "string option"
  xo_text :: "string option"
  xo_decision :: "string option"
  xo_invocationId :: "string option"
  xo_phase :: "role option"
  xo_result :: "string option"
  xo_usage :: "usage option"
  xo_costUsd :: "rat option"

abbreviation mk_override :: "string \<Rightarrow> exec_override" where
  "mk_override kind \<equiv> \<lparr>xo_kind = kind, xo_timeoutSec = None, xo_reason = None, xo_text = None,
     xo_decision = None, xo_invocationId = None, xo_phase = None, xo_result = None, xo_usage = None,
     xo_costUsd = None\<rparr>"

text \<open>Parsed JSON; the members of an object in \<open>Object.entries\<close> order.\<close>

datatype json =
    J_null | J_bool bool | J_num rat | J_str string | J_arr "json list" | J_obj "(string \<times> json) list"

text \<open>A property of an object; \<open>None\<close> is \<open>undefined\<close>.\<close>

fun field_of :: "json \<Rightarrow> string \<Rightarrow> json option" where
  "field_of (J_obj ps) k = map_of ps k"
| "field_of _ k = None"

datatype worker_status = Ws_done | Ws_blocked_context

record worker_result =
  wr_status :: worker_status
  wr_summary :: string
  wr_verification :: "string list"
  wr_artifacts :: "string list"
  wr_missingContext :: "string list"
  wr_output :: "json option"

record command_attempt =
  at_exitCode :: "int option"
  at_timedOut :: bool
  at_stdout :: string
  at_stderr :: string
  at_signal :: "string option"
  at_error :: "string option"
  at_durationMs :: rat
  at_passed :: bool
  at_signalDeath :: bool

record command_result =
  cr_argv :: "string list"
  cr_env :: "string list"
  cr_passed :: bool
  cr_attempts :: "command_attempt list"

record verification =
  ve_passed :: bool
  ve_commands :: "command_result list"
  ve_error :: "string option"
  ve_retried :: "nat list"
  ve_completed :: bool

datatype worktree_status = Wt_unassigned | Wt_provisioning | Wt_ready | Wt_failed | Wt_removed

record worktree =
  wt_status :: worktree_status
  wt_path :: "string option"
  wt_branch :: "string option"
  wt_commit :: "string option"
  wt_baseSha :: "string option"
  wt_sealedSha :: "string option"

record boundary =
  bd_files :: "string list"
  bd_roots :: "string list"
  bd_fileRoots :: "string list"
  bd_fileOrigins :: "(string \<times> string list) list"
  bd_rootOrigins :: "(string \<times> string list) list"

record scope =
  sc_changedPathCount :: "nat option"
  sc_changedPaths :: "string list option"
  sc_unexpectedPaths :: "string list"
  sc_unexpectedPathCount :: "nat option"
  sc_boundary :: "boundary option"
  sc_truncated :: bool

record snapshot =
  ns_id :: string
  ns_status :: status
  ns_phase :: phase
  ns_attempt :: nat
  ns_revisions :: nat
  ns_judgeFailures :: "nat option"
  ns_runtime :: "string option"
  ns_blockedBy :: "string list"
  ns_startedAt :: "stamp option"
  ns_updatedAt :: "stamp option"
  ns_result :: "worker_result option"
  ns_gate :: "gate_result option"
  ns_error :: "snap_error option"
  ns_routing :: "routing option"
  ns_invocations :: "invocation list"
  ns_executionOverrides :: "exec_override list"
  ns_verification :: "verification option"
  ns_scope :: "scope option"
  ns_unexpectedPaths :: "string list"
  ns_worktree :: "worktree option"
  ns_integratedHead :: "string option"
  ns_forceFresh :: bool
  ns_previousAttempt :: "string option"
  ns_requirementIds :: "string list"
  ns_packetHash :: "string option"
  ns_verificationArtifacts :: "string list"

abbreviation routing_of :: "snapshot \<Rightarrow> routing" where
  "routing_of s \<equiv> nullish (ns_routing s) empty_routing"

text \<open>What a provider invocation came back with, after the adapter normalised it.\<close>

record provider_error =
  pe_code :: string
  pe_message :: string
  pe_resetAt :: "stamp option"

record envelope =
  en_status :: status
  en_result :: "string option"
  en_usage :: "usage option"
  en_costUsd :: "rat option"
  en_priced :: bool
  en_error :: "provider_error option"
  en_resetAt :: "stamp option"
  en_exhaustedUntil :: "stamp option"
  en_judgeCandidates :: "nat option"
  en_continuationId :: "string option"

end
