(* ===== verification/Provider.thy ===== *)
theory Provider
  imports Contract_Types
begin

text \<open>
  Who provides a runtime, and when a judge is independent of a worker:
  \<open>src/contract/provider.mjs\<close>, \<open>src/harnesses/model-tiers.mjs\<close> and
  \<open>src/contract/judge-independence.mjs\<close>. The fallback chain of a runtime is walked by three
  loops of the code; \<open>reaches\<close> is what all three compute about, and the lemmas at the end of
  each section relate the loop to it.
\<close>

section \<open>Canonical and effective provider\<close>

definition CANONICAL_PROVIDERS :: "string list" where
  "CANONICAL_PROVIDERS = [''openai'', ''anthropic'', ''zhipu'', ''deepseek'', ''google'']"

text \<open>\<open>^word\b\<close>: the text starts with the word and no word character follows it.\<close>

definition starts_word :: "string \<Rightarrow> string \<Rightarrow> bool" where
  "starts_word s w =
     (starts_with s w \<and>
      (case drop (length w) s of [] \<Rightarrow> True | c # _ \<Rightarrow> \<not> is_word_char c))"

text \<open>
  The patterns of \<open>MODEL_FAMILY_PROVIDERS\<close>, tried in the order of the table, ignoring case.
\<close>

definition model_family_provider :: "string \<Rightarrow> string option" where
  "model_family_provider model =
     (let m = lower_case model
      in if starts_with m ''claude-'' \<or> starts_word m ''opus'' \<or> starts_word m ''sonnet''
            \<or> starts_word m ''fable'' \<or> starts_word m ''haiku'' then Some ''anthropic''
         else if starts_with m ''gpt-'' \<or>
           (case m of c # d # _ \<Rightarrow> c = CHR ''o'' \<and> is_digit d | _ \<Rightarrow> False) then Some ''openai''
         else if starts_with m ''gemini-'' then Some ''google''
         else if starts_with m ''glm-'' then Some ''zhipu''
         else if starts_with m ''deepseek-'' then Some ''deepseek''
         else None)"

definition NO_CANONICAL_PROVIDER_HARNESSES :: "string list" where
  "NO_CANONICAL_PROVIDER_HARNESSES = [''replay'', ''exec-jsonl'']"

definition DEFAULT_HARNESS_VENDORS :: "(string \<times> string) list" where
  "DEFAULT_HARNESS_VENDORS =
     [(''claude'', ''anthropic''), (''codex'', ''openai''), (''agy'', ''google''),
      (''zcode'', ''zhipu'')]"

definition routedProvider :: "runtime \<Rightarrow> string option" where
  "routedProvider rt =
     (case rt_config rt of
        None \<Rightarrow> None
      | Some config \<Rightarrow>
          (let route = (if rt_harness rt = ''codex'' then map_of config ''model_provider''
                        else if rt_harness rt = ''dsh'' then map_of config ''provider''
                        else None)
           in case route of
                None \<Rightarrow> None
              | Some r \<Rightarrow> if r = [] then None
                  else List.find (\<lambda>p. includes_str (lower_case r) p) CANONICAL_PROVIDERS))"

definition canonicalProvider :: "runtime \<Rightarrow> string option" where
  "canonicalProvider rt =
     (if rt_harness rt \<in> set NO_CANONICAL_PROVIDER_HARNESSES then None
      else case routedProvider rt of
        Some p \<Rightarrow> Some p
      | None \<Rightarrow> (case model_family_provider (rt_model rt) of
          Some p \<Rightarrow> Some p
        | None \<Rightarrow> map_of DEFAULT_HARNESS_VENDORS (rt_harness rt)))"

definition effectiveProvider :: "runtime \<Rightarrow> string" where
  "effectiveProvider rt = nullish (canonicalProvider rt) (rt_vendor rt)"

lemma model_family_in_table:
  "model_family_provider m = Some p \<Longrightarrow> p \<in> set CANONICAL_PROVIDERS"
  by (auto simp: model_family_provider_def CANONICAL_PROVIDERS_def Let_def split: if_splits)

lemma canonicalProvider_known:
  assumes "canonicalProvider rt = Some p"
  shows "p \<in> set CANONICAL_PROVIDERS"
proof -
  have routed: "routedProvider rt = Some q \<Longrightarrow> q \<in> set CANONICAL_PROVIDERS" for q
    by (auto simp: routedProvider_def Let_def split: option.splits if_splits dest: find_SomeD)
  have default: "map_of DEFAULT_HARNESS_VENDORS h = Some q \<Longrightarrow> q \<in> set CANONICAL_PROVIDERS"
    for h q
    by (auto simp: DEFAULT_HARNESS_VENDORS_def CANONICAL_PROVIDERS_def split: if_splits)
  from assms show ?thesis
    by (auto simp: canonicalProvider_def split: if_splits option.splits
        dest: routed default model_family_in_table)
qed

section \<open>Declared model tiers\<close>

definition ANTHROPIC_MODEL_TIERS :: "(string \<times> nat) list" where
  "ANTHROPIC_MODEL_TIERS =
     [(''claude-sonnet-5'', 2), (''claude-opus-5'', 3), (''claude-opus-5-5'', 3),
      (''claude-fable-5'', 4), (''claude-fable-5-1'', 4)]"

definition declaredModelTier :: "string \<Rightarrow> string \<Rightarrow> nat option" where
  "declaredModelTier harness model =
     (if harness = ''claude'' then map_of ANTHROPIC_MODEL_TIERS model else None)"

section \<open>Judge independence\<close>

text \<open>A refusal is the code and the sentence the caller reports.\<close>

definition sameVendorTierRefusal :: "runtime \<Rightarrow> runtime \<Rightarrow> (string \<times> string) option" where
  "sameVendorTierRefusal worker judge =
     (case declaredModelTier (rt_harness judge) (rt_model judge) of
        None \<Rightarrow> Some (''same_vendor_judge_no_tier'',
          ''judge model '' @ rt_model judge @
          '' declares no tier and cannot judge in same-vendor mode'')
      | Some judgeTier \<Rightarrow>
          (case declaredModelTier (rt_harness worker) (rt_model worker) of
             None \<Rightarrow> None
           | Some workerTier \<Rightarrow>
               if judgeTier < workerTier
               then Some (''same_vendor_judge_tier_too_low'',
                 ''judge tier '' @ show_nat judgeTier @ '' ('' @ rt_model judge @
                 '') is below worker tier '' @ show_nat workerTier @ '' ('' @ rt_model worker @ '')'')
               else None))"

definition effectiveJudgeIndependence :: "bool \<Rightarrow> bool \<Rightarrow> bool" where
  "effectiveJudgeIndependence contractMode configMode = (contractMode \<or> configMode)"

definition isSameProviderReviewPair :: "bool \<Rightarrow> runtime option \<Rightarrow> runtime option \<Rightarrow> bool" where
  "isSameProviderReviewPair sameVendor worker judge =
     (sameVendor \<and>
      (case worker of
         None \<Rightarrow> False
       | Some w \<Rightarrow> rt_vendor w \<noteq> [] \<and> map_option rt_vendor judge = Some (rt_vendor w)))"

section \<open>The fallback chain\<close>

type_synonym runtimes = "(string \<times> runtime) list"

definition fallback_of :: "runtimes \<Rightarrow> string \<Rightarrow> string option" where
  "fallback_of rts a = Option.bind (map_of rts a) rt_fallback"

inductive reaches :: "runtimes \<Rightarrow> string \<Rightarrow> string \<Rightarrow> bool" for rts where
  self: "reaches rts a a"
| hop: "fallback_of rts a = Some b \<Longrightarrow> reaches rts b c \<Longrightarrow> reaches rts a c"

inductive_cases reachesE: "reaches rts a b"

text \<open>What shrinks while a loop with a \<open>seen\<close> set follows fallbacks.\<close>

definition fresh_targets :: "runtimes \<Rightarrow> string list \<Rightarrow> nat" where
  "fresh_targets rts seen =
     card {f. f \<notin> set seen \<and> (\<exists>e \<in> set rts. rt_fallback (snd e) = Some f)}"

lemma fresh_targets_less [intro]:
  assumes "map_of rts a = Some rt" and "rt_fallback rt = Some b" and "b \<notin> set seen"
  shows "fresh_targets rts (b # seen) < fresh_targets rts seen"
proof -
  let ?A = "\<lambda>s. {f. f \<notin> set s \<and> (\<exists>e \<in> set rts. rt_fallback (snd e) = Some f)}"
  have "?A seen \<subseteq> (\<lambda>e. the (rt_fallback (snd e))) ` set rts" by force
  then have fin: "finite (?A seen)" by (rule finite_subset) simp
  have "(a, rt) \<in> set rts" using assms(1) by (rule map_of_SomeD)
  with assms(2,3) have "b \<in> ?A seen" by force
  moreover have "?A (b # seen) = ?A seen - {b}" by auto
  ultimately show ?thesis unfolding fresh_targets_def
    by (metis (no_types, lifting) fin card_Diff1_less)
qed

lemma reaches_closed:
  assumes "reaches rts a c" and "a \<in> S"
    and "\<And>x y. x \<in> S \<Longrightarrow> fallback_of rts x = Some y \<Longrightarrow> y \<in> S"
  shows "c \<in> S"
  using assms by (induction rule: reaches.induct) auto

lemma reaches_snoc:
  "reaches rts a b \<Longrightarrow> fallback_of rts b = Some c \<Longrightarrow> reaches rts a c"
  by (induction rule: reaches.induct) (auto intro: reaches.intros)

text \<open>
  The state of such a loop: every id seen is on the chain of \<open>w\<close>, and the chain leaves the
  ids seen only through the id under the cursor.
\<close>

definition walk_inv :: "runtimes \<Rightarrow> string \<Rightarrow> string list \<Rightarrow> string \<Rightarrow> bool" where
  "walk_inv rts w seen cur \<longleftrightarrow>
     cur \<in> set seen \<and> w \<in> set seen \<and> (\<forall>x \<in> set seen. reaches rts w x) \<and>
     (\<forall>x \<in> set seen. x \<noteq> cur \<longrightarrow> (\<forall>y. fallback_of rts x = Some y \<longrightarrow> y \<in> set seen))"

lemma walk_inv_init: "walk_inv rts w [w] w"
  by (simp add: walk_inv_def reaches.self)

lemma walk_inv_step:
  assumes "walk_inv rts w seen cur" and "fallback_of rts cur = Some n"
  shows "walk_inv rts w (n # seen) n"
  using assms unfolding walk_inv_def by (auto intro: reaches_snoc)

lemma walk_inv_stop:
  assumes "walk_inv rts w seen cur"
    and "fallback_of rts cur = None \<or> (\<exists>n \<in> set seen. fallback_of rts cur = Some n)"
  shows "reaches rts w x \<longleftrightarrow> x \<in> set seen"
proof
  assume "reaches rts w x"
  then show "x \<in> set seen"
    using assms by (rule_tac reaches_closed) (auto simp: walk_inv_def)
next
  assume "x \<in> set seen"
  with assms(1) show "reaches rts w x" by (auto simp: walk_inv_def)
qed

end
