(* ===== verification/Samples.thy ===== *)
theory Samples
  imports Contract_Types
begin

text \<open>
  Small concrete runtimes, nodes and snapshots the witnesses evaluate on.
\<close>

definition sample_runtime :: "string \<Rightarrow> string \<Rightarrow> string \<Rightarrow> string option \<Rightarrow> runtime" where
  "sample_runtime harness model vendor fallback =
     \<lparr>rt_harness = harness, rt_model = model, rt_vendor = vendor, rt_config = None,
      rt_executable = None, rt_costRank = Some 1, rt_tier = Some (Tier_num 1),
      rt_fallback = fallback, rt_maxConcurrent = Some 1\<rparr>"

definition sample_runtimes :: "(string \<times> runtime) list" where
  "sample_runtimes =
     [(''glm'', sample_runtime ''fx'' ''glm-5.3'' ''zhipu'' (Some ''sonnet'')),
      (''sonnet'', sample_runtime ''claude'' ''claude-sonnet-5'' ''anthropic'' None),
      (''gpt'', sample_runtime ''codex'' ''gpt-5.6'' ''openai'' None),
      (''opus'', sample_runtime ''claude'' ''claude-opus-5'' ''anthropic'' None)]"

definition sample_gate :: "string option \<Rightarrow> gate" where
  "sample_gate judge =
     \<lparr>gt_enabled = True, gt_review = Some Rev_blocking, gt_runtime = judge, gt_failOn = None,
      gt_maxRevisions = Some 1, gt_skipWhen = None\<rparr>"

definition sample_node :: "string \<Rightarrow> string list \<Rightarrow> string option \<Rightarrow> string option \<Rightarrow> node" where
  "sample_node i deps worker judge =
     \<lparr>nd_id = i, nd_runtime = worker, nd_dependsOn = deps,
      nd_definitionOfDone = [\<lparr>dod_id = ''D1'', dod_proof = None, dod_judgment = True\<rparr>],
      nd_gate = sample_gate judge, nd_timeoutSec = None, nd_mode = Mode_execution,
      nd_readFiles = [], nd_writeFiles = [''src/a.mjs''], nd_writeRoots = [],
      nd_verification = [],
      nd_requirementIds = [], nd_humanStep = None, nd_sameProviderReview = False,
      nd_replayPolicy = None\<rparr>"

definition sample_contract :: "bool \<Rightarrow> node list \<Rightarrow> contract" where
  "sample_contract sameVendor nodes =
     \<lparr>ct_id = ''run'', ct_runtimes = sample_runtimes, ct_defaultWorker = None,
      ct_defaultJudge = None, ct_judges = None, ct_sameVendor = sameVendor, ct_nodes = nodes,
      ct_maxParallel = 2, ct_timeoutSec = 600, ct_sharedVerification = None,
      ct_finalVerification = None\<rparr>"

definition sample_refusal :: "string list \<Rightarrow> worker_result" where
  "sample_refusal missing =
     \<lparr>wr_status = Ws_blocked_context, wr_summary = ''no'', wr_verification = [], wr_artifacts = [],
      wr_missingContext = missing, wr_output = None\<rparr>"

definition sample_snapshot :: "string \<Rightarrow> status \<Rightarrow> phase \<Rightarrow> snapshot" where
  "sample_snapshot i st ph =
     \<lparr>ns_id = i, ns_status = st, ns_phase = ph, ns_attempt = 1, ns_revisions = 0,
      ns_judgeFailures = None, ns_runtime = None, ns_blockedBy = [],
      ns_startedAt = Some (Iso 0), ns_updatedAt = Some (Iso 0), ns_result = None,
      ns_gate = None, ns_error = None, ns_routing = Some empty_routing, ns_invocations = [],
      ns_executionOverrides = [], ns_verification = None, ns_scope = None, ns_unexpectedPaths = [],
      ns_worktree = None, ns_integratedHead = None, ns_forceFresh = False,
      ns_previousAttempt = None, ns_requirementIds = [], ns_packetHash = None,
      ns_verificationArtifacts = []\<rparr>"

definition sample_invocation :: "string \<Rightarrow> role \<Rightarrow> string \<Rightarrow> invocation" where
  "sample_invocation i role rt =
     \<lparr>in_id = i, in_phase = role, in_runtimeId = Some rt, in_revision = Some 0, in_cycle = Some 0,
      in_costUsd = None, in_usage = None, in_continuationId = None, in_runId = None,
      in_campaignId = None, in_role = Some role, in_promptPath = Some ''p'', in_stdoutPath = Some ''o'',
      in_stderrPath = Some ''e'', in_snapshotPath = None, in_active = True,
      in_startedAt = Some (Iso 0), in_closedAt = None\<rparr>"

definition sample_envelope :: "status \<Rightarrow> provider_error option \<Rightarrow> envelope" where
  "sample_envelope st err =
     \<lparr>en_status = st, en_result = None, en_usage = None, en_costUsd = None, en_priced = False,
      en_error = err, en_resetAt = None, en_exhaustedUntil = None, en_judgeCandidates = None,
      en_continuationId = None\<rparr>"

lemmas sample_defs = sample_runtime_def sample_runtimes_def sample_gate_def sample_node_def
  sample_contract_def sample_snapshot_def sample_invocation_def sample_envelope_def

end
