(* ===== verification/Judge_Independence.thy ===== *)
theory Judge_Independence
  imports Provider Samples
begin

text \<open>
  The two loops of \<open>src/contract/judge-independence.mjs\<close> that follow a worker's fallback
  chain: the question whether any runtime of the chain shares the judge's vendor, and the
  validation that refuses a gated node whose worker side could share it, or marks the node
  as reviewed by its own provider when the contract allows that.
\<close>

section \<open>Does any runtime of the chain share the vendor?\<close>

text \<open>The loop of \<open>sharesVendorThroughFallback\<close>, from the id under the cursor.\<close>

function shares_loop :: "runtimes \<Rightarrow> string \<Rightarrow> string list \<Rightarrow> string \<Rightarrow> bool" where
  "shares_loop rts vendor seen cur =
     (if map_option rt_vendor (map_of rts cur) = Some vendor then True
      else case Option.bind (map_of rts cur) rt_fallback of
             None \<Rightarrow> False
           | Some nextId \<Rightarrow>
               if nextId \<in> set seen then False
               else shares_loop rts vendor (nextId # seen) nextId)"
  by pat_completeness auto
termination
  by (relation "measure (\<lambda>(rts, vendor, seen, cur). fresh_targets rts seen)")
    (auto split: Option.bind_splits)

declare shares_loop.simps [simp del]

definition sharesVendorThroughFallback :: "runtimes \<Rightarrow> string \<Rightarrow> string option \<Rightarrow> bool" where
  "sharesVendorThroughFallback rts workerRuntimeId judgeVendor =
     (case judgeVendor of
        None \<Rightarrow> False
      | Some v \<Rightarrow> if v = [] then False else shares_loop rts v [workerRuntimeId] workerRuntimeId)"

definition chain_has_vendor :: "runtimes \<Rightarrow> string \<Rightarrow> string \<Rightarrow> bool" where
  "chain_has_vendor rts w v \<longleftrightarrow>
     (\<exists>x rt. reaches rts w x \<and> map_of rts x = Some rt \<and> rt_vendor rt = v)"

lemma shares_loop_correct:
  assumes "walk_inv rts w seen cur"
    and "\<forall>x \<in> set seen. x \<noteq> cur \<longrightarrow> map_option rt_vendor (map_of rts x) \<noteq> Some v"
  shows "shares_loop rts v seen cur \<longleftrightarrow> chain_has_vendor rts w v"
  using assms
proof (induction rts v seen cur rule: shares_loop.induct)
  case (1 rts v seen cur)
  have cur: "reaches rts w cur" using "1.prems"(1) by (auto simp: walk_inv_def)
  show ?case
  proof (cases "map_option rt_vendor (map_of rts cur) = Some v")
    case True
    with cur show ?thesis
      by (auto simp: shares_loop.simps [of rts v seen cur] chain_has_vendor_def)
  next
    case False
    show ?thesis
    proof (cases "fallback_of rts cur = None \<or> (\<exists>n \<in> set seen. fallback_of rts cur = Some n)")
      case True
      with "1.prems"(1) have "reaches rts w x \<longleftrightarrow> x \<in> set seen" for x by (rule walk_inv_stop)
      moreover have "\<forall>x \<in> set seen. map_option rt_vendor (map_of rts x) \<noteq> Some v"
        using "1.prems"(2) False by auto
      ultimately show ?thesis using True False
        by (auto simp: shares_loop.simps [of rts v seen cur] chain_has_vendor_def fallback_of_def
            split: option.splits)
    next
      case go: False
      then obtain n where n: "fallback_of rts cur = Some n" "n \<notin> set seen"
        by (cases "fallback_of rts cur") auto
      have "shares_loop rts v (n # seen) n \<longleftrightarrow> chain_has_vendor rts w v"
      proof (rule "1.IH")
        show "walk_inv rts w (n # seen) n" using "1.prems"(1) n(1) by (rule walk_inv_step)
        show "\<forall>x \<in> set (n # seen). x \<noteq> n \<longrightarrow> map_option rt_vendor (map_of rts x) \<noteq> Some v"
          using "1.prems"(2) False by auto
      qed (use False n in \<open>auto simp: fallback_of_def\<close>)
      with False n show ?thesis
        by (auto simp: shares_loop.simps [of rts v seen cur] fallback_of_def)
    qed
  qed
qed

lemma sharesVendor_iff:
  "v \<noteq> [] \<Longrightarrow> sharesVendorThroughFallback rts w (Some v) \<longleftrightarrow> chain_has_vendor rts w v"
  by (simp add: sharesVendorThroughFallback_def shares_loop_correct walk_inv_init)

section \<open>Refusing or marking the nodes of a contract\<close>

text \<open>
  What the validation throws. \<open>Undefined_runtime\<close> is the \<open>TypeError\<close> JavaScript itself raises
  when a property of a missing runtime is read.
\<close>

datatype independence_error =
    Shared_vendor nat string string string
  | Shared_vendor_refused nat string string string string
  | Fallback_cycle nat string string
  | Shared_fallback_vendor nat string string string string
  | Shared_fallback_refused nat string string string string string
  | Undefined_runtime string

text \<open>What shrinks in the inner loop: the declared runtimes not yet seen.\<close>

definition unseen_runtimes :: "runtimes \<Rightarrow> string list \<Rightarrow> nat" where
  "unseen_runtimes rts seen = card (fst ` set rts - set seen)"

lemma unseen_runtimes_less:
  assumes "map_of rts f = Some rt" and "f \<notin> set seen"
  shows "unseen_runtimes rts (f # seen) < unseen_runtimes rts seen"
proof -
  have "f \<in> fst ` set rts - set seen"
    using assms by (force dest: map_of_SomeD)
  moreover have "fst ` set rts - set (f # seen) = fst ` set rts - set seen - {f}" by auto
  ultimately show ?thesis
    unfolding unseen_runtimes_def by (metis card_Diff1_less finite_Diff finite_imageI finite_set)
qed

text \<open>
  The inner loop over the worker's fallbacks: \<open>marked\<close> says whether the node already carries
  \<open>sameProviderReview: true\<close>.
\<close>

function mark_fallbacks ::
  "runtimes \<Rightarrow> bool \<Rightarrow> nat \<Rightarrow> string \<Rightarrow> string \<Rightarrow> runtime \<Rightarrow> string list \<Rightarrow> string option \<Rightarrow> bool
    \<Rightarrow> independence_error + bool" where
  "mark_fallbacks rts sameVendor index workerId judgeId judge seen fallbackId marked =
     (case fallbackId of
        None \<Rightarrow> Inr marked
      | Some f \<Rightarrow>
          if f \<in> set seen then Inl (Fallback_cycle index workerId f)
          else case map_of rts f of
                 None \<Rightarrow> Inl (Undefined_runtime f)
               | Some rt \<Rightarrow>
                   if rt_vendor rt = rt_vendor judge then
                     (if \<not> sameVendor
                      then Inl (Shared_fallback_vendor index workerId f judgeId (rt_vendor rt))
                      else case sameVendorTierRefusal rt judge of
                             Some refusal \<Rightarrow>
                               Inl (Shared_fallback_refused index workerId f judgeId (rt_vendor rt)
                                      (snd refusal))
                           | None \<Rightarrow>
                               mark_fallbacks rts sameVendor index workerId judgeId judge
                                 (f # seen) (rt_fallback rt) True)
                   else mark_fallbacks rts sameVendor index workerId judgeId judge
                          (f # seen) (rt_fallback rt) marked)"
  by pat_completeness auto
termination
  by (relation "measure (\<lambda>(rts, sv, i, w, j, jr, seen, fb, m). unseen_runtimes rts seen)")
    (auto intro: unseen_runtimes_less)

declare mark_fallbacks.simps [simp del]

text \<open>One iteration of the outer loop.\<close>

definition mark_node ::
  "runtimes \<Rightarrow> string option \<Rightarrow> string option \<Rightarrow> bool \<Rightarrow> nat \<Rightarrow> node \<Rightarrow> independence_error + node" where
  "mark_node rts defaultWorker defaultJudge sameVendor index node =
     (if \<not> gt_enabled (nd_gate node) then Inr node
      else case (orelse (nd_runtime node) defaultWorker,
                 orelse (gt_runtime (nd_gate node)) defaultJudge) of
             (Some workerId, Some judgeId) \<Rightarrow>
               if workerId = [] \<or> judgeId = [] then Inr node
               else (case (map_of rts workerId, map_of rts judgeId) of
                  (Some worker, Some judge) \<Rightarrow>
                    (let shared = (rt_vendor worker = rt_vendor judge)
                     in if shared \<and> \<not> sameVendor
                        then Inl (Shared_vendor index workerId judgeId (rt_vendor worker))
                        else case (if shared then sameVendorTierRefusal worker judge else None) of
                               Some refusal \<Rightarrow>
                                 Inl (Shared_vendor_refused index workerId judgeId (rt_vendor worker)
                                        (snd refusal))
                             | None \<Rightarrow>
                                 (case mark_fallbacks rts sameVendor index workerId judgeId judge
                                         [workerId] (rt_fallback worker)
                                         (shared \<or> nd_sameProviderReview node) of
                                    Inl e \<Rightarrow> Inl e
                                  | Inr marked \<Rightarrow> Inr (node\<lparr>nd_sameProviderReview := marked\<rparr>)))
                | (None, _) \<Rightarrow> Inl (Undefined_runtime workerId)
                | (_, None) \<Rightarrow> Inl (Undefined_runtime judgeId))
           | _ \<Rightarrow> Inr node)"

fun markSameProviderReviewNodes ::
  "runtimes \<Rightarrow> string option \<Rightarrow> string option \<Rightarrow> bool \<Rightarrow> nat \<Rightarrow> node list
    \<Rightarrow> independence_error + node list" where
  "markSameProviderReviewNodes rts dw dj sv index [] = Inr []"
| "markSameProviderReviewNodes rts dw dj sv index (node # nodes) =
     (case mark_node rts dw dj sv index node of
        Inl e \<Rightarrow> Inl e
      | Inr node' \<Rightarrow>
          (case markSameProviderReviewNodes rts dw dj sv (Suc index) nodes of
             Inl e \<Rightarrow> Inl e
           | Inr nodes' \<Rightarrow> Inr (node' # nodes')))"

section \<open>What an accepted contract guarantees\<close>

text \<open>A runtime the judge may share a vendor with: only in same-vendor mode, and tier permitting.\<close>

definition admissible_pair :: "bool \<Rightarrow> runtime \<Rightarrow> runtime \<Rightarrow> bool" where
  "admissible_pair sameVendor rt judge \<longleftrightarrow>
     rt_vendor rt \<noteq> rt_vendor judge \<or> (sameVendor \<and> sameVendorTierRefusal rt judge = None)"

definition chain_admissible :: "runtimes \<Rightarrow> bool \<Rightarrow> string \<Rightarrow> runtime \<Rightarrow> bool" where
  "chain_admissible rts sameVendor w judge \<longleftrightarrow>
     (\<forall>x rt. reaches rts w x \<longrightarrow> map_of rts x = Some rt \<longrightarrow> admissible_pair sameVendor rt judge)"

lemma mark_fallbacks_sound:
  assumes "mark_fallbacks rts sv i w j judge seen fb marked = Inr m"
    and "walk_inv rts w seen cur" and "fallback_of rts cur = fb"
    and "\<forall>x \<in> set seen. \<forall>rt. map_of rts x = Some rt \<longrightarrow> admissible_pair sv rt judge"
    and "marked \<longleftrightarrow> b \<or> (\<exists>x \<in> set seen. \<exists>rt. map_of rts x = Some rt \<and> rt_vendor rt = rt_vendor judge)"
  shows "chain_admissible rts sv w judge \<and> (m \<longleftrightarrow> b \<or> chain_has_vendor rts w (rt_vendor judge))"
  using assms
proof (induction rts sv i w j judge seen fb marked arbitrary: cur rule: mark_fallbacks.induct)
  case (1 rts sv i w j judge seen fb marked)
  show ?case
  proof (cases fb)
    case None
    with "1.prems"(2,3) have "reaches rts w x \<longleftrightarrow> x \<in> set seen" for x
      by (intro walk_inv_stop) auto
    with None "1.prems"(1,4,5) show ?thesis
      by (auto simp: mark_fallbacks.simps [of _ _ _ _ _ _ _ None] chain_admissible_def
          chain_has_vendor_def)
  next
    case (Some f)
    with "1.prems"(1) obtain rt where f: "f \<notin> set seen" "map_of rts f = Some rt"
      by (auto simp: mark_fallbacks.simps [of _ _ _ _ _ _ _ "Some f"] split: if_splits option.splits)
    let ?marked = "marked \<or> rt_vendor rt = rt_vendor judge"
    from Some f "1.prems"(1)
    have run: "mark_fallbacks rts sv i w j judge (f # seen) (rt_fallback rt) ?marked = Inr m"
      and pair: "admissible_pair sv rt judge"
      by (auto simp: mark_fallbacks.simps [of _ _ _ _ _ _ _ "Some f"] admissible_pair_def
          split: if_splits option.splits)
    have walk: "walk_inv rts w (f # seen) f"
      using "1.prems"(2,3) Some by (intro walk_inv_step) auto
    have next_f: "fallback_of rts f = rt_fallback rt" using f by (simp add: fallback_of_def)
    have adm: "\<forall>x \<in> set (f # seen). \<forall>rt. map_of rts x = Some rt \<longrightarrow> admissible_pair sv rt judge"
      using "1.prems"(4) pair f by auto
    have mk: "?marked \<longleftrightarrow> b \<or> (\<exists>x \<in> set (f # seen). \<exists>rt. map_of rts x = Some rt
        \<and> rt_vendor rt = rt_vendor judge)"
      using "1.prems"(5) f by auto
    show ?thesis
    proof (cases "rt_vendor rt = rt_vendor judge")
      case True
      with pair have "sv" "sameVendorTierRefusal rt judge = None" by (auto simp: admissible_pair_def)
      with True run walk next_f adm mk Some f show ?thesis
        by (intro "1.IH"(1)) auto
    next
      case False
      with run walk next_f adm mk Some f show ?thesis
        by (intro "1.IH"(2)) auto
    qed
  qed
qed

lemma mark_node_sound:
  assumes ok: "mark_node rts dw dj sv i node = Inr node'"
    and gated: "gt_enabled (nd_gate node)"
    and w: "orelse (nd_runtime node) dw = Some w" "w \<noteq> []"
    and j: "orelse (gt_runtime (nd_gate node)) dj = Some j" "j \<noteq> []" "map_of rts j = Some judge"
  shows "chain_admissible rts sv w judge \<and>
    nd_sameProviderReview node' =
      (nd_sameProviderReview node \<or> chain_has_vendor rts w (rt_vendor judge))"
proof -
  from ok gated w j obtain worker m where worker: "map_of rts w = Some worker"
    and pair: "admissible_pair sv worker judge"
    and run: "mark_fallbacks rts sv i w j judge [w] (rt_fallback worker)
        (rt_vendor worker = rt_vendor judge \<or> nd_sameProviderReview node) = Inr m"
    and node': "node' = node\<lparr>nd_sameProviderReview := m\<rparr>"
    by (auto simp: mark_node_def admissible_pair_def Let_def
        split: if_splits option.splits sum.splits)
  have "chain_admissible rts sv w judge \<and>
      (m \<longleftrightarrow> nd_sameProviderReview node \<or> chain_has_vendor rts w (rt_vendor judge))"
    using run walk_inv_init
    by (rule mark_fallbacks_sound) (use worker pair in \<open>auto simp: fallback_of_def\<close>)
  with node' show ?thesis by simp
qed

lemma mark_nodes_member:
  assumes "markSameProviderReviewNodes rts dw dj sv i nodes = Inr nodes'"
    and "k < length nodes"
  shows "mark_node rts dw dj sv (i + k) (nodes ! k) = Inr (nodes' ! k)"
  using assms
proof (induction nodes arbitrary: i nodes' k)
  case Nil
  then show ?case by simp
next
  case (Cons node nodes)
  then show ?case
    by (cases k) (force split: sum.splits)+
qed

lemma mark_nodes_length:
  "markSameProviderReviewNodes rts dw dj sv i nodes = Inr nodes' \<Longrightarrow> length nodes' = length nodes"
  by (induction nodes arbitrary: i nodes') (auto split: sum.splits)

text \<open>
  C19. When a contract declares no same-vendor mode and validation accepts it, no runtime the
  worker of a gated node can end up on, following declared fallbacks to any depth, shares the
  vendor of the node's judge.
\<close>

theorem accepted_contract_cross_vendor:
  assumes "markSameProviderReviewNodes rts dw dj False 0 nodes = Inr nodes'"
    and "node \<in> set nodes" and "gt_enabled (nd_gate node)"
    and "orelse (nd_runtime node) dw = Some w" and "w \<noteq> []"
    and "orelse (gt_runtime (nd_gate node)) dj = Some j" and "j \<noteq> []"
    and "map_of rts j = Some judge" and "reaches rts w x" and "map_of rts x = Some rt"
  shows "rt_vendor rt \<noteq> rt_vendor judge"
proof -
  from assms(2) obtain k where "k < length nodes" "nodes ! k = node" by (auto simp: in_set_conv_nth)
  with assms(1) have "mark_node rts dw dj False (0 + k) node = Inr (nodes' ! k)"
    by (auto dest: mark_nodes_member)
  from mark_node_sound [OF this assms(3-8)] show ?thesis
    using assms(9,10) by (auto simp: chain_admissible_def admissible_pair_def)
qed

text \<open>
  In same-vendor mode validation accepts a shared vendor only under the tier rule: every
  runtime of the worker's chain with the judge's vendor passes it, and the node leaves
  validation marked \<open>sameProviderReview\<close> exactly when the loop of
  \<open>sharesVendorThroughFallback\<close> finds such a runtime (or the mark was already there).
\<close>

theorem same_vendor_mode_marks_and_ranks:
  assumes "markSameProviderReviewNodes rts dw dj True 0 nodes = Inr nodes'"
    and "k < length nodes" and "gt_enabled (nd_gate (nodes ! k))"
    and "orelse (nd_runtime (nodes ! k)) dw = Some w" and "w \<noteq> []"
    and "orelse (gt_runtime (nd_gate (nodes ! k))) dj = Some j" and "j \<noteq> []"
    and "map_of rts j = Some judge" and "rt_vendor judge \<noteq> []"
  shows "(nd_sameProviderReview (nodes' ! k) \<longleftrightarrow>
            nd_sameProviderReview (nodes ! k) \<or>
            sharesVendorThroughFallback rts w (Some (rt_vendor judge))) \<and>
         (\<forall>x rt. reaches rts w x \<longrightarrow> map_of rts x = Some rt \<longrightarrow> rt_vendor rt = rt_vendor judge \<longrightarrow>
            sameVendorTierRefusal rt judge = None)"
proof -
  from assms(1,2) have "mark_node rts dw dj True (0 + k) (nodes ! k) = Inr (nodes' ! k)"
    by (rule mark_nodes_member)
  from mark_node_sound [OF this assms(3-8)] show ?thesis
    using assms(9) by (auto simp: sharesVendor_iff chain_admissible_def admissible_pair_def)
qed

theorem accepted_contract_cross_vendor_witness:
  "rt_vendor (sample_runtime ''claude'' ''claude-sonnet-5'' ''anthropic'' None) \<noteq>
   rt_vendor (sample_runtime ''codex'' ''gpt-5.6'' ''openai'' None)"
proof -
  let ?node = "sample_node ''a'' [] (Some ''glm'') (Some ''gpt'')"
  have run: "markSameProviderReviewNodes sample_runtimes None None False 0 [?node] = Inr [?node]"
    by (simp add: sample_defs mark_node_def mark_fallbacks.simps)
  have chain: "reaches sample_runtimes ''glm'' ''sonnet''"
    by (rule reaches.hop [OF _ reaches.self]) (simp add: fallback_of_def sample_defs)
  show ?thesis
    by (rule accepted_contract_cross_vendor [OF run, where x = "''sonnet''" and w = "''glm''"
          and j = "''gpt''" and node = ?node]) (use chain in \<open>simp_all add: sample_defs\<close>)
qed

theorem same_vendor_mode_marks_and_ranks_witness:
  "sharesVendorThroughFallback sample_runtimes ''glm'' (Some ''anthropic'') \<and>
   nd_sameProviderReview ((sample_node ''a'' [] (Some ''glm'') (Some ''opus''))
     \<lparr>nd_sameProviderReview := True\<rparr>)"
proof -
  let ?node = "sample_node ''a'' [] (Some ''glm'') (Some ''opus'')"
  let ?node' = "?node\<lparr>nd_sameProviderReview := True\<rparr>"
  have run: "markSameProviderReviewNodes sample_runtimes None None True 0 [?node] = Inr [?node']"
    by (simp add: sample_defs mark_node_def mark_fallbacks.simps sameVendorTierRefusal_def
        declaredModelTier_def ANTHROPIC_MODEL_TIERS_def)
  show ?thesis
    using same_vendor_mode_marks_and_ranks [OF run, where k = 0 and w = "''glm''"
        and j = "''opus''" and judge = "sample_runtime ''claude'' ''claude-opus-5'' ''anthropic'' None"]
    by (simp add: sample_defs)
qed

end
