(* ===== verification/Discovery.thy ===== *)
theory Discovery
  imports Provider Samples
begin

text \<open>
  Composing runtimes from what discovery found: \<open>src/engine/runtime-discovery.mjs\<close>. Which
  recorded verdicts still make a runtime available, the orders \<open>cheapest\<close> and \<open>strongest\<close>
  choose by, the next runtime of the same tier, and the assignment of a worker and a judge to
  every node, with every way it can refuse.
\<close>

section \<open>The built-in runtime definitions\<close>

definition discovery_runtime ::
  "string \<Rightarrow> string \<Rightarrow> string \<Rightarrow> (string \<times> string) list option \<Rightarrow> nat \<Rightarrow> rat \<Rightarrow> runtime" where
  "discovery_runtime harness model vendor config tier rank =
     \<lparr>rt_harness = harness, rt_model = model, rt_vendor = vendor, rt_config = config,
      rt_executable = None, rt_costRank = Some rank, rt_tier = Some (Tier_num tier),
      rt_fallback = None, rt_maxConcurrent = None\<rparr>"

definition DISCOVERY_RUNTIME_DEFINITIONS :: "(string \<times> runtime) list" where
  "DISCOVERY_RUNTIME_DEFINITIONS =
     [(''fx-deepseek'', discovery_runtime ''fx'' ''deepseek-flash'' ''deepseek''
         (Some [(''api_key.env_key'', ''DEEPSEEK_API_KEY'')]) 1 1),
      (''dsh-deepseek'', discovery_runtime ''dsh'' ''deepseek-flash'' ''deepseek''
         (Some [(''provider'', ''deepseek-official''), (''api_key.env_key'', ''DEEPSEEK_API_KEY'')])
         1 1),
      (''fx-glm'', discovery_runtime ''fx'' ''glm-5.3'' ''zhipu''
         (Some [(''base_url'', ''https://api.z.ai/api/coding/paas/v4''),
                (''api_key.env_key'', ''ZAI_API_KEY'')]) 1 1),
      (''claude-glm'', discovery_runtime ''claude'' ''glm-5.3'' ''zhipu''
         (Some [(''base_url'', ''https://api.z.ai/api/anthropic''),
                (''auth_token.env_key'', ''ZAI_API_KEY'')]) 1 1),
      (''zcode-glm'', discovery_runtime ''zcode'' ''glm-5.3-flash'' ''zhipu''
         (Some [(''auth_token.env_key'', ''ZAI_API_KEY'')]) 1 1),
      (''agy-gemini'', discovery_runtime ''agy'' ''gemini-3.8-flash-low'' ''google'' None 1 1),
      (''fx-gpt'', discovery_runtime ''fx'' ''gpt-5.6-sol'' ''openai''
         (Some [(''provider'', ''codex'')]) 2 2),
      (''codex-gpt'', discovery_runtime ''codex'' ''gpt-5.6'' ''openai'' None 2 2),
      (''codex-sol'', discovery_runtime ''codex'' ''gpt-5.6-sol'' ''openai'' None 2 2),
      (''codex-luna'', discovery_runtime ''codex'' ''gpt-5.6-luna'' ''openai'' None 2 2),
      (''claude-sonnet'', discovery_runtime ''claude'' ''claude-sonnet-5'' ''anthropic'' None 2 2)]"

section \<open>Availability of a recorded verdict\<close>

definition PREFLIGHT_FRESH_SEC :: int where
  "PREFLIGHT_FRESH_SEC = 15 * 60"

definition PREFLIGHT_WINDOW :: string where
  "PREFLIGHT_WINDOW = ''preflight''"

definition AVAILABILITY_WINDOW_SEC :: "string \<Rightarrow> int option" where
  "AVAILABILITY_WINDOW_SEC w =
     (if w = ''five_hour'' then Some (5 * 3600)
      else if w = ''seven_day'' then Some (7 * 86400)
      else if w = PREFLIGHT_WINDOW then Some PREFLIGHT_FRESH_SEC
      else None)"

definition isRuntimeAvailable :: "availability option \<Rightarrow> int \<Rightarrow> bool" where
  "isRuntimeAvailable availability now =
     (case availability of
        None \<Rightarrow> False
      | Some a \<Rightarrow>
          (let rested = (if av_available a
                         then \<not> truthy_stamp (av_exhaustedUntil a)
                              \<or> stamp_le (av_exhaustedUntil a) now
                         else truthy_stamp (av_exhaustedUntil a)
                              \<and> stamp_le (av_exhaustedUntil a) now)
           in if \<not> rested then False
              else case Option.bind (av_window a) AVAILABILITY_WINDOW_SEC of
                     None \<Rightarrow> True
                   | Some windowSec \<Rightarrow>
                       (case av_observedAt a of
                          None \<Rightarrow> True
                        | Some observedAt \<Rightarrow>
                            (case date_parse observedAt of
                               None \<Rightarrow> False
                             | Some t \<Rightarrow> t + windowSec * 1000 \<ge> now))))"

section \<open>Candidates and the orders they are chosen by\<close>

record candidate =
  ca_id :: string
  ca_runtime :: runtime
  ca_order :: nat

definition MAX_SAFE_INTEGER :: rat where
  "MAX_SAFE_INTEGER = 9007199254740991"

definition availableCandidates ::
  "(string \<times> runtime) list \<Rightarrow> (string \<times> availability) list \<Rightarrow> int \<Rightarrow> candidate list" where
  "availableCandidates runtimes availability now =
     map (\<lambda>(order, (i, rt)). \<lparr>ca_id = i, ca_runtime = rt, ca_order = order\<rparr>)
       (enumerate 0 (filter (\<lambda>e. isRuntimeAvailable (map_of availability (fst e)) now) runtimes))"

definition runtimeOrder :: "runtime \<Rightarrow> rat" where
  "runtimeOrder rt = nullish (rt_costRank rt) MAX_SAFE_INTEGER"

definition tierOrder :: "runtime \<Rightarrow> rat" where
  "tierOrder rt =
     (case rt_tier rt of
        Some (Tier_num n) \<Rightarrow> of_nat n
      | _ \<Rightarrow> nullish (rt_costRank rt) MAX_SAFE_INTEGER)"

definition cheapest :: "candidate list \<Rightarrow> candidate option" where
  "cheapest candidates =
     head_opt (sort_key (\<lambda>c. (tierOrder (ca_runtime c), runtimeOrder (ca_runtime c), ca_order c))
       candidates)"

definition strongest :: "candidate list \<Rightarrow> string option \<Rightarrow> candidate option" where
  "strongest candidates vendor =
     head_opt (sort_key (\<lambda>c. (- tierOrder (ca_runtime c), - runtimeOrder (ca_runtime c), ca_order c))
       (filter (\<lambda>c. Some (effectiveProvider (ca_runtime c)) \<noteq> vendor) candidates))"

definition candidateById :: "candidate list \<Rightarrow> string option \<Rightarrow> candidate option" where
  "candidateById candidates i =
     (case i of None \<Rightarrow> None | Some j \<Rightarrow> List.find (\<lambda>c. ca_id c = j) candidates)"

definition sameTier :: "runtime \<Rightarrow> runtime \<Rightarrow> bool" where
  "sameTier left right =
     (if rt_tier left \<noteq> None \<or> rt_tier right \<noteq> None then rt_tier left = rt_tier right
      else runtimeOrder left = runtimeOrder right)"

definition isTierAdmissible :: "runtime \<Rightarrow> runtime \<Rightarrow> bool" where
  "isTierAdmissible worker judge = (sameVendorTierRefusal worker judge = None)"

lemma candidate_is_available:
  assumes "c \<in> set (availableCandidates rts avail now)"
  shows "(ca_id c, ca_runtime c) \<in> set rts \<and> isRuntimeAvailable (map_of avail (ca_id c)) now"
  using assms by (auto simp: availableCandidates_def in_set_enumerate_eq dest!: nth_mem)

lemma cheapest_in: "cheapest cs = Some c \<Longrightarrow> c \<in> set cs"
  unfolding cheapest_def by (rule sort_key_head_in)

lemma cheapest_least:
  assumes "cheapest cs = Some c" and "d \<in> set cs"
  shows "tierOrder (ca_runtime c) < tierOrder (ca_runtime d) \<or>
    (tierOrder (ca_runtime c) = tierOrder (ca_runtime d) \<and>
     runtimeOrder (ca_runtime c) \<le> runtimeOrder (ca_runtime d))"
  using sort_key_head_least [OF assms(1) [unfolded cheapest_def] assms(2)]
  by (auto simp: less_eq_prod_def)

lemma strongest_in:
  "strongest cs v = Some c \<Longrightarrow> c \<in> set cs \<and> Some (effectiveProvider (ca_runtime c)) \<noteq> v"
  by (auto simp: strongest_def dest!: sort_key_head_in)

lemma strongest_greatest:
  assumes "strongest cs v = Some c" and "d \<in> set cs"
    and "Some (effectiveProvider (ca_runtime d)) \<noteq> v"
  shows "tierOrder (ca_runtime d) < tierOrder (ca_runtime c) \<or>
    (tierOrder (ca_runtime d) = tierOrder (ca_runtime c) \<and>
     runtimeOrder (ca_runtime d) \<le> runtimeOrder (ca_runtime c))"
  using sort_key_head_least [OF assms(1) [unfolded strongest_def], of d] assms(2,3)
  by (auto simp: less_eq_prod_def)

section \<open>The next runtime of the same tier\<close>

definition nextSameTierRuntime ::
  "contract \<Rightarrow> routing \<Rightarrow> role \<Rightarrow> string \<Rightarrow> string list \<Rightarrow> int \<Rightarrow> string option" where
  "nextSameTierRuntime contract stateRouting role current attempted now =
     (case runtime_of contract current of
        None \<Rightarrow> None
      | Some currentRuntime \<Rightarrow>
          (let workerProvider = map_option effectiveProvider
                 (Option.bind (map_option as_worker (ro_assignments stateRouting))
                   (runtime_of contract));
               available = (\<lambda>i. isRuntimeAvailable
                 (Option.bind (ro_availability stateRouting) (\<lambda>a. map_of a i)) now)
           in map_option fst (head_opt (sort_key (\<lambda>e. runtimeOrder (snd e))
                (filter (\<lambda>e. role \<noteq> Judge \<or> Some (effectiveProvider (snd e)) \<noteq> workerProvider)
                  (filter (\<lambda>e. available (fst e))
                    (filter (\<lambda>e. fst e \<noteq> current \<and> fst e \<notin> set attempted
                                 \<and> sameTier (snd e) currentRuntime)
                      (ct_runtimes contract))))))))"

section \<open>Assigning a worker and a judge to every node\<close>

text \<open>The user configuration the composition reads (\<open>src/host/config.mjs\<close> validates it).\<close>

record user_config =
  uc_harnesses :: "string list option"
  uc_worker :: "string option"
  uc_judge :: "string option"
  uc_judges :: "string list option"
  uc_sameVendor :: bool

datatype assign_error =
    Worker_unavailable string
  | Judge_list_unavailable string string "judge_skip list"
  | No_cross_vendor_judge string string
  | Judge_is_worker string string
  | Judge_tier_refused string string

record node_assignment =
  na_worker :: string
  na_judge :: string
  na_sameVendor :: bool

text \<open>
  The candidates the configuration's harness list leaves, and whether its warning is raised
  because the list leaves none.
\<close>

definition restrict_candidates :: "user_config option \<Rightarrow> candidate list \<Rightarrow> candidate list \<times> bool" where
  "restrict_candidates config allCandidates =
     (case Option.bind config uc_harnesses of
        None \<Rightarrow> (allCandidates, False)
      | Some harnesses \<Rightarrow>
          (let restricted =
                 filter (\<lambda>c. rt_harness (ca_runtime c) \<in> set harnesses) allCandidates
           in if restricted \<noteq> [] then (restricted, False)
              else (allCandidates, allCandidates \<noteq> [])))"

definition choose_worker ::
  "contract \<Rightarrow> user_config option \<Rightarrow> candidate list \<Rightarrow> node \<Rightarrow> string option" where
  "choose_worker contract config candidates node =
     orelse (nd_runtime node) (orelse (ct_defaultWorker contract)
       (orelse (map_option ca_id (candidateById candidates (Option.bind config uc_worker)))
         (map_option ca_id (cheapest candidates))))"

text \<open>
  The judge when none is declared and no list picked one: the preferred runtime if it is
  another provider's, else the strongest of another provider, else, in same-vendor mode, the
  strongest the tier rule admits.
\<close>

definition choose_free_judge ::
  "user_config option \<Rightarrow> candidate list \<Rightarrow> bool \<Rightarrow> string \<Rightarrow> runtime \<Rightarrow> string option" where
  "choose_free_judge config candidates sameVendorMode worker workerRuntime =
     (let workerProvider = effectiveProvider workerRuntime;
          preferred = candidateById candidates (Option.bind config uc_judge)
      in orelse (case preferred of
             Some p \<Rightarrow> if effectiveProvider (ca_runtime p) \<noteq> workerProvider then Some (ca_id p) else None
           | None \<Rightarrow> None)
         (orelse (map_option ca_id (strongest candidates (Some workerProvider)))
            (if sameVendorMode
             then map_option ca_id (strongest (filter (\<lambda>c. ca_id c \<noteq> worker
                    \<and> isTierAdmissible workerRuntime (ca_runtime c)) candidates) None)
             else None)))"

text \<open>The checks on the pair chosen for a gated node.\<close>

definition check_pair ::
  "contract \<Rightarrow> bool \<Rightarrow> node \<Rightarrow> string \<Rightarrow> runtime \<Rightarrow> string option \<Rightarrow> assign_error option" where
  "check_pair contract sameVendorMode node worker workerRuntime judge =
     (if \<not> gt_enabled (nd_gate node) then None
      else case Option.bind judge (runtime_of contract) of
             None \<Rightarrow> Some (No_cross_vendor_judge (nd_id node) worker)
           | Some judgeRuntime \<Rightarrow>
               if effectiveProvider judgeRuntime \<noteq> effectiveProvider workerRuntime then None
               else if \<not> sameVendorMode then Some (No_cross_vendor_judge (nd_id node) worker)
               else if judge = Some worker then Some (Judge_is_worker worker (nd_id node))
               else map_option (\<lambda>r. Judge_tier_refused (snd r) (nd_id node))
                      (sameVendorTierRefusal workerRuntime judgeRuntime))"

definition settle_pair ::
  "contract \<Rightarrow> bool \<Rightarrow> node \<Rightarrow> string \<Rightarrow> runtime \<Rightarrow> string option
    \<Rightarrow> assign_error + node_assignment" where
  "settle_pair contract sameVendorMode node worker workerRuntime judge =
     (case check_pair contract sameVendorMode node worker workerRuntime judge of
        Some e \<Rightarrow> Inl e
      | None \<Rightarrow> Inr \<lparr>na_worker = worker, na_judge = nullish judge worker,
                  na_sameVendor = sameVendorMode\<rparr>)"

type_synonym list_judge = "node \<Rightarrow> string \<Rightarrow> judge_list_state option"

definition composeNode ::
  "contract \<Rightarrow> user_config option \<Rightarrow> list_judge \<Rightarrow> candidate list \<Rightarrow> node
    \<Rightarrow> assign_error + node_assignment" where
  "composeNode contract config listJudge candidates node =
     (case choose_worker contract config candidates node of
        None \<Rightarrow> Inl (Worker_unavailable (nd_id node))
      | Some worker \<Rightarrow>
          (case runtime_of contract worker of
             None \<Rightarrow> Inl (Worker_unavailable (nd_id node))
           | Some workerRuntime \<Rightarrow>
               (let declaredJudge = orelse (gt_runtime (nd_gate node)) (ct_defaultJudge contract);
                    listPick = (if declaredJudge = None then listJudge node worker else None);
                    sameVendorMode = effectiveJudgeIndependence (ct_sameVendor contract)
                      (case config of None \<Rightarrow> False | Some c \<Rightarrow> uc_sameVendor c)
                in case listPick of
                     None \<Rightarrow> settle_pair contract sameVendorMode node worker workerRuntime
                       (orelse declaredJudge
                         (choose_free_judge config candidates sameVendorMode worker workerRuntime))
                   | Some pick \<Rightarrow>
                       (case jl_chosen pick of
                          None \<Rightarrow> Inl (Judge_list_unavailable (nd_id node) worker (jl_skipped pick))
                        | Some chosen \<Rightarrow>
                            settle_pair contract sameVendorMode node worker workerRuntime
                              (Some chosen)))))"

fun composeLoop ::
  "contract \<Rightarrow> user_config option \<Rightarrow> list_judge \<Rightarrow> candidate list \<Rightarrow> node list
    \<Rightarrow> (string \<times> node_assignment) list \<Rightarrow> assign_error + (string \<times> node_assignment) list" where
  "composeLoop contract config listJudge candidates [] acc = Inr acc"
| "composeLoop contract config listJudge candidates (node # nodes) acc =
     (case composeNode contract config listJudge candidates node of
        Inl e \<Rightarrow> Inl e
      | Inr a \<Rightarrow> composeLoop contract config listJudge candidates nodes
                   (AList.update (nd_id node) a acc))"

definition composeAssignments ::
  "contract \<Rightarrow> (string \<times> availability) list \<Rightarrow> user_config option \<Rightarrow> list_judge \<Rightarrow> int
    \<Rightarrow> assign_error + (string \<times> node_assignment) list" where
  "composeAssignments contract availability config listJudge now =
     (let candidates = fst (restrict_candidates config
            (availableCandidates (ct_runtimes contract) availability now))
      in composeLoop contract config listJudge candidates (ct_nodes contract) [])"

section \<open>What a composition guarantees\<close>

text \<open>The pairs a gated node may be reviewed by.\<close>

definition independent_pair :: "bool \<Rightarrow> string \<Rightarrow> runtime \<Rightarrow> string \<Rightarrow> runtime \<Rightarrow> bool" where
  "independent_pair sameVendorMode worker workerRuntime judge judgeRuntime \<longleftrightarrow>
     effectiveProvider judgeRuntime \<noteq> effectiveProvider workerRuntime \<or>
     (sameVendorMode \<and> judge \<noteq> worker \<and> sameVendorTierRefusal workerRuntime judgeRuntime = None)"

definition assignment_ok :: "contract \<Rightarrow> node \<Rightarrow> node_assignment \<Rightarrow> bool" where
  "assignment_ok contract node a \<longleftrightarrow>
     (\<exists>w. runtime_of contract (na_worker a) = Some w \<and>
       (gt_enabled (nd_gate node) \<longrightarrow>
         (\<exists>j. runtime_of contract (na_judge a) = Some j \<and>
              independent_pair (na_sameVendor a) (na_worker a) w (na_judge a) j)))"

lemma settle_pair_ok:
  assumes "settle_pair contract sv node worker w judge = Inr a"
    and "runtime_of contract worker = Some w"
  shows "assignment_ok contract node a \<and> na_worker a = worker \<and> na_sameVendor a = sv"
  using assms
  by (cases judge)
    (auto simp: settle_pair_def check_pair_def assignment_ok_def independent_pair_def
      split: if_splits option.splits)

lemma settle_pair_judge: "settle_pair contract sv node worker w (Some j) = Inr a \<Longrightarrow> na_judge a = j"
  by (auto simp: settle_pair_def split: option.splits)

lemma composeNode_judge:
  assumes "composeNode contract config listJudge cs node = Inr a"
    and "orelse (gt_runtime (nd_gate node)) (ct_defaultJudge contract) = Some j"
  shows "na_judge a = j"
  using assms by (auto simp: composeNode_def Let_def split: option.splits dest!: settle_pair_judge)

lemma composeNode_ok:
  assumes "composeNode contract config listJudge cs node = Inr a"
  shows "assignment_ok contract node a \<and>
    choose_worker contract config cs node = Some (na_worker a) \<and>
    na_sameVendor a = effectiveJudgeIndependence (ct_sameVendor contract)
      (case config of None \<Rightarrow> False | Some c \<Rightarrow> uc_sameVendor c)"
  using assms
  by (auto simp: composeNode_def Let_def split: option.splits if_splits dest!: settle_pair_ok)

lemma composeLoop_member:
  assumes "composeLoop contract config lj cs nodes acc = Inr as" and "distinct (map nd_id nodes)"
  shows "(\<forall>node \<in> set nodes. \<exists>a. map_of as (nd_id node) = Some a \<and>
            composeNode contract config lj cs node = Inr a) \<and>
         (\<forall>k. k \<notin> nd_id ` set nodes \<longrightarrow> map_of as k = map_of acc k)"
  using assms
proof (induction nodes arbitrary: acc)
  case Nil
  then show ?case by simp
next
  case (Cons node nodes)
  from Cons.prems obtain a where a: "composeNode contract config lj cs node = Inr a"
    and rest: "composeLoop contract config lj cs nodes (AList.update (nd_id node) a acc) = Inr as"
    by (auto split: sum.splits)
  from Cons.IH [OF rest] Cons.prems(2) a show ?case
    by (auto simp: update_conv')
qed

text \<open>The operator opted into same-vendor review: the contract declares it, or the machine's configuration does.\<close>

definition same_vendor_declared :: "contract \<Rightarrow> user_config option \<Rightarrow> bool" where
  "same_vendor_declared contract config \<longleftrightarrow> ct_sameVendor contract \<or> (\<exists>c. config = Some c \<and> uc_sameVendor c)"

text \<open>
  C20. Composition never pairs a gated node with a judge of its worker's provider, unless the contract or the
  machine's configuration declares same-vendor review, the judge is another runtime, and its model tier admits it.
  The worker assigned to a node is always a declared runtime, and so is the judge of a gated node; a worker or a
  judge that the node or the contract's defaults name is the one assigned; and the assignment records same-vendor
  review exactly when it is declared. The ids of the contract's nodes are distinct.
\<close>

theorem composed_assignment_independent:
  assumes "composeAssignments contract avail config listJudge now = Inr as"
    and "distinct (map nd_id (ct_nodes contract))" and "node \<in> set (ct_nodes contract)"
  shows "\<exists>a w. map_of as (nd_id node) = Some a \<and> runtime_of contract (na_worker a) = Some w \<and>
    (\<forall>r. orelse (nd_runtime node) (ct_defaultWorker contract) = Some r \<longrightarrow> na_worker a = r) \<and>
    (\<forall>r. orelse (gt_runtime (nd_gate node)) (ct_defaultJudge contract) = Some r \<longrightarrow> na_judge a = r) \<and>
    (na_sameVendor a \<longleftrightarrow> same_vendor_declared contract config) \<and>
    (gt_enabled (nd_gate node) \<longrightarrow> (\<exists>j. runtime_of contract (na_judge a) = Some j \<and>
       (effectiveProvider j \<noteq> effectiveProvider w \<or>
        same_vendor_declared contract config \<and> na_judge a \<noteq> na_worker a \<and> sameVendorTierRefusal w j = None)))"
proof -
  from assms obtain cs a where a: "map_of as (nd_id node) = Some a"
    and node: "composeNode contract config listJudge cs node = Inr a"
    unfolding composeAssignments_def Let_def by (blast dest: composeLoop_member)
  have mode: "na_sameVendor a \<longleftrightarrow> same_vendor_declared contract config"
    using composeNode_ok [OF node]
    by (auto simp: same_vendor_declared_def effectiveJudgeIndependence_def split: option.splits)
  have "na_worker a = r" if "orelse (nd_runtime node) (ct_defaultWorker contract) = Some r" for r
    using composeNode_ok [OF node] that
    by (cases "nd_runtime node"; cases "ct_defaultWorker contract") (auto simp: choose_worker_def)
  with a mode composeNode_ok [OF node] composeNode_judge [OF node] show ?thesis
    by (auto simp: assignment_ok_def independent_pair_def)
qed

text \<open>
  A node that names no worker, in a contract and a configuration that name none either,
  gets an available runtime, and no available runtime has a lower tier, or the same tier and a
  lower cost rank.
\<close>

theorem composed_worker_available_and_cheapest:
  assumes "composeAssignments contract avail None listJudge now = Inr as"
    and "distinct (map nd_id (ct_nodes contract))" and "node \<in> set (ct_nodes contract)"
    and "nd_runtime node = None" and "ct_defaultWorker contract = None"
    and "distinct (map fst (ct_runtimes contract))"
  shows "\<exists>a w. map_of as (nd_id node) = Some a \<and> runtime_of contract (na_worker a) = Some w \<and>
    isRuntimeAvailable (map_of avail (na_worker a)) now \<and>
    (\<forall>i rt. runtime_of contract i = Some rt \<longrightarrow> isRuntimeAvailable (map_of avail i) now \<longrightarrow>
       tierOrder w < tierOrder rt \<or>
       (tierOrder w = tierOrder rt \<and> runtimeOrder w \<le> runtimeOrder rt))"
proof -
  let ?cs = "availableCandidates (ct_runtimes contract) avail now"
  from assms(1) have "composeLoop contract None listJudge ?cs (ct_nodes contract) [] = Inr as"
    by (simp add: composeAssignments_def restrict_candidates_def)
  with assms(2,3) obtain a where a: "map_of as (nd_id node) = Some a"
    and node: "composeNode contract None listJudge ?cs node = Inr a"
    by (blast dest: composeLoop_member)
  from composeNode_ok [OF node] assms(4,5) obtain c
    where c: "cheapest ?cs = Some c" "na_worker a = ca_id c"
    by (auto simp: choose_worker_def candidateById_def split: option.splits)
  have all: "\<exists>d \<in> set ?cs. ca_id d = i \<and> ca_runtime d = rt"
    if "runtime_of contract i = Some rt" "isRuntimeAvailable (map_of avail i) now" for i rt
  proof -
    let ?xs = "filter (\<lambda>e. isRuntimeAvailable (map_of avail (fst e)) now) (ct_runtimes contract)"
    from that have "(i, rt) \<in> set ?xs" by (auto dest: map_of_SomeD)
    then obtain k where "k < length ?xs" "?xs ! k = (i, rt)"
      unfolding in_set_conv_nth by blast
    then have "(k, (i, rt)) \<in> set (enumerate 0 ?xs)" by (simp add: in_set_enumerate_eq)
    then show ?thesis unfolding availableCandidates_def by force
  qed
  have "c \<in> set ?cs" using c(1) by (rule cheapest_in)
  then have own: "(ca_id c, ca_runtime c) \<in> set (ct_runtimes contract)"
    "isRuntimeAvailable (map_of avail (ca_id c)) now"
    by (auto dest: candidate_is_available)
  with assms(6) have "runtime_of contract (ca_id c) = Some (ca_runtime c)" by simp
  with a c own(2) show ?thesis
    by (auto dest!: all cheapest_least [OF c(1)])
qed

section \<open>What the same-tier hop guarantees\<close>

definition same_tier_eligible ::
  "contract \<Rightarrow> routing \<Rightarrow> role \<Rightarrow> string \<Rightarrow> string list \<Rightarrow> int \<Rightarrow> string \<Rightarrow> runtime \<Rightarrow> bool" where
  "same_tier_eligible contract ro role current attempted now i rt \<longleftrightarrow>
     i \<noteq> current \<and> i \<notin> set attempted \<and>
     (\<exists>cur. runtime_of contract current = Some cur \<and> sameTier rt cur) \<and>
     isRuntimeAvailable (Option.bind (ro_availability ro) (\<lambda>a. map_of a i)) now \<and>
     (role = Judge \<longrightarrow>
        (\<forall>asg w. ro_assignments ro = Some asg \<longrightarrow> runtime_of contract (as_worker asg) = Some w \<longrightarrow>
           effectiveProvider rt \<noteq> effectiveProvider w))"

text \<open>
  The dynamic-tier hop picks an eligible runtime of the least cost rank, and answers
  \<open>null\<close> only when no declared runtime is eligible: not the current one, not attempted, of the
  same tier, available, and for a judge not of the assigned worker's provider.
\<close>

theorem next_same_tier_runtime_spec:
  assumes "distinct (map fst (ct_runtimes contract))"
    and "runtime_of contract current = Some currentRuntime"
  shows "case nextSameTierRuntime contract ro role current attempted now of
      None \<Rightarrow> \<not> (\<exists>i rt. runtime_of contract i = Some rt \<and>
                same_tier_eligible contract ro role current attempted now i rt)
    | Some i \<Rightarrow> \<exists>rt. runtime_of contract i = Some rt \<and>
        same_tier_eligible contract ro role current attempted now i rt \<and>
        (\<forall>j rt'. runtime_of contract j = Some rt' \<longrightarrow>
           same_tier_eligible contract ro role current attempted now j rt' \<longrightarrow>
           runtimeOrder rt \<le> runtimeOrder rt')"
proof -
  let ?E = "same_tier_eligible contract ro role current attempted now"
  let ?xs = "filter (\<lambda>e. ?E (fst e) (snd e)) (ct_runtimes contract)"
  let ?provider = "map_option effectiveProvider
      (Option.bind (map_option as_worker (ro_assignments ro)) (runtime_of contract))"
  have judge: "Some p \<noteq> ?provider \<longleftrightarrow> (\<forall>asg w. ro_assignments ro = Some asg \<longrightarrow>
      runtime_of contract (as_worker asg) = Some w \<longrightarrow> p \<noteq> effectiveProvider w)" for p
    by (cases "ro_assignments ro"; cases "?provider") (auto split: Option.bind_splits)
  have eq: "nextSameTierRuntime contract ro role current attempted now =
      map_option fst (head_opt (sort_key (\<lambda>e. runtimeOrder (snd e)) ?xs))"
    using assms(2)
    by (auto simp: nextSameTierRuntime_def same_tier_eligible_def Let_def judge
        intro!: arg_cong [where f = "\<lambda>l. map_option fst (head_opt (sort_key _ l))"] filter_cong)
  have mem: "(i, rt) \<in> set ?xs \<longleftrightarrow> runtime_of contract i = Some rt \<and> ?E i rt" for i rt
    using assms(1) by auto
  show ?thesis
  proof (cases "head_opt (sort_key (\<lambda>e. runtimeOrder (snd e)) ?xs)")
    case None
    then have "?xs = []" by (simp only: sort_key_head_None)
    then have "\<not> (runtime_of contract i = Some rt \<and> ?E i rt)" for i rt
      unfolding mem [symmetric] by simp
    with None show ?thesis unfolding eq by auto
  next
    case (Some e)
    obtain i rt where e: "e = (i, rt)" by (cases e)
    have "(i, rt) \<in> set ?xs" using sort_key_head_in [OF Some] e by simp
    moreover have "runtimeOrder rt \<le> runtimeOrder rt'"
      if "runtime_of contract j = Some rt'" "?E j rt'" for j rt'
    proof -
      from that have "(j, rt') \<in> set ?xs" unfolding mem by simp
      from sort_key_head_least [OF Some this] e show ?thesis by simp
    qed
    ultimately show ?thesis unfolding eq mem using Some e by auto
  qed
qed

section \<open>Witnesses\<close>

definition sample_verdict :: availability where
  "sample_verdict = \<lparr>av_available = True, av_exhaustedUntil = None, av_reason = ''ready'',
     av_observedAt = None, av_window = None\<rparr>"

definition sample_availability :: "(string \<times> availability) list" where
  "sample_availability = [(''glm'', sample_verdict), (''gpt'', sample_verdict)]"

lemma sample_composition:
  "composeAssignments (sample_contract False [sample_node ''a'' [] None None])
     sample_availability None (\<lambda>_ _. None) 0 =
   Inr [(''a'', \<lparr>na_worker = ''glm'', na_judge = ''gpt'', na_sameVendor = False\<rparr>)]"
  by code_simp

theorem composed_assignment_independent_witness:
  "\<not> same_vendor_declared (sample_contract False [sample_node ''a'' [] None None]) None \<and>
   (\<exists>w j. runtime_of (sample_contract False [sample_node ''a'' [] None None]) ''glm'' = Some w \<and>
      runtime_of (sample_contract False [sample_node ''a'' [] None None]) ''gpt'' = Some j \<and>
      effectiveProvider j \<noteq> effectiveProvider w)"
proof -
  have "\<not> same_vendor_declared (sample_contract False [sample_node ''a'' [] None None]) None"
    by (simp add: same_vendor_declared_def sample_defs)
  then show ?thesis
    using composed_assignment_independent [OF sample_composition, of "sample_node ''a'' [] None None"]
    by (simp add: sample_defs)
qed

theorem composed_worker_available_and_cheapest_witness:
  "isRuntimeAvailable (map_of sample_availability ''glm'') 0 \<and>
   runtime_of (sample_contract False [sample_node ''a'' [] None None]) ''glm'' \<noteq> None"
proof -
  have "distinct (map fst (ct_runtimes (sample_contract False [sample_node ''a'' [] None None])))"
    by (simp add: sample_defs)
  from composed_worker_available_and_cheapest [OF sample_composition _ _ _ _ this,
      of "sample_node ''a'' [] None None"]
  show ?thesis by (auto simp: sample_defs)
qed

theorem next_same_tier_runtime_spec_witness:
  "\<exists>rt. runtime_of (sample_contract False []) ''gpt'' = Some rt \<and>
     same_tier_eligible (sample_contract False [])
       (empty_routing\<lparr>ro_availability := Some sample_availability\<rparr>) Worker ''glm'' [] 0 ''gpt'' rt"
proof -
  let ?c = "sample_contract False []"
  let ?ro = "empty_routing\<lparr>ro_availability := Some sample_availability\<rparr>"
  have "nextSameTierRuntime ?c ?ro Worker ''glm'' [] 0 = Some ''gpt''" by code_simp
  moreover have "distinct (map fst (ct_runtimes ?c))" by (simp add: sample_defs)
  moreover have "runtime_of ?c ''glm'' =
      Some (sample_runtime ''fx'' ''glm-5.3'' ''zhipu'' (Some ''sonnet''))" by (simp add: sample_defs)
  ultimately show ?thesis
    using next_same_tier_runtime_spec [of ?c "''glm''" _ ?ro Worker "[]" 0] by auto
qed

end
