(* ===== verification/Stores.thy ===== *)
theory Stores
  imports Discovery
begin

text \<open>
  The two machine-wide stores a routing decision reads: the availability verdicts of
  \<open>src/run/availability.mjs\<close> and the usage windows of \<open>src/run/usage-windows.mjs\<close>.

  A store is what \<open>loadStore\<close> would return for the file on disk: \<open>None\<close> is an absent file or
  one it cannot use, \<open>Some\<close> its dictionary. Writing replaces the whole file, as
  \<open>writeJsonAtomic\<close> does.
\<close>

section \<open>Availability verdicts\<close>

type_synonym verdict_file = "(string \<times> availability) list option"

definition REFUSAL_REASONS :: "string list" where
  "REFUSAL_REASONS = [''quota_exhausted'', ''insufficient_balance'', ''model_not_supported'']"

definition REFUSAL_HOLD_MS :: int where
  "REFUSAL_HOLD_MS = 15 * 60 * 1000"

definition availabilityKey :: "string \<Rightarrow> string \<Rightarrow> string \<Rightarrow> string" where
  "availabilityKey harness model executable = harness @ '':'' @ model @ '':'' @ executable"

definition loadStore :: "verdict_file \<Rightarrow> (string \<times> availability) list" where
  "loadStore file = nullish file []"

text \<open>\<open>value.trim()\<close> is empty.\<close>

definition blank :: "string \<Rightarrow> bool" where
  "blank s = list_all (\<lambda>c. (of_char c :: nat) \<in> {9, 10, 11, 12, 13, 32}) s"

text \<open>The checks of \<open>validateRuntimeAvailability\<close> a typed record can still fail.\<close>

definition valid_availability :: "availability \<Rightarrow> bool" where
  "valid_availability a =
     ((case av_exhaustedUntil a of None \<Rightarrow> True | Some t \<Rightarrow> date_parse t \<noteq> None) \<and>
      \<not> blank (av_reason a) \<and>
      (case av_observedAt a of None \<Rightarrow> True | Some t \<Rightarrow> date_parse t \<noteq> None) \<and>
      (case av_window a of None \<Rightarrow> True | Some w \<Rightarrow> \<not> blank w))"

definition loadVerdicts :: "verdict_file \<Rightarrow> (string \<times> availability) list" where
  "loadVerdicts file = filter (\<lambda>e. valid_availability (snd e)) (loadStore file)"

definition readAvailability :: "verdict_file \<Rightarrow> string \<Rightarrow> int \<Rightarrow> availability option" where
  "readAvailability file key now =
     (case map_of (loadVerdicts file) key of
        None \<Rightarrow> None
      | Some a \<Rightarrow> if isRuntimeAvailable (Some a) now then Some a else None)"

definition answered_verdict :: "int \<Rightarrow> availability" where
  "answered_verdict now =
     \<lparr>av_available = True, av_exhaustedUntil = None, av_reason = ''answered'',
      av_observedAt = Some (Iso now), av_window = Some PREFLIGHT_WINDOW\<rparr>"

definition recordAvailability :: "string list \<Rightarrow> int \<Rightarrow> verdict_file \<Rightarrow> verdict_file" where
  "recordAvailability keys now file =
     (if keys = [] then file
      else Some (fold (\<lambda>k store. AList.update k (answered_verdict now) store) keys (loadStore file)))"

record refusal =
  rf_reason :: string
  rf_exhaustedUntil :: "stamp option"

definition refusalOfAvailability :: "availability option \<Rightarrow> refusal option" where
  "refusalOfAvailability availability =
     (case availability of
        None \<Rightarrow> None
      | Some a \<Rightarrow>
          if av_available a \<or> av_reason a \<notin> set REFUSAL_REASONS then None
          else Some \<lparr>rf_reason = av_reason a, rf_exhaustedUntil = av_exhaustedUntil a\<rparr>)"

definition refused_verdict :: "refusal \<Rightarrow> int \<Rightarrow> availability" where
  "refused_verdict r now =
     \<lparr>av_available = False,
      av_exhaustedUntil = Some (nullish (rf_exhaustedUntil r) (Iso (now + REFUSAL_HOLD_MS))),
      av_reason = rf_reason r, av_observedAt = Some (Iso now), av_window = Some PREFLIGHT_WINDOW\<rparr>"

definition recordRefusal :: "string \<Rightarrow> refusal \<Rightarrow> int \<Rightarrow> verdict_file \<Rightarrow> verdict_file" where
  "recordRefusal key r now file =
     Some (AList.update key (refused_verdict r now) (loadStore file))"

definition readRefusal :: "verdict_file \<Rightarrow> string \<Rightarrow> int \<Rightarrow> availability option" where
  "readRefusal file key now =
     (case map_of (loadVerdicts file) key of
        None \<Rightarrow> None
      | Some a \<Rightarrow>
          if av_available a \<or> \<not> truthy_stamp (av_exhaustedUntil a) then None
          else if stamp_gt (av_exhaustedUntil a) now then Some a else None)"

record probe =
  pr_harness :: string
  pr_model :: string
  pr_executable :: string
  pr_availability :: "availability option"

definition probe_key :: "probe \<Rightarrow> string" where
  "probe_key p = availabilityKey (pr_harness p) (pr_model p) (pr_executable p)"

definition recordProbeVerdicts :: "probe list \<Rightarrow> int \<Rightarrow> verdict_file \<Rightarrow> verdict_file" where
  "recordProbeVerdicts probes now file =
     (let refused = filter (\<lambda>p. refusalOfAvailability (pr_availability p) \<noteq> None) probes;
          answered = filter (\<lambda>p. refusalOfAvailability (pr_availability p) = None) probes
      in fold (\<lambda>p f. recordRefusal (probe_key p)
                (the (refusalOfAvailability (pr_availability p))) now f) refused
           (recordAvailability (map probe_key answered) now file))"

section \<open>Usage windows\<close>

record usage_window =
  uw_window :: string
  uw_usedPercent :: rat
  uw_resetsAt :: stamp

record usage_counters =
  ucn_bytes :: "int option"
  ucn_inputTokens :: "int option"
  ucn_cacheReadInputTokens :: "int option"
  ucn_cacheWriteInputTokens :: "int option"
  ucn_outputTokens :: "int option"

record account_windows =
  aw_windows :: "usage_window list"
  aw_observedAt :: stamp
  aw_totals :: "usage_counters option"

type_synonym window_file = "(string \<times> account_windows) list option"

definition recordUsageWindows ::
  "string \<Rightarrow> usage_window list \<Rightarrow> int \<Rightarrow> window_file \<Rightarrow> window_file" where
  "recordUsageWindows account windows now file =
     (if windows = [] then file
      else Some (AList.update account
             \<lparr>aw_windows = windows, aw_observedAt = Iso now, aw_totals = None\<rparr> (nullish file [])))"

definition readUsageWindows :: "window_file \<Rightarrow> string \<Rightarrow> int \<Rightarrow> usage_window list" where
  "readUsageWindows file account now =
     (case map_of (nullish file []) account of
        None \<Rightarrow> []
      | Some r \<Rightarrow> filter (\<lambda>w. stamp_gt (Some (uw_resetsAt w)) now) (aw_windows r))"

definition usageAccountOf :: "string \<Rightarrow> runtime \<Rightarrow> string option" where
  "usageAccountOf codexHome rt =
     (if rt_harness rt = ''codex'' then Some (''codex:'' @ codexHome) else None)"

definition addMeasured :: "int option \<Rightarrow> int option \<Rightarrow> int option" where
  "addMeasured left right =
     (if left = None \<and> right = None then None else Some (nullish left 0 + nullish right 0))"

definition emptyCounters :: usage_counters where
  "emptyCounters = \<lparr>ucn_bytes = None, ucn_inputTokens = None, ucn_cacheReadInputTokens = None,
     ucn_cacheWriteInputTokens = None, ucn_outputTokens = None\<rparr>"

definition zip_counters ::
  "(int option \<Rightarrow> int option \<Rightarrow> int option) \<Rightarrow> usage_counters \<Rightarrow> usage_counters \<Rightarrow> usage_counters" where
  "zip_counters f l r =
     \<lparr>ucn_bytes = f (ucn_bytes l) (ucn_bytes r),
      ucn_inputTokens = f (ucn_inputTokens l) (ucn_inputTokens r),
      ucn_cacheReadInputTokens = f (ucn_cacheReadInputTokens l) (ucn_cacheReadInputTokens r),
      ucn_cacheWriteInputTokens = f (ucn_cacheWriteInputTokens l) (ucn_cacheWriteInputTokens r),
      ucn_outputTokens = f (ucn_outputTokens l) (ucn_outputTokens r)\<rparr>"

definition addCounters :: "usage_counters option \<Rightarrow> usage_counters \<Rightarrow> usage_counters" where
  "addCounters left right = zip_counters addMeasured (nullish left emptyCounters) right"

definition strict_add :: "int option \<Rightarrow> int option \<Rightarrow> int option" where
  "strict_add left right =
     (case left of None \<Rightarrow> None
      | Some l \<Rightarrow> (case right of None \<Rightarrow> None | Some r \<Rightarrow> Some (l + r)))"

definition sumCounters :: "usage_counters option list \<Rightarrow> usage_counters" where
  "sumCounters counters =
     (case counters of
        [] \<Rightarrow> emptyCounters
      | first # rest \<Rightarrow>
          foldl (\<lambda>totals entry. zip_counters strict_add totals (nullish entry emptyCounters))
            (nullish first emptyCounters) rest)"

definition addAccountUsage ::
  "string \<Rightarrow> runtime \<Rightarrow> usage_counters \<Rightarrow> int \<Rightarrow> window_file \<Rightarrow> window_file" where
  "addAccountUsage codexHome rt counters now file =
     (case usageAccountOf codexHome rt of
        None \<Rightarrow> file
      | Some account \<Rightarrow>
          Some (AList.update account
            (case map_of (nullish file []) account of
               Some existing \<Rightarrow> \<lparr>aw_windows = aw_windows existing,
                 aw_observedAt = aw_observedAt existing,
                 aw_totals = Some (addCounters (aw_totals existing) counters)\<rparr>
             | None \<Rightarrow> \<lparr>aw_windows = [], aw_observedAt = Iso now,
                 aw_totals = Some (addCounters (Some emptyCounters) counters)\<rparr>)
            (nullish file [])))"

definition readAccountUsage :: "window_file \<Rightarrow> string \<Rightarrow> usage_counters option" where
  "readAccountUsage file account = Option.bind (map_of (nullish file []) account) aw_totals"

section \<open>The verdict store as an interface\<close>

text \<open>
  What a client of the store relies on: the verdict it reads for a key after a refusal or after
  a set of answers was recorded, and the well-formedness the two operations keep.
\<close>

definition usable_refusal :: "refusal \<Rightarrow> bool" where
  "usable_refusal r \<longleftrightarrow> rf_reason r \<in> set REFUSAL_REASONS \<and>
     (case rf_exhaustedUntil r of None \<Rightarrow> True | Some t \<Rightarrow> date_parse t \<noteq> None)"

locale verdict_store =
  fixes invar :: "'s \<Rightarrow> bool"
    and verdict :: "'s \<Rightarrow> string \<Rightarrow> availability option"
    and answer :: "string list \<Rightarrow> int \<Rightarrow> 's \<Rightarrow> 's"
    and refuse :: "string \<Rightarrow> refusal \<Rightarrow> int \<Rightarrow> 's \<Rightarrow> 's"
  assumes invar_answer: "invar s \<Longrightarrow> invar (answer ks t s)"
    and invar_refuse: "invar s \<Longrightarrow> invar (refuse k r t s)"
    and verdict_answer: "invar s \<Longrightarrow>
      verdict (answer ks t s) k = (if k \<in> set ks then Some (answered_verdict t) else verdict s k)"
    and verdict_refuse: "invar s \<Longrightarrow> usable_refusal r \<Longrightarrow>
      verdict (refuse k r t s) k' = (if k' = k then Some (refused_verdict r t) else verdict s k')"
begin

lemma invar_refusals:
  "invar s \<Longrightarrow> invar (fold (\<lambda>e. refuse (fst e) (snd e) t) rs s)"
  by (induction rs arbitrary: s) (auto intro: invar_refuse)

text \<open>Of several refusals recorded for one key the last stands, and other keys keep theirs.\<close>

lemma verdict_refusals:
  assumes "invar s" and "\<forall>e \<in> set rs. usable_refusal (snd e)"
  shows "verdict (fold (\<lambda>e. refuse (fst e) (snd e) t) rs s) k =
    (case find_last (\<lambda>e. fst e = k) rs of
       Some e \<Rightarrow> Some (refused_verdict (snd e) t)
     | None \<Rightarrow> verdict s k)"
  using assms
proof (induction rs rule: rev_induct)
  case Nil
  then show ?case by simp
next
  case (snoc e rs)
  then show ?case by (simp add: verdict_refuse invar_refusals)
qed

text \<open>A batch of answers followed by refusals: a refusal of the batch is never lost to an answer.\<close>

lemma verdict_batch:
  assumes "invar s" and "\<forall>e \<in> set rs. usable_refusal (snd e)"
  shows "verdict (fold (\<lambda>e. refuse (fst e) (snd e) t) rs (answer ks t s)) k =
    (case find_last (\<lambda>e. fst e = k) rs of
       Some e \<Rightarrow> Some (refused_verdict (snd e) t)
     | None \<Rightarrow> if k \<in> set ks then Some (answered_verdict t) else verdict s k)"
  using assms by (simp add: verdict_refusals invar_answer verdict_answer split: option.split)

end

definition verdict_file_ok :: "verdict_file \<Rightarrow> bool" where
  "verdict_file_ok file \<longleftrightarrow> distinct (map fst (loadStore file))"

definition loaded_verdict :: "verdict_file \<Rightarrow> string \<Rightarrow> availability option" where
  "loaded_verdict file = map_of (loadVerdicts file)"

lemma map_of_filter_distinct:
  "distinct (map fst xs) \<Longrightarrow> map_of (filter (\<lambda>e. P (snd e)) xs) k =
     (case map_of xs k of Some v \<Rightarrow> if P v then Some v else None | None \<Rightarrow> None)"
  by (induction xs) (auto simp: map_of_eq_None_iff split: option.split)

lemma loaded_verdict_eq:
  "verdict_file_ok file \<Longrightarrow> loaded_verdict file k =
     (case map_of (loadStore file) k of
        Some a \<Rightarrow> if valid_availability a then Some a else None
      | None \<Rightarrow> None)"
  by (simp add: loaded_verdict_def loadVerdicts_def verdict_file_ok_def map_of_filter_distinct)

lemma valid_answered [simp]: "valid_availability (answered_verdict now)"
  by (simp add: valid_availability_def answered_verdict_def blank_def PREFLIGHT_WINDOW_def)

lemma valid_refused: "usable_refusal r \<Longrightarrow> valid_availability (refused_verdict r now)"
  by (cases "rf_exhaustedUntil r")
    (auto simp: valid_availability_def refused_verdict_def usable_refusal_def blank_def
      PREFLIGHT_WINDOW_def REFUSAL_REASONS_def)

lemma fold_update_answers:
  "distinct (map fst store) \<Longrightarrow>
   distinct (map fst (fold (\<lambda>k. AList.update k v) ks store)) \<and>
   map_of (fold (\<lambda>k. AList.update k v) ks store) x = (if x \<in> set ks then Some v else map_of store x)"
  by (induction ks arbitrary: store) (auto simp: distinct_update update_conv')

interpretation vf: verdict_store verdict_file_ok loaded_verdict recordAvailability recordRefusal
proof (unfold_locales, goal_cases)
  case (1 s ks t)
  then show ?case
    by (auto simp: verdict_file_ok_def recordAvailability_def loadStore_def fold_update_answers)
next
  case (2 s k r t)
  then show ?case by (simp add: verdict_file_ok_def recordRefusal_def loadStore_def distinct_update)
next
  case (3 s ks t k)
  have "verdict_file_ok (recordAvailability ks t s)"
    using 3 by (auto simp: verdict_file_ok_def recordAvailability_def loadStore_def fold_update_answers)
  with 3 show ?case
    by (auto simp: loaded_verdict_eq recordAvailability_def loadStore_def verdict_file_ok_def
        fold_update_answers split: option.split)
next
  case (4 s r k t k')
  have "verdict_file_ok (recordRefusal k r t s)"
    using 4 by (simp add: verdict_file_ok_def recordRefusal_def loadStore_def distinct_update)
  with 4 show ?case
    by (auto simp: loaded_verdict_eq recordRefusal_def loadStore_def update_conv' valid_refused
        split: option.split)
qed

section \<open>What the stores guarantee\<close>

definition probe_refusals :: "probe list \<Rightarrow> (string \<times> refusal) list" where
  "probe_refusals probes =
     List.map_filter (\<lambda>p. map_option (Pair (probe_key p)) (refusalOfAvailability (pr_availability p)))
       probes"

lemma probe_refusals_mem:
  "(k, r) \<in> set (probe_refusals probes) \<longleftrightarrow>
     (\<exists>p \<in> set probes. probe_key p = k \<and> refusalOfAvailability (pr_availability p) = Some r)"
  by (force simp: probe_refusals_def map_filter_def)

lemma recordProbeVerdicts_batch:
  "recordProbeVerdicts probes now file =
     fold (\<lambda>e. recordRefusal (fst e) (snd e) now) (probe_refusals probes)
       (recordAvailability (map probe_key
          (filter (\<lambda>p. refusalOfAvailability (pr_availability p) = None) probes)) now file)"
proof -
  have "fold (\<lambda>p f. recordRefusal (probe_key p) (the (refusalOfAvailability (pr_availability p))) now f)
      (filter (\<lambda>p. refusalOfAvailability (pr_availability p) \<noteq> None) probes) g =
    fold (\<lambda>e. recordRefusal (fst e) (snd e) now) (probe_refusals probes) g" for g
    by (induction probes arbitrary: g) (auto simp: probe_refusals_def map_filter_def)
  then show ?thesis by (simp add: recordProbeVerdicts_def Let_def)
qed

text \<open>
  A refusal read back: recording one makes \<open>readRefusal\<close> report it exactly until the instant
  the provider announced, or for fifteen minutes when it announced none; \<open>readAvailability\<close>
  never answers for that key in that time, and every other key reads as before.
\<close>

theorem refusal_roundtrip:
  assumes "verdict_file_ok file" and "usable_refusal r"
    and "until = (case rf_exhaustedUntil r of Some (Iso t) \<Rightarrow> t | _ \<Rightarrow> now + 900000)"
  shows "readRefusal (recordRefusal key r now file) key t' =
           (if t' < until then Some (refused_verdict r now) else None) \<and>
         (t' < until \<longrightarrow> readAvailability (recordRefusal key r now file) key t' = None) \<and>
         (\<forall>k. k \<noteq> key \<longrightarrow>
            readRefusal (recordRefusal key r now file) k t' = readRefusal file k t' \<and>
            readAvailability (recordRefusal key r now file) k t' = readAvailability file k t')"
proof -
  have loaded: "map_of (loadVerdicts (recordRefusal key r now file)) k =
      (if k = key then Some (refused_verdict r now) else map_of (loadVerdicts file) k)" for k
    using vf.verdict_refuse [OF assms(1,2)] by (simp add: loaded_verdict_def)
  obtain t where t: "nullish (rf_exhaustedUntil r) (Iso (now + REFUSAL_HOLD_MS)) = Iso t" "t = until"
    using assms(2,3) unfolding usable_refusal_def REFUSAL_HOLD_MS_def
    by (cases "rf_exhaustedUntil r") (auto split: stamp.splits elim: date_parse.elims)
  show ?thesis
    using loaded t
    by (simp add: readRefusal_def readAvailability_def isRuntimeAvailable_def refused_verdict_def
        stamp_gt_def stamp_le_def)
qed

theorem refusal_roundtrip_witness:
  "readRefusal (recordRefusal ''k'' \<lparr>rf_reason = ''quota_exhausted'', rf_exhaustedUntil = None\<rparr> 0 None)
     ''k'' 1000 \<noteq> None"
  using refusal_roundtrip [of None "\<lparr>rf_reason = ''quota_exhausted'', rf_exhaustedUntil = None\<rparr>"
      900000 0 "''k''" 1000]
  by (simp add: verdict_file_ok_def loadStore_def usable_refusal_def REFUSAL_REASONS_def)

text \<open>
  One preflight's verdicts: a provider the preflight saw refuse is left refused even when
  another probe of the batch shares its key and answered; a provider that only answered is
  left answered; every other verdict stands.
\<close>

theorem probe_verdicts_batch:
  assumes "verdict_file_ok file" and "\<forall>e \<in> set (probe_refusals probes). usable_refusal (snd e)"
  shows "loaded_verdict (recordProbeVerdicts probes now file) key =
    (case find_last (\<lambda>e. fst e = key) (probe_refusals probes) of
       Some e \<Rightarrow> Some (refused_verdict (snd e) now)
     | None \<Rightarrow> if \<exists>p \<in> set probes. probe_key p = key then Some (answered_verdict now)
               else loaded_verdict file key)"
proof -
  let ?answered = "filter (\<lambda>p. refusalOfAvailability (pr_availability p) = None) probes"
  have none: "find_last (\<lambda>e. fst e = key) (probe_refusals probes) = None \<Longrightarrow>
      key \<in> set (map probe_key ?answered) \<longleftrightarrow> (\<exists>p \<in> set probes. probe_key p = key)"
  proof -
    assume "find_last (\<lambda>e. fst e = key) (probe_refusals probes) = None"
    then have "(key, r) \<notin> set (probe_refusals probes)" for r
      by (auto simp: find_last_None_iff)
    then have "p \<in> set probes \<Longrightarrow> probe_key p = key \<Longrightarrow>
        refusalOfAvailability (pr_availability p) = None" for p
      unfolding probe_refusals_mem by (cases "refusalOfAvailability (pr_availability p)") auto
    then show ?thesis by auto
  qed
  show ?thesis
    unfolding recordProbeVerdicts_batch vf.verdict_batch [OF assms]
    using none by (auto split: option.split)
qed

theorem probe_verdicts_batch_witness:
  "loaded_verdict (recordProbeVerdicts
     [\<lparr>pr_harness = ''fx'', pr_model = ''m'', pr_executable = ''fx'',
       pr_availability = Some \<lparr>av_available = False, av_exhaustedUntil = None,
         av_reason = ''quota_exhausted'', av_observedAt = None, av_window = None\<rparr>\<rparr>] 0 None)
     ''fx:m:fx'' =
   Some (refused_verdict \<lparr>rf_reason = ''quota_exhausted'', rf_exhaustedUntil = None\<rparr> 0)"
  by (subst probe_verdicts_batch)
    (simp_all add: verdict_file_ok_def loadStore_def probe_refusals_def map_filter_def
      refusalOfAvailability_def REFUSAL_REASONS_def usable_refusal_def probe_key_def
      availabilityKey_def find_last_def)

text \<open>What a sum of counters is when some were not measured.\<close>

definition sum_measured :: "int option list \<Rightarrow> int option" where
  "sum_measured xs =
     (if \<forall>x \<in> set xs. x = None then None else Some (sum_list (map (\<lambda>x. nullish x 0) xs)))"

lemma sum_list_unmeasured: "\<forall>x \<in> set xs. x = None \<Longrightarrow> (\<Sum>x\<leftarrow>xs. nullish x (0::int)) = 0"
  by (induction xs) auto

lemma addMeasured_sum: "addMeasured (sum_measured xs) y = sum_measured (xs @ [y])"
  by (cases y) (auto simp: addMeasured_def sum_measured_def sum_list_unmeasured)

definition total_counters :: "usage_counters list \<Rightarrow> usage_counters" where
  "total_counters us =
     \<lparr>ucn_bytes = sum_measured (map ucn_bytes us),
      ucn_inputTokens = sum_measured (map ucn_inputTokens us),
      ucn_cacheReadInputTokens = sum_measured (map ucn_cacheReadInputTokens us),
      ucn_cacheWriteInputTokens = sum_measured (map ucn_cacheWriteInputTokens us),
      ucn_outputTokens = sum_measured (map ucn_outputTokens us)\<rparr>"

lemma addCounters_total:
  "addCounters (Some (total_counters us)) u = total_counters (us @ [u])"
  by (simp add: addCounters_def zip_counters_def total_counters_def addMeasured_sum)

lemma addCounters_first: "addCounters None u = total_counters [u]"
  using addCounters_total [of "[]" u]
  by (simp add: addCounters_def total_counters_def emptyCounters_def sum_measured_def)

lemma addAccountUsage_existing:
  assumes "usageAccountOf home rt = Some account" and "map_of (nullish file []) account = Some r"
  shows "\<exists>r'. map_of (nullish (addAccountUsage home rt u now file) []) account = Some r' \<and>
    aw_totals r' = Some (addCounters (aw_totals r) u)"
  using assms by (simp add: addAccountUsage_def update_conv')

text \<open>
  The running totals of an account count, counter by counter, what every invocation since
  the last recorded windows measured: rolling usages onto it sums them, an unmeasured counter
  changing nothing, and recording fresh windows starts over.
\<close>

theorem account_totals_sum:
  assumes "usageAccountOf home rt = Some account" and "windows \<noteq> []" and "us \<noteq> []"
  shows "readAccountUsage
      (fold (\<lambda>u. addAccountUsage home rt u now) us
        (recordUsageWindows account windows now file)) account = Some (total_counters us)"
proof -
  let ?f = "\<lambda>us. fold (\<lambda>u. addAccountUsage home rt u now) us
      (recordUsageWindows account windows now file)"
  have "\<exists>r. map_of (nullish (?f us) []) account = Some r \<and>
      aw_totals r = (if us = [] then None else Some (total_counters us))" for us
  proof (induction us rule: rev_induct)
    case Nil
    then show ?case using assms(2) by (simp add: recordUsageWindows_def update_conv')
  next
    case (snoc u us)
    then obtain r where r: "map_of (nullish (?f us) []) account = Some r"
      and "aw_totals r = (if us = [] then None else Some (total_counters us))" by blast
    then have "addCounters (aw_totals r) u = total_counters (us @ [u])"
      by (simp add: addCounters_total addCounters_first split: if_splits)
    with addAccountUsage_existing [OF assms(1) r, of u now] show ?case by simp
  qed
  from this [of us] assms(3) show ?thesis by (auto simp: readAccountUsage_def)
qed

theorem account_totals_sum_witness:
  "map_option ucn_inputTokens
     (readAccountUsage
       (fold (\<lambda>u. addAccountUsage ''h'' (sample_runtime ''codex'' ''m'' ''openai'' None) u 0)
         [emptyCounters\<lparr>ucn_inputTokens := Some 3\<rparr>, emptyCounters,
          emptyCounters\<lparr>ucn_inputTokens := Some 4\<rparr>]
         (recordUsageWindows ''codex:h''
           [\<lparr>uw_window = ''w'', uw_usedPercent = 5, uw_resetsAt = Iso 9\<rparr>] 0 None))
       ''codex:h'') = Some (Some 7)"
  by (subst account_totals_sum)
    (simp_all add: sample_defs emptyCounters_def total_counters_def sum_measured_def
      usageAccountOf_def)

end
