(* ===== verification/Judge_List.thy ===== *)
theory Judge_List
  imports Stores
begin

text \<open>
  The ordered list of judges a contract or the user may name: \<open>src/engine/judge-list.mjs\<close>.
  Which entry is picked for a worker, which are skipped and why, and the pick after the chosen
  judge ran out. \<open>None\<close> is the \<open>TypeError\<close> the code raises for a worker that is not declared.
\<close>

section \<open>Picking an entry\<close>

text \<open>The machine the decision is taken on: its two stores, and each adapter's executable.\<close>

record host =
  ho_verdicts :: verdict_file
  ho_windows :: window_file
  ho_codexHome :: string
  ho_executable :: "runtime \<Rightarrow> string"

definition JUDGE_USAGE_WINDOW_LIMIT_PERCENT :: rat where
  "JUDGE_USAGE_WINDOW_LIMIT_PERCENT = 90"

definition resolveJudgeList :: "contract \<Rightarrow> user_config option \<Rightarrow> string list option" where
  "resolveJudgeList contract config = orelse (ct_judges contract) (Option.bind config uc_judges)"

text \<open>The loop of \<open>reachableWorkerProviders\<close>: the providers met so far, in insertion order.\<close>

function worker_providers_loop ::
  "runtimes \<Rightarrow> string list \<Rightarrow> string list \<Rightarrow> string \<Rightarrow> string list" where
  "worker_providers_loop rts providers seen current =
     (case Option.bind (map_of rts current) rt_fallback of
        None \<Rightarrow> providers
      | Some nextId \<Rightarrow>
          if nextId \<in> set seen then providers
          else case map_of rts nextId of
                 None \<Rightarrow> providers
               | Some rt \<Rightarrow>
                   worker_providers_loop rts (List.insert (effectiveProvider rt) providers)
                     (nextId # seen) nextId)"
  by pat_completeness auto
termination
  by (relation "measure (\<lambda>(rts, providers, seen, cur). fresh_targets rts seen)")
    (auto split: Option.bind_splits)

declare worker_providers_loop.simps [simp del]

definition reachableWorkerProviders :: "runtimes \<Rightarrow> string \<Rightarrow> string list option" where
  "reachableWorkerProviders rts workerId =
     (case map_of rts workerId of
        None \<Rightarrow> None
      | Some worker \<Rightarrow>
          Some (worker_providers_loop rts [effectiveProvider worker] [workerId] workerId))"

definition runtime_key :: "host \<Rightarrow> runtime \<Rightarrow> string" where
  "runtime_key h rt = availabilityKey (rt_harness rt) (rt_model rt) (ho_executable h rt)"

definition overspentWindow :: "host \<Rightarrow> runtime \<Rightarrow> int \<Rightarrow> usage_window option" where
  "overspentWindow h rt now =
     (case usageAccountOf (ho_codexHome h) rt of
        None \<Rightarrow> None
      | Some account \<Rightarrow>
          List.find (\<lambda>w. uw_usedPercent w > JUDGE_USAGE_WINDOW_LIMIT_PERCENT)
            (readUsageWindows (ho_windows h) account now))"

text \<open>Why one entry of the list is passed over, if it is: the checks in the code's order.\<close>

definition skip_entry ::
  "contract \<Rightarrow> host \<Rightarrow> string list \<Rightarrow> string list \<Rightarrow> int \<Rightarrow> string \<Rightarrow> skip_reason option" where
  "skip_entry contract h attempted workerProviders now i =
     (if i \<in> set attempted then Some Skip_attempted
      else case runtime_of contract i of
             None \<Rightarrow> Some Skip_undeclared
           | Some rt \<Rightarrow>
               (let provider = effectiveProvider rt
                in if provider \<in> set workerProviders then Some (Skip_same_provider provider)
                   else case readRefusal (ho_verdicts h) (runtime_key h rt) now of
                          Some refused \<Rightarrow> Some (Skip_refusal (av_reason refused))
                        | None \<Rightarrow>
                            (case overspentWindow h rt now of
                               Some w \<Rightarrow> Some (Skip_window (uw_window w) (uw_usedPercent w))
                             | None \<Rightarrow> None)))"

text \<open>\<open>list.slice(list.indexOf(id) + 1)\<close>\<close>

fun after_first :: "string \<Rightarrow> string list \<Rightarrow> string list" where
  "after_first i [] = []"
| "after_first i (x # xs) = (if x = i then xs else after_first i xs)"

fun select_loop ::
  "contract \<Rightarrow> host \<Rightarrow> string list \<Rightarrow> string list \<Rightarrow> int \<Rightarrow> string list \<Rightarrow> string list
    \<Rightarrow> judge_skip list \<Rightarrow> string option \<times> judge_skip list" where
  "select_loop contract h attempted providers now list [] skipped = (None, skipped)"
| "select_loop contract h attempted providers now list (i # rest) skipped =
     (case skip_entry contract h attempted providers now i of
        Some reason \<Rightarrow>
          select_loop contract h attempted providers now list rest
            (skipped @ [\<lparr>js_id = i, js_reason = reason\<rparr>])
      | None \<Rightarrow>
          (Some i, skipped @ map (\<lambda>later. \<lparr>js_id = later, js_reason = Skip_attempted\<rparr>)
             (filter (\<lambda>later. later \<in> set attempted) (after_first i list))))"

definition selectListJudge ::
  "contract \<Rightarrow> host \<Rightarrow> string list \<Rightarrow> string \<Rightarrow> string list \<Rightarrow> int
    \<Rightarrow> (string option \<times> judge_skip list) option" where
  "selectListJudge contract h list workerId attempted now =
     (case reachableWorkerProviders (ct_runtimes contract) workerId of
        None \<Rightarrow> None
      | Some providers \<Rightarrow> Some (select_loop contract h attempted providers now list list []))"

definition initialJudgeListState ::
  "contract \<Rightarrow> host \<Rightarrow> string list \<Rightarrow> string \<Rightarrow> int \<Rightarrow> judge_list_state option" where
  "initialJudgeListState contract h list workerId now =
     map_option (\<lambda>pick. \<lparr>jl_list = list, jl_chosen = fst pick, jl_skipped = snd pick\<rparr>)
       (selectListJudge contract h list workerId [] now)"

definition attempted_judges :: "judge_list_state \<Rightarrow> string list" where
  "attempted_judges st =
     map js_id (filter (\<lambda>entry. js_reason entry = Skip_attempted) (jl_skipped st)) @
     (case jl_chosen st of None \<Rightarrow> [] | Some c \<Rightarrow> if c = [] then [] else [c])"

definition nextListJudge ::
  "contract \<Rightarrow> host \<Rightarrow> judge_list_state \<Rightarrow> string \<Rightarrow> int \<Rightarrow> judge_list_state option" where
  "nextListJudge contract h st workerId now =
     map_option (\<lambda>pick. \<lparr>jl_list = jl_list st, jl_chosen = fst pick, jl_skipped = snd pick\<rparr>)
       (selectListJudge contract h (jl_list st) workerId (attempted_judges st) now)"

definition judgeFallbackVendorConflict ::
  "contract \<Rightarrow> string option \<Rightarrow> string \<Rightarrow> snap_error option" where
  "judgeFallbackVendorConflict contract workerRuntimeId nextRuntimeId =
     (case (Option.bind workerRuntimeId (\<lambda>w. map_option rt_vendor (runtime_of contract w)),
            map_option rt_vendor (runtime_of contract nextRuntimeId)) of
        (Some workerVendor, Some judgeVendor) \<Rightarrow>
          if workerVendor = [] \<or> judgeVendor = [] \<or> workerVendor \<noteq> judgeVendor then None
          else Some (mk_error ''judge_fallback_vendor_conflict''
            (''judge fallback runtime '' @ nextRuntimeId @ '' shares vendor '' @ judgeVendor @
             '' with worker runtime '' @ the workerRuntimeId))
      | _ \<Rightarrow> None)"

section \<open>The providers a worker can end up on\<close>

definition providers_of :: "runtimes \<Rightarrow> string set \<Rightarrow> string set" where
  "providers_of rts S = {p. \<exists>x \<in> S. map_option effectiveProvider (map_of rts x) = Some p}"

lemma providers_of_insert:
  "providers_of rts (insert x S) =
     (case map_of rts x of None \<Rightarrow> {} | Some rt \<Rightarrow> {effectiveProvider rt}) \<union> providers_of rts S"
  by (cases "map_of rts x") (auto simp: providers_of_def)

lemma worker_providers_loop_correct:
  assumes "walk_inv rts w seen cur" and "set providers = providers_of rts (set seen)"
  shows "set (worker_providers_loop rts providers seen cur) = providers_of rts {x. reaches rts w x}"
  using assms
proof (induction rts providers seen cur rule: worker_providers_loop.induct)
  case (1 rts providers seen cur)
  show ?case
  proof (cases "fallback_of rts cur = None \<or> (\<exists>n \<in> set seen. fallback_of rts cur = Some n)")
    case True
    then have "reaches rts w x \<longleftrightarrow> x \<in> set seen" for x
      by (rule walk_inv_stop [OF "1.prems"(1)])
    with True "1.prems"(2) show ?thesis
      by (auto simp: worker_providers_loop.simps [of rts providers seen cur] fallback_of_def)
  next
    case False
    then obtain n where n: "fallback_of rts cur = Some n" "n \<notin> set seen"
      by (cases "fallback_of rts cur") auto
    have walk: "walk_inv rts w (n # seen) n" using "1.prems"(1) n(1) by (rule walk_inv_step)
    show ?thesis
    proof (cases "map_of rts n")
      case None
      then have "fallback_of rts n = None" by (simp add: fallback_of_def)
      then have "reaches rts w x \<longleftrightarrow> x \<in> set (n # seen)" for x
        by (intro walk_inv_stop [OF walk]) simp
      then have "{x. reaches rts w x} = set (n # seen)" by blast
      with n None "1.prems"(2) show ?thesis
        by (simp add: worker_providers_loop.simps [of rts providers seen cur] fallback_of_def
            providers_of_insert)
    next
      case (Some rt)
      have "set (List.insert (effectiveProvider rt) providers) = providers_of rts (set (n # seen))"
        using "1.prems"(2) Some by (simp add: providers_of_insert)
      with "1.IH" n Some walk
      have "set (worker_providers_loop rts (List.insert (effectiveProvider rt) providers) (n # seen) n)
          = providers_of rts {x. reaches rts w x}"
        by (simp add: fallback_of_def)
      with n Some show ?thesis
        by (simp add: worker_providers_loop.simps [of rts providers seen cur] fallback_of_def)
    qed
  qed
qed

lemma reachableWorkerProviders_set:
  assumes "reachableWorkerProviders rts w = Some ps"
  shows "set ps = providers_of rts {x. reaches rts w x}"
proof -
  from assms obtain worker where w: "map_of rts w = Some worker"
    and ps: "ps = worker_providers_loop rts [effectiveProvider worker] [w] w"
    by (auto simp: reachableWorkerProviders_def split: option.splits)
  have "set [effectiveProvider worker] = providers_of rts (set [w])"
    using w by (simp add: providers_of_def)
  with ps show ?thesis by (simp add: worker_providers_loop_correct [OF walk_inv_init])
qed

section \<open>What a pick guarantees\<close>

text \<open>The entries a pick may choose.\<close>

definition eligible_judge ::
  "contract \<Rightarrow> host \<Rightarrow> string \<Rightarrow> string list \<Rightarrow> int \<Rightarrow> string \<Rightarrow> bool" where
  "eligible_judge contract h workerId attempted now i \<longleftrightarrow>
     i \<notin> set attempted \<and>
     (\<exists>rt. runtime_of contract i = Some rt \<and>
        (\<forall>x w. reaches (ct_runtimes contract) workerId x \<longrightarrow> runtime_of contract x = Some w \<longrightarrow>
           effectiveProvider rt \<noteq> effectiveProvider w) \<and>
        readRefusal (ho_verdicts h) (runtime_key h rt) now = None \<and>
        overspentWindow h rt now = None)"

lemma skip_entry_None_iff:
  assumes "reachableWorkerProviders (ct_runtimes contract) workerId = Some providers"
  shows "skip_entry contract h attempted providers now i = None \<longleftrightarrow>
    eligible_judge contract h workerId attempted now i"
proof -
  have "p \<in> set providers \<longleftrightarrow> (\<exists>x w. reaches (ct_runtimes contract) workerId x \<and>
      runtime_of contract x = Some w \<and> effectiveProvider w = p)" for p
    using reachableWorkerProviders_set [OF assms] by (auto simp: providers_of_def)
  then show ?thesis
    by (auto simp: skip_entry_def eligible_judge_def Let_def split: option.splits)
qed

text \<open>What the pick records for the entries before the chosen one, and after it.\<close>

abbreviation skip_record ::
  "contract \<Rightarrow> host \<Rightarrow> string list \<Rightarrow> string list \<Rightarrow> int \<Rightarrow> string \<Rightarrow> judge_skip" where
  "skip_record contract h attempted providers now j \<equiv>
     \<lparr>js_id = j, js_reason = the (skip_entry contract h attempted providers now j)\<rparr>"

abbreviation later_record :: "string \<Rightarrow> judge_skip" where
  "later_record j \<equiv> \<lparr>js_id = j, js_reason = Skip_attempted\<rparr>"

lemma after_first_append: "i \<notin> set pre \<Longrightarrow> after_first i (pre @ i # post) = post"
  by (induction pre) auto

lemma select_loop_None:
  assumes "\<forall>j \<in> set rest. skip_entry contract h attempted providers now j \<noteq> None"
  shows "select_loop contract h attempted providers now list rest skipped =
    (None, skipped @ map (skip_record contract h attempted providers now) rest)"
  using assms by (induction rest arbitrary: skipped) (auto split: option.splits)

lemma select_loop_Some:
  assumes "\<forall>j \<in> set pre. skip_entry contract h attempted providers now j \<noteq> None"
    and "skip_entry contract h attempted providers now i = None"
  shows "select_loop contract h attempted providers now list (pre @ i # post) skipped =
    (Some i, skipped @ map (skip_record contract h attempted providers now) pre @
       map later_record (filter (\<lambda>j. j \<in> set attempted) (after_first i list)))"
  using assms by (induction pre arbitrary: skipped) (auto split: option.splits)

lemma selectListJudge_cases:
  assumes "selectListJudge contract h list w attempted now = Some (chosen, skipped)"
  obtains (none) ps where
      "reachableWorkerProviders (ct_runtimes contract) w = Some ps" "chosen = None"
      "\<forall>j \<in> set list. skip_entry contract h attempted ps now j \<noteq> None"
      "skipped = map (skip_record contract h attempted ps now) list"
  | (pick) ps i pre post where
      "reachableWorkerProviders (ct_runtimes contract) w = Some ps"
      "chosen = Some i" "list = pre @ i # post"
      "\<forall>j \<in> set pre. skip_entry contract h attempted ps now j \<noteq> None"
      "skip_entry contract h attempted ps now i = None"
      "skipped = map (skip_record contract h attempted ps now) pre @
         map later_record (filter (\<lambda>j. j \<in> set attempted) post)"
proof -
  from assms obtain ps where ps: "reachableWorkerProviders (ct_runtimes contract) w = Some ps"
    and loop: "select_loop contract h attempted ps now list list [] = (chosen, skipped)"
    by (auto simp: selectListJudge_def split: option.splits)
  show thesis
  proof (cases "\<forall>j \<in> set list. skip_entry contract h attempted ps now j \<noteq> None")
    case True
    with loop show thesis by (intro none [OF ps]) (auto simp: select_loop_None)
  next
    case False
    then have "\<exists>j \<in> set list. skip_entry contract h attempted ps now j = None"
      by (simp del: not_None_eq)
    then obtain pre i post where split: "list = pre @ i # post"
      and i: "skip_entry contract h attempted ps now i = None"
      and pre: "\<forall>j \<in> set pre. skip_entry contract h attempted ps now j \<noteq> None"
      by (rule split_list_first_propE) auto
    have "i \<notin> set pre" using i pre by auto
    then have "after_first i list = post" by (simp add: split after_first_append)
    with loop select_loop_Some [OF pre i, of list post "[]"] show thesis
      by (intro pick [OF ps _ split pre i]) (auto simp: split)
  qed
qed

lemma skip_entry_attempted [simp]:
  "skip_entry contract h attempted ps now j = Some Skip_attempted \<longleftrightarrow> j \<in> set attempted"
  by (auto simp: skip_entry_def Let_def split: option.splits)

lemma skip_reason_attempted:
  "skip_entry contract h attempted ps now j \<noteq> None \<Longrightarrow>
     the (skip_entry contract h attempted ps now j) = Skip_attempted \<longleftrightarrow> j \<in> set attempted"
  using skip_entry_attempted [of contract h attempted ps now j] by (metis option.collapse option.sel)

text \<open>
  The list is walked in the order it was written: the pick is the first entry that was not
  attempted, is declared, shares no provider with any runtime the worker can fall over to, holds
  no refusal and has no overspent usage window; there is no pick exactly when there is no such
  entry. What is recorded as skipped is every entry passed over before the pick, then the entries
  after it that were already attempted, each marked attempted exactly when it was.
\<close>

theorem list_judge_is_first_eligible:
  assumes "selectListJudge contract h list workerId attempted now = Some (chosen, skipped)"
  shows "chosen = List.find (eligible_judge contract h workerId attempted now) list \<and>
    map js_id skipped =
      takeWhile (\<lambda>j. \<not> eligible_judge contract h workerId attempted now j) list @
      filter (\<lambda>j. j \<in> set attempted)
        (tl (dropWhile (\<lambda>j. \<not> eligible_judge contract h workerId attempted now j) list)) \<and>
    (\<forall>s \<in> set skipped. js_reason s = Skip_attempted \<longleftrightarrow> js_id s \<in> set attempted)"
  using assms
proof (cases rule: selectListJudge_cases)
  case (none ps)
  note iff = skip_entry_None_iff [OF none(1), of h attempted now]
  with none(3) have no: "\<forall>j \<in> set list. \<not> eligible_judge contract h workerId attempted now j"
    by metis
  then have "List.find (eligible_judge contract h workerId attempted now) list = None"
    by (simp add: find_None_iff)
  with no none skip_reason_attempted [of contract h attempted ps now] show ?thesis
    by (simp add: comp_def takeWhile_eq_all_conv [THEN iffD2] dropWhile_eq_Nil_conv [THEN iffD2]
        del: not_None_eq)
next
  case (pick ps i pre post)
  note iff = skip_entry_None_iff [OF pick(1), of h attempted now]
  have no: "\<forall>j \<in> set pre. \<not> eligible_judge contract h workerId attempted now j"
    and yes: "eligible_judge contract h workerId attempted now i"
    using iff pick(4,5) by metis+
  have "List.find (eligible_judge contract h workerId attempted now) (pre @ i # post) = Some i"
    using no yes by (induction pre) auto
  moreover have "\<forall>s \<in> set skipped. js_reason s = Skip_attempted \<longleftrightarrow> js_id s \<in> set attempted"
    using pick(4,6) skip_reason_attempted [of contract h attempted ps now] by fastforce
  ultimately show ?thesis
    using no yes pick(2,3,6) by (simp add: comp_def takeWhile_append2 dropWhile_append2)
qed

section \<open>The picks that follow one another\<close>

text \<open>
  A node's judge list over time: the first pick, then the next one each time the chosen judge
  runs out, at the instants given; the ids picked, in order.
\<close>

fun later_picks :: "contract \<Rightarrow> host \<Rightarrow> string \<Rightarrow> judge_list_state \<Rightarrow> int list \<Rightarrow> string list" where
  "later_picks contract h w st [] = []"
| "later_picks contract h w st (now # later) =
     (case nextListJudge contract h st w now of
        None \<Rightarrow> []
      | Some st' \<Rightarrow> (case jl_chosen st' of
            None \<Rightarrow> []
          | Some c \<Rightarrow> c # later_picks contract h w st' later))"

definition judge_picks ::
  "contract \<Rightarrow> host \<Rightarrow> string \<Rightarrow> string list \<Rightarrow> int \<Rightarrow> int list \<Rightarrow> string list" where
  "judge_picks contract h w list now later =
     (case initialJudgeListState contract h list w now of
        None \<Rightarrow> []
      | Some st \<Rightarrow> (case jl_chosen st of
            None \<Rightarrow> []
          | Some c \<Rightarrow> c # later_picks contract h w st later))"

lemma selectListJudge_attempted:
  assumes "selectListJudge contract h list w attempted now = Some (chosen, skipped)"
    and "[] \<notin> set list" and "set attempted \<subseteq> set list"
  shows "set (attempted_judges \<lparr>jl_list = list, jl_chosen = chosen, jl_skipped = skipped\<rparr>) =
      set attempted \<union> set_option chosen \<and>
    set_option chosen \<subseteq> set list - set attempted"
  using assms(1)
proof (cases rule: selectListJudge_cases)
  case (none ps)
  have "the (skip_entry contract h attempted ps now j) = Skip_attempted \<longleftrightarrow> j \<in> set attempted"
    if "j \<in> set list" for j
    using that none(3) skip_reason_attempted by blast
  with assms(3) have "{j \<in> set list. the (skip_entry contract h attempted ps now j) = Skip_attempted} =
      set attempted" by blast
  with none(2,4) show ?thesis by (simp add: attempted_judges_def filter_map comp_def)
next
  case (pick ps i pre post)
  have "the (skip_entry contract h attempted ps now j) = Skip_attempted \<longleftrightarrow> j \<in> set attempted"
    if "j \<in> set pre" for j
    using that pick(4) skip_reason_attempted by blast
  then have "{j \<in> set pre. the (skip_entry contract h attempted ps now j) = Skip_attempted} =
      set pre \<inter> set attempted" by blast
  moreover have "i \<notin> set attempted" using pick(5) by (auto simp: skip_entry_def)
  moreover have "i \<noteq> []" using assms(2) pick(3) by auto
  ultimately show ?thesis
    using pick(2,3,6) assms(3) by (auto simp: attempted_judges_def filter_map comp_def)
qed

lemma nextListJudge_attempted:
  assumes "nextListJudge contract h st w now = Some st'"
    and "[] \<notin> set (jl_list st)" and "set (attempted_judges st) \<subseteq> set (jl_list st)"
  shows "jl_list st' = jl_list st"
    and "set (attempted_judges st') = set (attempted_judges st) \<union> set_option (jl_chosen st')"
    and "set_option (jl_chosen st') \<subseteq> set (jl_list st) - set (attempted_judges st)"
proof -
  from assms(1) obtain c s where
    sel: "selectListJudge contract h (jl_list st) w (attempted_judges st) now = Some (c, s)"
    and st': "st' = \<lparr>jl_list = jl_list st, jl_chosen = c, jl_skipped = s\<rparr>"
    by (auto simp: nextListJudge_def)
  note facts = selectListJudge_attempted [OF sel assms(2,3)]
  show "jl_list st' = jl_list st" by (simp add: st')
  show "set (attempted_judges st') = set (attempted_judges st) \<union> set_option (jl_chosen st')"
    and "set_option (jl_chosen st') \<subseteq> set (jl_list st) - set (attempted_judges st)"
    using facts by (simp_all add: st')
qed

lemma later_picks_fresh:
  assumes "[] \<notin> set (jl_list st)" and "set (attempted_judges st) \<subseteq> set (jl_list st)"
  shows "distinct (later_picks contract h w st nows) \<and>
    set (later_picks contract h w st nows) \<subseteq> set (jl_list st) - set (attempted_judges st)"
  using assms
proof (induction nows arbitrary: st)
  case Nil
  then show ?case by simp
next
  case (Cons now nows)
  show ?case
  proof (cases "nextListJudge contract h st w now")
    case None
    then show ?thesis by simp
  next
    case (Some st')
    note step = nextListJudge_attempted [OF Some Cons.prems]
    with Cons.prems have "set (attempted_judges st') \<subseteq> set (jl_list st')" by auto
    with Cons.IH [of st'] Cons.prems step(1)
    have "distinct (later_picks contract h w st' nows) \<and>
        set (later_picks contract h w st' nows) \<subseteq> set (jl_list st) - set (attempted_judges st')"
      by simp
    with step Some show ?thesis by (auto split: option.splits)
  qed
qed

definition sample_host :: host where
  "sample_host =
     \<lparr>ho_verdicts = None, ho_windows = None, ho_codexHome = ''h'', ho_executable = rt_harness\<rparr>"

theorem list_judge_is_first_eligible_witness:
  "selectListJudge (sample_contract False []) sample_host [''opus'', ''nobody'', ''gpt''] ''glm'' [] 0 =
     Some (Some ''gpt'',
       [\<lparr>js_id = ''opus'', js_reason = Skip_same_provider ''anthropic''\<rparr>,
        \<lparr>js_id = ''nobody'', js_reason = Skip_undeclared\<rparr>]) \<and>
   List.find (eligible_judge (sample_contract False []) sample_host ''glm'' [] 0)
     [''opus'', ''nobody'', ''gpt''] = Some ''gpt''"
proof -
  have pick: "selectListJudge (sample_contract False []) sample_host [''opus'', ''nobody'', ''gpt'']
      ''glm'' [] 0 = Some (Some ''gpt'',
       [\<lparr>js_id = ''opus'', js_reason = Skip_same_provider ''anthropic''\<rparr>,
        \<lparr>js_id = ''nobody'', js_reason = Skip_undeclared\<rparr>])"
    by code_simp
  from list_judge_is_first_eligible [OF this] pick show ?thesis by simp
qed

text \<open>
  A node's judge list cannot cycle: whatever the instants and whatever the stores say, the
  judges the node gets one after another are distinct entries of its list, so the list runs out
  after at most as many picks as it has entries.
\<close>

theorem judge_list_never_repeats:
  assumes "[] \<notin> set list"
  shows "distinct (judge_picks contract h w list now later) \<and>
    set (judge_picks contract h w list now later) \<subseteq> set list \<and>
    length (judge_picks contract h w list now later) \<le> length list"
proof -
  have "distinct (judge_picks contract h w list now later) \<and>
      set (judge_picks contract h w list now later) \<subseteq> set list"
  proof (cases "initialJudgeListState contract h list w now")
    case None
    then show ?thesis by (simp add: judge_picks_def)
  next
    case (Some st)
    then obtain c s where sel: "selectListJudge contract h list w [] now = Some (c, s)"
      and st: "st = \<lparr>jl_list = list, jl_chosen = c, jl_skipped = s\<rparr>"
      by (auto simp: initialJudgeListState_def)
    note facts = selectListJudge_attempted [OF sel assms]
    with assms have "distinct (later_picks contract h w st later) \<and>
        set (later_picks contract h w st later) \<subseteq> set list - set_option c"
      using later_picks_fresh [of st contract h w later] by (simp add: st)
    with facts Some st show ?thesis by (auto simp: judge_picks_def split: option.splits)
  qed
  then show ?thesis
    by (metis card_length card_mono distinct_card finite_set order_trans)
qed

theorem judge_list_never_repeats_witness:
  "length (judge_picks (sample_contract False []) sample_host ''sonnet''
     [''glm'', ''gpt'', ''glm''] 0 [1, 2, 3]) \<le> 3"
  using judge_list_never_repeats [of "[''glm'', ''gpt'', ''glm'']" "sample_contract False []"
      sample_host "''sonnet''" 0 "[1, 2, 3]"]
  by simp

end
