(* ===== verification/Failover.thy ===== *)
theory Failover
  imports Judge_List
begin

text \<open>
  Which runtime a role runs on next: \<open>src/engine/failover.mjs\<close>, with \<open>routeRuntime\<close> of
  \<open>src/contract/runtime.mjs\<close> and \<open>classifyFailureCause\<close> of \<open>src/engine/failure-cause.mjs\<close>.
  A declared fallback is one hop; attempt affinity prefers the runtime the previous attempt ran.
  A \<open>None\<close> result is the error raised for a runtime id the contract does not declare.
\<close>

section \<open>Declared fallbacks\<close>

definition rankedRuntimeIds :: "contract \<Rightarrow> string list" where
  "rankedRuntimeIds contract =
     map fst (sort_key (\<lambda>e. (if rt_costRank (snd e) = None then 1 else 0 :: nat,
                             nullish (rt_costRank (snd e)) 0))
       (ct_runtimes contract))"

definition synthesizedChain :: "contract \<Rightarrow> string \<Rightarrow> string list" where
  "synthesizedChain contract currentRuntime =
     (case Option.bind (runtime_of contract currentRuntime) rt_fallback of
        None \<Rightarrow> []
      | Some fallback \<Rightarrow> if fallback = [] then [] else [fallback])"

definition nextSynthesizedRuntime :: "contract \<Rightarrow> string \<Rightarrow> string list \<Rightarrow> string option" where
  "nextSynthesizedRuntime contract currentRuntime attempted =
     List.find (\<lambda>i. i \<notin> set attempted) (synthesizedChain contract currentRuntime)"

datatype schedule_kind = Kind_reset | Kind_failover

definition nextHop :: "routing \<Rightarrow> role \<Rightarrow> nat \<Rightarrow> schedule_kind \<Rightarrow> nat" where
  "nextHop stateRouting role revision kind =
     (let fromHistory = Max (insert 0 (set (map (\<lambda>e. nullish (he_hop e) 0)
            (filter (\<lambda>e. he_role e = role \<and> nullish (he_revision e) revision = revision)
              (ro_history stateRouting)))));
          previousHop =
            (case ro_currentOverride stateRouting of
               None \<Rightarrow> fromHistory
             | Some ov \<Rightarrow>
                 if ov_role ov = role \<and> nullish (ov_revision ov) revision = revision
                 then nullish (ov_hop ov) 0 else fromHistory)
      in (case kind of Kind_reset \<Rightarrow> previousHop | Kind_failover \<Rightarrow> previousHop + 1))"

text \<open>\<open>runtimeSnapshot\<close>: the id with its declaration, or the error for an unknown id.\<close>

definition runtimeSnapshot :: "contract \<Rightarrow> string \<Rightarrow> (string \<times> runtime) option" where
  "runtimeSnapshot contract i = map_option (\<lambda>rt. (i, rt)) (runtime_of contract i)"

fun collect_all :: "'a option list \<Rightarrow> 'a list option" where
  "collect_all [] = Some []"
| "collect_all (x # xs) =
     (case x of None \<Rightarrow> None | Some v \<Rightarrow> map_option ((#) v) (collect_all xs))"

definition failoverTargets ::
  "contract \<Rightarrow> role \<Rightarrow> string \<Rightarrow> routing option \<Rightarrow> int \<Rightarrow> (string \<times> runtime) list option" where
  "failoverTargets contract role runtimeId stateRouting now =
     (let declared = synthesizedChain contract runtimeId
      in if declared \<noteq> [] then collect_all (map (runtimeSnapshot contract) declared)
         else (case Option.bind stateRouting
                 (\<lambda>ro. nextSameTierRuntime contract ro role runtimeId [runtimeId] now) of
                 None \<Rightarrow> Some []
               | Some composed \<Rightarrow> map_option (\<lambda>s. [s]) (runtimeSnapshot contract composed)))"

definition failoverEdges :: "contract \<Rightarrow> (string \<times> string) list" where
  "failoverEdges contract =
     concat (map (\<lambda>i. map (\<lambda>f. (i, f)) (synthesizedChain contract i)) (rankedRuntimeIds contract))"

section \<open>The runtime of one attempt\<close>

definition routingBackoffActive :: "routing option \<Rightarrow> phase \<Rightarrow> int \<Rightarrow> bool" where
  "routingBackoffActive stateRouting ph now =
     (case Option.bind stateRouting ro_currentOverride of
        None \<Rightarrow> False
      | Some ov \<Rightarrow> role_phase (ov_role ov) = ph \<and> truthy_stamp (ov_backoffUntil ov)
                   \<and> stamp_gt (ov_backoffUntil ov) now)"

definition previousAttemptRuntimeId :: "snapshot \<Rightarrow> role \<Rightarrow> string option" where
  "previousAttemptRuntimeId state role =
     Option.bind (find_last (\<lambda>i. in_phase i = role) (ns_invocations state)) in_runtimeId"

definition affinity_worker :: "snapshot \<Rightarrow> string option" where
  "affinity_worker state =
     orelse (previousAttemptRuntimeId state Worker)
       (Option.bind (ns_routing state) (\<lambda>ro. map_option as_worker (ro_assignments ro)))"

definition admitsAffinity :: "contract \<Rightarrow> snapshot \<Rightarrow> role \<Rightarrow> string \<Rightarrow> int \<Rightarrow> bool" where
  "admitsAffinity contract state role candidate now =
     (case runtime_of contract candidate of
        None \<Rightarrow> False
      | Some rt \<Rightarrow>
          (case Option.bind (Option.bind (ns_routing state) ro_availability)
                  (\<lambda>a. map_of a candidate) of
             Some a \<Rightarrow> isRuntimeAvailable (Some a) now
           | None \<Rightarrow> True) \<and>
          (role \<noteq> Judge \<or>
             Some (effectiveProvider rt) \<noteq>
               map_option effectiveProvider
                 (Option.bind (affinity_worker state)
                   (\<lambda>w. if w = [] then None else runtime_of contract w))))"

definition declared_runtime :: "contract \<Rightarrow> node \<Rightarrow> role \<Rightarrow> string option" where
  "declared_runtime contract node role =
     (case role of
        Judge \<Rightarrow> orelse (gt_runtime (nd_gate node)) (ct_defaultJudge contract)
      | Worker \<Rightarrow> orelse (nd_runtime node) (ct_defaultWorker contract))"

text \<open>\<open>routeRuntime\<close> without a routing event, which is how a node's attempt calls it.\<close>

definition routeRuntime :: "contract \<Rightarrow> node \<Rightarrow> role \<Rightarrow> (string \<times> runtime) option" where
  "routeRuntime contract node role =
     Option.bind (declared_runtime contract node role) (runtimeSnapshot contract)"

definition assigned_runtime :: "snapshot \<Rightarrow> role \<Rightarrow> string option" where
  "assigned_runtime state role =
     Option.bind (ns_routing state) (\<lambda>ro. map_option
       (case role of Worker \<Rightarrow> as_worker | Judge \<Rightarrow> as_judge) (ro_assignments ro))"

definition override_runtime :: "snapshot \<Rightarrow> role \<Rightarrow> string option" where
  "override_runtime state role =
     (case Option.bind (ns_routing state) ro_currentOverride of
        None \<Rightarrow> None
      | Some ov \<Rightarrow> if ov_role ov = role then Some (ov_runtime ov) else None)"

definition routeRuntimeForState ::
  "contract \<Rightarrow> node \<Rightarrow> snapshot \<Rightarrow> role \<Rightarrow> int \<Rightarrow> (string \<times> runtime) option" where
  "routeRuntimeForState contract node state role now =
     (case Option.bind (override_runtime state role) (runtimeSnapshot contract) of
        Some s \<Rightarrow> Some s
      | None \<Rightarrow>
          (case previousAttemptRuntimeId state role of
             Some previous \<Rightarrow>
               if admitsAffinity contract state role previous now
               then runtimeSnapshot contract previous
               else
                 (case Option.bind (assigned_runtime state role)
                         (\<lambda>a. if a = [] then None else runtimeSnapshot contract a) of
                    Some s \<Rightarrow> Some s
                  | None \<Rightarrow> routeRuntime contract node role)
           | None \<Rightarrow>
               (case Option.bind (assigned_runtime state role)
                       (\<lambda>a. if a = [] then None else runtimeSnapshot contract a) of
                  Some s \<Rightarrow> Some s
                | None \<Rightarrow> routeRuntime contract node role)))"

section \<open>The cause a refused packet failed for\<close>

datatype failure_cause_class =
  Missing_read_scope | Missing_write_scope | Ambiguous_requirement | Unclassified

definition is_alnum :: "char \<Rightarrow> bool" where
  "is_alnum c = (is_word_char c \<and> c \<noteq> CHR ''_'')"

definition is_alpha :: "char \<Rightarrow> bool" where
  "is_alpha c = (is_alnum c \<and> \<not> is_digit c)"

text \<open>\<open>PATH_LIKE\<close>: a path separator anywhere, or an extension of one to eight characters at the end.\<close>

definition PATH_LIKE :: "string \<Rightarrow> bool" where
  "PATH_LIKE s =
     (CHR ''/'' \<in> set s \<or> CHR 0x5C \<in> set s \<or>
      (let ext = takeWhile is_alnum (rev s);
           rest = dropWhile is_alnum (rev s)
       in ext \<noteq> [] \<and> length ext \<le> 8 \<and> is_alpha (last ext) \<and> head_opt rest = Some (CHR ''.'')))"

record failure_cause =
  fc_cause :: failure_cause_class
  fc_node :: string
  fc_artifactVersion :: "string option"

record gap_flags =
  gf_ambiguous :: bool
  gf_readGap :: bool
  gf_writeGap :: bool

definition gap_step :: "node \<Rightarrow> string \<Rightarrow> gap_flags \<Rightarrow> gap_flags" where
  "gap_step node entry f =
     (if \<not> PATH_LIKE entry then f\<lparr>gf_ambiguous := True\<rparr>
      else if entry \<notin> set (nd_readFiles node) \<and> entry \<notin> set (nd_writeFiles node)
           then f\<lparr>gf_readGap := True\<rparr>
      else if entry \<notin> set (nd_writeFiles node) then f\<lparr>gf_writeGap := True\<rparr>
      else f)"

definition classifyFailureCause :: "node \<Rightarrow> snapshot \<Rightarrow> failure_cause" where
  "classifyFailureCause node state =
     (let missingContext = (case ns_result state of None \<Rightarrow> [] | Some r \<Rightarrow> wr_missingContext r);
          flags = fold (gap_step node) missingContext
            \<lparr>gf_ambiguous = False, gf_readGap = False, gf_writeGap = False\<rparr>;
          cause = (if missingContext = [] then Unclassified
                   else if gf_ambiguous flags then Ambiguous_requirement
                   else if gf_writeGap flags \<and> \<not> gf_readGap flags then Missing_write_scope
                   else Missing_read_scope)
      in \<lparr>fc_cause = cause, fc_node = nd_id node, fc_artifactVersion = ns_packetHash state\<rparr>)"

section \<open>Lemmas\<close>

lemma nextSynthesizedRuntime_Some:
  "nextSynthesizedRuntime contract cur attempted = Some n \<longleftrightarrow>
     Option.bind (runtime_of contract cur) rt_fallback = Some n \<and> n \<noteq> [] \<and> n \<notin> set attempted"
  by (auto simp: nextSynthesizedRuntime_def synthesizedChain_def split: option.splits if_splits)

lemma nextHop_failover: "nextHop ro role revision Kind_failover = nextHop ro role revision Kind_reset + 1"
  by (simp add: nextHop_def Let_def split: option.splits)

lemma runtimeSnapshot_Some [simp]:
  "runtimeSnapshot contract i = Some s \<longleftrightarrow> fst s = i \<and> runtime_of contract i = Some (snd s)"
  by (cases s) (auto simp: runtimeSnapshot_def)

lemma assigned_pick_Some:
  "Option.bind (assigned_runtime state role)
      (\<lambda>a. if a = [] then None else runtimeSnapshot contract a) = Some s \<longleftrightarrow>
     assigned_runtime state role = Some (fst s) \<and> fst s \<noteq> [] \<and>
     runtime_of contract (fst s) = Some (snd s)"
  by (auto simp: bind_eq_Some_conv)

text \<open>The runtime the worker of a node ran on last, or was assigned, with its provider.\<close>

definition worker_provider :: "contract \<Rightarrow> snapshot \<Rightarrow> string option" where
  "worker_provider contract state =
     map_option effectiveProvider
       (Option.bind (affinity_worker state)
         (\<lambda>w. if w = [] then None else runtime_of contract w))"

text \<open>
  The runtime of an attempt is always one the contract declares, and the four sources are
  tried in order: an override recorded for the same role wins; otherwise the runtime of the
  role's previous attempt is kept, and only while the catalogue does not refuse it and, for a
  judge, only while its provider differs from that of the worker that ran; otherwise the frozen
  assignment; otherwise the contract's own declaration.
\<close>

theorem routed_runtime_sources:
  assumes "routeRuntimeForState contract node state role now = Some s"
  shows "runtime_of contract (fst s) = Some (snd s) \<and>
    (override_runtime state role = Some (fst s) \<or>
     (previousAttemptRuntimeId state role = Some (fst s) \<and>
       (\<forall>a. Option.bind (Option.bind (ns_routing state) ro_availability)
              (\<lambda>m. map_of m (fst s)) = Some a \<longrightarrow> isRuntimeAvailable (Some a) now) \<and>
       (role = Judge \<longrightarrow> Some (effectiveProvider (snd s)) \<noteq> worker_provider contract state)) \<or>
     assigned_runtime state role = Some (fst s) \<or>
     declared_runtime contract node role = Some (fst s))"
proof (cases "Option.bind (override_runtime state role) (runtimeSnapshot contract)")
  case (Some t)
  with assms show ?thesis by (auto simp: routeRuntimeForState_def bind_eq_Some_conv)
next
  case no_override: None
  let ?rest = "case Option.bind (assigned_runtime state role)
      (\<lambda>a. if a = [] then None else runtimeSnapshot contract a) of
        Some s \<Rightarrow> Some s | None \<Rightarrow> routeRuntime contract node role"
  have rest: "?rest = Some s \<Longrightarrow> runtime_of contract (fst s) = Some (snd s) \<and>
      (assigned_runtime state role = Some (fst s) \<or> declared_runtime contract node role = Some (fst s))"
    using assigned_pick_Some [of state role contract s]
    by (auto simp: routeRuntime_def bind_eq_Some_conv split: option.splits)
  show ?thesis
  proof (cases "previousAttemptRuntimeId state role")
    case None
    with no_override assms rest show ?thesis by (auto simp: routeRuntimeForState_def)
  next
    case (Some previous)
    show ?thesis
    proof (cases "admitsAffinity contract state role previous now")
      case True
      with Some no_override assms have "runtimeSnapshot contract previous = Some s"
        by (simp add: routeRuntimeForState_def del: runtimeSnapshot_Some)
      with True Some show ?thesis
        by (auto simp: admitsAffinity_def worker_provider_def split: option.splits)
    next
      case False
      with Some no_override assms rest show ?thesis by (auto simp: routeRuntimeForState_def)
    qed
  qed
qed

text \<open>The affinity rule for a judge, on a node whose worker ran on the judge's own provider.\<close>

theorem routed_runtime_sources_witness:
  "let state = (sample_snapshot ''a'' Running Ph_judge)
         \<lparr>ns_invocations :=
            [sample_invocation ''i1'' Worker ''sonnet'', sample_invocation ''i2'' Judge ''opus'']\<rparr>
   in routeRuntimeForState (sample_contract False []) (sample_node ''a'' [] None (Some ''gpt'')) state
        Judge 0 = Some (''gpt'', sample_runtime ''codex'' ''gpt-5.6'' ''openai'' None) \<and>
      declared_runtime (sample_contract False []) (sample_node ''a'' [] None (Some ''gpt'')) Judge =
        Some ''gpt''"
proof -
  let ?state = "(sample_snapshot ''a'' Running Ph_judge)
         \<lparr>ns_invocations :=
            [sample_invocation ''i1'' Worker ''sonnet'', sample_invocation ''i2'' Judge ''opus'']\<rparr>"
  have routed: "routeRuntimeForState (sample_contract False [])
      (sample_node ''a'' [] None (Some ''gpt'')) ?state Judge 0 =
      Some (''gpt'', sample_runtime ''codex'' ''gpt-5.6'' ''openai'' None)"
    by code_simp
  have "override_runtime ?state Judge = None" "previousAttemptRuntimeId ?state Judge = Some ''opus''"
    "assigned_runtime ?state Judge = None"
    by code_simp+
  with routed_runtime_sources [OF routed] routed show ?thesis by (simp add: Let_def)
qed

text \<open>How the loop over the missing entries accumulates the three kinds of gap.\<close>

lemma fold_gap_step:
  "gf_ambiguous (fold (gap_step node) es f) \<longleftrightarrow> gf_ambiguous f \<or> (\<exists>e \<in> set es. \<not> PATH_LIKE e)"
  "gf_readGap (fold (gap_step node) es f) \<longleftrightarrow> gf_readGap f \<or>
     (\<exists>e \<in> set es. PATH_LIKE e \<and> e \<notin> set (nd_readFiles node) \<and> e \<notin> set (nd_writeFiles node))"
  "gf_writeGap (fold (gap_step node) es f) \<longleftrightarrow> gf_writeGap f \<or>
     (\<exists>e \<in> set es. PATH_LIKE e \<and> e \<in> set (nd_readFiles node) \<and> e \<notin> set (nd_writeFiles node))"
  by (induction es arbitrary: f) (auto simp: gap_step_def)

text \<open>
  A refusal is classified \<open>missing_write_scope\<close> exactly when it names something, only paths,
  none of them outside the packet's grants and at least one readable but not writable; and a
  refusal naming only paths the packet may already write is classified \<open>missing_read_scope\<close>,
  although none of its entries is missing from the read scope.
\<close>

theorem failure_cause_classes:
  "(fc_cause (classifyFailureCause node state) = Missing_write_scope \<longleftrightarrow>
     (\<exists>r. ns_result state = Some r \<and> (\<forall>e \<in> set (wr_missingContext r). PATH_LIKE e \<and>
            (e \<in> set (nd_readFiles node) \<or> e \<in> set (nd_writeFiles node))) \<and>
          (\<exists>e \<in> set (wr_missingContext r). e \<notin> set (nd_writeFiles node)))) \<and>
   (\<forall>r. ns_result state = Some r \<and> wr_missingContext r \<noteq> [] \<and>
      (\<forall>e \<in> set (wr_missingContext r). PATH_LIKE e \<and> e \<in> set (nd_writeFiles node)) \<longrightarrow>
      fc_cause (classifyFailureCause node state) = Missing_read_scope)"
  by (cases "ns_result state") (auto simp: classifyFailureCause_def Let_def fold_gap_step)

theorem failure_cause_classes_witness:
  "fc_cause (classifyFailureCause (sample_node ''a'' [] None None)
     ((sample_snapshot ''a'' Blocked Ph_worker)\<lparr>ns_result :=
        Some (sample_refusal [''src/a.mjs''])\<rparr>)) = Missing_read_scope"
proof -
  let ?s = "(sample_snapshot ''a'' Blocked Ph_worker)\<lparr>ns_result :=
        Some (sample_refusal [''src/a.mjs''])\<rparr>"
  have "\<forall>e \<in> set [''src/a.mjs'']. PATH_LIKE e \<and> e \<in> set (nd_writeFiles (sample_node ''a'' [] None None))"
    by (simp add: PATH_LIKE_def sample_defs)
  with failure_cause_classes [of "sample_node ''a'' [] None None" ?s] show ?thesis
    by (simp add: sample_refusal_def)
qed

end
