(* ===== verification/Backoff.thy ===== *)
theory Backoff
  imports Failover
begin

text \<open>
  How an unusable invocation becomes a route: \<open>src/engine/backoff.mjs\<close>. A failure is classified
  into a wait on the same runtime or an edge to another one; an edge is resolved into a runtime,
  a hop count and an error when none remains; the outcome is recorded in the node's routing.
  The jitter \<open>Math.random()\<close> is an argument.
\<close>

section \<open>Classifying a failure\<close>

definition NON_FAILOVER_CODES :: "string list" where
  "NON_FAILOVER_CODES =
     [''revision_cap'', ''verification_failed'', ''budget_exceeded'',
      ''cancellation'', ''unexpected_write'', ''scope_violation'',
      ''permission_denied'', ''permission_required'', ''authority_denied'', ''authority_required'',
      ''authorization_required'', ''authentication_failed'', ''budget_attention'',
      ''cost_budget_exceeded'', ''token_budget_exceeded'', ''rollout_budget_exhausted'']"

definition NETWORK_MAX_ATTEMPTS :: nat where
  "NETWORK_MAX_ATTEMPTS = 3"

definition NETWORK_BACKOFF_BASE_MS :: rat where
  "NETWORK_BACKOFF_BASE_MS = 1000"

definition NETWORK_BACKOFF_CAP_MS :: rat where
  "NETWORK_BACKOFF_CAP_MS = 120000"

definition NODE_DEADLINE_CODES :: "string list" where
  "NODE_DEADLINE_CODES =
     [''wall_clock_timeout'', ''progress_stalled'', ''stall_timeout'', ''progress_snapshot_invalid'',
      ''token_budget_exceeded'', ''budget_exceeded'', ''cancellation'']"

definition NETWORK_CODES :: "string list" where
  "NETWORK_CODES =
     [''ECONNRESET'', ''ECONNREFUSED'', ''ECONNABORTED'', ''EPIPE'', ''ETIMEDOUT'', ''ENOTFOUND'',
      ''EAI_AGAIN'', ''ENETDOWN'', ''ENETUNREACH'', ''EHOSTUNREACH'', ''EPROTO'',
      ''UND_ERR_SOCKET'', ''network_error'', ''provider_unreachable'', ''service_unavailable'',
      ''gateway_timeout'', ''STREAM_CLOSED'']"

text \<open>
  A word between two \<open>\b\<close> anchors, and one of the alternatives of a pattern; the message is
  lower-cased first, which is what the \<open>i\<close> flag does to patterns of ASCII letters.
\<close>

fun word_at :: "bool \<Rightarrow> string \<Rightarrow> string \<Rightarrow> bool" where
  "word_at boundary [] w = False"
| "word_at boundary (c # cs) w =
     ((boundary \<and> starts_with (c # cs) w \<and>
       (case head_opt (drop (length w) (c # cs)) of
          None \<Rightarrow> True | Some d \<Rightarrow> \<not> is_word_char d))
      \<or> word_at (\<not> is_word_char c) cs w)"

definition NETWORK_WORDS :: "string list" where
  "NETWORK_WORDS =
     [''econnreset'', ''econnrefused'', ''econnaborted'', ''etimedout'', ''enotfound'',
      ''eai_again'', ''enetunreach'', ''ehostunreach'', ''epipe'', ''502'', ''503'', ''504'']"

definition NETWORK_PHRASES :: "string list" where
  "NETWORK_PHRASES =
     [''socket hangup'', ''socket hang up'',
      ''connection reset'', ''connection refused'', ''connection closed'', ''connection aborted'',
      ''connection error'', ''network error'', ''network is unreachable'',
      ''network unreachable'', ''network timeout'', ''fetch failed'', ''request failed'',
      ''temporary failure in name resolution'', ''bad gateway'', ''service unavailable'',
      ''gateway timeout'', ''gateway time-out'',
      ''tls handshake timeout'', ''tls handshake error'', ''tls connect timeout'',
      ''tls connect error'']"

definition NETWORK_PATTERNS :: "string \<Rightarrow> bool" where
  "NETWORK_PATTERNS message =
     (let text = lower_case message
      in list_ex (word_at True text) NETWORK_WORDS \<or> list_ex (includes_str text) NETWORK_PHRASES)"

definition TRANSIENT_EXIT_CODES :: "int list" where
  "TRANSIENT_EXIT_CODES = [7, 28, 35, 52, 56, 75, 124]"

definition error_code :: "provider_error option \<Rightarrow> string" where
  "error_code e = (case e of None \<Rightarrow> [] | Some p \<Rightarrow> pe_code p)"

definition isTimeoutOrStall :: "provider_error option \<Rightarrow> bool" where
  "isTimeoutOrStall e = (error_code e \<in> set NODE_DEADLINE_CODES)"

definition isNetworkFailure :: "provider_error option \<Rightarrow> int option \<Rightarrow> bool" where
  "isNetworkFailure e exitCode =
     (if isTimeoutOrStall e then False
      else if error_code e \<in> set NON_FAILOVER_CODES then False
      else if error_code e \<in> set NETWORK_CODES then True
      else let message = (case e of None \<Rightarrow> [] | Some p \<Rightarrow> pe_message p)
           in if message \<noteq> [] \<and> NETWORK_PATTERNS message then True
              else (case exitCode of None \<Rightarrow> False | Some c \<Rightarrow> c \<in> set TRANSIENT_EXIT_CODES))"

section \<open>Waits\<close>

definition backoffDelayMs :: "nat \<Rightarrow> rat \<Rightarrow> int" where
  "backoffDelayMs attempt random =
     (let window = min NETWORK_BACKOFF_CAP_MS (NETWORK_BACKOFF_BASE_MS * 2 ^ attempt)
      in \<lfloor>window / 2 + random * (window / 2) + 1 / 2\<rfloor>)"

definition NETWORK_BACKOFF_CODE :: string where
  "NETWORK_BACKOFF_CODE = ''network_backoff''"

definition networkBackoffErrorCode :: "string \<Rightarrow> string" where
  "networkBackoffErrorCode code = NETWORK_BACKOFF_CODE @ '':'' @ code"

definition counts_as_network_wait :: "role \<Rightarrow> nat \<Rightarrow> history_entry \<Rightarrow> bool" where
  "counts_as_network_wait role revision e =
     (he_role e = role \<and> nullish (he_revision e) 0 = revision \<and>
      starts_with (nullish (he_errorCode e) []) (NETWORK_BACKOFF_CODE @ '':''))"

definition networkBackoffAttempts :: "routing option \<Rightarrow> role \<Rightarrow> nat \<Rightarrow> nat" where
  "networkBackoffAttempts stateRouting role revision =
     length (filter (counts_as_network_wait role revision)
       (ro_history (nullish stateRouting empty_routing)))"

datatype transition_reason = Quota_reset | Network_backoff | Protocol_failure | Provider_reason

datatype failure_transition = Reset stamp transition_reason | Edge transition_reason

fun transition_kind :: "failure_transition \<Rightarrow> schedule_kind" where
  "transition_kind (Reset _ _) = Kind_reset"
| "transition_kind (Edge _) = Kind_failover"

fun reason_of :: "failure_transition \<Rightarrow> transition_reason" where
  "reason_of (Reset _ r) = r"
| "reason_of (Edge r) = r"

text \<open>\<open>quotaResetSchedule\<close>: the instant to wait for, or none when the edge is taken.\<close>

definition quotaResetSchedule :: "envelope \<Rightarrow> stamp option \<Rightarrow> int \<Rightarrow> int option" where
  "quotaResetSchedule envelope deadline now =
     (case parse_opt (orelse (en_resetAt envelope) (Option.bind (en_error envelope) pe_resetAt)) of
        None \<Rightarrow> None
      | Some resetAt \<Rightarrow>
          if resetAt \<le> now then None
          else (case parse_opt deadline of
                  None \<Rightarrow> Some resetAt
                | Some deadlineMs \<Rightarrow> if resetAt \<ge> deadlineMs then None else Some resetAt))"

definition classifyTransition ::
  "envelope \<Rightarrow> stamp option \<Rightarrow> int option \<Rightarrow> nat \<Rightarrow> int \<Rightarrow> rat \<Rightarrow> failure_transition" where
  "classifyTransition envelope deadline exitCode attempt now random =
     (case quotaResetSchedule envelope deadline now of
        Some resetAt \<Rightarrow> Reset (Iso resetAt) Quota_reset
      | None \<Rightarrow>
          if \<not> isNetworkFailure (en_error envelope) exitCode then Edge Provider_reason
          else if attempt \<ge> NETWORK_MAX_ATTEMPTS then Edge Network_backoff
          else (let t = now + backoffDelayMs attempt random
                in case parse_opt deadline of
                     None \<Rightarrow> Reset (Iso t) Network_backoff
                   | Some deadlineMs \<Rightarrow>
                       if t \<ge> deadlineMs then Edge Network_backoff
                       else Reset (Iso t) Network_backoff))"

definition latestTimeoutSec :: "snapshot \<Rightarrow> rat \<Rightarrow> rat" where
  "latestTimeoutSec state fallback =
     (case find_last (\<lambda>o'. xo_kind o' = ''timeout'' \<and> xo_timeoutSec o' \<noteq> None)
             (ns_executionOverrides state) of
        None \<Rightarrow> fallback
      | Some o' \<Rightarrow> nullish (xo_timeoutSec o') fallback)"

text \<open>A fractional number of milliseconds is truncated when a Date is made of it.\<close>

definition nodeDeadlineAt :: "contract \<Rightarrow> node \<Rightarrow> snapshot \<Rightarrow> stamp option" where
  "nodeDeadlineAt contract node state =
     (case parse_opt (ns_startedAt state) of
        None \<Rightarrow> None
      | Some startedAt \<Rightarrow>
          Some (Iso \<lfloor>of_int startedAt +
            latestTimeoutSec state (nullish (nd_timeoutSec node) (ct_timeoutSec contract)) * 1000\<rfloor>))"

definition networkTransition ::
  "contract \<Rightarrow> node \<Rightarrow> snapshot \<Rightarrow> role \<Rightarrow> envelope \<Rightarrow> int option \<Rightarrow> int \<Rightarrow> rat \<Rightarrow> failure_transition option" where
  "networkTransition contract node state role envelope exitCode now random =
     (let t = classifyTransition envelope (nodeDeadlineAt contract node state) exitCode
            (networkBackoffAttempts (ns_routing state) role (ns_revisions state)) now random
      in if reason_of t = Network_backoff then Some t else None)"

definition isRepairable :: "node \<Rightarrow> snapshot \<Rightarrow> bool" where
  "isRepairable node state = (ns_revisions state < nullish (gt_maxRevisions (nd_gate node)) 1)"

section \<open>From a transition to a route\<close>

definition put_candidate :: "tier_candidate \<Rightarrow> tier_candidate list \<Rightarrow> tier_candidate list" where
  "put_candidate entry candidates =
     (if \<exists>c \<in> set candidates. tc_runtimeId c = tc_runtimeId entry
      then (let index = length (takeWhile (\<lambda>c. tc_runtimeId c \<noteq> tc_runtimeId entry) candidates)
            in candidates[index := entry])
      else candidates @ [entry])"

definition upsertTierExhaustionCandidate ::
  "tier_exhaustion option \<Rightarrow> role \<Rightarrow> string \<Rightarrow> stamp option \<Rightarrow> tier_exhaustion" where
  "upsertTierExhaustionCandidate existing role runtimeId exhaustedUntil =
     (let candidates = (case existing of
            None \<Rightarrow> []
          | Some te \<Rightarrow> if te_role te = role then te_candidates te else [])
      in \<lparr>te_role = role,
          te_candidates = put_candidate
            \<lparr>tc_runtimeId = runtimeId, tc_exhaustedUntil = exhaustedUntil\<rparr> candidates\<rparr>)"

record route_plan =
  pl_blocked :: "snap_error option"
  pl_nextRuntime :: string
  pl_revision :: nat
  pl_hop :: nat
  pl_backoffSec :: rat
  pl_backoffUntil :: stamp
  pl_composed :: bool
  pl_tierExhaustion :: "tier_exhaustion option"
  pl_judgeList :: "judge_list_state option"

text \<open>The runtimes this role already ran on in this revision and this exhaustion generation.\<close>

definition attempted_runtimes :: "snapshot \<Rightarrow> role \<Rightarrow> string list" where
  "attempted_runtimes state role =
     List.map_filter in_runtimeId
       (filter (\<lambda>i. in_phase i = role \<and>
                 nullish (in_revision i) (ns_revisions state) = ns_revisions state \<and>
                 nullish (in_cycle i) 0 = nullish (ro_tierExhaustionCycle (routing_of state)) 0)
         (ns_invocations state))"

definition route_routing :: "snapshot \<Rightarrow> routing" where
  "route_routing state =
     (let ro = routing_of state
      in case ro_assignments ro of
           None \<Rightarrow> ro
         | Some a \<Rightarrow>
             (case previousAttemptRuntimeId state Worker of
                Some w \<Rightarrow> if w = [] then ro else ro\<lparr>ro_assignments := Some (a\<lparr>as_worker := w\<rparr>)\<rparr>
              | None \<Rightarrow> ro))"

definition explicitFallbackUsed :: "contract \<Rightarrow> snapshot \<Rightarrow> role \<Rightarrow> bool" where
  "explicitFallbackUsed contract state role =
     list_ex (\<lambda>e. he_role e = role \<and> he_nextRuntime e \<noteq> None \<and> he_nextRuntime e \<noteq> Some [] \<and>
                 Option.bind (runtime_of contract (he_runtime e)) rt_fallback = he_nextRuntime e)
       (ro_history (routing_of state))"

definition composedAssignment :: "snapshot \<Rightarrow> role \<Rightarrow> bool" where
  "composedAssignment state role =
     (case ro_assignments (routing_of state) of
        None \<Rightarrow> False
      | Some a \<Rightarrow> (case role of Worker \<Rightarrow> as_composedWorker a | Judge \<Rightarrow> as_composedJudge a))"

definition dynamicComposed :: "contract \<Rightarrow> snapshot \<Rightarrow> role \<Rightarrow> string \<Rightarrow> bool" where
  "dynamicComposed contract state role current =
     (composedAssignment state role \<and>
      Option.bind (runtime_of contract current) rt_fallback = None \<and>
      \<not> explicitFallbackUsed contract state role)"

fun show_tier :: "tier option \<Rightarrow> string" where
  "show_tier None = ''unknown''"
| "show_tier (Some (Tier_num n)) = show_nat n"
| "show_tier (Some (Tier_name s)) = s"

definition plan_fallback ::
  "contract \<Rightarrow> snapshot \<Rightarrow> role \<Rightarrow> string \<Rightarrow> int \<Rightarrow> judge_list_state option \<Rightarrow> string option" where
  "plan_fallback contract state role current now judgeListState =
     (case judgeListState of
        Some jl \<Rightarrow> jl_chosen jl
      | None \<Rightarrow>
          orelse (nextSynthesizedRuntime contract current (attempted_runtimes state role))
            (if dynamicComposed contract state role current
             then nextSameTierRuntime contract (route_routing state) role current
                    (attempted_runtimes state role) now
             else None))"

definition no_edge_error ::
  "contract \<Rightarrow> snapshot \<Rightarrow> role \<Rightarrow> snap_error \<Rightarrow> string \<Rightarrow> bool \<Rightarrow> snap_error" where
  "no_edge_error contract state role error current listGoverned =
     (let declaredCandidate = head_opt (synthesizedChain contract current)
      in if listGoverned
         then mk_error ''judge_list_exhausted''
           (''no eligible entry remains in the judge list for '' @ role_text role)
         else if declaredCandidate \<noteq> None \<and>
                 the declaredCandidate \<in> set (attempted_runtimes state role)
         then mk_error ''provider_failover_cycle''
           (''runtime '' @ the declaredCandidate @ '' was already attempted in '' @
            role_text role @ '' revision '' @ show_nat (ns_revisions state))
         else if dynamicComposed contract state role current
         then mk_error ''runtime_tier_exhausted''
           (''no available runtime remains in tier '' @
            show_tier (Option.bind (runtime_of contract current) rt_tier) @ '' for '' @
            role_text role)
         else mk_error (er_code error) (er_message error))"

definition plan_blocked ::
  "contract \<Rightarrow> snapshot \<Rightarrow> role \<Rightarrow> snap_error \<Rightarrow> string \<Rightarrow> failure_transition \<Rightarrow> int
    \<Rightarrow> judge_list_state option \<Rightarrow> snap_error option" where
  "plan_blocked contract state role error current schedule now judgeListState =
     (let listGoverned = judgeListState \<noteq> None;
          hop = nextHop (routing_of state) role (ns_revisions state) (transition_kind schedule);
          noHopCap = dynamicComposed contract state role current \<or> listGoverned
      in if transition_kind schedule = Kind_reset then None
         else if plan_fallback contract state role current now judgeListState = None
         then Some (no_edge_error contract state role error current listGoverned)
         else if hop > 1 \<and> \<not> noHopCap
         then Some (mk_error ''provider_failover_hop_cap''
                ''provider failover exceeded the one-hop cap'')
         else None)"

definition planRoute ::
  "contract \<Rightarrow> snapshot \<Rightarrow> role \<Rightarrow> snap_error \<Rightarrow> string \<Rightarrow> failure_transition \<Rightarrow> int \<Rightarrow> stamp option
    \<Rightarrow> judge_list_state option \<Rightarrow> route_plan" where
  "planRoute contract state role error current schedule now exhaustedUntil judgeListState =
     (let fallback = plan_fallback contract state role current now judgeListState;
          backoffSec = (case schedule of
              Reset at' _ \<Rightarrow> (case date_parse at' of
                  Some t \<Rightarrow> max 0 (of_int (t - now) / 1000) | None \<Rightarrow> 0)
            | Edge _ \<Rightarrow> 0)
      in \<lparr>pl_blocked = plan_blocked contract state role error current schedule now judgeListState,
          pl_nextRuntime = (if transition_kind schedule = Kind_reset then current
                            else nullish fallback current),
          pl_revision = ns_revisions state,
          pl_hop = nextHop (routing_of state) role (ns_revisions state) (transition_kind schedule),
          pl_backoffSec = backoffSec,
          pl_backoffUntil = (case schedule of Reset at' _ \<Rightarrow> at' | Edge _ \<Rightarrow> Iso now),
          pl_composed = composedAssignment state role,
          pl_tierExhaustion =
            (if dynamicComposed contract state role current
             then Some (upsertTierExhaustionCandidate (ro_tierExhaustion (routing_of state)) role
                    current exhaustedUntil)
             else None),
          pl_judgeList = judgeListState\<rparr>)"

definition MAX_ROUTING_HISTORY :: nat where
  "MAX_ROUTING_HISTORY = 64"

definition bounded_history :: "'a list \<Rightarrow> 'a list" where
  "bounded_history xs = drop (length xs - MAX_ROUTING_HISTORY) xs"

fun routeReason :: "failure_transition \<Rightarrow> role \<Rightarrow> string \<Rightarrow> snap_error \<Rightarrow> route_reason" where
  "routeReason (Reset at' Quota_reset) role current error =
     Reason_quota_reset role current at' (er_message error)"
| "routeReason (Reset at' _) role current error =
     Reason_network_retry role current at' (er_message error)"
| "routeReason (Edge Network_backoff) role current error =
     Reason_network_failed role current (er_message error) (er_code error)"
| "routeReason (Edge Protocol_failure) role current error =
     Reason_protocol role current (er_message error) (er_code error)"
| "routeReason (Edge _) role current error =
     Reason_exhausted role current (er_message error) (er_code error)"

definition routing_error_code :: "failure_transition \<Rightarrow> snap_error \<Rightarrow> string" where
  "routing_error_code schedule error =
     (case schedule of
        Reset _ Network_backoff \<Rightarrow> networkBackoffErrorCode (er_code error)
      | _ \<Rightarrow> er_code error)"

definition route_override ::
  "role \<Rightarrow> snap_error \<Rightarrow> string \<Rightarrow> route_plan \<Rightarrow> failure_transition \<Rightarrow> usage option \<Rightarrow> rat option \<Rightarrow> bool
    \<Rightarrow> int \<Rightarrow> override" where
  "route_override role error current plan schedule usage costUsd priced now =
     \<lparr>ov_at = Iso now, ov_role = role, ov_runtime = pl_nextRuntime plan,
      ov_nextRuntime = Some (pl_nextRuntime plan), ov_revision = Some (pl_revision plan),
      ov_hop = Some (pl_hop plan), ov_reason = Some (routeReason schedule role current error),
      ov_backoffSec = Some (pl_backoffSec plan), ov_backoffUntil = Some (pl_backoffUntil plan),
      ov_usage = usage, ov_costUsd = costUsd, ov_priced = priced\<rparr>"

definition route_entry ::
  "role \<Rightarrow> snap_error \<Rightarrow> string \<Rightarrow> route_plan \<Rightarrow> failure_transition \<Rightarrow> usage option \<Rightarrow> rat option \<Rightarrow> bool
    \<Rightarrow> status \<Rightarrow> int \<Rightarrow> history_entry" where
  "route_entry role error current plan schedule usage costUsd priced status now =
     \<lparr>he_at = Iso now, he_role = role, he_runtime = current,
      he_nextRuntime = Some (pl_nextRuntime plan), he_revision = Some (pl_revision plan),
      he_hop = Some (pl_hop plan), he_status = Some status,
      he_errorCode = Some (routing_error_code schedule error),
      he_backoffSec = Some (pl_backoffSec plan), he_backoffUntil = Some (pl_backoffUntil plan),
      he_usage = usage, he_costUsd = costUsd, he_priced = priced\<rparr>"

definition buildRouting ::
  "snapshot \<Rightarrow> role \<Rightarrow> snap_error \<Rightarrow> string \<Rightarrow> route_plan \<Rightarrow> failure_transition
    \<Rightarrow> usage option \<Rightarrow> rat option \<Rightarrow> bool \<Rightarrow> status \<Rightarrow> int
    \<Rightarrow> routing \<times> override \<times> string" where
  "buildRouting state role error current plan schedule usage costUsd priced status now =
     (let override = route_override role error current plan schedule usage costUsd priced now;
          entry = route_entry role error current plan schedule usage costUsd priced status now;
          ro = routing_of state
      in (ro\<lparr>ro_history := bounded_history (ro_history ro @ [entry]),
             ro_currentOverride := Some override,
             ro_tierExhaustion := pl_tierExhaustion plan,
             ro_judgeList := (case pl_judgeList plan of
                None \<Rightarrow> ro_judgeList ro | Some jl \<Rightarrow> Some jl)\<rparr>,
          override, routing_error_code schedule error))"

section \<open>The window of a wait\<close>

lemma backoffDelayMs_bounds:
  assumes "0 \<le> random" and "random < 1"
  shows "500 \<le> backoffDelayMs attempt random" and "backoffDelayMs attempt random \<le> 120000"
proof -
  define window :: rat where "window = min NETWORK_BACKOFF_CAP_MS (NETWORK_BACKOFF_BASE_MS * 2 ^ attempt)"
  have low: "1000 \<le> window"
    by (simp add: window_def NETWORK_BACKOFF_CAP_MS_def NETWORK_BACKOFF_BASE_MS_def)
  have high: "window \<le> 120000" by (simp add: window_def NETWORK_BACKOFF_CAP_MS_def)
  have delay: "backoffDelayMs attempt random = \<lfloor>window / 2 + random * (window / 2) + 1 / 2\<rfloor>"
    unfolding backoffDelayMs_def window_def Let_def ..
  have "0 \<le> random * (window / 2)" using assms(1) low by simp
  with low show "500 \<le> backoffDelayMs attempt random" by (simp add: delay le_floor_iff)
  have "random * (window / 2) < 1 * (window / 2)"
    using assms(2) low by (intro mult_strict_right_mono) simp_all
  with high have "window / 2 + random * (window / 2) + 1 / 2 < 120001" by simp
  then have "\<lfloor>window / 2 + random * (window / 2) + 1 / 2\<rfloor> < 120001" by (simp add: floor_less_iff)
  then show "backoffDelayMs attempt random \<le> 120000" by (simp add: delay)
qed

lemma quotaResetSchedule_Some:
  "quotaResetSchedule envelope deadline now = Some t \<longleftrightarrow>
     parse_opt (orelse (en_resetAt envelope) (Option.bind (en_error envelope) pe_resetAt)) = Some t \<and>
     now < t \<and> (\<forall>d. parse_opt deadline = Some d \<longrightarrow> t < d)"
  by (auto simp: quotaResetSchedule_def split: option.splits)

text \<open>
  Every wait the classification grants can end: it lands strictly after now and strictly
  before the node's own deadline. A quota wait ends at the instant the provider announced; a
  network wait is granted only to a transport failure with attempts left, and lasts between half
  a second and two minutes.
\<close>

theorem granted_wait_window:
  assumes "classifyTransition envelope deadline exitCode attempt now random = Reset at' r"
    and "0 \<le> random" and "random < 1"
  shows "\<exists>t. at' = Iso t \<and> now < t \<and> (\<forall>d. parse_opt deadline = Some d \<longrightarrow> t < d) \<and>
    (r = Quota_reset \<and> quotaResetSchedule envelope deadline now = Some t \<or>
     r = Network_backoff \<and> quotaResetSchedule envelope deadline now = None \<and>
       isNetworkFailure (en_error envelope) exitCode \<and> attempt < NETWORK_MAX_ATTEMPTS \<and>
       500 \<le> t - now \<and> t - now \<le> 120000)"
proof (cases "quotaResetSchedule envelope deadline now")
  case (Some t)
  moreover from this have "now < t \<and> (\<forall>d. parse_opt deadline = Some d \<longrightarrow> t < d)"
    by (simp add: quotaResetSchedule_Some)
  ultimately show ?thesis using assms(1) by (simp add: classifyTransition_def)
next
  case None
  with assms(1) show ?thesis
    using backoffDelayMs_bounds [OF assms(2,3), of attempt]
    by (auto simp: classifyTransition_def Let_def split: if_splits option.splits)
qed

definition sample_network_envelope :: envelope where
  "sample_network_envelope = sample_envelope Failed
     (Some \<lparr>pe_code = ''provider_error'', pe_message = ''Socket hang up'', pe_resetAt = None\<rparr>)"

theorem granted_wait_window_witness:
  "\<exists>t. classifyTransition sample_network_envelope (Some (Iso 600000)) None 1 0 0 =
        Reset (Iso t) Network_backoff \<and> 0 < t \<and> t < 600000"
proof -
  have run: "classifyTransition sample_network_envelope (Some (Iso 600000)) None 1 0 0 =
      Reset (Iso 1000) Network_backoff"
    by code_simp
  from granted_wait_window [OF this] run show ?thesis by auto
qed

section \<open>Recording a route\<close>

lemma bounded_history_short [simp]:
  "length xs \<le> MAX_ROUTING_HISTORY \<Longrightarrow> bounded_history xs = xs"
  by (simp add: bounded_history_def)

lemma starts_with_append [simp]: "starts_with (p @ s) p"
  by (simp add: starts_with_def)

text \<open>One wait of a phase: the transition planned and recorded in the node's routing.\<close>

record route_event =
  re_envelope :: envelope
  re_exitCode :: "int option"
  re_error :: snap_error
  re_now :: int
  re_random :: rat

definition record_route ::
  "contract \<Rightarrow> snapshot \<Rightarrow> role \<Rightarrow> string \<Rightarrow> failure_transition \<Rightarrow> route_event \<Rightarrow> snapshot" where
  "record_route contract state role current schedule e =
     state\<lparr>ns_routing := Some (fst (buildRouting state role (re_error e) current
        (planRoute contract state role (re_error e) current schedule (re_now e)
           (en_exhaustedUntil (re_envelope e)) None)
        schedule (en_usage (re_envelope e)) (en_costUsd (re_envelope e))
        (en_priced (re_envelope e)) Pending (re_now e)))\<rparr>"

text \<open>What recording a route leaves in the routing.\<close>

lemma record_route_frame [frame_simps]:
  "ro_assignments (routing_of (record_route contract state role current schedule e)) =
     ro_assignments (routing_of state)"
  "ro_availability (routing_of (record_route contract state role current schedule e)) =
     ro_availability (routing_of state)"
  "ro_tierExhaustionCycle (routing_of (record_route contract state role current schedule e)) =
     ro_tierExhaustionCycle (routing_of state)"
  "ns_revisions (record_route contract state role current schedule e) = ns_revisions state"
  "ns_invocations (record_route contract state role current schedule e) = ns_invocations state"
  by (simp_all add: record_route_def buildRouting_def Let_def)

lemma record_route_history:
  "\<exists>entry. ro_history (routing_of (record_route contract state role current schedule e)) =
      bounded_history (ro_history (routing_of state) @ [entry]) \<and>
    he_role entry = role \<and> he_runtime entry = current \<and>
    he_nextRuntime entry = Some (pl_nextRuntime (planRoute contract state role (re_error e) current
      schedule (re_now e) (en_exhaustedUntil (re_envelope e)) None)) \<and>
    he_revision entry = Some (ns_revisions state) \<and>
    he_errorCode entry = Some (routing_error_code schedule (re_error e))"
proof -
  let ?plan = "planRoute contract state role (re_error e) current schedule (re_now e)
    (en_exhaustedUntil (re_envelope e)) None"
  let ?entry = "route_entry role (re_error e) current ?plan schedule (en_usage (re_envelope e))
    (en_costUsd (re_envelope e)) (en_priced (re_envelope e)) Pending (re_now e)"
  have "ro_history (routing_of (record_route contract state role current schedule e)) =
      bounded_history (ro_history (routing_of state) @ [?entry])"
    by (simp add: record_route_def buildRouting_def Let_def)
  moreover have "pl_revision ?plan = ns_revisions state" by (simp add: planRoute_def Let_def)
  ultimately show ?thesis by (intro exI [of _ ?entry]) (simp add: route_entry_def)
qed

definition sample_event :: "int \<Rightarrow> route_event" where
  "sample_event now = \<lparr>re_envelope = sample_network_envelope, re_exitCode = Some 1,
     re_error = mk_error ''provider_error'' ''Socket hang up'', re_now = now, re_random = 0\<rparr>"

section \<open>How far failover can walk\<close>

text \<open>
  The next attempt starts on the runtime the route named. Its invocation is created with the
  revision of the node, then stamped with the identity of the run, the role, the continuation
  and the exhaustion generation (\<open>stampInvocation\<close> of \<open>src/engine/dispatch.mjs\<close>; the fields that
  only describe the runtime and the workspace are left out).
\<close>

definition fresh_invocation :: "string \<Rightarrow> role \<Rightarrow> string \<Rightarrow> nat \<Rightarrow> invocation" where
  "fresh_invocation i role runtimeId revision =
     \<lparr>in_id = i, in_phase = role, in_runtimeId = Some runtimeId, in_revision = Some revision,
      in_cycle = None, in_costUsd = None, in_usage = None, in_continuationId = None, in_runId = None,
      in_campaignId = None, in_role = None, in_promptPath = None, in_stdoutPath = None,
      in_stderrPath = None, in_snapshotPath = None, in_active = True, in_startedAt = None,
      in_closedAt = None\<rparr>"

definition stampInvocation ::
  "invocation \<Rightarrow> snapshot \<Rightarrow> string \<Rightarrow> string option \<Rightarrow> role \<Rightarrow> string option \<Rightarrow> invocation" where
  "stampInvocation invoc state runId campaignId role continuationId =
     invoc\<lparr>in_runId := Some runId, in_campaignId := campaignId, in_role := Some role,
         in_continuationId := continuationId,
         in_cycle := Some (nullish (ro_tierExhaustionCycle (routing_of state)) 0)\<rparr>"

definition start_attempt :: "snapshot \<Rightarrow> role \<Rightarrow> string \<Rightarrow> snapshot" where
  "start_attempt state role runtimeId =
     state\<lparr>ns_invocations := ns_invocations state @
       [stampInvocation (fresh_invocation [] role runtimeId (ns_revisions state)) state [] None role
          None]\<rparr>"

text \<open>
  One failed invocation that takes an edge: the route is planned, recorded and the next attempt
  started on it; \<open>None\<close> when the plan is blocked.
\<close>

definition failover_edge ::
  "contract \<Rightarrow> role \<Rightarrow> snapshot \<Rightarrow> string \<Rightarrow> transition_reason \<Rightarrow> route_event
    \<Rightarrow> (snapshot \<times> string) option" where
  "failover_edge contract role state current r e =
     (let plan = planRoute contract state role (re_error e) current (Edge r) (re_now e)
            (en_exhaustedUntil (re_envelope e)) None
      in if pl_blocked plan = None
         then Some (start_attempt (record_route contract state role current (Edge r) e) role
                      (pl_nextRuntime plan), pl_nextRuntime plan)
         else None)"

fun failover_run ::
  "contract \<Rightarrow> role \<Rightarrow> snapshot \<Rightarrow> string \<Rightarrow> (transition_reason \<times> route_event) list \<Rightarrow> string list" where
  "failover_run contract role state current [] = []"
| "failover_run contract role state current ((r, e) # es) =
     (case failover_edge contract role state current r e of
        None \<Rightarrow> []
      | Some (state', nxt) \<Rightarrow> nxt # failover_run contract role state' nxt es)"

definition fallbacks_declared :: "contract \<Rightarrow> bool" where
  "fallbacks_declared contract \<longleftrightarrow>
     (\<forall>e \<in> set (ct_runtimes contract). \<forall>f. rt_fallback (snd e) = Some f \<longrightarrow>
        f \<in> fst ` set (ct_runtimes contract))"

lemma map_filter_append: "List.map_filter f (xs @ ys) = List.map_filter f xs @ List.map_filter f ys"
  by (induction xs) (simp_all add: List.map_filter_simps split: option.splits)

lemma attempted_runtimes_start:
  "attempted_runtimes (start_attempt state role i) role = attempted_runtimes state role @ [i]"
  by (simp add: attempted_runtimes_def start_attempt_def stampInvocation_def fresh_invocation_def
      map_filter_append
      List.map_filter_simps)

lemma attempted_runtimes_record [simp]:
  "attempted_runtimes (record_route contract state role' current schedule e) role =
     attempted_runtimes state role"
  by (simp add: attempted_runtimes_def frame_simps)

lemma nextSameTierRuntime_target:
  assumes "nextSameTierRuntime contract ro role current attempted now = Some n"
  shows "n \<in> fst ` set (ct_runtimes contract) - set attempted"
  using assms
  by (auto simp: nextSameTierRuntime_def Let_def split: option.splits
      dest!: sort_key_head_in intro: rev_image_eqI)

lemma plan_fallback_target:
  assumes "plan_fallback contract state role current now None = Some n"
    and "fallbacks_declared contract"
  shows "n \<in> fst ` set (ct_runtimes contract) - set (attempted_runtimes state role)"
proof -
  from assms(1) have "nextSynthesizedRuntime contract current (attempted_runtimes state role) = Some n
      \<or> nextSameTierRuntime contract (route_routing state) role current
          (attempted_runtimes state role) now = Some n"
    by (auto simp: plan_fallback_def split: if_splits elim: orelse_SomeE)
  then show ?thesis
  proof
    assume "nextSynthesizedRuntime contract current (attempted_runtimes state role) = Some n"
    with assms(2) show ?thesis
      by (auto simp: nextSynthesizedRuntime_Some bind_eq_Some_conv fallbacks_declared_def
          dest!: map_of_SomeD)
  qed (rule nextSameTierRuntime_target)
qed

lemma failover_edge_Some:
  assumes "failover_edge contract role state current r e = Some (state', n)"
  shows "plan_fallback contract state role current (re_now e) None = Some n"
    and "plan_blocked contract state role (re_error e) current (Edge r) (re_now e) None = None"
    and "state' = start_attempt (record_route contract state role current (Edge r) e) role n"
  using assms
  by (auto simp: failover_edge_def Let_def planRoute_def plan_blocked_def split: if_splits)

lemma failover_run_fresh:
  assumes "fallbacks_declared contract"
  shows "distinct (failover_run contract role state current es) \<and>
    set (failover_run contract role state current es) \<subseteq>
      fst ` set (ct_runtimes contract) - set (attempted_runtimes state role)"
proof (induction es arbitrary: state current)
  case Nil
  then show ?case by simp
next
  case (Cons re es)
  obtain r e where re: "re = (r, e)" by (cases re)
  show ?case
  proof (cases "failover_edge contract role state current r e")
    case None
    with re show ?thesis by simp
  next
    case (Some p)
    then obtain state' n where edge: "failover_edge contract role state current r e = Some (state', n)"
      by (cases p) auto
    note target = plan_fallback_target [OF failover_edge_Some(1) [OF edge] assms]
    have "attempted_runtimes state' role = attempted_runtimes state role @ [n]"
      by (simp add: failover_edge_Some(3) [OF edge] attempted_runtimes_start)
    with Cons.IH [of state' n] target edge re show ?thesis by auto
  qed
qed

text \<open>
  C22. Failover terminates and never comes back: whatever fails, in whatever order and for
  whatever reason, the runtimes one phase hops to within a revision and an exhaustion generation
  are declared, pairwise distinct and none of them was attempted before, so there are at most as
  many hops as there are runtimes. The contract's fallbacks name declared runtimes, as the parser
  requires; the hops are those the runtimes and their tiers decide, a judge list takes its own
  (theory \<open>Judge_List\<close>).
\<close>

theorem failover_never_revisits:
  assumes "fallbacks_declared contract"
  shows "distinct (failover_run contract role state current es) \<and>
    set (failover_run contract role state current es) \<subseteq>
      fst ` set (ct_runtimes contract) - set (attempted_runtimes state role) \<and>
    length (failover_run contract role state current es) \<le> length (ct_runtimes contract)"
proof -
  let ?run = "failover_run contract role state current es"
  have fresh: "distinct ?run \<and> set ?run \<subseteq>
      fst ` set (ct_runtimes contract) - set (attempted_runtimes state role)"
    by (rule failover_run_fresh [OF assms])
  then have "set ?run \<subseteq> set (map fst (ct_runtimes contract))" by auto
  then have "card (set ?run) \<le> length (map fst (ct_runtimes contract))"
    by (meson List.finite_set card_length card_mono order_trans)
  with fresh show ?thesis by (simp add: distinct_card)
qed

theorem failover_never_revisits_witness:
  "distinct (failover_run (sample_contract False []) Worker (sample_snapshot ''a'' Running Ph_worker)
     ''glm'' [(Provider_reason, sample_event 1), (Provider_reason, sample_event 2)])"
proof -
  have "fallbacks_declared (sample_contract False [])"
    by (simp add: fallbacks_declared_def sample_defs)
  then show ?thesis by (blast dest: failover_never_revisits)
qed

lemma recorded_hop:
  "nextHop (routing_of (record_route contract state role current (Edge r) e)) role
     (ns_revisions state) Kind_failover = Suc (nextHop (routing_of state) role (ns_revisions state) Kind_failover)"
  by (simp add: record_route_def buildRouting_def Let_def route_override_def planRoute_def nextHop_def)

lemma hop_positive: "nextHop ro role revision Kind_failover \<ge> 1"
  by (simp add: nextHop_failover)

text \<open>
  A role whose runtime was declared rather than composed gets exactly the one hop its
  runtime names: a second failure takes no further edge, whatever it is.
\<close>

theorem declared_failover_is_one_hop:
  assumes "\<not> composedAssignment state role"
  shows "length (failover_run contract role state current es) \<le> 1 \<and>
    (\<forall>n. failover_run contract role state current es = [n] \<longrightarrow>
       Option.bind (runtime_of contract current) rt_fallback = Some n)"
proof (cases es)
  case Nil
  then show ?thesis by simp
next
  case (Cons re es')
  obtain r e where re: "re = (r, e)" by (cases re)
  show ?thesis
  proof (cases "failover_edge contract role state current r e")
    case None
    with Cons re show ?thesis by simp
  next
    case (Some p)
    then obtain state' n where edge: "failover_edge contract role state current r e = Some (state', n)"
      by (cases p) auto
    have static: "\<not> dynamicComposed contract s role i"
      if "ro_assignments (routing_of s) = ro_assignments (routing_of state)" for s i
      using assms that by (simp add: dynamicComposed_def composedAssignment_def)
    have state': "state' = start_attempt (record_route contract state role current (Edge r) e) role n"
      by (rule failover_edge_Some(3) [OF edge])
    have declared: "Option.bind (runtime_of contract current) rt_fallback = Some n"
      using failover_edge_Some(1) [OF edge] static [of state current]
      by (simp add: plan_fallback_def nextSynthesizedRuntime_Some)
    have "nextHop (routing_of state') role (ns_revisions state') Kind_failover > 1"
      using recorded_hop [of contract state role current r e]
        hop_positive [of "routing_of state" role "ns_revisions state"]
      by (simp add: state' start_attempt_def frame_simps)
    moreover have "\<not> dynamicComposed contract state' role n"
      by (rule static) (simp add: state' start_attempt_def frame_simps)
    ultimately have "failover_run contract role state' n es' = []"
      by (cases es') (auto simp: failover_edge_def Let_def planRoute_def plan_blocked_def)
    with Cons re edge declared show ?thesis by simp
  qed
qed

theorem declared_failover_is_one_hop_witness:
  "failover_run (sample_contract False []) Worker (sample_snapshot ''a'' Running Ph_worker) ''glm''
     [(Provider_reason, sample_event 1), (Provider_reason, sample_event 2)] = [''sonnet''] \<and>
   Option.bind (runtime_of (sample_contract False []) ''glm'') rt_fallback = Some ''sonnet''"
proof -
  have run: "failover_run (sample_contract False []) Worker
      (sample_snapshot ''a'' Running Ph_worker) ''glm''
      [(Provider_reason, sample_event 1), (Provider_reason, sample_event 2)] = [''sonnet'']"
    by code_simp
  have "\<not> composedAssignment (sample_snapshot ''a'' Running Ph_worker) Worker"
    by (simp add: composedAssignment_def sample_defs empty_routing_def)
  from declared_failover_is_one_hop [OF this, of "sample_contract False []" "''glm''"
      "[(Provider_reason, sample_event 1), (Provider_reason, sample_event 2)]"] run
  show ?thesis by simp
qed

end
