(* ===== verification/Run_Store.thy ===== *)
theory Run_Store
  imports Backoff
begin

text \<open>
  What a run keeps on disk, and the three writes every other module goes through: the ledger of
  operation intents and settlements (\<open>src/run/operations.mjs\<close>), the node snapshots and the event
  log (\<open>src/engine/state.mjs\<close>).

  A run directory is a value; a write returns the new one. The check that the controller still
  holds the run lock, made before each write, is the subject of theory Lock. The line printed
  when a node settles is left out, as is the schema check of an event. A persisted result is
  kept as its serialized text.
\<close>

section \<open>The run directory\<close>

record op_intent =
  oi_nodeId :: string
  oi_role :: "role option"
  oi_runId :: "string option"
  oi_campaignId :: "string option"

text \<open>The state a settlement leaves its node in; one caller records a status alone.\<close>

datatype next_state = Next_of status phase nat nat | Next_text string

record op_settlement =
  os_runId :: string
  os_campaignId :: "string option"
  os_nodeId :: "string option"
  os_role :: "role option"
  os_status :: string
  os_terminalOutcome :: string
  os_usage :: "usage option"
  os_costUsd :: "rat option"
  os_receipts :: "(string \<times> string) list"
  os_nextState :: "next_state option"
  os_structuredResult :: "bool option"
  os_result :: "string option"
  os_unknownEffect :: bool
  os_classification :: "string option"
  os_reason :: "string option"
  os_error :: "(string \<times> string) option"
  os_settledAt :: stamp

text \<open>Why a spawn is not admitted (\<open>src/engine/aux-admission.mjs\<close>).\<close>

datatype refusal_reason =
    Run_full nat int
  | Runtime_quota_hold string
  | Runtime_full string "nat option"

text \<open>What one event says beyond the node's own fields, by the caller that writes it.\<close>

datatype details =
    Det_none
  | Det_route role status string string override
  | Det_auto_retry string role
  | Det_recovery string
  | Det_override exec_override
  | Det_advisory verdict_kind string
  | Det_aux_refusal role refusal_reason
  | Det_unexpected "string list" "nat option"
  | Det_scope_finding "string list" "nat option"

record event =
  ev_at :: "stamp option"
  ev_node :: string
  ev_packetHash :: "string option"
  ev_from :: status
  ev_to :: status
  ev_phase :: phase
  ev_details :: details
  ev_attempt :: "nat option"
  ev_runtime :: "string option"
  ev_error :: "string option"
  ev_verdict :: "verdict_kind option"
  ev_summary :: "string option"
  ev_revisions :: "nat option"
  ev_requirementIds :: "string list option"
  ev_invocationId :: "string option"

record run_dir =
  rd_basename :: string
  rd_intents :: "(string \<times> op_intent) list"
  rd_settlements :: "(string \<times> op_settlement) list"
  rd_nodes :: "(string \<times> snapshot) list"
  rd_events :: "event list"
  rd_autoRetries :: "(string \<times> string \<times> stamp) list"
  rd_results :: "(string \<times> string) list"

section \<open>The ledger of operations\<close>

definition UNRESOLVED_OPERATION_STATUSES :: "string list" where
  "UNRESOLVED_OPERATION_STATUSES = [''closed'', ''unknown_effect'']"

definition RESOLVED_OPERATION_STATUSES :: "string list" where
  "RESOLVED_OPERATION_STATUSES =
     [''done'', ''failed'', ''exhausted'', ''stalled'', ''canceled'', ''adopted'', ''rejudge'',
      ''restarted'', ''safe_replay'', ''reconciled'']"

definition persistInvocationIntent :: "run_dir \<Rightarrow> invocation \<Rightarrow> string \<Rightarrow> role \<Rightarrow> run_dir" where
  "persistInvocationIntent rd invoc nodeId role =
     rd\<lparr>rd_intents := AList.update (in_id invoc)
          \<lparr>oi_nodeId = nodeId, oi_role = Some role,
           oi_runId = Some (nullish (in_runId invoc) (rd_basename rd)),
           oi_campaignId = in_campaignId invoc\<rparr> (rd_intents rd)\<rparr>"

abbreviation readOperationSettlement :: "run_dir \<Rightarrow> string \<Rightarrow> op_settlement option" where
  "readOperationSettlement rd i \<equiv> map_of (rd_settlements rd) i"

abbreviation readOperationIntent :: "run_dir \<Rightarrow> string \<Rightarrow> op_intent option" where
  "readOperationIntent rd i \<equiv> map_of (rd_intents rd) i"

definition hasOperationIntent :: "run_dir \<Rightarrow> string \<Rightarrow> bool" where
  "hasOperationIntent rd i = (readOperationIntent rd i \<noteq> None)"

definition hasOperationSettlement :: "run_dir \<Rightarrow> string \<Rightarrow> bool" where
  "hasOperationSettlement rd i = (readOperationSettlement rd i \<noteq> None)"

definition operationNeedsRecovery :: "run_dir \<Rightarrow> string \<Rightarrow> bool" where
  "operationNeedsRecovery rd i =
     (case readOperationSettlement rd i of
        None \<Rightarrow> True
      | Some s \<Rightarrow> os_status s \<in> set UNRESOLVED_OPERATION_STATUSES)"

text \<open>One receipt added: an empty reference and a pair already listed are dropped.\<close>

definition add_receipt :: "string \<times> string option \<Rightarrow> (string \<times> string) list \<Rightarrow> (string \<times> string) list" where
  "add_receipt r receipts =
     (case snd r of
        None \<Rightarrow> receipts
      | Some ref \<Rightarrow>
          if ref = [] \<or> (fst r, ref) \<in> set receipts then receipts
          else receipts @ [(fst r, ref)])"

definition own_receipts :: "invocation option \<Rightarrow> (string \<times> string option) list" where
  "own_receipts invocation =
     (case invocation of
        None \<Rightarrow> []
      | Some i \<Rightarrow>
          [(''prompt'', in_promptPath i), (''stdout'', in_stdoutPath i),
           (''stderr'', in_stderrPath i)] @
          (if in_phase i = Worker then [(''scope_snapshot'', in_snapshotPath i)] else []) @
          [(''provider'', in_continuationId i)])"

definition listed :: "(string \<times> string) list \<Rightarrow> (string \<times> string option) list" where
  "listed rs = map (\<lambda>r. (fst r, Some (snd r))) rs"

definition operationReceipts ::
  "invocation option \<Rightarrow> (string \<times> string) list \<Rightarrow> (string \<times> string) list \<Rightarrow> (string \<times> string) list" where
  "operationReceipts invocation supplied existing =
     fold add_receipt (listed existing @ listed supplied @ own_receipts invocation) []"

definition providerReceipts :: "envelope \<Rightarrow> (string \<times> string) list" where
  "providerReceipts envelope =
     (case en_continuationId envelope of
        None \<Rightarrow> []
      | Some ref \<Rightarrow> if ref = [] then [] else [(''provider'', ref)])"

definition boundedSettlementResult :: "string option \<Rightarrow> string option" where
  "boundedSettlementResult value =
     (case value of
        None \<Rightarrow> None
      | Some text \<Rightarrow> if length text > 64 * 1024 then None else Some text)"

definition operationNextState :: "snapshot \<Rightarrow> next_state" where
  "operationNextState state =
     Next_of (ns_status state) (ns_phase state) (ns_attempt state) (ns_revisions state)"

text \<open>A property of a settlement request that may be absent, \<open>null\<close> or a value.\<close>

datatype 'a patch = Keep | Put "'a option"

fun patched :: "'a patch \<Rightarrow> 'a option \<Rightarrow> 'a option" where
  "patched Keep old = old"
| "patched (Put v) old = v"

record settle_request =
  sr_status :: "string option"
  sr_terminalOutcome :: "string option"
  sr_usage :: "usage patch"
  sr_costUsd :: "rat patch"
  sr_structuredResult :: "bool patch"
  sr_result :: "string patch"
  sr_receipts :: "(string \<times> string) list"
  sr_nextState :: "next_state patch"
  sr_unknownEffect :: "bool option"
  sr_classification :: "string option"
  sr_reason :: "string option"
  sr_error :: "(string \<times> string) option"

definition empty_request :: settle_request where
  "empty_request = \<lparr>sr_status = None, sr_terminalOutcome = None, sr_usage = Keep,
     sr_costUsd = Keep, sr_structuredResult = Keep, sr_result = Keep, sr_receipts = [],
     sr_nextState = Keep, sr_unknownEffect = None, sr_classification = None, sr_reason = None,
     sr_error = None\<rparr>"

definition settled_status :: "op_settlement option \<Rightarrow> settle_request \<Rightarrow> string" where
  "settled_status previous settlement =
     (let previousStatus = (case previous of None \<Rightarrow> [] | Some p \<Rightarrow> os_status p);
          requestedStatus = nullish (sr_status settlement)
            (case previous of None \<Rightarrow> ''unknown_effect'' | Some p \<Rightarrow> os_status p)
      in if previousStatus \<in> set RESOLVED_OPERATION_STATUSES \<and>
            requestedStatus \<in> {''adopted'', ''rejudge'', ''restarted''}
         then previousStatus else requestedStatus)"

definition settlement_record ::
  "string \<Rightarrow> invocation option \<Rightarrow> op_intent option \<Rightarrow> op_settlement option \<Rightarrow> settle_request \<Rightarrow> int
    \<Rightarrow> op_settlement" where
  "settlement_record runBasename invocation intent previous settlement now =
     (let status = settled_status previous settlement
      in \<lparr>os_runId = nullish (orelse (Option.bind invocation in_runId) (Option.bind intent oi_runId))
            runBasename,
          os_campaignId = orelse (Option.bind invocation in_campaignId)
            (Option.bind intent oi_campaignId),
          os_nodeId = map_option oi_nodeId intent,
          os_role = orelse (Option.bind invocation in_role) (Option.bind intent oi_role),
          os_status = status,
          os_terminalOutcome = nullish
            (orelse (sr_terminalOutcome settlement) (map_option os_terminalOutcome previous)) status,
          os_usage = patched (sr_usage settlement) (Option.bind previous os_usage),
          os_costUsd = patched (sr_costUsd settlement) (Option.bind previous os_costUsd),
          os_receipts = operationReceipts invocation (sr_receipts settlement)
            (case previous of None \<Rightarrow> [] | Some p \<Rightarrow> os_receipts p),
          os_nextState = patched (sr_nextState settlement) (Option.bind previous os_nextState),
          os_structuredResult = patched (sr_structuredResult settlement)
            (Option.bind previous os_structuredResult),
          os_result = (case sr_result settlement of
              Keep \<Rightarrow> Option.bind previous os_result
            | Put v \<Rightarrow> boundedSettlementResult v),
          os_unknownEffect = nullish
            (orelse (sr_unknownEffect settlement) (map_option os_unknownEffect previous))
            (status = ''unknown_effect''),
          os_classification = orelse (sr_classification settlement)
            (Option.bind previous os_classification),
          os_reason = orelse (sr_reason settlement) (Option.bind previous os_reason),
          os_error = orelse (sr_error settlement) (Option.bind previous os_error),
          os_settledAt = (case previous of None \<Rightarrow> Iso now | Some p \<Rightarrow> os_settledAt p)\<rparr>)"

text \<open>
  The invocation is named by its record or by its id alone; \<open>None\<close> is the error raised for an
  empty identity.
\<close>

definition settleInvocation ::
  "run_dir \<Rightarrow> invocation option \<Rightarrow> string \<Rightarrow> settle_request \<Rightarrow> int \<Rightarrow> run_dir option" where
  "settleInvocation rd invocation i settlement now =
     (let invocationId = (case invocation of None \<Rightarrow> i | Some v \<Rightarrow> in_id v)
      in if invocationId = [] then None
         else Some (rd\<lparr>rd_settlements := AList.update invocationId
                (settlement_record (rd_basename rd) invocation (readOperationIntent rd invocationId)
                  (readOperationSettlement rd invocationId) settlement now)
                (rd_settlements rd)\<rparr>))"

section \<open>Node snapshots and events\<close>

definition writeNode :: "run_dir \<Rightarrow> snapshot \<Rightarrow> run_dir" where
  "writeNode rd state = rd\<lparr>rd_nodes := AList.update (ns_id state) state (rd_nodes rd)\<rparr>"

definition nonzero :: "nat \<Rightarrow> nat option" where
  "nonzero n = (if n = 0 then None else Some n)"

definition nonempty :: "'a list \<Rightarrow> 'a list option" where
  "nonempty xs = (if xs = [] then None else Some xs)"

definition event_of :: "snapshot \<Rightarrow> status \<Rightarrow> status \<Rightarrow> details \<Rightarrow> event" where
  "event_of state from' to' details =
     \<lparr>ev_at = ns_updatedAt state, ev_node = ns_id state, ev_packetHash = ns_packetHash state,
      ev_from = from', ev_to = to', ev_phase = ns_phase state, ev_details = details,
      ev_attempt = nonzero (ns_attempt state),
      ev_runtime = Option.bind (ns_runtime state) nonempty,
      ev_error = Option.bind (ns_error state) (\<lambda>e. nonempty (er_code e)),
      ev_verdict = map_option gr_verdict (ns_gate state),
      ev_summary = Option.bind (ns_gate state) (\<lambda>g. nonempty (gr_summary g)),
      ev_revisions = nonzero (ns_revisions state),
      ev_requirementIds = nonempty (ns_requirementIds state),
      ev_invocationId = Option.bind (last_opt (ns_invocations state)) (\<lambda>i. nonempty (in_id i))\<rparr>"

definition appendTransitionEvent ::
  "run_dir \<Rightarrow> snapshot \<Rightarrow> status \<Rightarrow> status \<Rightarrow> details \<Rightarrow> run_dir" where
  "appendTransitionEvent rd state from' to' details =
     rd\<lparr>rd_events := rd_events rd @ [event_of state from' to' details]\<rparr>"

text \<open>
  \<open>transition\<close> in its two halves: the snapshot is written, then the open settlement and the
  event are. A crash, or the interrupt the code honours after the state write, falls between
  them. The patch is a function on the snapshot, as \<open>Object.assign\<close> applies it.
\<close>

definition transition_write ::
  "run_dir \<Rightarrow> snapshot \<Rightarrow> status \<Rightarrow> (snapshot \<Rightarrow> snapshot) \<Rightarrow> int \<Rightarrow> run_dir \<times> snapshot" where
  "transition_write rd state status patch now =
     (let state' = (patch state)\<lparr>ns_status := status, ns_updatedAt := Some (Iso now)\<rparr>
      in (writeNode rd state', state'))"

definition settle_open :: "run_dir \<Rightarrow> snapshot \<Rightarrow> int \<Rightarrow> run_dir" where
  "settle_open rd state now =
     (case last_opt (ns_invocations state) of
        None \<Rightarrow> rd
      | Some i \<Rightarrow>
          if hasOperationSettlement rd (in_id i)
          then nullish (settleInvocation rd (Some i) (in_id i)
                 (empty_request\<lparr>sr_nextState := Put (Some (operationNextState state))\<rparr>) now) rd
          else rd)"

definition transition_record :: "run_dir \<Rightarrow> snapshot \<Rightarrow> status \<Rightarrow> int \<Rightarrow> run_dir" where
  "transition_record rd state from' now =
     appendTransitionEvent (settle_open rd state now) state from' (ns_status state) Det_none"

definition transition ::
  "run_dir \<Rightarrow> snapshot \<Rightarrow> status \<Rightarrow> (snapshot \<Rightarrow> snapshot) \<Rightarrow> int \<Rightarrow> run_dir \<times> snapshot" where
  "transition rd state status patch now =
     (let (rd', state') = transition_write rd state status patch now
      in (transition_record rd' state' (ns_status state) now, state'))"

definition hasDoneEvent :: "run_dir \<Rightarrow> string \<Rightarrow> nat \<Rightarrow> bool" where
  "hasDoneEvent rd nodeId attempt =
     list_ex (\<lambda>e. ev_node e = nodeId \<and> ev_to e = Done \<and> ev_attempt e = Some attempt) (rd_events rd)"

definition ensureTerminalEvent :: "run_dir \<Rightarrow> snapshot \<Rightarrow> run_dir" where
  "ensureTerminalEvent rd state =
     (if hasDoneEvent rd (ns_id state) (ns_attempt state) then rd
      else appendTransitionEvent rd state Done Done
             (Det_recovery ''terminal side effects replayed''))"

definition recordExecutionOverride ::
  "run_dir \<Rightarrow> snapshot \<Rightarrow> exec_override \<Rightarrow> run_dir \<times> snapshot" where
  "recordExecutionOverride rd state override =
     (let state' = state\<lparr>ns_executionOverrides := ns_executionOverrides state @ [override]\<rparr>
      in (appendTransitionEvent (writeNode rd state') state' (ns_status state') (ns_status state')
            (Det_override override), state'))"

section \<open>What a settlement keeps\<close>

lemma add_receipt_set:
  "set (add_receipt r acc) = set acc \<union> {p. r = (fst p, Some (snd p)) \<and> snd p \<noteq> []}"
  by (cases r) (auto simp: add_receipt_def split: option.splits)

lemma fold_add_receipt_distinct: "distinct acc \<Longrightarrow> distinct (fold add_receipt rs acc)"
proof (induction rs arbitrary: acc)
  case (Cons r rs)
  then have "distinct (add_receipt r acc)"
    by (cases r) (auto simp: add_receipt_def split: option.splits)
  with Cons.IH show ?case by simp
qed simp

lemma fold_add_receipt_set:
  "set (fold add_receipt rs acc) =
     set acc \<union> {p. (fst p, Some (snd p)) \<in> set rs \<and> snd p \<noteq> []}"
proof (induction rs arbitrary: acc)
  case (Cons r rs)
  show ?case unfolding fold_simps Cons.IH add_receipt_set by auto
qed simp

text \<open>A receipt list the ledger itself wrote: no duplicates and no empty reference.\<close>

definition receipts_ok :: "(string \<times> string) list \<Rightarrow> bool" where
  "receipts_ok rs \<longleftrightarrow> distinct rs \<and> (\<forall>r \<in> set rs. snd r \<noteq> [])"

lemma listed_set [simp]: "(fst p, Some (snd p)) \<in> set (listed rs) \<longleftrightarrow> p \<in> set rs"
  by (cases p) (force simp: listed_def)

lemma operationReceipts_set:
  "set (operationReceipts invocation supplied existing) =
     {p. snd p \<noteq> [] \<and> (p \<in> set existing \<or> p \<in> set supplied \<or>
           (fst p, Some (snd p)) \<in> set (own_receipts invocation))}"
  unfolding operationReceipts_def fold_add_receipt_set set_append Un_iff listed_set by auto

lemma operationReceipts_ok: "receipts_ok (operationReceipts invocation supplied existing)"
proof -
  have "distinct (operationReceipts invocation supplied existing)"
    unfolding operationReceipts_def by (rule fold_add_receipt_distinct) simp
  then show ?thesis by (simp add: receipts_ok_def operationReceipts_set)
qed

lemma operationReceipts_keeps:
  "receipts_ok existing \<Longrightarrow> set existing \<subseteq> set (operationReceipts invocation supplied existing)"
  by (auto simp: operationReceipts_set receipts_ok_def)

lemma fold_add_receipt_known:
  assumes "\<And>p. (fst p, Some (snd p)) \<in> set rs \<Longrightarrow> snd p \<noteq> [] \<Longrightarrow> p \<in> set acc"
  shows "fold add_receipt rs acc = acc"
  using assms
proof (induction rs)
  case (Cons r rs)
  have "add_receipt r acc = acc"
    using Cons.prems [of "(fst r, the (snd r))"]
    by (cases r) (auto simp: add_receipt_def split: option.splits)
  with Cons show ?case by simp
qed simp

lemma fold_add_receipt_fresh:
  assumes "receipts_ok (acc @ rs)"
  shows "fold add_receipt (listed rs) acc = acc @ rs"
  using assms
proof (induction rs arbitrary: acc)
  case (Cons r rs)
  then have "add_receipt (fst r, Some (snd r)) acc = acc @ [r]"
    by (auto simp: add_receipt_def receipts_ok_def)
  with Cons show ?case by (simp add: listed_def)
qed (simp add: listed_def)

lemma operationReceipts_again:
  "operationReceipts invocation supplied (operationReceipts invocation supplied existing) =
     operationReceipts invocation supplied existing" (is "_ = ?rs")
proof -
  have "operationReceipts invocation supplied ?rs =
      fold add_receipt (listed supplied @ own_receipts invocation) (fold add_receipt (listed ?rs) [])"
    unfolding operationReceipts_def [of invocation supplied ?rs] by simp
  also have "fold add_receipt (listed ?rs) [] = ?rs"
    using fold_add_receipt_fresh [of "[]" ?rs] operationReceipts_ok by simp
  also have "fold add_receipt (listed supplied @ own_receipts invocation) ?rs = ?rs"
    by (rule fold_add_receipt_known) (simp add: operationReceipts_set)
  finally show ?thesis .
qed

lemma patched_again [simp]: "patched p (patched p x) = patched p x"
  by (cases p) simp_all

lemma orelse_again [simp]: "orelse x (orelse x y) = orelse x y"
  by (cases x) simp_all

lemma settled_status_again:
  assumes "os_status new = settled_status previous request"
  shows "settled_status (Some new) request = settled_status previous request"
  using assms by (cases "sr_status request") (auto simp: settled_status_def Let_def)

lemma settlement_record_again:
  "settlement_record runBasename invocation intent
     (Some (settlement_record runBasename invocation intent previous request now)) request later =
   settlement_record runBasename invocation intent previous request now" (is "?again = ?rec")
proof -
  have status: "settled_status (Some ?rec) request = settled_status previous request"
    by (rule settled_status_again) (simp add: settlement_record_def Let_def)
  have receipts: "os_receipts ?rec = operationReceipts invocation (sr_receipts request)
      (case previous of None \<Rightarrow> [] | Some p \<Rightarrow> os_receipts p)"
    by (simp add: settlement_record_def Let_def)
  have sticky: "nullish (orelse a (Some (nullish (orelse a b) c))) c = nullish (orelse a b) c"
    for a b and c :: 'z
    by (cases a) simp_all
  show ?thesis
    unfolding settlement_record_def [of runBasename invocation intent "Some ?rec"] Let_def status
    by (simp add: receipts operationReceipts_again)
      (simp add: settlement_record_def Let_def sticky split: patch.splits)
qed

text \<open>
  A settlement is merged, not replaced: settling an invocation again with the same request
  changes nothing, whenever it happens; the first settlement's instant and every receipt it
  recorded survive any later request; and a resolved status survives a later \<open>adopted\<close>,
  \<open>rejudge\<close> or \<open>restarted\<close>.
\<close>

theorem settlement_idempotent_merge:
  assumes "settleInvocation rd invocation i request now = Some rd'"
    and "\<forall>e \<in> set (rd_settlements rd). receipts_ok (os_receipts (snd e))"
  shows "settleInvocation rd' invocation i request later = Some rd' \<and>
    (\<forall>old. readOperationSettlement rd (case invocation of None \<Rightarrow> i | Some v \<Rightarrow> in_id v) = Some old \<longrightarrow>
      (\<exists>new. readOperationSettlement rd' (case invocation of None \<Rightarrow> i | Some v \<Rightarrow> in_id v) = Some new \<and>
         os_settledAt new = os_settledAt old \<and> set (os_receipts old) \<subseteq> set (os_receipts new) \<and>
         (os_status old \<in> set RESOLVED_OPERATION_STATUSES \<and>
            sr_status request \<in> {Some ''adopted'', Some ''rejudge'', Some ''restarted''} \<longrightarrow>
            os_status new = os_status old)))"
proof -
  let ?k = "case invocation of None \<Rightarrow> i | Some v \<Rightarrow> in_id v"
  let ?rec = "\<lambda>previous now. settlement_record (rd_basename rd) invocation
      (readOperationIntent rd ?k) previous request now"
  have k: "?k \<noteq> []" and rd': "rd' = rd\<lparr>rd_settlements := AList.update ?k
      (?rec (readOperationSettlement rd ?k) now) (rd_settlements rd)\<rparr>"
    using assms(1) by (auto simp: settleInvocation_def Let_def split: if_splits)
  have "settleInvocation rd' invocation i request later = Some rd'"
    using k by (simp add: settleInvocation_def Let_def rd' update_conv' settlement_record_again
        update_triv)
  moreover have "\<exists>new. readOperationSettlement rd' ?k = Some new \<and>
         os_settledAt new = os_settledAt old \<and> set (os_receipts old) \<subseteq> set (os_receipts new) \<and>
         (os_status old \<in> set RESOLVED_OPERATION_STATUSES \<and>
            sr_status request \<in> {Some ''adopted'', Some ''rejudge'', Some ''restarted''} \<longrightarrow>
            os_status new = os_status old)"
    if old: "readOperationSettlement rd ?k = Some old" for old
  proof -
    have "receipts_ok (os_receipts old)" using assms(2) map_of_SomeD [OF old] by fastforce
    then show ?thesis
      using operationReceipts_keeps [of "os_receipts old" invocation "sr_receipts request"]
      by (auto simp: rd' update_conv' old settlement_record_def Let_def settled_status_def)
  qed
  ultimately show ?thesis by blast
qed

definition sample_run_dir :: "run_dir" where
  "sample_run_dir = \<lparr>rd_basename = ''run-1'', rd_intents = [], rd_settlements = [], rd_nodes = [],
     rd_events = [], rd_autoRetries = [], rd_results = []\<rparr>"

definition sample_request :: "string \<Rightarrow> (string \<times> string) option \<Rightarrow> settle_request" where
  "sample_request status err =
     empty_request\<lparr>sr_status := Some status, sr_error := err, sr_receipts := [(''provider'', ''t'')]\<rparr>"

definition sample_settled :: run_dir where
  "sample_settled = the (settleInvocation sample_run_dir None ''i1''
     (sample_request ''failed'' (Some (''spawn_error'', ''no binary''))) 5)"

theorem settlement_idempotent_merge_witness:
  "\<exists>rd. settleInvocation sample_settled None ''i1'' (sample_request ''adopted'' None) 9 = Some rd \<and>
     settleInvocation rd None ''i1'' (sample_request ''adopted'' None) 12 = Some rd \<and>
     map_option os_status (readOperationSettlement rd ''i1'') = Some ''failed'' \<and>
     map_option os_settledAt (readOperationSettlement rd ''i1'') = Some (Iso 5)"
proof -
  obtain rd where run: "settleInvocation sample_settled None ''i1'' (sample_request ''adopted'' None) 9
      = Some rd"
    by (simp add: settleInvocation_def Let_def)
  have "map_option (\<lambda>s. (os_status s, os_settledAt s)) (readOperationSettlement sample_settled ''i1'') =
      Some (''failed'', Iso 5)"
    by code_simp
  then have old: "\<exists>old. readOperationSettlement sample_settled ''i1'' = Some old \<and>
      os_status old = ''failed'' \<and> os_settledAt old = Iso 5"
    by auto
  have ok: "\<forall>e \<in> set (rd_settlements sample_settled). receipts_ok (os_receipts (snd e))"
    by code_simp
  from settlement_idempotent_merge [OF run ok, of 12] old run show ?thesis
    by (auto simp: sample_request_def RESOLVED_OPERATION_STATUSES_def)
qed

text \<open>
  Outside that rule the last request wins the status, and only the status: a resolved
  outcome is replaced by a later \<open>closed\<close> or \<open>unknown_effect\<close>, and a settlement that reports
  success with no error keeps the error and the terminal outcome an earlier one recorded.
\<close>

theorem settlement_keeps_first_outcome:
  assumes "readOperationSettlement rd i = Some old" and "i \<noteq> []"
    and "sr_status request = Some st" and "st \<notin> {''adopted'', ''rejudge'', ''restarted''}"
    and "sr_error request = None" and "sr_terminalOutcome request = None"
  shows "\<exists>rd' new. settleInvocation rd None i request now = Some rd' \<and>
    readOperationSettlement rd' i = Some new \<and> os_status new = st \<and>
    os_error new = os_error old \<and> os_terminalOutcome new = os_terminalOutcome old"
  using assms
  by (simp add: settleInvocation_def Let_def update_conv' settlement_record_def settled_status_def)

theorem settlement_keeps_first_outcome_witness:
  "\<exists>rd new. settleInvocation sample_settled None ''i1'' (sample_request ''done'' None) 9 = Some rd \<and>
     readOperationSettlement rd ''i1'' = Some new \<and> os_status new = ''done'' \<and>
     os_error new = Some (''spawn_error'', ''no binary'') \<and> os_terminalOutcome new = ''failed''"
proof -
  have "map_option (\<lambda>s. (os_error s, os_terminalOutcome s))
      (readOperationSettlement sample_settled ''i1'') =
      Some (Some (''spawn_error'', ''no binary''), ''failed'')"
    by code_simp
  then show ?thesis
    using settlement_keeps_first_outcome [of sample_settled "''i1''" _ "sample_request ''done'' None"
        "''done''" 9]
    by (fastforce simp: sample_request_def empty_request_def)
qed

section \<open>A node accepted once\<close>

text \<open>
  The acceptance of a sealed attempt writes the node \<open>done\<close> and its event; a resumed controller
  replays it (\<open>onAccepted\<close> of \<open>src/engine/settle.mjs\<close> and of \<open>src/engine/resume.mjs\<close>). The removal of
  the worktree itself is left out.
\<close>

record integration_tx =
  tx_attempt :: nat
  tx_candidateSha :: "string option"
  tx_attemptSha :: string
  tx_previousRunRefTip :: string

definition empty_worktree :: worktree where
  "empty_worktree = \<lparr>wt_status = Wt_unassigned, wt_path = None, wt_branch = None, wt_commit = None,
     wt_baseSha = None, wt_sealedSha = None\<rparr>"

definition accepted_patch :: "integration_tx \<Rightarrow> snapshot \<Rightarrow> snapshot" where
  "accepted_patch tx state =
     state\<lparr>ns_integratedHead := tx_candidateSha tx,
           ns_worktree := Some ((nullish (ns_worktree state) empty_worktree)
             \<lparr>wt_status := Wt_removed, wt_commit := Some (tx_attemptSha tx),
              wt_baseSha := Some (tx_previousRunRefTip tx)\<rparr>)\<rparr>"

definition onAccepted ::
  "run_dir \<Rightarrow> node \<Rightarrow> snapshot \<Rightarrow> (snapshot \<Rightarrow> snapshot) \<Rightarrow> integration_tx \<Rightarrow> int \<Rightarrow> run_dir \<times> snapshot" where
  "onAccepted rd node state patch tx now =
     (let (rd', state') =
            (if ns_attempt state = tx_attempt tx \<and> ns_status state \<noteq> Done
             then transition rd state Done
                    (\<lambda>s. accepted_patch tx ((if nd_requirementIds node = [] then id
                       else (\<lambda>s. s\<lparr>ns_requirementIds := nd_requirementIds node\<rparr>)) (patch s))) now
             else (rd, state))
      in if ns_attempt state' = tx_attempt tx then (ensureTerminalEvent rd' state', state')
         else (rd', state'))"

definition replayAccepted ::
  "run_dir \<Rightarrow> snapshot \<Rightarrow> integration_tx \<Rightarrow> int \<Rightarrow> run_dir \<times> snapshot" where
  "replayAccepted rd state tx now =
     (if ns_attempt state = tx_attempt tx \<and> hasDoneEvent rd (ns_id state) (ns_attempt state)
      then (rd, state)
      else (let (rd', state') =
              (if ns_attempt state = tx_attempt tx \<and> ns_status state \<noteq> Done
               then transition rd state Done
                      (\<lambda>s. accepted_patch tx (s\<lparr>ns_phase := Ph_complete\<rparr>)) now
               else (rd, state))
            in if ns_attempt state' = tx_attempt tx \<and> ns_status state' = Done
               then (ensureTerminalEvent rd' state', state') else (rd', state')))"

definition done_events :: "run_dir \<Rightarrow> string \<Rightarrow> nat \<Rightarrow> event list" where
  "done_events rd i attempt =
     filter (\<lambda>e. ev_node e = i \<and> ev_to e = Done \<and> ev_attempt e = Some attempt) (rd_events rd)"

lemma hasDoneEvent_iff: "hasDoneEvent rd i attempt \<longleftrightarrow> done_events rd i attempt \<noteq> []"
  by (induction "rd_events rd") (auto simp: hasDoneEvent_def done_events_def list_ex_iff filter_empty_conv)

lemma done_events_append [simp]:
  "ns_attempt s > 0 \<Longrightarrow> ns_id s = i \<Longrightarrow> ns_attempt s = n \<Longrightarrow>
     done_events (appendTransitionEvent rd s from' Done d) i n =
       done_events rd i n @ [event_of s from' Done d]"
  by (simp add: done_events_def appendTransitionEvent_def event_of_def nonzero_def)

lemma settle_frame [frame_simps]:
  "settleInvocation rd invocation i request now = Some rd' \<Longrightarrow>
     rd_events rd' = rd_events rd \<and> rd_nodes rd' = rd_nodes rd \<and> rd_autoRetries rd' = rd_autoRetries rd"
  by (auto simp: settleInvocation_def Let_def split: if_splits)

lemma settle_open_frame [frame_simps]:
  "rd_events (settle_open rd s now) = rd_events rd" "rd_nodes (settle_open rd s now) = rd_nodes rd"
  by (auto simp: settle_open_def nullish_def split: option.splits dest!: settle_frame)

lemma transition_record_events:
  "rd_events (transition_record rd s from' now) = rd_events rd @ [event_of s from' (ns_status s) Det_none]"
  "rd_nodes (transition_record rd s from' now) = rd_nodes rd"
  by (simp_all add: transition_record_def appendTransitionEvent_def settle_open_frame)

lemma transition_frame [frame_simps]:
  "rd_events (fst (transition rd s st patch now)) =
     rd_events rd @ [event_of (snd (transition rd s st patch now)) (ns_status s) st Det_none]"
  "rd_nodes (fst (transition rd s st patch now)) =
     AList.update (ns_id (patch s)) (snd (transition rd s st patch now)) (rd_nodes rd)"
  "snd (transition rd s st patch now) = (patch s)\<lparr>ns_status := st, ns_updatedAt := Some (Iso now)\<rparr>"
  by (simp_all add: transition_def transition_write_def transition_record_events Let_def writeNode_def)

lemma accepted_patch_frame [frame_simps]:
  "ns_id (accepted_patch tx s) = ns_id s"
  "ns_attempt (accepted_patch tx s) = ns_attempt s"
  "ns_status (accepted_patch tx s) = ns_status s"
  by (simp_all add: accepted_patch_def)

text \<open>
  The states an acceptance can leave on disk when the controller dies: before the first write,
  after the snapshot's write, after the write of the open settlement that follows it and before the
  event's, and after the event.
\<close>

definition accept_crashes ::
  "run_dir \<Rightarrow> node \<Rightarrow> snapshot \<Rightarrow> (snapshot \<Rightarrow> snapshot) \<Rightarrow> integration_tx \<Rightarrow> int
    \<Rightarrow> (run_dir \<times> snapshot) list" where
  "accept_crashes rd node state patch tx now =
     (let written = transition_write rd state Done
            (\<lambda>s. accepted_patch tx ((if nd_requirementIds node = [] then id
               else (\<lambda>s. s\<lparr>ns_requirementIds := nd_requirementIds node\<rparr>)) (patch s))) now
      in [(rd, state), written,
          (settle_open (fst written) (snd written) now, snd written),
          onAccepted rd node state patch tx now])"

lemma replayAccepted_once:
  assumes "ns_attempt s = tx_attempt tx" and "0 < ns_attempt s" and "ns_id s = i"
    and "ns_status s = Done \<or> done_events rd i (tx_attempt tx) = []"
    and "length (done_events rd i (tx_attempt tx)) \<le> 1"
  shows "ns_status (snd (replayAccepted rd s tx now)) = Done \<and>
    ns_id (snd (replayAccepted rd s tx now)) = i \<and>
    ns_attempt (snd (replayAccepted rd s tx now)) = tx_attempt tx \<and>
    length (done_events (fst (replayAccepted rd s tx now)) i (tx_attempt tx)) = 1"
proof (cases "done_events rd i (tx_attempt tx) = []")
  case False
  with assms show ?thesis
    by (cases "done_events rd i (tx_attempt tx)") (auto simp: replayAccepted_def hasDoneEvent_iff)
next
  case none: True
  show ?thesis
  proof (cases "ns_status s = Done")
    case True
    with assms none show ?thesis
      by (simp add: replayAccepted_def hasDoneEvent_iff ensureTerminalEvent_def)
  next
    case False
    let ?t = "transition rd s Done (\<lambda>s. accepted_patch tx (s\<lparr>ns_phase := Ph_complete\<rparr>)) now"
    have s': "ns_id (snd ?t) = i" "ns_attempt (snd ?t) = tx_attempt tx" "ns_status (snd ?t) = Done"
      using assms(1,3) by (simp_all add: frame_simps)
    have "done_events (fst ?t) i (tx_attempt tx) = [event_of (snd ?t) (ns_status s) Done Det_none]"
      using none assms(1,2) s'
      by (simp add: done_events_def transition_frame(1) event_of_def nonzero_def)
    with False none s' assms(1-3) show ?thesis
      by (auto simp: replayAccepted_def hasDoneEvent_iff ensureTerminalEvent_def split: prod.splits)
  qed
qed

text \<open>
  C21. Accepting an attempt is exactly-once across a crash: from every state the acceptance can
  leave on disk, replaying it makes the node \<open>done\<close> with exactly one \<open>done\<close> event for the
  attempt, and replaying it again changes nothing.
\<close>

theorem acceptance_exactly_once:
  assumes "ns_attempt state = tx_attempt tx" and "0 < ns_attempt state" and "ns_status state \<noteq> Done"
    and "done_events rd (ns_id state) (ns_attempt state) = []"
    and "\<And>s. ns_id (patch s) = ns_id s \<and> ns_attempt (patch s) = ns_attempt s"
    and "crashed \<in> set (accept_crashes rd node state patch tx now)"
  shows "ns_status (snd (replayAccepted (fst crashed) (snd crashed) tx later)) = Done \<and>
    length (done_events (fst (replayAccepted (fst crashed) (snd crashed) tx later)) (ns_id state)
      (ns_attempt state)) = 1 \<and>
    replayAccepted (fst (replayAccepted (fst crashed) (snd crashed) tx later))
      (snd (replayAccepted (fst crashed) (snd crashed) tx later)) tx again =
      replayAccepted (fst crashed) (snd crashed) tx later"
proof -
  let ?i = "ns_id state" and ?n = "tx_attempt tx"
  let ?P = "\<lambda>s. accepted_patch tx ((if nd_requirementIds node = [] then id
       else (\<lambda>s. s\<lparr>ns_requirementIds := nd_requirementIds node\<rparr>)) (patch s))"
  have P: "ns_id (?P s) = ns_id s" "ns_attempt (?P s) = ns_attempt s" for s
    using assms(5) by (simp_all add: frame_simps)
  let ?t = "transition rd state Done ?P now"
  have t: "ns_id (snd ?t) = ?i" "ns_attempt (snd ?t) = ?n" "ns_status (snd ?t) = Done"
    using P assms(1) by (simp_all add: frame_simps)
  have one: "done_events (fst ?t) ?i ?n = [event_of (snd ?t) (ns_status state) Done Det_none]"
    using assms(1,2,4) t by (simp add: done_events_def transition_frame(1) event_of_def nonzero_def)
  have full: "onAccepted rd node state patch tx now = ?t"
    using assms(1,3) t one
    by (auto simp: onAccepted_def ensureTerminalEvent_def hasDoneEvent_iff split: prod.splits)
  have "ns_attempt (snd crashed) = ?n \<and> ns_id (snd crashed) = ?i \<and>
      (ns_status (snd crashed) = Done \<or> done_events (fst crashed) ?i ?n = []) \<and>
      length (done_events (fst crashed) ?i ?n) \<le> 1"
    using assms(1,4,6) t one P
    by (auto simp: accept_crashes_def full transition_write_def Let_def writeNode_def done_events_def frame_simps)
  then have once: "ns_status (snd (replayAccepted (fst crashed) (snd crashed) tx later)) = Done \<and>
      ns_id (snd (replayAccepted (fst crashed) (snd crashed) tx later)) = ?i \<and>
      ns_attempt (snd (replayAccepted (fst crashed) (snd crashed) tx later)) = ?n \<and>
      length (done_events (fst (replayAccepted (fst crashed) (snd crashed) tx later)) ?i ?n) = 1"
    using assms(1,2) by (intro replayAccepted_once) auto
  then have "replayAccepted (fst (replayAccepted (fst crashed) (snd crashed) tx later))
      (snd (replayAccepted (fst crashed) (snd crashed) tx later)) tx again =
      replayAccepted (fst crashed) (snd crashed) tx later"
    by (subst replayAccepted_def) (auto simp: hasDoneEvent_iff)
  with once assms(1) show ?thesis by simp
qed

definition sample_tx :: integration_tx where
  "sample_tx = \<lparr>tx_attempt = 1, tx_candidateSha = Some ''c'', tx_attemptSha = ''a'',
     tx_previousRunRefTip = ''p''\<rparr>"

theorem acceptance_exactly_once_witness:
  "let state = sample_snapshot ''a'' Running Ph_complete;
       crashed = transition_write sample_run_dir state Done (accepted_patch sample_tx) 5
   in rd_events (fst crashed) = [] \<and>
      length (done_events (fst (replayAccepted (fst crashed) (snd crashed) sample_tx 9)) ''a'' 1) = 1"
proof -
  let ?s = "sample_snapshot ''a'' Running Ph_complete" and ?n = "sample_node ''a'' [] None None"
  let ?crashed = "transition_write sample_run_dir ?s Done (accepted_patch sample_tx) 5"
  have "length (done_events (fst (replayAccepted (fst ?crashed) (snd ?crashed) sample_tx 9))
      (ns_id ?s) (ns_attempt ?s)) = 1"
    by (rule acceptance_exactly_once [of ?s sample_tx sample_run_dir id ?crashed ?n 5 9 9,
          THEN conjunct2, THEN conjunct1])
      (simp_all add: sample_defs sample_tx_def sample_run_dir_def done_events_def accept_crashes_def
        comp_def Let_def)
  then show ?thesis
    by (simp add: Let_def sample_defs transition_write_def writeNode_def sample_run_dir_def)
qed

end
