(* ===== verification/Capacity.thy ===== *)
theory Capacity
  imports Run_Store
begin

text \<open>
  Who may start an attempt: the slot and per-runtime bounds of \<open>src/engine/capacity.mjs\<close>, the
  same bounds for a spawn a settlement makes itself (\<open>src/engine/aux-admission.mjs\<close>), the pairs a
  run is created with (\<open>src/engine/assignment.mjs\<close>), and the commands and budgets of a node's
  verification (\<open>src/contract/final-verification.mjs\<close>, \<open>src/engine/scheduler.mjs\<close>).

  The live jobs and the jobs inside their settle window are maps from node id to the runtime id
  of the job, which is all these decisions read of them.
\<close>

type_synonym holders = "(string \<times> string) list"
type_synonym states = "(string \<times> snapshot) list"

section \<open>Slots and runtimes\<close>

definition count_of :: "(string \<times> nat) list \<Rightarrow> string \<Rightarrow> nat" where
  "count_of counts i = nullish (map_of counts i) 0"

definition bump :: "string \<Rightarrow> (string \<times> nat) list \<Rightarrow> (string \<times> nat) list" where
  "bump i counts = AList.update i (count_of counts i + 1) counts"

definition runningPerRuntime :: "string list \<Rightarrow> (string \<times> nat) list" where
  "runningPerRuntime runtimes = fold bump runtimes []"

record admission_hold =
  ah_count :: nat
  ah_perRuntime :: "(string \<times> nat) list"

definition admissionHold :: "holders \<Rightarrow> holders \<Rightarrow> admission_hold" where
  "admissionHold running settling =
     (let held = map snd running @ map snd settling
      in \<lparr>ah_count = length held, ah_perRuntime = runningPerRuntime held\<rparr>)"

text \<open>The runtime one node holds for the others while it waits out a quota, if any.\<close>

definition quota_hold :: "int \<Rightarrow> snapshot \<Rightarrow> string option" where
  "quota_hold now state =
     (case (ro_currentOverride (routing_of state), last_opt (ro_history (routing_of state))) of
        (Some ov, Some entry) \<Rightarrow>
          (let waiting = (case ov_backoffUntil ov of
                 None \<Rightarrow> False
               | Some u \<Rightarrow> truthy_stamp (Some u) \<and> \<not> stamp_le (Some u) now)
           in if waiting \<and> ov_runtime ov \<noteq> [] \<and> he_runtime entry = ov_runtime ov \<and>
                 he_status entry = Some Exhausted
              then Some (ov_runtime ov) else None)
      | _ \<Rightarrow> None)"

definition quotaHeldRuntimes :: "snapshot list \<Rightarrow> int \<Rightarrow> string list" where
  "quotaHeldRuntimes states now = List.map_filter (quota_hold now) states"

definition runtimeHasCapacity ::
  "string \<Rightarrow> contract \<Rightarrow> (string \<times> nat) list \<Rightarrow> string list \<Rightarrow> bool" where
  "runtimeHasCapacity i contract counts held =
     (i \<notin> set held \<and>
      (case Option.bind (runtime_of contract i) rt_maxConcurrent of
         None \<Rightarrow> True
       | Some limit \<Rightarrow> count_of counts i < limit))"

text \<open>
  One admission pass: the free slots, and \<open>take\<close>, which claims a place on a runtime and counts it.
\<close>

record admission =
  ad_slots :: int
  ad_perRuntime :: "(string \<times> nat) list"
  ad_held :: "string list"

definition admissionPass :: "contract \<Rightarrow> holders \<Rightarrow> holders \<Rightarrow> states \<Rightarrow> int \<Rightarrow> admission" where
  "admissionPass contract running settling states now =
     (let hold = admissionHold running settling
      in \<lparr>ad_slots = ct_maxParallel contract - int (ah_count hold),
          ad_perRuntime = ah_perRuntime hold,
          ad_held = quotaHeldRuntimes (map snd states) now\<rparr>)"

definition admission_take :: "contract \<Rightarrow> admission \<Rightarrow> string \<Rightarrow> admission option" where
  "admission_take contract ad i =
     (if runtimeHasCapacity i contract (ad_perRuntime ad) (ad_held ad)
      then Some (ad\<lparr>ad_perRuntime := bump i (ad_perRuntime ad)\<rparr>) else None)"

section \<open>Spawns a settlement makes\<close>

text \<open>\<open>None\<close> is the error of an unknown runtime; the runtime is the one the attempt is routed to.\<close>

definition auxSpawnAdmission ::
  "contract \<Rightarrow> node \<Rightarrow> snapshot \<Rightarrow> holders \<Rightarrow> states \<Rightarrow> role \<Rightarrow> int
    \<Rightarrow> (string \<times> refusal_reason option) option" where
  "auxSpawnAdmission contract node state running states role now =
     (case routeRuntimeForState contract node state role now of
        None \<Rightarrow> None
      | Some (i, rt) \<Rightarrow>
          if int (length running) \<ge> ct_maxParallel contract
          then Some (i, Some (Run_full (length running) (ct_maxParallel contract)))
          else (let held = quotaHeldRuntimes (map snd states) now
                in if \<not> runtimeHasCapacity i contract (runningPerRuntime (map snd running)) held
                   then Some (i, Some (if i \<in> set held then Runtime_quota_hold i
                     else Runtime_full i (Option.bind (runtime_of contract i) rt_maxConcurrent)))
                   else Some (i, None)))"

lemma count_of_bump: "count_of (bump i counts) j = count_of counts j + (if i = j then 1 else 0)"
  by (simp add: count_of_def bump_def update_conv')

lemma count_of_fold: "count_of (fold bump xs counts) i = count_of counts i + count_list xs i"
  by (induction xs arbitrary: counts) (simp_all add: count_of_bump)

lemma runningPerRuntime_count: "count_of (runningPerRuntime xs) i = count_list xs i"
  by (simp add: runningPerRuntime_def count_of_fold) (simp add: count_of_def)

text \<open>
  A spawn a settlement makes itself is admitted only within the run's bounds: the run has a
  free slot, the runtime is waiting out no quota, and with the new job it still runs no more
  attempts than its own limit; and it is refused only when one of these fails.
\<close>

theorem aux_spawn_within_bounds:
  assumes "auxSpawnAdmission contract node state running states role now = Some (i, verdict)"
  shows "verdict = None \<longleftrightarrow>
    int (length running) + 1 \<le> ct_maxParallel contract \<and>
    i \<notin> set (quotaHeldRuntimes (map snd states) now) \<and>
    (\<forall>rt limit. runtime_of contract i = Some rt \<longrightarrow> rt_maxConcurrent rt = Some limit \<longrightarrow>
       count_list (map snd running) i + 1 \<le> limit)"
  using assms
  by (cases "runtime_of contract i"; cases "Option.bind (runtime_of contract i) rt_maxConcurrent")
    (auto simp: auxSpawnAdmission_def runtimeHasCapacity_def Let_def runningPerRuntime_count
      split: option.splits if_splits)

theorem aux_spawn_within_bounds_witness:
  "auxSpawnAdmission (sample_contract False []) (sample_node ''a'' [] (Some ''gpt'') None)
     (sample_snapshot ''a'' Running Ph_worker) [(''b'', ''gpt'')] [] Worker 0 =
     Some (''gpt'', Some (Runtime_full ''gpt'' (Some 1))) \<and>
   \<not> (\<forall>rt limit. runtime_of (sample_contract False []) ''gpt'' = Some rt \<longrightarrow>
        rt_maxConcurrent rt = Some limit \<longrightarrow> count_list [''gpt''] ''gpt'' + 1 \<le> limit)"
proof -
  have run: "auxSpawnAdmission (sample_contract False []) (sample_node ''a'' [] (Some ''gpt'') None)
      (sample_snapshot ''a'' Running Ph_worker) [(''b'', ''gpt'')] [] Worker 0 =
      Some (''gpt'', Some (Runtime_full ''gpt'' (Some 1)))"
    by code_simp
  have "quotaHeldRuntimes [] 0 = []" by (simp add: quotaHeldRuntimes_def List.map_filter_simps)
  with aux_spawn_within_bounds [OF run] run show ?thesis
    by (auto simp: sample_contract_def)
qed

section \<open>The verification a node carries\<close>

definition sharedVerificationCommands :: "contract \<Rightarrow> command list" where
  "sharedVerificationCommands contract = nullish (ct_sharedVerification contract) []"

definition gateProofTimeoutMs :: "node \<Rightarrow> contract \<Rightarrow> rat" where
  "gateProofTimeoutMs node contract =
     max 1000 (nullish (nd_timeoutSec node) (ct_timeoutSec contract) * 1000)"

definition phaseTerminalNode :: "contract \<Rightarrow> string \<Rightarrow> bool" where
  "phaseTerminalNode contract i =
     (\<not> list_ex (\<lambda>c. i \<in> set (nd_dependsOn c)) (ct_nodes contract))"

definition finalVerificationCommands ::
  "contract \<Rightarrow> node \<Rightarrow> string list option \<Rightarrow> command list" where
  "finalVerificationCommands contract node settledIds =
     (let commands = nullish (ct_finalVerification contract) []
      in if commands = [] then []
         else if \<not> phaseTerminalNode contract (nd_id node) then []
         else case settledIds of
                None \<Rightarrow> commands
              | Some settled \<Rightarrow>
                  (let siblings = filter (\<lambda>c. nd_id c \<noteq> nd_id node \<and>
                         phaseTerminalNode contract (nd_id c)) (ct_nodes contract)
                   in if list_all (\<lambda>s. nd_id s \<in> set settled) siblings then commands else []))"

definition verificationBudgetMs :: "command list option \<Rightarrow> rat" where
  "verificationBudgetMs commands =
     fold (\<lambda>c total. total + nullish (cmd_timeoutSec c) 120 *
             (case cmd_repeat c of Some n \<Rightarrow> if n > 0 then of_nat n else 1 | None \<Rightarrow> 1) * 1000)
       (nullish commands []) 0"

definition nodeBudgetBasisMs :: "contract \<Rightarrow> node \<Rightarrow> rat" where
  "nodeBudgetBasisMs contract node =
     (let defaultTimeoutMs = nullish (nd_timeoutSec node) (ct_timeoutSec contract) * 1000;
          sharedMs = verificationBudgetMs (Some (sharedVerificationCommands contract));
          packetMs = verificationBudgetMs (Some (nd_verification node));
          finalMs = verificationBudgetMs (Some (finalVerificationCommands contract node None));
          attemptMs = packetMs + sharedMs;
          candidateMs = attemptMs + finalMs;
          gateTimeoutMs = gateProofTimeoutMs node contract;
          commandProofs = length (filter (\<lambda>d. map_option fst (dod_proof d) = Some Proof_command)
            (nd_definitionOfDone node))
      in defaultTimeoutMs + attemptMs + candidateMs + of_nat commandProofs * gateTimeoutMs + finalMs)"

text \<open>
  The run of the phase-terminal nodes in the order they settle: which of them carries the final
  verification, each seeing the ids settled before it.
\<close>

fun carriers :: "contract \<Rightarrow> node list \<Rightarrow> string list \<Rightarrow> string list" where
  "carriers contract [] settled = []"
| "carriers contract (n # ns) settled =
     (if finalVerificationCommands contract n (Some settled) \<noteq> [] then [nd_id n] else []) @
     carriers contract ns (nd_id n # settled)"

lemma carries_iff:
  assumes "nullish (ct_finalVerification contract) [] \<noteq> []"
  shows "finalVerificationCommands contract n (Some settled) \<noteq> [] \<longleftrightarrow>
    phaseTerminalNode contract (nd_id n) \<and>
    (\<forall>m \<in> set (ct_nodes contract). phaseTerminalNode contract (nd_id m) \<longrightarrow>
       nd_id m \<noteq> nd_id n \<longrightarrow> nd_id m \<in> set settled)"
  using assms by (auto simp: finalVerificationCommands_def Let_def list_all_iff)

lemma carriers_last:
  assumes "nullish (ct_finalVerification contract) [] \<noteq> []" and "order \<noteq> []"
    and "distinct (map nd_id order)" and "set settled \<inter> nd_id ` set order = {}"
    and "nd_id ` {m \<in> set (ct_nodes contract). phaseTerminalNode contract (nd_id m)} =
      set settled \<union> nd_id ` set order"
  shows "carriers contract order settled = [nd_id (last order)]"
  using assms(2-5)
proof (induction order arbitrary: settled)
  case Nil
  then show ?case by simp
next
  case (Cons n ns)
  have terminal: "phaseTerminalNode contract i" if "i \<in> set settled \<union> nd_id ` set (n # ns)" for i
    using that Cons.prems(4) by (metis (no_types, lifting) imageE mem_Collect_eq)
  have carry: "finalVerificationCommands contract n (Some settled) \<noteq> [] \<longleftrightarrow> ns = []"
  proof
    assume "finalVerificationCommands contract n (Some settled) \<noteq> []"
    then have all: "\<forall>i \<in> nd_id ` {m \<in> set (ct_nodes contract). phaseTerminalNode contract (nd_id m)}.
        i \<noteq> nd_id n \<longrightarrow> i \<in> set settled"
      unfolding carries_iff [OF assms(1)] by auto
    show "ns = []"
    proof (cases ns)
      case (Cons m ms)
      with all Cons.prems have "nd_id m \<in> set settled" by auto
      with Cons.prems(3) Cons show ?thesis by auto
    qed simp
  next
    assume "ns = []"
    with Cons.prems(4) terminal show "finalVerificationCommands contract n (Some settled) \<noteq> []"
      unfolding carries_iff [OF assms(1)] by auto
  qed
  show ?case
  proof (cases ns)
    case Nil
    with carry show ?thesis by simp
  next
    case (Cons m ms)
    have "carriers contract ns (nd_id n # settled) = [nd_id (last ns)]"
      using Cons.prems Cons by (intro Cons.IH) auto
    with carry Cons show ?thesis by simp
  qed
qed

text \<open>
  The phase's final verification runs exactly once: in whatever order the phase-terminal
  nodes settle, the last of them carries it and no other does.
\<close>

theorem final_verification_runs_once:
  assumes "ct_finalVerification contract = Some commands" and "commands \<noteq> []"
    and "order \<noteq> []" and "distinct (map nd_id order)"
    and "nd_id ` set order =
      nd_id ` {m \<in> set (ct_nodes contract). phaseTerminalNode contract (nd_id m)}"
  shows "carriers contract order [] = [nd_id (last order)]"
  using assms by (intro carriers_last) auto

definition sample_final_contract :: contract where
  "sample_final_contract =
     (sample_contract False [sample_node ''a'' [] None None, sample_node ''b'' [''a''] None None,
        sample_node ''c'' [''a''] None None])
     \<lparr>ct_finalVerification :=
        Some [\<lparr>cmd_argv = [''make'', ''check''], cmd_timeoutSec = None, cmd_repeat = None,
          cmd_env = None, cmd_mutation = None, cmd_cwd = None\<rparr>]\<rparr>"

theorem final_verification_runs_once_witness:
  "carriers sample_final_contract
     [sample_node ''c'' [''a''] None None, sample_node ''b'' [''a''] None None] [] = [''b'']"
proof -
  have "map nd_id (filter (\<lambda>m. phaseTerminalNode sample_final_contract (nd_id m))
      (ct_nodes sample_final_contract)) = [''b'', ''c'']"
    by code_simp
  then have "set (map nd_id (filter (\<lambda>m. phaseTerminalNode sample_final_contract (nd_id m))
      (ct_nodes sample_final_contract))) = {''b'', ''c''}"
    by simp
  then have terminals: "nd_id ` {m \<in> set (ct_nodes sample_final_contract).
      phaseTerminalNode sample_final_contract (nd_id m)} = {''b'', ''c''}"
    by simp
  let ?order = "[sample_node ''c'' [''a''] None None, sample_node ''b'' [''a''] None None]"
  have "nd_id ` set ?order = {''b'', ''c''}" by (simp add: sample_node_def insert_commute)
  then have ids: "nd_id ` set ?order = nd_id ` {m \<in> set (ct_nodes sample_final_contract).
      phaseTerminalNode sample_final_contract (nd_id m)}"
    by (simp only: terminals)
  have commands: "ct_finalVerification sample_final_contract =
      Some [\<lparr>cmd_argv = [''make'', ''check''], cmd_timeoutSec = None, cmd_repeat = None,
          cmd_env = None, cmd_mutation = None, cmd_cwd = None\<rparr>]"
    by (simp add: sample_final_contract_def)
  have "distinct (map nd_id ?order)" by (simp add: sample_node_def)
  from final_verification_runs_once [OF commands _ _ this ids]
  show ?thesis by (simp add: sample_node_def)
qed

end
