(* ===== verification/Text_Bounds.thy ===== *)
theory Text_Bounds
  imports Prelude
begin

text \<open>
  The byte-bounding helpers (\<open>src/util.mjs\<close>, \<open>src/engine/judge-gate.mjs\<close>,
  \<open>src/contract/review-modes.mjs\<close>, \<open>src/engine/retry.mjs\<close>). A text is its UTF-8 encoding, a list
  of bytes kept as characters: \<open>Buffer.from(text, "utf8")\<close> is the text itself, and decoding a
  slice that starts or ends inside a multi-byte character yields one replacement character.
\<close>

section \<open>UTF-8\<close>

definition byte :: "nat \<Rightarrow> char" where
  "byte n = char_of n"

fun encode_point :: "nat \<Rightarrow> string" where
  "encode_point c =
     (if c < 0x80 then [byte c]
      else if c < 0x800 then [byte (0xC0 + c div 64), byte (0x80 + c mod 64)]
      else if c < 0x10000
      then [byte (0xE0 + c div 4096), byte (0x80 + c div 64 mod 64), byte (0x80 + c mod 64)]
      else [byte (0xF0 + c div 262144), byte (0x80 + c div 4096 mod 64), byte (0x80 + c div 64 mod 64),
            byte (0x80 + c mod 64)])"

declare encode_point.simps [simp del]

definition encode :: "nat list \<Rightarrow> string" where
  "encode cs = concat (map encode_point cs)"

text \<open>A Unicode code point; lone surrogates cannot occur in a decoded text.\<close>

definition code_point :: "nat \<Rightarrow> bool" where
  "code_point c \<longleftrightarrow> c < 0x110000"

definition utf8 :: "string \<Rightarrow> bool" where
  "utf8 s \<longleftrightarrow> (\<exists>cs. s = encode cs \<and> (\<forall>c \<in> set cs. code_point c))"

text \<open>\<open>(byte & 0xc0) === 0x80\<close>\<close>

definition is_cont :: "char \<Rightarrow> bool" where
  "is_cont c \<longleftrightarrow> 128 \<le> (of_char c :: nat) \<and> (of_char c :: nat) < 192"

definition cont_at :: "string \<Rightarrow> nat \<Rightarrow> bool" where
  "cont_at s i \<longleftrightarrow> i < length s \<and> is_cont (s ! i)"

definition ellipsis :: string where
  "ellipsis = [byte 0xE2, byte 0x80, byte 0xA6]"

definition replacement :: string where
  "replacement = [byte 0xEF, byte 0xBF, byte 0xBD]"

section \<open>Cutting at a character\<close>

fun retreat :: "string \<Rightarrow> nat \<Rightarrow> nat" where
  "retreat s 0 = 0"
| "retreat s (Suc i) = (if cont_at s (Suc i) then retreat s i else Suc i)"

definition boundedUtf8 :: "string \<Rightarrow> nat \<Rightarrow> string" where
  "boundedUtf8 s maxBytes =
     (if length s \<le> maxBytes then s
      else take (retreat s (maxBytes - length ellipsis)) s @ ellipsis)"

function advance :: "string \<Rightarrow> nat \<Rightarrow> nat" where
  "advance s i = (if i < length s \<and> cont_at s i then advance s (Suc i) else i)"
  by pat_completeness auto
termination
  by (relation "measure (\<lambda>(s, i). length s - i)") auto

declare advance.simps [simp del]

definition tailText :: "string \<Rightarrow> nat \<Rightarrow> string" where
  "tailText s maxBytes =
     (if length s \<le> maxBytes then s else drop (advance s (length s - maxBytes)) s)"

text \<open>
  \<open>bytes.subarray(0, room).toString("utf8")\<close>: a character cut in the middle becomes one
  replacement character.
\<close>

definition decode_prefix :: "string \<Rightarrow> nat \<Rightarrow> string" where
  "decode_prefix s room =
     (if length s \<le> room then s
      else take (retreat s room) s @ (if cont_at s room then replacement else []))"

text \<open>\<open>boundedSummary\<close> and \<open>bounded\<close>: one byte is reserved for the three-byte marker.\<close>

definition boundedSummary :: "string \<Rightarrow> string" where
  "boundedSummary s = (if length s \<le> 1024 then s else decode_prefix s 1023 @ ellipsis)"

definition bounded :: "string \<Rightarrow> nat \<Rightarrow> string" where
  "bounded s maxBytes =
     (if length s \<le> maxBytes then s else decode_prefix s (maxBytes - 1) @ ellipsis)"

text \<open>\<open>boundedText\<close> of the gate: the cut shrinks until the decoded result fits.\<close>

fun shrink :: "string \<Rightarrow> nat \<Rightarrow> nat \<Rightarrow> string" where
  "shrink s maxBytes 0 = decode_prefix s 0 @ ellipsis"
| "shrink s maxBytes (Suc room) =
     (if length (decode_prefix s (Suc room) @ ellipsis) > maxBytes then shrink s maxBytes room
      else decode_prefix s (Suc room) @ ellipsis)"

definition gate_boundedText :: "string \<Rightarrow> nat \<Rightarrow> string" where
  "gate_boundedText s maxBytes =
     (if length s \<le> maxBytes then s
      else if maxBytes \<le> length ellipsis then []
      else shrink s maxBytes (maxBytes - length ellipsis))"

section \<open>Excerpts\<close>

text \<open>The UTF-16 units a byte of a UTF-8 text accounts for.\<close>

definition units :: "char \<Rightarrow> nat" where
  "units c = (if is_cont c then 0 else if (of_char c :: nat) \<ge> 0xF0 then 2 else 1)"

definition js_length :: "string \<Rightarrow> nat" where
  "js_length s = sum_list (map units s)"

text \<open>
  \<open>slice(0, n)\<close>: whole characters while they fit; half of a surrogate pair is written to disk as
  one replacement character.
\<close>

fun js_prefix :: "nat \<Rightarrow> bool \<Rightarrow> string \<Rightarrow> string" where
  "js_prefix n kept [] = []"
| "js_prefix n kept (c # cs) =
     (if is_cont c then (if kept then c # js_prefix n kept cs else js_prefix n kept cs)
      else if units c \<le> n then c # js_prefix (n - units c) True cs
      else if n = 1 then replacement
      else [])"

definition is_control :: "char \<Rightarrow> bool" where
  "is_control c \<longleftrightarrow> (of_char c :: nat) < 0x20 \<or> (of_char c :: nat) = 0x7F"

fun squeeze :: "string \<Rightarrow> string" where
  "squeeze (a # b # cs) =
     (if a = CHR '' '' \<and> b = CHR '' '' then squeeze (b # cs) else a # squeeze (b # cs))"
| "squeeze cs = cs"

definition is_space :: "char \<Rightarrow> bool" where
  "is_space c = (let n = (of_char c :: nat) in n = 32 \<or> (9 \<le> n \<and> n \<le> 13))"

definition trim :: "string \<Rightarrow> string" where
  "trim s = rev (dropWhile is_space (rev (dropWhile is_space s)))"

definition excerpt :: "string \<Rightarrow> string option" where
  "excerpt t =
     (let clean = trim (squeeze (map (\<lambda>c. if is_control c \<or> is_space c then CHR '' '' else c) t))
      in if clean = [] then None
         else if js_length clean > 120 then Some (js_prefix 119 False clean @ ellipsis)
         else Some clean)"

section \<open>Lemmas\<close>

lemma of_byte: "n < 256 \<Longrightarrow> of_char (byte n) = n"
  by (simp add: byte_def)

lemma is_cont_byte: "n < 256 \<Longrightarrow> is_cont (byte n) \<longleftrightarrow> 128 \<le> n \<and> n < 192"
  by (simp add: is_cont_def of_byte)

lemma encode_point_shape:
  assumes "code_point c"
  shows "\<exists>b bs. encode_point c = b # bs \<and> \<not> is_cont b \<and> (\<forall>x \<in> set bs. is_cont x)"
proof -
  have "c div 262144 < 8" using assms by (simp add: code_point_def less_mult_imp_div_less)
  moreover have "c < 0x800 \<Longrightarrow> c div 64 < 32" "c < 0x10000 \<Longrightarrow> c div 4096 < 16" by simp_all
  moreover have "c div k mod 64 < 64" "c mod 64 < 64" for k by simp_all
  ultimately show ?thesis
    by (simp add: encode_point.simps is_cont_byte)
qed

lemma encode_point_nonempty [simp]: "encode_point c \<noteq> []"
  by (simp add: encode_point.simps)

lemma encode_simps [simp]:
  "encode [] = []"
  "encode (c # cs) = encode_point c @ encode cs"
  "encode (cs @ ds) = encode cs @ encode ds"
  by (simp_all add: encode_def)

text \<open>A position of an encoding is the start of a character exactly when no continuation byte is there.\<close>

lemma boundary_split:
  assumes "\<forall>c \<in> set cs. code_point c" and "i \<le> length (encode cs)" and "\<not> cont_at (encode cs) i"
  shows "\<exists>as bs. cs = as @ bs \<and> take i (encode cs) = encode as \<and> drop i (encode cs) = encode bs"
  using assms
proof (induction cs arbitrary: i)
  case Nil
  then show ?case by simp
next
  case (Cons c cs)
  obtain b bs where shape: "encode_point c = b # bs" "\<not> is_cont b" "\<forall>x \<in> set bs. is_cont x"
    using encode_point_shape Cons.prems(1) by (meson list.set_intros(1))
  show ?case
  proof (cases "i < length (encode_point c)")
    case True
    have "i = 0"
    proof (cases i)
      case (Suc j)
      with True shape have "(encode (c # cs)) ! i = bs ! j" by (simp add: nth_append)
      moreover from True Suc shape have "bs ! j \<in> set bs" by simp
      ultimately have "cont_at (encode (c # cs)) i"
        using shape(3) True by (simp add: cont_at_def)
      with Cons.prems(3) show ?thesis by simp
    qed simp
    then show ?thesis by (intro exI [of _ "[]"] exI [of _ "c # cs"]) simp
  next
    case False
    let ?n = "length (encode_point c)"
    have "\<not> cont_at (encode cs) (i - ?n)"
      using Cons.prems(3) False by (auto simp: cont_at_def nth_append)
    moreover have "i - ?n \<le> length (encode cs)" using Cons.prems(2) False by simp
    ultimately obtain as ds where "cs = as @ ds" "take (i - ?n) (encode cs) = encode as"
      "drop (i - ?n) (encode cs) = encode ds"
      using Cons.IH [of "i - ?n"] Cons.prems(1) by auto
    with False show ?thesis by (intro exI [of _ "c # as"] exI [of _ ds]) simp
  qed
qed

lemma utf8_boundary:
  assumes "utf8 s" and "i \<le> length s" and "\<not> cont_at s i"
  shows "utf8 (take i s) \<and> utf8 (drop i s)"
proof -
  from assms(1) obtain cs where cs: "s = encode cs" "\<forall>c \<in> set cs. code_point c"
    by (auto simp: utf8_def)
  from boundary_split [OF cs(2), of i] assms(2,3)
  have "\<exists>as bs. cs = as @ bs \<and> take i s = encode as \<and> drop i s = encode bs"
    unfolding cs(1) by blast
  then obtain as bs where "cs = as @ bs" "take i s = encode as" "drop i s = encode bs" by blast
  with cs(2) show ?thesis by (auto simp: utf8_def)
qed

lemma utf8_append: "utf8 s \<Longrightarrow> utf8 t \<Longrightarrow> utf8 (s @ t)"
  unfolding utf8_def by (metis Un_iff encode_simps(3) set_append)

lemma utf8_ellipsis: "utf8 ellipsis"
proof -
  have "ellipsis = encode [0x2026]" "code_point 0x2026"
    by (simp_all add: ellipsis_def encode_point.simps code_point_def)
  then show ?thesis unfolding utf8_def by (intro exI [of _ "[0x2026]"]) simp
qed

lemma utf8_replacement: "utf8 replacement"
proof -
  have "replacement = encode [0xFFFD]" "code_point 0xFFFD"
    by (simp_all add: replacement_def encode_point.simps code_point_def)
  then show ?thesis unfolding utf8_def by (intro exI [of _ "[0xFFFD]"]) simp
qed

lemma utf8_first: "utf8 s \<Longrightarrow> \<not> cont_at s 0"
proof -
  assume "utf8 s"
  then obtain cs where cs: "s = encode cs" "\<forall>c \<in> set cs. code_point c" by (auto simp: utf8_def)
  show ?thesis
  proof (cases cs)
    case Nil
    with cs show ?thesis by (simp add: cont_at_def)
  next
    case (Cons c ds)
    with cs(2) obtain b bs where "encode_point c = b # bs" "\<not> is_cont b"
      using encode_point_shape by (metis list.set_intros(1))
    with cs(1) Cons show ?thesis by (simp add: cont_at_def)
  qed
qed

lemma retreat_le: "retreat s i \<le> i"
  by (induction i) auto

lemma retreat_boundary: "utf8 s \<Longrightarrow> \<not> cont_at s (retreat s i)"
  by (induction i) (auto simp: utf8_first)

lemma advance_ge: "i \<le> advance s i"
  by (induction s i rule: advance.induct) (subst advance.simps, force)

lemma advance_le: "i \<le> length s \<Longrightarrow> advance s i \<le> length s"
proof (induction s i rule: advance.induct)
  case (1 s i)
  then show ?case by (subst advance.simps) auto
qed

lemma advance_boundary: "\<not> cont_at s (advance s i)"
proof (induction s i rule: advance.induct)
  case (1 s i)
  then show ?case by (subst advance.simps) (auto simp: cont_at_def)
qed

lemma length_ellipsis [simp]: "length ellipsis = 3"
  by (simp add: ellipsis_def)

lemma length_replacement [simp]: "length replacement = 3"
  by (simp add: replacement_def)

lemma utf8_ascii:
  assumes "\<forall>c \<in> set s. (of_char c :: nat) < 128"
  shows "utf8 s"
proof -
  have "encode (map of_char s) = s"
    using assms by (induction s) (auto simp: encode_point.simps byte_def)
  with assms show ?thesis
    unfolding utf8_def code_point_def
    by (intro exI [of _ "map of_char s"]) (auto simp: less_trans [of _ 128])
qed

text \<open>
  Bounding a text never breaks a character: from well-formed UTF-8 both the head and the
  tail bound give well-formed UTF-8 of at most \<open>maxBytes\<close> bytes (the head bound needs the three
  bytes of its marker), and a text that fits is returned as it is.
\<close>

theorem bounds_keep_utf8:
  assumes "utf8 s" and "3 \<le> maxBytes"
  shows "utf8 (boundedUtf8 s maxBytes) \<and> length (boundedUtf8 s maxBytes) \<le> maxBytes \<and>
    utf8 (tailText s maxBytes) \<and> length (tailText s maxBytes) \<le> maxBytes \<and>
    (length s \<le> maxBytes \<longrightarrow> boundedUtf8 s maxBytes = s \<and> tailText s maxBytes = s)"
proof (cases "length s \<le> maxBytes")
  case True
  with assms(1) show ?thesis by (simp add: boundedUtf8_def tailText_def)
next
  case False
  let ?e = "retreat s (maxBytes - 3)" and ?a = "advance s (length s - maxBytes)"
  have e: "?e \<le> maxBytes - 3" by (rule retreat_le)
  have a: "length s - maxBytes \<le> ?a" "?a \<le> length s" by (rule advance_ge) (rule advance_le, simp)
  have "utf8 (take ?e s)"
    using utf8_boundary [OF assms(1) _ retreat_boundary [OF assms(1)]] e False by simp
  moreover have "utf8 (drop ?a s)" using utf8_boundary [OF assms(1) a(2) advance_boundary] by simp
  moreover have "?e + 3 \<le> maxBytes" "length s - ?a \<le> maxBytes" using e a assms(2) by linarith+
  moreover have "length (take ?e s) = ?e" using False e by simp
  ultimately show ?thesis
    using False by (simp add: boundedUtf8_def tailText_def utf8_append utf8_ellipsis)
qed

theorem bounds_keep_utf8_witness:
  "utf8 (boundedUtf8 (''abcdef'' @ ellipsis) 6) \<and> length (tailText (''abcdef'' @ ellipsis) 4) \<le> 4 \<and>
   boundedUtf8 (''abcdef'' @ ellipsis) 9 = ''abcdef'' @ ellipsis"
proof -
  have s: "utf8 (''abcdef'' @ ellipsis)" by (intro utf8_append utf8_ascii utf8_ellipsis) simp
  from bounds_keep_utf8 [OF s, of 6] bounds_keep_utf8 [OF s, of 4] bounds_keep_utf8 [OF s, of 9]
  show ?thesis by simp
qed

lemma decode_prefix_utf8: "utf8 s \<Longrightarrow> utf8 (decode_prefix s room)"
proof (cases "length s \<le> room")
  case False
  assume s: "utf8 s"
  have "retreat s room \<le> length s" using False retreat_le [of s room] by simp
  then have "utf8 (take (retreat s room) s)"
    using utf8_boundary [OF s _ retreat_boundary [OF s]] by simp
  then show ?thesis
    using False utf8_append [OF _ utf8_replacement] by (simp add: decode_prefix_def)
qed (simp add: decode_prefix_def)

lemma shrink_fits:
  assumes "utf8 s" and "s \<noteq> []" and "3 \<le> maxBytes"
  shows "utf8 (shrink s maxBytes room) \<and> length (shrink s maxBytes room) \<le> maxBytes"
proof (induction room)
  case 0
  have "length (decode_prefix s 0) = 0" using assms(1,2) by (simp add: decode_prefix_def utf8_first)
  with assms(3) show ?case
    by (simp add: utf8_append decode_prefix_utf8 [OF assms(1)] utf8_ellipsis)
next
  case (Suc room)
  then show ?case
    by (simp add: utf8_append decode_prefix_utf8 [OF assms(1)] utf8_ellipsis)
qed

text \<open>
  The gate's bound always holds, so the evidence it writes always passes the validator that
  would otherwise stop the controller; the bound of a judge summary and of a previous attempt's
  section does not: a text cut at a character boundary comes out two bytes longer than the limit.
\<close>

theorem gate_bound_holds_summary_bound_does_not:
  assumes "utf8 s" and "maxBytes < length s" and "0 < maxBytes"
  shows "length (gate_boundedText s maxBytes) \<le> maxBytes \<and> utf8 (gate_boundedText s maxBytes) \<and>
    (\<not> cont_at s (maxBytes - 1) \<longrightarrow> length (bounded s maxBytes) = maxBytes + 2) \<and>
    boundedSummary s = bounded s 1024"
proof -
  have "s \<noteq> []" using assms(2) by auto
  have "utf8 []" unfolding utf8_def by (rule exI [of _ "[]"]) simp
  then have "length (gate_boundedText s maxBytes) \<le> maxBytes \<and> utf8 (gate_boundedText s maxBytes)"
    using assms shrink_fits [OF assms(1) \<open>s \<noteq> []\<close>, of maxBytes "maxBytes - 3"]
    by (simp add: gate_boundedText_def)
  moreover have "length (bounded s maxBytes) = maxBytes + 2" if cut: "\<not> cont_at s (maxBytes - 1)"
  proof -
    have "retreat s (maxBytes - 1) = maxBytes - 1" using cut by (cases "maxBytes - 1") auto
    with cut assms(2,3) show ?thesis by (simp add: bounded_def decode_prefix_def)
  qed
  ultimately show ?thesis by (simp add: boundedSummary_def bounded_def)
qed

theorem gate_bound_holds_summary_bound_does_not_witness:
  "length (gate_boundedText (replicate 10 (CHR ''a'')) 5) \<le> 5 \<and>
   length (bounded (replicate 10 (CHR ''a'')) 5) = 7"
proof -
  let ?s = "replicate 10 (CHR ''a'')"
  have "utf8 ?s" by (rule utf8_ascii) simp
  moreover have "\<not> cont_at ?s (5 - 1)" by (simp add: cont_at_def is_cont_def)
  ultimately show ?thesis
    using gate_bound_holds_summary_bound_does_not [of ?s 5] by simp
qed

end
