(* ===== verification/Judge_Gate.thy ===== *)
theory Judge_Gate
  imports Capacity Text_Bounds
begin

text \<open>
  The gate of a node: the verdict of its deterministic proofs (\<open>src/engine/judge-gate.mjs\<close>), the
  verdict parsed out of a judge's answer (\<open>src/engine/prompts.mjs\<close>), the review modes
  (\<open>src/contract/review-modes.mjs\<close>) and the words of a command (\<open>src/util.mjs\<close>).

  Running a proof command and looking up a path are arguments; \<open>JSON.parse\<close> is applied before
  \<open>parseJudge\<close> and its value is the argument. White space is that of ASCII.
\<close>

section \<open>Words of a command\<close>

abbreviation dquote :: char where "dquote \<equiv> CHR 0x22"
abbreviation squote :: char where "squote \<equiv> CHR 0x27"
abbreviation backslash :: char where "backslash \<equiv> CHR 0x5C"

record word_state =
  wd_words :: "string list"
  wd_current :: "string option"
  wd_quote :: "char option"
  wd_escaped :: bool

definition shell_step :: "char \<Rightarrow> word_state \<Rightarrow> word_state" where
  "shell_step c st =
     (let text = nullish (wd_current st) []
      in if wd_quote st = None \<and> is_space c
         then st\<lparr>wd_words := wd_words st @ (case wd_current st of None \<Rightarrow> [] | Some w \<Rightarrow> [w]),
                 wd_current := None\<rparr>
         else if wd_quote st = None \<and> (c = dquote \<or> c = squote)
         then st\<lparr>wd_quote := Some c, wd_current := Some text\<rparr>
         else if wd_escaped st
         then st\<lparr>wd_current := Some (text @ (if c = dquote \<or> c = backslash then [c] else [backslash, c])),
                 wd_escaped := False\<rparr>
         else if wd_quote st = Some dquote \<and> c = backslash then st\<lparr>wd_escaped := True\<rparr>
         else if wd_quote st = Some c then st\<lparr>wd_quote := None\<rparr>
         else st\<lparr>wd_current := Some (text @ [c])\<rparr>)"

definition shellWords :: "string \<Rightarrow> string list" where
  "shellWords text =
     (let st = fold shell_step text
            \<lparr>wd_words = [], wd_current = None, wd_quote = None, wd_escaped = False\<rparr>;
          current = (if wd_escaped st then Some (nullish (wd_current st) [] @ [backslash])
                     else wd_current st)
      in wd_words st @ (case current of None \<Rightarrow> [] | Some w \<Rightarrow> [w]))"

text \<open>A word written between double quotes, as \<open>JSON.stringify\<close> writes a text with none but printable characters.\<close>

definition escape_word :: "string \<Rightarrow> string" where
  "escape_word w = concat (map (\<lambda>c. if c = dquote \<or> c = backslash then [backslash, c] else [c]) w)"

definition quote_word :: "string \<Rightarrow> string" where
  "quote_word w = dquote # escape_word w @ [dquote]"

lemma shell_quoted:
  assumes "wd_quote st = Some dquote" and "wd_current st = Some tx" and "\<not> wd_escaped st"
  shows "fold shell_step (escape_word w) st = st\<lparr>wd_current := Some (tx @ w)\<rparr>"
  using assms
proof (induction w arbitrary: st tx)
  case Nil
  then show ?case by (cases st) (simp add: escape_word_def)
next
  case (Cons c w)
  have "fold shell_step (if c = dquote \<or> c = backslash then [backslash, c] else [c]) st =
      st\<lparr>wd_current := Some (tx @ [c])\<rparr>"
    using Cons.prems by (cases st) (auto simp: shell_step_def Let_def)
  moreover have "fold shell_step (escape_word w) (st\<lparr>wd_current := Some (tx @ [c])\<rparr>) =
      (st\<lparr>wd_current := Some (tx @ [c])\<rparr>)\<lparr>wd_current := Some ((tx @ [c]) @ w)\<rparr>"
    using Cons.prems by (intro Cons.IH) simp_all
  ultimately show ?case by (simp add: escape_word_def)
qed

lemma shell_word:
  assumes "wd_quote st = None" and "wd_current st = None" and "\<not> wd_escaped st"
  shows "fold shell_step (quote_word w) st = st\<lparr>wd_current := Some w\<rparr>"
proof -
  have "shell_step dquote st = st\<lparr>wd_quote := Some dquote, wd_current := Some []\<rparr>"
    using assms by (simp add: shell_step_def is_space_def)
  moreover have "fold shell_step (escape_word w) (st\<lparr>wd_quote := Some dquote, wd_current := Some []\<rparr>) =
      st\<lparr>wd_quote := Some dquote, wd_current := Some w\<rparr>"
    using assms by (subst shell_quoted [where tx = "[]"]) simp_all
  moreover have "shell_step dquote (st\<lparr>wd_quote := Some dquote, wd_current := Some w\<rparr>) =
      st\<lparr>wd_current := Some w\<rparr>"
    using assms by (cases st) (simp add: shell_step_def)
  ultimately show ?thesis by (simp add: quote_word_def)
qed

lemma shell_words_fold:
  assumes "wd_quote st = None" and "wd_current st = None" and "\<not> wd_escaped st" and "ws \<noteq> []"
  shows "fold shell_step (join_with [CHR '' ''] (map quote_word ws)) st =
    st\<lparr>wd_words := wd_words st @ butlast ws, wd_current := Some (last ws)\<rparr>"
  using assms
proof (induction ws arbitrary: st)
  case Nil
  then show ?case by simp
next
  case (Cons w ws)
  show ?case
  proof (cases ws)
    case Nil
    with Cons.prems show ?thesis by (cases st) (simp add: shell_word)
  next
    case (Cons v vs)
    let ?st = "st\<lparr>wd_words := wd_words st @ [w]\<rparr>"
    have "shell_step (CHR '' '') (st\<lparr>wd_current := Some w\<rparr>) = ?st"
      using Cons.prems by (cases st) (simp add: shell_step_def is_space_def)
    moreover have "fold shell_step (join_with [CHR '' ''] (map quote_word ws)) ?st =
        ?st\<lparr>wd_words := wd_words ?st @ butlast ws, wd_current := Some (last ws)\<rparr>"
      using Cons.prems Cons by (intro Cons.IH) simp_all
    ultimately show ?thesis using Cons.prems Cons by (simp add: shell_word)
  qed
qed

text \<open>
  Splitting a command into words inverts quoting: whatever the words hold, quotes,
  backslashes, spaces or nothing, writing each between double quotes with its quotes and
  backslashes escaped and splitting the line gives the same words back.
\<close>

theorem shell_words_roundtrip:
  "shellWords (join_with [CHR '' ''] (map quote_word ws)) = ws"
proof (cases "ws = []")
  case True
  then show ?thesis by (simp add: shellWords_def)
next
  case False
  then have "fold shell_step (join_with [CHR '' ''] (map quote_word ws))
      \<lparr>wd_words = [], wd_current = None, wd_quote = None, wd_escaped = False\<rparr> =
      \<lparr>wd_words = butlast ws, wd_current = Some (last ws), wd_quote = None, wd_escaped = False\<rparr>"
    by (simp add: shell_words_fold)
  with False show ?thesis by (simp add: shellWords_def Let_def)
qed

section \<open>The verdict of a judge\<close>

definition summaryBytes :: nat where "summaryBytes = 4 * 1024"
definition max_findings :: nat where "max_findings = 32"
definition descriptionBytes :: nat where "descriptionBytes = 2 * 1024"
definition evidenceBytes :: nat where "evidenceBytes = 4 * 1024"

definition JUDGE_ENVELOPE_REASON :: string where
  "JUDGE_ENVELOPE_REASON = ''judge result exceeds limits''"

definition JUDGE_FINDING_ENVELOPE_REASON :: string where
  "JUDGE_FINDING_ENVELOPE_REASON = ''judge finding exceeds limits''"

fun severity_rank :: "severity \<Rightarrow> nat" where
  "severity_rank Sev_none = 0"
| "severity_rank Minor = 1"
| "severity_rank Major = 2"
| "severity_rank Critical = 3"

definition severity_names :: "(string \<times> severity) list" where
  "severity_names = [(''none'', Sev_none), (''minor'', Minor), (''major'', Major), (''critical'', Critical)]"

definition read_severity :: "json option \<Rightarrow> severity option" where
  "read_severity v = (case v of Some (J_str t) \<Rightarrow> map_of severity_names t | _ \<Rightarrow> None)"

definition parse_finding :: "json \<Rightarrow> string + finding" where
  "parse_finding record =
     (case (read_severity (field_of record ''severity''), field_of record ''description'', field_of record ''evidence'') of
        (Some severity, Some (J_str description), Some (J_str evidence)) \<Rightarrow>
          if severity = Sev_none then Inl ''judge finding is invalid''
          else if length description > descriptionBytes \<or> length evidence > evidenceBytes
          then Inl JUDGE_FINDING_ENVELOPE_REASON
          else Inr \<lparr>fi_severity = severity, fi_description = description, fi_evidence = evidence\<rparr>
      | _ \<Rightarrow> Inl ''judge finding is invalid'')"

fun parse_findings :: "json list \<Rightarrow> string + finding list" where
  "parse_findings [] = Inr []"
| "parse_findings (r # rs) =
     (case parse_finding r of
        Inl e \<Rightarrow> Inl e
      | Inr f \<Rightarrow> (case parse_findings rs of Inl e \<Rightarrow> Inl e | Inr fs \<Rightarrow> Inr (f # fs)))"

definition actual_max :: "finding list \<Rightarrow> severity" where
  "actual_max findings =
     fold (\<lambda>f highest. if severity_rank (fi_severity f) > severity_rank highest then fi_severity f
                       else highest) findings Sev_none"

definition raw_findings :: "json \<Rightarrow> json list option" where
  "raw_findings verdict =
     (case field_of verdict ''findings'' of
        None \<Rightarrow> Some []
      | Some (J_arr rs) \<Rightarrow> Some rs
      | Some _ \<Rightarrow> None)"

definition read_verdict :: "json option \<Rightarrow> verdict_kind option" where
  "read_verdict v =
     (case v of
        Some (J_str t) \<Rightarrow> if t = ''pass'' then Some V_pass else if t = ''fail'' then Some V_fail else None
      | _ \<Rightarrow> None)"

definition parseJudge :: "json \<Rightarrow> string + gate_result" where
  "parseJudge verdict =
     (case verdict of
        J_obj _ \<Rightarrow>
          (case read_verdict (field_of verdict ''verdict'') of
             None \<Rightarrow> Inl ''judge verdict must be pass or fail''
           | Some judgeVerdict \<Rightarrow>
          (case read_severity (field_of verdict ''maxSeverity'') of
             None \<Rightarrow> Inl ''judge maxSeverity is invalid''
           | Some maxSeverity \<Rightarrow>
          (case field_of verdict ''summary'' of
             Some (J_str summary) \<Rightarrow>
               (case raw_findings verdict of
                  None \<Rightarrow> Inl ''judge findings must be an array''
                | Some rawFindings \<Rightarrow>
                    if length summary > summaryBytes \<or> length rawFindings > max_findings
                    then Inl JUDGE_ENVELOPE_REASON
                    else case parse_findings rawFindings of
                           Inl e \<Rightarrow> Inl e
                         | Inr findings \<Rightarrow>
                             if actual_max findings \<noteq> maxSeverity
                             then Inl ''judge maxSeverity does not match findings''
                             else if (judgeVerdict = V_pass) \<noteq> (maxSeverity = Sev_none)
                             then Inl ''judge verdict and maxSeverity are inconsistent''
                             else Inr \<lparr>gr_verdict = judgeVerdict, gr_maxSeverity = maxSeverity,
                                       gr_summary = summary, gr_findings = findings\<rparr>)
           | _ \<Rightarrow> Inl ''judge result is missing summary'')))
      | _ \<Rightarrow> Inl ''judge result must be an object'')"

text \<open>What a verdict has to satisfy to be one, and its writing as a JSON value.\<close>

definition finding_ok :: "finding \<Rightarrow> bool" where
  "finding_ok f \<longleftrightarrow> fi_severity f \<noteq> Sev_none \<and> length (fi_description f) \<le> descriptionBytes \<and>
     length (fi_evidence f) \<le> evidenceBytes"

definition verdict_ok :: "gate_result \<Rightarrow> bool" where
  "verdict_ok g \<longleftrightarrow>
     (gr_verdict g = V_pass \<and> gr_findings g = [] \<or> gr_verdict g = V_fail \<and> gr_findings g \<noteq> []) \<and>
     (\<forall>f \<in> set (gr_findings g). finding_ok f \<and> severity_rank (fi_severity f) \<le> severity_rank (gr_maxSeverity g)) \<and>
     (gr_maxSeverity g = Sev_none \<or> (\<exists>f \<in> set (gr_findings g). fi_severity f = gr_maxSeverity g)) \<and>
     length (gr_summary g) \<le> summaryBytes \<and> length (gr_findings g) \<le> max_findings"

fun write_severity :: "severity \<Rightarrow> json" where
  "write_severity Sev_none = J_str ''none''"
| "write_severity Minor = J_str ''minor''"
| "write_severity Major = J_str ''major''"
| "write_severity Critical = J_str ''critical''"

definition write_finding :: "finding \<Rightarrow> json" where
  "write_finding f = J_obj [(''severity'', write_severity (fi_severity f)),
     (''description'', J_str (fi_description f)), (''evidence'', J_str (fi_evidence f))]"

definition write_verdict :: "gate_result \<Rightarrow> json" where
  "write_verdict g = J_obj
     [(''verdict'', J_str (if gr_verdict g = V_pass then ''pass'' else ''fail'')),
      (''maxSeverity'', write_severity (gr_maxSeverity g)), (''summary'', J_str (gr_summary g)),
      (''findings'', J_arr (map write_finding (gr_findings g)))]"

lemma read_write_severity [simp]: "read_severity (Some (write_severity s)) = Some s"
  by (cases s) (simp_all add: read_severity_def severity_names_def)

lemma severity_rank_inject [simp]: "severity_rank a = severity_rank b \<longleftrightarrow> a = b"
  by (cases a; cases b) simp_all

lemma severity_rank_zero [simp]: "severity_rank a = 0 \<longleftrightarrow> a = Sev_none"
  by (cases a) simp_all

lemma fold_max_severity:
  "let m = fold (\<lambda>f highest. if severity_rank (fi_severity f) > severity_rank highest
      then fi_severity f else highest) fs h
   in severity_rank h \<le> severity_rank m \<and> (\<forall>f \<in> set fs. severity_rank (fi_severity f) \<le> severity_rank m) \<and>
      (m = h \<or> (\<exists>f \<in> set fs. fi_severity f = m))"
proof (induction fs arbitrary: h)
  case (Cons f fs)
  from Cons [of "fi_severity f"] Cons [of h] show ?case by (auto simp: Let_def)
qed simp

lemma actual_max_unique:
  "actual_max fs = m \<longleftrightarrow>
     (\<forall>f \<in> set fs. severity_rank (fi_severity f) \<le> severity_rank m) \<and>
     (m = Sev_none \<or> (\<exists>f \<in> set fs. fi_severity f = m))"
proof -
  have "severity_rank Sev_none \<le> severity_rank (actual_max fs) \<and>
      (\<forall>f \<in> set fs. severity_rank (fi_severity f) \<le> severity_rank (actual_max fs)) \<and>
      (actual_max fs = Sev_none \<or> (\<exists>f \<in> set fs. fi_severity f = actual_max fs))"
    using fold_max_severity [of fs Sev_none] by (simp add: actual_max_def Let_def)
  then show ?thesis
    by (metis le_antisym le_zero_eq severity_rank.simps(1) severity_rank_inject)
qed

lemma parse_finding_ok: "parse_finding r = Inr f \<Longrightarrow> finding_ok f"
  by (auto simp: parse_finding_def finding_ok_def split: option.splits json.splits if_splits)

lemma parse_findings_ok:
  "parse_findings rs = Inr fs \<Longrightarrow> (\<forall>f \<in> set fs. finding_ok f) \<and> length fs = length rs"
  by (induction rs arbitrary: fs) (auto split: sum.splits dest: parse_finding_ok)

lemma parse_write_finding: "finding_ok f \<Longrightarrow> parse_finding (write_finding f) = Inr f"
  by (simp add: parse_finding_def write_finding_def finding_ok_def)

lemma parse_write_findings:
  "\<forall>f \<in> set fs. finding_ok f \<Longrightarrow> parse_findings (map write_finding fs) = Inr fs"
  by (induction fs) (simp_all add: parse_write_finding)

lemma parseJudge_cases:
  assumes "parseJudge v = Inr g"
  shows "\<exists>rs. length (gr_summary g) \<le> summaryBytes \<and> length rs \<le> max_findings \<and>
    parse_findings rs = Inr (gr_findings g) \<and> actual_max (gr_findings g) = gr_maxSeverity g \<and>
    (gr_verdict g = V_pass \<longleftrightarrow> gr_maxSeverity g = Sev_none) \<and> gr_verdict g \<in> {V_pass, V_fail}"
  using assms
  by (auto simp: parseJudge_def read_verdict_def not_less
      split: json.splits option.splits sum.splits if_splits)

text \<open>
  A judge's answer is accepted exactly when it is a verdict: everything \<open>parseJudge\<close> returns
  passes with no finding or fails with at least one, states as its severity the highest of its
  findings and stays inside the envelope; and every such verdict, written as JSON, is read back
  as itself.
\<close>

theorem parse_judge_roundtrip:
  "(parseJudge v = Inr g \<longrightarrow> verdict_ok g) \<and>
   (verdict_ok g' \<longrightarrow> parseJudge (write_verdict g') = Inr g')"
proof (intro conjI impI)
  assume "parseJudge v = Inr g"
  from parseJudge_cases [OF this] show "verdict_ok g"
  proof (elim exE conjE)
    fix rs assume rs: "length (gr_summary g) \<le> summaryBytes" "length rs \<le> max_findings"
      "parse_findings rs = Inr (gr_findings g)" "actual_max (gr_findings g) = gr_maxSeverity g"
      "gr_verdict g = V_pass \<longleftrightarrow> gr_maxSeverity g = Sev_none" "gr_verdict g \<in> {V_pass, V_fail}"
    note ok = parse_findings_ok [OF rs(3)]
    note max = rs(4) [unfolded actual_max_unique]
    have "gr_findings g = []" if "gr_verdict g = V_pass"
    proof (cases "gr_findings g")
      case (Cons f fs)
      with max that rs(5) have "severity_rank (fi_severity f) = 0" by simp
      with ok Cons show ?thesis by (simp add: finding_ok_def)
    qed simp
    with rs ok max show ?thesis by (auto simp: verdict_ok_def)
  qed
next
  assume ok: "verdict_ok g'"
  have "parse_findings (map write_finding (gr_findings g')) = Inr (gr_findings g')"
    using ok by (intro parse_write_findings) (simp add: verdict_ok_def)
  moreover have "actual_max (gr_findings g') = gr_maxSeverity g'"
    using ok by (simp add: actual_max_unique verdict_ok_def)
  moreover have "gr_verdict g' = V_pass \<longleftrightarrow> gr_maxSeverity g' = Sev_none"
    using ok by (cases "gr_findings g'") (auto simp: verdict_ok_def finding_ok_def)
  ultimately show "parseJudge (write_verdict g') = Inr g'"
    using ok by (auto simp: parseJudge_def write_verdict_def raw_findings_def read_verdict_def verdict_ok_def)
qed

definition sample_failing_verdict :: gate_result where
  "sample_failing_verdict = \<lparr>gr_verdict = V_fail, gr_maxSeverity = Major, gr_summary = ''no test'',
     gr_findings = [\<lparr>fi_severity = Minor, fi_description = ''D1 typo'', fi_evidence = []\<rparr>,
       \<lparr>fi_severity = Major, fi_description = ''D1 untested'', fi_evidence = ''a.mjs''\<rparr>]\<rparr>"

theorem parse_judge_roundtrip_witness:
  "verdict_ok sample_failing_verdict \<and> parseJudge (write_verdict sample_failing_verdict) = Inr sample_failing_verdict"
proof -
  have "verdict_ok sample_failing_verdict"
    by (simp add: verdict_ok_def sample_failing_verdict_def finding_ok_def descriptionBytes_def
        evidenceBytes_def summaryBytes_def max_findings_def)
  then show ?thesis using parse_judge_roundtrip by blast
qed

section \<open>Review modes\<close>

definition JUDGE_UNAVAILABLE_CODE :: string where
  "JUDGE_UNAVAILABLE_CODE = ''judge_unavailable''"

definition UNCITED_REJECTION_REASON :: string where
  "UNCITED_REJECTION_REASON = ''uncited judge rejection spent its one bounded re-ask''"

definition reviewMode :: "gate \<Rightarrow> review_mode" where
  "reviewMode g =
     (if \<not> gt_enabled g then Rev_none else nullish (gt_review g) Rev_advisory)"

fun show_status :: "status \<Rightarrow> string" where
  "show_status Pending = ''pending''"
| "show_status Running = ''running''"
| "show_status Done = ''done''"
| "show_status No_op = ''no-op''"
| "show_status Blocked = ''blocked''"
| "show_status Failed = ''failed''"
| "show_status Exhausted = ''exhausted''"
| "show_status Stalled = ''stalled''"
| "show_status Canceled = ''canceled''"

text \<open>\<open>Inl\<close> is the reason there is no usable verdict, \<open>Inr\<close> the text to parse.\<close>

definition judgeVerdictEvidence :: "envelope \<Rightarrow> string + string option" where
  "judgeVerdictEvidence envelope =
     (if en_status envelope \<noteq> Done \<and> en_status envelope \<noteq> No_op
      then Inl (case en_error envelope of
             Some e \<Rightarrow> if pe_message e \<noteq> [] then pe_message e
                       else ''the judge phase ended '' @ show_status (en_status envelope)
           | None \<Rightarrow> ''the judge phase ended '' @ show_status (en_status envelope))
      else case en_judgeCandidates envelope of
             Some 0 \<Rightarrow> Inl ''the judge returned no verdict in its final messages''
           | Some n \<Rightarrow>
               if n > 1 then Inl (''the judge returned '' @ show_nat n @ '' separate verdicts'')
               else Inr (en_result envelope)
           | None \<Rightarrow> Inr (en_result envelope))"

definition invalidJudgeVerdict :: "string \<Rightarrow> gate_result" where
  "invalidJudgeVerdict reason =
     \<lparr>gr_verdict = V_invalid, gr_maxSeverity = Sev_none,
      gr_summary = boundedSummary (''judge produced no usable verdict: '' @ reason),
      gr_findings = []\<rparr>"

section \<open>Deterministic proofs\<close>

definition MAX_PROOF_OUTPUT_BYTES :: nat where
  "MAX_PROOF_OUTPUT_BYTES = 4 * 1024"

definition mechanicalItems :: "node \<Rightarrow> dod_item list" where
  "mechanicalItems node = filter (\<lambda>i. dod_proof i \<noteq> None) (nd_definitionOfDone node)"

definition judgmentItems :: "node \<Rightarrow> dod_item list" where
  "judgmentItems node = filter dod_judgment (nd_definitionOfDone node)"

definition judgeRequired :: "node \<Rightarrow> bool" where
  "judgeRequired node =
     (reviewMode (nd_gate node) \<noteq> Rev_none \<and> list_ex dod_judgment (nd_definitionOfDone node))"

definition judgeSkippedByScope :: "node \<Rightarrow> snapshot \<Rightarrow> bool" where
  "judgeSkippedByScope node state =
     (case gt_skipWhen (nd_gate node) of
        None \<Rightarrow> False
      | Some skipWhen \<Rightarrow>
          if map_option ve_passed (ns_verification state) \<noteq> Some True then False
          else (case orelse (Option.bind (ns_scope state) sc_changedPathCount)
                  (map_option length (Option.bind (ns_scope state) sc_changedPaths)) of
                  None \<Rightarrow> False
                | Some changed \<Rightarrow> changed \<le> sk_maxChangedPaths skipWhen))"

record proof_result =
  pr_id :: string
  pr_kind :: proof_kind
  pr_ref :: string
  pr_pass :: bool
  pr_detail :: string

text \<open>\<open>Number.parseInt(ref, 10)\<close> of a text of digits; any other text is no index here.\<close>

definition parse_index :: "string \<Rightarrow> nat option" where
  "parse_index s =
     (let digits = takeWhile is_digit (dropWhile is_space s)
      in if digits = [] then None
         else Some (fold (\<lambda>c n. 10 * n + (of_char c - 48)) digits 0))"

definition proveVerification :: "string \<Rightarrow> string \<Rightarrow> command_result list \<Rightarrow> proof_result" where
  "proveVerification i ref recorded =
     (case Option.bind (parse_index ref)
             (\<lambda>n. if n < length recorded then Some (recorded ! n) else None) of
        None \<Rightarrow> \<lparr>pr_id = i, pr_kind = Proof_verification, pr_ref = ref, pr_pass = False,
                 pr_detail = ''verification command '' @ ref @
                   '' has no recorded result for this attempt''\<rparr>
      | Some entry \<Rightarrow>
          (let output = (case last_opt (cr_attempts entry) of
                 None \<Rightarrow> []
               | Some a \<Rightarrow> if trim (at_stderr a) \<noteq> [] then at_stderr a
                           else if trim (at_stdout a) \<noteq> [] then at_stdout a else []);
               prefix = ''reused recorded verification result: '' @ join_with '' '' (cr_argv entry)
           in \<lparr>pr_id = i, pr_kind = Proof_verification, pr_ref = ref, pr_pass = cr_passed entry,
               pr_detail = (if cr_passed entry then prefix @ '' passed''
                 else gate_boundedText (prefix @ '' failed: '' @ trim output) MAX_PROOF_OUTPUT_BYTES)\<rparr>))"

text \<open>Lines of an output, and the two kinds a filtered run is judged by.\<close>

function lines_of :: "string \<Rightarrow> string list" where
  "lines_of s =
     (let line = takeWhile (\<lambda>c. c \<noteq> CHR 0x0A) s; rest = dropWhile (\<lambda>c. c \<noteq> CHR 0x0A) s
      in if rest = [] then [line] else line # lines_of (tl rest))"
  by pat_completeness auto
termination
proof (relation "measure length")
  fix s :: string and line rest
  assume "rest = dropWhile (\<lambda>c. c \<noteq> CHR 0x0A) s" and "rest \<noteq> []"
  then have "length (tl rest) < length rest" "length rest \<le> length s"
    by (simp_all add: length_dropWhile_le)
  then show "(tl rest, s) \<in> measure length" by simp
qed simp

declare lines_of.simps [simp del]

definition tap_result_line :: "string \<Rightarrow> bool" where
  "tap_result_line line =
     (let rest = (if starts_with line ''not ok '' then drop 7 line
                  else if starts_with line ''ok '' then drop 3 line else [])
      in takeWhile is_digit rest \<noteq> [] \<and> starts_with (dropWhile is_digit rest) '' '')"

definition tapSelectedNothing :: "string \<Rightarrow> bool" where
  "tapSelectedNothing stdout =
     (let zeroPlans = length (filter (\<lambda>l. l = ''1..0'') (lines_of stdout))
      in zeroPlans > 0 \<and> zeroPlans \<ge> length (filter tap_result_line (lines_of stdout)))"

definition TEST_FILTER_FLAGS :: "string list" where
  "TEST_FILTER_FLAGS = [''--test-name-pattern'', ''--test-skip-pattern'']"

text \<open>One flag read off the word at the head of the remaining words.\<close>

definition filter_at :: "string list \<Rightarrow> string \<Rightarrow> (string \<times> string) list" where
  "filter_at words flag =
     (case words of
        [] \<Rightarrow> []
      | token # rest \<Rightarrow>
          if starts_with token (flag @ ''='') then [(flag, drop (length flag + 1) token)]
          else if token = flag then [(flag, nullish (head_opt rest) [])]
          else [])"

fun filters_of :: "string list \<Rightarrow> (string \<times> string) list" where
  "filters_of [] = []"
| "filters_of (w # ws) = concat (map (filter_at (w # ws)) TEST_FILTER_FLAGS) @ filters_of ws"

definition declaredTestFilters :: "string \<Rightarrow> (string \<times> string) list" where
  "declaredTestFilters ref = filters_of (shellWords ref)"

definition filterNames :: "(string \<times> string) list \<Rightarrow> string" where
  "filterNames filters =
     join_with '', '' (map (\<lambda>f. fst f @ '' '' @ [dquote] @ snd f @ [dquote]) filters)"

text \<open>How a spawned proof ended.\<close>

datatype proof_exit =
    Exit_timeout nat
  | Exit_spawn_error string
  | Exit_close "int option" "string option" string string

definition show_int :: "int \<Rightarrow> string" where
  "show_int n = (if n < 0 then ''-'' @ show_nat (nat (- n)) else show_nat (nat n))"

definition proveCommand :: "string \<Rightarrow> string \<Rightarrow> proof_exit \<Rightarrow> proof_result" where
  "proveCommand i ref exit =
     (let filters = declaredTestFilters ref;
          result = (\<lambda>pass detail. \<lparr>pr_id = i, pr_kind = Proof_command, pr_ref = ref,
                     pr_pass = pass, pr_detail = detail\<rparr>);
          bound = (\<lambda>t. gate_boundedText t MAX_PROOF_OUTPUT_BYTES)
      in case exit of
           Exit_timeout ms \<Rightarrow> result False (bound (''timed out after '' @ show_nat ms @ ''ms''))
         | Exit_spawn_error message \<Rightarrow> result False (bound message)
         | Exit_close code signal stdout stderr \<Rightarrow>
             if code = Some 0 \<and> signal = None \<and> filters \<noteq> [] \<and> tapSelectedNothing stdout
             then result False (bound (filterNames filters @
                    '' selected no test: exit 0 over a TAP plan of 1..0, so the proof measured nothing''))
             else (let detail = (case signal of
                         Some name \<Rightarrow> ''killed by '' @ name
                       | None \<Rightarrow> ''exit '' @ (case code of None \<Rightarrow> ''?'' | Some c \<Rightarrow> show_int c));
                       pass = (code = Some 0 \<and> signal = None)
                   in result pass (if pass then detail
                        else bound (detail @ '': '' @ trim (if stderr \<noteq> [] then stderr else stdout)))))"

definition show_proof_kind :: "proof_kind \<Rightarrow> string" where
  "show_proof_kind k = (case k of
     Proof_command \<Rightarrow> ''command'' | Proof_path \<Rightarrow> ''path'' | Proof_verification \<Rightarrow> ''verification'')"

definition mechanicalVerdict :: "proof_result list \<Rightarrow> gate_result" where
  "mechanicalVerdict results =
     (let failed = filter (\<lambda>r. \<not> pr_pass r) results
      in if failed = []
         then \<lparr>gr_verdict = V_pass, gr_maxSeverity = Sev_none,
               gr_summary = ''every deterministic Definition of Done item passed'', gr_findings = []\<rparr>
         else \<lparr>gr_verdict = V_fail, gr_maxSeverity = Critical,
               gr_summary = ''deterministic Definition of Done item failed'',
               gr_findings = map (\<lambda>r. \<lparr>fi_severity = Critical,
                   fi_description = ''Definition of Done item ['' @ pr_id r @ ''] failed its '' @
                     show_proof_kind (pr_kind r) @ '' proof'',
                   fi_evidence = gate_boundedText (pr_ref r @ '': '' @ pr_detail r)
                     MAX_PROOF_OUTPUT_BYTES\<rparr>) failed\<rparr>)"

definition provenDeterministicResults :: "node \<Rightarrow> proof_result list" where
  "provenDeterministicResults node =
     map (\<lambda>i. \<lparr>pr_id = dod_id i, pr_kind = fst (the (dod_proof i)), pr_ref = snd (the (dod_proof i)),
               pr_pass = True, pr_detail = []\<rparr>) (mechanicalItems node)"

text \<open>How command and path proofs come out: what the machine answers for an item.\<close>

type_synonym machine = "string \<Rightarrow> proof_kind \<Rightarrow> string \<Rightarrow> proof_result"

definition runMechanicalProofs ::
  "machine \<Rightarrow> dod_item list \<Rightarrow> verification option \<Rightarrow> proof_result list" where
  "runMechanicalProofs machine items verification =
     map (\<lambda>i. case dod_proof i of
                Some (Proof_verification, ref) \<Rightarrow>
                  proveVerification (dod_id i) ref
                    (case verification of None \<Rightarrow> [] | Some v \<Rightarrow> ve_commands v)
              | Some (kind, ref) \<Rightarrow> machine (dod_id i) kind ref
              | None \<Rightarrow> machine (dod_id i) Proof_path [])
       (filter (\<lambda>i. dod_proof i \<noteq> None) items)"

definition deterministicGate ::
  "machine \<Rightarrow> node \<Rightarrow> bool \<Rightarrow> verification option \<Rightarrow> gate_result \<times> proof_result list" where
  "deterministicGate machine node reask verification =
     (let results = (if reask then provenDeterministicResults node
            else runMechanicalProofs machine (mechanicalItems node) verification)
      in (mechanicalVerdict results, results))"

section \<open>A failed verification\<close>

text \<open>\<open>stripAnsi\<close>: an escape, a bracket, digits and semicolons, and an \<open>m\<close>, removed wherever they occur.\<close>

definition sgr_length :: "string \<Rightarrow> nat option" where
  "sgr_length s =
     (if starts_with s [CHR 0x1B, CHR ''['']
      then (let body = takeWhile (\<lambda>c. is_digit c \<or> c = CHR '';'') (drop 2 s);
                rest = drop (2 + length body) s
            in if head_opt rest = Some (CHR ''m'') then Some (3 + length body) else None)
      else None)"

function stripAnsi :: "string \<Rightarrow> string" where
  "stripAnsi s =
     (case s of
        [] \<Rightarrow> []
      | c # cs \<Rightarrow> (case sgr_length s of
            None \<Rightarrow> c # stripAnsi cs
          | Some n \<Rightarrow> stripAnsi (drop n s)))"
  by pat_completeness auto
termination
  by (relation "measure length") (auto simp: sgr_length_def Let_def split: if_splits)

declare stripAnsi.simps [simp del]

text \<open>
  \<open>NODE_TEST_LOCATION\<close> on one line: the shortest non-empty path before a line number, an optional
  column number and trailing white space.
\<close>

definition after_number :: "string \<Rightarrow> string option" where
  "after_number s =
     (if starts_with s '':'' \<and> takeWhile is_digit (tl s) \<noteq> [] then Some (dropWhile is_digit (tl s))
      else None)"

definition location_end :: "string \<Rightarrow> bool" where
  "location_end s =
     (case after_number s of
        None \<Rightarrow> False
      | Some rest \<Rightarrow> list_all is_space rest \<or>
          (case after_number rest of None \<Rightarrow> False | Some end' \<Rightarrow> list_all is_space end'))"

fun location_path :: "string \<Rightarrow> string \<Rightarrow> string option" where
  "location_path path [] = None"
| "location_path path (c # cs) =
     (if location_end cs then Some (path @ [c]) else location_path (path @ [c]) cs)"

definition node_test_location :: "string \<Rightarrow> string option" where
  "node_test_location line =
     (if starts_with line ''test at '' then location_path [] (drop 8 line) else None)"

definition add_path :: "string \<Rightarrow> string list \<Rightarrow> string list" where
  "add_path line paths =
     (case node_test_location line of
        None \<Rightarrow> paths
      | Some p \<Rightarrow> if trim p = [] \<or> trim p \<in> set paths then paths else paths @ [trim p])"

definition namedTestFiles :: "command_result list \<Rightarrow> string list" where
  "namedTestFiles commands =
     fold add_path
       (concat (map (\<lambda>a. lines_of (stripAnsi (at_stdout a)) @ lines_of (stripAnsi (at_stderr a)))
          (concat (map cr_attempts commands)))) []"

definition declaredWriteCoverage :: "snapshot \<Rightarrow> string \<Rightarrow> bool" where
  "declaredWriteCoverage state path =
     (case Option.bind (ns_scope state) sc_boundary of
        None \<Rightarrow> False
      | Some b \<Rightarrow>
          path \<in> set (bd_files b) \<or> path \<in> set (bd_fileRoots b) \<or>
          list_ex (\<lambda>root. path = root \<or> starts_with path (root @ ''/''))
            (filter (\<lambda>root. root \<notin> set (bd_fileRoots b)) (bd_roots b)))"

definition sharedVerificationCoverage :: "contract \<Rightarrow> string \<Rightarrow> bool" where
  "sharedVerificationCoverage contract path =
     list_ex (\<lambda>token. token = path \<or> starts_with path (token @ ''/''))
       (concat (map cmd_argv (sharedVerificationCommands contract)))"

definition ratchetFailureDescription :: "string list \<Rightarrow> string" where
  "ratchetFailureDescription paths =
     gate_boundedText (''deterministic verification failed in '' @ join_with '', '' paths @
       '', which the contract runs on every node as sharedVerification: this node'' @ [squote] @
       ''s change broke a repository-wide rule. The remedy is in the node'' @ [squote] @
       ''s own code -- bring the change back within the rule the check enforces. The check itself is not the node'' @ [squote] @
       ''s to change, and relaxing it is not a fix'') descriptionBytes"

definition undeclaredTestDescription :: "string list \<Rightarrow> string" where
  "undeclaredTestDescription paths =
     (let files = join_with '', '' paths;
          noun = (if length paths = 1 then ''file'' else ''files'');
          pronoun = (if length paths = 1 then ''it'' else ''them'')
      in gate_boundedText (''deterministic verification failed in undeclared test '' @ noun @ '' '' @
           files @ ''; the node'' @ [squote] @ ''s writeFiles does not include '' @ pronoun @
           '', so the worker cannot fix the failing test. This is a contract defect, not a worker defect: add '' @
           files @ '' to writeFiles or scopeAcknowledged and re-dispatch'') descriptionBytes)"

definition show_attempt :: "command_attempt \<Rightarrow> string" where
  "show_attempt a =
     ''exit='' @ (case at_exitCode a of None \<Rightarrow> ''-'' | Some c \<Rightarrow> show_int c) @
     (if at_timedOut a then '' timeout'' else [])"

definition verificationFailureVerdict :: "contract \<Rightarrow> snapshot \<Rightarrow> gate_result" where
  "verificationFailureVerdict contract state =
     (let failedCommands = (case ns_verification state of
            None \<Rightarrow> [] | Some v \<Rightarrow> filter (\<lambda>c. \<not> cr_passed c) (ve_commands v));
          evidence = (if failedCommands \<noteq> []
            then join_with ''; '' (map (\<lambda>c. join_with '' '' (cr_argv c) @ '': '' @
                   join_with '', '' (map show_attempt (cr_attempts c))) failedCommands)
            else nullish (Option.bind (ns_verification state) ve_error)
                   ''verification controller failed to execute a command'');
          undeclared = filter (\<lambda>p. \<not> declaredWriteCoverage state p) (namedTestFiles failedCommands);
          ratchets = filter (sharedVerificationCoverage contract) undeclared;
          withheld = filter (\<lambda>p. \<not> sharedVerificationCoverage contract p) undeclared;
          descriptions = (if ratchets \<noteq> [] then [ratchetFailureDescription ratchets] else []) @
            (if withheld \<noteq> [] then [undeclaredTestDescription withheld] else [])
      in \<lparr>gr_verdict = V_fail, gr_maxSeverity = Critical,
          gr_summary = ''deterministic verification failed'',
          gr_findings = map (\<lambda>d. \<lparr>fi_severity = Critical, fi_description = d,
              fi_evidence = gate_boundedText evidence MAX_PROOF_OUTPUT_BYTES\<rparr>)
            (if descriptions \<noteq> [] then descriptions else [''deterministic verification failed''])\<rparr>)"

definition candidateOnlyFailures :: "verification option \<Rightarrow> verification option \<Rightarrow> string list" where
  "candidateOnlyFailures attempt candidate =
     (let commands = (\<lambda>v. case v of None \<Rightarrow> [] | Some w \<Rightarrow> ve_commands w);
          pairs = zip (commands candidate) (map Some (commands attempt) @
            replicate (length (commands candidate)) None)
      in map (\<lambda>p. join_with '' '' (cr_argv (fst p)))
           (filter (\<lambda>p. \<not> cr_passed (fst p) \<and> map_option cr_passed (snd p) = Some True) pairs))"

section \<open>Rejections that cite nothing, and the one re-ask\<close>

definition is_id_char :: "char \<Rightarrow> bool" where
  "is_id_char c = (is_word_char c \<or> c = CHR ''.'' \<or> c = CHR ''-'')"

function id_tokens :: "string \<Rightarrow> string list" where
  "id_tokens s =
     (let token = takeWhile is_id_char s; rest = dropWhile is_id_char s
      in if rest = [] then [token] else token # id_tokens (dropWhile (\<lambda>c. \<not> is_id_char c) rest))"
  by pat_completeness auto
termination
proof (relation "measure length")
  fix s token rest
  assume rest: "rest = dropWhile is_id_char s" "rest \<noteq> []"
  then have "\<not> is_id_char (hd rest)" using hd_dropWhile by blast
  with rest(2) have "length (dropWhile (\<lambda>c. \<not> is_id_char c) rest) < length rest"
    by (cases rest) (auto simp: less_Suc_eq_le length_dropWhile_le)
  also have "length rest \<le> length s" by (simp add: rest(1) length_dropWhile_le)
  finally show "(dropWhile (\<lambda>c. \<not> is_id_char c) rest, s) \<in> measure length" by simp
qed simp

declare id_tokens.simps [simp del]

definition citesItem :: "string \<Rightarrow> string list \<Rightarrow> bool" where
  "citesItem t ids = list_ex (\<lambda>token. token \<in> set ids) (id_tokens t)"

definition uncitedRejection :: "gate_result \<Rightarrow> node \<Rightarrow> bool" where
  "uncitedRejection verdict node =
     (let items = judgmentItems node
      in if gr_verdict verdict \<noteq> V_fail \<or> items = [] then False
         else (let ids = map dod_id items
               in \<not> list_ex (\<lambda>f. citesItem (fi_description f) ids \<or> citesItem (fi_evidence f) ids)
                      (gr_findings verdict)))"

definition JUDGE_REASK_KIND :: string where
  "JUDGE_REASK_KIND = ''judge-reask''"

definition isJudgeReask :: "exec_override \<Rightarrow> bool" where
  "isJudgeReask override = (xo_kind override = JUDGE_REASK_KIND)"

definition judgeReaskRecord :: "snapshot \<Rightarrow> exec_override option" where
  "judgeReaskRecord state = find_last isJudgeReask (ns_executionOverrides state)"

definition judgeReaskOutstanding :: "snapshot \<Rightarrow> bool" where
  "judgeReaskOutstanding state = (judgeReaskRecord state \<noteq> None)"

definition judgeReaskReason :: "snapshot \<Rightarrow> string option" where
  "judgeReaskReason state = Option.bind (judgeReaskRecord state) xo_reason"

definition markJudgeReask :: "snapshot \<Rightarrow> string \<Rightarrow> snapshot" where
  "markJudgeReask state reason =
     (if judgeReaskOutstanding state then state
      else state\<lparr>ns_executionOverrides := ns_executionOverrides state @
             [(mk_override JUDGE_REASK_KIND)\<lparr>xo_reason := Some reason\<rparr>]\<rparr>)"

definition clearJudgeReask :: "snapshot \<Rightarrow> snapshot" where
  "clearJudgeReask state =
     (if \<not> judgeReaskOutstanding state then state
      else state\<lparr>ns_executionOverrides :=
             filter (\<lambda>x. \<not> isJudgeReask x) (ns_executionOverrides state)\<rparr>)"

definition resetPhaseRouting :: "snapshot \<Rightarrow> snapshot" where
  "resetPhaseRouting state =
     state\<lparr>ns_routing := map_option (\<lambda>ro. ro\<lparr>ro_currentOverride := None\<rparr>) (ns_routing state)\<rparr>"

lemma reask_outstanding_iff:
  "judgeReaskOutstanding s \<longleftrightarrow> (\<exists>x \<in> set (ns_executionOverrides s). isJudgeReask x)"
  unfolding judgeReaskOutstanding_def judgeReaskRecord_def by (auto simp: find_last_None_iff)

lemma mark_reask_outstanding [simp]: "judgeReaskOutstanding (markJudgeReask s reason)"
  by (auto simp: reask_outstanding_iff markJudgeReask_def isJudgeReask_def)

lemma clear_reask_outstanding [simp]: "\<not> judgeReaskOutstanding (clearJudgeReask s)"
  by (auto simp: reask_outstanding_iff clearJudgeReask_def)

lemma mark_reask_frame [frame_simps]:
  "ns_revisions (markJudgeReask s r) = ns_revisions s" "ns_id (markJudgeReask s r) = ns_id s"
  "ns_status (markJudgeReask s r) = ns_status s" "ns_attempt (markJudgeReask s r) = ns_attempt s"
  by (simp_all add: markJudgeReask_def)

lemma clear_reask_frame [frame_simps]:
  "ns_revisions (clearJudgeReask s) = ns_revisions s" "ns_id (clearJudgeReask s) = ns_id s"
  "ns_status (clearJudgeReask s) = ns_status s" "ns_attempt (clearJudgeReask s) = ns_attempt s"
  "ns_gate (clearJudgeReask s) = ns_gate s"
  by (simp_all add: clearJudgeReask_def)

end
