(* ===== verification/Scheduler.thy ===== *)
theory Scheduler
  imports Capacity
begin

text \<open>
  One tick of the controller over the node states: dependants of parked nodes are blocked
  (\<open>src/engine/assignment.mjs\<close>), a node left running with no job is parked, a node that just
  parked gets its one automatic retry (\<open>src/engine/lifecycle.mjs\<close>), human steps stop
  (\<open>src/contract/human-step.mjs\<close>), and ready nodes are dispatched within the admission's bounds
  (\<open>src/engine/scheduler.mjs\<close>).

  The states are the map the controller holds, keyed by node id; starting a process is outside
  the model, so a dispatch is the record of what is started.
\<close>

section \<open>The states of a run\<close>

type_synonym world = "run_dir \<times> states"

definition transition_in ::
  "world \<Rightarrow> string \<Rightarrow> status \<Rightarrow> (snapshot \<Rightarrow> snapshot) \<Rightarrow> int \<Rightarrow> world" where
  "transition_in w i status patch now =
     (case map_of (snd w) i of
        None \<Rightarrow> w
      | Some s \<Rightarrow>
          (let (rd', s') = transition (fst w) s status patch now
           in (rd', AList.update i s' (snd w))))"

definition status_of :: "states \<Rightarrow> string \<Rightarrow> status option" where
  "status_of states i = map_option ns_status (map_of states i)"

lemma transition_in_states [simp]:
  "map_of (snd (transition_in w i status patch now)) j =
     (if i = j then map_option (\<lambda>s. (patch s)\<lparr>ns_status := status, ns_updatedAt := Some (Iso now)\<rparr>)
        (map_of (snd w) i)
      else map_of (snd w) j)"
  by (auto simp: transition_in_def update_conv' transition_frame split: option.splits prod.splits
      dest: arg_cong [of "transition _ _ _ _ _" _ snd])

text \<open>\<open>parked i\<close> and \<open>finished i\<close> read a status, absent ids being neither.\<close>

definition parked_in :: "states \<Rightarrow> string \<Rightarrow> bool" where
  "parked_in states i = (case status_of states i of None \<Rightarrow> False | Some s \<Rightarrow> PARKED s)"

section \<open>Human steps\<close>

definition HUMAN_STEP_ERROR_CODE :: string where
  "HUMAN_STEP_ERROR_CODE = ''human_step_pending''"

text \<open>The separator is an em dash between spaces, given by its UTF-8 bytes.\<close>

definition humanStepAttentionMessage :: "human_step \<Rightarrow> string" where
  "humanStepAttentionMessage h =
     hs_step h @ '' '' @ [CHR 0xE2, CHR 0x80, CHR 0x94] @ '' run '' @ [CHR 0x60] @ hs_command h @ [CHR 0x60]"

definition isHumanStepPending :: "snapshot \<Rightarrow> bool" where
  "isHumanStepPending state =
     (ns_status state = Blocked \<and> map_option er_code (ns_error state) = Some HUMAN_STEP_ERROR_CODE)"

section \<open>Dependants of parked nodes\<close>

definition block_step :: "int \<Rightarrow> node \<Rightarrow> world \<Rightarrow> world" where
  "block_step now node w =
     (case status_of (snd w) (nd_id node) of
        Some Pending \<Rightarrow>
          (let blockedBy = filter (parked_in (snd w)) (nd_dependsOn node);
               waiting = list_all (\<lambda>i. case map_of (snd w) i of
                   None \<Rightarrow> False | Some s \<Rightarrow> isHumanStepPending s) blockedBy;
               message = (if waiting then ''waiting for human step '' else ''blocked by '') @
                 join_with '', '' blockedBy
           in if blockedBy = [] then w
              else transition_in w (nd_id node) Blocked
                (\<lambda>s. s\<lparr>ns_phase := Ph_dependency, ns_blockedBy := blockedBy,
                       ns_error := Some (mk_error ''dependency_failed'' message)\<rparr>) now)
      | _ \<Rightarrow> w)"

definition blockDependents :: "contract \<Rightarrow> world \<Rightarrow> int \<Rightarrow> world" where
  "blockDependents contract w now = fold (block_step now) (ct_nodes contract) w"

lemma block_step_other:
  "i \<noteq> nd_id node \<Longrightarrow> map_of (snd (block_step now node w)) i = map_of (snd w) i"
  by (auto simp: block_step_def Let_def split: option.splits status.splits)

lemma block_step_self:
  "status_of (snd (block_step now node w)) (nd_id node) =
     (if status_of (snd w) (nd_id node) = Some Pending \<and>
         list_ex (parked_in (snd w)) (nd_dependsOn node)
      then Some Blocked else status_of (snd w) (nd_id node))"
  by (auto simp: block_step_def Let_def status_of_def list_ex_iff filter_empty_conv
      split: option.splits status.splits)

text \<open>The contract lists every node after its dependencies.\<close>

fun topological :: "string list \<Rightarrow> node list \<Rightarrow> bool" where
  "topological seen [] = True"
| "topological seen (n # ns) =
     (set (nd_dependsOn n) \<subseteq> set seen \<and> nd_id n \<notin> set seen \<and> topological (nd_id n # seen) ns)"

lemma topological_append:
  "topological seen (ns @ [n]) \<longleftrightarrow>
     topological seen ns \<and> set (nd_dependsOn n) \<subseteq> nd_id ` set ns \<union> set seen \<and>
     nd_id n \<notin> nd_id ` set ns \<union> set seen"
  by (induction ns arbitrary: seen) auto

lemma topological_deps:
  "topological [] ns \<Longrightarrow> n \<in> set ns \<Longrightarrow> set (nd_dependsOn n) \<subseteq> nd_id ` set ns"
  by (induction ns rule: rev_induct) (auto simp: topological_append)

lemma block_pass_no_pending_dependant:
  assumes "topological [] ns" and "n \<in> set ns"
    and "status_of (snd (fold (block_step now) ns w)) (nd_id n) = Some Pending"
    and "d \<in> set (nd_dependsOn n)"
  shows "\<not> parked_in (snd (fold (block_step now) ns w)) d"
  using assms
proof (induction ns arbitrary: n d rule: rev_induct)
  case Nil
  then show ?case by simp
next
  case (snoc m ns)
  let ?w = "fold (block_step now) ns w"
  from snoc.prems(1) have top: "topological [] ns" and m_deps: "set (nd_dependsOn m) \<subseteq> nd_id ` set ns"
    and m_new: "nd_id m \<notin> nd_id ` set ns"
    by (auto simp: topological_append)
  have old: "parked_in (snd (block_step now m ?w)) i = parked_in (snd ?w) i" if "i \<in> nd_id ` set ns" for i
  proof -
    from that m_new have "i \<noteq> nd_id m" by blast
    then show ?thesis by (simp add: parked_in_def status_of_def block_step_other)
  qed
  show ?case
  proof (cases "n = m")
    case True
    with snoc.prems(3) have "\<not> list_ex (parked_in (snd ?w)) (nd_dependsOn m)"
      by (auto simp: block_step_self split: if_splits)
    with True snoc.prems(4) m_deps old show ?thesis by (auto simp: list_ex_iff)
  next
    case False
    with snoc.prems(2) have n: "n \<in> set ns" by simp
    with m_new have "nd_id n \<noteq> nd_id m" by (metis imageI)
    with snoc.prems(3) have "status_of (snd ?w) (nd_id n) = Some Pending"
      by (simp add: status_of_def block_step_other)
    with snoc.IH [OF top n] snoc.prems(4) topological_deps [OF top n] old show ?thesis by auto
  qed
qed

text \<open>
  After one pass over a contract that lists every node after its dependencies, nothing is
  left waiting for a parked node: a node still pending depends on no parked one, directly or
  through a chain of dependants blocked in the same pass.
\<close>

theorem block_dependents_complete:
  assumes "topological [] (ct_nodes contract)" and "n \<in> set (ct_nodes contract)"
    and "status_of (snd (blockDependents contract w now)) (nd_id n) = Some Pending"
  shows "\<forall>d \<in> set (nd_dependsOn n). \<not> parked_in (snd (blockDependents contract w now)) d"
  using block_pass_no_pending_dependant [OF assms(1,2), of now w] assms(3)
  by (simp add: blockDependents_def)

definition chain_contract :: contract where
  "chain_contract = sample_contract False
     [sample_node ''a'' [] None None, sample_node ''b'' [''a''] None None,
      sample_node ''c'' [''b''] None None, sample_node ''d'' [] None None,
      sample_node ''e'' [''d''] None None]"

definition chain_states :: states where
  "chain_states = [(''a'', sample_snapshot ''a'' Failed Ph_worker),
     (''b'', sample_snapshot ''b'' Pending Ph_waiting), (''c'', sample_snapshot ''c'' Pending Ph_waiting),
     (''d'', sample_snapshot ''d'' Done Ph_complete), (''e'', sample_snapshot ''e'' Pending Ph_waiting)]"

theorem block_dependents_complete_witness:
  "status_of (snd (blockDependents chain_contract (sample_run_dir, chain_states) 1)) ''e'' =
     Some Pending \<and>
   status_of (snd (blockDependents chain_contract (sample_run_dir, chain_states) 1)) ''c'' =
     Some Blocked \<and>
   \<not> parked_in (snd (blockDependents chain_contract (sample_run_dir, chain_states) 1)) ''d''"
proof -
  have run: "status_of (snd (blockDependents chain_contract (sample_run_dir, chain_states) 1)) ''e'' =
      Some Pending"
    "status_of (snd (blockDependents chain_contract (sample_run_dir, chain_states) 1)) ''c'' =
      Some Blocked"
    by code_simp+
  have "topological [] (ct_nodes chain_contract)" by code_simp
  moreover have "sample_node ''e'' [''d''] None None \<in> set (ct_nodes chain_contract)"
    by (simp add: chain_contract_def sample_contract_def)
  ultimately show ?thesis
    using block_dependents_complete [of chain_contract "sample_node ''e'' [''d''] None None"
        "(sample_run_dir, chain_states)" 1] run
    by (simp add: sample_node_def)
qed

section \<open>A node running with no job\<close>

definition enforce_step :: "holders \<Rightarrow> string list \<Rightarrow> int \<Rightarrow> string \<times> snapshot
    \<Rightarrow> world \<times> string list \<Rightarrow> world \<times> string list" where
  "enforce_step running pendingSettlements now e acc =
     (if ns_status (snd e) \<noteq> Running \<or> map_of running (fst e) \<noteq> None \<or>
         fst e \<in> set pendingSettlements
      then acc
      else (transition_in (fst acc) (fst e) Blocked
              (\<lambda>s. s\<lparr>ns_error := Some (mk_error ''integration_unresolved''
                 ''node is running but the controller holds no invocation for it'')\<rparr>) now,
            snd acc @ [fst e]))"

definition enforceRunningInvariant ::
  "world \<Rightarrow> holders \<Rightarrow> string list \<Rightarrow> int \<Rightarrow> world \<times> string list" where
  "enforceRunningInvariant w running pendingSettlements now =
     fold (enforce_step running pendingSettlements now) (snd w) (w, [])"

section \<open>The one automatic retry\<close>

definition AUTO_RETRY_CODES :: "string list" where
  "AUTO_RETRY_CODES =
     [''judge_unavailable'', ''provider_error'', ''incomplete_stream'', ''stall_timeout'',
      ''wall_clock_timeout'', ''turn_limit'']"

definition AUTO_RETRY_TIMEOUT_CODES :: "string list" where
  "AUTO_RETRY_TIMEOUT_CODES = [''stall_timeout'', ''wall_clock_timeout'']"

definition autoRetryConsumed :: "run_dir \<Rightarrow> string \<Rightarrow> bool" where
  "autoRetryConsumed rd nodeId = (map_of (rd_autoRetries rd) nodeId \<noteq> None)"

definition consumeAutoRetry :: "run_dir \<Rightarrow> string \<Rightarrow> string \<Rightarrow> int \<Rightarrow> run_dir" where
  "consumeAutoRetry rd nodeId code now =
     rd\<lparr>rd_autoRetries := AList.update nodeId (code, Iso now) (rd_autoRetries rd)\<rparr>"

definition carriesQuotaReset :: "snapshot \<Rightarrow> bool" where
  "carriesQuotaReset state =
     (Option.bind (ns_error state) er_exhaustedUntil \<noteq> None \<or>
      (case Option.bind (ns_routing state) ro_tierExhaustion of
         None \<Rightarrow> False
       | Some te \<Rightarrow> list_ex (\<lambda>c. tc_exhaustedUntil c \<noteq> None) (te_candidates te)))"

definition attemptSealIsNonEmpty :: "snapshot \<Rightarrow> bool" where
  "attemptSealIsNonEmpty state =
     (case Option.bind (ns_worktree state) wt_sealedSha of None \<Rightarrow> False | Some sha \<Rightarrow> sha \<noteq> [])"

text \<open>The node re-opened, or \<open>None\<close> when it keeps its state.\<close>

definition autoRetryNode ::
  "run_dir \<Rightarrow> snapshot \<Rightarrow> string option \<Rightarrow> int \<Rightarrow> (run_dir \<times> snapshot) option" where
  "autoRetryNode rd state code now =
     (case orelse code (map_option er_code (ns_error state)) of
        None \<Rightarrow> None
      | Some failureCode \<Rightarrow>
          if failureCode \<notin> set AUTO_RETRY_CODES then None
          else if autoRetryConsumed rd (ns_id state) then None
          else if carriesQuotaReset state then None
          else if failureCode \<in> set AUTO_RETRY_TIMEOUT_CODES \<and> \<not> attemptSealIsNonEmpty state then None
          else (let rd1 = consumeAutoRetry rd (ns_id state) failureCode now;
                    role = (if ns_phase state = Ph_judge then Judge else Worker);
                    (rd2, state') = transition rd1 state Pending
                      (\<lambda>s. s\<lparr>ns_phase := role_phase role, ns_error := None, ns_blockedBy := []\<rparr>) now
                in Some (appendTransitionEvent rd2 state' (ns_status state) Pending
                           (Det_auto_retry failureCode role), state')))"

definition retry_step :: "string list \<Rightarrow> int \<Rightarrow> node \<Rightarrow> world \<Rightarrow> world" where
  "retry_step previouslyParked now node w =
     (case map_of (snd w) (nd_id node) of
        None \<Rightarrow> w
      | Some state \<Rightarrow>
          if \<not> PARKED (ns_status state) \<or> nd_id node \<in> set previouslyParked then w
          else (case autoRetryNode (fst w) state None now of
                  None \<Rightarrow> w
                | Some (rd', state') \<Rightarrow> (rd', AList.update (nd_id node) state' (snd w))))"

definition autoRetryParkedNodes :: "contract \<Rightarrow> world \<Rightarrow> string list \<Rightarrow> int \<Rightarrow> world" where
  "autoRetryParkedNodes contract w previouslyParked now =
     fold (retry_step previouslyParked now) (ct_nodes contract) w"

lemma transition_autoRetries [frame_simps]:
  "rd_autoRetries (fst (transition rd s st patch now)) = rd_autoRetries rd"
  by (auto simp: transition_def transition_write_def transition_record_def settle_open_def
      appendTransitionEvent_def writeNode_def Let_def nullish_def split: option.splits dest!: settle_frame)

lemma autoRetryNode_Some:
  assumes "autoRetryNode rd state code now = Some (rd', state')"
  shows "\<exists>failureCode. orelse code (map_option er_code (ns_error state)) = Some failureCode \<and>
      failureCode \<in> set AUTO_RETRY_CODES \<and>
      (failureCode \<in> set AUTO_RETRY_TIMEOUT_CODES \<longrightarrow> attemptSealIsNonEmpty state)"
    and "\<not> autoRetryConsumed rd (ns_id state)" and "\<not> carriesQuotaReset state"
    and "map fst (rd_autoRetries rd') = map fst (rd_autoRetries rd) @ [ns_id state]"
    and "state' = state\<lparr>ns_status := Pending, ns_updatedAt := Some (Iso now),
           ns_phase := role_phase (if ns_phase state = Ph_judge then Judge else Worker),
           ns_error := None, ns_blockedBy := []\<rparr>"
proof -
  from assms obtain failureCode where code: "orelse code (map_option er_code (ns_error state)) = Some failureCode"
    by (auto simp: autoRetryNode_def split: option.splits)
  let ?rd = "consumeAutoRetry rd (ns_id state) failureCode now"
  let ?patch = "\<lambda>s. s\<lparr>ns_phase := role_phase (if ns_phase state = Ph_judge then Judge else Worker),
    ns_error := None, ns_blockedBy := []\<rparr>"
  let ?t = "transition ?rd state Pending ?patch now"
  from assms code have guards: "failureCode \<in> set AUTO_RETRY_CODES"
      "\<not> autoRetryConsumed rd (ns_id state)" "\<not> carriesQuotaReset state"
      "failureCode \<in> set AUTO_RETRY_TIMEOUT_CODES \<longrightarrow> attemptSealIsNonEmpty state"
    and result: "state' = snd ?t" "rd_autoRetries rd' = rd_autoRetries (fst ?t)"
    by (auto simp: autoRetryNode_def Let_def appendTransitionEvent_def split: if_splits prod.splits)
  show "\<exists>failureCode. orelse code (map_option er_code (ns_error state)) = Some failureCode \<and>
      failureCode \<in> set AUTO_RETRY_CODES \<and>
      (failureCode \<in> set AUTO_RETRY_TIMEOUT_CODES \<longrightarrow> attemptSealIsNonEmpty state)"
    using code guards by blast
  show "\<not> autoRetryConsumed rd (ns_id state)" "\<not> carriesQuotaReset state" by (fact guards)+
  have "ns_id state \<notin> fst ` set (rd_autoRetries rd)"
    using guards(2) by (simp add: autoRetryConsumed_def map_of_eq_None_iff)
  then show "map fst (rd_autoRetries rd') = map fst (rd_autoRetries rd) @ [ns_id state]"
    by (simp add: result(2) frame_simps consumeAutoRetry_def update_keys)
  show "state' = state\<lparr>ns_status := Pending, ns_updatedAt := Some (Iso now),
           ns_phase := role_phase (if ns_phase state = Ph_judge then Judge else Worker),
           ns_error := None, ns_blockedBy := []\<rparr>"
    by (simp add: result(1) frame_simps)
qed

text \<open>
  The retries granted over a run's life: every request, by any node, with any code, in any order
  and by any controller, against the durable record; the ids retried, in order.
\<close>

fun granted_retries :: "run_dir \<Rightarrow> (snapshot \<times> string option \<times> int) list \<Rightarrow> string list" where
  "granted_retries rd [] = []"
| "granted_retries rd ((state, code, now) # requests) =
     (case autoRetryNode rd state code now of
        None \<Rightarrow> granted_retries rd requests
      | Some (rd', state') \<Rightarrow> ns_id state # granted_retries rd' requests)"

text \<open>
  A node gets at most one automatic retry in its life, however many times it parks and
  whatever controller asks, and a retried node comes back pending in the role it was in with its
  routing, its revision count and its attempt untouched.
\<close>

theorem auto_retry_at_most_once:
  "distinct (granted_retries rd requests) \<and>
   set (granted_retries rd requests) \<inter> fst ` set (rd_autoRetries rd) = {} \<and>
   (\<forall>rd' state'. autoRetryNode rd state code now = Some (rd', state') \<longrightarrow>
      ns_status state' = Pending \<and> ns_routing state' = ns_routing state \<and>
      ns_revisions state' = ns_revisions state \<and> ns_attempt state' = ns_attempt state)"
proof -
  have "distinct (granted_retries rd requests) \<and>
      set (granted_retries rd requests) \<inter> fst ` set (rd_autoRetries rd) = {}"
  proof (induction rd requests rule: granted_retries.induct)
    case (2 rd s c n requests)
    show ?case
    proof (cases "autoRetryNode rd s c n")
      case None
      with 2 show ?thesis by simp
    next
      case (Some p)
      then obtain rd' s' where p: "autoRetryNode rd s c n = Some (rd', s')" by (cases p) auto
      note facts = autoRetryNode_Some [OF p]
      from facts(4) have keys: "fst ` set (rd_autoRetries rd') = insert (ns_id s) (fst ` set (rd_autoRetries rd))"
        by (metis Un_insert_right list.set(1) list.set(2) list.set_map set_append sup_bot.right_neutral)
      have "ns_id s \<notin> fst ` set (rd_autoRetries rd)"
        using facts(2) by (simp add: autoRetryConsumed_def map_of_eq_None_iff)
      with 2(2) [OF p refl] keys p show ?thesis by auto
    qed
  qed simp
  moreover have "ns_status state' = Pending \<and> ns_routing state' = ns_routing state \<and>
      ns_revisions state' = ns_revisions state \<and> ns_attempt state' = ns_attempt state"
    if "autoRetryNode rd state code now = Some (rd', state')" for rd' state'
    using autoRetryNode_Some(5) [OF that] by simp
  ultimately show ?thesis by blast
qed

theorem auto_retry_at_most_once_witness:
  "\<exists>rd' state'. autoRetryNode sample_run_dir (sample_snapshot ''a'' Failed Ph_worker)
      (Some ''provider_error'') 1 = Some (rd', state') \<and> ns_status state' = Pending"
proof -
  have "map_option (\<lambda>p. ns_id (snd p)) (autoRetryNode sample_run_dir
      (sample_snapshot ''a'' Failed Ph_worker) (Some ''provider_error'') 1) = Some ''a''"
    by code_simp
  then obtain rd' state' where "autoRetryNode sample_run_dir (sample_snapshot ''a'' Failed Ph_worker)
      (Some ''provider_error'') 1 = Some (rd', state')"
    by auto
  with auto_retry_at_most_once [of sample_run_dir "[]" "sample_snapshot ''a'' Failed Ph_worker"
      "Some ''provider_error''" 1]
  show ?thesis by blast
qed

section \<open>Dispatch\<close>

definition ready_nodes :: "contract \<Rightarrow> states \<Rightarrow> string list \<Rightarrow> node list" where
  "ready_nodes contract states pendingSettlements =
     filter (\<lambda>node. status_of states (nd_id node) = Some Pending \<and>
               nd_id node \<notin> set pendingSettlements \<and>
               list_all (\<lambda>i. status_of states i = Some Done) (nd_dependsOn node))
       (ct_nodes contract)"

definition human_step_pass :: "node list \<Rightarrow> world \<Rightarrow> int \<Rightarrow> world" where
  "human_step_pass ready w now =
     fold (\<lambda>node w. case nd_humanStep node of
             None \<Rightarrow> w
           | Some h \<Rightarrow> transition_in w (nd_id node) Blocked
               (\<lambda>s. s\<lparr>ns_phase := Ph_complete,
                      ns_error := Some (mk_error HUMAN_STEP_ERROR_CODE
                        (humanStepAttentionMessage h))\<rparr>) now)
       ready w"

text \<open>
  What is started: a worker on the node's own prompt, or on the retry prompt built from the
  verdict that refused the last attempt; or the judge of an attempt whose result is durable.
\<close>

datatype start_kind = Start_worker | Start_worker_retry gate_result | Start_judge worker_result

record dispatch =
  di_node :: string
  di_runtime :: string
  di_kind :: start_kind

definition start_kind_of :: "snapshot \<Rightarrow> start_kind" where
  "start_kind_of state =
     (case (ns_phase state, ns_result state) of
        (Ph_judge, Some r) \<Rightarrow> Start_judge r
      | _ \<Rightarrow> (case ns_gate state of
               Some g \<Rightarrow> if gr_verdict g = V_fail then Start_worker_retry g else Start_worker
             | None \<Rightarrow> Start_worker))"

definition count_attempt :: "start_kind \<Rightarrow> snapshot \<Rightarrow> snapshot" where
  "count_attempt kind state =
     (case kind of Start_judge _ \<Rightarrow> state | _ \<Rightarrow> state\<lparr>ns_attempt := ns_attempt state + 1\<rparr>)"

definition phase_role :: "phase \<Rightarrow> role" where
  "phase_role ph = (if ph = Ph_judge then Judge else Worker)"

text \<open>
  The loop over the dispatchable nodes. A node routed to a runtime the contract does not declare
  raises an error, which ends the run: \<open>None\<close>.
\<close>

fun dispatch_loop ::
  "contract \<Rightarrow> int \<Rightarrow> node list \<Rightarrow> nat \<Rightarrow> admission \<Rightarrow> states \<Rightarrow> (dispatch list \<times> states) option" where
  "dispatch_loop contract now [] dispatched ad states = Some ([], states)"
| "dispatch_loop contract now (node # nodes) dispatched ad states =
     (if int dispatched \<ge> ad_slots ad then Some ([], states)
      else case map_of states (nd_id node) of
             None \<Rightarrow> dispatch_loop contract now nodes dispatched ad states
           | Some state \<Rightarrow>
               if routingBackoffActive (ns_routing state) (ns_phase state) now
               then dispatch_loop contract now nodes dispatched ad states
               else (case routeRuntimeForState contract node state (phase_role (ns_phase state)) now of
                       None \<Rightarrow> None
                     | Some routed \<Rightarrow>
                         (case admission_take contract ad (fst routed) of
                            None \<Rightarrow> dispatch_loop contract now nodes dispatched ad states
                          | Some ad' \<Rightarrow>
                              (let kind = start_kind_of state
                               in map_option
                                    (\<lambda>p. (\<lparr>di_node = nd_id node, di_runtime = fst routed,
                                           di_kind = kind\<rparr> # fst p, snd p))
                                    (dispatch_loop contract now nodes (dispatched + 1) ad'
                                      (AList.update (nd_id node) (count_attempt kind state) states))))))"

definition dispatch_pass ::
  "contract \<Rightarrow> states \<Rightarrow> holders \<Rightarrow> holders \<Rightarrow> string list \<Rightarrow> int
    \<Rightarrow> (dispatch list \<times> states) option" where
  "dispatch_pass contract states running settling pendingSettlements now =
     (let ready = ready_nodes contract states pendingSettlements;
          ad = admissionPass contract running settling states now
      in if ad_slots ad > 0
         then dispatch_loop contract now (filter (\<lambda>n. nd_humanStep n = None) ready) 0 ad states
         else Some ([], states))"

section \<open>What a dispatch guarantees\<close>

lemma dispatch_loop_sound:
  assumes "dispatch_loop contract now nodes dispatched ad states = Some (ds, states')"
    and "int dispatched \<le> ad_slots ad"
  shows "int dispatched + int (length ds) \<le> ad_slots ad \<and>
    (\<forall>d \<in> set ds. \<exists>n \<in> set nodes. nd_id n = di_node d) \<and>
    (\<forall>d \<in> set ds. di_runtime d \<notin> set (ad_held ad)) \<and>
    (\<forall>rt i limit. runtime_of contract i = Some rt \<longrightarrow> rt_maxConcurrent rt = Some limit \<longrightarrow>
       (\<exists>d \<in> set ds. di_runtime d = i) \<longrightarrow>
       count_of (ad_perRuntime ad) i + length (filter (\<lambda>d. di_runtime d = i) ds) \<le> limit)"
  using assms
proof (induction nodes arbitrary: dispatched ad states ds)
  case Nil
  then show ?case by auto
next
  case (Cons n ns)
  show ?case
  proof (cases "int dispatched \<ge> ad_slots ad")
    case True
    with Cons.prems show ?thesis by auto
  next
    case room: False
    have skip: ?thesis if "dispatch_loop contract now ns dispatched ad states = Some (ds, states')"
      using Cons.IH [OF that Cons.prems(2)] by auto
    show ?thesis
    proof (cases "map_of states (nd_id n)")
      case None
      with room Cons.prems(1) show ?thesis by (intro skip) simp
    next
      case (Some state)
      show ?thesis
      proof (cases "routingBackoffActive (ns_routing state) (ns_phase state) now")
        case True
        with room Some Cons.prems(1) show ?thesis by (intro skip) simp
      next
        case False
        with room Some Cons.prems(1) obtain routed where
          routed: "routeRuntimeForState contract n state (phase_role (ns_phase state)) now = Some routed"
          by (auto split: option.splits)
        show ?thesis
        proof (cases "admission_take contract ad (fst routed)")
          case None
          with room Some False routed Cons.prems(1) show ?thesis by (intro skip) simp
        next
          case taken: (Some ad')
          let ?st = "AList.update (nd_id n) (count_attempt (start_kind_of state) state) states"
          from taken room Some False routed Cons.prems(1) obtain ds' where
            rest: "dispatch_loop contract now ns (dispatched + 1) ad' ?st = Some (ds', states')"
            and ds: "ds = \<lparr>di_node = nd_id n, di_runtime = fst routed, di_kind = start_kind_of state\<rparr> # ds'"
            by (auto simp: Let_def)
          from taken have ad': "ad' = ad\<lparr>ad_perRuntime := bump (fst routed) (ad_perRuntime ad)\<rparr>"
            and cap: "runtimeHasCapacity (fst routed) contract (ad_perRuntime ad) (ad_held ad)"
            by (auto simp: admission_take_def split: if_splits)
          have "int (dispatched + 1) \<le> ad_slots ad'" using room by (simp add: ad')
          note IH = Cons.IH [OF rest this]
          have limits: "count_of (ad_perRuntime ad) i + length (filter (\<lambda>d. di_runtime d = i) ds) \<le> limit"
            if "runtime_of contract i = Some rt" "rt_maxConcurrent rt = Some limit"
              "\<exists>d \<in> set ds. di_runtime d = i" for rt i limit
          proof (cases "\<exists>d \<in> set ds'. di_runtime d = i")
            case True
            with IH that have "count_of (bump (fst routed) (ad_perRuntime ad)) i +
                length (filter (\<lambda>d. di_runtime d = i) ds') \<le> limit"
              by (simp add: ad')
            then show ?thesis by (auto simp: ds count_of_bump split: if_splits)
          next
            case False
            with that(3) have "fst routed = i" by (auto simp: ds)
            with cap that False show ?thesis
              by (auto simp: ds runtimeHasCapacity_def filter_empty_conv)
          qed
          have "di_runtime d \<notin> set (ad_held ad)" if "d \<in> set ds" for d
            using that IH cap by (auto simp: ds ad' runtimeHasCapacity_def)
          moreover have "int dispatched + int (length ds) \<le> ad_slots ad \<and>
              (\<forall>d \<in> set ds. \<exists>m \<in> set (n # ns). nd_id m = di_node d)"
            using IH by (auto simp: ds ad')
          ultimately show ?thesis using limits by blast
        qed
      qed
    qed
  qed
qed

lemma not_capacity_mono:
  "\<not> runtimeHasCapacity i contract counts held \<Longrightarrow>
     \<not> runtimeHasCapacity i contract (fold bump xs counts) held"
  by (auto simp: runtimeHasCapacity_def count_of_fold split: option.splits)

text \<open>Why a dispatchable node was passed over.\<close>

definition held_back ::
  "contract \<Rightarrow> int \<Rightarrow> states \<Rightarrow> admission \<Rightarrow> dispatch list \<Rightarrow> node \<Rightarrow> bool" where
  "held_back contract now states ad ds n \<longleftrightarrow>
     (\<forall>state. map_of states (nd_id n) = Some state \<longrightarrow>
        routingBackoffActive (ns_routing state) (ns_phase state) now \<or>
        (\<exists>routed. routeRuntimeForState contract n state (phase_role (ns_phase state)) now = Some routed \<and>
           \<not> runtimeHasCapacity (fst routed) contract
               (fold bump (map di_runtime ds) (ad_perRuntime ad)) (ad_held ad)))"

lemma dispatch_loop_complete:
  assumes "dispatch_loop contract now nodes dispatched ad states = Some (ds, states')"
    and "distinct (map nd_id nodes)" and "int dispatched + int (length ds) < ad_slots ad"
    and "n \<in> set nodes"
  shows "(\<exists>d \<in> set ds. di_node d = nd_id n) \<or> held_back contract now states ad ds n"
  using assms
proof (induction nodes arbitrary: dispatched ad states ds)
  case Nil
  then show ?case by simp
next
  case (Cons m ns)
  from Cons.prems(3) have room: "\<not> int dispatched \<ge> ad_slots ad" by simp
  have skip: ?case if "dispatch_loop contract now ns dispatched ad states = Some (ds, states')"
    and "held_back contract now states ad ds m"
    using Cons.IH [OF that(1)] Cons.prems(2-4) that(2) by auto
  show ?case
  proof (cases "map_of states (nd_id m)")
    case None
    with room Cons.prems(1) show ?thesis by (intro skip) (simp_all add: held_back_def)
  next
    case (Some state)
    show ?thesis
    proof (cases "routingBackoffActive (ns_routing state) (ns_phase state) now")
      case True
      with room Some Cons.prems(1) show ?thesis by (intro skip) (simp_all add: held_back_def)
    next
      case False
      with room Some Cons.prems(1) obtain routed where
        routed: "routeRuntimeForState contract m state (phase_role (ns_phase state)) now = Some routed"
        by (auto split: option.splits)
      show ?thesis
      proof (cases "admission_take contract ad (fst routed)")
        case None
        then have "\<not> runtimeHasCapacity (fst routed) contract (ad_perRuntime ad) (ad_held ad)"
          by (simp add: admission_take_def split: if_splits)
        then have "held_back contract now states ad ds m"
          using Some routed
            not_capacity_mono [of "fst routed" contract "ad_perRuntime ad" "ad_held ad" "map di_runtime ds"]
          by (cases routed) (simp add: held_back_def)
        with None room Some False routed Cons.prems(1) show ?thesis by (intro skip) simp_all
      next
        case taken: (Some ad')
        let ?st = "AList.update (nd_id m) (count_attempt (start_kind_of state) state) states"
        from taken room Some False routed Cons.prems(1) obtain ds' where
          rest: "dispatch_loop contract now ns (dispatched + 1) ad' ?st = Some (ds', states')"
          and ds: "ds = \<lparr>di_node = nd_id m, di_runtime = fst routed, di_kind = start_kind_of state\<rparr> # ds'"
          by (auto simp: Let_def)
        from taken have ad': "ad' = ad\<lparr>ad_perRuntime := bump (fst routed) (ad_perRuntime ad)\<rparr>"
          by (auto simp: admission_take_def split: if_splits)
        show ?thesis
        proof (cases "n = m")
          case True
          then show ?thesis by (simp add: ds)
        next
          case False
          with Cons.prems(4) have n: "n \<in> set ns" by simp
          with Cons.prems(2) have other: "nd_id m \<noteq> nd_id n" by (metis distinct.simps(2) imageI list.set_map list.simps(9))
          have "(\<exists>d \<in> set ds'. di_node d = nd_id n) \<or> held_back contract now ?st ad' ds' n"
            using Cons.prems(2,3) by (intro Cons.IH [OF rest _ _ n]) (auto simp: ds ad')
          with other show ?thesis by (auto simp: ds ad' held_back_def update_conv')
        qed
      qed
    qed
  qed
qed

text \<open>
  C17. No tick ever oversubscribes the run: with what already runs or settles, the attempts it
  starts fit in \<open>maxParallel\<close>, no runtime it starts one on is taken over its own limit, none is
  started on a runtime waiting out a quota, and every node started is pending with all its
  dependencies done, is not settling and is not a human step.
\<close>

theorem dispatch_within_bounds:
  assumes "dispatch_pass contract states running settling pendingSettlements now = Some (ds, states')"
  shows "(ds \<noteq> [] \<longrightarrow> int (length running + length settling + length ds) \<le> ct_maxParallel contract) \<and>
    (\<forall>d \<in> set ds. di_runtime d \<notin> set (quotaHeldRuntimes (map snd states) now)) \<and>
    (\<forall>i rt limit. runtime_of contract i = Some rt \<longrightarrow> rt_maxConcurrent rt = Some limit \<longrightarrow>
       (\<exists>d \<in> set ds. di_runtime d = i) \<longrightarrow>
       count_list (map snd running @ map snd settling) i + length (filter (\<lambda>d. di_runtime d = i) ds)
         \<le> limit) \<and>
    (\<forall>d \<in> set ds. \<exists>n \<in> set (ct_nodes contract). nd_id n = di_node d \<and> nd_humanStep n = None \<and>
       status_of states (nd_id n) = Some Pending \<and> nd_id n \<notin> set pendingSettlements \<and>
       (\<forall>i \<in> set (nd_dependsOn n). status_of states i = Some Done))"
proof (cases "ad_slots (admissionPass contract running settling states now) > 0")
  case False
  with assms show ?thesis by (simp add: dispatch_pass_def Let_def)
next
  case True
  let ?ad = "admissionPass contract running settling states now"
  let ?ns = "filter (\<lambda>n. nd_humanStep n = None) (ready_nodes contract states pendingSettlements)"
  have "dispatch_loop contract now ?ns 0 ?ad states = Some (ds, states')"
    using True assms by (simp add: dispatch_pass_def Let_def)
  note sound = dispatch_loop_sound [OF this]
  have ad: "ad_slots ?ad = ct_maxParallel contract - int (length running + length settling)"
    "ad_held ?ad = quotaHeldRuntimes (map snd states) now"
    "count_of (ad_perRuntime ?ad) i = count_list (map snd running @ map snd settling) i" for i
    by (simp_all add: admissionPass_def admissionHold_def Let_def runningPerRuntime_count)
  have "\<exists>n \<in> set (ct_nodes contract). nd_id n = di_node d \<and> nd_humanStep n = None \<and>
       status_of states (nd_id n) = Some Pending \<and> nd_id n \<notin> set pendingSettlements \<and>
       (\<forall>i \<in> set (nd_dependsOn n). status_of states i = Some Done)" if "d \<in> set ds" for d
  proof -
    from sound True that obtain n where "n \<in> set ?ns" "nd_id n = di_node d" by auto
    then show ?thesis by (auto simp: ready_nodes_def list_all_iff)
  qed
  moreover have "int (length running + length settling + length ds) \<le> ct_maxParallel contract"
    using sound True by (simp add: ad(1))
  ultimately show ?thesis using sound True by (simp add: ad(2,3))
qed

text \<open>
  C18. Dispatch is work-conserving: a ready node that is not a human step is either started, or
  every slot is taken, or the node's own backoff is still open, or the runtime it is routed to
  has no place left or is waiting out a quota.
\<close>

theorem dispatch_work_conserving:
  assumes "dispatch_pass contract states running settling pendingSettlements now = Some (ds, states')"
    and "distinct (map nd_id (ct_nodes contract))"
    and "n \<in> set (ready_nodes contract states pendingSettlements)" and "nd_humanStep n = None"
  shows "(\<exists>d \<in> set ds. di_node d = nd_id n) \<or>
    int (length running + length settling + length ds) \<ge> ct_maxParallel contract \<or>
    held_back contract now states (admissionPass contract running settling states now) ds n"
proof -
  let ?ad = "admissionPass contract running settling states now"
  have slots: "ad_slots ?ad = ct_maxParallel contract - int (length running + length settling)"
    by (simp add: admissionPass_def admissionHold_def Let_def)
  show ?thesis
  proof (cases "int (length running + length settling + length ds) \<ge> ct_maxParallel contract")
    case False
    have "ad_slots ?ad > 0" using False by (simp add: slots)
    then have run: "dispatch_loop contract now
        (filter (\<lambda>n. nd_humanStep n = None) (ready_nodes contract states pendingSettlements)) 0 ?ad states
        = Some (ds, states')"
      using assms(1) by (simp add: dispatch_pass_def Let_def)
    have "distinct (map nd_id (filter (\<lambda>n. nd_humanStep n = None)
        (ready_nodes contract states pendingSettlements)))"
      using assms(2) by (simp add: ready_nodes_def distinct_map_filter)
    from dispatch_loop_complete [OF run this _] False assms(3,4) show ?thesis
      by (simp add: slots)
  qed simp
qed

definition idle_states :: states where
  "idle_states = [(''a'', sample_snapshot ''a'' Done Ph_complete),
     (''b'', sample_snapshot ''b'' Pending Ph_waiting), (''c'', sample_snapshot ''c'' Pending Ph_waiting)]"

definition diamond_contract :: contract where
  "diamond_contract = sample_contract False
     [sample_node ''a'' [] (Some ''gpt'') None, sample_node ''b'' [''a''] (Some ''gpt'') None,
      sample_node ''c'' [''a''] (Some ''gpt'') None]"

lemma diamond_dispatch:
  "\<exists>states'. dispatch_pass diamond_contract idle_states [] [] [] 0 =
     Some ([\<lparr>di_node = ''b'', di_runtime = ''gpt'', di_kind = Start_worker\<rparr>], states')"
proof -
  have "map_option fst (dispatch_pass diamond_contract idle_states [] [] [] 0) =
      Some [\<lparr>di_node = ''b'', di_runtime = ''gpt'', di_kind = Start_worker\<rparr>]"
    by code_simp
  then show ?thesis by auto
qed

theorem dispatch_within_bounds_witness:
  "\<exists>ds states'. dispatch_pass diamond_contract idle_states [] [] [] 0 = Some (ds, states') \<and>
     ds \<noteq> [] \<and> int (length ds) \<le> ct_maxParallel diamond_contract"
proof -
  from diamond_dispatch obtain states' where
    run: "dispatch_pass diamond_contract idle_states [] [] [] 0 =
      Some ([\<lparr>di_node = ''b'', di_runtime = ''gpt'', di_kind = Start_worker\<rparr>], states')" by blast
  from dispatch_within_bounds [OF run] run show ?thesis by auto
qed

theorem dispatch_work_conserving_witness:
  "\<exists>ds states'. dispatch_pass diamond_contract idle_states [] [] [] 0 = Some (ds, states') \<and>
     held_back diamond_contract 0 idle_states (admissionPass diamond_contract [] [] idle_states 0) ds
       (sample_node ''c'' [''a''] (Some ''gpt'') None)"
proof -
  from diamond_dispatch obtain states' where
    run: "dispatch_pass diamond_contract idle_states [] [] [] 0 =
      Some ([\<lparr>di_node = ''b'', di_runtime = ''gpt'', di_kind = Start_worker\<rparr>], states')" by blast
  have ids: "distinct (map nd_id (ct_nodes diamond_contract))"
    by (simp add: diamond_contract_def sample_defs)
  have "ready_nodes diamond_contract idle_states [] =
      [sample_node ''b'' [''a''] (Some ''gpt'') None, sample_node ''c'' [''a''] (Some ''gpt'') None]"
    by (simp add: ready_nodes_def diamond_contract_def sample_contract_def idle_states_def
        status_of_def sample_node_def sample_snapshot_def)
  then have ready: "sample_node ''c'' [''a''] (Some ''gpt'') None \<in>
      set (ready_nodes diamond_contract idle_states [])" by simp
  have "ct_maxParallel diamond_contract = 2" "nd_id (sample_node ''c'' [''a''] (Some ''gpt'') None) = ''c''"
    "nd_humanStep (sample_node ''c'' [''a''] (Some ''gpt'') None) = None"
    by (simp_all add: diamond_contract_def sample_contract_def sample_node_def)
  with dispatch_work_conserving [OF run ids ready] run show ?thesis by simp
qed

end
