(* ===== verification/Retry.thy ===== *)
theory Retry
  imports Judge_Gate Scheduler
begin

text \<open>
  What a resume does with each node, and the evidence a retried attempt carries:
  \<open>src/engine/retry.mjs\<close>, with the generation bump of \<open>src/engine/resume.mjs\<close>.
\<close>

section \<open>Which nodes a retry is about\<close>

definition grow_node :: "node \<Rightarrow> string list \<Rightarrow> string list" where
  "grow_node node targets =
     (if nd_id node \<in> set targets then targets
      else if list_ex (\<lambda>d. d \<in> set targets) (nd_dependsOn node) then targets @ [nd_id node]
      else targets)"

definition grow_pass :: "node list \<Rightarrow> string list \<Rightarrow> string list" where
  "grow_pass nodes targets = fold grow_node nodes targets"

lemma grow_node_extends: "\<exists>ext. grow_node n ts = ts @ ext \<and> set ext \<subseteq> {nd_id n} - set ts"
  by (auto simp: grow_node_def)

lemma grow_pass_extends:
  "\<exists>ext. grow_pass nodes ts = ts @ ext \<and> set ext \<subseteq> nd_id ` set nodes - set ts"
  unfolding grow_pass_def
proof (induction nodes arbitrary: ts)
  case Nil
  then show ?case by simp
next
  case (Cons n ns)
  obtain e where e: "grow_node n ts = ts @ e" "set e \<subseteq> {nd_id n} - set ts"
    using grow_node_extends by blast
  obtain f where "fold grow_node ns (ts @ e) = (ts @ e) @ f" "set f \<subseteq> nd_id ` set ns - set (ts @ e)"
    using Cons by blast
  with e show ?case by (intro exI [of _ "e @ f"]) auto
qed

text \<open>The outer loop: another pass as long as the last one added a node.\<close>

function retry_loop :: "node list \<Rightarrow> string list \<Rightarrow> string list" where
  "retry_loop nodes targets =
     (let grown = grow_pass nodes targets
      in if grown = targets then targets else retry_loop nodes grown)"
  by pat_completeness auto
termination
proof (relation "measure (\<lambda>(nodes, targets). card (nd_id ` set nodes - set targets))")
  fix nodes :: "node list" and targets grown
  assume grown: "grown = grow_pass nodes targets" "grown \<noteq> targets"
  obtain ext where ext: "grow_pass nodes targets = targets @ ext"
    "set ext \<subseteq> nd_id ` set nodes - set targets"
    using grow_pass_extends by blast
  with grown obtain x where "x \<in> set ext" by (cases ext) auto
  with ext grown have "nd_id ` set nodes - set grown \<subset> nd_id ` set nodes - set targets" by auto
  then show "((nodes, grown), (nodes, targets)) \<in>
      measure (\<lambda>(nodes, targets). card (nd_id ` set nodes - set targets))"
    by (simp add: psubset_card_mono)
qed simp

declare retry_loop.simps [simp del]

definition retryTargets :: "node list \<Rightarrow> string \<Rightarrow> string list" where
  "retryTargets planNodes nodeId = retry_loop planNodes [nodeId]"

text \<open>A node that waits, directly or through others, for the node named.\<close>

inductive waits_for :: "node list \<Rightarrow> string \<Rightarrow> string \<Rightarrow> bool" for nodes where
  itself: "waits_for nodes i i"
| dependant: "n \<in> set nodes \<Longrightarrow> d \<in> set (nd_dependsOn n) \<Longrightarrow> waits_for nodes d i \<Longrightarrow>
    waits_for nodes (nd_id n) i"

inductive_cases waits_forE: "waits_for nodes a i"

lemma grow_node_sound:
  assumes "\<forall>x \<in> set ts. waits_for nodes x i" and "n \<in> set nodes"
  shows "\<forall>x \<in> set (grow_node n ts). waits_for nodes x i"
  using assms by (auto simp: grow_node_def list_ex_iff intro: waits_for.dependant)

lemma grow_pass_sound:
  assumes "\<forall>x \<in> set ts. waits_for nodes x i" and "set ns \<subseteq> set nodes"
  shows "\<forall>x \<in> set (grow_pass ns ts). waits_for nodes x i"
  using assms unfolding grow_pass_def
proof (induction ns arbitrary: ts)
  case (Cons n ns)
  with grow_node_sound [OF Cons.prems(1), of n] show ?case by simp
qed simp

lemma grow_pass_fixed:
  assumes "grow_pass nodes ts = ts" and "n \<in> set nodes" and "d \<in> set (nd_dependsOn n)" and "d \<in> set ts"
  shows "nd_id n \<in> set ts"
  using assms unfolding grow_pass_def
proof (induction nodes arbitrary: ts)
  case (Cons m ms)
  obtain e where e: "grow_node m ts = ts @ e" using grow_node_extends by blast
  obtain f where f: "fold grow_node ms (ts @ e) = (ts @ e) @ f"
    using grow_pass_extends [of ms "ts @ e"] by (auto simp: grow_pass_def)
  with Cons.prems(1) e have "e = []" "f = []" by simp_all
  with e f Cons show ?case by (auto simp: grow_node_def list_ex_iff split: if_splits)
qed simp

lemma retry_loop_correct:
  assumes "\<forall>x \<in> set ts. waits_for nodes x i" and "i \<in> set ts"
  shows "set (retry_loop nodes ts) = {x. waits_for nodes x i}"
  using assms
proof (induction nodes ts rule: retry_loop.induct)
  case (1 nodes ts)
  show ?case
  proof (cases "grow_pass nodes ts = ts")
    case True
    have "x \<in> set ts" if "waits_for nodes x i" for x
      using that "1.prems"(2) grow_pass_fixed [OF True] by (induction rule: waits_for.induct) auto
    with True "1.prems"(1) show ?thesis by (subst retry_loop.simps) auto
  next
    case False
    obtain ext where "grow_pass nodes ts = ts @ ext" using grow_pass_extends by blast
    then have "i \<in> set (grow_pass nodes ts)" using "1.prems"(2) by simp
    with False "1.IH" [OF refl False grow_pass_sound [OF "1.prems"(1)]] show ?thesis
      by (subst retry_loop.simps) (simp add: Let_def)
  qed
qed

text \<open>
  Retrying one node re-opens exactly the node and everything that transitively waits for it,
  in any order the plan lists them and whether or not the plan has a cycle; the loop that
  computes the set always ends.
\<close>

theorem retry_targets_closure:
  "set (retryTargets planNodes nodeId) = {x. waits_for planNodes x nodeId}"
  by (simp add: retryTargets_def retry_loop_correct waits_for.itself)

section \<open>What a resume decides\<close>

definition has_error :: "snapshot \<Rightarrow> string \<Rightarrow> bool" where
  "has_error state code = (map_option er_code (ns_error state) = Some code)"

definition isJudgeUnavailable :: "snapshot \<Rightarrow> bool" where
  "isJudgeUnavailable state = (ns_status state = Blocked \<and> has_error state ''judge_unavailable'')"

definition isDependencyFailed :: "snapshot \<Rightarrow> bool" where
  "isDependencyFailed state = (ns_status state = Blocked \<and> has_error state ''dependency_failed'')"

definition isUnknownEffectStop :: "snapshot \<Rightarrow> bool" where
  "isUnknownEffectStop state = (ns_status state = Blocked \<and> has_error state ''unknown_effect_reconciled'')"

definition isRetryableFailure :: "snapshot \<Rightarrow> bool" where
  "isRetryableFailure state =
     (ns_status state \<in> {Failed, Stalled, Exhausted, Canceled} \<or> isDependencyFailed state)"

definition earliestTierReset :: "snapshot \<Rightarrow> int option" where
  "earliestTierReset state =
     (let candidates = (case ro_tierExhaustion (routing_of state) of
            None \<Rightarrow> [] | Some te \<Rightarrow> te_candidates te);
          instants = List.map_filter (\<lambda>c. parse_opt (tc_exhaustedUntil c)) candidates
      in if instants = [] then None else Some (Min (set instants)))"

definition TIER_EXHAUSTION_HOLD_CAP_MS :: int where
  "TIER_EXHAUSTION_HOLD_CAP_MS = 24 * 60 * 60 * 1000"

definition tierExhaustionHeldMs :: "snapshot \<Rightarrow> int \<Rightarrow> int" where
  "tierExhaustionHeldMs state now =
     (case parse_opt (orelse (ns_updatedAt state) (ns_startedAt state)) of
        None \<Rightarrow> 0
      | Some since \<Rightarrow> max 0 (now - since))"

datatype resume_action = Recover | Retry_node | Rejudge | Hold

datatype attention_reason =
    Review_outside_retry
  | Unknown_effect_needs_reconcile
  | Outside_node_retry
  | Tier_cap_exceeded
  | No_recorded_reset
  | Earliest_reset int
  | Dependency_not_retried

record retry_options =
  rp_node :: "string option"
  rp_reconcile :: "string option"
  rp_answer :: "string option"

text \<open>The decision for one node, with the attention it raises.\<close>

definition classify_node ::
  "string list option \<Rightarrow> retry_options \<Rightarrow> int \<Rightarrow> string \<Rightarrow> snapshot
    \<Rightarrow> resume_action \<times> attention_reason option" where
  "classify_node targets options now i state =
     (let outside = (case targets of None \<Rightarrow> False | Some ts \<Rightarrow> i \<notin> set ts);
          again = (if ns_phase state = Ph_judge then Rejudge else Retry_node)
      in if isJudgeUnavailable state
         then (if outside then (Hold, Some Review_outside_retry) else (Rejudge, None))
         else if isUnknownEffectStop state
         then (if rp_reconcile options = Some i then (Retry_node, None)
               else (Hold, Some Unknown_effect_needs_reconcile))
         else if ns_status state = Blocked \<and> has_error state ''context_missing''
         then (if rp_answer options = Some i then (Retry_node, None) else (Recover, None))
         else if ns_status state = Blocked \<and> has_error state ''runtime_tier_exhausted''
         then (if outside then (Hold, Some Outside_node_retry)
               else if tierExhaustionHeldMs state now \<ge> TIER_EXHAUSTION_HOLD_CAP_MS
               then (again, Some Tier_cap_exceeded)
               else case earliestTierReset state of
                      None \<Rightarrow> (Hold, Some No_recorded_reset)
                    | Some earliest \<Rightarrow>
                        if now < earliest then (Hold, Some (Earliest_reset earliest)) else (again, None))
         else if \<not> isRetryableFailure state then (Recover, None)
         else if outside then (Hold, Some Outside_node_retry)
         else (Retry_node, None))"

record resume_plan =
  rl_actions :: "(string \<times> resume_action) list"
  rl_attention :: "(string \<times> attention_reason) list"
  rl_targets :: "string list option"

definition classify_step ::
  "states \<Rightarrow> string list option \<Rightarrow> retry_options \<Rightarrow> int \<Rightarrow> node \<Rightarrow> resume_plan \<Rightarrow> resume_plan" where
  "classify_step states targets options now node plan =
     (case map_of states (nd_id node) of
        None \<Rightarrow> plan
      | Some state \<Rightarrow>
          (let (action, attention) = classify_node targets options now (nd_id node) state
           in plan\<lparr>rl_actions := AList.update (nd_id node) action (rl_actions plan),
                   rl_attention := rl_attention plan @
                     (case attention of None \<Rightarrow> [] | Some r \<Rightarrow> [(nd_id node, r)])\<rparr>))"

definition waited_on_retried :: "states \<Rightarrow> resume_plan \<Rightarrow> string \<Rightarrow> bool" where
  "waited_on_retried states plan i =
     (map_of (rl_actions plan) i = Some Retry_node \<or> map_of (rl_actions plan) i = Some Rejudge \<or>
      status_of states i = Some Done)"

definition dependency_step :: "states \<Rightarrow> node \<Rightarrow> resume_plan \<Rightarrow> resume_plan" where
  "dependency_step states node plan =
     (case map_of states (nd_id node) of
        None \<Rightarrow> plan
      | Some state \<Rightarrow>
          if \<not> isDependencyFailed state \<or> map_of (rl_actions plan) (nd_id node) \<noteq> Some Retry_node
          then plan
          else if list_all (waited_on_retried states plan) (ns_blockedBy state) then plan
          else plan\<lparr>rl_actions := AList.update (nd_id node) Hold (rl_actions plan),
                    rl_attention := rl_attention plan @ [(nd_id node, Dependency_not_retried)]\<rparr>)"

definition planResumeRetry :: "contract \<Rightarrow> states \<Rightarrow> retry_options \<Rightarrow> int \<Rightarrow> resume_plan" where
  "planResumeRetry contract states options now =
     (let targets = map_option (retryTargets (ct_nodes contract))
            (Option.bind (orelse (rp_node options) (rp_answer options)) nonempty);
          classified = fold (classify_step states targets options now) (ct_nodes contract)
            \<lparr>rl_actions = [], rl_attention = [], rl_targets = targets\<rparr>
      in fold (dependency_step states) (ct_nodes contract) classified)"

text \<open>The generation bump of a node re-dispatched after its tier was exhausted.\<close>

definition tierExhaustionRestart :: "snapshot \<Rightarrow> routing option" where
  "tierExhaustionRestart state =
     (if ns_status state \<noteq> Blocked \<or> \<not> has_error state ''runtime_tier_exhausted'' then None
      else (let ro = routing_of state
            in Some (ro\<lparr>ro_tierExhaustionCycle := Some (nullish (ro_tierExhaustionCycle ro) 0 + 1),
                        ro_tierExhaustion := Some \<lparr>te_role = phase_role (ns_phase state),
                          te_candidates = []\<rparr>\<rparr>)))"

section \<open>The plan is consistent along dependencies\<close>

lemma dependency_step_other:
  "i \<noteq> nd_id n \<Longrightarrow> map_of (rl_actions (dependency_step states n plan)) i = map_of (rl_actions plan) i"
  by (auto simp: dependency_step_def update_conv' split: option.splits)

lemma dependency_step_self:
  "map_of (rl_actions (dependency_step states n plan)) (nd_id n) = Some Retry_node \<Longrightarrow>
     map_of (rl_actions plan) (nd_id n) = Some Retry_node \<and>
     (\<forall>s. map_of states (nd_id n) = Some s \<longrightarrow> isDependencyFailed s \<longrightarrow>
        (\<forall>i \<in> set (ns_blockedBy s). waited_on_retried states plan i))"
  by (auto simp: dependency_step_def update_conv' list_all_iff split: option.splits if_splits)

text \<open>
  The states a run leaves: a node blocked on a dependency names dependencies of its own, and the
  plan lists every node after them.
\<close>

lemma dependency_pass_consistent:
  assumes "topological [] ns" and "n \<in> set ns" and "map_of states (nd_id n) = Some s"
    and "isDependencyFailed s" and "set (ns_blockedBy s) \<subseteq> set (nd_dependsOn n)"
    and "map_of (rl_actions (fold (dependency_step states) ns plan)) (nd_id n) = Some Retry_node"
    and "i \<in> set (ns_blockedBy s)"
  shows "waited_on_retried states (fold (dependency_step states) ns plan) i"
  using assms
proof (induction ns rule: rev_induct)
  case Nil
  then show ?case by simp
next
  case (snoc m ns)
  let ?p = "fold (dependency_step states) ns plan"
  from snoc.prems(1) have top: "topological [] ns" and deps: "set (nd_dependsOn m) \<subseteq> nd_id ` set ns"
    and new: "nd_id m \<notin> nd_id ` set ns"
    by (auto simp: topological_append)
  have keep: "waited_on_retried states (dependency_step states m ?p) j = waited_on_retried states ?p j"
    if "j \<in> nd_id ` set ns" for j
  proof -
    from that new have "j \<noteq> nd_id m" by metis
    then show ?thesis by (simp add: waited_on_retried_def dependency_step_other)
  qed
  show ?case
  proof (cases "n = m")
    case True
    with snoc.prems(3-7) have "waited_on_retried states ?p i"
      using dependency_step_self [of states m ?p] by simp
    moreover have "i \<in> nd_id ` set ns" using snoc.prems(5,7) deps True by blast
    ultimately show ?thesis using keep by simp
  next
    case False
    with snoc.prems(2) have n: "n \<in> set ns" by simp
    with new have "nd_id n \<noteq> nd_id m" by (metis imageI)
    with snoc.prems(6) have "map_of (rl_actions ?p) (nd_id n) = Some Retry_node"
      by (simp add: dependency_step_other)
    then have "waited_on_retried states ?p i"
      using snoc.IH [OF top n snoc.prems(3-5) _ snoc.prems(7)] by simp
    moreover have "i \<in> nd_id ` set ns"
      using snoc.prems(5,7) topological_deps [OF top n] by blast
    ultimately show ?thesis using keep by simp
  qed
qed

text \<open>
  A resume never re-dispatches a node whose blocking dependency stays where it is: along a
  chain of dependants of any length, a node blocked on dependencies is retried only when each of
  them is done or is itself retried or re-judged by the same plan.
\<close>

theorem resume_plan_consistent:
  assumes "topological [] (ct_nodes contract)" and "n \<in> set (ct_nodes contract)"
    and "map_of states (nd_id n) = Some s" and "isDependencyFailed s"
    and "set (ns_blockedBy s) \<subseteq> set (nd_dependsOn n)"
    and "map_of (rl_actions (planResumeRetry contract states options now)) (nd_id n) = Some Retry_node"
  shows "\<forall>i \<in> set (ns_blockedBy s).
    waited_on_retried states (planResumeRetry contract states options now) i"
  using dependency_pass_consistent [OF assms(1-5)] assms(6)
  by (simp add: planResumeRetry_def Let_def)

definition blocked_states :: states where
  "blocked_states = [(''a'', sample_snapshot ''a'' Failed Ph_worker),
     (''b'', (sample_snapshot ''b'' Blocked Ph_dependency)\<lparr>ns_blockedBy := [''a''],
        ns_error := Some (mk_error ''dependency_failed'' ''blocked by a'')\<rparr>),
     (''c'', (sample_snapshot ''c'' Blocked Ph_dependency)\<lparr>ns_blockedBy := [''b''],
        ns_error := Some (mk_error ''dependency_failed'' ''blocked by b'')\<rparr>)]"

abbreviation no_options :: retry_options where
  "no_options \<equiv> \<lparr>rp_node = None, rp_reconcile = None, rp_answer = None\<rparr>"

theorem resume_plan_consistent_witness:
  "map_of (rl_actions (planResumeRetry chain_contract blocked_states no_options 0)) ''c'' =
     Some Retry_node \<and>
   waited_on_retried blocked_states (planResumeRetry chain_contract blocked_states no_options 0) ''b''"
proof -
  have run: "map_of (rl_actions (planResumeRetry chain_contract blocked_states no_options 0)) ''c'' =
      Some Retry_node"
    by code_simp
  have top: "topological [] (ct_nodes chain_contract)" by code_simp
  let ?c = "sample_node ''c'' [''b''] None None"
  let ?s = "(sample_snapshot ''c'' Blocked Ph_dependency)\<lparr>ns_blockedBy := [''b''],
        ns_error := Some (mk_error ''dependency_failed'' ''blocked by b'')\<rparr>"
  have "?c \<in> set (ct_nodes chain_contract)" "map_of blocked_states (nd_id ?c) = Some ?s"
    "isDependencyFailed ?s" "set (ns_blockedBy ?s) \<subseteq> set (nd_dependsOn ?c)"
    by (simp_all add: chain_contract_def sample_contract_def blocked_states_def sample_node_def
        isDependencyFailed_def has_error_def sample_snapshot_def)
  from resume_plan_consistent [OF top this, of no_options 0] run show ?thesis
    by (simp add: sample_node_def)
qed

text \<open>
  The pass reads the decisions made so far, so it is the order of the contract that makes it
  complete: with a dependant listed before its dependency, the dependant is retried although the
  dependency it waits for keeps its boundary in the same plan.
\<close>

definition reversed_contract :: contract where
  "reversed_contract = sample_contract False
     [sample_node ''c'' [''b''] None None, sample_node ''b'' [''a''] None None,
      sample_node ''a'' [] None None]"

definition reconciled_states :: states where
  "reconciled_states = AList.update ''a''
     ((sample_snapshot ''a'' Blocked Ph_worker)
        \<lparr>ns_error := Some (mk_error ''unknown_effect_reconciled'' ''unknown'')\<rparr>) blocked_states"

lemma resume_plan_order_dependent:
  "map_of (rl_actions (planResumeRetry reversed_contract reconciled_states no_options 0)) ''c'' =
     Some Retry_node \<and>
   map_of (rl_actions (planResumeRetry reversed_contract reconciled_states no_options 0)) ''b'' =
     Some Hold"
  by code_simp

end
