(* ===== verification/Previous_Attempt.thy ===== *)
theory Previous_Attempt
  imports Retry
begin

text \<open>
  What a retried attempt is told of the one before it: the bounded \<open>Previous attempt\<close> section of
  \<open>src/engine/retry.mjs\<close>, and the ceiling a node snapshot puts on it (\<open>src/contract/snapshot.mjs\<close>).
  The section's text is kept byte for byte.
\<close>

definition OPERATOR_ANSWER_MAX_BYTES :: nat where
  "OPERATOR_ANSWER_MAX_BYTES = 8 * 1024"

definition PREVIOUS_ATTEMPT_EVIDENCE_MAX_BYTES :: nat where
  "PREVIOUS_ATTEMPT_EVIDENCE_MAX_BYTES = 8 * 1024"

definition PREVIOUS_ATTEMPT_MAX_BYTES :: nat where
  "PREVIOUS_ATTEMPT_MAX_BYTES = PREVIOUS_ATTEMPT_EVIDENCE_MAX_BYTES + OPERATOR_ANSWER_MAX_BYTES + 64"

definition mostRecentOperatorAnswer :: "snapshot \<Rightarrow> string option" where
  "mostRecentOperatorAnswer state =
     Option.bind (find_last (\<lambda>x. xo_kind x = ''operator-answer'') (ns_executionOverrides state)) xo_text"

definition newline :: string where
  "newline = [CHR 0x0A]"

definition em_dash :: string where
  "em_dash = [byte 0xE2, byte 0x80, byte 0x94]"

text \<open>\<open>replace(/\s+/gu, " ").trim()\<close>\<close>

fun collapse :: "bool \<Rightarrow> string \<Rightarrow> string" where
  "collapse inside [] = []"
| "collapse inside (c # cs) =
     (if is_space c then (if inside then collapse True cs else CHR '' '' # collapse True cs)
      else c # collapse False cs)"

definition indent :: "string \<Rightarrow> string" where
  "indent text' = bounded (trim (collapse False text')) 1024"

fun show_severity :: "severity \<Rightarrow> string" where
  "show_severity Sev_none = ''none''"
| "show_severity Minor = ''minor''"
| "show_severity Major = ''major''"
| "show_severity Critical = ''critical''"

fun show_verdict :: "verdict_kind \<Rightarrow> string" where
  "show_verdict V_pass = ''pass''"
| "show_verdict V_fail = ''fail''"
| "show_verdict V_invalid = ''invalid_judge_output''"

definition boundSection :: "string \<Rightarrow> string" where
  "boundSection text' =
     (if length text' \<le> PREVIOUS_ATTEMPT_EVIDENCE_MAX_BYTES then text'
      else (let marker = newline @ ellipsis @ '' (previous attempt section truncated)'';
                room = PREVIOUS_ATTEMPT_EVIDENCE_MAX_BYTES - length marker - 1
            in decode_prefix text' room @ marker))"

definition error_lines :: "snapshot \<Rightarrow> string list" where
  "error_lines state =
     (case ns_error state of
        None \<Rightarrow> []
      | Some e \<Rightarrow>
          if er_code e = [] \<and> er_message e = [] then []
          else [''Error: '' @ er_code e @
                (if er_message e = [] then [] else '' '' @ em_dash @ '' '' @ bounded (er_message e) 1024)])"

definition finding_lines :: "snapshot \<Rightarrow> string list" where
  "finding_lines state =
     (case ns_gate state of
        None \<Rightarrow> []
      | Some g \<Rightarrow>
          if gr_findings g = [] then []
          else (''Judge findings (verdict '' @ show_verdict (gr_verdict g) @ '', maxSeverity '' @
                show_severity (gr_maxSeverity g) @ ''):'') #
               concat (map (\<lambda>f. (''- ['' @ show_severity (fi_severity f) @ ''] '' @
                                  bounded (fi_description f) 1024) #
                    (if fi_evidence f = [] then []
                     else [''  Evidence: '' @ bounded (fi_evidence f) 1024])) (gr_findings g)))"

definition scope_lines :: "snapshot \<Rightarrow> string list" where
  "scope_lines state =
     (if ns_unexpectedPaths state = [] then []
      else [''Scope findings (paths outside the declared boundary): '' @
            join_with '', '' (map (\<lambda>p. bounded p 256) (ns_unexpectedPaths state))])"

definition command_lines :: "command_result \<Rightarrow> string list" where
  "command_lines c =
     (''- '' @ join_with '' '' (cr_argv c)) #
     (case last_opt (cr_attempts c) of
        None \<Rightarrow> []
      | Some a \<Rightarrow>
          (if at_stdout a = [] then [] else [''  stdout tail: '' @ indent (at_stdout a)]) @
          (if at_stderr a = [] then [] else [''  stderr tail: '' @ indent (at_stderr a)]) @
          (case at_exitCode a of
             Some code \<Rightarrow> if code = 0 then [] else [''  exit code: '' @ show_int code]
           | None \<Rightarrow> []))"

definition verification_lines :: "snapshot \<Rightarrow> string list" where
  "verification_lines state =
     (let failing = (case ns_verification state of
            None \<Rightarrow> [] | Some v \<Rightarrow> filter (\<lambda>c. \<not> cr_passed c) (ve_commands v))
      in if failing = [] then [] else ''Failing verification:'' # concat (map command_lines failing))"

definition evidence_lines :: "snapshot \<Rightarrow> string list" where
  "evidence_lines state =
     error_lines state @ finding_lines state @ scope_lines state @ verification_lines state"

definition evidence_text :: "snapshot \<Rightarrow> string" where
  "evidence_text state =
     join_with newline
       (''## Previous attempt'' # [] #
        (''Attempt '' @ show_nat (ns_attempt state) @ '' failed; this is attempt '' @
         show_nat (ns_attempt state + 1) @ ''. The packet is unchanged.'') # evidence_lines state)"

definition renderPreviousAttemptSection :: "snapshot \<Rightarrow> string option" where
  "renderPreviousAttemptSection state =
     (let answer = mostRecentOperatorAnswer state
      in if ns_attempt state = 0 then None
         else if evidence_lines state = [] \<and> answer = None then None
         else (let evidence = boundSection (evidence_text state)
               in Some (case answer of
                      None \<Rightarrow> evidence
                    | Some a \<Rightarrow> evidence @ newline @ ''Operator answer:'' @ newline @ a)))"

text \<open>The snapshot validator's bound on \<open>previousAttempt\<close>: non-empty and under the ceiling.\<close>

definition valid_previous_attempt :: "string \<Rightarrow> bool" where
  "valid_previous_attempt s \<longleftrightarrow> s \<noteq> [] \<and> length s \<le> PREVIOUS_ATTEMPT_MAX_BYTES"

lemma decode_prefix_length:
  assumes "0 < room"
  shows "length (decode_prefix s room) \<le> room + 2"
proof (cases "cont_at s room")
  case True
  then have "retreat s room \<le> room - 1" using assms retreat_le [of s "room - 1"] by (cases room) auto
  then show ?thesis using assms by (auto simp: decode_prefix_def)
qed (use retreat_le [of s room] in \<open>auto simp: decode_prefix_def\<close>)

lemma boundSection_length:
  "length (boundSection t) \<le> PREVIOUS_ATTEMPT_EVIDENCE_MAX_BYTES + 1"
proof (cases "length t \<le> PREVIOUS_ATTEMPT_EVIDENCE_MAX_BYTES")
  case False
  let ?m = "newline @ ellipsis @ '' (previous attempt section truncated)''"
  let ?room = "PREVIOUS_ATTEMPT_EVIDENCE_MAX_BYTES - length ?m - 1"
  have m: "length ?m = 41" by (simp add: newline_def)
  have "length (decode_prefix t ?room) \<le> ?room + 2"
    by (rule decode_prefix_length) (use m in \<open>simp add: PREVIOUS_ATTEMPT_EVIDENCE_MAX_BYTES_def\<close>)
  with False m show ?thesis
    by (simp add: boundSection_def Let_def PREVIOUS_ATTEMPT_EVIDENCE_MAX_BYTES_def)
qed (simp add: boundSection_def)

lemma boundSection_nonempty: "t \<noteq> [] \<Longrightarrow> boundSection t \<noteq> []"
  by (simp add: boundSection_def Let_def newline_def)

text \<open>
  C40. A node gets a section exactly when it has started an attempt and has evidence of it or an
  operator's answer. The section always fits the snapshot that persists it: whatever failed before,
  however long its findings and outputs are, it is not empty and passes the validator's ceiling as
  long as the operator's answer passed its own; the evidence is whole when it fits its budget, and
  the newest answer ends the section whole, outside that budget (which the cut may exceed by one
  byte).
\<close>

theorem previous_attempt_section_persists:
  assumes "\<forall>a. mostRecentOperatorAnswer state = Some a \<longrightarrow> length a \<le> OPERATOR_ANSWER_MAX_BYTES"
  shows "(renderPreviousAttemptSection state = None \<longleftrightarrow>
       ns_attempt state = 0 \<or> evidence_lines state = [] \<and> mostRecentOperatorAnswer state = None) \<and>
    (\<forall>s. renderPreviousAttemptSection state = Some s \<longrightarrow>
       valid_previous_attempt s \<and> (\<exists>evidence.
         length evidence \<le> PREVIOUS_ATTEMPT_EVIDENCE_MAX_BYTES + 1 \<and>
         (length (evidence_text state) \<le> PREVIOUS_ATTEMPT_EVIDENCE_MAX_BYTES \<longrightarrow>
            evidence = evidence_text state) \<and>
         s = evidence @ (case mostRecentOperatorAnswer state of
               None \<Rightarrow> [] | Some a \<Rightarrow> newline @ ''Operator answer:'' @ newline @ a)))"
proof (intro conjI allI impI)
  show "renderPreviousAttemptSection state = None \<longleftrightarrow>
      ns_attempt state = 0 \<or> evidence_lines state = [] \<and> mostRecentOperatorAnswer state = None"
    by (simp add: renderPreviousAttemptSection_def Let_def)
next
  fix s
  assume "renderPreviousAttemptSection state = Some s"
  then have s: "s = boundSection (evidence_text state) @
      (case mostRecentOperatorAnswer state of
         None \<Rightarrow> [] | Some a \<Rightarrow> newline @ ''Operator answer:'' @ newline @ a)"
    by (auto simp: renderPreviousAttemptSection_def Let_def split: if_splits option.splits)
  have "boundSection (evidence_text state) \<noteq> []"
    by (rule boundSection_nonempty) (simp add: evidence_text_def)
  then show "valid_previous_attempt s"
    using assms boundSection_length [of "evidence_text state"] unfolding s
    by (auto simp: valid_previous_attempt_def PREVIOUS_ATTEMPT_MAX_BYTES_def newline_def
        OPERATOR_ANSWER_MAX_BYTES_def PREVIOUS_ATTEMPT_EVIDENCE_MAX_BYTES_def split: option.splits)
  show "\<exists>evidence. length evidence \<le> PREVIOUS_ATTEMPT_EVIDENCE_MAX_BYTES + 1 \<and>
      (length (evidence_text state) \<le> PREVIOUS_ATTEMPT_EVIDENCE_MAX_BYTES \<longrightarrow>
         evidence = evidence_text state) \<and>
      s = evidence @ (case mostRecentOperatorAnswer state of
            None \<Rightarrow> [] | Some a \<Rightarrow> newline @ ''Operator answer:'' @ newline @ a)"
    using s boundSection_length [of "evidence_text state"]
    by (intro exI [of _ "boundSection (evidence_text state)"]) (simp add: boundSection_def)
qed

theorem previous_attempt_section_persists_witness:
  "let state = (sample_snapshot ''a'' Failed Ph_worker)
         \<lparr>ns_attempt := 1, ns_error := Some (mk_error ''spawn_error'' ''no such file''),
          ns_executionOverrides := [(mk_override ''operator-answer'')\<lparr>xo_text := Some ''use npm''\<rparr>]\<rparr>
   in \<exists>s evidence. renderPreviousAttemptSection state = Some s \<and> valid_previous_attempt s \<and>
        s = evidence @ newline @ ''Operator answer:'' @ newline @ ''use npm''"
proof -
  let ?s = "(sample_snapshot ''a'' Failed Ph_worker)
         \<lparr>ns_attempt := 1, ns_error := Some (mk_error ''spawn_error'' ''no such file''),
          ns_executionOverrides := [(mk_override ''operator-answer'')\<lparr>xo_text := Some ''use npm''\<rparr>]\<rparr>"
  have answer: "mostRecentOperatorAnswer ?s = Some ''use npm''" by code_simp
  have "renderPreviousAttemptSection ?s \<noteq> None" using answer
    by (simp add: renderPreviousAttemptSection_def)
  then show ?thesis
    using previous_attempt_section_persists [of ?s] answer
    by (auto simp: OPERATOR_ANSWER_MAX_BYTES_def Let_def)
qed

end
