(* ===== verification/Integration.thy ===== *)
theory Integration
  imports Scheduler
begin

text \<open>
  How a sealed attempt reaches the run's ref (\<open>src/repo/integrate.mjs\<close>): a transaction is prepared,
  its candidate verified, the ref advanced by compare-and-swap and the client told, with one
  journal line per stage so that a crash between any two of them is recovered.

  What git answers is the argument \<open>repo\<close>: whether two commits differ, ancestry, the outcome of
  a merge, whether an object exists. The run's ref is state. What other processes do to the ref
  between two of the controller's own steps is the argument \<open>others\<close>. Candidate refs and
  worktrees are scratch the code rebuilds before each use and are left out, as are the journal
  fields no decision reads (\<open>schemaVersion\<close>, \<open>transactionId\<close>, \<open>runId\<close>, \<open>at\<close>, \<open>acceptedAt\<close>). A sha
  is a non-empty string. \<open>None\<close> is a thrown error.
\<close>

section \<open>Transactions and their journal\<close>

datatype integ_status = Tx_prepared | Tx_verified | Tx_accepted | Tx_failed | Tx_conflict

record integ =
  ir_node :: string
  ir_attempt :: nat
  ir_attemptSha :: string
  ir_branch :: "string option"
  ir_empty :: bool
  ir_previousTip :: string
  ir_candidateSha :: "string option"
  ir_conflictingPaths :: "string list"
  ir_status :: "integ_status option"
  ir_attemptEvidence :: "verification option"
  ir_candidateEvidence :: "verification option"

fun tx_terminal :: "integ_status option \<Rightarrow> bool" where
  "tx_terminal s = (s \<in> {Some Tx_accepted, Some Tx_failed, Some Tx_conflict})"

definition integrationKey :: "integ \<Rightarrow> string \<times> nat" where
  "integrationKey r = (ir_node r, ir_attempt r)"

text \<open>
  The last record of every key, in the order the keys first appear, as a JavaScript \<open>Map\<close> keeps
  them.
\<close>

definition latest_by_key :: "integ list \<Rightarrow> ((string \<times> nat) \<times> integ) list" where
  "latest_by_key journal = fold (\<lambda>r m. AList.update (integrationKey r) r m) journal []"

definition latestIntegrationTransactions :: "integ list \<Rightarrow> integ list" where
  "latestIntegrationTransactions journal = map snd (latest_by_key journal)"

datatype merge_result = Merge_error | Merge_conflict "string list" | Merge_candidate string

record repo =
  rp_diffEmpty :: "string \<Rightarrow> string \<Rightarrow> bool"
  rp_isAncestor :: "string \<Rightarrow> string \<Rightarrow> bool"
  rp_merge :: "string \<Rightarrow> string \<Rightarrow> merge_result"
  rp_exists :: "string \<Rightarrow> bool"

definition prepareTransaction ::
  "repo \<Rightarrow> string \<Rightarrow> nat \<Rightarrow> string \<Rightarrow> string option \<Rightarrow> string \<Rightarrow> integ option" where
  "prepareTransaction g nodeId attempt attemptSha branch previousRunRefTip =
     (let empty = rp_diffEmpty g previousRunRefTip attemptSha;
          tx = \<lparr>ir_node = nodeId, ir_attempt = attempt, ir_attemptSha = attemptSha,
            ir_branch = branch, ir_empty = empty, ir_previousTip = previousRunRefTip,
            ir_candidateSha = None, ir_conflictingPaths = [], ir_status = None,
            ir_attemptEvidence = None, ir_candidateEvidence = None\<rparr>
      in if empty then Some (tx\<lparr>ir_candidateSha := Some previousRunRefTip\<rparr>)
         else if attemptSha = previousRunRefTip \<or> rp_isAncestor g previousRunRefTip attemptSha
         then Some (tx\<lparr>ir_candidateSha := Some attemptSha\<rparr>)
         else case rp_merge g previousRunRefTip attemptSha of
                Merge_error \<Rightarrow> None
              | Merge_conflict paths \<Rightarrow> Some (tx\<lparr>ir_conflictingPaths := paths\<rparr>)
              | Merge_candidate c \<Rightarrow> Some (tx\<lparr>ir_candidateSha := Some c\<rparr>))"

section \<open>The world of an integration\<close>

text \<open>
  The run's ref, the journal, and the state of whoever integrates. The client's callbacks are the
  arguments \<open>integrateAttempt\<close> is called with; \<open>verifyCandidate\<close> may write the client's state, and
  its left is the message of an error it throws.
\<close>

record 'w integration =
  iw_ref :: "string option"
  iw_journal :: "integ list"
  iw_client :: 'w

record 'w client =
  cl_verify :: "'w \<Rightarrow> integ \<Rightarrow> 'w \<times> (string + verification)"
  cl_accepted :: "'w \<Rightarrow> integ \<Rightarrow> 'w"
  cl_failed :: "'w \<Rightarrow> integ \<Rightarrow> verification \<Rightarrow> 'w"
  cl_conflict :: "'w \<Rightarrow> integ \<Rightarrow> 'w"
  cl_moved :: "'w \<Rightarrow> integ \<Rightarrow> string option \<Rightarrow> 'w"

text \<open>
  What happens outside: to the ref before the controller reads it, and between that read and the
  compare-and-swap; and whether git refuses the swap for a reason of its own.
\<close>

record others =
  ot_before :: "string option \<Rightarrow> string option"
  ot_race :: "string option \<Rightarrow> string option"
  ot_refused :: bool

definition quiet :: others where
  "quiet = \<lparr>ot_before = id, ot_race = id, ot_refused = False\<rparr>"

datatype integ_outcome =
    Out_accepted "string option" | Out_conflict "string list" | Out_failed verification | Out_moved

definition appendRecord :: "integ \<Rightarrow> 'w integration \<Rightarrow> 'w integration" where
  "appendRecord r w = w\<lparr>iw_journal := iw_journal w @ [r]\<rparr>"

definition tell :: "('w \<Rightarrow> 'w) \<Rightarrow> 'w integration \<Rightarrow> 'w integration" where
  "tell f w = w\<lparr>iw_client := f (iw_client w)\<rparr>"

text \<open>The record already in the journal with this key and status, or the one now appended.\<close>

definition append_once :: "integ_status \<Rightarrow> integ \<Rightarrow> 'w integration \<Rightarrow> integ \<times> 'w integration" where
  "append_once s tx w =
     (let r = tx\<lparr>ir_status := Some s\<rparr>
      in case List.find (\<lambda>e. integrationKey e = integrationKey tx \<and> ir_status e = Some s)
                (latestIntegrationTransactions (iw_journal w)) of
           Some e \<Rightarrow> (e, w)
         | None \<Rightarrow> (r, appendRecord r w))"

definition appendAccepted :: "integ \<Rightarrow> 'w integration \<Rightarrow> integ \<times> 'w integration" where
  "appendAccepted = append_once Tx_accepted"

definition appendConflict :: "integ \<Rightarrow> 'w integration \<Rightarrow> integ \<times> 'w integration" where
  "appendConflict = append_once Tx_conflict"

definition finishAccepted :: "'w client \<Rightarrow> integ \<Rightarrow> 'w integration \<Rightarrow> 'w integration" where
  "finishAccepted cl r = tell (\<lambda>v. cl_accepted cl v r)"

definition accept_now :: "'w client \<Rightarrow> integ \<Rightarrow> 'w integration \<Rightarrow> 'w integration" where
  "accept_now cl tx w = (let (accepted, w') = appendAccepted tx w in finishAccepted cl accepted w')"

definition candidate_in :: "repo \<Rightarrow> integ \<Rightarrow> string \<Rightarrow> bool" where
  "candidate_in g tx current =
     (case ir_candidateSha tx of None \<Rightarrow> False | Some c \<Rightarrow> rp_isAncestor g c current)"

section \<open>Verifying and advancing\<close>

definition advanceVerified ::
  "repo \<Rightarrow> others \<Rightarrow> 'w client \<Rightarrow> integ \<Rightarrow> 'w integration \<Rightarrow> (integ_outcome \<times> 'w integration) option" where
  "advanceVerified g ot cl tx w0 =
     (let w = w0\<lparr>iw_ref := ot_before ot (iw_ref w0)\<rparr>;
          previous = ir_previousTip tx
      in case iw_ref w of
           None \<Rightarrow> None
         | Some current \<Rightarrow>
             if Some current = ir_candidateSha tx \<and> current \<noteq> previous
             then Some (Out_accepted (ir_candidateSha tx), accept_now cl tx w)
             else if current \<noteq> previous \<and> \<not> candidate_in g tx current
             then Some (Out_moved, tell (\<lambda>v. cl_moved cl v tx (Some current)) w)
             else if current \<noteq> previous
             then Some (Out_accepted (ir_candidateSha tx), accept_now cl tx w)
             else case ir_candidateSha tx of
                    None \<Rightarrow> None
                  | Some c \<Rightarrow>
                      (let found = ot_race ot (Some current)
                       in if found = Some previous \<and> \<not> ot_refused ot
                          then Some (Out_accepted (Some c), accept_now cl tx (w\<lparr>iw_ref := Some c\<rparr>))
                          else Some (Out_moved,
                                 tell (\<lambda>v. cl_moved cl v tx found) (w\<lparr>iw_ref := found\<rparr>))))"

definition verifyAndAdvance ::
  "repo \<Rightarrow> others \<Rightarrow> 'w client \<Rightarrow> verification option \<Rightarrow> integ \<Rightarrow> 'w integration
    \<Rightarrow> (integ_outcome \<times> 'w integration) option" where
  "verifyAndAdvance g ot cl evidence tx w =
     (if ir_candidateSha tx = None then None
      else (let (v, result) = cl_verify cl (iw_client w) tx;
                w1 = w\<lparr>iw_client := v\<rparr>;
                found = (case result of
                    Inl message \<Rightarrow> \<lparr>ve_passed = False, ve_commands = [], ve_error = Some message,
                      ve_retried = [], ve_completed = False\<rparr>
                  | Inr ve \<Rightarrow> ve);
                judged = tx\<lparr>ir_attemptEvidence := evidence, ir_candidateEvidence := Some found\<rparr>
            in if \<not> ve_passed found
               then Some (Out_failed found, tell (\<lambda>v. cl_failed cl v tx found)
                      (appendRecord (judged\<lparr>ir_status := Some Tx_failed\<rparr>) w1))
               else advanceVerified g ot cl (judged\<lparr>ir_status := Some Tx_verified\<rparr>)
                      (appendRecord (judged\<lparr>ir_status := Some Tx_verified\<rparr>) w1)))"

section \<open>Recovery\<close>

text \<open>
  One record of the recovery loop: the loop goes on with the world returned (left) or ends with a
  result (right). Between two records nothing else moves the ref.
\<close>

definition rebuild_prepared :: "repo \<Rightarrow> integ \<Rightarrow> integ option" where
  "rebuild_prepared g tx =
     (if case ir_candidateSha tx of None \<Rightarrow> False | Some c \<Rightarrow> rp_exists g c
      then Some (tx\<lparr>ir_conflictingPaths := []\<rparr>)
      else prepareTransaction g (ir_node tx) (ir_attempt tx) (ir_attemptSha tx) (ir_branch tx)
             (ir_previousTip tx))"

definition recover_prepared ::
  "repo \<Rightarrow> others \<Rightarrow> 'w client \<Rightarrow> integ \<Rightarrow> 'w integration
    \<Rightarrow> ('w integration + (integ_outcome \<times> 'w integration)) option" where
  "recover_prepared g ot cl tx w =
     (if iw_ref w \<noteq> None \<and> iw_ref w \<noteq> Some (ir_previousTip tx)
      then Some (Inl (tell (\<lambda>v. cl_moved cl v tx (iw_ref w)) w))
      else case rebuild_prepared g tx of
             None \<Rightarrow> None
           | Some rebuilt \<Rightarrow>
               if ir_candidateSha rebuilt \<noteq> ir_candidateSha tx \<or> ir_conflictingPaths rebuilt \<noteq> []
               then Some (Inl (let (conflict, w') = appendConflict (tx\<lparr>ir_conflictingPaths :=
                           (if ir_conflictingPaths rebuilt \<noteq> [] then ir_conflictingPaths rebuilt
                            else [''candidate object unavailable''])\<rparr>) w
                     in tell (\<lambda>v. cl_conflict cl v conflict) w'))
               else map_option Inr
                      (verifyAndAdvance g ot cl (ir_attemptEvidence tx) rebuilt w))"

definition recover_verified ::
  "repo \<Rightarrow> others \<Rightarrow> 'w client \<Rightarrow> integ \<Rightarrow> 'w integration
    \<Rightarrow> ('w integration + (integ_outcome \<times> 'w integration)) option" where
  "recover_verified g ot cl tx w =
     (case iw_ref w of
        Some current \<Rightarrow>
          if current \<noteq> ir_previousTip tx \<and>
             (Some current = ir_candidateSha tx \<or> candidate_in g tx current)
          then Some (Inl (accept_now cl tx w))
          else if current \<noteq> ir_previousTip tx
          then Some (Inl (tell (\<lambda>v. cl_moved cl v tx (Some current)) w))
          else map_option Inr (advanceVerified g ot cl tx w)
      | None \<Rightarrow> map_option Inr (advanceVerified g ot cl tx w))"

definition recover_record ::
  "repo \<Rightarrow> others \<Rightarrow> 'w client \<Rightarrow> integ \<Rightarrow> 'w integration
    \<Rightarrow> ('w integration + (integ_outcome \<times> 'w integration)) option" where
  "recover_record g ot cl r w =
     (if ir_status r = Some Tx_accepted then Some (Inl (finishAccepted cl r w))
      else if ir_status r \<in> {Some Tx_failed, Some Tx_conflict} then Some (Inl w)
      else if ir_candidateSha r = None
      then (if ir_conflictingPaths r = [] then Some (Inl w)
            else Some (Inl (let (conflict, w') = appendConflict r w
                            in tell (\<lambda>v. cl_conflict cl v conflict) w')))
      else if ir_status r = Some Tx_prepared then recover_prepared g ot cl r w
      else recover_verified g ot cl r w)"

text \<open>The loop: the first transaction it can still carry out ends it.\<close>

fun recover_loop ::
  "repo \<Rightarrow> others \<Rightarrow> 'w client \<Rightarrow> integ list \<Rightarrow> 'w integration
    \<Rightarrow> (integ_outcome option \<times> 'w integration) option" where
  "recover_loop g ot cl [] w = Some (None, w)"
| "recover_loop g ot cl (r # rs) w =
     (case recover_record g ot cl r w of
        None \<Rightarrow> None
      | Some (Inl w') \<Rightarrow> recover_loop g ot cl rs w'
      | Some (Inr (result, w')) \<Rightarrow> Some (Some result, w'))"

definition recoverIntegrations ::
  "repo \<Rightarrow> others \<Rightarrow> 'w client \<Rightarrow> 'w integration \<Rightarrow> (integ_outcome option \<times> 'w integration) option" where
  "recoverIntegrations g ot cl w =
     recover_loop g ot cl (latestIntegrationTransactions (iw_journal w)) w"

section \<open>Integrating an attempt\<close>

definition integrateAttempt ::
  "repo \<Rightarrow> others \<Rightarrow> 'w client \<Rightarrow> string \<Rightarrow> nat \<Rightarrow> string \<Rightarrow> string option \<Rightarrow> verification option
    \<Rightarrow> 'w integration \<Rightarrow> (integ_outcome option \<times> 'w integration) option" where
  "integrateAttempt g ot cl nodeId attempt attemptSha branch evidence w =
     (let existing = List.find (\<lambda>r. ir_node r = nodeId \<and> ir_attempt r = attempt)
            (latestIntegrationTransactions (iw_journal w));
          begin_new = (case iw_ref w of
              None \<Rightarrow> None
            | Some previous \<Rightarrow>
                (case prepareTransaction g nodeId attempt attemptSha branch previous of
                   None \<Rightarrow> None
                 | Some tx \<Rightarrow>
                     (let prepared = tx\<lparr>ir_status := Some Tx_prepared, ir_attemptEvidence := evidence\<rparr>;
                          w1 = appendRecord prepared w
                      in if ir_conflictingPaths tx \<noteq> []
                         then Some (Some (Out_conflict (ir_conflictingPaths tx)),
                                tell (\<lambda>v. cl_conflict cl v tx)
                                  (appendRecord (prepared\<lparr>ir_status := Some Tx_conflict\<rparr>) w1))
                         else map_option (\<lambda>p. (Some (fst p), snd p))
                                (verifyAndAdvance g ot cl evidence tx w1))))
      in case existing of
           Some r \<Rightarrow>
             if ir_status r = Some Tx_accepted
             then Some (Some (Out_accepted (ir_candidateSha r)), finishAccepted cl r w)
             else if \<not> tx_terminal (ir_status r) then recoverIntegrations g ot cl w
             else begin_new
         | None \<Rightarrow> begin_new)"

section \<open>The run's ref keeps every accepted candidate\<close>

definition contains :: "repo \<Rightarrow> string \<Rightarrow> string \<Rightarrow> bool" where
  "contains g a b \<longleftrightarrow> a = b \<or> rp_isAncestor g a b"

text \<open>
  What the code relies on git for: ancestry is transitive, and a merge commit descends from its
  first parent.
\<close>

definition git_ok :: "repo \<Rightarrow> bool" where
  "git_ok g \<longleftrightarrow> (\<forall>a b c. contains g a b \<longrightarrow> contains g b c \<longrightarrow> contains g a c) \<and>
     (\<forall>p a c. rp_merge g p a = Merge_candidate c \<longrightarrow> contains g p c)"

text \<open>Others may move the ref forward only.\<close>

definition forward :: "repo \<Rightarrow> (string option \<Rightarrow> string option) \<Rightarrow> bool" where
  "forward g f \<longleftrightarrow> f None = None \<and> (\<forall>t. \<exists>t'. f (Some t) = Some t' \<and> contains g t t')"

definition others_ok :: "repo \<Rightarrow> others \<Rightarrow> bool" where
  "others_ok g ot \<longleftrightarrow> forward g (ot_before ot) \<and> forward g (ot_race ot)"

lemma forward_id [simp]: "forward g id"
  by (simp add: forward_def contains_def)

lemma quiet_ok [simp]: "others_ok g quiet"
  by (simp add: others_ok_def quiet_def)

abbreviation accepted :: "integ \<Rightarrow> bool" where
  "accepted r \<equiv> ir_status r = Some Tx_accepted"

text \<open>No record follows the accepted record of its key.\<close>

fun sealed :: "integ list \<Rightarrow> bool" where
  "sealed [] = True"
| "sealed (r # rs) = ((accepted r \<longrightarrow> integrationKey r \<notin> integrationKey ` set rs) \<and> sealed rs)"

definition open_key :: "integ list \<Rightarrow> (string \<times> nat) \<Rightarrow> bool" where
  "open_key journal k \<longleftrightarrow> (\<forall>a \<in> set journal. accepted a \<longrightarrow> integrationKey a \<noteq> k)"

lemma sealed_append [simp]:
  "sealed (journal @ [r]) \<longleftrightarrow> sealed journal \<and> open_key journal (integrationKey r)"
  by (induction journal) (auto simp: open_key_def)

definition record_ok :: "repo \<Rightarrow> string option \<Rightarrow> integ \<Rightarrow> bool" where
  "record_ok g ref r \<longleftrightarrow> ir_status r \<noteq> None \<and>
     (\<forall>c. ir_candidateSha r = Some c \<longrightarrow> contains g (ir_previousTip r) c) \<and>
     (ir_status r \<in> {Some Tx_verified, Some Tx_accepted} \<longrightarrow>
        (\<exists>e. ir_candidateEvidence r = Some e \<and> ve_passed e)) \<and>
     (accepted r \<longrightarrow> (\<exists>c t. ir_candidateSha r = Some c \<and> ref = Some t \<and> contains g c t))"

definition integration_ok :: "repo \<Rightarrow> 'w integration \<Rightarrow> bool" where
  "integration_ok g w \<longleftrightarrow>
     sealed (iw_journal w) \<and> (\<forall>r \<in> set (iw_journal w). record_ok g (iw_ref w) r)"

subsection \<open>The latest record of a key\<close>

lemma latest_by_key_snoc:
  "latest_by_key (journal @ [r]) = AList.update (integrationKey r) r (latest_by_key journal)"
  by (simp add: latest_by_key_def)

lemma in_set_update:
  "p \<in> set (AList.update k v al) \<Longrightarrow> p = (k, v) \<or> p \<in> set al"
  by (induction al) (auto split: if_splits)

lemma latest_by_key_keys: "(k, r) \<in> set (latest_by_key journal) \<Longrightarrow> integrationKey r = k \<and> r \<in> set journal"
proof (induction journal rule: rev_induct)
  case (snoc x xs)
  then show ?case
    by (auto simp: latest_by_key_snoc dest!: in_set_update)
qed (simp add: latest_by_key_def)

lemma distinct_latest: "distinct (map fst (latest_by_key journal))"
  by (induction journal rule: rev_induct)
    (auto simp: latest_by_key_def latest_by_key_snoc distinct_update)

lemma latest_keys: "map integrationKey (latestIntegrationTransactions journal) = map fst (latest_by_key journal)"
  unfolding latestIntegrationTransactions_def map_map
  by (rule map_cong) (auto dest: latest_by_key_keys)

lemma latest_in_journal: "set (latestIntegrationTransactions journal) \<subseteq> set journal"
  by (auto simp: latestIntegrationTransactions_def dest: latest_by_key_keys)

lemma latest_of_accepted:
  "sealed journal \<Longrightarrow> a \<in> set journal \<Longrightarrow> accepted a \<Longrightarrow>
     map_of (latest_by_key journal) (integrationKey a) = Some a"
  by (induction journal rule: rev_induct)
    (auto simp: latest_by_key_snoc update_conv' open_key_def latest_by_key_def)

lemma latest_not_accepted_open:
  assumes "sealed journal" and "r \<in> set (latestIntegrationTransactions journal)" and "\<not> accepted r"
  shows "open_key journal (integrationKey r)"
  unfolding open_key_def
proof (intro ballI impI notI)
  fix a assume a: "a \<in> set journal" "accepted a" "integrationKey a = integrationKey r"
  obtain k where kr: "(k, r) \<in> set (latest_by_key journal)"
    using assms(2) by (auto simp: latestIntegrationTransactions_def)
  then have "map_of (latest_by_key journal) (integrationKey r) = Some r"
    using distinct_latest [of journal] by (auto dest: latest_by_key_keys map_of_is_SomeI)
  with latest_of_accepted [OF assms(1) a(1,2)] a(2,3) assms(3) show False by simp
qed

lemma find_latest_open:
  assumes "open_key journal k"
  shows "List.find (\<lambda>e. integrationKey e = k \<and> accepted e) (latestIntegrationTransactions journal) = None"
  using assms latest_in_journal [of journal] by (auto simp: find_None_iff open_key_def)

subsection \<open>Every operation keeps the invariant\<close>

lemma integration_ok_client [simp]:
  "integration_ok g (w\<lparr>iw_client := v\<rparr>) = integration_ok g w"
  by (simp add: integration_ok_def)

lemma integration_ok_tell [simp]: "integration_ok g (tell f w) = integration_ok g w"
  by (simp add: tell_def)

lemma tell_simps [simp]: "iw_ref (tell f w) = iw_ref w" "iw_journal (tell f w) = iw_journal w"
  by (simp_all add: tell_def)

lemma appendRecord_simps [simp]:
  "iw_ref (appendRecord r w) = iw_ref w"
  "iw_journal (appendRecord r w) = iw_journal w @ [r]"
  "iw_client (appendRecord r w) = iw_client w"
  by (simp_all add: appendRecord_def)

lemma integration_ok_append [simp]:
  "integration_ok g (appendRecord r w) \<longleftrightarrow>
     integration_ok g w \<and> open_key (iw_journal w) (integrationKey r) \<and> record_ok g (iw_ref w) r"
  by (auto simp: integration_ok_def)

lemma record_ok_forward:
  assumes "git_ok g" and "record_ok g (Some t) r" and "contains g t t'"
  shows "record_ok g (Some t') r"
  using assms unfolding record_ok_def git_ok_def by fastforce

lemma integration_ok_moved:
  assumes "git_ok g" and "integration_ok g w" and "iw_ref w = Some t" and "contains g t t'"
  shows "integration_ok g (w\<lparr>iw_ref := Some t'\<rparr>)"
  using assms by (auto simp: integration_ok_def intro: record_ok_forward)

lemma integration_ok_forward:
  assumes "git_ok g" and "forward g f" and "integration_ok g w"
  shows "integration_ok g (w\<lparr>iw_ref := f (iw_ref w)\<rparr>)"
proof (cases "iw_ref w")
  case None
  with assms(2,3) show ?thesis by (simp add: forward_def integration_ok_def)
next
  case (Some t)
  with assms(2) obtain t' where "f (Some t) = Some t'" "contains g t t'" by (auto simp: forward_def)
  with integration_ok_moved [OF assms(1,3) Some] Some show ?thesis by simp
qed

text \<open>What a candidate owes before it may be accepted.\<close>

definition tx_ok :: "repo \<Rightarrow> integ \<Rightarrow> bool" where
  "tx_ok g tx \<longleftrightarrow> (\<forall>c. ir_candidateSha tx = Some c \<longrightarrow> contains g (ir_previousTip tx) c) \<and>
     (\<exists>e. ir_candidateEvidence tx = Some e \<and> ve_passed e)"

lemma append_once_open:
  assumes "open_key (iw_journal w) (integrationKey tx)"
  shows "appendAccepted tx w = (tx\<lparr>ir_status := Some Tx_accepted\<rparr>,
    appendRecord (tx\<lparr>ir_status := Some Tx_accepted\<rparr>) w)"
  using find_latest_open [OF assms] by (simp add: appendAccepted_def append_once_def Let_def)

lemma key_status [simp]:
  "integrationKey (tx\<lparr>ir_status := s\<rparr>) = integrationKey tx"
  "integrationKey (tx\<lparr>ir_conflictingPaths := ps\<rparr>) = integrationKey tx"
  "integrationKey (tx\<lparr>ir_candidateEvidence := e\<rparr>) = integrationKey tx"
  "integrationKey (tx\<lparr>ir_attemptEvidence := e\<rparr>) = integrationKey tx"
  "integrationKey (tx\<lparr>ir_candidateSha := c\<rparr>) = integrationKey tx"
  by (simp_all add: integrationKey_def)

lemma accept_now_open:
  assumes "open_key (iw_journal w) (integrationKey tx)"
  shows "accept_now cl tx w = tell (\<lambda>v. cl_accepted cl v (tx\<lparr>ir_status := Some Tx_accepted\<rparr>))
    (appendRecord (tx\<lparr>ir_status := Some Tx_accepted\<rparr>) w)"
  by (simp add: accept_now_def append_once_open [OF assms] finishAccepted_def)

lemma accept_now_ok:
  assumes "integration_ok g w" and "open_key (iw_journal w) (integrationKey tx)" and "tx_ok g tx"
    and "ir_candidateSha tx = Some c" and "iw_ref w = Some t" and "contains g c t"
  shows "integration_ok g (accept_now cl tx w)"
  using assms by (simp add: accept_now_open) (simp add: record_ok_def tx_ok_def)

lemma advanceVerified_ok:
  assumes git: "git_ok g" and others: "others_ok g ot" and ok: "integration_ok g w"
    and key: "open_key (iw_journal w) (integrationKey tx)" and tx: "tx_ok g tx"
    and run: "advanceVerified g ot cl tx w = Some (res, w')"
  shows "integration_ok g w'"
proof -
  let ?w = "w\<lparr>iw_ref := ot_before ot (iw_ref w)\<rparr>"
  have ok1: "integration_ok g ?w" 
    by (rule integration_ok_forward [OF git _ ok]) (use others in \<open>simp add: others_ok_def\<close>)
  have key1: "open_key (iw_journal ?w) (integrationKey tx)" using key by simp
  from run obtain current where cur: "iw_ref ?w = Some current"
    by (cases "iw_ref ?w") (simp_all add: advanceVerified_def)
  from others obtain found where found: "ot_race ot (Some current) = Some found" "contains g current found"
    by (auto simp: others_ok_def forward_def)
  have moved: "integration_ok g (?w\<lparr>iw_ref := Some found\<rparr>)"
    by (rule integration_ok_moved [OF git ok1 cur found(2)])
  show ?thesis
  proof (cases "ir_candidateSha tx")
    case None
    with run cur ok1 show ?thesis
      by (auto simp: advanceVerified_def candidate_in_def Let_def split: if_splits)
  next
    case (Some c)
    have accept: "integration_ok g (accept_now cl tx ?w)" if "contains g c current"
      by (rule accept_now_ok [OF ok1 key1 tx Some cur that])
    have swap: "integration_ok g (accept_now cl tx (?w\<lparr>iw_ref := Some c\<rparr>))"
      if "found = ir_previousTip tx"
    proof (rule accept_now_ok [OF _ _ tx Some])
      have "contains g found c" using tx Some that by (simp add: tx_ok_def)
      then show "integration_ok g (?w\<lparr>iw_ref := Some c\<rparr>)"
        using integration_ok_moved [OF git moved, of found c] by simp
      show "contains g c c" by (simp add: contains_def)
    qed (use key in simp_all)
    from run cur Some found ok1 accept swap moved show ?thesis
      by (auto simp: advanceVerified_def candidate_in_def contains_def Let_def split: if_splits)
  qed
qed

lemma verifyAndAdvance_ok:
  assumes "git_ok g" and "others_ok g ot" and "integration_ok g w"
    and "open_key (iw_journal w) (integrationKey tx)"
    and "\<forall>c. ir_candidateSha tx = Some c \<longrightarrow> contains g (ir_previousTip tx) c"
    and "verifyAndAdvance g ot cl evidence tx w = Some (res, w')"
  shows "integration_ok g w'"
  using assms
  by (auto simp: verifyAndAdvance_def Let_def record_ok_def tx_ok_def open_key_def
      split: if_splits prod.splits sum.splits elim!: advanceVerified_ok [rotated -1])

lemma contains_refl: "contains g a a"
  and contains_ancestor: "rp_isAncestor g a b \<Longrightarrow> contains g a b"
  by (simp_all add: contains_def)

lemma git_ok_merge: "git_ok g \<Longrightarrow> rp_merge g p a = Merge_candidate c \<Longrightarrow> contains g p c"
  by (simp add: git_ok_def)

lemma prepareTransaction_ok:
  assumes "git_ok g" and "prepareTransaction g n a sha br prev = Some tx"
  shows "integrationKey tx = (n, a) \<and> ir_previousTip tx = prev \<and>
    (\<forall>c. ir_candidateSha tx = Some c \<longrightarrow> contains g prev c) \<and> ir_status tx = None"
  using assms by (auto simp: prepareTransaction_def Let_def integrationKey_def contains_refl
      contains_ancestor git_ok_merge split: if_splits merge_result.splits)

lemma appendConflict_effect:
  assumes "appendConflict tx w = (r, w')"
  shows "w' = w \<or> w' = appendRecord (tx\<lparr>ir_status := Some Tx_conflict\<rparr>) w"
  using assms by (auto simp: appendConflict_def append_once_def Let_def split: option.splits)

text \<open>A step of the loop that goes on touches the journal at its own key only.\<close>

definition own_key_only :: "integ \<Rightarrow> 'w integration \<Rightarrow> 'w integration \<Rightarrow> bool" where
  "own_key_only r w w' \<longleftrightarrow>
     (\<forall>x \<in> set (iw_journal w') - set (iw_journal w). integrationKey x = integrationKey r)"

lemma own_key_onlyD:
  "own_key_only r w w' \<Longrightarrow> open_key (iw_journal w) k \<Longrightarrow> k \<noteq> integrationKey r \<Longrightarrow>
     open_key (iw_journal w') k"
  by (auto simp: own_key_only_def open_key_def)

lemma own_key_only_simps [simp]:
  "own_key_only r w w"
  "own_key_only r w (tell f w') = own_key_only r w w'"
  "own_key_only r w (appendRecord x w) \<longleftrightarrow>
     integrationKey x = integrationKey r \<or> x \<in> set (iw_journal w)"
  by (auto simp: own_key_only_def)

lemma conflict_told:
  assumes "integration_ok g w" and "open_key (iw_journal w) (integrationKey tx)"
    and "\<forall>c. ir_candidateSha tx = Some c \<longrightarrow> contains g (ir_previousTip tx) c"
    and "integrationKey tx = integrationKey x"
    and "w' = (let (conflict, w1) = appendConflict tx w in tell (f conflict) w1)"
  shows "integration_ok g w' \<and> own_key_only x w w'"
proof -
  obtain r w1 where eq: "appendConflict tx w = (r, w1)" by fastforce
  from appendConflict_effect [OF eq] assms(1-4) have "integration_ok g w1 \<and> own_key_only x w w1"
    by (auto simp: record_ok_def)
  with eq assms(5) show ?thesis by simp
qed

lemma recover_prepared_step:
  assumes "integration_ok g w" and "open_key (iw_journal w) (integrationKey r)"
    and "record_ok g ref r" and "recover_prepared g ot cl r w = Some (Inl w')"
  shows "integration_ok g w' \<and> own_key_only r w w'"
proof (cases "w' = tell (\<lambda>v. cl_moved cl v r (iw_ref w)) w")
  case True
  with assms(1) show ?thesis by simp
next
  case False
  with assms(4) obtain ps where
    "w' = (let (conflict, w1) = appendConflict (r\<lparr>ir_conflictingPaths := ps\<rparr>) w
           in tell (\<lambda>v. cl_conflict cl v conflict) w1)"
    by (auto simp: recover_prepared_def split: if_splits option.splits)
  with assms(1-3) show ?thesis
    by (intro conflict_told [where tx = "r\<lparr>ir_conflictingPaths := ps\<rparr>"
          and f = "\<lambda>conflict v. cl_conflict cl v conflict"])
      (simp_all add: record_ok_def)
qed

lemma recover_verified_step:
  assumes ok: "integration_ok g w" and key: "open_key (iw_journal w) (integrationKey r)"
    and tx: "tx_ok g r" and run: "recover_verified g ot cl r w = Some (Inl w')"
  shows "integration_ok g w' \<and> own_key_only r w w'"
proof -
  from run obtain current where cur: "iw_ref w = Some current"
    by (auto simp: recover_verified_def split: option.splits)
  show ?thesis
  proof (cases "ir_candidateSha r")
    case None
    with run cur ok show ?thesis by (auto simp: recover_verified_def candidate_in_def split: if_splits)
  next
    case (Some c)
    have "integration_ok g (accept_now cl r w)" if "contains g c current"
      by (rule accept_now_ok [OF ok key tx Some cur that])
    moreover have "own_key_only r w (accept_now cl r w)" by (simp add: accept_now_open [OF key])
    ultimately show ?thesis using run cur Some ok
      by (auto simp: recover_verified_def candidate_in_def contains_def split: if_splits)
  qed
qed

lemma recover_record_step:
  assumes ok: "integration_ok g w"
    and key: "\<not> accepted r \<Longrightarrow> open_key (iw_journal w) (integrationKey r)"
    and r: "record_ok g ref r" and run: "recover_record g ot cl r w = Some (Inl w')"
  shows "integration_ok g w' \<and> own_key_only r w w'"
proof -
  consider (told) "accepted r" | (dead) "ir_status r \<in> {Some Tx_failed, Some Tx_conflict}"
    | (bare) "ir_status r \<in> {Some Tx_prepared, Some Tx_verified}" "ir_candidateSha r = None"
    | (prepared) "ir_status r = Some Tx_prepared" "ir_candidateSha r \<noteq> None"
    | (verified) "ir_status r = Some Tx_verified" "ir_candidateSha r \<noteq> None"
    using r by (cases "ir_status r") (auto simp: record_ok_def intro: integ_status.exhaust)
  then show ?thesis
  proof cases
    case told
    with ok run show ?thesis by (auto simp: recover_record_def finishAccepted_def)
  next
    case dead
    with ok run show ?thesis by (auto simp: recover_record_def)
  next
    case bare
    then have "w' = w \<or> w' = (let (conflict, w1) = appendConflict r w
                           in tell (\<lambda>v. cl_conflict cl v conflict) w1)"
      using run by (auto simp: recover_record_def split: if_splits)
    with bare ok key conflict_told [OF ok key, of r w' "\<lambda>conflict v. cl_conflict cl v conflict"]
    show ?thesis by auto
  next
    case prepared
    with run recover_prepared_step [OF ok key r] show ?thesis by (auto simp: recover_record_def)
  next
    case verified
    then have "tx_ok g r" using r by (simp add: record_ok_def tx_ok_def)
    with verified run recover_verified_step [OF ok key] show ?thesis by (auto simp: recover_record_def)
  qed
qed

lemma rebuild_prepared_ok:
  assumes "git_ok g" and "rebuild_prepared g r = Some tx" and "record_ok g ref r"
  shows "integrationKey tx = integrationKey r \<and>
    (\<forall>c. ir_candidateSha tx = Some c \<longrightarrow> contains g (ir_previousTip tx) c)"
proof (cases "tx = r\<lparr>ir_conflictingPaths := []\<rparr>")
  case True
  with assms(3) show ?thesis by (simp add: record_ok_def)
next
  case False
  with assms(2) have "prepareTransaction g (ir_node r) (ir_attempt r) (ir_attemptSha r) (ir_branch r)
      (ir_previousTip r) = Some tx"
    by (auto simp: rebuild_prepared_def split: if_splits)
  from prepareTransaction_ok [OF assms(1) this] show ?thesis by (simp add: integrationKey_def)
qed

lemma recover_record_end:
  assumes git: "git_ok g" and others: "others_ok g ot" and ok: "integration_ok g w"
    and key: "\<not> accepted r \<Longrightarrow> open_key (iw_journal w) (integrationKey r)"
    and r: "record_ok g ref r" and run: "recover_record g ot cl r w = Some (Inr (res, w'))"
  shows "integration_ok g w'"
proof (cases "ir_status r = Some Tx_prepared")
  case True
  with run obtain tx where tx: "rebuild_prepared g r = Some tx"
    and adv: "verifyAndAdvance g ot cl (ir_attemptEvidence r) tx w = Some (res, w')"
    by (auto simp: recover_record_def recover_prepared_def split: if_splits option.splits)
  show ?thesis
    by (rule verifyAndAdvance_ok [OF git others ok _ _ adv])
      (use rebuild_prepared_ok [OF git tx r] key True in simp_all)
next
  case False
  with run have v: "ir_status r = Some Tx_verified" "recover_verified g ot cl r w = Some (Inr (res, w'))"
    using r by (cases "ir_status r"; auto simp: recover_record_def record_ok_def split: if_splits;
      metis integ_status.exhaust)+
  then have "advanceVerified g ot cl r w = Some (res, w')"
    by (auto simp: recover_verified_def split: option.splits if_splits)
  with advanceVerified_ok [OF git others ok key] v(1) r show ?thesis
    by (simp add: record_ok_def tx_ok_def)
qed

lemma recover_loop_ok:
  assumes "git_ok g" and "others_ok g ot" and "integration_ok g w"
    and "\<forall>r \<in> set rs. record_ok g ref r \<and> (\<not> accepted r \<longrightarrow> open_key (iw_journal w) (integrationKey r))"
    and "distinct (map integrationKey rs)"
    and "recover_loop g ot cl rs w = Some (res, w')"
  shows "integration_ok g w'"
  using assms(3-6)
proof (induction rs arbitrary: w)
  case Nil
  then show ?case by simp
next
  case (Cons r rs)
  have r: "record_ok g ref r" "\<not> accepted r \<Longrightarrow> open_key (iw_journal w) (integrationKey r)"
    and other: "\<And>x. x \<in> set rs \<Longrightarrow> integrationKey x \<noteq> integrationKey r"
    using Cons.prems(2,3) by (auto simp: image_iff)
  show ?case
  proof (cases "recover_record g ot cl r w")
    case (Some out)
    show ?thesis
    proof (cases out)
      case (Inl w1)
      with Some recover_record_step [OF Cons.prems(1) r(2,1)]
      have w1: "integration_ok g w1" "own_key_only r w w1" by auto
      have "\<forall>x \<in> set rs. record_ok g ref x \<and> (\<not> accepted x \<longrightarrow> open_key (iw_journal w1) (integrationKey x))"
        using Cons.prems(2) own_key_onlyD [OF w1(2)] other by simp
      with Cons.IH [OF w1(1)] Cons.prems(3,4) Some Inl show ?thesis by simp
    next
      case (Inr p)
      with Some Cons.prems(4) recover_record_end [OF assms(1,2) Cons.prems(1) r(2,1)]
      show ?thesis by (cases p) auto
    qed
  qed (use Cons.prems(4) in simp)
qed

lemma recoverIntegrations_ok:
  assumes "git_ok g" and "others_ok g ot" and "integration_ok g w"
    and "recoverIntegrations g ot cl w = Some (res, w')"
  shows "integration_ok g w'"
proof (rule recover_loop_ok [OF assms(1-3) _ _ assms(4) [unfolded recoverIntegrations_def]])
  show "distinct (map integrationKey (latestIntegrationTransactions (iw_journal w)))"
    by (simp add: latest_keys distinct_latest)
  show "\<forall>r \<in> set (latestIntegrationTransactions (iw_journal w)).
      record_ok g (iw_ref w) r \<and> (\<not> accepted r \<longrightarrow> open_key (iw_journal w) (integrationKey r))"
    using assms(3) latest_in_journal latest_not_accepted_open by (fastforce simp: integration_ok_def)
qed

text \<open>When a new transaction begins, no record of its key was ever accepted.\<close>

lemma find_latest_key:
  "List.find (\<lambda>r. ir_node r = n \<and> ir_attempt r = a) (latestIntegrationTransactions journal) =
     map_of (latest_by_key journal) (n, a)"
proof -
  have "List.find (\<lambda>r. ir_node r = n \<and> ir_attempt r = a) (map snd m) = map_of m (n, a)"
    if "\<forall>p \<in> set m. integrationKey (snd p) = fst p" for m :: "((string \<times> nat) \<times> integ) list"
    using that by (induction m) (auto simp: integrationKey_def)
  then show ?thesis using latest_by_key_keys unfolding latestIntegrationTransactions_def by fastforce
qed

lemma begin_open:
  assumes "sealed journal" and "map_of (latest_by_key journal) k = None \<or>
    (\<exists>r. map_of (latest_by_key journal) k = Some r \<and> \<not> accepted r)"
  shows "open_key journal k"
  using assms latest_of_accepted [OF assms(1)] by (auto simp: open_key_def)

lemma integrateAttempt_ok:
  assumes git: "git_ok g" and others: "others_ok g ot" and ok: "integration_ok g w"
    and run: "integrateAttempt g ot cl n a sha br evidence w = Some (res, w')"
  shows "integration_ok g w'"
proof -
  let ?old = "map_of (latest_by_key (iw_journal w)) (n, a)"
  consider (again) r where "?old = Some r" "accepted r"
    | (resumed) r where "?old = Some r" "\<not> tx_terminal (ir_status r)"
    | (fresh) "?old = None \<or> (\<exists>r. ?old = Some r \<and> \<not> accepted r)" "\<And>r. ?old = Some r \<Longrightarrow> tx_terminal (ir_status r)"
    by (cases ?old) auto
  then show ?thesis
  proof cases
    case again
    with run ok show ?thesis by (auto simp: integrateAttempt_def find_latest_key finishAccepted_def)
  next
    case resumed
    then have "\<not> accepted r" by auto
    with resumed run have "recoverIntegrations g ot cl w = Some (res, w')"
      by (auto simp: integrateAttempt_def find_latest_key Let_def)
    with recoverIntegrations_ok git others ok show ?thesis by blast
  next
    case fresh
    have key: "open_key (iw_journal w) (n, a)"
      using begin_open [OF _ fresh(1)] ok by (simp add: integration_ok_def)
    from fresh run obtain prev tx where ref: "iw_ref w = Some prev"
      and tx: "prepareTransaction g n a sha br prev = Some tx"
      by (auto simp: integrateAttempt_def find_latest_key Let_def split: option.splits if_splits)
    let ?p = "tx\<lparr>ir_status := Some Tx_prepared, ir_attemptEvidence := evidence\<rparr>"
    note txs = prepareTransaction_ok [OF git tx]
    have prepared: "integration_ok g (appendRecord ?p w)" "open_key (iw_journal (appendRecord ?p w)) (n, a)"
      using ok key txs by (auto simp: record_ok_def open_key_def)
    show ?thesis
    proof (cases "ir_conflictingPaths tx = []")
      case True
      with fresh run ref tx obtain r where
        adv: "verifyAndAdvance g ot cl evidence tx (appendRecord ?p w) = Some (r, w')"
        by (auto simp: integrateAttempt_def find_latest_key Let_def split: option.splits if_splits)
      show ?thesis
        by (rule verifyAndAdvance_ok [OF git others prepared(1) _ _ adv])
          (use prepared(2) txs in simp_all)
    next
      case False
      with fresh run ref tx prepared txs show ?thesis
        by (auto simp: integrateAttempt_def find_latest_key Let_def record_ok_def
            split: option.splits if_splits)
    qed
  qed
qed

subsection \<open>Interrupted integrations and the reachable worlds\<close>

text \<open>
  Where an integration can stop: the stages of \<open>interruptStage\<close> and, between the accepted record
  and the client's callback, one more. What is on disk then, for a first attempt whose candidate
  verifies and whom nobody disturbs; \<open>None\<close> when that attempt does not reach the stage.
\<close>

datatype stage = Stage_prepared | Stage_before_ref | Stage_after_ref | Stage_accepted | Stage_after_state

definition interrupted ::
  "repo \<Rightarrow> 'w client \<Rightarrow> string \<Rightarrow> nat \<Rightarrow> string \<Rightarrow> string option \<Rightarrow> verification option \<Rightarrow> stage
    \<Rightarrow> 'w integration \<Rightarrow> 'w integration option" where
  "interrupted g cl n a sha br evidence stage w =
     (if map_of (latest_by_key (iw_journal w)) (n, a) \<noteq> None then None
      else case iw_ref w of
        None \<Rightarrow> None
      | Some prev \<Rightarrow>
          (case prepareTransaction g n a sha br prev of
             None \<Rightarrow> None
           | Some tx \<Rightarrow>
               if ir_candidateSha tx = None \<or> ir_conflictingPaths tx \<noteq> [] then None
               else (let w1 = appendRecord (tx\<lparr>ir_status := Some Tx_prepared,
                                                ir_attemptEvidence := evidence\<rparr>) w;
                         (v, result) = cl_verify cl (iw_client w) tx
                     in if stage = Stage_prepared then Some w1
                        else (case result of
                            Inl _ \<Rightarrow> None
                          | Inr found \<Rightarrow>
                              if \<not> ve_passed found then None
                              else (let verified = tx\<lparr>ir_attemptEvidence := evidence,
                                          ir_candidateEvidence := Some found,
                                          ir_status := Some Tx_verified\<rparr>;
                                        w2 = appendRecord verified (w1\<lparr>iw_client := v\<rparr>);
                                        w3 = w2\<lparr>iw_ref := ir_candidateSha tx\<rparr>;
                                        (r, w4) = appendAccepted verified w3
                                    in Some (case stage of
                                           Stage_prepared \<Rightarrow> w1 | Stage_before_ref \<Rightarrow> w2
                                         | Stage_after_ref \<Rightarrow> w3 | Stage_accepted \<Rightarrow> w4
                                         | Stage_after_state \<Rightarrow> finishAccepted cl r w4))))))"

lemma latest_None_open: "map_of (latest_by_key journal) k = None \<Longrightarrow> open_key journal k"
proof (induction journal rule: rev_induct)
  case (snoc x xs)
  then show ?case
    by (auto simp: latest_by_key_snoc update_conv' open_key_def split: if_splits)
qed (simp add: open_key_def)

lemma interruptedD:
  assumes "git_ok g" and "interrupted g cl n a sha br evidence stage w = Some w'"
  obtains prev tx c where "iw_ref w = Some prev" and "ir_previousTip tx = prev"
    and "integrationKey tx = (n, a)" and "ir_candidateSha tx = Some c" and "contains g prev c"
    and "ir_conflictingPaths tx = []" and "open_key (iw_journal w) (n, a)"
    and "map_of (latest_by_key (iw_journal w)) (n, a) = None"
    and "prepareTransaction g n a sha br prev = Some tx"
  using assms prepareTransaction_ok [OF assms(1)] latest_None_open
  by (auto simp: interrupted_def split: if_splits option.splits)

lemma interrupted_ok:
  assumes git: "git_ok g" and ok: "integration_ok g w"
    and run: "interrupted g cl n a sha br evidence stage w = Some w'"
  shows "integration_ok g w'"
proof -
  from interruptedD [OF git run] obtain prev tx c where
    t: "iw_ref w = Some prev" "ir_previousTip tx = prev" "integrationKey tx = (n, a)"
      "ir_candidateSha tx = Some c" "contains g prev c" "ir_conflictingPaths tx = []"
      "open_key (iw_journal w) (n, a)" "map_of (latest_by_key (iw_journal w)) (n, a) = None"
      "prepareTransaction g n a sha br prev = Some tx"
    by metis
  let ?p = "tx\<lparr>ir_status := Some Tx_prepared, ir_attemptEvidence := evidence\<rparr>"
  have w1: "integration_ok g (appendRecord ?p w)" and open1: "open_key (iw_journal w @ [?p]) (n, a)"
    using ok t by (auto simp: record_ok_def open_key_def)
  show ?thesis
  proof (cases "stage = Stage_prepared")
    case True
    with run t w1 show ?thesis by (auto simp: interrupted_def Let_def split: prod.splits)
  next
    case False
    with run t obtain v found where vf: "cl_verify cl (iw_client w) tx = (v, Inr found)" "ve_passed found"
      by (auto simp: interrupted_def Let_def split: prod.splits sum.splits if_splits)
    let ?v = "tx\<lparr>ir_attemptEvidence := evidence, ir_candidateEvidence := Some found,
      ir_status := Some Tx_verified\<rparr>"
    let ?w2 = "appendRecord ?v ((appendRecord ?p w)\<lparr>iw_client := v\<rparr>)"
    have w2: "integration_ok g ?w2" and open2: "open_key (iw_journal ?w2) (integrationKey ?v)"
      using w1 open1 t vf by (auto simp: record_ok_def open_key_def)
    have w3: "integration_ok g (?w2\<lparr>iw_ref := Some c\<rparr>)"
      by (rule integration_ok_moved [OF git w2, of prev]) (use t in simp_all)
    have w5: "integration_ok g (accept_now cl ?v (?w2\<lparr>iw_ref := Some c\<rparr>))"
      by (rule accept_now_ok [OF w3 _ _ _ _ contains_refl])
        (use open2 t vf in \<open>simp_all add: tx_ok_def\<close>)
    from w5 have w4: "integration_ok g (snd (appendAccepted ?v (?w2\<lparr>iw_ref := Some c\<rparr>)))"
      by (simp add: accept_now_def finishAccepted_def split: prod.splits)
    from run t False vf w2 w3 w4 w5 show ?thesis
      by (auto simp: interrupted_def Let_def accept_now_def split: prod.splits stage.splits)
  qed
qed

text \<open>
  What can happen to a run's integration: an attempt is integrated, an integration stops at one
  of its stages, a controller recovers, others advance the ref, the client's state changes.
\<close>

inductive integration_step :: "repo \<Rightarrow> 'w integration \<Rightarrow> 'w integration \<Rightarrow> bool" for g where
  attempt: "others_ok g ot \<Longrightarrow> integrateAttempt g ot cl n a sha br evidence w = Some (res, w') \<Longrightarrow>
    integration_step g w w'"
| stop: "interrupted g cl n a sha br evidence stage w = Some w' \<Longrightarrow> integration_step g w w'"
| recover: "others_ok g ot \<Longrightarrow> recoverIntegrations g ot cl w = Some (res, w') \<Longrightarrow> integration_step g w w'"
| elsewhere: "forward g f \<Longrightarrow> integration_step g w (w\<lparr>iw_ref := f (iw_ref w)\<rparr>)"
| client: "integration_step g w (w\<lparr>iw_client := v\<rparr>)"

lemma integration_step_ok:
  "integration_step g w w' \<Longrightarrow> git_ok g \<Longrightarrow> integration_ok g w \<Longrightarrow> integration_ok g w'"
  by (induction rule: integration_step.induct)
    (auto intro: integrateAttempt_ok interrupted_ok recoverIntegrations_ok integration_ok_forward)

lemma integration_reachable_ok:
  assumes "(integration_step g)\<^sup>*\<^sup>* w w'" and "git_ok g" and "integration_ok g w"
  shows "integration_ok g w'"
  using assms by (induction rule: rtranclp_induct) (auto intro: integration_step_ok)

lemma sealed_accepted_once:
  "sealed journal \<Longrightarrow> length (filter (\<lambda>r. accepted r \<and> integrationKey r = k) journal) \<le> 1"
proof (induction journal)
  case (Cons r rs)
  have "filter (\<lambda>r. accepted r \<and> integrationKey r = k) rs = []" if "accepted r" "integrationKey r = k"
    using Cons.prems that by (auto simp: filter_empty_conv image_iff)
  with Cons show ?case by auto
qed simp

text \<open>
  C1. Work a run accepted is never lost and never unverified: starting from an empty journal,
  whatever attempts are integrated, wherever they stop, however often controllers recover and
  whoever else advances the ref, every accepted attempt's candidate passed its verification in
  the integration worktree and lies in the history of the run's ref, and no attempt is accepted
  twice.
\<close>

theorem accepted_work_is_kept:
  assumes "git_ok g" and "(integration_step g)\<^sup>*\<^sup>* \<lparr>iw_ref = ref, iw_journal = [], iw_client = v\<rparr> w"
  shows "(\<forall>r \<in> set (iw_journal w). ir_status r = Some Tx_accepted \<longrightarrow>
      (\<exists>c t e. ir_candidateSha r = Some c \<and> iw_ref w = Some t \<and> (c = t \<or> rp_isAncestor g c t) \<and>
         ir_candidateEvidence r = Some e \<and> ve_passed e)) \<and>
    (\<forall>k. length (filter (\<lambda>r. ir_status r = Some Tx_accepted \<and> integrationKey r = k) (iw_journal w)) \<le> 1)"
proof -
  have "integration_ok g w"
    by (rule integration_reachable_ok [OF assms(2,1)]) (simp add: integration_ok_def)
  then show ?thesis using sealed_accepted_once
    by (auto simp: integration_ok_def record_ok_def contains_def)
qed

text \<open>
  A repository whose commits are words and whose history is the prefix-length order, a client
  that records whom it was told about, and a run: \<open>a\<close> is integrated, \<open>b\<close> stops after the ref moved
  and is recovered.
\<close>

definition sample_repo :: repo where
  "sample_repo = \<lparr>rp_diffEmpty = (\<lambda>p a. p = a), rp_isAncestor = (\<lambda>a b. length a < length b),
     rp_merge = (\<lambda>p a. if a = [] then Merge_error else Merge_candidate (p @ a)),
     rp_exists = (\<lambda>_. True)\<rparr>"

definition sample_verification :: verification where
  "sample_verification = \<lparr>ve_passed = True, ve_commands = [], ve_error = None, ve_retried = [], ve_completed = False\<rparr>"

definition sample_client :: "string list client" where
  "sample_client = \<lparr>cl_verify = (\<lambda>v _. (v, Inr sample_verification)),
     cl_accepted = (\<lambda>v r. if ir_node r \<in> set v then v else v @ [ir_node r]),
     cl_failed = (\<lambda>v _ _. v), cl_conflict = (\<lambda>v _. v), cl_moved = (\<lambda>v _ _. v)\<rparr>"

definition sample_start :: "string list integration" where
  "sample_start = \<lparr>iw_ref = Some ''base'', iw_journal = [], iw_client = []\<rparr>"

definition sample_done :: "string list integration" where
  "sample_done = snd (the (integrateAttempt sample_repo quiet sample_client ''a'' 1 ''base-a'' None None
     sample_start))"

definition sample_stopped :: "string list integration" where
  "sample_stopped = the (interrupted sample_repo sample_client ''b'' 1 ''b'' None None Stage_after_ref
     sample_done)"

definition sample_recovered :: "string list integration" where
  "sample_recovered = snd (the (recoverIntegrations sample_repo quiet sample_client sample_stopped))"

lemma sample_repo_ok: "git_ok sample_repo"
  by (auto simp: git_ok_def contains_def sample_repo_def split: if_splits)

theorem accepted_work_is_kept_witness:
  "iw_ref sample_recovered = Some ''base-ab'' \<and>
   map ir_node (filter (\<lambda>r. ir_status r = Some Tx_accepted) (iw_journal sample_recovered)) =
     [''a'', ''b''] \<and>
   length (filter (\<lambda>r. ir_status r = Some Tx_accepted \<and> integrationKey r = (''b'', 1))
     (iw_journal sample_recovered)) \<le> 1"
proof -
  have runs: "integrateAttempt sample_repo quiet sample_client ''a'' 1 ''base-a'' None None sample_start
      = Some (Some (Out_accepted (Some ''base-a'')), sample_done)"
    "interrupted sample_repo sample_client ''b'' 1 ''b'' None None Stage_after_ref sample_done =
       Some sample_stopped"
    "recoverIntegrations sample_repo quiet sample_client sample_stopped = Some (None, sample_recovered)"
    by code_simp+
  have "(integration_step sample_repo)\<^sup>*\<^sup>* sample_start sample_recovered"
    using integration_step.attempt [OF quiet_ok runs(1)] integration_step.stop [OF runs(2)]
      integration_step.recover [OF quiet_ok runs(3)]
    by (meson r_into_rtranclp rtranclp_trans)
  from accepted_work_is_kept [OF sample_repo_ok this [unfolded sample_start_def]]
  have "length (filter (\<lambda>r. ir_status r = Some Tx_accepted \<and> integrationKey r = (''b'', 1))
     (iw_journal sample_recovered)) \<le> 1" by blast
  moreover have "iw_ref sample_recovered = Some ''base-ab''"
    "map ir_node (filter (\<lambda>r. ir_status r = Some Tx_accepted) (iw_journal sample_recovered)) =
       [''a'', ''b'']"
    by code_simp+
  ultimately show ?thesis by blast
qed

end
