(* ===== verification/Worker_Result.thy ===== *)
theory Worker_Result
  imports Judge_Gate
begin

text \<open>
  What a worker may report (\<open>src/contract/worker-result.mjs\<close>, \<open>requireText\<close> of
  \<open>src/contract/assert.mjs\<close>): the shape and the byte ceilings of a worker result, and the repair a
  bad one is answered with.

  \<open>JSON.parse\<close> and the way \<open>JSON.stringify\<close> writes a number are arguments. The validation of the
  task packet inside a discovery result is the argument \<open>packet\<close>: the error it throws, if any.
\<close>

section \<open>JSON text\<close>

definition hex_digit :: "nat \<Rightarrow> char" where
  "hex_digit n = ''0123456789abcdef'' ! (n mod 16)"

definition json_char :: "char \<Rightarrow> string" where
  "json_char c =
     (let n = (of_char c :: nat)
      in if n = 34 \<or> n = 92 then [byte 92, c]
         else if n = 8 then [byte 92, CHR ''b''] else if n = 9 then [byte 92, CHR ''t'']
         else if n = 10 then [byte 92, CHR ''n''] else if n = 12 then [byte 92, CHR ''f'']
         else if n = 13 then [byte 92, CHR ''r'']
         else if n < 32 then byte 92 # ''u00'' @ [hex_digit (n div 16), hex_digit n]
         else [c])"

definition json_string :: "string \<Rightarrow> string" where
  "json_string s = byte 34 # concat (map json_char s) @ [byte 34]"

fun stringify :: "(rat \<Rightarrow> string) \<Rightarrow> json \<Rightarrow> string" where
  "stringify num J_null = ''null''"
| "stringify num (J_bool b) = (if b then ''true'' else ''false'')"
| "stringify num (J_num q) = num q"
| "stringify num (J_str s) = json_string s"
| "stringify num (J_arr xs) = ''['' @ join_with '','' (map (stringify num) xs) @ '']''"
| "stringify num (J_obj ps) =
     ''{'' @ join_with '','' (map (\<lambda>p. json_string (fst p) @ '':'' @ stringify num (snd p)) ps) @ ''}''"

section \<open>Errors\<close>

datatype result_error =
    Size_ceiling string nat nat
  | Bad_result string
  | Output_not_allowed

fun result_error_message :: "result_error \<Rightarrow> string" where
  "result_error_message (Size_ceiling field limit actual) =
     field @ '' is '' @ show_nat actual @ '' bytes, over the '' @ show_nat limit @ ''-byte ceiling''"
| "result_error_message (Bad_result message) = message"
| "result_error_message Output_not_allowed =
     ''worker result.output is only allowed for a discovery node, not execution''"

fun invalidResultRepair :: "result_error \<Rightarrow> string" where
  "invalidResultRepair (Size_ceiling field limit actual) =
     ''the result breaks a size ceiling: '' @ field @ '' is '' @ show_nat actual @
     '' bytes, over the '' @ show_nat limit @
     ''-byte ceiling. Keep every field within its ceiling; a node that delivers through `output` sends `artifacts` as [] and never copies `output` into `artifacts`.''"
| "invalidResultRepair _ =
     ''the entire final message must be exactly the required JSON object: no markdown fences, no prose before or after it. Return it as the only content of the final message.''"

section \<open>Validation\<close>

definition result_bytes :: nat where "result_bytes = 32 * 1024"
definition result_summaryBytes :: nat where "result_summaryBytes = 4 * 1024"
definition result_arrayItems :: nat where "result_arrayItems = 32"
definition result_itemBytes :: nat where "result_itemBytes = 2 * 1024"
definition result_artifactBytes :: nat where "result_artifactBytes = 16 * 1024"
definition result_missingContextItems :: nat where "result_missingContextItems = 16"
definition result_outputBytes :: nat where "result_outputBytes = 64 * 1024"

definition requireText :: "json \<Rightarrow> string \<Rightarrow> nat \<Rightarrow> result_error + string" where
  "requireText value label maxBytes =
     (case value of
        J_str s \<Rightarrow>
          if trim s = [] then Inl (Bad_result (label @ '' must be a non-empty string''))
          else if length s > maxBytes
          then Inl (Bad_result (label @ '' exceeds '' @ show_nat maxBytes @ '' bytes''))
          else Inr s
      | _ \<Rightarrow> Inl (Bad_result (label @ '' must be a non-empty string'')))"

fun read_items :: "string \<Rightarrow> nat \<Rightarrow> nat \<Rightarrow> json list \<Rightarrow> result_error + string list" where
  "read_items label itemBytes i [] = Inr []"
| "read_items label itemBytes i (J_str s # xs) =
     (if length s > itemBytes
      then Inl (Size_ceiling (label @ ''['' @ show_nat i @ '']'') itemBytes (length s))
      else map_sum id (Cons s) (read_items label itemBytes (i + 1) xs))"
| "read_items label itemBytes i (_ # xs) =
     Inl (Bad_result (label @ ''['' @ show_nat i @ ''] must be a string''))"

definition requireList :: "json \<Rightarrow> string \<Rightarrow> nat \<Rightarrow> nat \<Rightarrow> result_error + string list" where
  "requireList value label maxItems itemBytes =
     (case value of
        J_arr xs \<Rightarrow>
          if length xs > maxItems
          then Inl (Bad_result (label @ '' must be an array with at most '' @ show_nat maxItems @ '' items''))
          else read_items label itemBytes 0 xs
      | _ \<Rightarrow> Inl (Bad_result (label @ '' must be an array with at most '' @ show_nat maxItems @ '' items'')))"

definition required_fields :: "string list" where
  "required_fields = [''status'', ''summary'', ''verification'', ''artifacts'', ''missingContext'']"

fun show_worker_status :: "worker_status \<Rightarrow> string" where
  "show_worker_status Ws_done = ''done''"
| "show_worker_status Ws_blocked_context = ''blocked_context''"

definition read_worker_status :: "json \<Rightarrow> worker_status option" where
  "read_worker_status value =
     (if value = J_str ''done'' then Some Ws_done
      else if value = J_str ''blocked_context'' then Some Ws_blocked_context else None)"

text \<open>The envelope whose bytes are bounded, and the result written as the worker writes it.\<close>

definition result_envelope :: "worker_result \<Rightarrow> (string \<times> json) list" where
  "result_envelope r =
     [(''status'', J_str (show_worker_status (wr_status r))), (''summary'', J_str (wr_summary r)),
      (''verification'', J_arr (map J_str (wr_verification r))),
      (''artifacts'', J_arr (map J_str (wr_artifacts r))),
      (''missingContext'', J_arr (map J_str (wr_missingContext r)))]"

definition write_worker_result :: "worker_result \<Rightarrow> json" where
  "write_worker_result r =
     J_obj (result_envelope r @ (case wr_output r of None \<Rightarrow> [] | Some j \<Rightarrow> [(''output'', j)]))"

definition read_output :: "(rat \<Rightarrow> string) \<Rightarrow> json option \<Rightarrow> result_error + json option" where
  "read_output num found =
     (case found of
        None \<Rightarrow> Inr None
      | Some (J_obj ps) \<Rightarrow>
          (let n = length (stringify num (J_obj ps))
           in if n > result_outputBytes
              then Inl (Size_ceiling ''worker result.output'' result_outputBytes n)
              else Inr (Some (J_obj ps)))
      | Some _ \<Rightarrow> Inl (Bad_result ''worker result.output must be an object''))"

definition check_context :: "worker_status \<Rightarrow> string list \<Rightarrow> result_error option" where
  "check_context status missing =
     (if status = Ws_blocked_context \<and> missing = []
      then Some (Bad_result ''worker result.missingContext must not be empty for blocked_context'')
      else if status = Ws_done \<and> missing \<noteq> []
      then Some (Bad_result ''worker result.missingContext must be empty for done'')
      else None)"

definition check_envelope :: "(rat \<Rightarrow> string) \<Rightarrow> worker_result \<Rightarrow> result_error + worker_result" where
  "check_envelope num r =
     (let n = length (stringify num (J_obj (result_envelope r)))
      in if n > result_bytes then Inl (Size_ceiling ''worker result'' result_bytes n) else Inr r)"

definition read_lists :: "json \<Rightarrow> result_error + (string list \<times> string list \<times> string list)" where
  "read_lists value =
     (let get = (\<lambda>k. nullish (field_of value k) J_null)
      in case requireList (get ''verification'') ''worker result.verification'' result_arrayItems result_itemBytes of
           Inl e \<Rightarrow> Inl e
         | Inr v \<Rightarrow>
             (case requireList (get ''artifacts'') ''worker result.artifacts'' result_arrayItems result_artifactBytes of
                Inl e \<Rightarrow> Inl e
              | Inr a \<Rightarrow>
                  (case requireList (get ''missingContext'') ''worker result.missingContext''
                          result_missingContextItems result_itemBytes of
                     Inl e \<Rightarrow> Inl e
                   | Inr m \<Rightarrow> Inr (v, a, m))))"

definition validateWorkerResult :: "(rat \<Rightarrow> string) \<Rightarrow> json \<Rightarrow> result_error + worker_result" where
  "validateWorkerResult num value =
     (let get = (\<lambda>k. nullish (field_of value k) J_null)
      in if \<not> (case value of J_obj _ \<Rightarrow> True | _ \<Rightarrow> False)
         then Inl (Bad_result ''worker result must be an object'')
         else if field_of value ''changedFiles'' \<noteq> None
         then Inl (Bad_result ''worker result.changedFiles is derived by the controller and must not be declared'')
         else case List.find (\<lambda>k. field_of value k = None) required_fields of
                Some k \<Rightarrow> Inl (Bad_result (''worker result.'' @ k @ '' is required''))
              | None \<Rightarrow>
          (case read_worker_status (get ''status'') of
             None \<Rightarrow> Inl (Bad_result ''worker result.status must be done or blocked_context'')
           | Some status \<Rightarrow>
          (case requireText (get ''summary'') ''worker result.summary'' result_summaryBytes of
             Inl e \<Rightarrow> Inl e
           | Inr summary \<Rightarrow>
          (case read_lists value of
             Inl e \<Rightarrow> Inl e
           | Inr (v, a, m) \<Rightarrow>
          (case check_context status m of
             Some e \<Rightarrow> Inl e
           | None \<Rightarrow>
          (case read_output num (field_of value ''output'') of
             Inl e \<Rightarrow> Inl e
           | Inr out \<Rightarrow>
               check_envelope num
                 \<lparr>wr_status = status, wr_summary = summary, wr_verification = v, wr_artifacts = a,
                  wr_missingContext = m, wr_output = out\<rparr>))))))"

definition parseWorkerResult ::
  "(rat \<Rightarrow> string) \<Rightarrow> (string \<Rightarrow> string + json) \<Rightarrow> string \<Rightarrow> result_error + worker_result" where
  "parseWorkerResult num parse value =
     (let ceiling = result_bytes + result_outputBytes
      in if length value > ceiling then Inl (Size_ceiling ''worker result'' ceiling (length value))
         else case parse value of
                Inl e \<Rightarrow> Inl (Bad_result (''worker result is invalid JSON: '' @ e))
              | Inr j \<Rightarrow> validateWorkerResult num j)"

text \<open>
  \<open>readWorkerResultFile\<close>: the node's canonical result in the run directory. A file that is there and
  does not hold a result is an error, and the error is a plain one: which ceiling a too large result
  broke is in its message only.
\<close>

definition readWorkerResultFile ::
  "(rat \<Rightarrow> string) \<Rightarrow> (string \<Rightarrow> string + json) \<Rightarrow> run_dir \<Rightarrow> string \<Rightarrow> result_error + worker_result option" where
  "readWorkerResultFile num parse rd nodeId =
     (case map_of (rd_results rd) nodeId of
        None \<Rightarrow> Inr None
      | Some t \<Rightarrow>
          (let wrong = (\<lambda>m. Inl (Bad_result
                 (''canonical worker result results/'' @ nodeId @ ''.json is invalid: '' @ m)))
           in case parse t of
                Inl e \<Rightarrow> wrong e
              | Inr j \<Rightarrow>
                  (case parseWorkerResult num parse (stringify num j) of
                     Inl e \<Rightarrow> wrong (result_error_message e)
                   | Inr r \<Rightarrow> Inr (Some r))))"

lemma canonical_error_is_plain: "readWorkerResultFile num parse rd i = Inl e \<Longrightarrow> \<exists>m. e = Bad_result m"
  by (auto simp: readWorkerResultFile_def Let_def split: option.splits sum.splits)

definition discoveryOutput :: "worker_result \<Rightarrow> json option" where
  "discoveryOutput r = wr_output r"

text \<open>A discovery result carries exactly one artifact, an execution packet; only the verdict matters here.\<close>

definition parseDiscoveryResult ::
  "(string \<Rightarrow> string + json) \<Rightarrow> (json \<Rightarrow> string option) \<Rightarrow> worker_result \<Rightarrow> result_error option" where
  "parseDiscoveryResult parse packet r =
     (if wr_status r \<noteq> Ws_done then Some (Bad_result ''discovery result must have status done'')
      else case wr_artifacts r of
             [a] \<Rightarrow>
               (case parse a of
                  Inl e \<Rightarrow> Some (Bad_result (''discovery task packet artifact is invalid JSON: '' @ e))
                | Inr j \<Rightarrow>
                    (case packet j of
                       Some e \<Rightarrow> Some (Bad_result e)
                     | None \<Rightarrow>
                         if field_of j ''mode'' \<noteq> Some (J_str ''execution'')
                         then Some (Bad_result ''discovery task packet artifact must be execution mode'')
                         else None))
           | _ \<Rightarrow> Some (Bad_result ''discovery result must contain exactly one task packet artifact''))"

section \<open>What is accepted\<close>

definition items_ok :: "nat \<Rightarrow> nat \<Rightarrow> string list \<Rightarrow> bool" where
  "items_ok maxItems itemBytes xs \<longleftrightarrow> length xs \<le> maxItems \<and> list_all (\<lambda>s. length s \<le> itemBytes) xs"

definition output_ok :: "(rat \<Rightarrow> string) \<Rightarrow> json option \<Rightarrow> bool" where
  "output_ok num found =
     (case found of
        None \<Rightarrow> True
      | Some (J_obj ps) \<Rightarrow> length (stringify num (J_obj ps)) \<le> result_outputBytes
      | Some _ \<Rightarrow> False)"

text \<open>The protocol of a worker result: what the controller relies on once one is accepted.\<close>

definition worker_result_ok :: "(rat \<Rightarrow> string) \<Rightarrow> worker_result \<Rightarrow> bool" where
  "worker_result_ok num r \<longleftrightarrow>
     trim (wr_summary r) \<noteq> [] \<and> length (wr_summary r) \<le> result_summaryBytes \<and>
     items_ok result_arrayItems result_itemBytes (wr_verification r) \<and>
     items_ok result_arrayItems result_artifactBytes (wr_artifacts r) \<and>
     items_ok result_missingContextItems result_itemBytes (wr_missingContext r) \<and>
     (wr_status r = Ws_blocked_context \<longleftrightarrow> wr_missingContext r \<noteq> []) \<and>
     output_ok num (wr_output r) \<and>
     length (stringify num (J_obj (result_envelope r))) \<le> result_bytes"

lemma map_sum_Cons: "map_sum id (Cons s) x = Inr xs \<longleftrightarrow> (\<exists>ys. xs = s # ys \<and> x = Inr ys)"
  by (cases x) auto

lemma read_items_iff:
  "read_items label m i js = Inr xs \<longleftrightarrow> js = map J_str xs \<and> list_all (\<lambda>s. length s \<le> m) xs"
proof (induction label m i js arbitrary: xs rule: read_items.induct)
  case (2 label m i s js)
  show ?case
  proof (cases "length s \<le> m")
    case True
    with 2 [of "tl xs"] show ?thesis by (cases xs) (auto simp add: map_sum_Cons)
  next
    case False
    then show ?thesis by (cases xs) auto
  qed
qed auto

lemma requireList_iff:
  "requireList j label n m = Inr xs \<longleftrightarrow> j = J_arr (map J_str xs) \<and> items_ok n m xs"
  by (cases j) (auto simp: requireList_def items_ok_def read_items_iff)

lemma requireText_iff:
  "requireText j label n = Inr s \<longleftrightarrow> j = J_str s \<and> trim s \<noteq> [] \<and> length s \<le> n"
  by (cases j) (auto simp: requireText_def)

lemma read_output_iff:
  "read_output num found = Inr out \<longleftrightarrow> out = found \<and> output_ok num found"
  by (auto simp: read_output_def output_ok_def Let_def split: option.splits json.splits)

lemma check_context_iff:
  "check_context st m = None \<longleftrightarrow> (st = Ws_blocked_context \<longleftrightarrow> m \<noteq> [])"
  by (cases st) (auto simp: check_context_def)

lemma read_worker_status_iff:
  "read_worker_status j = Some st \<longleftrightarrow> j = J_str (show_worker_status st)"
  by (cases st) (auto simp: read_worker_status_def)

lemma read_lists_iff:
  "read_lists j = Inr (v, a, m) \<longleftrightarrow>
     nullish (field_of j ''verification'') J_null = J_arr (map J_str v) \<and>
     items_ok result_arrayItems result_itemBytes v \<and>
     nullish (field_of j ''artifacts'') J_null = J_arr (map J_str a) \<and>
     items_ok result_arrayItems result_artifactBytes a \<and>
     nullish (field_of j ''missingContext'') J_null = J_arr (map J_str m) \<and>
     items_ok result_missingContextItems result_itemBytes m"
proof -
  have "read_lists j = Inr (v, a, m) \<longleftrightarrow>
    requireList (nullish (field_of j ''verification'') J_null) ''worker result.verification''
      result_arrayItems result_itemBytes = Inr v \<and>
    requireList (nullish (field_of j ''artifacts'') J_null) ''worker result.artifacts''
      result_arrayItems result_artifactBytes = Inr a \<and>
    requireList (nullish (field_of j ''missingContext'') J_null) ''worker result.missingContext''
      result_missingContextItems result_itemBytes = Inr m"
    by (auto simp: read_lists_def Let_def split: sum.splits)
  then show ?thesis by (auto simp: requireList_iff)
qed

lemma validateWorkerResult_iff:
  "validateWorkerResult num j = Inr r \<longleftrightarrow>
     (case j of J_obj _ \<Rightarrow> True | _ \<Rightarrow> False) \<and> field_of j ''changedFiles'' = None \<and>
     field_of j ''status'' = Some (J_str (show_worker_status (wr_status r))) \<and>
     field_of j ''summary'' = Some (J_str (wr_summary r)) \<and>
     field_of j ''verification'' = Some (J_arr (map J_str (wr_verification r))) \<and>
     field_of j ''artifacts'' = Some (J_arr (map J_str (wr_artifacts r))) \<and>
     field_of j ''missingContext'' = Some (J_arr (map J_str (wr_missingContext r))) \<and>
     field_of j ''output'' = wr_output r \<and> worker_result_ok num r" (is "_ \<longleftrightarrow> ?rhs")
proof -
  have fields: "nullish (field_of j k) J_null = x \<longleftrightarrow> field_of j k = Some x" if "x \<noteq> J_null" for k x
    using that by (cases "field_of j k") auto
  have found: "List.find (\<lambda>k. field_of j k = None) required_fields = None \<longleftrightarrow>
      (\<forall>k \<in> set required_fields. field_of j k \<noteq> None)" by (auto simp: find_None_iff)
  have env: "check_envelope num x = Inr r \<longleftrightarrow>
      x = r \<and> length (stringify num (J_obj (result_envelope r))) \<le> result_bytes" for x
    by (auto simp: check_envelope_def Let_def)
  show ?thesis
  proof
    assume "validateWorkerResult num j = Inr r"
    then obtain st s v a m out where steps: "(case j of J_obj _ \<Rightarrow> True | _ \<Rightarrow> False)"
      "field_of j ''changedFiles'' = None"
      "read_worker_status (nullish (field_of j ''status'') J_null) = Some st"
      "requireText (nullish (field_of j ''summary'') J_null) ''worker result.summary'' result_summaryBytes = Inr s"
      "read_lists j = Inr (v, a, m)" "check_context st m = None"
      "read_output num (field_of j ''output'') = Inr out"
      "check_envelope num \<lparr>wr_status = st, wr_summary = s, wr_verification = v, wr_artifacts = a,
         wr_missingContext = m, wr_output = out\<rparr> = Inr r"
      unfolding validateWorkerResult_def Let_def
      by (auto split: if_splits option.splits sum.splits prod.splits)
    then show ?rhs
      by (auto simp: env fields read_worker_status_iff requireText_iff read_lists_iff check_context_iff
          read_output_iff worker_result_ok_def)
  next
    assume r: ?rhs
    then have "\<forall>k \<in> set required_fields. field_of j k \<noteq> None" by (simp add: required_fields_def)
    moreover have "read_worker_status (nullish (field_of j ''status'') J_null) = Some (wr_status r)"
      "requireText (nullish (field_of j ''summary'') J_null) ''worker result.summary'' result_summaryBytes
         = Inr (wr_summary r)"
      "read_lists j = Inr (wr_verification r, wr_artifacts r, wr_missingContext r)"
      "check_context (wr_status r) (wr_missingContext r) = None"
      "read_output num (field_of j ''output'') = Inr (wr_output r)"
      "check_envelope num \<lparr>wr_status = wr_status r, wr_summary = wr_summary r,
         wr_verification = wr_verification r, wr_artifacts = wr_artifacts r,
         wr_missingContext = wr_missingContext r, wr_output = wr_output r\<rparr> = Inr r"
      using r by (auto simp: env read_worker_status_iff requireText_iff read_lists_iff check_context_iff
          read_output_iff worker_result_ok_def)
    ultimately show "validateWorkerResult num j = Inr r"
      using r found unfolding validateWorkerResult_def Let_def by simp
  qed
qed

text \<open>
  What is accepted obeys the protocol, and every result that obeys it is accepted as it was written;
  so a result read back from the canonical file is the one that was accepted.
\<close>

lemma worker_result_roundtrip:
  "worker_result_ok num r \<longleftrightarrow> validateWorkerResult num (write_worker_result r) = Inr r"
  "validateWorkerResult num j = Inr r \<Longrightarrow> validateWorkerResult num (write_worker_result r) = Inr r"
  by (auto simp: validateWorkerResult_iff write_worker_result_def result_envelope_def worker_result_ok_def
      output_ok_def split: option.splits)

definition accepted_result :: worker_result where
  "accepted_result = \<lparr>wr_status = Ws_done, wr_summary = ''ok'', wr_verification = [], wr_artifacts = [],
     wr_missingContext = [], wr_output = None\<rparr>"

lemma accepted_ok:
  "worker_result_ok (\<lambda>q. []) accepted_result"
  "validateWorkerResult (\<lambda>q. []) (write_worker_result accepted_result) = Inr accepted_result"
proof -
  show "worker_result_ok (\<lambda>q. []) accepted_result"
    by (simp add: worker_result_ok_def accepted_result_def trim_def is_space_def items_ok_def
        result_bytes_def result_summaryBytes_def output_ok_def result_envelope_def json_string_def
        json_char_def)
  then show "validateWorkerResult (\<lambda>q. []) (write_worker_result accepted_result) = Inr accepted_result"
    using worker_result_roundtrip(1) by blast
qed

text \<open>
  C35. A worker result that is accepted obeys the protocol (its bounds, and a refusal exactly when it
  names missing context), and the canonical file round trips: a result written to it is the result
  every later reader adopts, provided its text parses back and stays within the ceiling of a result
  file.
\<close>

theorem canonical_result_roundtrip:
  assumes "parse (stringify num (write_worker_result r)) = Inr (write_worker_result r)"
    and "length (stringify num (write_worker_result r)) \<le> result_bytes + result_outputBytes"
    and "validateWorkerResult num j = Inr r"
  shows "worker_result_ok num r \<and> readWorkerResultFile num parse (rd\<lparr>rd_results :=
      AList.update nodeId (stringify num (write_worker_result r)) (rd_results rd)\<rparr>) nodeId = Inr (Some r)"
proof -
  have "worker_result_ok num r" using assms(3) by (simp add: validateWorkerResult_iff)
  moreover have "validateWorkerResult num (write_worker_result r) = Inr r"
    using worker_result_roundtrip(2) [OF assms(3)] .
  ultimately show ?thesis
    using assms(1,2) by (simp add: readWorkerResultFile_def parseWorkerResult_def update_conv')
qed

theorem canonical_result_roundtrip_witness:
  "worker_result_ok (\<lambda>q. []) accepted_result \<and>
   readWorkerResultFile (\<lambda>q. []) (\<lambda>t. Inr (write_worker_result accepted_result)) (sample_run_dir\<lparr>rd_results :=
      AList.update ''a'' (stringify (\<lambda>q. []) (write_worker_result accepted_result)) (rd_results sample_run_dir)\<rparr>)
     ''a'' = Inr (Some accepted_result)"
proof (rule canonical_result_roundtrip [where j = "write_worker_result accepted_result"])
  show "length (stringify (\<lambda>q. []) (write_worker_result accepted_result)) \<le> result_bytes + result_outputBytes"
    by (simp add: write_worker_result_def result_envelope_def accepted_result_def json_string_def json_char_def
        result_bytes_def result_outputBytes_def)
qed (simp_all add: accepted_ok)

end
