(* ===== verification/Dispatch.thy ===== *)
theory Dispatch
  imports Previous_Attempt Integration Worker_Result
begin

text \<open>
  Starting an attempt: \<open>startWorker\<close>, \<open>startMechanicalGate\<close> and \<open>startJudge\<close> of
  \<open>src/engine/dispatch.mjs\<close>, and the deferral a refused spawn leaves (\<open>src/engine/aux-admission.mjs\<close>).

  What lies outside the controller is the argument \<open>outside\<close>: whether the worktree can be made,
  whether the workspace still has its boundary, whether the prompt fits, what the campaign's
  reserve says, what the proofs on the machine answer, and whether the provider's process starts.
  The attempt's own copy of its result, the reservation's own bookkeeping and the fields
  \<open>review\<close>, \<open>sameProviderReview\<close> and \<open>declaredReadBytes\<close>, which no decision here reads, are left out.
\<close>

section \<open>The controller's world\<close>

text \<open>
  The run directory, the node's snapshot in memory, the live jobs (\<open>None\<close> is the \<open>null\<close> a
  recovering controller passes), the attentions raised, which the queue keeps once per key, and the
  machine's own stores.
\<close>

record ctl =
  ce_rd :: run_dir
  ce_state :: snapshot
  ce_running :: "holders option"
  ce_attention :: "(string \<times> string) list"
  ce_host :: host

datatype spawn =
    Spawned string
  | Spawn_failed "string option" string string

record outside =
  oe_workspace :: "snap_error + (worktree \<times> boundary) option"
  oe_workerPromptBytes :: "snapshot \<Rightarrow> nat"
  oe_boundaryError :: "snap_error option"
  oe_reserve :: "role \<Rightarrow> snap_error option"
  oe_spawn :: "role \<Rightarrow> spawn"
  oe_machine :: machine
  oe_judgePromptBytes :: "snapshot \<Rightarrow> nat"
  oe_campaignId :: "string option"
  oe_continuation :: "role \<Rightarrow> string option"
  oe_promptPath :: "role \<Rightarrow> string"
  oe_parse :: "string \<Rightarrow> string + json"
  oe_num :: "rat \<Rightarrow> string"

definition on_state :: "(snapshot \<Rightarrow> snapshot) \<Rightarrow> ctl \<Rightarrow> ctl" where
  "on_state f c = c\<lparr>ce_state := f (ce_state c)\<rparr>"

definition persist :: "ctl \<Rightarrow> ctl" where
  "persist c = c\<lparr>ce_rd := writeNode (ce_rd c) (ce_state c)\<rparr>"

definition move :: "status \<Rightarrow> (snapshot \<Rightarrow> snapshot) \<Rightarrow> int \<Rightarrow> ctl \<Rightarrow> ctl" where
  "move st patch now c =
     (let (rd, s) = transition (ce_rd c) (ce_state c) st patch now
      in c\<lparr>ce_rd := rd, ce_state := s\<rparr>)"

definition stop_with :: "status \<Rightarrow> phase \<Rightarrow> snap_error \<Rightarrow> int \<Rightarrow> ctl \<Rightarrow> ctl" where
  "stop_with st ph e = move st (\<lambda>s. s\<lparr>ns_phase := ph, ns_error := Some e\<rparr>)"

definition raiseNodeAttention :: "string \<Rightarrow> ctl \<Rightarrow> ctl" where
  "raiseNodeAttention code c =
     (let key = (ns_id (ce_state c), code)
      in if key \<in> set (ce_attention c) then c
         else c\<lparr>ce_attention := ce_attention c @ [key]\<rparr>)"

definition settle_in :: "invocation \<Rightarrow> settle_request \<Rightarrow> int \<Rightarrow> ctl \<Rightarrow> ctl" where
  "settle_in i request now c =
     c\<lparr>ce_rd := nullish (settleInvocation (ce_rd c) (Some i) (in_id i) request now) (ce_rd c)\<rparr>"

definition empty_scope :: "boundary \<Rightarrow> scope" where
  "empty_scope b = \<lparr>sc_changedPathCount = Some 0, sc_changedPaths = Some [], sc_unexpectedPaths = [],
     sc_unexpectedPathCount = Some 0, sc_boundary = Some b, sc_truncated = False\<rparr>"

text \<open>The next state of the previous attempt's open settlement.\<close>

definition settle_previous :: "int \<Rightarrow> ctl \<Rightarrow> ctl" where
  "settle_previous now c =
     (case last_opt (ns_invocations (ce_state c)) of
        None \<Rightarrow> c
      | Some i \<Rightarrow>
          if hasOperationSettlement (ce_rd c) (in_id i)
          then settle_in i (empty_request\<lparr>sr_nextState := Put (Some (operationNextState (ce_state c)))\<rparr>)
                 now c
          else c)"

text \<open>\<open>onInvocation\<close>: the invocation is stamped, persisted on the node and its intent recorded.\<close>

definition record_invocation :: "outside \<Rightarrow> role \<Rightarrow> string \<Rightarrow> string \<Rightarrow> string \<Rightarrow> int \<Rightarrow> ctl \<Rightarrow> ctl" where
  "record_invocation oe role nodeId i runtimeId now c =
     (let s = ce_state c;
          prompt = oe_promptPath oe role;
          invoc = (stampInvocation (fresh_invocation i role runtimeId (ns_revisions s)) s
            (rd_basename (ce_rd c)) (oe_campaignId oe) role (oe_continuation oe role))
            \<lparr>in_startedAt := Some (Iso now), in_promptPath := Some prompt,
             in_snapshotPath := (if role = Worker then Some (prompt @ ''.snapshot.json'') else None)\<rparr>;
          c1 = persist (on_state (\<lambda>s. s\<lparr>ns_invocations := ns_invocations s @ [invoc]\<rparr>) c)
      in c1\<lparr>ce_rd := persistInvocationIntent (ce_rd c1) invoc nodeId role\<rparr>)"

text \<open>
  The process is started, or not: then the last persisted invocation is settled as failed when it
  has an intent nobody settled, and the node fails.
\<close>

definition not_started :: "role \<Rightarrow> snap_error \<Rightarrow> int \<Rightarrow> ctl \<Rightarrow> ctl" where
  "not_started role e now c =
     (let c1 = (case last_opt (ns_invocations (ce_state c)) of
            None \<Rightarrow> c
          | Some i \<Rightarrow>
              if hasOperationIntent (ce_rd c) (in_id i) \<and> operationNeedsRecovery (ce_rd c) (in_id i)
              then settle_in i (empty_request\<lparr>sr_status := Some ''failed'',
                     sr_error := Some (er_code e, er_message e),
                     sr_reason := Some ''provider did not start'',
                     sr_nextState := Put (Some (operationNextState (ce_state c)))\<rparr>) now c
              else c)
      in stop_with Failed (role_phase role) e now c1)"

definition run_process :: "outside \<Rightarrow> role \<Rightarrow> node \<Rightarrow> string \<Rightarrow> int \<Rightarrow> ctl \<Rightarrow> ctl" where
  "run_process oe role node runtimeId now c =
     (case oe_spawn oe role of
        Spawned i \<Rightarrow>
          (let c1 = move Running (\<lambda>s. s\<lparr>ns_phase := role_phase role, ns_runtime := Some runtimeId,
                      ns_error := (if role = Worker then None else ns_error s)\<rparr>) now
                    (record_invocation oe role (nd_id node) i runtimeId now c)
           in c1\<lparr>ce_running := map_option (AList.update (nd_id node) runtimeId) (ce_running c1)\<rparr>)
      | Spawn_failed persisted code message \<Rightarrow>
          not_started role (mk_error (if role = Worker then ''spawn_error'' else code) message) now
            (case persisted of
               None \<Rightarrow> c
             | Some i \<Rightarrow> record_invocation oe role (nd_id node) i runtimeId now c))"

section \<open>Starting a worker\<close>

definition worker_reset :: "string \<Rightarrow> snapshot \<Rightarrow> snapshot" where
  "worker_reset runtimeId s =
     s\<lparr>ns_phase := Ph_worker, ns_runtime := Some runtimeId, ns_result := None,
       ns_verification := None, ns_scope := None\<rparr>"

definition started :: "boundary \<Rightarrow> int \<Rightarrow> snapshot \<Rightarrow> snapshot" where
  "started b now s =
     s\<lparr>ns_startedAt := Some (nullish (ns_startedAt s) (Iso now)), ns_error := None,
       ns_scope := Some (empty_scope b)\<rparr>"

text \<open>The boundary the workspace is compared against, or why there is none.\<close>

definition persistedScopeBoundary :: "outside \<Rightarrow> node \<Rightarrow> snapshot \<Rightarrow> snap_error + boundary" where
  "persistedScopeBoundary oe node s =
     (case Option.bind (ns_scope s) sc_boundary of
        None \<Rightarrow> Inl (mk_error ''scope_boundary_missing''
                  (''node '' @ nd_id node @ '' has no persisted worker scope boundary''))
      | Some b \<Rightarrow> (case oe_boundaryError oe of Some e \<Rightarrow> Inl e | None \<Rightarrow> Inr b))"

text \<open>
  \<open>startWorker\<close>; \<open>None\<close> is the error of a node routed to an unknown runtime. The session policy
  is consumed whatever happens next.
\<close>

text \<open>
  The canonical result of an earlier attempt: a rejected one, an unreadable one and a refusal are
  cleared, any other stays for the attempt to adopt.
\<close>

definition clear_stale_result :: "outside \<Rightarrow> string \<Rightarrow> ctl \<Rightarrow> ctl" where
  "clear_stale_result oe nodeId c =
     (let existing = (case readWorkerResultFile (oe_num oe) (oe_parse oe) (ce_rd c) nodeId of
            Inl _ \<Rightarrow> None | Inr found \<Rightarrow> found)
      in if map_option gr_verdict (ns_gate (ce_state c)) = Some V_fail \<or> existing = None \<or>
            map_option wr_status existing = Some Ws_blocked_context
         then c\<lparr>ce_rd := (ce_rd c)\<lparr>rd_results := AList.delete nodeId (rd_results (ce_rd c))\<rparr>\<rparr>
         else c)"

definition launch_worker :: "outside \<Rightarrow> node \<Rightarrow> string \<Rightarrow> boundary \<Rightarrow> int \<Rightarrow> ctl \<Rightarrow> ctl" where
  "launch_worker oe node runtimeId b now c =
     (let c1 = settle_previous now (clear_stale_result oe (nd_id node)
            (on_state (worker_reset runtimeId) c));
          c2 = persist (on_state (started b now) c1)
      in case oe_reserve oe Worker of
           Some e \<Rightarrow> stop_with Blocked Ph_worker e now c2
         | None \<Rightarrow> run_process oe Worker node runtimeId now c2)"

definition provision :: "(worktree \<times> boundary) option \<Rightarrow> ctl \<Rightarrow> ctl" where
  "provision made c =
     (case made of
        None \<Rightarrow> c
      | Some (wt, b) \<Rightarrow>
          persist (on_state (\<lambda>s. s\<lparr>ns_worktree := Some wt, ns_scope := Some (empty_scope b)\<rparr>) c))"

definition failed_worktree :: "snapshot \<Rightarrow> snapshot" where
  "failed_worktree s =
     s\<lparr>ns_worktree := Some ((nullish (ns_worktree s) empty_worktree)\<lparr>wt_status := Wt_failed\<rparr>)\<rparr>"

definition startWorker :: "contract \<Rightarrow> node \<Rightarrow> outside \<Rightarrow> int \<Rightarrow> ctl \<Rightarrow> ctl option" where
  "startWorker contract node oe now c0 =
     (let c = on_state (\<lambda>s. s\<lparr>ns_forceFresh := False\<rparr>) c0
      in case oe_workspace oe of
           Inl e \<Rightarrow> Some (stop_with Failed Ph_worker e now (on_state failed_worktree c))
         | Inr made \<Rightarrow>
             (let c1 = provision made c
              in case routeRuntimeForState contract node (ce_state c1) Worker now of
                   None \<Rightarrow> None
                 | Some (i, rt) \<Rightarrow>
                     if oe_workerPromptBytes oe (ce_state c1) > 64 * 1024
                     then Some (stop_with Failed Ph_worker
                            (mk_error ''worker_prompt_too_large'' ''worker prompt exceeds 65536 bytes'')
                            now c1)
                     else (case persistedScopeBoundary oe node (ce_state c1) of
                         Inl e \<Rightarrow> Some (stop_with Failed Ph_worker e now c1)
                       | Inr b \<Rightarrow> Some (launch_worker oe node i b now c1))))"

section \<open>Starting a judge\<close>

text \<open>What a judge round came to before any verdict of a provider.\<close>

datatype round = Rejected gate_result | Settle "gate_result option" | Dispatched | Refused

definition startMechanicalGate :: "node \<Rightarrow> outside \<Rightarrow> snapshot \<Rightarrow> round" where
  "startMechanicalGate node oe state =
     (let (verdict, results) = deterministicGate (oe_machine oe) node False (ns_verification state)
      in if gr_verdict verdict = V_fail then Rejected verdict
         else Settle (if results = [] then None else Some verdict))"

text \<open>
  \<open>startJudge\<close>: the proofs first, and no judge when they fail, when the scope skips it or when no
  item needs judgment. A re-asked judge's proofs are not run again.
\<close>

definition launch_judge :: "outside \<Rightarrow> node \<Rightarrow> string \<Rightarrow> int \<Rightarrow> ctl \<Rightarrow> round \<times> ctl" where
  "launch_judge oe node runtimeId now c =
     (let c1 = settle_previous now
            (on_state (\<lambda>s. s\<lparr>ns_phase := Ph_judge, ns_runtime := Some runtimeId\<rparr>) c)
      in case oe_reserve oe Judge of
           Some e \<Rightarrow> (Refused, stop_with Blocked Ph_judge e now c1)
         | None \<Rightarrow>
             if oe_judgePromptBytes oe (ce_state c1) > 64 * 1024
             then (Dispatched, not_started Judge
                     (mk_error ''judge_prompt_too_large'' ''judge prompt exceeds 65536 bytes'') now c1)
             else (Dispatched, run_process oe Judge node runtimeId now c1))"

definition startJudge :: "contract \<Rightarrow> node \<Rightarrow> outside \<Rightarrow> int \<Rightarrow> ctl \<Rightarrow> (round \<times> ctl) option" where
  "startJudge contract node oe now c =
     (let reask = judgeReaskReason (ce_state c) \<noteq> None;
          (verdict, results) = deterministicGate (oe_machine oe) node reask
            (ns_verification (ce_state c))
      in case routeRuntimeForState contract node (ce_state c) Judge now of
           None \<Rightarrow> None
         | Some (i, rt) \<Rightarrow>
             if gr_verdict verdict = V_fail then Some (Rejected verdict, c)
             else if judgeSkippedByScope node (ce_state c) \<or> \<not> judgeRequired node
             then Some (Settle (Some verdict), c)
             else Some (launch_judge oe node i now c))"

section \<open>Spawns that have to wait\<close>

definition recordAuxRefusal :: "status \<Rightarrow> role \<Rightarrow> refusal_reason \<Rightarrow> ctl \<Rightarrow> ctl" where
  "recordAuxRefusal from' role reason c =
     c\<lparr>ce_rd := appendTransitionEvent (ce_rd c) (ce_state c) from' Pending
          (Det_aux_refusal role reason)\<rparr>"

text \<open>The node's snapshot is one of the run's; what others see of it is what it holds now.\<close>

definition states_now :: "states \<Rightarrow> ctl \<Rightarrow> states" where
  "states_now states c = AList.update (ns_id (ce_state c)) (ce_state c) states"

definition aux_admission ::
  "contract \<Rightarrow> node \<Rightarrow> states \<Rightarrow> role \<Rightarrow> int \<Rightarrow> holders \<Rightarrow> ctl \<Rightarrow> (string \<times> refusal_reason option) option" where
  "aux_admission contract node states role now running c =
     auxSpawnAdmission contract node (ce_state c) running (states_now states c) role now"

definition auxJudgeRound ::
  "contract \<Rightarrow> node \<Rightarrow> outside \<Rightarrow> states \<Rightarrow> int \<Rightarrow> holders \<Rightarrow> ctl \<Rightarrow> (round \<times> ctl) option" where
  "auxJudgeRound contract node oe states now running c =
     (case aux_admission contract node states Judge now running c of
        None \<Rightarrow> None
      | Some (i, Some reason) \<Rightarrow>
          Some (Refused, recordAuxRefusal (ns_status (ce_state c)) Judge reason
            (move Pending (\<lambda>s. s\<lparr>ns_phase := Ph_judge, ns_error := None, ns_blockedBy := []\<rparr>) now c))
      | Some (i, None) \<Rightarrow> startJudge contract node oe now c)"

section \<open>What starting an attempt keeps\<close>

text \<open>
  A step of the controller on one node: same node, same run, the review budget untouched, and the
  node is running only with a live job.
\<close>

definition has_job :: "ctl \<Rightarrow> bool" where
  "has_job c \<longleftrightarrow> (\<exists>r. ce_running c = Some r \<and> map_of r (ns_id (ce_state c)) \<noteq> None)"

definition same_node :: "ctl \<Rightarrow> ctl \<Rightarrow> bool" where
  "same_node c c' \<longleftrightarrow> ns_id (ce_state c') = ns_id (ce_state c) \<and>
     ns_revisions (ce_state c') = ns_revisions (ce_state c) \<and>
     ns_attempt (ce_state c') = ns_attempt (ce_state c) \<and>
     ns_executionOverrides (ce_state c') = ns_executionOverrides (ce_state c) \<and>
     (ce_running c' = None \<longleftrightarrow> ce_running c = None)"

lemma same_node_refl [simp]: "same_node c c"
  by (simp add: same_node_def)

lemma same_node_trans: "same_node a b \<Longrightarrow> same_node b c \<Longrightarrow> same_node a c"
  by (simp add: same_node_def)

lemma on_state_simps [simp]:
  "ce_state (on_state f c) = f (ce_state c)" "ce_rd (on_state f c) = ce_rd c"
  "ce_running (on_state f c) = ce_running c" "ce_attention (on_state f c) = ce_attention c"
  by (simp_all add: on_state_def)

lemma persist_simps [simp]:
  "ce_state (persist c) = ce_state c" "ce_running (persist c) = ce_running c"
  "ce_attention (persist c) = ce_attention c"
  by (simp_all add: persist_def)

lemma settle_in_simps [simp]:
  "ce_state (settle_in i r now c) = ce_state c" "ce_running (settle_in i r now c) = ce_running c"
  "ce_attention (settle_in i r now c) = ce_attention c"
  by (simp_all add: settle_in_def)

lemma move_simps [simp]:
  "ce_state (move st patch now c) =
     (patch (ce_state c))\<lparr>ns_status := st, ns_updatedAt := Some (Iso now)\<rparr>"
  "ce_running (move st patch now c) = ce_running c"
  "ce_attention (move st patch now c) = ce_attention c"
  using transition_frame(3) [of "ce_rd c" "ce_state c" st patch now]
  by (simp_all add: move_def case_prod_beta)

lemma attention_simps [simp]:
  "ce_state (raiseNodeAttention code c) = ce_state c"
  "ce_running (raiseNodeAttention code c) = ce_running c"
  "ce_rd (raiseNodeAttention code c) = ce_rd c"
  by (simp_all add: raiseNodeAttention_def Let_def)

lemma settle_previous_simps [simp]:
  "ce_state (settle_previous now c) = ce_state c" "ce_running (settle_previous now c) = ce_running c"
  by (simp_all add: settle_previous_def split: option.splits)

lemma clear_stale_simps [simp]:
  "ce_state (clear_stale_result oe n c) = ce_state c"
  "ce_running (clear_stale_result oe n c) = ce_running c"
  by (simp_all add: clear_stale_result_def Let_def)

lemma record_invocation_simps [simp]:
  "ce_running (record_invocation oe role n i rt now c) = ce_running c"
  "ns_status (ce_state (record_invocation oe role n i rt now c)) = ns_status (ce_state c)"
  "same_node c (record_invocation oe role n i rt now c)"
  by (simp_all add: record_invocation_def Let_def same_node_def)

lemma not_started_simps [simp]:
  "same_node c (not_started role e now c)"
  "ns_status (ce_state (not_started role e now c)) = Failed"
  "ce_running (not_started role e now c) = ce_running c"
  by (auto simp: not_started_def Let_def stop_with_def same_node_def split: option.splits)

lemmas same_nodeD = same_node_def [THEN iffD1, THEN conjunct1]
  same_node_def [THEN iffD1, THEN conjunct2, THEN conjunct1]
  same_node_def [THEN iffD1, THEN conjunct2, THEN conjunct2, THEN conjunct1]
  same_node_def [THEN iffD1, THEN conjunct2, THEN conjunct2, THEN conjunct2, THEN conjunct1]
  same_node_def [THEN iffD1, THEN conjunct2, THEN conjunct2, THEN conjunct2, THEN conjunct2]

lemmas recorded = record_invocation_simps(3) [THEN same_nodeD(1)]
  record_invocation_simps(3) [THEN same_nodeD(2)] record_invocation_simps(3) [THEN same_nodeD(3)]
  record_invocation_simps(3) [THEN same_nodeD(4)]

lemma run_process_step:
  assumes "ns_id (ce_state c) = nd_id node" and "ce_running c \<noteq> None"
    and c'_def: "c' = run_process oe role node rt now c"
  shows "same_node c c'"
    and "ns_status (ce_state c') = Failed \<or> ns_status (ce_state c') = Running \<and> has_job c'"
proof -
  show "same_node c c'"
  proof (cases "oe_spawn oe role")
    case (Spawned i)
    then show ?thesis by (simp add: c'_def run_process_def Let_def same_node_def recorded)
  next
    case (Spawn_failed p code message)
    then show ?thesis
      by (cases p) (auto simp: c'_def run_process_def
          intro: same_node_trans [OF record_invocation_simps(3) not_started_simps(1)])
  qed
  show "ns_status (ce_state c') = Failed \<or> ns_status (ce_state c') = Running \<and> has_job c'"
    using assms(1,2)
    by (cases "oe_spawn oe role")
      (auto simp: c'_def run_process_def Let_def has_job_def update_conv' recorded split: option.splits)
qed

lemma launch_worker_step:
  assumes "ns_id (ce_state c) = nd_id node" and "ce_running c \<noteq> None"
    and c'_def: "c' = launch_worker oe node rt b now c"
  shows "same_node c c'"
    and "ns_status (ce_state c') \<in> {Failed, Blocked} \<or> ns_status (ce_state c') = Running \<and> has_job c'"
proof -
  define d where "d = persist (on_state (started b now) (settle_previous now
    (clear_stale_result oe (nd_id node) (on_state (worker_reset rt) c))))"
  have d: "same_node c d" "ns_id (ce_state d) = nd_id node" "ce_running d \<noteq> None"
    using assms by (simp_all add: d_def same_node_def started_def worker_reset_def)
  have c': "c' = (case oe_reserve oe Worker of Some e \<Rightarrow> stop_with Blocked Ph_worker e now d
                  | None \<Rightarrow> run_process oe Worker node rt now d)"
    unfolding c'_def launch_worker_def d_def Let_def ..
  have blocked: "same_node d (stop_with Blocked Ph_worker e now d)" for e
    by (simp add: stop_with_def same_node_def)
  show "same_node c c'"
    using same_node_trans [OF d(1) blocked] same_node_trans [OF d(1) run_process_step(1) [OF d(2,3) refl]]
    by (simp add: c' split: option.split)
  show "ns_status (ce_state c') \<in> {Failed, Blocked} \<or> ns_status (ce_state c') = Running \<and> has_job c'"
    using run_process_step(2) [OF d(2,3) refl] by (auto simp: c' stop_with_def split: option.split)
qed

end
