(* ===== verification/Run_Command.thy ===== *)
theory Run_Command
  imports Dispatch "HOL-Library.List_Lexorder" "HOL-Library.Char_ord" "HOL-Library.Product_Lexorder"
begin

text \<open>
  Running a node's verification commands (\<open>src/engine/run-command.mjs\<close>), the mutation runs a
  command may ask for (\<open>src/engine/mutation.mjs\<close>), the validation of commands and the bounded
  record of their results (\<open>src/contract/verification.mjs\<close>).

  What a started process does is an argument: the chunks it writes, how it ends, how long it
  takes. A command's working directory, the process group and the files written to the log
  directory are left out; a checkpoint an earlier run left behind is the argument \<open>served\<close>.
\<close>

section \<open>Limits and validation\<close>

definition maxCommands :: nat where "maxCommands = 32"
definition maxRepeat :: nat where "maxRepeat = 8"
definition maxTimeoutSec :: rat where "maxTimeoutSec = 1800"
definition maxArgvBytes :: nat where "maxArgvBytes = 32 * 1024"
definition maxEnvBytes :: nat where "maxEnvBytes = 8 * 1024"
definition stdoutBytes :: nat where "stdoutBytes = 16 * 1024"
definition stateStdoutBytes :: nat where "stateStdoutBytes = 2 * 1024"
definition stateCommands :: nat where "stateCommands = 16"
definition stateAttempts :: nat where "stateAttempts = 4"
definition stateArgvBytes :: nat where "stateArgvBytes = 8 * 1024"
definition stateEnvBytes :: nat where "stateEnvBytes = 4 * 1024"

definition bytes_of :: "string list \<Rightarrow> nat" where
  "bytes_of items = sum_list (map length items)"

text \<open>\<open>/^[A-Za-z_][A-Za-z0-9_]*$/\<close>\<close>

definition env_name :: "string \<Rightarrow> bool" where
  "env_name s = (case s of [] \<Rightarrow> False | c # cs \<Rightarrow> is_word_char c \<and> \<not> is_digit c \<and> list_all is_word_char cs)"

definition validateVerificationCommand :: "command \<Rightarrow> string \<Rightarrow> string + command" where
  "validateVerificationCommand c label =
     (let argv = cmd_argv c;
          timeoutSec = nullish (cmd_timeoutSec c) 120;
          repeat = nullish (cmd_repeat c) 1;
          env = nullish (cmd_env c) []
      in if argv = [] \<or> length argv > 64 \<or> list_ex (\<lambda>a. trim a = [] \<or> length a > 8 * 1024) argv
         then Inl (label @ ''.argv must be a non-empty array of strings'')
         else if bytes_of argv > maxArgvBytes then Inl (label @ ''.argv exceeds aggregate byte limit'')
         else if timeoutSec \<le> 0 \<or> timeoutSec > maxTimeoutSec
         then Inl (label @ ''.timeoutSec must be between 0 and 1800'')
         else if repeat = 0 \<or> repeat > maxRepeat
         then Inl (label @ ''.repeat must be between 1 and 8'')
         else if list_ex (\<lambda>e. \<not> env_name e) env
         then Inl (label @ ''.env must be an array of environment-variable names'')
         else if bytes_of env > maxEnvBytes then Inl (label @ ''.env exceeds aggregate byte limit'')
         else Inr (c\<lparr>cmd_timeoutSec := Some timeoutSec, cmd_repeat := Some repeat,
                     cmd_env := Some env\<rparr>))"

fun validate_each :: "command list \<Rightarrow> nat \<Rightarrow> string \<Rightarrow> string + command list" where
  "validate_each [] i label = Inr []"
| "validate_each (c # cs) i label =
     (case validateVerificationCommand c (label @ ''['' @ show_nat i @ '']'') of
        Inl e \<Rightarrow> Inl e
      | Inr c' \<Rightarrow> (case validate_each cs (i + 1) label of Inl e \<Rightarrow> Inl e | Inr cs' \<Rightarrow> Inr (c' # cs')))"

definition validateVerificationCommands :: "command list \<Rightarrow> string \<Rightarrow> string + command list" where
  "validateVerificationCommands commands label =
     (if length commands > maxCommands
      then Inl (label @ '' must be an array of at most 32 command objects'')
      else validate_each commands 0 label)"

section \<open>One process\<close>

text \<open>\<open>boundedTail\<close>: the last bytes of a stream, cut at a character after every chunk.\<close>

definition tail_add :: "nat \<Rightarrow> string \<Rightarrow> string \<Rightarrow> string" where
  "tail_add maxBytes chunk kept =
     (let s = kept @ chunk
      in if length s > maxBytes then drop (advance s (length s - maxBytes)) s else s)"

definition boundedTail :: "nat \<Rightarrow> string list \<Rightarrow> string" where
  "boundedTail maxBytes chunks = fold (tail_add maxBytes) chunks []"

record process_end =
  px_stdout :: "string list"
  px_stderr :: "string list"
  px_exitCode :: "int option"
  px_signal :: "string option"
  px_timedOut :: bool
  px_error :: "string option"
  px_durationMs :: rat

definition runCommand :: "process_end \<Rightarrow> command_attempt" where
  "runCommand p =
     \<lparr>at_exitCode = px_exitCode p, at_timedOut = px_timedOut p,
      at_stdout = boundedTail stdoutBytes (px_stdout p),
      at_stderr = boundedTail stdoutBytes (px_stderr p),
      at_signal = px_signal p, at_error = px_error p, at_durationMs = px_durationMs p,
      at_passed = (px_error p = None \<and> \<not> px_timedOut p \<and> px_exitCode p = Some 0 \<and> px_signal p = None),
      at_signalDeath = False\<rparr>"

section \<open>One command\<close>

text \<open>
  What the machine does with one start of a command: its number among the starts of this command,
  and the files of the workspace. Nobody aborts a run here.
\<close>

type_synonym files = "(string \<times> string) list"
type_synonym runner = "nat \<Rightarrow> files \<Rightarrow> process_end"

definition signalDeathRetry :: "command_attempt \<Rightarrow> bool" where
  "signalDeathRetry r = (at_signal r \<noteq> None \<and> at_signal r \<noteq> Some [] \<and> \<not> at_timedOut r)"

text \<open>A start killed by a signal is kept, marked, and started again once.\<close>

fun repeat_loop :: "nat \<Rightarrow> runner \<Rightarrow> files \<Rightarrow> nat \<Rightarrow> command_attempt list" where
  "repeat_loop 0 run fs k = []"
| "repeat_loop (Suc n) run fs k =
     (let r = runCommand (run k fs)
      in if signalDeathRetry r
         then r\<lparr>at_signalDeath := True\<rparr> # runCommand (run (k + 1) fs) # repeat_loop n run fs (k + 2)
         else r # repeat_loop n run fs (k + 1))"

definition result_of :: "command \<Rightarrow> bool \<Rightarrow> command_attempt list \<Rightarrow> command_result" where
  "result_of c passed attempts =
     \<lparr>cr_argv = cmd_argv c, cr_env = nullish (cmd_env c) [], cr_passed = passed, cr_attempts = attempts\<rparr>"

definition runRepeatedCommand :: "command \<Rightarrow> runner \<Rightarrow> files \<Rightarrow> command_result" where
  "runRepeatedCommand c run fs =
     (let attempts = repeat_loop (nullish (cmd_repeat c) 1) run fs 1
      in result_of c (list_all at_passed (filter (\<lambda>a. \<not> at_signalDeath a) attempts)) attempts)"

section \<open>Mutation runs\<close>

definition MUTATION_BUDGET :: nat where "MUTATION_BUDGET = 8"
definition MUTATION_TIME_BUDGET_MS :: rat where "MUTATION_TIME_BUDGET_MS = 30000"

fun MUTATION_TIERS :: "mutation_tier \<Rightarrow> rat" where
  "MUTATION_TIERS Mt_high = 1"
| "MUTATION_TIERS Mt_medium = 3 / 4"
| "MUTATION_TIERS Mt_low = 1 / 2"

definition MUTATION_SUBSTITUTIONS :: "(string \<times> string) list" where
  "MUTATION_SUBSTITUTIONS =
     [(''!=='', ''===''), (''==='', ''!==''), (''<='', ''<''), (''>='', ''>''), (''&&'', ''||''),
      (''||'', ''&&'')]"

definition operator_at :: "string \<Rightarrow> (string \<times> string) option" where
  "operator_at s = List.find (\<lambda>p. starts_with s (fst p)) MUTATION_SUBSTITUTIONS"

lemma operator_at_nonempty: "operator_at s = Some (f, t) \<Longrightarrow> f \<noteq> []"
  by (auto simp: operator_at_def MUTATION_SUBSTITUTIONS_def split: if_splits)

text \<open>\<open>text.matchAll(MUTATION_PATTERN)\<close>: the matches do not overlap.\<close>

function operators_from :: "nat \<Rightarrow> string \<Rightarrow> (nat \<times> string \<times> string) list" where
  "operators_from n s =
     (if s = [] then []
      else case operator_at s of
             None \<Rightarrow> operators_from (n + 1) (tl s)
           | Some (f, t) \<Rightarrow> (n, f, t) # operators_from (n + length f) (drop (length f) s))"
  by pat_completeness auto

termination
  by (relation "measure (length \<circ> snd)") (auto simp: operator_at_nonempty)

declare operators_from.simps [simp del]

record mutation_site =
  mc_path :: string
  mc_offset :: nat
  mc_from :: string
  mc_to :: string

definition mutationCandidates :: "files \<Rightarrow> string list \<Rightarrow> mutation_site list" where
  "mutationCandidates fs writeFiles =
     sort_key (\<lambda>c. (mc_path c, mc_offset c))
       (concat (map (\<lambda>p. case map_of fs p of
            None \<Rightarrow> []
          | Some t \<Rightarrow> map (\<lambda>(n, f, u). \<lparr>mc_path = p, mc_offset = n, mc_from = f, mc_to = u\<rparr>)
                        (operators_from 0 t))
          (sort (remdups writeFiles))))"

text \<open>\<open>Math.round\<close> of \<open>index * last / (budget - 1)\<close>\<close>

definition evenlySpaced :: "'a list \<Rightarrow> nat \<Rightarrow> 'a list" where
  "evenlySpaced xs budget =
     (if length xs \<le> budget then xs
      else map (\<lambda>i. xs ! ((2 * i * (length xs - 1) + (budget - 1)) div (2 * (budget - 1)))) [0..<budget])"

record mutation_run =
  mr_files :: files
  mr_originals :: files
  mr_attempts :: "command_attempt list"
  mr_killed :: nat
  mr_spentMs :: rat

definition mutant :: "mutation_site \<Rightarrow> string \<Rightarrow> string" where
  "mutant c original =
     take (mc_offset c) original @ mc_to c @ drop (mc_offset c + length (mc_from c)) original"

definition mutation_step :: "runner \<Rightarrow> mutation_site \<Rightarrow> mutation_run \<Rightarrow> mutation_run" where
  "mutation_step run c st =
     (let original = nullish (orelse (map_of (mr_originals st) (mc_path c))
            (map_of (mr_files st) (mc_path c))) [];
          r = runCommand (run (length (mr_attempts st) + 1)
                (AList.update (mc_path c) (mutant c original) (mr_files st)))
      in \<lparr>mr_files = AList.update (mc_path c) original
                       (AList.update (mc_path c) (mutant c original) (mr_files st)),
          mr_originals = AList.update (mc_path c) original (mr_originals st),
          mr_attempts = mr_attempts st @ [r],
          mr_killed = mr_killed st + (if at_passed r then 0 else 1),
          mr_spentMs = mr_spentMs st + at_durationMs r\<rparr>)"

fun mutation_loop :: "runner \<Rightarrow> rat \<Rightarrow> mutation_site list \<Rightarrow> mutation_run \<Rightarrow> mutation_run" where
  "mutation_loop run attemptMs [] st = st"
| "mutation_loop run attemptMs (c # cs) st =
     (if attemptMs > 0 \<and> mr_spentMs st + attemptMs > MUTATION_TIME_BUDGET_MS then st
      else mutation_loop run attemptMs cs (mutation_step run c st))"

definition mutation_sample :: "files \<Rightarrow> string list \<Rightarrow> mutation_site list" where
  "mutation_sample fs writeFiles = evenlySpaced (mutationCandidates fs writeFiles) MUTATION_BUDGET"

definition runMutation ::
  "mutation_tier \<Rightarrow> runner \<Rightarrow> files \<Rightarrow> string list \<Rightarrow> bool \<times> mutation_run" where
  "runMutation tier run fs writeFiles =
     (let sample = mutation_sample fs writeFiles;
          baseline = runCommand (run 1 fs);
          st = \<lparr>mr_files = fs, mr_originals = [], mr_attempts = [baseline], mr_killed = 0,
                mr_spentMs = at_durationMs baseline\<rparr>
      in if \<not> at_passed baseline then (False, st)
         else (let st' = mutation_loop run (at_durationMs baseline) sample st
               in (sample = [] \<or>
                   of_nat (mr_killed st') / of_nat (length sample) \<ge> MUTATION_TIERS tier, st')))"

definition runMutationCommand :: "command \<Rightarrow> mutation_tier \<Rightarrow> runner \<Rightarrow> files \<Rightarrow> string list \<Rightarrow> command_result" where
  "runMutationCommand c tier run fs writeFiles =
     (let (passed, st) = runMutation tier run fs writeFiles in result_of c passed (mr_attempts st))"

section \<open>A verification\<close>

text \<open>
  Every command runs, whatever came of the ones before it; a result served from a checkpoint is
  taken as it is, and a mutation entry is never served one. \<open>Inl\<close> is a thrown error.
\<close>

definition run_one ::
  "(nat \<Rightarrow> runner) \<Rightarrow> files \<Rightarrow> string list \<Rightarrow> (nat \<Rightarrow> command_result option) \<Rightarrow> nat \<times> command
    \<Rightarrow> command_result" where
  "run_one machine fs writeFiles served p =
     (let (i, c) = p
      in case cmd_mutation c of
           Some tier \<Rightarrow> runMutationCommand c tier (machine i) fs writeFiles
         | None \<Rightarrow> (case served i of Some r \<Rightarrow> r | None \<Rightarrow> runRepeatedCommand c (machine i) fs))"

definition runVerification ::
  "command list \<Rightarrow> (nat \<Rightarrow> runner) \<Rightarrow> files \<Rightarrow> string list \<Rightarrow> (nat \<Rightarrow> command_result option)
    \<Rightarrow> string + verification" where
  "runVerification commands machine fs writeFiles served =
     (case validateVerificationCommands commands ''verification'' of
        Inl e \<Rightarrow> Inl e
      | Inr validated \<Rightarrow>
          (let results = map (run_one machine fs writeFiles served) (List.enumerate 0 validated)
           in Inr \<lparr>ve_passed = list_all cr_passed results, ve_commands = results, ve_error = None,
                   ve_retried = [], ve_completed = False\<rparr>))"

text \<open>The record a node keeps: a bounded prefix of the commands.\<close>

definition compact_attempt :: "command_attempt \<Rightarrow> command_attempt" where
  "compact_attempt a =
     a\<lparr>at_stdout := tailText (at_stdout a) stateStdoutBytes,
       at_stderr := tailText (at_stderr a) stateStdoutBytes\<rparr>"

fun compact_commands :: "nat \<Rightarrow> nat \<Rightarrow> nat \<Rightarrow> command_result list \<Rightarrow> command_result list" where
  "compact_commands kept argvBytes envBytes [] = []"
| "compact_commands kept argvBytes envBytes (c # cs) =
     (if kept \<ge> stateCommands \<or> argvBytes + bytes_of (cr_argv c) > stateArgvBytes \<or>
         envBytes + bytes_of (cr_env c) > stateEnvBytes then []
      else c\<lparr>cr_attempts := map compact_attempt (take stateAttempts (cr_attempts c))\<rparr> #
           compact_commands (kept + 1) (argvBytes + bytes_of (cr_argv c))
             (envBytes + bytes_of (cr_env c)) cs)"

definition compactVerification :: "verification \<Rightarrow> verification" where
  "compactVerification v =
     \<lparr>ve_passed = ve_passed v, ve_commands = compact_commands 0 0 0 (ve_commands v), ve_error = None,
      ve_retried = [], ve_completed = False\<rparr>"

section \<open>Reading a stream chunk by chunk\<close>

lemma utf8_window:
  assumes "utf8 s" and "i + 3 < length s"
  shows "\<exists>j \<ge> i. j \<le> i + 3 \<and> \<not> cont_at s j"
proof -
  have "\<exists>j \<ge> i. j \<le> i + 3 \<and> \<not> cont_at (encode cs) j"
    if "\<forall>c \<in> set cs. code_point c" "i + 3 < length (encode cs)" for cs i
    using that
  proof (induction cs arbitrary: i)
    case (Cons c cs)
    obtain b bs where b: "encode_point c = b # bs" "\<not> is_cont b"
      using encode_point_shape Cons.prems(1) by (meson list.set_intros(1))
    let ?n = "length (encode_point c)"
    have n: "?n \<le> 4" by (simp add: encode_point.simps)
    show ?case
    proof (cases "i < ?n")
      case in_char: True
      show ?thesis
      proof (cases "i = 0")
        case True
        with b show ?thesis by (intro exI [of _ 0]) (simp add: cont_at_def)
      next
        case False
        have "\<not> cont_at (encode cs) 0"
          using utf8_first Cons.prems(1) by (auto simp: utf8_def)
        then have "\<not> cont_at (encode (c # cs)) ?n"
          by (auto simp: cont_at_def nth_append)
        with in_char False n show ?thesis by (intro exI [of _ ?n]) simp
      qed
    next
      case False
      then have "i - ?n + 3 < length (encode cs)" using Cons.prems by simp
      from Cons.IH [OF _ this] Cons.prems
      obtain j where "j \<ge> i - ?n" "j \<le> i - ?n + 3" "\<not> cont_at (encode cs) j" by auto
      with False show ?thesis by (intro exI [of _ "j + ?n"]) (auto simp: cont_at_def nth_append)
    qed
  qed simp
  with assms show ?thesis by (auto simp: utf8_def)
qed

lemma advance_below: "i \<le> k \<Longrightarrow> k < advance s i \<Longrightarrow> cont_at s k"
proof (induction s i rule: advance.induct)
  case (1 s i)
  then show ?case
    by (cases "i < length s \<and> cont_at s i"; cases "k = i") (auto simp: advance.simps [of s i])
qed

lemma advance_unique:
  assumes "i \<le> j" and "\<And>k. i \<le> k \<Longrightarrow> k < j \<Longrightarrow> cont_at s k" and "\<not> cont_at s j"
  shows "advance s i = j"
proof (rule linorder_cases [of "advance s i" j])
  assume "advance s i < j"
  with assms(2) [of "advance s i"] advance_ge [of i s] advance_boundary [of s i] show ?thesis by simp
next
  assume "j < advance s i"
  with assms(1,3) advance_below [of i j s] show ?thesis by simp
qed simp

lemma advance_drop: "advance (drop a s) i + a = advance s (i + a)"
proof (rule advance_unique [symmetric])
  have c: "cont_at (drop a s) k \<longleftrightarrow> cont_at s (k + a)" for k
    by (auto simp: cont_at_def add.commute)
  show "i + a \<le> advance (drop a s) i + a" using advance_ge by simp
  show "\<not> cont_at s (advance (drop a s) i + a)" using advance_boundary c by metis
  show "cont_at s k" if "i + a \<le> k" "k < advance (drop a s) i + a" for k
    using advance_below [of i "k - a" "drop a s"] c [of "k - a"] that by auto
qed

text \<open>The tail of a prefix starts where the whole text has its first character in that window.\<close>

lemma advance_prefix:
  assumes "utf8 (p @ q)" and "i + 3 < length p"
  shows "advance p i = advance (p @ q) i" and "advance p i < length p"
proof -
  let ?a = "advance (p @ q) i"
  obtain j where j: "j \<ge> i" "j \<le> i + 3" "\<not> cont_at (p @ q) j"
    using utf8_window [OF assms(1), of i] assms(2) by auto
  then have "?a \<le> j" using advance_below [of i j "p @ q"] by (meson not_less)
  with j assms(2) have a: "?a < length p" by simp
  have c: "cont_at p k \<longleftrightarrow> cont_at (p @ q) k" if "k < length p" for k
    using that by (simp add: cont_at_def nth_append)
  show "advance p i = ?a"
    by (rule advance_unique)
      (use a c advance_below [of i _ "p @ q"] advance_boundary [of "p @ q" i] advance_ge in auto)
  with a show "advance p i < length p" by simp
qed

lemma tail_add_tailText:
  assumes "utf8 (t @ chunk @ rest)" and "4 \<le> maxBytes"
  shows "tail_add maxBytes chunk (tailText t maxBytes) = tailText (t @ chunk) maxBytes"
proof (cases "length t \<le> maxBytes")
  case True
  then show ?thesis by (simp add: tail_add_def tailText_def Let_def)
next
  case False
  let ?a = "advance t (length t - maxBytes)" and ?s = "t @ chunk"
  have w: "length t - maxBytes + 3 < length t" using False assms(2) by simp
  have a: "?a < length t" "?a = advance (t @ chunk @ rest) (length t - maxBytes)"
    "length t - maxBytes \<le> ?a"
    using advance_prefix [OF assms(1) w] advance_ge by auto
  have kept: "tailText t maxBytes @ chunk = drop ?a ?s" using False a(1) by (simp add: tailText_def)
  have long: "\<not> length ?s \<le> maxBytes" using False by simp
  show ?thesis
  proof (cases "length ?s - ?a > maxBytes")
    case True
    let ?x = "drop ?a ?s"
    have "length ?x - maxBytes + ?a = length ?s - maxBytes" using True a(1) by simp
    then have start: "advance ?x (length ?x - maxBytes) + ?a = advance ?s (length ?s - maxBytes)"
      using advance_drop [of ?a ?s "length ?x - maxBytes"] by (simp only:)
    have "tail_add maxBytes chunk (tailText t maxBytes) = drop (advance ?x (length ?x - maxBytes)) ?x"
      unfolding tail_add_def kept Let_def using True a(1) by simp
    also have "\<dots> = drop (advance ?s (length ?s - maxBytes)) ?s"
      unfolding drop_drop start ..
    also have "\<dots> = tailText ?s maxBytes" unfolding tailText_def if_not_P [OF long] ..
    finally show ?thesis .
  next
    case False
    have w': "length ?s - maxBytes + 3 < length ?s" using long assms(2) by simp
    have le: "length ?s - maxBytes \<le> ?a" using False by simp
    have "advance ?s (length ?s - maxBytes) = advance (?s @ rest) (length ?s - maxBytes)"
      by (rule advance_prefix(1)) (use assms(1) w' in simp_all)
    also have "\<dots> = ?a"
    proof (rule advance_unique [OF le])
      show "\<not> cont_at (?s @ rest) ?a"
        using advance_boundary [of "t @ chunk @ rest" "length t - maxBytes"] a(2) by simp
      show "cont_at (?s @ rest) k" if "length ?s - maxBytes \<le> k" "k < ?a" for k
        using advance_below [of "length t - maxBytes" k "t @ chunk @ rest"] that a(2) by simp
    qed
    finally have start: "advance ?s (length ?s - maxBytes) = ?a" .
    have "tail_add maxBytes chunk (tailText t maxBytes) = drop ?a ?s"
      unfolding tail_add_def kept Let_def using False a(1) by simp
    also have "\<dots> = tailText ?s maxBytes" unfolding tailText_def if_not_P [OF long] start ..
    finally show ?thesis .
  qed
qed

text \<open>
  Reading a command's output chunk by chunk, keeping only the tail at every step, gives the
  same text as keeping all of it and cutting once at the end: however the stream is cut into
  chunks, even inside a character, and so never more than the bound, as well-formed UTF-8.
\<close>

theorem chunked_tail_is_tail:
  assumes "utf8 (concat chunks)" and "4 \<le> maxBytes"
  shows "boundedTail maxBytes chunks = tailText (concat chunks) maxBytes \<and>
    length (boundedTail maxBytes chunks) \<le> maxBytes \<and> utf8 (boundedTail maxBytes chunks)"
proof -
  have "fold (tail_add maxBytes) cs (tailText t maxBytes) = tailText (t @ concat cs) maxBytes"
    if "utf8 (t @ concat cs)" for cs t
    using that
  proof (induction cs arbitrary: t)
    case (Cons c cs)
    then show ?case
      using tail_add_tailText [of t c "concat cs" maxBytes] assms(2) Cons.IH [of "t @ c"] by simp
  qed simp
  from this [of "[]"] assms(1) have eq: "boundedTail maxBytes chunks = tailText (concat chunks) maxBytes"
    by (simp add: boundedTail_def tailText_def)
  have "length (tailText s maxBytes) \<le> maxBytes" for s
    using advance_ge [of "length s - maxBytes" s] by (auto simp: tailText_def)
  moreover have "utf8 (tailText s maxBytes)" if "utf8 s" for s
    using that utf8_boundary [OF that advance_le advance_boundary] by (auto simp: tailText_def)
  ultimately show ?thesis using eq assms(1) by simp
qed

theorem chunked_tail_is_tail_witness:
  "boundedTail 4 [''ab'' @ [byte 0xE2], [byte 0x80], byte 0xA6 # ''z''] = ellipsis @ ''z''"
proof -
  let ?cs = "[''ab'' @ [byte 0xE2], [byte 0x80], byte 0xA6 # ''z'']"
  have whole: "concat ?cs = ''ab'' @ ellipsis @ ''z''" by (simp add: ellipsis_def)
  have "utf8 (concat ?cs)"
    unfolding whole by (intro utf8_append utf8_ellipsis utf8_ascii) simp_all
  from chunked_tail_is_tail [OF this, of 4]
  have "boundedTail 4 ?cs = tailText (''ab'' @ ellipsis @ ''z'') 4" unfolding whole by simp
  also have "\<dots> = ellipsis @ ''z''"
    by (simp add: tailText_def ellipsis_def advance.simps cont_at_def is_cont_byte)
  finally show ?thesis .
qed

section \<open>Validated commands stay valid\<close>

lemma validated_command:
  "validateVerificationCommand c label = Inr c' \<Longrightarrow>
     validateVerificationCommand c' label' = Inr c' \<and> cmd_argv c' = cmd_argv c \<and>
     cmd_mutation c' = cmd_mutation c"
  by (auto simp: validateVerificationCommand_def Let_def split: if_splits)

lemma validate_each_ok:
  "validate_each cs i label = Inr cs' \<Longrightarrow> validate_each cs' j label' = Inr cs' \<and> length cs' = length cs"
proof (induction cs arbitrary: i j cs')
  case (Cons c cs)
  then obtain c' ds where c: "validateVerificationCommand c (label @ ''['' @ show_nat i @ '']'') = Inr c'"
    and ds: "validate_each cs (i + 1) label = Inr ds" "cs' = c' # ds"
    by (auto split: sum.splits)
  have "validateVerificationCommand c' l = Inr c'" for l
    using validated_command [OF c] by blast
  with Cons.IH [OF ds(1)] ds(2) show ?case by simp
qed simp

lemma validated_commands:
  "validateVerificationCommands cs label = Inr cs' \<Longrightarrow>
     validateVerificationCommands cs' label' = Inr cs' \<and> length cs' = length cs"
  using validate_each_ok [of cs 0 label cs' 0 label']
  by (auto simp: validateVerificationCommands_def split: if_splits)

text \<open>What validation accepts, so that a command of a validated contract is one.\<close>

definition command_ok :: "command \<Rightarrow> bool" where
  "command_ok c \<longleftrightarrow> validateVerificationCommand c [] = Inr c"

lemma validate_label: "validateVerificationCommand c [] = Inr c' \<Longrightarrow> validateVerificationCommand c l = Inr c'"
  by (auto simp: validateVerificationCommand_def Let_def split: if_splits)

lemma command_ok_validate: "command_ok c \<Longrightarrow> validateVerificationCommand c l = Inr c"
  unfolding command_ok_def by (rule validate_label)

lemma validate_each_ok_commands: "list_all command_ok cs \<Longrightarrow> validate_each cs i label = Inr cs"
  by (induction cs arbitrary: i) (auto simp: command_ok_validate)

section \<open>The bounded record\<close>

abbreviation compact_result :: "command_result \<Rightarrow> command_result" where
  "compact_result c \<equiv> c\<lparr>cr_attempts := map compact_attempt (take stateAttempts (cr_attempts c))\<rparr>"

lemma compact_commands_prefix:
  "\<exists>n. compact_commands k a e cs = map compact_result (take n cs)"
proof (induction cs arbitrary: k a e)
  case (Cons c cs)
  obtain n where "compact_commands (k + 1) (a + bytes_of (cr_argv c)) (e + bytes_of (cr_env c)) cs =
      map compact_result (take n cs)"
    using Cons.IH by blast
  then show ?case
    by (cases "k \<ge> stateCommands \<or> a + bytes_of (cr_argv c) > stateArgvBytes \<or>
         e + bytes_of (cr_env c) > stateEnvBytes")
      (auto intro: exI [of _ 0] exI [of _ "Suc n"])
qed simp

lemma compact_commands_bounds:
  assumes "k \<le> stateCommands" and "a \<le> stateArgvBytes" and "e \<le> stateEnvBytes"
  shows "k + length (compact_commands k a e cs) \<le> stateCommands \<and>
    a + sum_list (map (bytes_of \<circ> cr_argv) (compact_commands k a e cs)) \<le> stateArgvBytes \<and>
    e + sum_list (map (bytes_of \<circ> cr_env) (compact_commands k a e cs)) \<le> stateEnvBytes"
  using assms
proof (induction cs arbitrary: k a e)
  case (Cons c cs)
  show ?case
  proof (cases "k \<ge> stateCommands \<or> a + bytes_of (cr_argv c) > stateArgvBytes \<or>
      e + bytes_of (cr_env c) > stateEnvBytes")
    case False
    with Cons.IH [of "k + 1" "a + bytes_of (cr_argv c)" "e + bytes_of (cr_env c)"]
    show ?thesis by (simp add: add.assoc)
  qed (use Cons.prems in auto)
qed simp

lemma tailText_length: "length (tailText s n) \<le> n"
  using advance_ge [of "length s - n" s] by (auto simp: tailText_def)

section \<open>What a mutation run shows\<close>

definition mutation_inv :: "files \<Rightarrow> runner \<Rightarrow> mutation_site list \<Rightarrow> mutation_run \<Rightarrow> bool" where
  "mutation_inv fs run tried st \<longleftrightarrow> map_of (mr_files st) = map_of fs \<and>
     (\<forall>p t. map_of (mr_originals st) p = Some t \<longrightarrow> map_of fs p = Some t) \<and>
     length (mr_attempts st) = length tried + 1 \<and>
     mr_killed st = length (filter (\<lambda>a. \<not> at_passed a) (tl (mr_attempts st))) \<and> mr_attempts st \<noteq> []"

lemma mutation_step_inv:
  assumes "mutation_inv fs run tried st" and "map_of fs (mc_path c) \<noteq> None"
  shows "mutation_inv fs run (tried @ [c]) (mutation_step run c st)"
proof -
  obtain t where t: "map_of fs (mc_path c) = Some t" using assms(2) by blast
  have o: "nullish (orelse (map_of (mr_originals st) (mc_path c)) (map_of (mr_files st) (mc_path c))) [] = t"
    using assms(1) t by (cases "map_of (mr_originals st) (mc_path c)") (auto simp: mutation_inv_def)
  show ?thesis
    unfolding mutation_step_def Let_def o
    using assms(1) t by (auto simp: mutation_inv_def update_conv' fun_eq_iff split: if_splits)
qed

lemma mutation_loop_inv:
  assumes "mutation_inv fs run tried st" and "\<forall>c \<in> set cs. map_of fs (mc_path c) \<noteq> None"
  shows "\<exists>n \<le> length cs. mutation_inv fs run (tried @ take n cs) (mutation_loop run ms cs st)"
  using assms
proof (induction cs arbitrary: tried st)
  case (Cons c cs)
  show ?case
  proof (cases "ms > 0 \<and> mr_spentMs st + ms > MUTATION_TIME_BUDGET_MS")
    case True
    with Cons.prems show ?thesis by (intro exI [of _ 0]) simp
  next
    case False
    from Cons.prems have "mutation_inv fs run (tried @ [c]) (mutation_step run c st)"
      by (intro mutation_step_inv) simp_all
    with Cons.IH [of "tried @ [c]" "mutation_step run c st"] Cons.prems(2)
    obtain n where "n \<le> length cs"
      "mutation_inv fs run (tried @ c # take n cs) (mutation_loop run ms cs (mutation_step run c st))"
      by auto
    with False show ?thesis by (intro exI [of _ "Suc n"]) auto
  qed
qed (auto intro: exI [of _ 0])

lemma candidates_exist:
  "c \<in> set (mutationCandidates fs ws) \<Longrightarrow> mc_path c \<in> set ws \<and> map_of fs (mc_path c) \<noteq> None"
  by (auto simp: mutationCandidates_def split: option.splits dest!: sym [of "Some _"])

lemma evenlySpaced_index: "(i :: nat) < b \<Longrightarrow> 2 \<le> b \<Longrightarrow> (2 * i * l + (b - 1)) div (2 * (b - 1)) \<le> l"
proof -
  assume i: "i < b" "2 \<le> b"
  then have "2 * i * l \<le> 2 * (b - 1) * l" by (intro mult_le_mono) simp_all
  then have "(2 * i * l + (b - 1)) div (2 * (b - 1)) \<le> (2 * (b - 1) * l + (b - 1)) div (2 * (b - 1))"
    by (intro div_le_mono) simp
  also have "\<dots> = (b - 1 + l * (2 * (b - 1))) div (2 * (b - 1))" by (simp add: algebra_simps)
  also have "\<dots> = l" using i by (subst div_mult_self1) simp_all
  finally show ?thesis .
qed

lemma evenlySpaced_set: "2 \<le> b \<Longrightarrow> set (evenlySpaced xs b) \<subseteq> set xs \<and> length (evenlySpaced xs b) \<le> b"
proof (cases "length xs \<le> b")
  case False
  assume b: "2 \<le> b"
  have "xs ! ((2 * i * (length xs - 1) + (b - 1)) div (2 * (b - 1))) \<in> set xs" if "i < b" for i
    by (rule nth_mem) (use evenlySpaced_index [OF that b, of "length xs - 1"] False in linarith)
  with False show ?thesis by (auto simp: evenlySpaced_def simp del: One_nat_def)
qed (simp add: evenlySpaced_def)

text \<open>
  A mutation entry leaves every file as it found it, starts its command at most nine times, and
  passes only when the suite was green to begin with and enough of the sample was killed: a
  sampled mutant the time budget did not reach counts as one that survived.
\<close>

lemma runMutation_outcome:
  assumes "runMutation tier run fs ws = (passed, st)"
  shows "map_of (mr_files st) = map_of fs \<and> length (mr_attempts st) \<le> MUTATION_BUDGET + 1 \<and>
    (passed \<longrightarrow> at_passed (runCommand (run 1 fs)) \<and>
       MUTATION_TIERS tier * of_nat (length (mutation_sample fs ws))
         \<le> of_nat (length (filter (\<lambda>a. \<not> at_passed a) (mr_attempts st))))"
proof -
  define sample where "sample = mutation_sample fs ws"
  define baseline where "baseline = runCommand (run 1 fs)"
  define st0 where "st0 = \<lparr>mr_files = fs, mr_originals = [], mr_attempts = [baseline], mr_killed = 0,
                mr_spentMs = at_durationMs baseline\<rparr>"
  have sample: "length sample \<le> MUTATION_BUDGET" "\<forall>c \<in> set sample. map_of fs (mc_path c) \<noteq> None"
    using evenlySpaced_set [of MUTATION_BUDGET "mutationCandidates fs ws"] candidates_exist
    by (auto simp: sample_def mutation_sample_def MUTATION_BUDGET_def)
  have inv0: "mutation_inv fs run [] st0" by (simp add: mutation_inv_def st0_def)
  have run: "(passed, st) = (if \<not> at_passed baseline then (False, st0)
      else (sample = [] \<or> of_nat (mr_killed (mutation_loop run (at_durationMs baseline) sample st0)) /
              of_nat (length sample) \<ge> MUTATION_TIERS tier,
            mutation_loop run (at_durationMs baseline) sample st0))"
    unfolding assms [symmetric] runMutation_def Let_def sample_def baseline_def st0_def by simp
  show ?thesis
  proof (cases "at_passed baseline")
    case False
    with run show ?thesis by (simp add: st0_def)
  next
    case True
    with run have st: "st = mutation_loop run (at_durationMs baseline) sample st0" by simp
    obtain n where n: "n \<le> length sample" "mutation_inv fs run (take n sample) st"
      using mutation_loop_inv [OF inv0 sample(2), of "at_durationMs baseline"] unfolding st by auto
    have killed: "mr_killed st \<le> length (filter (\<lambda>a. \<not> at_passed a) (mr_attempts st))"
      using n(2) by (cases "mr_attempts st") (auto simp: mutation_inv_def)
    have "MUTATION_TIERS tier * of_nat (length sample) \<le> of_nat (mr_killed st)" if passed
      using that run True st
      by (cases "sample = []") (auto simp: pos_le_divide_eq)
    with killed n sample(1) True show ?thesis
      unfolding sample_def [symmetric] baseline_def [symmetric]
      by (auto simp: mutation_inv_def)
  qed
qed

end
