(* ===== verification/Verification.thy ===== *)
theory Verification
  imports Run_Command
begin

text \<open>
  The controller's own verification of an attempt, the verification of a sealed candidate, and the
  record both leave (\<open>src/engine/verify.mjs\<close>).

  What the machine answers is the argument \<open>bench\<close>: what each start of a command does, the files
  of the workspace, the checkpoints an earlier pass left, the untracked paths before and after, and
  whether the attempt's workspace exists. The per-process records of a pass (\<open>attempts\<close>,
  \<open>progress\<close>, the \<open>candidate\<close> flag), which only recovery and status surfaces read, are left out.
\<close>

section \<open>The commands of a node\<close>

definition settledSiblingIds :: "run_dir \<Rightarrow> contract \<Rightarrow> node \<Rightarrow> string list" where
  "settledSiblingIds rd contract node =
     map fst (filter (\<lambda>(i, s). i \<noteq> nd_id node \<and> i \<in> nd_id ` set (ct_nodes contract) \<and>
         phaseTerminalNode contract i \<and> SETTLED (ns_status s)) (rd_nodes rd))"

definition verification_commands :: "contract \<Rightarrow> node \<Rightarrow> run_dir \<Rightarrow> command list" where
  "verification_commands contract node rd =
     nd_verification node @ sharedVerificationCommands contract @
     finalVerificationCommands contract node (Some (settledSiblingIds rd contract node))"

section \<open>Verifying an attempt\<close>

record bench =
  bn_machine :: "nat \<Rightarrow> runner"
  bn_files :: files
  bn_served :: "nat \<Rightarrow> command_result option"
  bn_before :: "string list"
  bn_after :: "string list"
  bn_exists :: "string \<Rightarrow> bool"

definition bench_run :: "bench \<Rightarrow> node \<Rightarrow> command list \<Rightarrow> string + verification" where
  "bench_run b node commands =
     runVerification commands (bn_machine b) (bn_files b) (nd_writeFiles node) (bn_served b)"

definition attemptWorkspace :: "(string \<Rightarrow> bool) \<Rightarrow> snapshot \<Rightarrow> string option" where
  "attemptWorkspace exists s =
     (case ns_worktree s of
        None \<Rightarrow> None
      | Some wt \<Rightarrow> (case Option.bind (wt_path wt) nonempty of
            None \<Rightarrow> None
          | Some p \<Rightarrow> if wt_status wt \<noteq> Wt_removed \<and> exists p then Some p else None))"

definition MAX_SCOPE_FINDING_PATHS :: nat where "MAX_SCOPE_FINDING_PATHS = 64"

definition strip_slashes :: "string \<Rightarrow> string" where
  "strip_slashes r = rev (dropWhile (\<lambda>c. c = CHR ''/'') (rev r))"

definition verificationArtifacts :: "node \<Rightarrow> snapshot \<Rightarrow> string list \<Rightarrow> string list \<Rightarrow> string list" where
  "verificationArtifacts node state before after =
     (let roots = map strip_slashes (nd_writeRoots node);
          left_over = filter (\<lambda>p. p \<notin> set before \<or> p \<in> set (ns_verificationArtifacts state)) after
      in take MAX_SCOPE_FINDING_PATHS
           (filter (\<lambda>p. p \<notin> set (nd_writeFiles node) \<and>
               \<not> list_ex (\<lambda>r. p = r \<or> starts_with p (r @ ''/'')) roots) left_over))"

text \<open>The record of a pass: the compacted results, or the error that kept it from running.\<close>

definition settled_verification :: "string + verification \<Rightarrow> verification" where
  "settled_verification result =
     (case result of
        Inr v \<Rightarrow> (compactVerification v)\<lparr>ve_completed := True\<rparr>
      | Inl e \<Rightarrow> \<lparr>ve_passed = False, ve_commands = [], ve_error = Some (boundedUtf8 e (4 * 1024)),
                 ve_retried = [], ve_completed = True\<rparr>)"

definition verified_before :: "snapshot \<Rightarrow> bool" where
  "verified_before s = (case ns_verification s of None \<Rightarrow> False | Some v \<Rightarrow> ve_completed v)"

definition executeControllerVerification :: "contract \<Rightarrow> node \<Rightarrow> bench \<Rightarrow> ctl \<Rightarrow> ctl" where
  "executeControllerVerification contract node b c =
     (if verified_before (ce_state c) then c
      else (let c1 = persist (on_state (\<lambda>s. s\<lparr>ns_verification := Some \<lparr>ve_passed = False,
                  ve_commands = [], ve_error = None, ve_retried = [], ve_completed = False\<rparr>\<rparr>) c);
                result = bench_run b node (verification_commands contract node (ce_rd c1));
                c2 = on_state (\<lambda>s. s\<lparr>ns_verification := Some (settled_verification result)\<rparr>) c1
            in persist (if attemptWorkspace (bn_exists b) (ce_state c2) = None then c2
                 else on_state (\<lambda>s. s\<lparr>ns_verificationArtifacts :=
                        verificationArtifacts node s (bn_before b) (bn_after b)\<rparr>) c2)))"

section \<open>Verifying a candidate\<close>

definition failed_indexes :: "command_result list \<Rightarrow> nat list" where
  "failed_indexes cs = filter (\<lambda>i. \<not> cr_passed (cs ! i)) [0..<length cs]"

definition passed_in_attempt :: "verification option \<Rightarrow> command_result list \<Rightarrow> nat \<Rightarrow> bool" where
  "passed_in_attempt evidence cs i =
     (let recorded = (case evidence of None \<Rightarrow> [] | Some v \<Rightarrow> ve_commands v)
      in i < length recorded \<and> cr_passed (recorded ! i) \<and> cr_argv (cs ! i) = cr_argv (recorded ! i))"

text \<open>
  Only a candidate every failing command of which the attempt passed is run again, those commands
  once; \<open>Inl\<close> is the error the second run throws.
\<close>

definition retryDivergentCandidateCommands ::
  "verification \<Rightarrow> verification option \<Rightarrow> (nat list \<Rightarrow> string + command_result list)
    \<Rightarrow> string + verification" where
  "retryDivergentCandidateCommands result evidence run =
     (let cs = ve_commands result; failed = failed_indexes cs
      in if failed = [] \<or> \<not> list_all (passed_in_attempt evidence cs) failed then Inr result
         else case run failed of
                Inl e \<Rightarrow> Inl e
              | Inr again \<Rightarrow>
                  (let merged = map (\<lambda>i. nullish (map_of (zip failed again) i) (cs ! i)) [0..<length cs]
                   in Inr (result\<lparr>ve_commands := merged, ve_passed := list_all cr_passed merged,
                        ve_retried := failed\<rparr>)))"

definition candidate_record :: "string + verification \<Rightarrow> verification" where
  "candidate_record result =
     (case result of
        Inr v \<Rightarrow> (compactVerification v)\<lparr>ve_retried := ve_retried v\<rparr>
      | Inl e \<Rightarrow> \<lparr>ve_passed = False, ve_commands = [], ve_error = Some (boundedUtf8 e (4 * 1024)),
                 ve_retried = [], ve_completed = False\<rparr>)"

text \<open>The candidate's workspace and the second run's are two benches.\<close>

definition verifyCandidateWorkspace ::
  "contract \<Rightarrow> node \<Rightarrow> bench \<Rightarrow> bench \<Rightarrow> run_dir \<Rightarrow> snapshot \<Rightarrow> verification" where
  "verifyCandidateWorkspace contract node first second rd state =
     (let commands = verification_commands contract node rd
      in candidate_record
           (case bench_run first node commands of
              Inl e \<Rightarrow> Inl e
            | Inr result \<Rightarrow>
                if ve_passed result then Inr result
                else retryDivergentCandidateCommands result (ns_verification state)
                  (\<lambda>indexes. map_sum id ve_commands (bench_run second node (map (nth commands) indexes)))))"

section \<open>What a verification says\<close>

lemma verified_frame [simp]:
  "ns_status (ce_state (executeControllerVerification contract node b c)) = ns_status (ce_state c)"
  "ce_running (executeControllerVerification contract node b c) = ce_running c"
  "ce_attention (executeControllerVerification contract node b c) = ce_attention c"
  "same_node c (executeControllerVerification contract node b c)"
  by (simp_all add: executeControllerVerification_def Let_def same_node_def)

lemma bench_run_outcome:
  assumes "list_all command_ok commands"
  shows "bench_run b node commands =
    (if length commands > maxCommands
     then Inl ''verification must be an array of at most 32 command objects''
     else let results = map (run_one (bn_machine b) (bn_files b) (nd_writeFiles node) (bn_served b))
                          (List.enumerate 0 commands)
          in Inr \<lparr>ve_passed = list_all cr_passed results, ve_commands = results, ve_error = None,
                  ve_retried = [], ve_completed = False\<rparr>)"
  using assms
  by (simp add: bench_run_def runVerification_def validateVerificationCommands_def
      validate_each_ok_commands)

lemma executed_verification:
  assumes "\<not> verified_before (ce_state c)"
  shows "ns_verification (ce_state (executeControllerVerification contract node b c)) =
    Some (settled_verification (bench_run b node
      (verification_commands contract node
        (ce_rd (persist (on_state (\<lambda>s. s\<lparr>ns_verification := Some \<lparr>ve_passed = False,
           ve_commands = [], ve_error = None, ve_retried = [], ve_completed = False\<rparr>\<rparr>) c))))))"
  using assms by (simp add: executeControllerVerification_def Let_def)

text \<open>The node's own snapshot is not one of its siblings: writing it changes no command.\<close>

lemma siblings_persist:
  assumes "ns_id (ce_state c) = nd_id node"
  shows "verification_commands contract node (ce_rd (persist c)) =
    verification_commands contract node (ce_rd c)"
proof -
  have "filter P (AList.update (nd_id node) s nodes) = filter P nodes"
    if "\<And>s. \<not> P (nd_id node, s)" for P s and nodes :: "(string \<times> snapshot) list"
    using that by (induction nodes) auto
  then have "settledSiblingIds (ce_rd (persist c)) contract node = settledSiblingIds (ce_rd c) contract node"
    using assms by (simp add: settledSiblingIds_def persist_def writeNode_def)
  then show ?thesis by (simp add: verification_commands_def)
qed

definition record_bounded :: "verification \<Rightarrow> bool" where
  "record_bounded v \<longleftrightarrow> length (ve_commands v) \<le> stateCommands \<and>
     sum_list (map (bytes_of \<circ> cr_argv) (ve_commands v)) \<le> stateArgvBytes \<and>
     sum_list (map (bytes_of \<circ> cr_env) (ve_commands v)) \<le> stateEnvBytes \<and>
     (\<forall>r \<in> set (ve_commands v). length (cr_attempts r) \<le> stateAttempts \<and>
        (\<forall>a \<in> set (cr_attempts r). length (at_stdout a) \<le> stateStdoutBytes \<and>
           length (at_stderr a) \<le> stateStdoutBytes))"

lemma compact_bounded: "record_bounded (compactVerification v)"
proof -
  let ?cs = "compact_commands 0 0 0 (ve_commands v)"
  obtain n where n: "?cs = map compact_result (take n (ve_commands v))"
    using compact_commands_prefix by blast
  have "length ?cs \<le> stateCommands \<and> sum_list (map (bytes_of \<circ> cr_argv) ?cs) \<le> stateArgvBytes \<and>
      sum_list (map (bytes_of \<circ> cr_env) ?cs) \<le> stateEnvBytes"
    using compact_commands_bounds [of 0 0 0 "ve_commands v"] by simp
  moreover have "length (cr_attempts r) \<le> stateAttempts \<and>
      (\<forall>a \<in> set (cr_attempts r). length (at_stdout a) \<le> stateStdoutBytes \<and>
         length (at_stderr a) \<le> stateStdoutBytes)" if "r \<in> set ?cs" for r
    using that unfolding n by (auto simp: compact_attempt_def tailText_length)
  ultimately show ?thesis by (simp add: record_bounded_def compactVerification_def)
qed


definition sample_command :: command where
  "sample_command = \<lparr>cmd_argv = [''true''], cmd_timeoutSec = Some 120, cmd_repeat = Some 1,
     cmd_env = Some [], cmd_mutation = None, cmd_cwd = None\<rparr>"

definition sample_bench :: bench where
  "sample_bench = \<lparr>bn_machine = (\<lambda>i k fs. \<lparr>px_stdout = [], px_stderr = [], px_exitCode = Some 0,
      px_signal = None, px_timedOut = False, px_error = None, px_durationMs = 5\<rparr>),
     bn_files = [], bn_served = (\<lambda>i. None), bn_before = [], bn_after = [], bn_exists = (\<lambda>p. True)\<rparr>"

definition sample_ctl :: ctl where
  "sample_ctl = \<lparr>ce_rd = sample_run_dir, ce_state = sample_snapshot ''a'' Running Ph_worker,
     ce_running = Some [], ce_attention = [], ce_host = sample_host\<rparr>"


section \<open>When a candidate is run again\<close>

text \<open>
  A passing candidate has every command green in the candidate's own worktree, in the first run or
  in the second one, and the second one was given only to commands the attempt itself passed with
  the same arguments.
\<close>

lemma candidate_passes_honestly:
  assumes "retryDivergentCandidateCommands result evidence run = Inr r" and "ve_passed r"
    and "ve_passed result = list_all cr_passed (ve_commands result)" and "k < length (ve_commands result)"
    and "\<And>is again. run is = Inr again \<Longrightarrow> length again = length is"
  shows "cr_passed (ve_commands result ! k) \<or>
    (passed_in_attempt evidence (ve_commands result) k \<and>
     (\<exists>again p. run (failed_indexes (ve_commands result)) = Inr again \<and> p < length again \<and>
        failed_indexes (ve_commands result) ! p = k \<and> cr_passed (again ! p)))"
proof (cases "ve_commands r = ve_commands result \<and> ve_passed result")
  case True
  with assms(3,4) show ?thesis by (simp add: list_all_length)
next
  case False
  let ?cs = "ve_commands result" and ?f = "failed_indexes (ve_commands result)"
  have f: "distinct ?f" "\<forall>i \<in> set ?f. i < length ?cs \<and> \<not> cr_passed (?cs ! i)"
    "k \<in> set ?f \<longleftrightarrow> \<not> cr_passed (?cs ! k)"
    using assms(4) by (auto simp: failed_indexes_def)
  define merged where "merged again = map (\<lambda>i. nullish (map_of (zip ?f again) i) (?cs ! i)) [0..<length ?cs]"
    for again
  have "\<exists>again. run ?f = Inr again \<and> list_all (passed_in_attempt evidence ?cs) ?f \<and>
      ve_passed r = list_all cr_passed (merged again)"
  proof (cases "?f = [] \<or> \<not> list_all (passed_in_attempt evidence ?cs) ?f")
    case True
    with assms(1) have "r = result" by (simp add: retryDivergentCandidateCommands_def Let_def)
    with False assms(2) show ?thesis by simp
  next
    case run: False
    with assms(1) obtain again where "run ?f = Inr again"
      by (cases "run ?f") (auto simp: retryDivergentCandidateCommands_def Let_def)
    with run assms(1) show ?thesis
      by (auto simp: retryDivergentCandidateCommands_def Let_def merged_def)
  qed
  then obtain again where again: "run ?f = Inr again" "list_all (passed_in_attempt evidence ?cs) ?f"
    "list_all cr_passed (merged again)"
    using assms(2) by blast
  have merged: "cr_passed (nullish (map_of (zip ?f again) k) (?cs ! k))"
    using again(3) assms(4) by (simp add: merged_def list_all_iff)
  show ?thesis
  proof (cases "cr_passed (?cs ! k)")
    case False
    with f(3) obtain p where p: "p < length ?f" "?f ! p = k" by (auto simp: in_set_conv_nth)
    have "length again = length ?f" using assms(5) again(1) .
    with p f(1) have "map_of (zip ?f again) k = Some (again ! p)" "p < length again"
      using map_of_zip_nth [of ?f again p] by simp_all
    with merged again(1,2) p False f(3) show ?thesis by (auto simp: list_all_iff)
  qed simp
qed

end
