(* ===== verification/Overlap.thy ===== *)
theory Overlap
  imports Verification
begin

text \<open>
  The two queues a controller orders its own concurrent work with: the proof slots of a run
  (\<open>acquireProofSlot\<close> and \<open>drainProofWaiters\<close> of \<open>src/engine/verify.mjs\<close>: so many verifications at
  once, one per workspace) and the settlement section (\<open>src/engine/settlement-overlap.mjs\<close>: one
  settlement at a time, which steps aside while its proof runs).

  A request is a ticket. A promise that resolves is a ticket that is inside; between two awaits
  JavaScript runs one handler at a time, so a handler is one step.
\<close>

section \<open>What a waiting queue promises\<close>

text \<open>
  The interface: entering and leaving keep every ticket, and nobody waits while nobody is inside.
  The conclusion: whoever keeps leaving, in any order, lets everyone in.
\<close>

locale waiting_room =
  fixes enter leave :: "'t \<Rightarrow> 's \<Rightarrow> 's" and inside waiting :: "'s \<Rightarrow> 't list" and ok :: "'s \<Rightarrow> bool"
  assumes enter_ok: "ok s \<Longrightarrow> t \<notin> set (inside s) \<union> set (waiting s) \<Longrightarrow> ok (enter t s)"
    and enter_all: "ok s \<Longrightarrow> t \<notin> set (inside s) \<union> set (waiting s) \<Longrightarrow>
      set (inside (enter t s)) \<union> set (waiting (enter t s)) = insert t (set (inside s) \<union> set (waiting s))"
    and leave_ok: "ok s \<Longrightarrow> t \<in> set (inside s) \<Longrightarrow> ok (leave t s)"
    and leave_all: "ok s \<Longrightarrow> t \<in> set (inside s) \<Longrightarrow>
      set (inside (leave t s)) \<union> set (waiting (leave t s)) = set (inside s) \<union> set (waiting s) - {t}"
    and nobody_waits_alone: "ok s \<Longrightarrow> inside s = [] \<Longrightarrow> waiting s = []"
begin

definition everyone :: "'s \<Rightarrow> 't set" where
  "everyone s = set (inside s) \<union> set (waiting s)"

text \<open>The rooms a history of requests can lead to; only who is inside can leave.\<close>

inductive visited :: "'s \<Rightarrow> 's \<Rightarrow> bool" for s0 where
  start: "visited s0 s0"
| entered: "visited s0 s \<Longrightarrow> t \<notin> everyone s \<Longrightarrow> visited s0 (enter t s)"
| left: "visited s0 s \<Longrightarrow> t \<in> set (inside s) \<Longrightarrow> visited s0 (leave t s)"

lemma visited_ok: "visited s0 s \<Longrightarrow> ok s0 \<Longrightarrow> ok s"
  by (induction rule: visited.induct) (auto simp: everyone_def enter_ok leave_ok)

fun serve :: "('s \<Rightarrow> 't) \<Rightarrow> nat \<Rightarrow> 's \<Rightarrow> 's" where
  "serve pick 0 s = s"
| "serve pick (Suc n) s = serve pick n (leave (pick s) s)"

lemma everyone_served:
  assumes "ok s" and "\<And>s. inside s \<noteq> [] \<Longrightarrow> pick s \<in> set (inside s)" and "card (everyone s) = n"
  shows "everyone (serve pick n s) = {}"
  using assms(1,3)
proof (induction n arbitrary: s)
  case 0
  then show ?case by (simp add: everyone_def)
next
  case (Suc n)
  have "inside s \<noteq> []"
    using Suc.prems nobody_waits_alone [of s] by (auto simp: everyone_def)
  then have p: "pick s \<in> set (inside s)" by (rule assms(2))
  have "everyone (leave (pick s) s) = everyone s - {pick s}"
    using leave_all [OF Suc.prems(1) p] by (simp add: everyone_def)
  moreover have "pick s \<in> everyone s" using p by (simp add: everyone_def)
  ultimately have "card (everyone (leave (pick s) s)) = n"
    using Suc.prems(2) by (simp add: everyone_def)
  with Suc.IH [of "leave (pick s) s"] leave_ok [OF Suc.prems(1) p] show ?case by simp
qed

end

section \<open>The proof slots\<close>

text \<open>A ticket carries the workspace it proves in; the promises granted are listed beside the code's own fields.\<close>

record proof_gate =
  pg_limit :: nat
  pg_active :: nat
  pg_held :: "string list"
  pg_waiters :: "(nat \<times> string) list"
  pg_inside :: "(nat \<times> string) list"

definition proofGateFor :: "contract \<Rightarrow> proof_gate" where
  "proofGateFor contract = \<lparr>pg_limit = nat (max 1 (ct_maxParallel contract)), pg_active = 0,
     pg_held = [], pg_waiters = [], pg_inside = []\<rparr>"

definition satisfy :: "nat \<times> string \<Rightarrow> proof_gate \<Rightarrow> proof_gate" where
  "satisfy t g = g\<lparr>pg_active := pg_active g + 1, pg_held := List.insert (snd t) (pg_held g),
     pg_inside := pg_inside g @ [t]\<rparr>"

text \<open>The scan over the waiters: \<open>kept\<close> are the ones before \<open>index\<close>.\<close>

fun drain_from :: "(nat \<times> string) list \<Rightarrow> (nat \<times> string) list \<Rightarrow> proof_gate \<Rightarrow> proof_gate" where
  "drain_from kept [] g = g\<lparr>pg_waiters := kept\<rparr>"
| "drain_from kept (w # ws) g =
     (if pg_active g \<ge> pg_limit g then g\<lparr>pg_waiters := kept @ w # ws\<rparr>
      else if snd w \<in> set (pg_held g) then drain_from (kept @ [w]) ws g
      else drain_from kept ws (satisfy w g))"

definition drainProofWaiters :: "proof_gate \<Rightarrow> proof_gate" where
  "drainProofWaiters g = drain_from [] (pg_waiters g) g"

definition acquireProofSlot :: "nat \<times> string \<Rightarrow> proof_gate \<Rightarrow> proof_gate" where
  "acquireProofSlot t g =
     (if pg_active g < pg_limit g \<and> snd t \<notin> set (pg_held g) then satisfy t g
      else g\<lparr>pg_waiters := pg_waiters g @ [t]\<rparr>)"

definition releaseProofSlot :: "nat \<times> string \<Rightarrow> proof_gate \<Rightarrow> proof_gate" where
  "releaseProofSlot t g =
     drainProofWaiters (g\<lparr>pg_active := pg_active g - 1, pg_held := removeAll (snd t) (pg_held g),
       pg_inside := remove1 t (pg_inside g)\<rparr>)"

text \<open>
  The gate's books are right, its bounds hold, and every waiter has a reason: no slot is free, or
  its workspace is in use.
\<close>

definition gate_books :: "proof_gate \<Rightarrow> bool" where
  "gate_books g \<longleftrightarrow> pg_active g = length (pg_inside g) \<and> set (pg_held g) = snd ` set (pg_inside g) \<and>
     distinct (map snd (pg_inside g)) \<and> pg_active g \<le> pg_limit g \<and> pg_limit g > 0"

definition has_reason :: "proof_gate \<Rightarrow> nat \<times> string \<Rightarrow> bool" where
  "has_reason g w \<longleftrightarrow> pg_active g = pg_limit g \<or> snd w \<in> set (pg_held g)"

definition gate_ok :: "proof_gate \<Rightarrow> bool" where
  "gate_ok g \<longleftrightarrow> gate_books g \<and> (\<forall>w \<in> set (pg_waiters g). has_reason g w) \<and>
     distinct (pg_waiters g) \<and> set (pg_waiters g) \<inter> set (pg_inside g) = {}"

lemma satisfy_simps [simp]:
  "pg_limit (satisfy t g) = pg_limit g" "pg_active (satisfy t g) = pg_active g + 1"
  "set (pg_held (satisfy t g)) = insert (snd t) (set (pg_held g))"
  "pg_inside (satisfy t g) = pg_inside g @ [t]" "pg_waiters (satisfy t g) = pg_waiters g"
  by (simp_all add: satisfy_def)

lemma satisfy_books:
  "gate_books g \<Longrightarrow> pg_active g < pg_limit g \<Longrightarrow> snd t \<notin> set (pg_held g) \<Longrightarrow> gate_books (satisfy t g)"
  by (auto simp: gate_books_def)

lemma drain_from_spec:
  assumes "gate_books g" and "\<forall>w \<in> set kept. has_reason g w" and "distinct (kept @ ws)"
    and "set (kept @ ws) \<inter> set (pg_inside g) = {}"
  shows "gate_ok (drain_from kept ws g) \<and> pg_limit (drain_from kept ws g) = pg_limit g \<and>
    set (pg_inside (drain_from kept ws g)) \<union> set (pg_waiters (drain_from kept ws g)) =
      set (pg_inside g) \<union> set (kept @ ws)"
  using assms
proof (induction kept ws g rule: drain_from.induct)
  case (1 kept g)
  then show ?case by (auto simp: gate_ok_def gate_books_def has_reason_def)
next
  case (2 kept w ws g)
  consider (full) "pg_active g \<ge> pg_limit g"
    | (held) "pg_active g < pg_limit g" "snd w \<in> set (pg_held g)"
    | (free) "pg_active g < pg_limit g" "snd w \<notin> set (pg_held g)" by linarith
  then show ?case
  proof cases
    case full
    with 2(3) have "pg_active g = pg_limit g" by (simp add: gate_books_def)
    with full 2(3-) show ?thesis by (auto simp: gate_ok_def gate_books_def has_reason_def)
  next
    case held
    with 2(3-) show ?thesis by (subst drain_from.simps) (use 2(1) in \<open>auto simp: has_reason_def\<close>)
  next
    case free
    have "\<forall>v \<in> set kept. has_reason (satisfy w g) v"
      using 2(4) free by (auto simp: has_reason_def)
    with free 2(3-) have "gate_ok (drain_from kept ws (satisfy w g)) \<and>
        pg_limit (drain_from kept ws (satisfy w g)) = pg_limit (satisfy w g) \<and>
        set (pg_inside (drain_from kept ws (satisfy w g))) \<union> set (pg_waiters (drain_from kept ws (satisfy w g))) =
          set (pg_inside (satisfy w g)) \<union> set (kept @ ws)"
      by (intro 2(2)) (auto simp: satisfy_books)
    with free show ?thesis by auto
  qed
qed

lemma release_books:
  assumes "gate_books g" and "t \<in> set (pg_inside g)"
  shows "gate_books (g\<lparr>pg_active := pg_active g - 1, pg_held := removeAll (snd t) (pg_held g),
    pg_inside := remove1 t (pg_inside g)\<rparr>)"
proof -
  have d: "distinct (map snd (pg_inside g))" "distinct (pg_inside g)"
    using assms(1) by (auto simp: gate_books_def distinct_map)
  have i: "inj_on snd (set (pg_inside g))" using d(1) by (simp add: distinct_map)
  have "set (remove1 t (pg_inside g)) = set (pg_inside g) - {t}" using d(2) by simp
  moreover have "snd ` (set (pg_inside g) - {t}) = snd ` set (pg_inside g) - {snd t}"
    using inj_on_image_set_diff [OF i, of "set (pg_inside g)" "{t}"] assms(2) by simp
  moreover have "distinct (map snd (remove1 t (pg_inside g)))"
    using d i by (auto simp: distinct_map distinct_remove1 intro: inj_on_subset)
  ultimately show ?thesis
    using assms by (auto simp: gate_books_def length_remove1 set_removeAll)
qed

interpretation slots: waiting_room acquireProofSlot releaseProofSlot pg_inside pg_waiters gate_ok
proof
  fix g :: proof_gate and t :: "nat \<times> string"
  assume g: "gate_ok g"
  {
    assume new: "t \<notin> set (pg_inside g) \<union> set (pg_waiters g)"
    show "gate_ok (acquireProofSlot t g)"
    proof (cases "pg_active g < pg_limit g \<and> snd t \<notin> set (pg_held g)")
      case True
      then have "gate_books (satisfy t g)" using g satisfy_books by (simp add: gate_ok_def)
      with True g new show ?thesis by (auto simp: acquireProofSlot_def gate_ok_def has_reason_def)
    next
      case False
      with g have "has_reason g t" by (auto simp: has_reason_def gate_ok_def gate_books_def)
      with False g new show ?thesis
        by (auto simp: acquireProofSlot_def gate_ok_def has_reason_def gate_books_def)
    qed
    show "set (pg_inside (acquireProofSlot t g)) \<union> set (pg_waiters (acquireProofSlot t g)) =
        insert t (set (pg_inside g) \<union> set (pg_waiters g))"
      by (auto simp: acquireProofSlot_def)
  next
    assume t: "t \<in> set (pg_inside g)"
    let ?h = "g\<lparr>pg_active := pg_active g - 1, pg_held := removeAll (snd t) (pg_held g),
      pg_inside := remove1 t (pg_inside g)\<rparr>"
    have d: "distinct (pg_inside g)" using g by (auto simp: gate_ok_def gate_books_def distinct_map)
    have spec: "gate_ok (drain_from [] (pg_waiters ?h) ?h) \<and>
        set (pg_inside (drain_from [] (pg_waiters ?h) ?h)) \<union>
          set (pg_waiters (drain_from [] (pg_waiters ?h) ?h)) = set (pg_inside ?h) \<union> set ([] @ pg_waiters ?h)"
      using drain_from_spec [of ?h "[]" "pg_waiters ?h"] release_books [OF _ t] g d
      by (auto simp: gate_ok_def)
    then show "gate_ok (releaseProofSlot t g)"
      by (simp add: releaseProofSlot_def drainProofWaiters_def)
    show "set (pg_inside (releaseProofSlot t g)) \<union> set (pg_waiters (releaseProofSlot t g)) =
        set (pg_inside g) \<union> set (pg_waiters g) - {t}"
      using spec g d t by (auto simp: releaseProofSlot_def drainProofWaiters_def gate_ok_def)
  }
  show "pg_inside g = [] \<Longrightarrow> pg_waiters g = []"
    using g by (cases "pg_waiters g") (auto simp: gate_ok_def gate_books_def has_reason_def)
qed

text \<open>
  C36. However a run's verifications ask for proof slots and give them back, at every moment no
  more than \<open>maxParallel\<close> of them run and no two in one workspace, whoever waits has a reason to,
  and nobody waits for ever: when those inside keep leaving, in whatever order, everyone who asked
  gets in and the room empties after as many departures as there were tickets.
\<close>

theorem proof_slots_bounded_and_fair:
  assumes "slots.visited (proofGateFor contract) g"
    and "\<And>g. pg_inside g \<noteq> [] \<Longrightarrow> pick g \<in> set (pg_inside g)"
  shows "int (length (pg_inside g)) \<le> max 1 (ct_maxParallel contract) \<and>
    distinct (map snd (pg_inside g)) \<and>
    (\<forall>w \<in> set (pg_waiters g). int (length (pg_inside g)) = max 1 (ct_maxParallel contract) \<or>
       snd w \<in> snd ` set (pg_inside g)) \<and>
    slots.everyone (slots.serve pick (card (slots.everyone g)) g) = {}"
proof -
  have "gate_ok (proofGateFor contract)"
    by (simp add: gate_ok_def gate_books_def proofGateFor_def)
  with assms(1) have g: "gate_ok g" by (rule slots.visited_ok)
  have limit: "pg_limit (acquireProofSlot t h) = pg_limit h" "pg_limit (releaseProofSlot t h) = pg_limit h"
    for t h
  proof -
    have "pg_limit (drain_from kept ws h) = pg_limit h" for kept ws h
      by (induction kept ws h rule: drain_from.induct) auto
    then show "pg_limit (acquireProofSlot t h) = pg_limit h" "pg_limit (releaseProofSlot t h) = pg_limit h"
      by (simp_all add: acquireProofSlot_def releaseProofSlot_def drainProofWaiters_def)
  qed
  from assms(1) have "pg_limit g = nat (max 1 (ct_maxParallel contract))"
    by (induction rule: slots.visited.induct) (simp_all add: limit, simp add: proofGateFor_def)
  with g slots.everyone_served [OF g assms(2) refl] show ?thesis
    by (auto simp: gate_ok_def gate_books_def has_reason_def)
qed

theorem proof_slots_bounded_and_fair_witness:
  "let g = acquireProofSlot (3, ''/w1'') (acquireProofSlot (2, ''/w2'') (acquireProofSlot (1, ''/w1'')
             (proofGateFor ((sample_contract False [])\<lparr>ct_maxParallel := 2\<rparr>))))
   in pg_waiters g = [(3, ''/w1'')] \<and> distinct (map snd (pg_inside g)) \<and>
      slots.everyone (slots.serve (hd \<circ> pg_inside) (card (slots.everyone g)) g) = {}"
proof -
  let ?c = "(sample_contract False [])\<lparr>ct_maxParallel := 2\<rparr>"
  let ?g1 = "acquireProofSlot (1, ''/w1'') (proofGateFor ?c)"
  let ?g2 = "acquireProofSlot (2, ''/w2'') ?g1"
  let ?g = "acquireProofSlot (3, ''/w1'') ?g2"
  have g1: "?g1 = \<lparr>pg_limit = 2, pg_active = 1, pg_held = [''/w1''], pg_waiters = [],
      pg_inside = [(1, ''/w1'')]\<rparr>"
    by (simp add: acquireProofSlot_def proofGateFor_def satisfy_def)
  have g2: "?g2 = \<lparr>pg_limit = 2, pg_active = 2, pg_held = [''/w2'', ''/w1''], pg_waiters = [],
      pg_inside = [(1, ''/w1''), (2, ''/w2'')]\<rparr>"
    unfolding g1 by (simp add: acquireProofSlot_def satisfy_def)
  have g: "pg_waiters ?g = [(3, ''/w1'')]"
    unfolding g2 by (simp add: acquireProofSlot_def)
  have "(3, ''/w1'') \<notin> slots.everyone ?g2" unfolding g2 by (simp add: slots.everyone_def)
  moreover have "(2, ''/w2'') \<notin> slots.everyone ?g1" unfolding g1 by (simp add: slots.everyone_def)
  moreover have "(1, ''/w1'') \<notin> slots.everyone (proofGateFor ?c)"
    by (simp add: slots.everyone_def proofGateFor_def)
  ultimately have "slots.visited (proofGateFor ?c) ?g"
    by (intro slots.visited.entered slots.visited.start)
  from proof_slots_bounded_and_fair [OF this, of "hd \<circ> pg_inside"] g
  show ?thesis by (simp add: Let_def)
qed

section \<open>The settlement section\<close>

record overlap =
  sx_busy :: bool
  sx_waiters :: "string list"
  sx_inside :: "string list"

definition createSettlementOverlap :: overlap where
  "createSettlementOverlap = \<lparr>sx_busy = False, sx_waiters = [], sx_inside = []\<rparr>"

definition acquireSection :: "string \<Rightarrow> overlap \<Rightarrow> overlap" where
  "acquireSection t s =
     (if \<not> sx_busy s then s\<lparr>sx_busy := True, sx_inside := sx_inside s @ [t]\<rparr>
      else s\<lparr>sx_waiters := sx_waiters s @ [t]\<rparr>)"

definition releaseSection :: "string \<Rightarrow> overlap \<Rightarrow> overlap" where
  "releaseSection t s =
     (let s' = s\<lparr>sx_inside := remove1 t (sx_inside s)\<rparr>
      in case sx_waiters s of
           [] \<Rightarrow> s'\<lparr>sx_busy := False\<rparr>
         | w # ws \<Rightarrow> s'\<lparr>sx_waiters := ws, sx_inside := sx_inside s' @ [w]\<rparr>)"

definition section_ok :: "overlap \<Rightarrow> bool" where
  "section_ok s \<longleftrightarrow> (sx_busy s \<longleftrightarrow> sx_inside s \<noteq> []) \<and> length (sx_inside s) \<le> 1 \<and>
     (\<not> sx_busy s \<longrightarrow> sx_waiters s = []) \<and> distinct (sx_inside s @ sx_waiters s)"

interpretation settlements: waiting_room acquireSection releaseSection sx_inside sx_waiters section_ok
proof
  fix s :: overlap and t :: string
  assume s: "section_ok s"
  {
    assume "t \<notin> set (sx_inside s) \<union> set (sx_waiters s)"
    then show "section_ok (acquireSection t s)"
      using s by (auto simp: section_ok_def acquireSection_def)
    show "set (sx_inside (acquireSection t s)) \<union> set (sx_waiters (acquireSection t s)) =
        insert t (set (sx_inside s) \<union> set (sx_waiters s))"
      by (auto simp: acquireSection_def)
  next
    assume t: "t \<in> set (sx_inside s)"
    then have i: "sx_inside s = [t]" using s by (cases "sx_inside s") (auto simp: section_ok_def)
    then show "section_ok (releaseSection t s)"
      using s by (cases "sx_waiters s") (auto simp: section_ok_def releaseSection_def Let_def)
    show "set (sx_inside (releaseSection t s)) \<union> set (sx_waiters (releaseSection t s)) =
        set (sx_inside s) \<union> set (sx_waiters s) - {t}"
      using s i by (cases "sx_waiters s") (auto simp: section_ok_def releaseSection_def Let_def)
  }
  show "sx_inside s = [] \<Longrightarrow> sx_waiters s = []" using s by (auto simp: section_ok_def)
qed

text \<open>
  A settlement's way through: it enters, may park (\<open>park\<close> releases the section, its proof runs,
  it enters again) and finishes. The work before, between and after is inside.
\<close>

lemma one_settlement_at_a_time:
  assumes "settlements.visited createSettlementOverlap s"
  shows "length (sx_inside s) \<le> 1 \<and> (sx_waiters s \<noteq> [] \<longrightarrow> sx_inside s \<noteq> [])"
proof -
  have "section_ok createSettlementOverlap" by (simp add: section_ok_def createSettlementOverlap_def)
  with assms have "section_ok s" by (rule settlements.visited_ok)
  then show ?thesis by (auto simp: section_ok_def)
qed

end
