(* ===== verification/Settlement.thy ===== *)
theory Settlement
  imports Overlap
begin

text \<open>
  What a closed job's verdict does to its node: rejections and their retries, acceptance through
  the integration, and the judge's round (\<open>src/engine/settle.mjs\<close>, \<open>src/engine/review.mjs\<close>,
  \<open>src/engine/settle-judge.mjs\<close>, \<open>src/contract/scope-findings.mjs\<close>, \<open>excerpt\<close> of \<open>src/util.mjs\<close>).

  A handler works on \<open>desk\<close>: the run's ref, the integration journal, and the controller's world
  as the client of both. \<open>None\<close> is a thrown error. The constant surroundings of one handler are
  the argument \<open>site\<close>: the contract, the node, the other snapshots, what git says, what sealing the
  workspace gives, the benches of the verifications, what \<open>JSON.parse\<close> and \<open>JSON.stringify\<close> give,
  and what the adapters read out of a provider's answer. The removal of a worktree, the lines
  printed and the \<open>candidate\<close> flag of a verification are left out.
\<close>

section \<open>Scope findings\<close>

definition describeUnexpectedPaths :: "scope \<Rightarrow> string" where
  "describeUnexpectedPaths sc =
     ''unexpected paths changed ('' @
     show_nat (nullish (sc_unexpectedPathCount sc) (length (sc_unexpectedPaths sc))) @ ''): '' @
     join_with '', '' (take 8 (sc_unexpectedPaths sc))"

definition verificationFailureWithScope :: "gate_result \<Rightarrow> scope option \<Rightarrow> gate_result" where
  "verificationFailureWithScope verdict sc =
     (case sc of
        None \<Rightarrow> verdict
      | Some s \<Rightarrow>
          if sc_unexpectedPaths s = [] then verdict
          else verdict\<lparr>gr_summary := gr_summary verdict @ '' ('' @ describeUnexpectedPaths s @ '')'',
                 gr_findings := gr_findings verdict @
                   [\<lparr>fi_severity = Critical,
                     fi_description = ''the attempt also wrote outside its declared scope'',
                     fi_evidence = describeUnexpectedPaths s\<rparr>]\<rparr>)"

section \<open>The surroundings of a handler\<close>

record site =
  si_contract :: contract
  si_node :: node
  si_states :: states
  si_outside :: outside
  si_git :: repo
  si_others :: others
  si_bench :: bench
  si_candidate :: bench
  si_again :: bench
  si_seal :: "snapshot \<Rightarrow> snap_error + string"
  si_parse :: "string \<Rightarrow> string + json"
  si_stringify :: "verification \<Rightarrow> string"
  si_campaign :: bool
  si_resetOf :: "envelope \<Rightarrow> stamp option"
  si_availabilityOf :: "runtime \<Rightarrow> envelope \<Rightarrow> availability option"
  si_random :: rat
  si_now :: int

type_synonym desk = "ctl integration"

definition at_node :: "(ctl \<Rightarrow> ctl) \<Rightarrow> desk \<Rightarrow> desk" where
  "at_node = tell"

definition node_attention :: "site \<Rightarrow> string \<Rightarrow> ctl \<Rightarrow> ctl" where
  "node_attention si code c = (if si_campaign si then raiseNodeAttention code c else c)"

section \<open>Rejections\<close>

record rejection =
  rj_code :: string
  rj_phase :: phase
  rj_message :: "string option"
  rj_forceFresh :: bool

definition rejection_for :: "string \<Rightarrow> rejection" where
  "rejection_for code =
     \<lparr>rj_code = code, rj_phase = Ph_worker, rj_message = None, rj_forceFresh = True\<rparr>"

definition maxRevisions :: "node \<Rightarrow> nat" where
  "maxRevisions node = nullish (gt_maxRevisions (nd_gate node)) 1"

definition rejected_state :: "gate_result \<Rightarrow> bool \<Rightarrow> snapshot \<Rightarrow> snapshot" where
  "rejected_state verdict forceFresh state =
     (let s = (resetPhaseRouting (state\<lparr>ns_gate := Some verdict\<rparr>))
            \<lparr>ns_revisions := ns_revisions state + 1, ns_forceFresh := forceFresh\<rparr>
      in s\<lparr>ns_previousAttempt := orelse (renderPreviousAttemptSection s) (ns_previousAttempt s)\<rparr>)"

text \<open>The retry a rejection leaves: started at once when the run admits it, queued otherwise.\<close>

definition retry_worker :: "site \<Rightarrow> ctl \<Rightarrow> ctl option" where
  "retry_worker si c =
     (let pend = move Pending (\<lambda>s. s\<lparr>ns_phase := Ph_worker, ns_error := None\<rparr>) (si_now si) c
      in case ce_running c of
           None \<Rightarrow> Some pend
         | Some jobs \<Rightarrow>
             (case aux_admission (si_contract si) (si_node si) (si_states si) Worker (si_now si) jobs c of
                None \<Rightarrow> None
              | Some (i, Some reason) \<Rightarrow>
                  Some (recordAuxRefusal (ns_status (ce_state c)) Worker reason pend)
              | Some (i, None) \<Rightarrow>
                  startWorker (si_contract si) (si_node si) (si_outside si) (si_now si)
                    (on_state (\<lambda>s. s\<lparr>ns_attempt := ns_attempt s + 1\<rparr>) c)))"

definition applyRejection :: "site \<Rightarrow> gate_result \<Rightarrow> rejection \<Rightarrow> ctl \<Rightarrow> ctl option" where
  "applyRejection si verdict rj c =
     (if ns_revisions (ce_state c) < maxRevisions (si_node si)
      then retry_worker si (on_state (rejected_state verdict (rj_forceFresh rj)) c)
      else Some (move (if gt_enabled (nd_gate (si_node si)) then Exhausted else Failed)
             (\<lambda>s. s\<lparr>ns_phase := rj_phase rj, ns_gate := Some verdict,
                ns_error := Some (mk_error (rj_code rj) (nullish (rj_message rj) (gr_summary verdict)))\<rparr>)
             (si_now si) c))"

definition applyVerificationFailure :: "site \<Rightarrow> ctl \<Rightarrow> ctl option" where
  "applyVerificationFailure si c =
     applyRejection si
       (verificationFailureWithScope (verificationFailureVerdict (si_contract si) (ce_state c))
         (ns_scope (ce_state c)))
       (rejection_for ''verification_failed'') c"

section \<open>Acceptance\<close>

definition candidateRetryNote :: "verification option \<Rightarrow> string option" where
  "candidateRetryNote evidence =
     (case evidence of
        None \<Rightarrow> None
      | Some v \<Rightarrow>
          if ve_retried v = [] then None
          else Some (boundedUtf8 (''candidate verification retried: '' @
                 join_with '', '' (map (\<lambda>i. if i < length (ve_commands v)
                     then join_with '' '' (cr_argv (ve_commands v ! i)) else []) (ve_retried v))) 256))"

definition withCandidateRetryNote :: "gate_result option \<Rightarrow> string \<Rightarrow> gate_result" where
  "withCandidateRetryNote g note =
     (case g of
        None \<Rightarrow> \<lparr>gr_verdict = V_pass, gr_maxSeverity = Sev_none, gr_summary = note, gr_findings = []\<rparr>
      | Some g' \<Rightarrow> g'\<lparr>gr_summary := boundedUtf8 (gr_summary g' @ '' '' @ [byte 0xC2, byte 0xB7] @
                       '' '' @ note) (4 * 1024)\<rparr>)"

text \<open>The properties the caller wants on the accepted snapshot; the phase is always \<open>complete\<close>.\<close>

record done_patch =
  dp_result :: "worker_result patch"
  dp_gate :: "gate_result patch"
  dp_error :: "snap_error patch"
  dp_unblocked :: bool

definition done_patched :: "done_patch \<Rightarrow> string option \<Rightarrow> snapshot \<Rightarrow> snapshot" where
  "done_patched dp note s =
     s\<lparr>ns_phase := Ph_complete,
       ns_result := patched (dp_result dp) (ns_result s),
       ns_error := patched (dp_error dp) (ns_error s),
       ns_blockedBy := (if dp_unblocked dp then [] else ns_blockedBy s),
       ns_gate := (case note of
           None \<Rightarrow> patched (dp_gate dp) (ns_gate s)
         | Some n \<Rightarrow> Some (withCandidateRetryNote
             (orelse (patched (dp_gate dp) None) (ns_gate s)) n))\<rparr>"

definition tx_of :: "integ \<Rightarrow> integration_tx" where
  "tx_of r = \<lparr>tx_attempt = ir_attempt r, tx_candidateSha = ir_candidateSha r,
     tx_attemptSha = ir_attemptSha r, tx_previousRunRefTip = ir_previousTip r\<rparr>"

definition settle_accepted :: "site \<Rightarrow> done_patch \<Rightarrow> ctl \<Rightarrow> integ \<Rightarrow> ctl" where
  "settle_accepted si dp c r =
     (let (rd, s) = onAccepted (ce_rd c) (si_node si) (ce_state c)
            (done_patched dp (candidateRetryNote (ir_candidateEvidence r))) (tx_of r) (si_now si)
      in c\<lparr>ce_rd := rd, ce_state := s\<rparr>)"

text \<open>A candidate that fails is a rejection; it never starts the retry itself.\<close>

definition candidate_verdict :: "site \<Rightarrow> snapshot \<Rightarrow> verification \<Rightarrow> gate_result" where
  "candidate_verdict si s found =
     (let verdict = verificationFailureWithScope (verificationFailureVerdict (si_contract si) s)
            (ns_scope s);
          divergent = candidateOnlyFailures (ns_verification s) (Some found)
      in verdict\<lparr>gr_summary := ''integrated candidate verification failed'',
           gr_findings := gr_findings verdict @
             [\<lparr>fi_severity = Critical,
               fi_description = (if divergent \<noteq> []
                 then ''the integration worktree failed a verification the attempt passed ('' @
                      boundedUtf8 (join_with ''; '' divergent) 512 @
                      ''): the two worktrees disagree about the environment, not about the work''
                 else ''the sealed candidate did not pass the node verification in its integration worktree''),
               fi_evidence = boundedUtf8 (si_stringify si found) (4 * 1024)\<rparr>]\<rparr>)"

definition without_jobs :: "(ctl \<Rightarrow> ctl option) \<Rightarrow> ctl \<Rightarrow> ctl" where
  "without_jobs f c = (nullish (f (c\<lparr>ce_running := None\<rparr>)) c)\<lparr>ce_running := ce_running c\<rparr>"

definition settle_failed :: "site \<Rightarrow> ctl \<Rightarrow> integ \<Rightarrow> verification \<Rightarrow> ctl" where
  "settle_failed si c r found =
     without_jobs (applyRejection si (candidate_verdict si (ce_state c) found)
       (rejection_for ''verification_failed'')) c"

definition conflict_message :: "integ \<Rightarrow> string" where
  "conflict_message r = ''integration conflict in: '' @
     (if ir_conflictingPaths r = [] then ''unknown paths''
      else join_with '', '' (ir_conflictingPaths r))"

definition moved_message :: "integ \<Rightarrow> string option \<Rightarrow> string" where
  "moved_message r current = ''run ref moved from '' @ ir_previousTip r @ '' to '' @
     nullish current ''unknown''"

definition settle_client :: "site \<Rightarrow> done_patch \<Rightarrow> ctl client" where
  "settle_client si dp =
     \<lparr>cl_verify = (\<lambda>c r. (persist c, Inr (verifyCandidateWorkspace (si_contract si)
        (si_node si) (si_candidate si) (si_again si) (ce_rd c) (ce_state c)))),
      cl_accepted = settle_accepted si dp,
      cl_failed = settle_failed si,
      cl_conflict = (\<lambda>c r. node_attention si ''integration_conflict''
        (stop_with Blocked Ph_complete (mk_error ''integration_conflict'' (conflict_message r))
           (si_now si) c)),
      cl_moved = (\<lambda>c r current. node_attention si ''integration_concurrent_move''
        (stop_with Blocked Ph_complete
           (mk_error ''integration_concurrent_move'' (moved_message r current)) (si_now si) c))\<rparr>"

definition settle_stopped :: "site \<Rightarrow> snap_error \<Rightarrow> desk \<Rightarrow> desk" where
  "settle_stopped si e = at_node (stop_with Failed Ph_complete e (si_now si))"

definition sealed_state :: "string \<Rightarrow> snapshot \<Rightarrow> snapshot" where
  "sealed_state sha s =
     s\<lparr>ns_worktree := map_option (\<lambda>wt. wt\<lparr>wt_commit := Some sha, wt_status := Wt_ready\<rparr>) (ns_worktree s)\<rparr>"

definition settleDone :: "site \<Rightarrow> done_patch \<Rightarrow> desk \<Rightarrow> desk option" where
  "settleDone si dp w =
     (let s = ce_state (iw_client w);
          branch = Option.bind (ns_worktree s) (\<lambda>wt. Option.bind (wt_branch wt) nonempty);
          base = Option.bind (ns_worktree s) (\<lambda>wt. Option.bind (wt_baseSha wt) nonempty)
      in if attemptWorkspace (bn_exists (si_bench si)) s = None \<or> branch = None \<or> base = None
         then Some (settle_stopped si (mk_error ''attempt_worktree_missing''
                ''completed attempt has no isolated worktree'') w)
         else case si_seal si s of
                Inl e \<Rightarrow> Some (settle_stopped si e w)
              | Inr sha \<Rightarrow>
                  map_option snd (integrateAttempt (si_git si) (si_others si) (settle_client si dp)
                    (nd_id (si_node si)) (ns_attempt s) sha branch (ns_verification s)
                    (at_node (persist \<circ> on_state (sealed_state sha)) w)))"

end
