(* ===== verification/Exhaustion.thy ===== *)
theory Exhaustion
  imports Settlement
begin

text \<open>
  What an exhausted or failing provider does to its node (\<open>clearTierExhaustion\<close>,
  \<open>handleProviderExhaustion\<close> and \<open>applyRoute\<close> of \<open>src/engine/lifecycle.mjs\<close>, \<open>sourceWorkerRuntime\<close> of
  \<open>src/engine/scope.mjs\<close>): wait for the reset, take the one edge there is, or park. The decision is
  made by \<open>classifyTransition\<close> and \<open>planRoute\<close> (theory Backoff) and \<open>nextListJudge\<close> (theory
  Judge_List). How an adapter reads a reset instant and a refusal out of an answer is the site's.
\<close>

definition clearTierExhaustion :: "snapshot \<Rightarrow> snapshot" where
  "clearTierExhaustion s =
     s\<lparr>ns_routing := map_option (\<lambda>ro. ro\<lparr>ro_tierExhaustion := None\<rparr>) (ns_routing s)\<rparr>"

definition sourceWorkerRuntime :: "snapshot \<Rightarrow> string option" where
  "sourceWorkerRuntime s =
     orelse (Option.bind (find_last (\<lambda>i. in_phase i = Worker) (ns_invocations s)) in_runtimeId)
       (ns_runtime s)"

definition error_of :: "envelope \<Rightarrow> snap_error" where
  "error_of envelope =
     (case en_error envelope of
        None \<Rightarrow> mk_error ''provider_exhausted'' ''provider exhausted''
      | Some e \<Rightarrow> mk_error (pe_code e) (pe_message e))"

text \<open>The refusal an answer contains is recorded for every run of this machine.\<close>

definition remember_refusal :: "site \<Rightarrow> string \<Rightarrow> envelope \<Rightarrow> ctl \<Rightarrow> ctl" where
  "remember_refusal si current envelope c =
     (case runtime_of (si_contract si) current of
        None \<Rightarrow> c
      | Some rt \<Rightarrow>
          (case refusalOfAvailability (si_availabilityOf si rt envelope) of
             None \<Rightarrow> c
           | Some r \<Rightarrow> c\<lparr>ce_host := (ce_host c)\<lparr>ho_verdicts :=
               recordRefusal (runtime_key (ce_host c) rt) r (si_now si) (ho_verdicts (ce_host c))\<rparr>\<rparr>))"

text \<open>\<open>Inl\<close> is the error of a worker runtime the contract does not declare.\<close>

definition next_judge_of ::
  "site \<Rightarrow> role \<Rightarrow> string \<Rightarrow> failure_transition \<Rightarrow> ctl \<Rightarrow> unit + judge_list_state option" where
  "next_judge_of si role current schedule c =
     (let s = ce_state c
      in if role = Judge \<and> transition_kind schedule = Kind_failover
         then (case ro_judgeList (routing_of s) of
                 None \<Rightarrow> Inr None
               | Some jl \<Rightarrow>
                   (case nextListJudge (si_contract si) (ce_host c) jl
                           (nullish (orelse (sourceWorkerRuntime s)
                              (map_option as_worker (ro_assignments (routing_of s)))) current)
                           (si_now si) of
                      None \<Rightarrow> Inl ()
                    | Some jl' \<Rightarrow> Inr (Some jl')))
         else Inr None)"

definition with_reset :: "stamp option \<Rightarrow> snap_error \<Rightarrow> snap_error" where
  "with_reset until e = e\<lparr>er_exhaustedUntil := orelse until (er_exhaustedUntil e)\<rparr>"

definition keep_judge_list :: "judge_list_state option \<Rightarrow> routing \<Rightarrow> routing" where
  "keep_judge_list jl ro = (case jl of None \<Rightarrow> ro | Some l \<Rightarrow> ro\<lparr>ro_judgeList := Some l\<rparr>)"

text \<open>No edge is left: a tier with nothing left is for a person, anything else is exhaustion.\<close>

definition park_exhausted ::
  "site \<Rightarrow> role \<Rightarrow> string \<Rightarrow> snap_error \<Rightarrow> stamp option \<Rightarrow> judge_list_state option \<Rightarrow> ctl \<Rightarrow> ctl" where
  "park_exhausted si role current blocked until jl c =
     (let e = with_reset until blocked
      in if er_code blocked = ''runtime_tier_exhausted''
         then raiseNodeAttention (er_code blocked)
                (move Blocked (\<lambda>s. s\<lparr>ns_phase := role_phase role, ns_error := Some e,
                   ns_routing := Some (keep_judge_list jl ((routing_of s)\<lparr>ro_tierExhaustion :=
                     Some (upsertTierExhaustionCandidate (ro_tierExhaustion (routing_of s)) role current
                       until)\<rparr>))\<rparr>) (si_now si) c)
         else move Exhausted (\<lambda>s. s\<lparr>ns_phase := role_phase role, ns_error := Some e,
                ns_routing := (if jl = None then ns_routing s
                  else Some (keep_judge_list jl (routing_of s)))\<rparr>) (si_now si)
              (on_state clearTierExhaustion c))"

definition applyRoute ::
  "site \<Rightarrow> role \<Rightarrow> snap_error \<Rightarrow> string \<Rightarrow> route_plan \<Rightarrow> failure_transition \<Rightarrow> envelope \<Rightarrow> status
    \<Rightarrow> ctl \<Rightarrow> ctl option" where
  "applyRoute si role error current plan schedule envelope status c =
     (let (ro, override, code) = buildRouting (ce_state c) role error current plan schedule
            (en_usage envelope) (en_costUsd envelope) (en_priced envelope) status (si_now si)
      in case runtimeSnapshot (si_contract si) (pl_nextRuntime plan) of
           None \<Rightarrow> None
         | Some _ \<Rightarrow>
             (let c1 = move Pending (\<lambda>s. s\<lparr>ns_phase := role_phase role,
                     ns_runtime := Some (pl_nextRuntime plan), ns_error := None,
                     ns_routing := Some ro\<rparr>) (si_now si) c
              in Some (c1\<lparr>ce_rd := appendTransitionEvent (ce_rd c1) (ce_state c1) Pending Pending
                   (Det_route role status current code override)\<rparr>)))"

definition current_runtime :: "site \<Rightarrow> role \<Rightarrow> string option \<Rightarrow> snapshot \<Rightarrow> string option" where
  "current_runtime si role given s =
     (case orelse given (ns_runtime s) of
        Some i \<Rightarrow> Some i
      | None \<Rightarrow> map_option fst (routeRuntimeForState (si_contract si) (si_node si) s role (si_now si)))"

text \<open>
  The left of the answer says whether the node's fate is decided: a transition computed by the
  caller is not, when there is no edge to take for it.
\<close>

definition follow_plan ::
  "site \<Rightarrow> role \<Rightarrow> envelope \<Rightarrow> string \<Rightarrow> failure_transition \<Rightarrow> bool \<Rightarrow> judge_list_state option \<Rightarrow> ctl
    \<Rightarrow> (bool \<times> ctl) option" where
  "follow_plan si role envelope current schedule precomputed jl c =
     (let until = si_resetOf si envelope;
          plan = planRoute (si_contract si) (ce_state c) role (error_of envelope) current schedule
            (si_now si) until jl;
          status = (if en_status envelope = Failed then Failed else Exhausted)
      in case pl_blocked plan of
           Some blocked \<Rightarrow>
             Some (if precomputed then (False, c)
               else (True, park_exhausted si role current blocked until jl c))
         | None \<Rightarrow>
             (case (if role = Judge \<and> pl_nextRuntime plan \<noteq> current
                    then judgeFallbackVendorConflict (si_contract si) (sourceWorkerRuntime (ce_state c))
                           (pl_nextRuntime plan) else None) of
                Some conflict \<Rightarrow>
                  Some (if precomputed then (False, c)
                    else (True, stop_with Blocked (role_phase role) conflict (si_now si)
                           (on_state clearTierExhaustion c)))
              | None \<Rightarrow>
                  map_option (Pair True)
                    (applyRoute si role (error_of envelope) current plan schedule envelope status c)))"

definition handleProviderExhaustion ::
  "site \<Rightarrow> role \<Rightarrow> envelope \<Rightarrow> string option \<Rightarrow> failure_transition option \<Rightarrow> ctl
    \<Rightarrow> (bool \<times> ctl) option" where
  "handleProviderExhaustion si role envelope given precomputed c =
     (if er_code (error_of envelope) \<in> set NON_FAILOVER_CODES
      then Some (True, stop_with Exhausted (role_phase role) (error_of envelope) (si_now si)
             (on_state clearTierExhaustion c))
      else case current_runtime si role given (ce_state c) of
             None \<Rightarrow> None
           | Some current \<Rightarrow>
               (let s = ce_state c;
                    schedule = (case precomputed of
                        Some t \<Rightarrow> t
                      | None \<Rightarrow> classifyTransition envelope
                          (nodeDeadlineAt (si_contract si) (si_node si) s) None
                          (networkBackoffAttempts (ns_routing s) role (ns_revisions s))
                          (si_now si) (si_random si));
                    c1 = remember_refusal si current envelope c
                in case next_judge_of si role current schedule c1 of
                     Inl _ \<Rightarrow> None
                   | Inr jl \<Rightarrow>
                       follow_plan si role envelope current schedule (precomputed \<noteq> None) jl c1))"

end
