(* ===== verification/Review.thy ===== *)
theory Review
  imports Exhaustion
begin

text \<open>
  The judge's round: what its closed job, its verdict or the lack of one does to the node
  (\<open>src/engine/review.mjs\<close>, \<open>settleJudgeRound\<close> of \<open>src/engine/settle-judge.mjs\<close>).

  The test-only interrupt between the two writes of a protocol failure is left out.
\<close>

definition JUDGE_MAX_FAILURES :: nat where "JUDGE_MAX_FAILURES = 2"

definition INVALID_JUDGE_OUTPUT_CODE :: string where
  "INVALID_JUDGE_OUTPUT_CODE = ''invalid_judge_output''"

section \<open>A round without a verdict\<close>

definition on_ctl :: "(ctl \<Rightarrow> ctl option) \<Rightarrow> desk \<Rightarrow> desk option" where
  "on_ctl f w = map_option (\<lambda>c. w\<lparr>iw_client := c\<rparr>) (f (iw_client w))"

definition applyJudgeRound :: "site \<Rightarrow> round \<Rightarrow> worker_result option \<Rightarrow> desk \<Rightarrow> desk option" where
  "applyJudgeRound si r workerResult w =
     (case r of
        Rejected verdict \<Rightarrow> on_ctl (applyRejection si verdict (rejection_for ''mechanical_gate_failed'')) w
      | Settle g \<Rightarrow> settleDone si \<lparr>dp_result = Put workerResult, dp_gate = Put g, dp_error = Keep, dp_unblocked = False\<rparr> w
      | Dispatched \<Rightarrow> Some w
      | Refused \<Rightarrow> Some w)"

definition judge_round :: "site \<Rightarrow> desk \<Rightarrow> desk option" where
  "judge_round si w =
     (case startJudge (si_contract si) (si_node si) (si_outside si) (si_now si) (iw_client w) of
        None \<Rightarrow> None
      | Some (r, c) \<Rightarrow> applyJudgeRound si r (ns_result (ce_state c)) (w\<lparr>iw_client := c\<rparr>))"

text \<open>The one re-ask of a round: queued without jobs or admission, otherwise asked now.\<close>

definition requeue_judge :: "site \<Rightarrow> ctl \<Rightarrow> ctl" where
  "requeue_judge si =
     move Pending (\<lambda>s. s\<lparr>ns_phase := Ph_judge, ns_gate := None, ns_error := None, ns_blockedBy := []\<rparr>)
       (si_now si)"

definition ask_now :: "site \<Rightarrow> desk \<Rightarrow> desk option" where
  "ask_now si w =
     (case ce_running (iw_client w) of
        None \<Rightarrow> Some (at_node (requeue_judge si) w)
      | Some jobs \<Rightarrow>
          (case aux_admission (si_contract si) (si_node si) (si_states si) Judge (si_now si) jobs
                  (iw_client w) of
             None \<Rightarrow> None
           | Some (i, Some refusal) \<Rightarrow>
               Some (at_node (\<lambda>c. recordAuxRefusal (ns_status (ce_state c)) Judge refusal
                 (requeue_judge si c)) w)
           | Some (i, None) \<Rightarrow> judge_round si w))"

definition ask_again :: "site \<Rightarrow> string \<Rightarrow> desk \<Rightarrow> desk option" where
  "ask_again si reason w = ask_now si (at_node (on_state (\<lambda>s. markJudgeReask s reason)) w)"

definition settleAdvisoryReview :: "site \<Rightarrow> gate_result \<Rightarrow> desk \<Rightarrow> desk option" where
  "settleAdvisoryReview si verdict w =
     (let w1 = at_node (on_state (\<lambda>s. (clearJudgeReask s)\<lparr>ns_gate := Some verdict\<rparr>)) w;
          w2 = (if gr_verdict verdict = V_pass then w1
                else at_node (\<lambda>c. c\<lparr>ce_rd := appendTransitionEvent (ce_rd c) (ce_state c)
                  (ns_status (ce_state c)) (ns_status (ce_state c))
                  (Det_advisory (gr_verdict verdict) (gr_summary verdict))\<rparr>) w1)
      in settleDone si \<lparr>dp_result = Keep, dp_gate = Put (Some verdict), dp_error = Keep, dp_unblocked = False\<rparr> w2)"

definition advisory_failure :: "site \<Rightarrow> gate_result \<Rightarrow> string \<Rightarrow> desk \<Rightarrow> desk option" where
  "advisory_failure si verdict code w =
     map_option (at_node (raiseNodeAttention code)) (settleAdvisoryReview si verdict w)"

definition judge_unavailable :: "site \<Rightarrow> string \<Rightarrow> desk \<Rightarrow> desk" where
  "judge_unavailable si message =
     at_node (raiseNodeAttention JUDGE_UNAVAILABLE_CODE \<circ>
       stop_with Blocked Ph_judge
         (mk_error JUDGE_UNAVAILABLE_CODE (nullish (excerpt message) ''judge unavailable'')) (si_now si))"

definition settleUnavailableJudge :: "site \<Rightarrow> string \<Rightarrow> desk \<Rightarrow> desk option" where
  "settleUnavailableJudge si message w =
     (if reviewMode (nd_gate (si_node si)) = Rev_advisory
      then advisory_failure si (invalidJudgeVerdict message) INVALID_JUDGE_OUTPUT_CODE w
      else Some (judge_unavailable si message w))"

definition applyJudgeProtocolFailure :: "site \<Rightarrow> string \<Rightarrow> desk \<Rightarrow> desk option" where
  "applyJudgeProtocolFailure si reason w =
     (if judgeReaskOutstanding (ce_state (iw_client w))
      then (if reviewMode (nd_gate (si_node si)) = Rev_advisory
            then advisory_failure si (invalidJudgeVerdict reason) INVALID_JUDGE_OUTPUT_CODE w
            else Some (judge_unavailable si reason w))
      else ask_again si reason w)"

section \<open>A verdict\<close>

definition read_verdict_text :: "site \<Rightarrow> string option \<Rightarrow> string + gate_result" where
  "read_verdict_text si result =
     (case si_parse si (nullish result []) of
        Inl e \<Rightarrow> Inl (''judge returned invalid JSON: '' @ e)
      | Inr j \<Rightarrow> parseJudge j)"

definition failOn :: "node \<Rightarrow> severity list" where
  "failOn node = nullish (gt_failOn (nd_gate node)) [Critical]"

text \<open>\<open>shouldFail\<close>: a failing verdict the gate rejects for.\<close>

definition shouldFail :: "node \<Rightarrow> gate_result \<Rightarrow> bool" where
  "shouldFail node verdict \<longleftrightarrow> gr_verdict verdict = V_fail \<and> gr_maxSeverity verdict \<noteq> Sev_none \<and>
     gr_maxSeverity verdict \<in> set (failOn node)"

definition judge_protocol_stop :: "site \<Rightarrow> gate_result \<Rightarrow> ctl \<Rightarrow> ctl" where
  "judge_protocol_stop si verdict c =
     raiseNodeAttention ''judge_protocol''
       (move Blocked (\<lambda>s. s\<lparr>ns_phase := Ph_judge, ns_gate := Some verdict,
          ns_error := Some (mk_error ''judge_protocol''
            ''judge rejection cited no Definition of Done item id after the bounded re-ask'')\<rparr>)
        (si_now si) (persist c))"

definition applyJudgeResult :: "site \<Rightarrow> string option \<Rightarrow> desk \<Rightarrow> desk option" where
  "applyJudgeResult si result w0 =
     (case read_verdict_text si result of
        Inl e \<Rightarrow> applyJudgeProtocolFailure si e w0
      | Inr verdict \<Rightarrow>
          (let w = at_node (on_state (\<lambda>s. s\<lparr>ns_gate := Some verdict, ns_judgeFailures := Some 0\<rparr>)) w0;
               advisory = reviewMode (nd_gate (si_node si)) = Rev_advisory;
               protocolFailure = gr_verdict verdict = V_fail \<and> uncitedRejection verdict (si_node si)
           in if protocolFailure \<and> judgeReaskOutstanding (ce_state (iw_client w))
              then (if advisory then advisory_failure si verdict ''judge_protocol'' w
                    else Some (at_node (judge_protocol_stop si verdict) w))
              else if protocolFailure then ask_again si UNCITED_REJECTION_REASON w
              else (let w1 = at_node (on_state clearJudgeReask) w
                    in if advisory then settleAdvisoryReview si verdict w1
                       else if \<not> shouldFail (si_node si) verdict
                       then settleDone si \<lparr>dp_result = Keep, dp_gate = Put (Some verdict),
                              dp_error = Keep, dp_unblocked = False\<rparr> w1
                       else on_ctl (applyRejection si verdict
                              \<lparr>rj_code = ''revision_cap'', rj_phase = Ph_judge, rj_message = None,
                               rj_forceFresh = True\<rparr>) w1)))"

section \<open>A closed judge job\<close>

record judge_job =
  jj_runtime :: string
  jj_exitCode :: "int option"

definition failure_message :: "envelope \<Rightarrow> string" where
  "failure_message envelope =
     (case en_error envelope of None \<Rightarrow> ''judge provider failed'' | Some e \<Rightarrow> pe_message e)"

text \<open>A network failure waits or fails over; the right answer is the desk it left undecided.\<close>

definition judge_network :: "site \<Rightarrow> judge_job \<Rightarrow> envelope \<Rightarrow> desk \<Rightarrow> (desk + desk) option" where
  "judge_network si job envelope w =
     (case networkTransition (si_contract si) (si_node si) (ce_state (iw_client w)) Judge envelope
             (jj_exitCode job) (si_now si) (si_random si) of
        None \<Rightarrow> Some (Inr w)
      | Some t \<Rightarrow>
          map_option (\<lambda>(decided, c). (if decided then Inl else Inr) (w\<lparr>iw_client := c\<rparr>))
            (handleProviderExhaustion si Judge envelope (Some (jj_runtime job)) (Some t) (iw_client w)))"

definition judge_failed :: "site \<Rightarrow> envelope \<Rightarrow> desk \<Rightarrow> desk option" where
  "judge_failed si envelope w0 =
     (let w = at_node (on_state clearTierExhaustion) w0; s = ce_state (iw_client w);
          failures = nullish (ns_judgeFailures s) 0 + 1;
          counted = at_node (on_state (\<lambda>s. s\<lparr>ns_judgeFailures := Some failures\<rparr>)) w
      in if judgeReaskOutstanding s then applyJudgeProtocolFailure si (failure_message envelope) w
         else if failures < JUDGE_MAX_FAILURES then judge_round si (at_node persist counted)
         else settleUnavailableJudge si (failure_message envelope) counted)"

definition settleJudgeRound :: "site \<Rightarrow> judge_job \<Rightarrow> envelope \<Rightarrow> desk \<Rightarrow> desk option" where
  "settleJudgeRound si job envelope w =
     (if en_status envelope = Failed \<and>
         map_option pe_code (en_error envelope) \<noteq> Some ''incomplete_stream''
      then (case judge_network si job envelope w of
              None \<Rightarrow> None
            | Some (Inl w') \<Rightarrow> Some w'
            | Some (Inr w') \<Rightarrow> judge_failed si envelope w')
      else case judgeVerdictEvidence envelope of
             Inl reason \<Rightarrow>
               (case judge_network si job envelope w of
                  None \<Rightarrow> None
                | Some (Inl w') \<Rightarrow> Some w'
                | Some (Inr w') \<Rightarrow>
                    applyJudgeProtocolFailure si reason (at_node (on_state clearTierExhaustion) w'))
           | Inr result \<Rightarrow>
               applyJudgeResult si result (at_node (on_state clearTierExhaustion) w))"

end
