(* ===== verification/Review_Safety.thy ===== *)
theory Review_Safety
  imports Review
begin

text \<open>
  What holds of every way a judge's round can be settled: the review budget, that a node never
  stays running without a job, and that a blocking gate keeps the run's ref.
\<close>

section \<open>Steps of one node\<close>

definition budget_step :: "node \<Rightarrow> ctl \<Rightarrow> ctl \<Rightarrow> bool" where
  "budget_step node c c' \<longleftrightarrow> ns_id (ce_state c') = ns_id (ce_state c) \<and>
     ns_revisions (ce_state c) \<le> ns_revisions (ce_state c') \<and>
     ns_revisions (ce_state c') \<le> max (ns_revisions (ce_state c)) (maxRevisions node) \<and>
     (ce_running c' = None \<longleftrightarrow> ce_running c = None)"

text \<open>The node left the running state, or a job was started for it.\<close>

definition accounted_for :: "ctl \<Rightarrow> bool" where
  "accounted_for c \<longleftrightarrow> ns_status (ce_state c) \<noteq> Running \<or> has_job c"

lemma budget_refl [simp]: "budget_step node c c"
  by (simp add: budget_step_def)

lemma budget_trans: "budget_step node a b \<Longrightarrow> budget_step node b c \<Longrightarrow> budget_step node a c"
  by (auto simp: budget_step_def)

lemma same_node_budget: "same_node c c' \<Longrightarrow> budget_step node c c'"
  by (auto simp: budget_step_def same_node_def)

lemma budget_on_state [simp]:
  "ns_id (f (ce_state c)) = ns_id (ce_state c) \<Longrightarrow> ns_revisions (f (ce_state c)) = ns_revisions (ce_state c)
    \<Longrightarrow> budget_step node c (on_state f c)"
  by (simp add: budget_step_def)

lemma budget_persist [simp]: "budget_step node c (persist c)"
  by (simp add: budget_step_def)

lemma budget_move [simp]:
  "(\<And>s. ns_id (f s) = ns_id s \<and> ns_revisions (f s) = ns_revisions s) \<Longrightarrow> budget_step node c (move st f now c)"
  by (simp add: budget_step_def)

lemma budget_stop [simp]: "budget_step node c (stop_with st ph e now c)"
  by (simp add: stop_with_def)

lemma accounted_stop [simp]:
  "st \<noteq> Running \<Longrightarrow> accounted_for (stop_with st ph e now c)"
  "st \<noteq> Running \<Longrightarrow> accounted_for (move st f now c)"
  by (simp_all add: stop_with_def accounted_for_def)

lemma attention_step [simp]:
  "budget_step node c (raiseNodeAttention code c)"
  "has_job (raiseNodeAttention code c) = has_job c"
  "accounted_for (raiseNodeAttention code c) = accounted_for c"
  "budget_step node d (raiseNodeAttention code c) = budget_step node d c"
  by (simp_all add: budget_step_def accounted_for_def has_job_def)

lemma node_attention_step [simp]:
  "accounted_for (node_attention si code c) = accounted_for c"
  "budget_step node d (node_attention si code c) = budget_step node d c"
  by (simp_all add: node_attention_def)

lemma aux_refusal_step [simp]:
  "ce_state (recordAuxRefusal from' role reason c) = ce_state c"
  "ce_running (recordAuxRefusal from' role reason c) = ce_running c"
  "accounted_for (recordAuxRefusal from' role reason c) = accounted_for c"
  "budget_step node d (recordAuxRefusal from' role reason c) = budget_step node d c"
  by (simp_all add: recordAuxRefusal_def budget_step_def accounted_for_def has_job_def)

section \<open>Starting and rejecting\<close>

lemma provision_step [simp]: "same_node c (provision made c)"
  "ns_status (ce_state (provision made c)) = ns_status (ce_state c)"
  by (auto simp: provision_def same_node_def split: option.splits)

lemma started_step:
  assumes "startWorker contract node oe now c = Some c'" and "ns_id (ce_state c) = nd_id node"
    and "ce_running c \<noteq> None"
  shows "same_node c c'" and "accounted_for c'"
proof -
  define d where "d = on_state (\<lambda>s. s\<lparr>ns_forceFresh := False\<rparr>) c"
  have d: "same_node c d" by (simp add: d_def same_node_def)
  have stop: "same_node c (stop_with Failed ph e now x)" if "same_node c x" for ph e x
    using that by (simp add: stop_with_def same_node_def)
  have wt: "same_node c (on_state failed_worktree d)"
    by (simp add: d_def same_node_def failed_worktree_def)
  have p: "same_node c (provision made d)" for made using same_node_trans [OF d provision_step(1)] .
  have launch: "same_node c (launch_worker oe node rt b now (provision made d))"
    "accounted_for (launch_worker oe node rt b now (provision made d))" for rt b made
  proof -
    have id: "ns_id (ce_state (provision made d)) = nd_id node" "ce_running (provision made d) \<noteq> None"
      using p [of made] assms(2,3) by (auto simp: same_node_def)
    show "same_node c (launch_worker oe node rt b now (provision made d))"
      by (rule same_node_trans [OF p launch_worker_step(1) [OF id refl]])
    show "accounted_for (launch_worker oe node rt b now (provision made d))"
      using launch_worker_step(2) [OF id refl, of oe rt b now] by (auto simp: accounted_for_def)
  qed
  have "\<exists>x made. (c' = stop_with Failed Ph_worker x now (on_state failed_worktree d)) \<or>
      c' = stop_with Failed Ph_worker x now (provision made d) \<or>
      (\<exists>rt b. c' = launch_worker oe node rt b now (provision made d))"
    using assms(1) unfolding startWorker_def Let_def d_def [symmetric]
    by (auto split: sum.splits option.splits if_splits prod.splits)
  then show "same_node c c'" "accounted_for c'"
    using stop [OF wt] stop [OF p] launch by auto
qed

lemma rejected_state_simps [simp]:
  "ns_id (rejected_state v ff s) = ns_id s" "ns_revisions (rejected_state v ff s) = ns_revisions s + 1"
  "ns_status (rejected_state v ff s) = ns_status s"
  by (simp_all add: rejected_state_def resetPhaseRouting_def Let_def)

lemma retry_worker_step:
  assumes "retry_worker si c = Some c'" and "ns_id (ce_state c) = nd_id (si_node si)"
  shows "budget_step node c c' \<and> accounted_for c'"
proof (cases "ce_running c")
  case None
  with assms(1) show ?thesis by (auto simp: retry_worker_def)
next
  case (Some jobs)
  let ?up = "on_state (\<lambda>s. s\<lparr>ns_attempt := ns_attempt s + 1\<rparr>) c"
  consider (queued) reason where "c' = recordAuxRefusal (ns_status (ce_state c)) Worker reason
        (move Pending (\<lambda>s. s\<lparr>ns_phase := Ph_worker, ns_error := None\<rparr>) (si_now si) c)"
    | (now) "startWorker (si_contract si) (si_node si) (si_outside si) (si_now si) ?up = Some c'"
    using assms(1) Some by (auto simp: retry_worker_def Let_def split: option.splits)
  then show ?thesis
  proof cases
    case now
    then have "same_node ?up c'" "accounted_for c'"
      using started_step [OF now] assms(2) Some by simp_all
    moreover have "budget_step node c ?up" by simp
    ultimately show ?thesis using budget_trans same_node_budget by blast
  qed simp
qed

text \<open>A rejection spends one revision while there is one, and settles the node when there is none.\<close>

lemma rejection_step:
  assumes "applyRejection si verdict rj c = Some c'" and "ns_id (ce_state c) = nd_id (si_node si)"
  shows "budget_step (si_node si) c c' \<and> accounted_for c'"
proof (cases "ns_revisions (ce_state c) < maxRevisions (si_node si)")
  case True
  let ?d = "on_state (rejected_state verdict (rj_forceFresh rj)) c"
  have "retry_worker si ?d = Some c'" using assms(1) True by (simp add: applyRejection_def)
  from retry_worker_step [OF this, of "si_node si"] assms(2)
  have "budget_step (si_node si) ?d c'" "accounted_for c'" by simp_all
  moreover have "budget_step (si_node si) c ?d" using True by (simp add: budget_step_def)
  ultimately show ?thesis using budget_trans by blast
next
  case False
  with assms(1) show ?thesis by (auto simp: applyRejection_def)
qed

lemma queued_rejection:
  assumes "ce_running c = None"
  shows "\<exists>c'. applyRejection si verdict rj c = Some c'"
  using assms by (simp add: applyRejection_def retry_worker_def)

lemma settle_failed_step:
  assumes "ns_id (ce_state c) = nd_id (si_node si)"
  shows "budget_step (si_node si) c (settle_failed si c r found) \<and> accounted_for (settle_failed si c r found)"
proof -
  let ?d = "c\<lparr>ce_running := None\<rparr>"
  let ?rej = "applyRejection si (candidate_verdict si (ce_state c) found) (rejection_for ''verification_failed'')"
  obtain c' where c': "?rej ?d = Some c'" 
    using queued_rejection [of ?d si "candidate_verdict si (ce_state c) found"
        "rejection_for ''verification_failed''"] by auto
  with rejection_step [OF c'] assms have "budget_step (si_node si) ?d c'" "accounted_for c'" by simp_all
  then show ?thesis
    using c' by (auto simp: settle_failed_def without_jobs_def budget_step_def accounted_for_def has_job_def)
qed

section \<open>Settling as done\<close>

text \<open>The key of an attempt has no transaction under way in the journal.\<close>

definition no_open_tx :: "integ list \<Rightarrow> string \<Rightarrow> nat \<Rightarrow> bool" where
  "no_open_tx journal n a \<longleftrightarrow>
     list_all (\<lambda>r. integrationKey r = (n, a) \<longrightarrow> tx_terminal (ir_status r))
       (latestIntegrationTransactions journal)"

lemma append_once_key: "integrationKey (fst (append_once st tx w)) = integrationKey tx"
  by (auto simp: append_once_def Let_def integrationKey_def split: option.splits dest!: find_SomeD)

definition told :: "'w client \<Rightarrow> string \<Rightarrow> nat \<Rightarrow> 'w \<Rightarrow> 'w \<Rightarrow> bool" where
  "told cl n a v v' \<longleftrightarrow> (\<exists>r. ir_attempt r = a \<and>
     (v' = cl_accepted cl v r \<or> (\<exists>e. v' = cl_failed cl v r e) \<or> v' = cl_conflict cl v r \<or>
      (\<exists>x. v' = cl_moved cl v r x)))"

lemma accept_now_told:
  assumes "ir_attempt tx = a" and "iw_client w = v"
  shows "told cl n a v (iw_client (accept_now cl tx w))"
proof -
  have "ir_attempt (fst (appendAccepted tx w)) = a"
    using append_once_key [of Tx_accepted tx w] assms
    by (simp add: appendAccepted_def integrationKey_def)
  moreover have "iw_client (snd (append_once st tx w)) = v" for st
    using assms(2) by (auto simp: append_once_def Let_def split: option.splits)
  then have "iw_client (accept_now cl tx w) = cl_accepted cl v (fst (appendAccepted tx w))"
    by (simp add: accept_now_def finishAccepted_def tell_def appendAccepted_def case_prod_beta)
  ultimately show ?thesis unfolding told_def by blast
qed

lemma told_tell:
  assumes "ir_attempt tx = a" and "iw_client w = v"
  shows "told cl n a v (iw_client (tell (\<lambda>v. cl_moved cl v tx x) w))"
    and "told cl n a v (iw_client (tell (\<lambda>v. cl_failed cl v tx e) w))"
    and "told cl n a v (iw_client (tell (\<lambda>v. cl_conflict cl v tx) w))"
  using assms by (auto simp: told_def tell_def)

lemma advance_told:
  assumes "advanceVerified g ot cl tx w = Some (out, w')" and "ir_attempt tx = a" and "iw_client w = v"
  shows "told cl n a v (iw_client w')"
  using assms(1) unfolding advanceVerified_def Let_def
  by (auto simp: assms(3) split: option.splits if_splits
      intro!: accept_now_told [OF assms(2)] told_tell(1) [OF assms(2)])

lemma verify_told:
  assumes "verifyAndAdvance g ot cl ev tx w = Some (out, w')" and "ir_attempt tx = a"
  shows "told cl n a (fst (cl_verify cl (iw_client w) tx)) (iw_client w')"
proof -
  obtain v res where vf: "cl_verify cl (iw_client w) tx = (v, res)" by fastforce
  show ?thesis
    using assms unfolding verifyAndAdvance_def Let_def vf
    by (auto split: if_splits sum.splits intro!: told_tell(2) advance_told)
qed

text \<open>
  Without a transaction under way, integrating an attempt ends with one word to its client, about
  this attempt, after at most one look at the candidate.
\<close>

lemma integrate_told:
  assumes "integrateAttempt g ot cl n a sha br ev w = Some (res, w')" and "no_open_tx (iw_journal w) n a"
  shows "told cl n a (iw_client w) (iw_client w') \<or>
    (\<exists>tx. told cl n a (fst (cl_verify cl (iw_client w) tx)) (iw_client w'))"
proof -
  define prior where "prior = List.find (\<lambda>r. ir_node r = n \<and> ir_attempt r = a)
    (latestIntegrationTransactions (iw_journal w))"
  have terminal: "tx_terminal (ir_status r)" if "prior = Some r" for r
    using that assms(2)
    by (auto simp: prior_def no_open_tx_def list_all_iff integrationKey_def dest!: find_SomeD)
  consider (old) r where "prior = Some r" "accepted r" "w' = finishAccepted cl r w"
    | (new) previous tx where "prepareTransaction g n a sha br previous = Some tx"
      "Some (res, w') = (let prepared = tx\<lparr>ir_status := Some Tx_prepared, ir_attemptEvidence := ev\<rparr>;
            w1 = appendRecord prepared w
        in if ir_conflictingPaths tx \<noteq> []
           then Some (Some (Out_conflict (ir_conflictingPaths tx)),
                  tell (\<lambda>v. cl_conflict cl v tx) (appendRecord (prepared\<lparr>ir_status := Some Tx_conflict\<rparr>) w1))
           else map_option (\<lambda>p. (Some (fst p), snd p)) (verifyAndAdvance g ot cl ev tx w1))"
    using assms(1) terminal unfolding integrateAttempt_def Let_def prior_def [symmetric]
    by (auto split: option.splits if_splits)
  then show ?thesis
  proof cases
    case old
    have "ir_attempt r = a" using old(1) by (auto simp: prior_def dest!: find_SomeD)
    then show ?thesis using old(3) by (auto simp: told_def finishAccepted_def tell_def)
  next
    case new
    have a: "ir_attempt tx = a"
      using new(1) by (auto simp: prepareTransaction_def Let_def split: if_splits merge_result.splits)
    show ?thesis
    proof (cases "ir_conflictingPaths tx = []")
      case False
      with new(2) show ?thesis
        by (auto simp: Let_def intro!: told_tell(3) [OF a])
    next
      case True
      with new(2) obtain out where
        "verifyAndAdvance g ot cl ev tx (appendRecord (tx\<lparr>ir_status := Some Tx_prepared,
           ir_attemptEvidence := ev\<rparr>) w) = Some (out, w')"
        by (auto simp: Let_def dest!: sym [of "Some _"])
      from verify_told [OF this a] show ?thesis by auto
    qed
  qed
qed

lemma onAccepted_frame:
  assumes "ns_attempt s = tx_attempt tx"
    and "\<And>s. ns_id (patch s) = ns_id s \<and> ns_revisions (patch s) = ns_revisions s"
  shows "ns_id (snd (onAccepted rd node s patch tx now)) = ns_id s"
    and "ns_revisions (snd (onAccepted rd node s patch tx now)) = ns_revisions s"
    and "ns_status (snd (onAccepted rd node s patch tx now)) = Done"
  using assms by (simp_all add: onAccepted_def case_prod_beta transition_frame(3) accepted_patch_def Let_def)

lemma settle_accepted_step:
  assumes "ir_attempt r = ns_attempt (ce_state c)"
  shows "budget_step node c (settle_accepted si dp c r)"
    and "ns_status (ce_state (settle_accepted si dp c r)) = Done"
proof -
  have patch: "ns_id (done_patched dp t s) = ns_id s \<and> ns_revisions (done_patched dp t s) = ns_revisions s"
    for t s by (simp add: done_patched_def)
  have tx: "ns_attempt (ce_state c) = tx_attempt (tx_of r)" using assms by (simp add: tx_of_def)
  show "budget_step node c (settle_accepted si dp c r)" "ns_status (ce_state (settle_accepted si dp c r)) = Done"
    using onAccepted_frame [OF tx patch]
    by (simp_all add: settle_accepted_def case_prod_beta Let_def budget_step_def)
qed

lemma told_step:
  assumes "told (settle_client si dp) n (ns_attempt (ce_state c)) c c'"
    and "ns_id (ce_state c) = nd_id (si_node si)"
  shows "budget_step (si_node si) c c' \<and> accounted_for c'"
proof -
  have acc: "accounted_for (settle_accepted si dp c r)" if "ir_attempt r = ns_attempt (ce_state c)" for r
    using settle_accepted_step(2) [OF that] by (simp add: accounted_for_def)
  show ?thesis
    using assms(1) settle_accepted_step(1) [of _ c "si_node si" si dp] acc settle_failed_step [OF assms(2)]
    by (auto simp: told_def settle_client_def)
qed

lemma settleDone_step:
  assumes "settleDone si dp w = Some w'" and "ns_id (ce_state (iw_client w)) = nd_id (si_node si)"
    and "no_open_tx (iw_journal w) (nd_id (si_node si)) (ns_attempt (ce_state (iw_client w)))"
  shows "budget_step (si_node si) (iw_client w) (iw_client w') \<and> accounted_for (iw_client w')"
proof -
  let ?c = "iw_client w"
  have stopped: "budget_step (si_node si) ?c (iw_client (settle_stopped si e w)) \<and>
      accounted_for (iw_client (settle_stopped si e w))" for e
    by (simp add: settle_stopped_def at_node_def tell_def)
  consider (stop) e where "w' = settle_stopped si e w"
    | (seal) sha br res where "integrateAttempt (si_git si) (si_others si) (settle_client si dp)
        (nd_id (si_node si)) (ns_attempt (ce_state ?c)) sha br (ns_verification (ce_state ?c))
        (at_node (persist \<circ> on_state (sealed_state sha)) w) = Some (res, w')"
    using assms(1) unfolding settleDone_def Let_def
    by (auto split: if_splits sum.splits)
  then show ?thesis
  proof cases
    case seal
    let ?d = "persist (on_state (sealed_state sha) ?c)"
    have w1: "iw_client (at_node (persist \<circ> on_state (sealed_state sha)) w) = ?d"
      "iw_journal (at_node (persist \<circ> on_state (sealed_state sha)) w) = iw_journal w"
      by (simp_all add: at_node_def tell_def)
    have d: "budget_step (si_node si) ?c ?d" "ns_id (ce_state ?d) = nd_id (si_node si)"
      "ns_attempt (ce_state ?d) = ns_attempt (ce_state ?c)"
      using assms(2) by (simp_all add: budget_step_def sealed_state_def)
    have v: "fst (cl_verify (settle_client si dp) ?d tx) = persist ?d" for tx
      by (simp add: settle_client_def)
    from integrate_told [OF seal] assms(3) have
      "told (settle_client si dp) (nd_id (si_node si)) (ns_attempt (ce_state ?c)) ?d (iw_client w') \<or>
       told (settle_client si dp) (nd_id (si_node si)) (ns_attempt (ce_state ?c)) (persist ?d) (iw_client w')"
      by (simp add: w1 v)
    moreover have "budget_step (si_node si) ?d (persist ?d)" by simp
    ultimately show ?thesis
      using told_step [of si dp "nd_id (si_node si)" ?d "iw_client w'"]
        told_step [of si dp "nd_id (si_node si)" "persist ?d" "iw_client w'"] d budget_trans
      by (metis persist_simps(1))
  qed (use stopped in auto)
qed

section \<open>Exhaustion and the start of a judge\<close>

lemma remember_simps [simp]:
  "ce_state (remember_refusal si current envelope c) = ce_state c"
  "ce_running (remember_refusal si current envelope c) = ce_running c"
  by (auto simp: remember_refusal_def split: option.splits)

lemma clear_tier_simps [simp]:
  "ns_id (clearTierExhaustion s) = ns_id s" "ns_revisions (clearTierExhaustion s) = ns_revisions s"
  "ns_attempt (clearTierExhaustion s) = ns_attempt s" "ns_status (clearTierExhaustion s) = ns_status s"
  "ns_verification (clearTierExhaustion s) = ns_verification s" "ns_scope (clearTierExhaustion s) = ns_scope s"
  by (simp_all add: clearTierExhaustion_def)

lemma park_step: "budget_step node c (park_exhausted si role current blocked until jl c) \<and>
    accounted_for (park_exhausted si role current blocked until jl c)"
  by (simp add: park_exhausted_def Let_def budget_step_def)

lemma route_step:
  "applyRoute si role error current plan schedule envelope status c = Some c' \<Longrightarrow>
     budget_step node c c' \<and> accounted_for c'"
  by (auto simp: applyRoute_def Let_def budget_step_def accounted_for_def split: prod.splits option.splits)

lemma clear_tier_budget [simp]: "budget_step node c (on_state clearTierExhaustion c)"
  by simp

lemma follow_plan_step:
  assumes "follow_plan si role envelope current schedule pre jl c = Some (decided, c')"
  shows "(decided \<longrightarrow> budget_step node c c' \<and> accounted_for c') \<and> (\<not> decided \<longrightarrow> c' = c)"
proof -
  have stop: "budget_step node c (stop_with st ph e now (on_state clearTierExhaustion c))" for st ph e now
    using budget_trans [OF clear_tier_budget budget_stop] .
  show ?thesis
    using assms park_step [of node c] stop route_step [of si role _ current _ schedule envelope _ c _ node]
    unfolding follow_plan_def Let_def
    by (auto split: option.splits if_splits)
qed

lemma exhaustion_step:
  assumes "handleProviderExhaustion si role envelope given pre c = Some (decided, c')"
  shows "(decided \<longrightarrow> budget_step node c c' \<and> accounted_for c') \<and>
    (\<not> decided \<longrightarrow> ce_state c' = ce_state c \<and> ce_running c' = ce_running c)"
proof (cases "er_code (error_of envelope) \<in> set NON_FAILOVER_CODES")
  case True
  have "budget_step node c (stop_with st ph e now (on_state clearTierExhaustion c))" for st ph e now
    using budget_trans [OF clear_tier_budget budget_stop] .
  with True assms show ?thesis by (auto simp: handleProviderExhaustion_def)
next
  case False
  obtain current schedule jl where
    follow: "follow_plan si role envelope current schedule (pre \<noteq> None) jl
       (remember_refusal si current envelope c) = Some (decided, c')"
    using assms False unfolding handleProviderExhaustion_def Let_def
    by (auto split: option.splits sum.splits)
  have "budget_step node c (remember_refusal si current envelope c)" by (simp add: budget_step_def)
  with follow_plan_step [OF follow, of node] budget_trans [of node c] show ?thesis by auto
qed

lemma launch_judge_step:
  assumes "launch_judge oe node rt now c = (r, c')" and "ns_id (ce_state c) = nd_id node"
    and "ce_running c \<noteq> None"
  shows "(r = Dispatched \<or> r = Refused) \<and> same_node c c' \<and> accounted_for c'"
proof -
  let ?d = "settle_previous now (on_state (\<lambda>s. s\<lparr>ns_phase := Ph_judge, ns_runtime := Some rt\<rparr>) c)"
  have d: "same_node c ?d" "ns_id (ce_state ?d) = nd_id node" "ce_running ?d \<noteq> None"
    using assms(2,3) by (simp_all add: same_node_def)
  have ns: "same_node c (not_started Judge e now ?d)" for e
    using same_node_trans [OF d(1) not_started_simps(1)] .
  note run = run_process_step [OF d(2,3) refl, of oe Judge rt now]
  have "accounted_for (run_process oe Judge node rt now ?d)" "same_node c (run_process oe Judge node rt now ?d)"
    using run(2) same_node_trans [OF d(1) run(1)] by (auto simp: accounted_for_def)
  with assms(1) ns d(1) show ?thesis
    unfolding launch_judge_def Let_def
    by (auto split: option.splits if_splits simp: stop_with_def same_node_def accounted_for_def)
qed

lemma startJudge_step:
  assumes "startJudge contract node oe now c = Some (r, c')" and "ns_id (ce_state c) = nd_id node"
    and "ce_running c \<noteq> None"
  shows "c' = c \<and> ((\<exists>v. r = Rejected v) \<or>
       (\<exists>v. r = Settle v) \<and> (judgeSkippedByScope node (ce_state c) \<or> \<not> judgeRequired node)) \<or>
    (r = Dispatched \<or> r = Refused) \<and> same_node c c' \<and> accounted_for c'"
  using assms(1) launch_judge_step [OF _ assms(2,3)]
  unfolding startJudge_def Let_def
  by (auto split: prod.splits option.splits if_splits)

section \<open>Every settlement of a judge's round\<close>

definition ready :: "site \<Rightarrow> desk \<Rightarrow> bool" where
  "ready si w \<longleftrightarrow> ns_id (ce_state (iw_client w)) = nd_id (si_node si) \<and>
     no_open_tx (iw_journal w) (nd_id (si_node si)) (ns_attempt (ce_state (iw_client w)))"

definition desk_step :: "site \<Rightarrow> desk \<Rightarrow> desk \<Rightarrow> bool" where
  "desk_step si w w' \<longleftrightarrow> budget_step (si_node si) (iw_client w) (iw_client w') \<and> accounted_for (iw_client w')"

text \<open>The gate lets nothing of this node through: neither the ref nor the journal moves.\<close>

definition untouched :: "desk \<Rightarrow> desk \<Rightarrow> bool" where
  "untouched w w' \<longleftrightarrow> iw_ref w' = iw_ref w \<and> iw_journal w' = iw_journal w"

lemma at_node_simps [simp]:
  "iw_client (at_node f w) = f (iw_client w)" "iw_ref (at_node f w) = iw_ref w"
  "iw_journal (at_node f w) = iw_journal w"
  by (simp_all add: at_node_def tell_def)

lemma at_node_id: "at_node (\<lambda>c. c) w = w"
  by (simp add: at_node_def tell_def)

lemma untouched_at_node [simp]: "untouched w (at_node f w)" "untouched w w"
  by (simp_all add: untouched_def)

lemma untouched_trans: "untouched a b \<Longrightarrow> untouched b c \<Longrightarrow> untouched a c"
  by (simp add: untouched_def)

definition minor :: "(snapshot \<Rightarrow> snapshot) \<Rightarrow> bool" where
  "minor f \<longleftrightarrow> (\<forall>s. ns_id (f s) = ns_id s \<and> ns_revisions (f s) = ns_revisions s \<and> ns_attempt (f s) = ns_attempt s)"

lemma minor_ready: "minor f \<Longrightarrow> ready si (at_node (on_state f) w) = ready si w"
  by (simp add: minor_def ready_def)

lemma minor_step: "minor f \<Longrightarrow> desk_step si (at_node (on_state f) w) w' \<Longrightarrow> desk_step si w w'"
  by (auto simp: desk_step_def minor_def budget_step_def)

lemma minor_facts [simp]:
  "minor (\<lambda>s. markJudgeReask s reason)" "minor clearJudgeReask" "minor clearTierExhaustion"
  "minor (\<lambda>s. (clearJudgeReask s)\<lparr>ns_gate := g\<rparr>)"
  "minor (\<lambda>s. s\<lparr>ns_gate := g, ns_judgeFailures := n\<rparr>)" "minor (\<lambda>s. s\<lparr>ns_judgeFailures := n\<rparr>)"
  by (auto simp: minor_def frame_simps)

text \<open>
  Each handler: what it does to the node, and, where no verdict lets the node through, that it
  leaves the ref and the journal alone. \<open>judged\<close> says the round needs a provider's verdict.
\<close>

definition judged :: "site \<Rightarrow> desk \<Rightarrow> bool" where
  "judged si w \<longleftrightarrow> judgeRequired (si_node si) \<and> \<not> judgeSkippedByScope (si_node si) (ce_state (iw_client w))"

lemma skip_cong:
  assumes "ns_verification s = ns_verification t" and "ns_scope s = ns_scope t"
  shows "judgeSkippedByScope node s = judgeSkippedByScope node t"
  unfolding judgeSkippedByScope_def assms ..

lemma judged_cong:
  assumes "ns_verification (f (ce_state (iw_client w))) = ns_verification (ce_state (iw_client w))"
    and "ns_scope (f (ce_state (iw_client w))) = ns_scope (ce_state (iw_client w))"
  shows "judged si (at_node (on_state f) w) = judged si w"
  using skip_cong [OF assms] by (simp add: judged_def)

lemma settled_desk:
  "settleDone si dp w = Some w' \<Longrightarrow> ready si w \<Longrightarrow> desk_step si w w'"
  using settleDone_step by (auto simp: ready_def desk_step_def)

lemma rejected_desk:
  assumes "on_ctl (applyRejection si verdict rj) w = Some w'"
  shows "ready si w \<Longrightarrow> desk_step si w w'" and "untouched w w'"
  using assms rejection_step [of si verdict rj "iw_client w"]
  by (auto simp: on_ctl_def ready_def desk_step_def untouched_def)

lemma judge_round_desk:
  assumes "judge_round si w = Some w'" and "ready si w" and "ce_running (iw_client w) \<noteq> None"
  shows "desk_step si w w'" and "judged si w \<Longrightarrow> untouched w w'"
proof -
  obtain r c where start: "startJudge (si_contract si) (si_node si) (si_outside si) (si_now si) (iw_client w) = Some (r, c)"
    and go: "applyJudgeRound si r (ns_result (ce_state c)) (w\<lparr>iw_client := c\<rparr>) = Some w'"
    using assms(1) by (auto simp: judge_round_def split: option.splits)
  have step: "c = iw_client w \<and> ((\<exists>v. r = Rejected v) \<or> (\<exists>v. r = Settle v) \<and> \<not> judged si w) \<or>
      (r = Dispatched \<or> r = Refused) \<and> same_node (iw_client w) c \<and> accounted_for c"
    using startJudge_step [OF start] assms(2,3) by (auto simp: ready_def judged_def)
  have "desk_step si w w' \<and> (judged si w \<longrightarrow> untouched w w')"
  proof (cases r)
    case (Rejected v)
    with go step have "on_ctl (applyRejection si v (rejection_for ''mechanical_gate_failed'')) w = Some w'"
      by (simp add: applyJudgeRound_def)
    from rejected_desk [OF this] assms(2) show ?thesis by blast
  next
    case (Settle g)
    with go step have "settleDone si \<lparr>dp_result = Put (ns_result (ce_state c)), dp_gate = Put g,
        dp_error = Keep, dp_unblocked = False\<rparr> w = Some w'"
      by (simp add: applyJudgeRound_def)
    with settled_desk [OF this assms(2)] step Settle show ?thesis by simp
  qed (use go step in \<open>auto simp: applyJudgeRound_def desk_step_def untouched_def same_node_budget\<close>)
  then show "desk_step si w w'" "judged si w \<Longrightarrow> untouched w w'" by blast+
qed

lemma ask_now_desk:
  assumes "ask_now si w = Some w'" and "ready si w"
  shows "desk_step si w w'" and "judged si w \<Longrightarrow> untouched w w'"
proof -
  have pend: "desk_step si w (at_node (requeue_judge si) w)"
    by (simp add: desk_step_def requeue_judge_def)
  have "desk_step si w w' \<and> (judged si w \<longrightarrow> untouched w w')"
  proof (cases "ce_running (iw_client w)")
    case None
    with assms(1) have "w' = at_node (requeue_judge si) w" by (simp add: ask_now_def)
    with pend show ?thesis by simp
  next
    case jobs: (Some jobs)
    let ?ad = "aux_admission (si_contract si) (si_node si) (si_states si) Judge (si_now si) jobs (iw_client w)"
    from assms(1) jobs obtain i verdict where ad: "?ad = Some (i, verdict)"
      by (cases ?ad) (auto simp: ask_now_def)
    show ?thesis
    proof (cases verdict)
      case None
      with assms(1) jobs ad have "judge_round si w = Some w'" by (simp add: ask_now_def)
      from judge_round_desk [OF this assms(2)] jobs show ?thesis by simp
    next
      case (Some refusal)
      with assms(1) jobs ad have "w' = at_node (\<lambda>c. recordAuxRefusal (ns_status (ce_state c)) Judge refusal
          (requeue_judge si c)) w" by (simp add: ask_now_def)
      with pend show ?thesis by (simp add: desk_step_def)
    qed
  qed
  then show "desk_step si w w'" "judged si w \<Longrightarrow> untouched w w'" by blast+
qed

lemma ask_again_desk:
  assumes "ask_again si reason w = Some w'" and "ready si w"
  shows "desk_step si w w'" and "judged si w \<Longrightarrow> untouched w w'"
proof -
  let ?f = "\<lambda>s. markJudgeReask s reason"
  have go: "ask_now si (at_node (on_state ?f) w) = Some w'" using assms(1) by (simp add: ask_again_def)
  have r: "ready si (at_node (on_state ?f) w)" using assms(2) by (subst minor_ready) simp_all
  have j: "judged si (at_node (on_state ?f) w) = judged si w"
    by (rule judged_cong) (simp_all add: markJudgeReask_def)
  show "desk_step si w w'"
    by (rule minor_step [OF _ ask_now_desk(1) [OF go r]]) simp
  show "judged si w \<Longrightarrow> untouched w w'"
    using ask_now_desk(2) [OF go r] j untouched_trans [OF untouched_at_node(1)] by blast
qed

lemma advisory_desk:
  assumes "settleAdvisoryReview si verdict w = Some w'" and "ready si w"
  shows "desk_step si w w'"
proof -
  let ?f = "\<lambda>s. (clearJudgeReask s)\<lparr>ns_gate := Some verdict\<rparr>"
  define note_event where "note_event c = (if gr_verdict verdict = V_pass then c
    else c\<lparr>ce_rd := appendTransitionEvent (ce_rd c) (ce_state c) (ns_status (ce_state c))
      (ns_status (ce_state c)) (Det_advisory (gr_verdict verdict) (gr_summary verdict))\<rparr>)" for c :: ctl
  let ?w = "at_node note_event (at_node (on_state ?f) w)"
  have e: "ce_state (note_event c) = ce_state c" "ce_running (note_event c) = ce_running c" for c
    by (simp_all add: note_event_def)
  have go: "settleDone si \<lparr>dp_result = Keep, dp_gate = Put (Some verdict), dp_error = Keep, dp_unblocked = False\<rparr> ?w = Some w'"
    using assms(1) unfolding settleAdvisoryReview_def Let_def note_event_def
    by (cases "gr_verdict verdict = V_pass") (simp_all only: if_True if_False simp_thms at_node_id)
  have "ready si (at_node (on_state ?f) w)" using assms(2) by (subst minor_ready) simp_all
  then have "ready si ?w" by (simp add: ready_def e)
  from settled_desk [OF go this] have "desk_step si (at_node (on_state ?f) w) w'"
    by (simp add: desk_step_def budget_step_def e)
  then show ?thesis by (rule minor_step [rotated]) simp
qed

lemma attention_desk [simp]: "desk_step si w (at_node (raiseNodeAttention code) w') = desk_step si w w'"
  by (simp add: desk_step_def)

lemma advisory_failure_desk:
  "advisory_failure si verdict code w = Some w' \<Longrightarrow> ready si w \<Longrightarrow> desk_step si w w'"
  using advisory_desk by (auto simp: advisory_failure_def)

lemma unavailable_desk [simp]: "desk_step si w (judge_unavailable si m w)" "untouched w (judge_unavailable si m w)"
  by (simp_all add: judge_unavailable_def desk_step_def)

text \<open>Whether the gate of the site only advises.\<close>

abbreviation advises :: "site \<Rightarrow> bool" where
  "advises si \<equiv> reviewMode (nd_gate (si_node si)) = Rev_advisory"

lemma unavailable_judge_desk:
  assumes "settleUnavailableJudge si m w = Some w'" and "ready si w"
  shows "desk_step si w w'" and "\<not> advises si \<Longrightarrow> untouched w w'"
  using assms advisory_failure_desk by (auto simp: settleUnavailableJudge_def split: if_splits)

lemma protocol_failure_desk:
  assumes "applyJudgeProtocolFailure si reason w = Some w'" and "ready si w"
  shows "desk_step si w w'" and "\<not> advises si \<Longrightarrow> judged si w \<Longrightarrow> untouched w w'"
  using assms advisory_failure_desk ask_again_desk
  by (auto simp: applyJudgeProtocolFailure_def split: if_splits)

text \<open>The verdict a blocking gate lets through.\<close>

definition lets_through :: "site \<Rightarrow> string option \<Rightarrow> bool" where
  "lets_through si result \<longleftrightarrow> (\<exists>verdict. read_verdict_text si result = Inr verdict \<and>
     \<not> shouldFail (si_node si) verdict \<and>
     \<not> (gr_verdict verdict = V_fail \<and> uncitedRejection verdict (si_node si)))"

lemma judge_result_desk:
  assumes "applyJudgeResult si result w = Some w'" and "ready si w"
  shows "desk_step si w w'" and "\<not> advises si \<Longrightarrow> judged si w \<Longrightarrow> \<not> lets_through si result \<Longrightarrow> untouched w w'"
proof -
  have "desk_step si w w' \<and> (\<not> advises si \<longrightarrow> judged si w \<longrightarrow> \<not> lets_through si result \<longrightarrow> untouched w w')"
  proof (cases "read_verdict_text si result")
    case (Inl e)
    with assms protocol_failure_desk show ?thesis by (auto simp: applyJudgeResult_def)
  next
    case (Inr verdict)
    let ?f = "\<lambda>s. s\<lparr>ns_gate := Some verdict, ns_judgeFailures := Some 0\<rparr>"
    let ?v = "at_node (on_state ?f) w" and ?fail = "gr_verdict verdict = V_fail \<and> uncitedRejection verdict (si_node si)"
    have v: "ready si ?v" "judged si ?v = judged si w"
      using assms(2) by (subst minor_ready) (simp_all add: judged_cong)
    have lift: "desk_step si ?v x \<Longrightarrow> desk_step si w x" "untouched ?v x \<Longrightarrow> untouched w x" for x
      using minor_step [of ?f] untouched_trans [OF untouched_at_node(1)] by simp_all
    have stop: "desk_step si ?v (at_node (judge_protocol_stop si verdict) ?v)"
      by (simp add: desk_step_def judge_protocol_stop_def budget_step_def)
    let ?c = "at_node (on_state clearJudgeReask) ?v"
    let ?settle = "settleDone si \<lparr>dp_result = Keep, dp_gate = Put (Some verdict), dp_error = Keep, dp_unblocked = False\<rparr> ?c"
    let ?reject = "on_ctl (applyRejection si verdict \<lparr>rj_code = ''revision_cap'', rj_phase = Ph_judge,
      rj_message = None, rj_forceFresh = True\<rparr>) ?c"
    have go: "Some w' = (if ?fail \<and> judgeReaskOutstanding (ce_state (iw_client ?v))
        then (if advises si then advisory_failure si verdict ''judge_protocol'' ?v
              else Some (at_node (judge_protocol_stop si verdict) ?v))
        else if ?fail then ask_again si UNCITED_REJECTION_REASON ?v
        else if advises si then settleAdvisoryReview si verdict ?c
        else if \<not> shouldFail (si_node si) verdict then ?settle else ?reject)"
      unfolding assms(1) [symmetric] applyJudgeResult_def Inr Let_def sum.case ..
    have c: "ready si ?c" using v(1) by (subst minor_ready) simp_all
    have lift': "desk_step si ?c x \<Longrightarrow> desk_step si w x" "untouched ?c x \<Longrightarrow> untouched w x" for x
      by (rule lift(1) [OF minor_step [OF minor_facts(2)]], assumption)
        (rule lift(2) [OF untouched_trans [OF untouched_at_node(1)]])
    show ?thesis
    proof (cases ?fail)
      case fail: True
      show ?thesis
      proof (cases "judgeReaskOutstanding (ce_state (iw_client ?v))")
        case True
        show ?thesis
        proof (cases "advises si")
          case adv: True
          have "advisory_failure si verdict ''judge_protocol'' ?v = Some w'"
            using go unfolding if_P [OF conjI [OF fail True]] if_P [OF adv] by (rule sym)
          from lift(1) [OF advisory_failure_desk [OF this v(1)]] adv show ?thesis by blast
        next
          case False
          have "Some w' = Some (at_node (judge_protocol_stop si verdict) ?v)"
            using go unfolding if_P [OF conjI [OF fail True]] if_not_P [OF False] .
          then have "w' = at_node (judge_protocol_stop si verdict) ?v" by blast
          with stop lift untouched_at_node(1) show ?thesis by blast
        qed
      next
        case False
        then have "ask_again si UNCITED_REJECTION_REASON ?v = Some w'"
          using go fail by (simp only: simp_thms if_True if_False)
        from ask_again_desk [OF this v(1)] v(2) lift show ?thesis by blast
      qed
    next
      case cited: False
      show ?thesis
      proof (cases "advises si")
        case True
        then have "settleAdvisoryReview si verdict ?c = Some w'"
          using go cited by (simp only: simp_thms if_True if_False)
        from lift'(1) [OF advisory_desk [OF this c]] True show ?thesis by blast
      next
        case blocking: False
        show ?thesis
        proof (cases "shouldFail (si_node si) verdict")
          case True
          then have "?reject = Some w'"
            using go cited blocking by (simp only: simp_thms if_True if_False)
          from rejected_desk [OF this] c lift' show ?thesis by blast
        next
          case False
          then have "?settle = Some w'"
            using go cited blocking by (simp only: simp_thms if_True if_False)
          from lift'(1) [OF settled_desk [OF this c]] False cited Inr show ?thesis
            unfolding lets_through_def by blast
        qed
      qed
    qed
  qed
  then show "desk_step si w w'" "\<not> advises si \<Longrightarrow> judged si w \<Longrightarrow> \<not> lets_through si result \<Longrightarrow> untouched w w'"
    by blast+
qed

section \<open>The whole round\<close>

lemma network_desk:
  assumes "judge_network si job envelope w = Some d" and "ready si w"
  shows "case d of Inl w' \<Rightarrow> desk_step si w w' \<and> untouched w w'
    | Inr w' \<Rightarrow> ready si w' \<and> judged si w' = judged si w \<and> untouched w w' \<and>
        ce_state (iw_client w') = ce_state (iw_client w) \<and> ce_running (iw_client w') = ce_running (iw_client w)"
proof (cases "networkTransition (si_contract si) (si_node si) (ce_state (iw_client w)) Judge envelope
    (jj_exitCode job) (si_now si) (si_random si)")
  case None
  with assms show ?thesis by (auto simp: judge_network_def)
next
  case (Some t)
  with assms(1) obtain decided c where h: "handleProviderExhaustion si Judge envelope
      (Some (jj_runtime job)) (Some t) (iw_client w) = Some (decided, c)"
    "d = (if decided then Inl else Inr) (w\<lparr>iw_client := c\<rparr>)"
    by (auto simp: judge_network_def)
  from exhaustion_step [OF h(1), of "si_node si"] assms(2) h(2) show ?thesis
    by (auto simp: desk_step_def untouched_def ready_def judged_def)
qed

lemma judge_failed_desk:
  assumes "judge_failed si envelope w = Some w'" and "ready si w" and "ce_running (iw_client w) \<noteq> None"
  shows "desk_step si w w'" and "\<not> advises si \<Longrightarrow> judged si w \<Longrightarrow> untouched w w'"
proof -
  let ?w = "at_node (on_state clearTierExhaustion) w"
  define n where "n = nullish (ns_judgeFailures (ce_state (iw_client ?w))) 0 + 1"
  let ?f = "\<lambda>s. s\<lparr>ns_judgeFailures := Some n\<rparr>"
  let ?k = "at_node (on_state ?f) ?w"
  have w: "ready si ?w" "judged si ?w = judged si w"
    using assms(2) by (subst minor_ready) (simp_all add: judged_cong)
  have k: "ready si ?k" "judged si ?k = judged si w"
    using w by (subst minor_ready) (simp_all add: judged_cong)
  have p: "ready si (at_node persist ?k)" "judged si (at_node persist ?k) = judged si w"
    using k by (simp_all add: ready_def judged_def)
  have go: "Some w' = (if judgeReaskOutstanding (ce_state (iw_client ?w))
      then applyJudgeProtocolFailure si (failure_message envelope) ?w
      else if n < JUDGE_MAX_FAILURES then judge_round si (at_node persist ?k)
      else settleUnavailableJudge si (failure_message envelope) ?k)"
    unfolding assms(1) [symmetric] judge_failed_def Let_def n_def ..
  have lift: "desk_step si w x" if "desk_step si ?w x" for x
    using minor_step [OF minor_facts(3) that] .
  have lift_k: "desk_step si w x" if "desk_step si ?k x" for x
    by (rule lift [OF minor_step [OF _ that]]) simp
  have u: "untouched ?w x \<Longrightarrow> untouched w x" "untouched ?k x \<Longrightarrow> untouched w x"
    "untouched (at_node persist ?k) x \<Longrightarrow> untouched w x" for x
    by (simp_all add: untouched_def)
  show "desk_step si w w'" and "\<not> advises si \<Longrightarrow> judged si w \<Longrightarrow> untouched w w'"
  proof -
    have "desk_step si w w' \<and> (\<not> advises si \<longrightarrow> judged si w \<longrightarrow> untouched w w')"
    proof (cases "judgeReaskOutstanding (ce_state (iw_client ?w))")
      case True
      then have "applyJudgeProtocolFailure si (failure_message envelope) ?w = Some w'"
        using go by (simp only: if_True)
      from protocol_failure_desk [OF this w(1)] w(2) lift u(1) show ?thesis by blast
    next
      case fresh: False
      show ?thesis
      proof (cases "n < JUDGE_MAX_FAILURES")
        case True
        then have r: "judge_round si (at_node persist ?k) = Some w'"
          using go fresh by (simp only: if_True if_False)
        have "desk_step si (at_node persist ?k) w'" "judged si w \<longrightarrow> untouched (at_node persist ?k) w'"
          using judge_round_desk [OF r p(1)] assms(3) p(2) by simp_all
        then have "desk_step si ?k w'" by (simp add: desk_step_def budget_step_def)
        with lift_k u(3) \<open>judged si w \<longrightarrow> _\<close> show ?thesis by blast
      next
        case False
        then have "settleUnavailableJudge si (failure_message envelope) ?k = Some w'"
          using go fresh by (simp only: if_True if_False)
        from unavailable_judge_desk [OF this k(1)] lift_k u(2) show ?thesis by blast
      qed
    qed
    then show "desk_step si w w'" and "\<not> advises si \<Longrightarrow> judged si w \<Longrightarrow> untouched w w'" by blast+
  qed
qed

text \<open>The evidence an envelope gives the gate, when it gives any.\<close>

definition verdict_evidence :: "envelope \<Rightarrow> string option option" where
  "verdict_evidence envelope =
     (if en_status envelope = Failed \<and> map_option pe_code (en_error envelope) \<noteq> Some ''incomplete_stream''
      then None
      else case judgeVerdictEvidence envelope of Inl _ \<Rightarrow> None | Inr result \<Rightarrow> Some result)"

lemma settle_round_desk:
  assumes "settleJudgeRound si job envelope w = Some w'" and "ready si w"
    and "ce_running (iw_client w) \<noteq> None"
  shows "desk_step si w w'"
    and "\<not> advises si \<Longrightarrow> judged si w \<Longrightarrow>
      \<not> (\<exists>result. verdict_evidence envelope = Some result \<and> lets_through si result) \<Longrightarrow> untouched w w'"
proof -
  have clear: "ready si (at_node (on_state clearTierExhaustion) x) = ready si x"
    "judged si (at_node (on_state clearTierExhaustion) x) = judged si x" for x
    by (simp_all add: minor_ready judged_cong)
  have lift: "desk_step si x y" if "desk_step si (at_node (on_state clearTierExhaustion) x) y" for x y
    using minor_step [OF minor_facts(3) that] .
  have host: "desk_step si w x" if "desk_step si v x" "ce_state (iw_client v) = ce_state (iw_client w)"
      "ce_running (iw_client v) = ce_running (iw_client w)" for v x
    using that by (simp add: desk_step_def budget_step_def)
  let ?failed = "en_status envelope = Failed \<and> map_option pe_code (en_error envelope) \<noteq> Some ''incomplete_stream''"
  have "desk_step si w w' \<and> (\<not> advises si \<longrightarrow> judged si w \<longrightarrow>
      \<not> (\<exists>result. verdict_evidence envelope = Some result \<and> lets_through si result) \<longrightarrow> untouched w w')"
  proof (cases "\<not> ?failed \<and> (\<exists>result. judgeVerdictEvidence envelope = Inr result)")
    case True
    then obtain result where ev: "judgeVerdictEvidence envelope = Inr result" by blast
    with True have "verdict_evidence envelope = Some result" by (auto simp: verdict_evidence_def)
    moreover have "applyJudgeResult si result (at_node (on_state clearTierExhaustion) w) = Some w'"
      using assms(1) True ev unfolding settleJudgeRound_def by auto
    note r = judge_result_desk [OF this]
    ultimately show ?thesis
      using r lift clear assms(2) untouched_trans [OF untouched_at_node(1)] by blast
  next
    case False
    obtain d where d: "judge_network si job envelope w = Some d"
      and go: "case d of Inl x \<Rightarrow> w' = x
        | Inr x \<Rightarrow> judge_failed si envelope x = Some w' \<or>
            (\<exists>reason. applyJudgeProtocolFailure si reason (at_node (on_state clearTierExhaustion) x) = Some w')"
      using assms(1) False unfolding settleJudgeRound_def
      by (cases "judge_network si job envelope w"; cases "judgeVerdictEvidence envelope")
        (auto split: sum.splits if_splits)
    note n = network_desk [OF d assms(2)]
    show ?thesis
    proof (cases d)
      case (Inl x)
      with n go show ?thesis by simp
    next
      case (Inr x)
      with n have x: "ready si x" "judged si x = judged si w" "untouched w x"
        "ce_state (iw_client x) = ce_state (iw_client w)" "ce_running (iw_client x) = ce_running (iw_client w)"
        by simp_all
      have run: "ce_running (iw_client x) \<noteq> None" using assms(3) x(5) by simp
      have "desk_step si x w' \<and> (\<not> advises si \<longrightarrow> judged si x \<longrightarrow> untouched x w')"
      proof (cases "judge_failed si envelope x = Some w'")
        case True
        from judge_failed_desk [OF this x(1) run] show ?thesis by blast
      next
        case False
        with go Inr obtain reason where
          "applyJudgeProtocolFailure si reason (at_node (on_state clearTierExhaustion) x) = Some w'" by auto
        from protocol_failure_desk [OF this] clear x(1) lift untouched_trans [OF untouched_at_node(1)]
        show ?thesis by blast
      qed
      with host [OF _ x(4,5)] x(2,3) untouched_trans show ?thesis by blast
    qed
  qed
  then show "desk_step si w w'"
    and "\<not> advises si \<Longrightarrow> judged si w \<Longrightarrow>
      \<not> (\<exists>result. verdict_evidence envelope = Some result \<and> lets_through si result) \<Longrightarrow> untouched w w'"
    by blast+
qed

definition sample_worktree :: worktree where
  "sample_worktree = \<lparr>wt_status = Wt_ready, wt_path = Some ''/wt/a'', wt_branch = Some ''run/a'',
     wt_commit = None, wt_baseSha = Some ''base'', wt_sealedSha = None\<rparr>"

definition passing_verdict :: gate_result where
  "passing_verdict = \<lparr>gr_verdict = V_pass, gr_maxSeverity = Sev_none, gr_summary = ''fine'', gr_findings = []\<rparr>"

definition sample_outside :: outside where
  "sample_outside = \<lparr>oe_workspace = Inr None, oe_workerPromptBytes = (\<lambda>s. 100), oe_boundaryError = None,
     oe_reserve = (\<lambda>r. None), oe_spawn = (\<lambda>r. Spawned ''i-1''),
     oe_machine = (\<lambda>i k ref. \<lparr>pr_id = i, pr_kind = k, pr_ref = ref, pr_pass = True, pr_detail = []\<rparr>),
     oe_judgePromptBytes = (\<lambda>s. 100), oe_campaignId = None, oe_continuation = (\<lambda>r. None),
     oe_promptPath = (\<lambda>r. ''p''), oe_parse = (\<lambda>t. Inr J_null), oe_num = (\<lambda>q. [])\<rparr>"

text \<open>A site whose judge's answer \<open>pass\<close> reads as a passing verdict, any other as a failing one.\<close>

definition sample_site :: site where
  "sample_site = \<lparr>si_contract = sample_contract False [],
     si_node = (sample_node ''a'' [] (Some ''glm'') (Some ''gpt''))\<lparr>nd_gate := (sample_gate (Some ''gpt''))
       \<lparr>gt_failOn := Some [Major, Critical]\<rparr>\<rparr>,
     si_states = [], si_outside = sample_outside, si_git = sample_repo, si_others = quiet,
     si_bench = sample_bench, si_candidate = sample_bench, si_again = sample_bench,
     si_seal = (\<lambda>s. Inr ''base-a''),
     si_parse = (\<lambda>t. Inr (write_verdict (if t = ''pass'' then passing_verdict else sample_failing_verdict))),
     si_stringify = (\<lambda>v. ''{}''), si_campaign = True, si_resetOf = (\<lambda>e. None),
     si_availabilityOf = (\<lambda>rt e. None), si_random = 0, si_now = 1000\<rparr>"

definition sample_desk :: desk where
  "sample_desk = \<lparr>iw_ref = Some ''base'', iw_journal = [],
     iw_client = sample_ctl\<lparr>ce_state := (sample_snapshot ''a'' Running Ph_judge)
       \<lparr>ns_worktree := Some sample_worktree, ns_runtime := Some ''gpt'',
        ns_scope := Some (empty_scope \<lparr>bd_files = [''src/a.mjs''], bd_roots = [], bd_fileRoots = [],
          bd_fileOrigins = [(''src/a.mjs'', [''src/a.mjs''])], bd_rootOrigins = []\<rparr>)\<rparr>\<rparr>\<rparr>"

text \<open>A desk on which the gate's one revision is spent, and the judge's answer arriving on a desk.\<close>

definition spent_desk :: desk where
  "spent_desk = at_node (on_state (\<lambda>s. s\<lparr>ns_revisions := 1\<rparr>)) sample_desk"

definition judge_answered :: "string \<Rightarrow> desk \<Rightarrow> desk option" where
  "judge_answered answer w = settleJudgeRound sample_site \<lparr>jj_runtime = ''gpt'', jj_exitCode = Some 0\<rparr>
     ((sample_envelope Done None)\<lparr>en_result := Some answer\<rparr>) w"

lemma answers:
  "read_verdict_text sample_site (Some ''pass'') = Inr passing_verdict"
  "read_verdict_text sample_site (Some ''no'') = Inr sample_failing_verdict"
  by (simp_all add: read_verdict_text_def sample_site_def write_verdict_def parseJudge_def
      raw_findings_def passing_verdict_def sample_failing_verdict_def read_verdict_def
      read_severity_def severity_names_def summaryBytes_def max_findings_def write_finding_def
      parse_finding_def descriptionBytes_def evidenceBytes_def actual_max_def)

lemma if_not: "(if \<not> b then x else y) = (if b then y else x)"
  by simp

lemma answered:
  assumes "read_verdict_text sample_site (Some answer) = Inr verdict"
    and "\<not> (gr_verdict verdict = V_fail \<and> uncitedRejection verdict (si_node sample_site))"
  defines "w \<equiv> \<lambda>d. at_node (on_state clearJudgeReask) (at_node (on_state
      (\<lambda>s. s\<lparr>ns_gate := Some verdict, ns_judgeFailures := Some 0\<rparr>)) (at_node (on_state clearTierExhaustion) d))"
  shows "judge_answered answer d =
    (if shouldFail (si_node sample_site) verdict
     then on_ctl (applyRejection sample_site verdict \<lparr>rj_code = ''revision_cap'', rj_phase = Ph_judge,
            rj_message = None, rj_forceFresh = True\<rparr>) (w d)
     else settleDone sample_site \<lparr>dp_result = Keep, dp_gate = Put (Some verdict), dp_error = Keep, dp_unblocked = False\<rparr> (w d))"
proof -
  have mode: "(reviewMode (nd_gate (si_node sample_site)) = Rev_advisory) = False" by code_simp
  have uncited: "(gr_verdict verdict = V_fail \<and> uncitedRejection verdict (si_node sample_site)) = False"
    using assms(2) by (rule eq_False[THEN iffD2])
  have "judgeVerdictEvidence ((sample_envelope Done None)\<lparr>en_result := Some answer\<rparr>) = Inr (Some answer)"
    by (simp add: judgeVerdictEvidence_def sample_envelope_def)
  then have "judge_answered answer d = applyJudgeResult sample_site (Some answer)
      (at_node (on_state clearTierExhaustion) d)"
    by (simp add: judge_answered_def settleJudgeRound_def sample_envelope_def)
  also have "\<dots> = (if \<not> shouldFail (si_node sample_site) verdict
     then settleDone sample_site \<lparr>dp_result = Keep, dp_gate = Put (Some verdict), dp_error = Keep, dp_unblocked = False\<rparr> (w d)
     else on_ctl (applyRejection sample_site verdict \<lparr>rj_code = ''revision_cap'', rj_phase = Ph_judge,
            rj_message = None, rj_forceFresh = True\<rparr>) (w d))"
    unfolding applyJudgeResult_def assms(1) sum.case Let_def mode w_def
    by (simp only: if_False simp_thms uncited)
  finally show ?thesis by (simp only: if_not)
qed

lemma sample_desks:
  "ns_id (ce_state (iw_client sample_desk)) = nd_id (si_node sample_site)"
  "ce_running (iw_client sample_desk) \<noteq> None" "no_open_tx (iw_journal sample_desk) n a"
  "ns_id (ce_state (iw_client spent_desk)) = nd_id (si_node sample_site)"
  "ce_running (iw_client spent_desk) \<noteq> None" "no_open_tx (iw_journal spent_desk) n a"
  by (simp_all add: sample_desk_def spent_desk_def sample_site_def sample_ctl_def sample_node_def
      sample_snapshot_def no_open_tx_def latestIntegrationTransactions_def latest_by_key_def)

text \<open>
  C5. However a judge's round ends (a verdict, an unreadable one, none, a failing or an exhausted
  provider, a network wait, a candidate that does not integrate), the node has not lost a revision
  nor spent more of them than its gate allows, and it is not left running without a job: unless an
  earlier transaction of this very attempt is still under way.
\<close>

theorem judge_round_bounded_and_accounted:
  assumes "settleJudgeRound si job envelope w = Some w'"
    and "ns_id (ce_state (iw_client w)) = nd_id (si_node si)" and "ce_running (iw_client w) \<noteq> None"
    and "no_open_tx (iw_journal w) (nd_id (si_node si)) (ns_attempt (ce_state (iw_client w)))"
  shows "ns_revisions (ce_state (iw_client w)) \<le> ns_revisions (ce_state (iw_client w')) \<and>
    ns_revisions (ce_state (iw_client w'))
      \<le> max (ns_revisions (ce_state (iw_client w))) (maxRevisions (si_node si)) \<and>
    (ns_status (ce_state (iw_client w')) \<noteq> Running \<or> has_job (iw_client w'))"
  using settle_round_desk(1) [OF assms(1)] assms(2-4)
  by (auto simp: ready_def desk_step_def budget_step_def accounted_for_def)

theorem judge_round_bounded_and_accounted_witness:
  "\<exists>w'. judge_answered ''no'' spent_desk = Some w' \<and> ns_status (ce_state (iw_client w')) = Exhausted \<and>
     ns_revisions (ce_state (iw_client w')) \<le> 1"
proof -
  have "\<not> uncitedRejection sample_failing_verdict (si_node sample_site)"
    "shouldFail (si_node sample_site) sample_failing_verdict" by code_simp+
  then have run: "judge_answered ''no'' spent_desk =
      on_ctl (applyRejection sample_site sample_failing_verdict \<lparr>rj_code = ''revision_cap'',
        rj_phase = Ph_judge, rj_message = None, rj_forceFresh = True\<rparr>) (at_node (on_state clearJudgeReask)
          (at_node (on_state (\<lambda>s. s\<lparr>ns_gate := Some sample_failing_verdict, ns_judgeFailures := Some 0\<rparr>))
            (at_node (on_state clearTierExhaustion) spent_desk)))"
    using answered [OF answers(2)] by simp
  have "map_option (\<lambda>w. ns_status (ce_state (iw_client w))) (judge_answered ''no'' spent_desk) = Some Exhausted"
    unfolding run by code_simp
  then obtain w' where w': "judge_answered ''no'' spent_desk = Some w'"
    "ns_status (ce_state (iw_client w')) = Exhausted" by auto
  have "maxRevisions (si_node sample_site) = 1" "ns_revisions (ce_state (iw_client spent_desk)) = 1"
    by (simp_all add: maxRevisions_def sample_site_def sample_gate_def spent_desk_def)
  with judge_round_bounded_and_accounted [OF w'(1) [unfolded judge_answered_def] sample_desks(4-6)] w'
  show ?thesis by auto
qed

text \<open>
  C3. A blocking gate whose node needs judging guards the run's ref: settling a judge's round
  begins an integration, or moves the ref, only on one well-formed verdict of a judge that ended
  well, and that verdict is not a rejection the gate fails for, nor one that cites no item.
\<close>

theorem blocking_gate_guards_the_ref:
  assumes "settleJudgeRound si job envelope w = Some w'"
    and "ns_id (ce_state (iw_client w)) = nd_id (si_node si)" and "ce_running (iw_client w) \<noteq> None"
    and "no_open_tx (iw_journal w) (nd_id (si_node si)) (ns_attempt (ce_state (iw_client w)))"
    and "reviewMode (nd_gate (si_node si)) = Rev_blocking" and "judgeRequired (si_node si)"
    and "\<not> judgeSkippedByScope (si_node si) (ce_state (iw_client w))"
    and "iw_ref w' \<noteq> iw_ref w \<or> iw_journal w' \<noteq> iw_journal w"
  shows "\<exists>result verdict. judgeVerdictEvidence envelope = Inr result \<and>
    read_verdict_text si result = Inr verdict \<and>
    \<not> (gr_verdict verdict = V_fail \<and> gr_maxSeverity verdict \<noteq> Sev_none \<and>
       gr_maxSeverity verdict \<in> set (failOn (si_node si))) \<and>
    \<not> uncitedRejection verdict (si_node si)"
proof -
  have "\<exists>result. verdict_evidence envelope = Some result \<and> lets_through si result"
    using settle_round_desk(2) [OF assms(1)] assms(2-8)
    by (auto simp: ready_def judged_def untouched_def)
  then obtain result verdict where "verdict_evidence envelope = Some result"
    "read_verdict_text si result = Inr verdict" "\<not> shouldFail (si_node si) verdict"
    "\<not> (gr_verdict verdict = V_fail \<and> uncitedRejection verdict (si_node si))"
    by (auto simp: lets_through_def)
  moreover from this(1) have "judgeVerdictEvidence envelope = Inr result"
    by (auto simp: verdict_evidence_def split: if_splits sum.splits)
  moreover have "uncitedRejection verdict (si_node si) \<Longrightarrow> gr_verdict verdict = V_fail"
    by (auto simp: uncitedRejection_def Let_def split: if_splits)
  ultimately show ?thesis by (auto simp: shouldFail_def)
qed

theorem blocking_gate_guards_the_ref_witness:
  "\<exists>w' verdict. judge_answered ''pass'' sample_desk = Some w' \<and> iw_ref w' = Some ''base-a'' \<and>
     ns_status (ce_state (iw_client w')) = Done \<and>
     read_verdict_text sample_site (Some ''pass'') = Inr verdict \<and>
     \<not> uncitedRejection verdict (si_node sample_site)"
proof -
  have "gr_verdict passing_verdict \<noteq> V_fail" "\<not> shouldFail (si_node sample_site) passing_verdict"
    by code_simp+
  then have run: "judge_answered ''pass'' sample_desk =
      settleDone sample_site \<lparr>dp_result = Keep, dp_gate = Put (Some passing_verdict), dp_error = Keep, dp_unblocked = False\<rparr>
        (at_node (on_state clearJudgeReask)
          (at_node (on_state (\<lambda>s. s\<lparr>ns_gate := Some passing_verdict, ns_judgeFailures := Some 0\<rparr>))
            (at_node (on_state clearTierExhaustion) sample_desk)))"
    using answered [OF answers(1)] by simp
  have "map_option (\<lambda>w. (iw_ref w, ns_status (ce_state (iw_client w)))) (judge_answered ''pass'' sample_desk) =
      Some (Some ''base-a'', Done)"
    unfolding run by code_simp
  then obtain w' where w': "judge_answered ''pass'' sample_desk = Some w'" "iw_ref w' = Some ''base-a''"
    "ns_status (ce_state (iw_client w')) = Done" by auto
  have "iw_ref w' \<noteq> iw_ref sample_desk" using w'(2) by (simp add: sample_desk_def)
  moreover have "reviewMode (nd_gate (si_node sample_site)) = Rev_blocking" "judgeRequired (si_node sample_site)"
    "\<not> judgeSkippedByScope (si_node sample_site) (ce_state (iw_client sample_desk))" by code_simp+
  ultimately obtain result verdict where
    "judgeVerdictEvidence ((sample_envelope Done None)\<lparr>en_result := Some ''pass''\<rparr>) = Inr result"
    "read_verdict_text sample_site result = Inr verdict" "\<not> uncitedRejection verdict (si_node sample_site)"
    using blocking_gate_guards_the_ref [OF w'(1) [unfolded judge_answered_def] sample_desks(1-3)] by blast
  with w' show ?thesis by (auto simp: judgeVerdictEvidence_def sample_envelope_def)
qed

end
