(* ===== verification/Recovery.thy ===== *)
theory Recovery
  imports Review_Safety
begin

text \<open>
  What a resumed controller does with the integrations its predecessor left open
  (\<open>recoverIntegrationTransactions\<close> of \<open>src/engine/resume.mjs\<close>), and why it ends where the
  interrupted one was going.

  An integration (theory Integration) relies on its client only for the laws of the locales
  \<open>integration_writer\<close> and \<open>integration_client\<close>; the handlers of \<open>settleDone\<close> and of the resume
  are shown to obey them.
\<close>

section \<open>The client's contract\<close>

text \<open>
  Accepting a transaction settles it, and neither acceptances nor verifications unsettle another.
  \<open>good\<close> is the client's own invariant and \<open>mine\<close> the keys it is called for.
\<close>

locale integration_writer =
  fixes cl :: "'w client" and good :: "'w \<Rightarrow> bool" and settled :: "'w \<Rightarrow> integ \<Rightarrow> bool"
    and mine :: "string \<times> nat \<Rightarrow> bool"
  assumes accepted_good: "good v \<Longrightarrow> mine (integrationKey r) \<Longrightarrow> good (cl_accepted cl v r)"
    and accepted_settles: "good v \<Longrightarrow> mine (integrationKey r) \<Longrightarrow> settled (cl_accepted cl v r) r"
    and accepted_keeps: "good v \<Longrightarrow> mine (integrationKey s) \<Longrightarrow> settled v r \<Longrightarrow>
      settled (cl_accepted cl v s) r"
    and verify_good: "good v \<Longrightarrow> mine (integrationKey r) \<Longrightarrow> good (fst (cl_verify cl v r))"
    and verify_keeps: "good v \<Longrightarrow> mine (integrationKey s) \<Longrightarrow> settled v r \<Longrightarrow>
      settled (fst (cl_verify cl v s)) r"

text \<open>A client that recovers is called for every attempt there was, and again for a settled one.\<close>

locale integration_client = integration_writer cl good settled "\<lambda>k. 0 < snd k"
  for cl :: "'w client" and good :: "'w \<Rightarrow> bool" and settled :: "'w \<Rightarrow> integ \<Rightarrow> bool" +
  assumes accepted_again: "good v \<Longrightarrow> 0 < ir_attempt r \<Longrightarrow> settled v r \<Longrightarrow> cl_accepted cl v r = v"

text \<open>A journal that only remembers: every transaction is over, and the client knows what was accepted.\<close>

definition at_rest :: "('w \<Rightarrow> bool) \<Rightarrow> ('w \<Rightarrow> integ \<Rightarrow> bool) \<Rightarrow> 'w integration \<Rightarrow> bool" where
  "at_rest good settled w \<longleftrightarrow> good (iw_client w) \<and> sealed (iw_journal w) \<and>
     (\<forall>r \<in> set (latestIntegrationTransactions (iw_journal w)).
        tx_terminal (ir_status r) \<and> (accepted r \<longrightarrow> 0 < ir_attempt r \<and> settled (iw_client w) r))"

text \<open>A world that grew from one at rest by records of one new key.\<close>

definition grown ::
  "('w \<Rightarrow> bool) \<Rightarrow> ('w \<Rightarrow> integ \<Rightarrow> bool) \<Rightarrow> (string \<times> nat) \<Rightarrow> integ list \<Rightarrow> 'w integration
    \<Rightarrow> 'w integration \<Rightarrow> bool" where
  "grown good settled k rs w w' \<longleftrightarrow> at_rest good settled w \<and>
     map_of (latest_by_key (iw_journal w)) k = None \<and>
     (\<forall>r \<in> set rs. integrationKey r = k) \<and> iw_journal w' = iw_journal w @ rs \<and>
     good (iw_client w') \<and> (\<forall>r. settled (iw_client w) r \<longrightarrow> settled (iw_client w') r)"

text \<open>The last record of a key that was not in the journal before.\<close>

lemma latest_new_key:
  assumes "map_of (latest_by_key journal) k = None" and "rs \<noteq> []" and "\<forall>r \<in> set rs. integrationKey r = k"
  shows "latest_by_key (journal @ rs) = latest_by_key journal @ [(k, last rs)]"
  using assms(2,3)
proof (induction rs rule: rev_induct)
  case (snoc r rs)
  have new: "k \<notin> fst ` set (latest_by_key journal)" using assms(1) by (simp add: map_of_eq_None_iff)
  have upd: "AList.update k v (al @ [(k, u)]) = al @ [(k, v)]" "AList.update k v al = al @ [(k, v)]"
    if "k \<notin> fst ` set al" for al :: "((string \<times> nat) \<times> integ) list" and u v
    using that by (induction al) auto
  have "latest_by_key (journal @ rs @ [r]) = AList.update k r (latest_by_key (journal @ rs))"
    using snoc.prems latest_by_key_snoc [of "journal @ rs" r] by simp
  then show ?case
    using snoc upd(1) [OF new] upd(2) [OF new] by (cases "rs = []") auto
qed simp

lemma advance_quiet:
  assumes "iw_ref w = Some (ir_previousTip tx)" and "ir_candidateSha tx = Some c"
  shows "advanceVerified g quiet cl tx w =
    Some (Out_accepted (Some c), accept_now cl tx (w\<lparr>iw_ref := Some c\<rparr>))"
  using assms by (simp add: advanceVerified_def quiet_def)

lemma sealed_extend:
  assumes "sealed journal" and "open_key journal k"
    and "\<forall>r \<in> set rs. integrationKey r = k \<and> \<not> accepted r"
  shows "sealed (journal @ rs) \<and> open_key (journal @ rs) k"
  using assms(3)
proof (induction rs rule: rev_induct)
  case (snoc r rs)
  then have "sealed (journal @ rs) \<and> open_key (journal @ rs) k" by simp
  with snoc.prems sealed_append [of "journal @ rs" r] show ?case by (auto simp: open_key_def)
qed (use assms(1,2) in simp)

lemma grown_latest:
  assumes "grown good settled k (rs @ [r]) w w'"
  shows "latestIntegrationTransactions (iw_journal w') =
    latestIntegrationTransactions (iw_journal w) @ [r]"
  using latest_new_key [of "iw_journal w" k "rs @ [r]"] assms
  by (simp add: grown_def latestIntegrationTransactions_def)

lemma grown_rest:
  assumes "grown good settled k (rs @ [r]) w w'" and "\<forall>x \<in> set rs. \<not> accepted x" and "accepted r"
    and "settled (iw_client w') r" and "0 < snd k"
  shows "at_rest good settled w'"
proof -
  have new: "map_of (latest_by_key (iw_journal w)) k = None" using assms(1) by (simp add: grown_def)
  have "sealed (iw_journal w @ rs) \<and> open_key (iw_journal w @ rs) k"
    by (rule sealed_extend [OF _ latest_None_open [OF new]])
      (use assms(1,2) in \<open>auto simp: grown_def at_rest_def\<close>)
  then have "sealed (iw_journal w')"
    using assms(1) sealed_append [of "iw_journal w @ rs" r] by (simp add: grown_def)
  moreover have "0 < ir_attempt r"
    using assms(1,5) by (auto simp: grown_def integrationKey_def)
  ultimately show ?thesis
    using grown_latest [OF assms(1)] assms by (auto simp: at_rest_def grown_def)
qed

context integration_writer
begin

lemma accept_grown:
  assumes grown: "grown good settled k rs w w'" and rs: "\<forall>x \<in> set rs. \<not> accepted x"
    and key: "integrationKey tx = k" and mine: "mine k" "0 < snd k"
    and r: "r = tx\<lparr>ir_status := Some Tx_accepted\<rparr>"
  shows "at_rest good settled (accept_now cl tx w')" and "r \<in> set (iw_journal (accept_now cl tx w'))"
    and "iw_ref (accept_now cl tx w') = iw_ref w'"
proof -
  have "open_key (iw_journal w') k"
    using sealed_extend [of "iw_journal w" k rs] latest_None_open [of "iw_journal w" k] grown rs
    by (auto simp: grown_def at_rest_def)
  then have eq: "accept_now cl tx w' = tell (\<lambda>v. cl_accepted cl v r) (appendRecord r w')"
    using accept_now_open [of w' tx cl] key r by simp
  then show "r \<in> set (iw_journal (accept_now cl tx w'))" "iw_ref (accept_now cl tx w') = iw_ref w'"
    by simp_all
  have kr: "integrationKey r = k" using key r by simp
  have "grown good settled k (rs @ [r]) w (accept_now cl tx w')"
    using grown kr mine accepted_good accepted_keeps unfolding eq by (auto simp: grown_def tell_def)
  then show "at_rest good settled (accept_now cl tx w')"
    by (rule grown_rest)
      (use rs r grown eq kr mine in \<open>auto simp: tell_def grown_def intro: accepted_settles\<close>)
qed

lemma verify_grown:
  assumes "grown good settled k rs w w'" and "mine k" and "integrationKey tx = k"
    and "cl_verify cl (iw_client w') tx = (v, e)" and "integrationKey r = k"
    and "iw_journal w'' = iw_journal w' @ [r]" and "iw_client w'' = v"
  shows "grown good settled k (rs @ [r]) w w''"
  using assms verify_good [of "iw_client w'" tx] verify_keeps [of "iw_client w'" tx]
  by (auto simp: grown_def)

end

context integration_client
begin

lemma recover_loop_rest:
  assumes "good (iw_client w)"
    and "\<forall>r \<in> set rs. tx_terminal (ir_status r) \<and>
      (accepted r \<longrightarrow> 0 < ir_attempt r \<and> settled (iw_client w) r)"
  shows "recover_loop g ot cl (rs @ ys) w = recover_loop g ot cl ys w"
  using assms(2)
proof (induction rs)
  case (Cons r rs)
  then have "recover_record g ot cl r w = Some (Inl w)"
    using accepted_again [OF assms(1), of r]
    by (auto simp: recover_record_def finishAccepted_def tell_def)
  with Cons show ?case by simp
qed simp

lemma recover_at_rest:
  assumes "at_rest good settled w"
  shows "recoverIntegrations g ot cl w = Some (None, w)"
  using recover_loop_rest [of w "latestIntegrationTransactions (iw_journal w)" g ot "[]"] assms
  by (simp add: at_rest_def recoverIntegrations_def)

lemma recover_grown:
  assumes "grown good settled k (rs @ [r]) w w'"
  shows "recoverIntegrations g ot cl w' = recover_loop g ot cl [r] w'"
  unfolding recoverIntegrations_def grown_latest [OF assms]
  by (rule recover_loop_rest) (use assms in \<open>auto simp: grown_def at_rest_def\<close>)

text \<open>Whichever client ran, this one finishes what it was accepting.\<close>

lemma stopped_integration_recovers:
  assumes ran: "integration_writer cl0 good settled mine" and mine: "mine (n, a)" "0 < a"
    and git: "git_ok g" and rest: "at_rest good settled w"
    and run: "interrupted g cl0 n a sha br evidence stage w = Some w'"
    and kept: "\<forall>c. rp_exists g c"
    and verifies: "\<And>v r. good v \<Longrightarrow> integrationKey r = (n, a) \<Longrightarrow>
      \<exists>v' e. cl_verify cl v r = (v', Inr e) \<and> ve_passed e"
  shows "\<exists>res w'' c r. recoverIntegrations g quiet cl w' = Some (res, w'') \<and>
    at_rest good settled w'' \<and> r \<in> set (iw_journal w'') \<and> accepted r \<and>
    integrationKey r = (n, a) \<and> ir_candidateSha r = Some c \<and> iw_ref w'' = Some c"
proof -
  from interruptedD [OF git run] obtain prev tx c where
    t: "iw_ref w = Some prev" "ir_previousTip tx = prev" "integrationKey tx = (n, a)"
      "ir_candidateSha tx = Some c" "ir_conflictingPaths tx = []"
      "open_key (iw_journal w) (n, a)" "map_of (latest_by_key (iw_journal w)) (n, a) = None"
      "prepareTransaction g n a sha br prev = Some tx"
    by metis
  let ?p = "tx\<lparr>ir_status := Some Tx_prepared, ir_attemptEvidence := evidence\<rparr>"
  let ?w1 = "appendRecord ?p w"
  let ?grown = "grown good settled (n, a)"
  have good: "good (iw_client w)" using rest by (simp add: at_rest_def)
  have g1: "?grown [?p] w ?w1" using rest t good by (simp add: grown_def)
  have ends: "\<exists>res w'' c r. recoverIntegrations g quiet cl x = Some (res, w'') \<and>
      at_rest good settled w'' \<and> r \<in> set (iw_journal w'') \<and> accepted r \<and>
      integrationKey r = (n, a) \<and> ir_candidateSha r = Some c \<and> iw_ref w'' = Some c"
    if "\<exists>res. recoverIntegrations g quiet cl x = Some (res, accept_now cl v y)"
      and "?grown rs w y" "\<forall>x \<in> set rs. \<not> accepted x" "integrationKey v = (n, a)"
      "ir_candidateSha v = Some c" "iw_ref y = Some c" for x v y rs
    using that accept_grown [OF that(2,3,4) _ _ refl] mine by fastforce
  show ?thesis
  proof (cases "stage = Stage_prepared")
    case True
    with run t have w': "w' = ?w1" by (auto simp: interrupted_def Let_def split: prod.splits)
    let ?q = "?p\<lparr>ir_conflictingPaths := []\<rparr>"
    obtain v e where vf: "cl_verify cl (iw_client w) ?q = (v, Inr e)" "ve_passed e"
      using verifies [OF good, of ?q] t by auto
    let ?v = "?q\<lparr>ir_attemptEvidence := evidence, ir_candidateEvidence := Some e,
      ir_status := Some Tx_verified\<rparr>"
    let ?w2 = "appendRecord ?v (?w1\<lparr>iw_client := v\<rparr>)"
    have g2: "?grown [?p, ?v] w (?w2\<lparr>iw_ref := Some c\<rparr>)"
      using verify_grown [OF g1, of ?q v "Inr e" ?v] vf t mine by simp
    have "recoverIntegrations g quiet cl w' = recover_loop g quiet cl [?p] w'"
      using recover_grown [of "(n, a)" "[]" ?p w] g1 w' by simp
    also have "\<dots> = Some (Some (Out_accepted (Some c)),
        accept_now cl ?v (?w2\<lparr>iw_ref := Some c\<rparr>))"
      using t w' vf kept advance_quiet [of ?w2 ?v c]
      by (simp add: recover_record_def recover_prepared_def rebuild_prepared_def verifyAndAdvance_def)
    finally show ?thesis by (intro ends [where v = ?v, OF _ g2]) (use t in auto)
  next
    case False
    with run t obtain v e where vf: "cl_verify cl0 (iw_client w) tx = (v, Inr e)" "ve_passed e"
      by (auto simp: interrupted_def Let_def split: prod.splits sum.splits if_splits)
    let ?v = "tx\<lparr>ir_attemptEvidence := evidence, ir_candidateEvidence := Some e,
      ir_status := Some Tx_verified\<rparr>"
    let ?w2 = "appendRecord ?v (?w1\<lparr>iw_client := v\<rparr>)"
    let ?w3 = "?w2\<lparr>iw_ref := Some c\<rparr>"
    have g3: "?grown [?p, ?v] w ?w3" and g2: "?grown [?p, ?v] w ?w2"
      using integration_writer.verify_grown [OF ran g1, of tx v "Inr e" ?v] vf t mine by simp_all
    consider (before) "stage = Stage_before_ref" | (moved) "stage = Stage_after_ref"
      | (later) "stage = Stage_accepted \<or> stage = Stage_after_state"
      using False by (cases stage) auto
    then show ?thesis
    proof cases
      case before
      with run t vf have w': "w' = ?w2"
        by (auto simp: interrupted_def Let_def split: prod.splits)
      show ?thesis
        using recover_grown [of "(n, a)" "[?p]" ?v w ?w2 g quiet] g2 t w' advance_quiet [of ?w2 ?v c]
        by (intro ends [where v = ?v, OF _ g3]) (simp_all add: recover_record_def recover_verified_def)
    next
      case moved
      with run t vf have w': "w' = ?w3"
        by (auto simp: interrupted_def Let_def split: prod.splits)
      show ?thesis
        using recover_grown [of "(n, a)" "[?p]" ?v w ?w3 g quiet] g3 t w' advance_quiet [of ?w3 ?v c]
        by (intro ends [where v = ?v, OF _ g3]) (simp_all add: recover_record_def recover_verified_def)
    next
      case later
      let ?r = "?v\<lparr>ir_status := Some Tx_accepted\<rparr>"
      have key: "open_key (iw_journal ?w3) (integrationKey ?v)"
        using sealed_extend [of "iw_journal w" "(n, a)" "[?p, ?v]"] rest t
        by (simp add: at_rest_def)
      show ?thesis
      proof (cases "stage = Stage_accepted")
        case True
        with run t vf append_once_open [OF key] have w': "w' = appendRecord ?r ?w3"
          by (auto simp: interrupted_def Let_def split: prod.splits)
        have "?grown [?p, ?v, ?r] w w'" using g3 t w' by (simp add: grown_def)
        with recover_grown [of "(n, a)" "[?p, ?v]" ?r w w' g quiet] accept_now_open [OF key, of cl] w'
        show ?thesis
          by (intro ends [where v = ?v, OF _ g3]) (simp_all add: recover_record_def finishAccepted_def t)
      next
        case False
        with later run t vf append_once_open [OF key] have w': "w' = accept_now cl0 ?v ?w3"
          by (auto simp: interrupted_def Let_def accept_now_open [OF key] finishAccepted_def
              split: prod.splits)
        note finished = integration_writer.accept_grown [OF ran g3 _ _ mine(1) _ refl]
        have "at_rest good settled w'" "?r \<in> set (iw_journal w')" "iw_ref w' = iw_ref ?w3"
          unfolding w' by (rule finished; use t mine in simp)+
        with recover_at_rest [of w' g quiet] t show ?thesis by fastforce
      qed
    qed
  qed
qed

end

section \<open>The snapshots of a run\<close>

text \<open>
  What a resumed controller has of the run: its directory, the snapshot of every node, the
  attentions raised and the machine's stores. A handler of one node works on the node's \<open>ctl\<close>,
  without jobs; a node without snapshot is left alone.
\<close>

record fleet =
  fl_rd :: run_dir
  fl_states :: states
  fl_attention :: "(string \<times> string) list"
  fl_host :: host

definition ctl_of :: "fleet \<Rightarrow> snapshot \<Rightarrow> ctl" where
  "ctl_of v s = \<lparr>ce_rd = fl_rd v, ce_state = s, ce_running = None, ce_attention = fl_attention v,
     ce_host = fl_host v\<rparr>"

definition put_ctl :: "string \<Rightarrow> ctl \<Rightarrow> fleet \<Rightarrow> fleet" where
  "put_ctl i c v = v\<lparr>fl_rd := ce_rd c, fl_states := AList.update i (ce_state c) (fl_states v),
     fl_attention := ce_attention c, fl_host := ce_host c\<rparr>"

definition on_node :: "string \<Rightarrow> (ctl \<Rightarrow> ctl) \<Rightarrow> fleet \<Rightarrow> fleet" where
  "on_node i f v =
     (case map_of (fl_states v) i of None \<Rightarrow> v | Some s \<Rightarrow> put_ctl i (f (ctl_of v s)) v)"

definition node_named :: "contract \<Rightarrow> string \<Rightarrow> node option" where
  "node_named contract i = List.find (\<lambda>n. nd_id n = i) (ct_nodes contract)"

section \<open>The resumed controller's handlers\<close>

text \<open>\<open>si_node\<close> is not read: each handler finds the node of its transaction.\<close>

definition unless_settled :: "(ctl \<Rightarrow> ctl) \<Rightarrow> ctl \<Rightarrow> ctl" where
  "unless_settled f c = (if SETTLED (ns_status (ce_state c)) then c else f c)"

definition resume_verify :: "site \<Rightarrow> fleet \<Rightarrow> integ \<Rightarrow> fleet \<times> (string + verification)" where
  "resume_verify si v r =
     (case (node_named (si_contract si) (ir_node r), map_of (fl_states v) (ir_node r)) of
        (Some node, Some s) \<Rightarrow>
          (on_node (ir_node r) persist v,
           Inr (verifyCandidateWorkspace (si_contract si) node (si_candidate si) (si_again si) (fl_rd v) s))
      | _ \<Rightarrow> (v, Inr \<lparr>ve_passed = False, ve_commands = [],
                  ve_error = Some ''journal references an unknown node'',
                  ve_retried = [], ve_completed = False\<rparr>))"

definition replayed :: "site \<Rightarrow> integ \<Rightarrow> ctl \<Rightarrow> ctl" where
  "replayed si r c =
     (let (rd, s) = replayAccepted (ce_rd c) (ce_state c) (tx_of r) (si_now si)
      in c\<lparr>ce_rd := rd, ce_state := s\<rparr>)"

definition resume_accepted :: "site \<Rightarrow> fleet \<Rightarrow> integ \<Rightarrow> fleet" where
  "resume_accepted si v r = on_node (ir_node r) (replayed si r) v"

definition resume_failed :: "site \<Rightarrow> fleet \<Rightarrow> integ \<Rightarrow> verification \<Rightarrow> fleet" where
  "resume_failed si v r found =
     (case node_named (si_contract si) (ir_node r) of
        None \<Rightarrow> v
      | Some node \<Rightarrow> on_node (ir_node r) (unless_settled (\<lambda>c.
          nullish (applyRejection (si\<lparr>si_node := node\<rparr>)
            ((verificationFailureWithScope (verificationFailureVerdict (si_contract si) (ce_state c))
              (ns_scope (ce_state c)))\<lparr>gr_summary :=
                ''integrated candidate verification failed during recovery''\<rparr>)
            (rejection_for ''verification_failed'') c) c)) v)"

definition resume_stop :: "site \<Rightarrow> string \<Rightarrow> string \<Rightarrow> ctl \<Rightarrow> ctl" where
  "resume_stop si code message =
     raiseNodeAttention code \<circ> stop_with Blocked Ph_complete (mk_error code message) (si_now si)"

definition resume_client :: "site \<Rightarrow> fleet client" where
  "resume_client si =
     \<lparr>cl_verify = resume_verify si,
      cl_accepted = resume_accepted si,
      cl_failed = resume_failed si,
      cl_conflict = (\<lambda>v r. on_node (ir_node r)
        (unless_settled (resume_stop si ''integration_conflict'' (conflict_message r))) v),
      cl_moved = (\<lambda>v r current. on_node (ir_node r)
        (unless_settled (resume_stop si ''integration_concurrent_move'' (moved_message r current))) v)\<rparr>"

definition recoverIntegrationTransactions ::
  "site \<Rightarrow> fleet integration \<Rightarrow> (integ_outcome option \<times> fleet integration) option" where
  "recoverIntegrationTransactions si = recoverIntegrations (si_git si) (si_others si) (resume_client si)"

text \<open>The handlers of a settlement, seen as what they do to the fleet.\<close>

definition fleet_client :: "string \<Rightarrow> ctl client \<Rightarrow> fleet client" where
  "fleet_client i cl =
     \<lparr>cl_verify = (\<lambda>v r. (case map_of (fl_states v) i of
          None \<Rightarrow> (v, Inl [])
        | Some s \<Rightarrow> (let (c, e) = cl_verify cl (ctl_of v s) r in (put_ctl i c v, e)))),
      cl_accepted = (\<lambda>v r. on_node i (\<lambda>c. cl_accepted cl c r) v),
      cl_failed = (\<lambda>v r found. on_node i (\<lambda>c. cl_failed cl c r found) v),
      cl_conflict = (\<lambda>v r. on_node i (\<lambda>c. cl_conflict cl c r) v),
      cl_moved = (\<lambda>v r current. on_node i (\<lambda>c. cl_moved cl c r current) v)\<rparr>"

section \<open>Both obey the client's contract\<close>

text \<open>Every snapshot is its node's, and the nodes are at the attempts \<open>atts\<close>.\<close>

definition good_fleet :: "(string \<times> nat) list \<Rightarrow> fleet \<Rightarrow> bool" where
  "good_fleet atts v \<longleftrightarrow> list_all (\<lambda>(i, s). ns_id s = i) (fl_states v) \<and>
     map (\<lambda>(i, s). (i, ns_attempt s)) (fl_states v) = atts"

definition settled_in :: "fleet \<Rightarrow> integ \<Rightarrow> bool" where
  "settled_in v r \<longleftrightarrow>
     (case map_of (fl_states v) (ir_node r) of
        None \<Rightarrow> True
      | Some s \<Rightarrow> ns_attempt s \<noteq> ir_attempt r \<or> hasDoneEvent (fl_rd v) (ir_node r) (ir_attempt r))"

text \<open>A step of one node that keeps its name, its attempt and the events there were.\<close>

definition calm :: "ctl \<Rightarrow> ctl \<Rightarrow> bool" where
  "calm c c' \<longleftrightarrow> ns_id (ce_state c') = ns_id (ce_state c) \<and>
     ns_attempt (ce_state c') = ns_attempt (ce_state c) \<and>
     (\<forall>i a. hasDoneEvent (ce_rd c) i a \<longrightarrow> hasDoneEvent (ce_rd c') i a)"

lemma update_same: "map_of al k = Some v \<Longrightarrow> AList.update k v al = al"
  by (induction al) (auto split: if_splits)

lemma map_update:
  "map_of al k = Some v \<Longrightarrow> (\<And>x. f (k, x) = f (k, v) \<longleftrightarrow> P x) \<Longrightarrow> P v' \<Longrightarrow>
     map f (AList.update k v' al) = map f al"
  by (induction al) (auto split: if_splits)

lemma put_ctl_calm:
  assumes "good_fleet atts v" and "map_of (fl_states v) i = Some s" and "calm (ctl_of v s) c"
  shows "good_fleet atts (put_ctl i c v)" and "settled_in v r \<Longrightarrow> settled_in (put_ctl i c v) r"
proof -
  have s: "ns_id s = i"
    using assms(1) map_of_SomeD [OF assms(2)] by (auto simp: good_fleet_def list_all_iff)
  have c: "ns_id (ce_state c) = i" "ns_attempt (ce_state c) = ns_attempt s"
    using assms(3) s by (simp_all add: calm_def ctl_of_def)
  have "map (\<lambda>(i, s). (i, ns_attempt s)) (AList.update i (ce_state c) (fl_states v)) =
      map (\<lambda>(i, s). (i, ns_attempt s)) (fl_states v)"
    by (rule map_update [OF assms(2), where P = "\<lambda>x. ns_attempt x = ns_attempt s"]) (use c in auto)
  moreover have "list_all (\<lambda>(i, s). ns_id s = i) (AList.update i x al) = list_all (\<lambda>(i, s). ns_id s = i) al"
    if "ns_id x = i" "map_of al i = Some s" for x al
    using that s by (induction al) (auto split: if_splits)
  ultimately show "good_fleet atts (put_ctl i c v)"
    using assms(1) c assms(2) by (simp add: good_fleet_def put_ctl_def)
  show "settled_in (put_ctl i c v) r" if "settled_in v r"
    using that assms(2,3) c
    by (auto simp: settled_in_def put_ctl_def calm_def ctl_of_def update_conv' split: option.splits)
qed

lemma on_node_calm:
  assumes "good_fleet atts v" and "\<And>c. calm c (f c)"
  shows "good_fleet atts (on_node i f v)" and "settled_in v r \<Longrightarrow> settled_in (on_node i f v) r"
  using put_ctl_calm [OF assms(1) _ assms(2)] assms(1)
  by (auto simp: on_node_def split: option.splits)

lemma hasDoneEvent_events:
  "rd_events rd' = rd_events rd @ evs \<Longrightarrow> hasDoneEvent rd i a \<Longrightarrow> hasDoneEvent rd' i a"
  by (simp add: hasDoneEvent_def)

lemma ensured:
  "0 < ns_attempt s \<Longrightarrow> hasDoneEvent (ensureTerminalEvent rd s) (ns_id s) (ns_attempt s)"
  "hasDoneEvent rd i a \<Longrightarrow> hasDoneEvent (ensureTerminalEvent rd s) i a"
  by (auto simp: ensureTerminalEvent_def appendTransitionEvent_def event_of_def hasDoneEvent_def nonzero_def)

lemma transition_done:
  "hasDoneEvent rd i a \<Longrightarrow> hasDoneEvent (fst (transition rd s st patch now)) i a"
  by (rule hasDoneEvent_events [OF transition_frame(1)])

lemma replayAccepted_settles:
  "ns_id (snd (replayAccepted rd s tx now)) = ns_id s"
  "ns_attempt (snd (replayAccepted rd s tx now)) = ns_attempt s"
  "hasDoneEvent rd i a \<Longrightarrow> hasDoneEvent (fst (replayAccepted rd s tx now)) i a"
  "0 < ns_attempt s \<Longrightarrow> ns_attempt s = tx_attempt tx \<Longrightarrow>
     hasDoneEvent (fst (replayAccepted rd s tx now)) (ns_id s) (ns_attempt s)"
  using ensured(1) [of "snd (transition rd s Done (\<lambda>s. accepted_patch tx (s\<lparr>ns_phase := Ph_complete\<rparr>)) now)"]
    ensured(1) [of s]
  by (auto simp: replayAccepted_def case_prod_beta Let_def transition_frame(3) accepted_patch_def
      intro: ensured(2) transition_done)

lemma onAccepted_settles:
  assumes "\<And>s. ns_id (patch s) = ns_id s \<and> ns_attempt (patch s) = ns_attempt s"
  shows "ns_id (snd (onAccepted rd node s patch tx now)) = ns_id s"
    and "ns_attempt (snd (onAccepted rd node s patch tx now)) = ns_attempt s"
    and "hasDoneEvent rd i a \<Longrightarrow> hasDoneEvent (fst (onAccepted rd node s patch tx now)) i a"
    and "0 < ns_attempt s \<Longrightarrow> ns_attempt s = tx_attempt tx \<Longrightarrow>
      hasDoneEvent (fst (onAccepted rd node s patch tx now)) (ns_id s) (ns_attempt s)"
  using assms ensured(1) [of "snd (transition rd s Done (\<lambda>s. accepted_patch tx
      ((if nd_requirementIds node = [] then id
        else (\<lambda>s. s\<lparr>ns_requirementIds := nd_requirementIds node\<rparr>)) (patch s))) now)"] ensured(1) [of s]
  by (auto simp: onAccepted_def case_prod_beta Let_def transition_frame(3) accepted_patch_def
      intro: ensured(2) transition_done)

lemma on_node_settles:
  assumes "good_fleet atts v" and "0 < ir_attempt r" and "\<And>c. calm c (f c)"
    and "\<And>c. ns_attempt (ce_state c) = ir_attempt r \<Longrightarrow>
      hasDoneEvent (ce_rd (f c)) (ns_id (ce_state c)) (ir_attempt r)"
  shows "settled_in (on_node (ir_node r) f v) r"
proof (cases "map_of (fl_states v) (ir_node r)")
  case (Some s)
  have "ns_id s = ir_node r"
    using assms(1) map_of_SomeD [OF Some] by (auto simp: good_fleet_def list_all_iff)
  with Some assms(3) [of "ctl_of v s"] assms(4) [of "ctl_of v s"] show ?thesis
    by (auto simp: on_node_def settled_in_def put_ctl_def update_conv' calm_def ctl_of_def)
qed (simp add: on_node_def settled_in_def)

lemma persist_calm: "calm c (persist c)"
  by (simp add: calm_def persist_def writeNode_def hasDoneEvent_def)

lemma replayed_calm: "calm c (replayed si r c)"
  by (simp add: calm_def replayed_def case_prod_beta replayAccepted_settles)

lemma replayed_settles:
  "0 < ir_attempt r \<Longrightarrow> ns_attempt (ce_state c) = ir_attempt r \<Longrightarrow>
     hasDoneEvent (ce_rd (replayed si r c)) (ns_id (ce_state c)) (ir_attempt r)"
  using replayAccepted_settles(4) [of "ce_state c" "tx_of r" "ce_rd c" "si_now si"]
  by (simp add: replayed_def case_prod_beta tx_of_def)

lemma replayed_again:
  assumes "good_fleet atts v" and "settled_in v r"
  shows "on_node (ir_node r) (replayed si r) v = v"
proof (cases "map_of (fl_states v) (ir_node r)")
  case (Some s)
  have "ns_id s = ir_node r"
    using assms(1) map_of_SomeD [OF Some] by (auto simp: good_fleet_def list_all_iff)
  with Some assms(2) have "replayed si r (ctl_of v s) = ctl_of v s"
    by (auto simp: settled_in_def replayed_def replayAccepted_def ctl_of_def tx_of_def)
  with Some show ?thesis
    by (simp add: on_node_def put_ctl_def update_same [OF Some] ctl_of_def)
qed (simp add: on_node_def)

lemma resume_verify_calm:
  assumes "good_fleet atts v"
  shows "good_fleet atts (fst (resume_verify si v s))"
    and "settled_in v r \<Longrightarrow> settled_in (fst (resume_verify si v s)) r"
  using on_node_calm [OF assms persist_calm] assms
  by (auto simp: resume_verify_def split: option.splits)

interpretation resumed: integration_client "resume_client si" "good_fleet atts" settled_in for si atts
  by unfold_locales
    (simp_all add: resume_client_def resume_accepted_def on_node_calm replayed_calm on_node_settles
      replayed_settles replayed_again resume_verify_calm integrationKey_def)

text \<open>A settlement's handlers only ever act for the attempts of their own node.\<close>

definition mine_of :: "string \<Rightarrow> string \<times> nat \<Rightarrow> bool" where
  "mine_of i k \<longleftrightarrow> fst k = i \<and> 0 < snd k"

lemma settle_accepted_calm: "calm c (settle_accepted si dp c r)"
proof -
  have "ns_id (done_patched dp t s) = ns_id s \<and> ns_attempt (done_patched dp t s) = ns_attempt s" for t s
    by (simp add: done_patched_def)
  from onAccepted_settles(1-3) [OF this] show ?thesis
    by (simp add: calm_def settle_accepted_def case_prod_beta)
qed

lemma settle_accepted_settles:
  assumes "0 < ir_attempt r" and "ns_attempt (ce_state c) = ir_attempt r"
  shows "hasDoneEvent (ce_rd (settle_accepted si dp c r)) (ns_id (ce_state c)) (ir_attempt r)"
proof -
  have "ns_id (done_patched dp t s) = ns_id s \<and> ns_attempt (done_patched dp t s) = ns_attempt s" for t s
    by (simp add: done_patched_def)
  from onAccepted_settles(4) [OF this, of "ce_state c" "tx_of r"] assms show ?thesis
    by (simp add: settle_accepted_def case_prod_beta tx_of_def)
qed

lemma settle_verify_calm:
  assumes "good_fleet atts v"
  shows "good_fleet atts (fst (cl_verify (fleet_client i (settle_client si dp)) v s))"
    and "settled_in v r \<Longrightarrow> settled_in (fst (cl_verify (fleet_client i (settle_client si dp)) v s)) r"
  using put_ctl_calm [OF assms _ persist_calm] assms
  by (auto simp: fleet_client_def settle_client_def split: option.splits)

lemma settling_accepts:
  "cl_accepted (fleet_client i (settle_client si dp)) v r = on_node i (\<lambda>c. settle_accepted si dp c r) v"
  by (simp add: fleet_client_def settle_client_def)

interpretation settling: integration_writer "fleet_client i (settle_client si dp)" "good_fleet atts"
  settled_in "mine_of i" for si dp i atts
proof unfold_locales
  fix v r
  assume good: "good_fleet atts v" and mine: "mine_of i (integrationKey r)"
  then have i: "i = ir_node r" "0 < ir_attempt r" by (simp_all add: mine_of_def integrationKey_def)
  show "settled_in (cl_accepted (fleet_client i (settle_client si dp)) v r) r"
    unfolding settling_accepts i
    by (rule on_node_settles [OF good i(2) settle_accepted_calm]) (rule settle_accepted_settles [OF i(2)])
qed (simp_all add: settling_accepts on_node_calm settle_accepted_calm settle_verify_calm)

section \<open>A stopped acceptance is completed\<close>

lemma done_at_rest:
  assumes "at_rest (good_fleet atts) settled_in w" and "r \<in> set (iw_journal w)" and "accepted r"
    and "integrationKey r = (n, a)" and "map_of atts n = Some a"
  shows "hasDoneEvent (fl_rd (iw_client w)) n a"
proof -
  have "r \<in> set (latestIntegrationTransactions (iw_journal w))"
    using assms(1-3) map_of_SomeD [OF latest_of_accepted]
    by (force simp: at_rest_def latestIntegrationTransactions_def)
  with assms(1,3) have "settled_in (iw_client w) r" by (simp add: at_rest_def)
  moreover have "map_of (map (\<lambda>(i, s). (i, ns_attempt s)) al) n = map_option ns_attempt (map_of al n)"
    for al :: states by (induction al) auto
  ultimately show ?thesis
    using assms by (auto simp: settled_in_def good_fleet_def at_rest_def integrationKey_def
        split: option.splits)
qed

text \<open>
  C7. An acceptance that its controller did not finish is finished by the next one. Wherever
  \<open>settleDone\<close>'s integration stopped (journal prepared, candidate verified, ref moved, accepted
  record written, node updated), the resume ends with the run's ref on an accepted candidate of that
  attempt and the node's \<open>done\<close> event for it, and resuming once more changes nothing: provided git
  kept the candidate, nobody else moves the ref and the candidate still verifies.
\<close>

theorem stopped_acceptance_is_completed:
  assumes git: "git_ok (si_git later)" "\<forall>c. rp_exists (si_git later) c" "si_others later = quiet"
    and rest: "at_rest (good_fleet atts) settled_in w"
    and run: "interrupted (si_git later) (fleet_client n (settle_client si dp)) n a sha br evidence stage w
      = Some w'"
    and attempt: "0 < a" "map_of atts n = Some a" and node: "node_named (si_contract later) n = Some node"
    and passes: "\<And>rd s. ve_passed (verifyCandidateWorkspace (si_contract later) node
      (si_candidate later) (si_again later) rd s)"
  shows "\<exists>res w''. recoverIntegrationTransactions later w' = Some (res, w'') \<and>
    hasDoneEvent (fl_rd (iw_client w'')) n a \<and>
    (\<exists>r \<in> set (iw_journal w''). accepted r \<and> integrationKey r = (n, a) \<and>
      iw_ref w'' = ir_candidateSha r) \<and>
    recoverIntegrationTransactions later w'' = Some (None, w'')"
proof -
  have verifies: "\<exists>v' e. cl_verify (resume_client later) v r = (v', Inr e) \<and> ve_passed e"
    if good: "good_fleet atts v" and key: "integrationKey r = (n, a)" for v r
  proof -
    have "n \<in> fst ` set (fl_states v)"
      using attempt(2) good map_of_SomeD [OF attempt(2)] by (force simp: good_fleet_def)
    then obtain s where "map_of (fl_states v) n = Some s"
      using map_of_eq_None_iff [of "fl_states v" n] by fastforce
    with node key passes show ?thesis
      by (simp add: resume_client_def resume_verify_def integrationKey_def)
  qed
  from resumed.stopped_integration_recovers [OF settling.integration_writer_axioms _ attempt(1)
      git(1) rest run git(2) verifies] attempt(1)
  obtain res w'' c r where w'': "recoverIntegrations (si_git later) quiet (resume_client later) w' =
      Some (res, w'')" "at_rest (good_fleet atts) settled_in w''" "r \<in> set (iw_journal w'')"
      "accepted r" "integrationKey r = (n, a)" "ir_candidateSha r = Some c" "iw_ref w'' = Some c"
    by (auto simp: mine_of_def)
  then show ?thesis
    using done_at_rest [OF w''(2-5) attempt(2)] resumed.recover_at_rest [OF w''(2)] git(3)
    unfolding recoverIntegrationTransactions_def by auto
qed

definition sample_fleet :: fleet where
  "sample_fleet = \<lparr>fl_rd = sample_run_dir, fl_states = [(''a'', sample_snapshot ''a'' Running Ph_complete)],
     fl_attention = [], fl_host = sample_host\<rparr>"

definition resume_site :: site where
  "resume_site = sample_site\<lparr>si_contract := sample_contract False
     [(sample_node ''a'' [] None None)\<lparr>nd_verification := [sample_command]\<rparr>]\<rparr>"

lemma sample_command_ok: "command_ok sample_command"
  by (simp add: command_ok_def validateVerificationCommand_def sample_command_def trim_def is_space_def
      bytes_of_def maxArgvBytes_def maxEnvBytes_def maxTimeoutSec_def maxRepeat_def)

lemma sample_candidate_passes:
  assumes "nd_verification node = [sample_command]" and "ct_sharedVerification contract = None"
    and "ct_finalVerification contract = None"
  shows "ve_passed (verifyCandidateWorkspace contract node sample_bench again rd s)"
proof -
  have "verification_commands contract node rd = [sample_command]"
    using assms by (simp add: verification_commands_def sharedVerificationCommands_def
        finalVerificationCommands_def sample_contract_def)
  moreover have "cr_passed (run_one (bn_machine sample_bench) fs ws (bn_served sample_bench) (0, sample_command))"
    for fs ws
    by (simp add: run_one_def sample_bench_def sample_command_def runRepeatedCommand_def result_of_def
        runCommand_def signalDeathRetry_def)
  ultimately show ?thesis
    using bench_run_outcome [of "[sample_command]" sample_bench node] sample_command_ok
    by (simp add: verifyCandidateWorkspace_def candidate_record_def compactVerification_def maxCommands_def)
qed

text \<open>The controller died between the ref's move and the accepted record.\<close>

theorem stopped_acceptance_is_completed_witness:
  "\<exists>w'. interrupted sample_repo (fleet_client ''a'' (settle_client
        (resume_site\<lparr>si_node := hd (ct_nodes (si_contract resume_site))\<rparr>)
        \<lparr>dp_result = Keep, dp_gate = Keep, dp_error = Keep, dp_unblocked = False\<rparr>))
        ''a'' 1 ''base-a'' None None Stage_after_ref
        \<lparr>iw_ref = Some ''base'', iw_journal = [], iw_client = sample_fleet\<rparr> = Some w' \<and>
     \<not> hasDoneEvent (fl_rd (iw_client w')) ''a'' 1 \<and>
     (\<exists>res w''. recoverIntegrationTransactions resume_site w' = Some (res, w'') \<and>
        hasDoneEvent (fl_rd (iw_client w'')) ''a'' 1 \<and>
        recoverIntegrationTransactions resume_site w'' = Some (None, w''))"
proof -
  let ?node = "hd (ct_nodes (si_contract resume_site))"
  let ?si = "resume_site\<lparr>si_node := ?node\<rparr>" and ?dp = "\<lparr>dp_result = Keep, dp_gate = Keep, dp_error = Keep, dp_unblocked = False\<rparr>"
  let ?w = "\<lparr>iw_ref = Some ''base'', iw_journal = [], iw_client = sample_fleet\<rparr>"
  have site: "si_git resume_site = sample_repo" "si_others resume_site = quiet"
    "si_candidate resume_site = sample_bench" "si_again resume_site = sample_bench"
    "node_named (si_contract resume_site) ''a'' = Some ?node"
    by (simp_all add: resume_site_def sample_site_def sample_contract_def sample_node_def node_named_def)
  have passes: "ve_passed (verifyCandidateWorkspace (si_contract resume_site) ?node sample_bench
      sample_bench rd s)" for rd s
    by (rule sample_candidate_passes) (simp_all add: resume_site_def sample_contract_def)
  have rest: "at_rest (good_fleet [(''a'', 1)]) settled_in ?w"
    by (simp add: at_rest_def good_fleet_def sample_fleet_def sample_snapshot_def
        latestIntegrationTransactions_def latest_by_key_def)
  have "\<exists>w'. interrupted sample_repo (fleet_client ''a'' (settle_client ?si ?dp)) ''a'' 1 ''base-a'' None
      None Stage_after_ref ?w = Some w' \<and> \<not> hasDoneEvent (fl_rd (iw_client w')) ''a'' 1"
    using passes site
    by (simp add: interrupted_def fleet_client_def settle_client_def prepareTransaction_def
        sample_repo_def sample_fleet_def latest_by_key_def hasDoneEvent_def sample_run_dir_def Let_def
        put_ctl_def persist_def writeNode_def ctl_of_def appendRecord_def appendAccepted_def
        append_once_def latestIntegrationTransactions_def split: option.splits prod.splits)
  then obtain w' where w': "interrupted sample_repo (fleet_client ''a'' (settle_client ?si ?dp)) ''a'' 1
      ''base-a'' None None Stage_after_ref ?w = Some w'" "\<not> hasDoneEvent (fl_rd (iw_client w')) ''a'' 1"
    by blast
  show ?thesis
    using stopped_acceptance_is_completed [of resume_site "[(''a'', 1)]" ?w "''a''" ?si ?dp 1 "''base-a''"
        None None Stage_after_ref w' ?node] w' site passes rest sample_repo_ok
    by (fastforce simp: sample_repo_def)
qed

section \<open>A settlement that resumes an open transaction\<close>

text \<open>
  When the attempt already has an open transaction, \<open>settleDone\<close> recovers the whole journal with its
  own handlers, and \<open>onAccepted\<close> compares attempt numbers only. Here node \<open>b\<close> was accepted at its
  first attempt and node \<open>a\<close>'s first attempt lost the race for the ref: settling \<open>a\<close> again writes
  \<open>a\<close> a \<open>done\<close> event with \<open>b\<close>'s head before it is blocked for the race.
\<close>

definition open_journal :: "integ list" where
  "open_journal =
     [\<lparr>ir_node = ''b'', ir_attempt = 1, ir_attemptSha = ''base-b'', ir_branch = None,
       ir_empty = False, ir_previousTip = ''base'', ir_candidateSha = Some ''base-b'',
       ir_conflictingPaths = [], ir_status = Some Tx_accepted, ir_attemptEvidence = None,
       ir_candidateEvidence = Some sample_verification\<rparr>,
      \<lparr>ir_node = ''a'', ir_attempt = 1, ir_attemptSha = ''base-a'', ir_branch = None,
       ir_empty = False, ir_previousTip = ''base'', ir_candidateSha = Some ''base-a'',
       ir_conflictingPaths = [], ir_status = Some Tx_verified, ir_attemptEvidence = None,
       ir_candidateEvidence = Some sample_verification\<rparr>]"

lemma settlement_accepts_another_node:
  "case settleDone sample_site \<lparr>dp_result = Keep, dp_gate = Keep, dp_error = Keep, dp_unblocked = False\<rparr>
       (sample_desk\<lparr>iw_ref := Some ''base-b'', iw_journal := open_journal\<rparr>) of
     None \<Rightarrow> False
   | Some w \<Rightarrow> ns_id (ce_state (iw_client w)) = ''a'' \<and> ns_status (ce_state (iw_client w)) = Blocked \<and>
       hasDoneEvent (ce_rd (iw_client w)) ''a'' 1 \<and>
       ns_integratedHead (ce_state (iw_client w)) = Some ''base-b'' \<and>
       list_all (\<lambda>r. ir_node r = ''a'' \<longrightarrow> \<not> accepted r) (iw_journal w)"
  by code_simp

end
