(* ===== verification/Lock.thy ===== *)
theory Lock
  imports Prelude
begin

text \<open>
  One controller per run (\<open>src/run/lock.mjs\<close>): the lock file, the takeover of a dead holder's lock
  and the handle's \<open>assert\<close> and \<open>release\<close>, as a step relation over the processes that contend for
  one run. Each step is one system call: a link, a read, a rename, an unlink.

  The operating system is the process table: which pids are alive and which start token a probe of
  each answers. An entry is created complete, by a link to a file already written, so the only
  unreadable lock is one found there. What \<open>LockBusyError\<close> reports and \<open>fsync\<close> are left out.
\<close>

section \<open>Locks and the process table\<close>

record lock_record =
  lr_pid :: nat
  lr_token :: "string option"
  lr_startedAt :: int

datatype lock_file = Valid lock_record | Garbled

text \<open>The start token a probe of a live pid answers, \<open>None\<close> for \<open>null\<close>.\<close>

type_synonym process_table = "(nat \<times> string option) list"

definition pidAlive :: "process_table \<Rightarrow> nat \<Rightarrow> bool" where
  "pidAlive T pid \<longleftrightarrow> pid > 0 \<and> map_of T pid \<noteq> None"

definition processStartToken :: "process_table \<Rightarrow> nat \<Rightarrow> string option" where
  "processStartToken T pid = (if pid = 0 then None else Option.bind (map_of T pid) id)"

definition lockStale :: "process_table \<Rightarrow> lock_file option \<Rightarrow> bool" where
  "lockStale T found =
     (case found of
        Some (Valid r) \<Rightarrow>
          \<not> pidAlive T (lr_pid r) \<or>
          (lr_token r \<notin> {None, Some []} \<and> processStartToken T (lr_pid r) \<noteq> lr_token r)
      | _ \<Rightarrow> True)"

section \<open>A process that acquires the lock\<close>

definition TAKEOVER_ATTEMPTS :: nat where "TAKEOVER_ATTEMPTS = 20"

text \<open>
  Where \<open>acquire\<close> is in its loop, with the number of the attempt; then the handle: held, checked by
  \<open>release\<close> and about to be unlinked, or let go. \<open>Busy\<close> and \<open>Contended\<close> are the two errors.
\<close>

datatype lock_pc =
    At_link nat | At_read nat | At_capture nat | At_check nat | At_relink nat | At_discard nat
  | Holds | At_unlink | Let_go | Busy | Contended

record claimant =
  cm_record :: lock_record
  cm_at :: lock_pc
  cm_aside :: "lock_file option"
  cm_dead :: bool

definition next_attempt :: "nat \<Rightarrow> claimant \<Rightarrow> claimant" where
  "next_attempt n c = c\<lparr>cm_at := (if n + 1 < TAKEOVER_ATTEMPTS then At_link (n + 1) else Contended)\<rparr>"

text \<open>The next step of \<open>acquire\<close>, and of a \<open>release\<close> under way; the pair is the entry under the name.\<close>

definition act :: "process_table \<Rightarrow> claimant \<Rightarrow> lock_file option \<Rightarrow> claimant \<times> lock_file option" where
  "act T c entry =
     (case cm_at c of
        At_link n \<Rightarrow>
          if entry = None then (c\<lparr>cm_at := Holds\<rparr>, Some (Valid (cm_record c)))
          else (c\<lparr>cm_at := At_read n\<rparr>, entry)
      | At_read n \<Rightarrow> (c\<lparr>cm_at := (if lockStale T entry then At_capture n else Busy)\<rparr>, entry)
      | At_capture n \<Rightarrow>
          if entry = None then (next_attempt n c, entry)
          else (c\<lparr>cm_at := At_check n, cm_aside := entry\<rparr>, None)
      | At_check n \<Rightarrow>
          (c\<lparr>cm_at := (if lockStale T (cm_aside c) then At_discard n else At_relink n)\<rparr>, entry)
      | At_relink n \<Rightarrow>
          (c\<lparr>cm_at := At_discard n\<rparr>, if entry = None then cm_aside c else entry)
      | At_discard n \<Rightarrow> (next_attempt n (c\<lparr>cm_aside := None\<rparr>), entry)
      | At_unlink \<Rightarrow> (c\<lparr>cm_at := Let_go\<rparr>, None)
      | _ \<Rightarrow> (c, entry))"

text \<open>\<open>held\<close>, \<open>assert\<close> and the first half of \<open>release\<close> of a handle.\<close>

definition held :: "claimant \<Rightarrow> lock_file option \<Rightarrow> bool" where
  "held c entry =
     (case entry of
        Some (Valid r) \<Rightarrow> lr_pid r = lr_pid (cm_record c) \<and> lr_startedAt r = lr_startedAt (cm_record c)
      | _ \<Rightarrow> False)"

definition asserts :: "claimant \<Rightarrow> lock_file option \<Rightarrow> bool" where
  "asserts c entry \<longleftrightarrow> cm_at c \<in> {Holds, At_unlink} \<and> held c entry"

definition release :: "claimant \<Rightarrow> lock_file option \<Rightarrow> claimant" where
  "release c entry =
     (if cm_at c = Holds then c\<lparr>cm_at := (if held c entry then At_unlink else Let_go)\<rparr> else c)"

section \<open>All the processes of a run\<close>

record lock_world =
  lw_entry :: "lock_file option"
  lw_claims :: "claimant list"
  lw_table :: process_table

definition act_in :: "nat \<Rightarrow> lock_world \<Rightarrow> lock_world" where
  "act_in i w =
     (let (c, entry) = act (lw_table w) (lw_claims w ! i) (lw_entry w)
      in w\<lparr>lw_entry := entry, lw_claims := (lw_claims w)[i := c]\<rparr>)"

definition release_in :: "nat \<Rightarrow> lock_world \<Rightarrow> lock_world" where
  "release_in i w = w\<lparr>lw_claims := (lw_claims w)[i := release (lw_claims w ! i) (lw_entry w)]\<rparr>"

text \<open>A process ends, whatever it was doing; its claim on the lock stays where it is.\<close>

definition dies_in :: "nat \<Rightarrow> lock_world \<Rightarrow> lock_world" where
  "dies_in pid w = w\<lparr>lw_table := AList.delete pid (lw_table w),
     lw_claims := map (\<lambda>c. if lr_pid (cm_record c) = pid then c\<lparr>cm_dead := True\<rparr> else c) (lw_claims w)\<rparr>"

definition acts_now :: "nat \<Rightarrow> lock_world \<Rightarrow> bool" where
  "acts_now i w \<longleftrightarrow> i < length (lw_claims w) \<and> \<not> cm_dead (lw_claims w ! i)"

text \<open>A live claimant acts or lets go; any process ends; a process gets a pid nobody has now.\<close>

inductive lock_step :: "lock_world \<Rightarrow> lock_world \<Rightarrow> bool" where
  acts: "acts_now i w \<Longrightarrow> lock_step w (act_in i w)"
| releases: "acts_now i w \<Longrightarrow> lock_step w (release_in i w)"
| dies: "lock_step w (dies_in pid w)"
| starts: "map_of (lw_table w) pid = None \<Longrightarrow> lock_step w (w\<lparr>lw_table := (pid, token) # lw_table w\<rparr>)"

inductive_cases lock_stepE: "lock_step w w'"

text \<open>
  The claimants are different processes; the table answers a live one's pid with the token it wrote
  into its record.
\<close>

definition honest :: "process_table \<Rightarrow> claimant \<Rightarrow> bool" where
  "honest T c \<longleftrightarrow> (\<not> cm_dead c \<longrightarrow> lr_pid (cm_record c) > 0 \<and>
     map_of T (lr_pid (cm_record c)) = Some (lr_token (cm_record c)))"

definition lock_ok :: "lock_world \<Rightarrow> bool" where
  "lock_ok w \<longleftrightarrow> distinct (map (lr_pid \<circ> cm_record) (lw_claims w)) \<and>
     list_all (honest (lw_table w)) (lw_claims w)"

lemma act_record [simp]:
  "cm_record (fst (act T c entry)) = cm_record c" "cm_dead (fst (act T c entry)) = cm_dead c"
  by (auto simp: act_def next_attempt_def split: lock_pc.splits)

lemma release_record [simp]:
  "cm_record (release c entry) = cm_record c" "cm_dead (release c entry) = cm_dead c"
  "cm_aside (release c entry) = cm_aside c"
  by (auto simp: release_def)

text \<open>The lock of a live process is never stale.\<close>

lemma live_not_stale: "honest T c \<Longrightarrow> \<not> cm_dead c \<Longrightarrow> \<not> lockStale T (Some (Valid (cm_record c)))"
  by (auto simp: honest_def lockStale_def pidAlive_def processStartToken_def)

section \<open>Two processes\<close>

text \<open>
  A handle that is held has its record under the name, or the other process has just taken it aside
  and has not yet looked at it or put it back.
\<close>

definition in_hand :: "claimant \<Rightarrow> claimant \<Rightarrow> bool" where
  "in_hand c other \<longleftrightarrow> cm_aside other = Some (Valid (cm_record c)) \<and>
     (\<exists>n. cm_at other \<in> {At_check n, At_relink n})"

definition kept :: "lock_file option \<Rightarrow> claimant \<Rightarrow> claimant \<Rightarrow> bool" where
  "kept entry c other \<longleftrightarrow> (\<not> cm_dead c \<and> cm_at c \<in> {Holds, At_unlink} \<longrightarrow>
     entry = Some (Valid (cm_record c)) \<or> entry = None \<and> in_hand c other)"

definition pair_ok :: "lock_file option \<Rightarrow> claimant \<Rightarrow> claimant \<Rightarrow> bool" where
  "pair_ok entry a b \<longleftrightarrow> kept entry a b \<and> kept entry b a"

lemma pair_ok_sym: "pair_ok entry a b \<Longrightarrow> pair_ok entry b a"
  by (simp add: pair_ok_def)

lemma act_pair:
  assumes "pair_ok entry a b" and "\<not> cm_dead a" and "honest T a" and "honest T b"
    and "cm_record a \<noteq> cm_record b"
  shows "pair_ok (snd (act T a entry)) (fst (act T a entry)) b"
  using assms live_not_stale [OF assms(4)]
  by (cases "cm_at a"; cases "cm_at b")
    (auto simp: pair_ok_def kept_def in_hand_def act_def next_attempt_def split: if_splits)

lemma release_pair:
  "pair_ok entry a b \<Longrightarrow> pair_ok entry (release a entry) b"
  by (auto simp: pair_ok_def kept_def in_hand_def release_def)

lemma dead_pair:
  assumes "pair_ok entry a b"
  shows "pair_ok entry (if p then a\<lparr>cm_dead := True\<rparr> else a) (if q then b\<lparr>cm_dead := True\<rparr> else b)"
  using assms by (auto simp: pair_ok_def kept_def in_hand_def)

lemma lock_ok_step:
  assumes "lock_step w w'" and "lock_ok w"
  shows "lock_ok w'"
  using assms(1)
proof cases
  case (acts i)
  have "map (lr_pid \<circ> cm_record) (lw_claims w') = map (lr_pid \<circ> cm_record) (lw_claims w)"
    using acts by (simp add: act_in_def acts_now_def case_prod_beta map_update list_update_same_conv)
  moreover have "honest T (fst (act U c entry)) = honest T c" for T U c entry by (simp add: honest_def)
  ultimately show ?thesis
    using assms(2) acts
    by (auto simp: lock_ok_def act_in_def acts_now_def case_prod_beta list_all_length nth_list_update)
next
  case (releases i)
  have "map (lr_pid \<circ> cm_record) (lw_claims w') = map (lr_pid \<circ> cm_record) (lw_claims w)"
    using releases by (simp add: release_in_def acts_now_def map_update list_update_same_conv)
  moreover have "honest T (release c entry) = honest T c" for T c entry by (simp add: honest_def)
  ultimately show ?thesis
    using assms(2) releases
    by (auto simp: lock_ok_def release_in_def acts_now_def list_all_length nth_list_update)
next
  case (dies pid)
  have "map (lr_pid \<circ> cm_record) (lw_claims w') = map (lr_pid \<circ> cm_record) (lw_claims w)"
    using dies by (simp add: dies_in_def comp_def if_distrib cong: if_cong)
  moreover have "list_all (honest (lw_table w')) (lw_claims w')"
    using assms(2) dies by (auto simp: lock_ok_def dies_in_def list_all_iff honest_def delete_conv')
  ultimately show ?thesis using assms(2) by (simp only: lock_ok_def)
next
  case (starts pid token)
  with assms(2) show ?thesis by (auto simp: lock_ok_def list_all_iff honest_def)
qed

text \<open>The invariant of two contending processes.\<close>

definition two_claims :: "lock_world \<Rightarrow> bool" where
  "two_claims w \<longleftrightarrow> (\<exists>a b. lw_claims w = [a, b] \<and> pair_ok (lw_entry w) a b)"

lemma two_claims_step:
  assumes "lock_step w w'" and "lock_ok w" and "two_claims w"
  shows "two_claims w'"
proof -
  obtain a b where ab: "lw_claims w = [a, b]" "pair_ok (lw_entry w) a b"
    using assms(3) by (auto simp: two_claims_def)
  have honest: "honest (lw_table w) a" "honest (lw_table w) b" "cm_record a \<noteq> cm_record b"
    using assms(2) ab(1) by (auto simp: lock_ok_def)
  from assms(1) show ?thesis
  proof cases
    case (acts i)
    then consider "i = 0" "\<not> cm_dead a" | "i = 1" "\<not> cm_dead b"
      using ab(1) by (auto simp: acts_now_def less_Suc_eq)
    then show ?thesis
      using acts(1) ab act_pair [OF ab(2) _ honest] act_pair [OF pair_ok_sym [OF ab(2)] _ honest(2,1)] honest(3)
      by cases (auto simp: two_claims_def act_in_def case_prod_beta intro: pair_ok_sym)
  next
    case (releases i)
    then consider "i = 0" | "i = 1" using ab(1) by (auto simp: acts_now_def less_Suc_eq)
    then show ?thesis
      using releases(1) ab release_pair [OF ab(2)] release_pair [OF pair_ok_sym [OF ab(2)]]
      by cases (auto simp: two_claims_def release_in_def intro: pair_ok_sym)
  next
    case (dies pid)
    with ab dead_pair [OF ab(2)] show ?thesis by (auto simp: two_claims_def dies_in_def)
  next
    case (starts pid token)
    with ab show ?thesis by (simp add: two_claims_def)
  qed
qed

definition holder :: "claimant \<Rightarrow> bool" where
  "holder c \<longleftrightarrow> \<not> cm_dead c \<and> cm_at c \<in> {Holds, At_unlink}"

text \<open>
  C8. Of two processes that contend for a run, at most one live one ever holds the lock, in every
  order of their system calls and whatever dies in between; and a live holder's lock is never
  destroyed: it is under its name, or in the hand of the other, who has yet to look at it or puts
  it back. (A third contender breaks this: lemma \<open>third_contender_destroys\<close>.)
\<close>

theorem one_live_holder:
  assumes "lock_step\<^sup>*\<^sup>* start w" and "lock_ok start" and "lw_claims start = [a, b]"
    and "\<not> holder a" and "\<not> holder b"
  shows "\<exists>a' b'. lw_claims w = [a', b'] \<and> \<not> (holder a' \<and> holder b') \<and>
    (\<forall>(c, other) \<in> {(a', b'), (b', a')}. holder c \<longrightarrow>
       lw_entry w = Some (Valid (cm_record c)) \<or> lw_entry w = None \<and> in_hand c other)"
proof -
  have "lock_ok w \<and> two_claims w"
    using assms(1)
  proof (induction rule: rtranclp_induct)
    case base
    with assms(2-5) show ?case by (auto simp: two_claims_def pair_ok_def kept_def holder_def)
  next
    case (step v w)
    with lock_ok_step two_claims_step show ?case by blast
  qed
  then obtain a' b' where w: "lw_claims w = [a', b']" "pair_ok (lw_entry w) a' b'"
      "lr_pid (cm_record a') \<noteq> lr_pid (cm_record b')"
    by (auto simp: two_claims_def lock_ok_def)
  moreover have "\<not> (holder a' \<and> holder b')"
    using w(2,3) by (auto simp: pair_ok_def kept_def holder_def in_hand_def)
  ultimately show ?thesis by (auto simp: pair_ok_def kept_def holder_def)
qed

definition claim :: "nat \<Rightarrow> claimant" where
  "claim pid = \<lparr>cm_record = \<lparr>lr_pid = pid, lr_token = Some ''t'', lr_startedAt = int pid\<rparr>,
     cm_at = At_link 0, cm_aside = None, cm_dead = False\<rparr>"

text \<open>A run whose last controller, pid 9, is dead.\<close>

definition abandoned :: "nat list \<Rightarrow> lock_world" where
  "abandoned pids = \<lparr>lw_entry = Some (Valid (cm_record (claim 9))), lw_claims = map claim pids,
     lw_table = map (\<lambda>p. (p, Some ''t'')) pids\<rparr>"

text \<open>
  The first sees the stale lock; the second takes it over and holds; the first, going by what it
  saw, takes the second's lock aside. Until it puts it back the holder's \<open>assert\<close> fails.
\<close>

definition taken_aside :: "nat list" where "taken_aside = [0, 0, 1, 1, 1, 1, 1, 1, 0]"

lemma schedule_steps:
  "lock_step\<^sup>*\<^sup>* w (fold act_in is w)"
  if "\<And>k. k < length is \<Longrightarrow> acts_now (is ! k) (fold act_in (take k is) w)"
  using that
proof (induction "is" rule: rev_induct)
  case (snoc i xs)
  have "lock_step\<^sup>*\<^sup>* w (fold act_in xs w)"
    by (rule snoc.IH) (use snoc.prems in \<open>fastforce simp: nth_append less_Suc_eq\<close>)
  moreover have "acts_now i (fold act_in xs w)" using snoc.prems [of "length xs"] by simp
  ultimately show ?case by (auto intro: lock_step.acts rtranclp.rtrancl_into_rtrancl)
qed simp

theorem one_live_holder_witness:
  "let w = fold act_in taken_aside (abandoned [1, 2])
   in lw_entry w = None \<and> holder (lw_claims w ! 1) \<and> \<not> holder (lw_claims w ! 0) \<and>
      in_hand (lw_claims w ! 1) (lw_claims w ! 0) \<and> \<not> asserts (lw_claims w ! 1) (lw_entry w)"
proof -
  let ?w = "fold act_in taken_aside (abandoned [1, 2])"
  have all: "list_all (\<lambda>k. acts_now (taken_aside ! k) (fold act_in (take k taken_aside) (abandoned [1, 2])))
      [0..<length taken_aside]" by code_simp
  have "lock_step\<^sup>*\<^sup>* (abandoned [1, 2]) ?w"
    by (rule schedule_steps) (use all in \<open>auto simp: list_all_iff\<close>)
  from one_live_holder [OF this, of "claim 1" "claim 2"]
  obtain a b where ab: "lw_claims ?w = [a, b]" "\<not> (holder a \<and> holder b)"
    "holder b \<Longrightarrow> lw_entry ?w = Some (Valid (cm_record b)) \<or> in_hand b a"
    by (force simp: abandoned_def lock_ok_def claim_def honest_def holder_def)
  have "lw_entry ?w = None" "holder (lw_claims ?w ! 1)" "\<not> asserts (lw_claims ?w ! 1) (lw_entry ?w)"
    by code_simp+
  with ab show ?thesis by (simp add: Let_def)
qed

text \<open>A third process that links in that window: two live processes hold, and the first lock is gone.\<close>

lemma third_contender_destroys:
  "let w = fold act_in (taken_aside @ [0, 2, 0, 0]) (abandoned [1, 2, 3])
   in holder (lw_claims w ! 1) \<and> holder (lw_claims w ! 2) \<and>
      lw_entry w = Some (Valid (cm_record (claim 3))) \<and> cm_aside (lw_claims w ! 0) = None \<and>
      \<not> asserts (lw_claims w ! 1) (lw_entry w)"
  by code_simp

text \<open>Whoever holds what, at most one process's \<open>assert\<close> succeeds.\<close>

lemma asserts_exclusive:
  "asserts c entry \<Longrightarrow> asserts d entry \<Longrightarrow> lr_pid (cm_record c) = lr_pid (cm_record d)"
  by (auto simp: asserts_def held_def split: option.splits lock_file.splits)

section \<open>An acquisition ends\<close>

fun steps_left :: "lock_pc \<Rightarrow> nat" where
  "steps_left (At_link n) = 6 * (TAKEOVER_ATTEMPTS - n)"
| "steps_left (At_read n) = 6 * (TAKEOVER_ATTEMPTS - n) - 1"
| "steps_left (At_capture n) = 6 * (TAKEOVER_ATTEMPTS - n) - 2"
| "steps_left (At_check n) = 6 * (TAKEOVER_ATTEMPTS - n) - 3"
| "steps_left (At_relink n) = 6 * (TAKEOVER_ATTEMPTS - n) - 4"
| "steps_left (At_discard n) = 6 * (TAKEOVER_ATTEMPTS - n) - 5"
| "steps_left _ = 0"

fun attempt_of :: "lock_pc \<Rightarrow> nat option" where
  "attempt_of (At_link n) = Some n"
| "attempt_of (At_read n) = Some n"
| "attempt_of (At_capture n) = Some n"
| "attempt_of (At_check n) = Some n"
| "attempt_of (At_relink n) = Some n"
| "attempt_of (At_discard n) = Some n"
| "attempt_of _ = None"

definition underway :: "claimant \<Rightarrow> bool" where
  "underway c = (case attempt_of (cm_at c) of None \<Rightarrow> False | Some n \<Rightarrow> n < TAKEOVER_ATTEMPTS)"

lemma act_decreases:
  assumes "underway c"
  shows "steps_left (cm_at (fst (act T c entry))) < steps_left (cm_at c) \<and>
    (underway (fst (act T c entry)) \<or> cm_at (fst (act T c entry)) \<in> {Holds, Busy, Contended})"
  using assms by (cases "cm_at c") (auto simp: underway_def act_def next_attempt_def)

text \<open>
  Whatever the file and the process table are at each of its steps, an acquisition that is not
  interrupted ends within \<open>6 * 20\<close> of them: it holds, finds the lock busy, or gives up.
\<close>

lemma acquire_settles:
  assumes "underway c" and "steps_left (cm_at c) \<le> length seen"
  shows "cm_at (fold (\<lambda>(T, entry) c. fst (act T c entry)) seen c) \<in> {Holds, Busy, Contended}"
  using assms
proof (induction seen arbitrary: c)
  case Nil
  then show ?case by (cases "cm_at c") (auto simp: underway_def)
next
  case (Cons s seen)
  obtain T entry where s: "s = (T, entry)" by (cases s)
  have over: "fold (\<lambda>(T, entry) c. fst (act T c entry)) xs d = d"
    if "cm_at d \<in> {Holds, Busy, Contended}" for xs d
    using that by (induction xs) (auto simp: act_def)
  show ?case
    using act_decreases [OF Cons.prems(1), of T entry] Cons.prems(2) Cons.IH [of "fst (act T c entry)"]
      over [of "fst (act T c entry)" seen]
    by (auto simp: s)
qed

section \<open>Whose bootstrap record it is\<close>

text \<open>The record a detached child writes, matched with the child its parent spawned.\<close>

record bootstrap =
  bs_pid :: "nat option"
  bs_nonce :: "string option"
  bs_processStartToken :: "string option"

definition sameProcessStartToken :: "string option \<Rightarrow> string option \<Rightarrow> bool" where
  "sameProcessStartToken actual expected \<longleftrightarrow> actual = expected"

definition validBootstrapNonce :: "string option \<Rightarrow> bool" where
  "validBootstrapNonce value =
     (case value of
        None \<Rightarrow> False
      | Some s \<Rightarrow> 16 \<le> length s \<and> length s \<le> 64 \<and>
          list_all (\<lambda>c. (is_word_char c \<and> c \<noteq> CHR ''_'') \<or> c = CHR ''-'') s)"

definition bootstrapMatchesChild :: "bootstrap \<Rightarrow> nat \<Rightarrow> string \<Rightarrow> string option \<Rightarrow> bool" where
  "bootstrapMatchesChild r pid nonce expected \<longleftrightarrow> bs_pid r = Some pid \<and> bs_nonce r = Some nonce \<and>
     validBootstrapNonce (bs_nonce r) \<and> sameProcessStartToken (bs_processStartToken r) expected"

definition bootstrapFailureMatchesChild :: "bootstrap \<Rightarrow> nat \<Rightarrow> string \<Rightarrow> string option \<Rightarrow> bool" where
  "bootstrapFailureMatchesChild r pid nonce expected \<longleftrightarrow> bs_pid r = Some pid \<and> bs_nonce r = Some nonce \<and>
     validBootstrapNonce (bs_nonce r) \<and>
     (expected = None \<or> bs_processStartToken r = expected)"

lemma bootstrap_match_kinds:
  "bootstrapMatchesChild r pid nonce expected \<Longrightarrow> bootstrapFailureMatchesChild r pid nonce expected"
  "expected \<noteq> None \<Longrightarrow> bootstrapFailureMatchesChild r pid nonce expected \<Longrightarrow>
     bootstrapMatchesChild r pid nonce expected"
  by (auto simp: bootstrapMatchesChild_def bootstrapFailureMatchesChild_def sameProcessStartToken_def)

end
