(* ===== verification/Workspace.thy ===== *)
theory Workspace
  imports Verification
begin

text \<open>
  What a workspace held before an attempt and holds after it, and the boundary its worker may
  write inside (\<open>src/repo/workspace.mjs\<close>).

  What the file system and git answer is the argument \<open>tree\<close>: the real path of the workspace and
  of a path in it, what lies at a path with its digest, the paths git lists under the present ignore
  rules and under the old ones, the ignore sources. A boundary that was persisted is typed; of what
  \<open>validateWorkspaceScopeBoundary\<close> checks, the shape of the JSON is left out. Paths are those of
  a POSIX platform.
\<close>

section \<open>Paths\<close>

fun split_slash :: "string \<Rightarrow> string list" where
  "split_slash [] = [[]]"
| "split_slash (c # cs) =
     (if c = CHR ''/'' then [] # split_slash cs
      else (case split_slash cs of [] \<Rightarrow> [[c]] | w # ws \<Rightarrow> (c # w) # ws))"

text \<open>\<open>[...new Set(xs)]\<close>: the first of every value, in order.\<close>

definition uniq :: "'a list \<Rightarrow> 'a list" where
  "uniq xs = rev (remdups (rev xs))"

definition under_root :: "string \<Rightarrow> string \<Rightarrow> bool" where
  "under_root base path \<longleftrightarrow> path = base \<or> starts_with path (base @ ''/'')"

definition snapshotEntries :: nat where "snapshotEntries = 4096"
definition snapshotPathBytes :: nat where "snapshotPathBytes = 1024"

definition RUNS_DIR_NAME :: string where "RUNS_DIR_NAME = ''.runs''"

definition drive_letter :: "string \<Rightarrow> bool" where
  "drive_letter path =
     (case path of
        c # d # e # _ \<Rightarrow>
          (let n = (of_char (lower_char c) :: nat) in 97 \<le> n \<and> n \<le> 122) \<and> d = CHR '':'' \<and>
          (e = CHR ''/'' \<or> e = CHR 0x5C)
      | _ \<Rightarrow> False)"

definition bad_scope_path :: "string \<Rightarrow> bool" where
  "bad_scope_path path \<longleftrightarrow>
     path = [] \<or> starts_with path ''/'' \<or> drive_letter path \<or> ''..'' \<in> set (split_slash path)"

definition normalize_path :: "string \<Rightarrow> string \<Rightarrow> snap_error + string" where
  "normalize_path label path =
     (let invalid = mk_error ''scope_invalid''
            (''workspace scope.'' @ label @ '' contains an invalid path'');
          normalized = strip_slashes path
      in if bad_scope_path path \<or> normalized = [] \<or> normalized = ''.'' then Inl invalid
         else if length normalized > snapshotPathBytes
         then Inl (mk_error ''scope_path_too_long''
                (''workspace scope.'' @ label @ '' path exceeds 1024 bytes''))
         else Inr normalized)"

text \<open>A list read element by element: the first error is the answer.\<close>

fun try_map :: "('a \<Rightarrow> 'e + 'b) \<Rightarrow> 'a list \<Rightarrow> 'e + 'b list" where
  "try_map f [] = Inr []"
| "try_map f (x # xs) =
     (case f x of Inl e \<Rightarrow> Inl e | Inr y \<Rightarrow> map_sum id (Cons y) (try_map f xs))"

definition normalizeScopePaths :: "string list \<Rightarrow> string \<Rightarrow> snap_error + string list" where
  "normalizeScopePaths paths label = try_map (normalize_path label) paths"

text \<open>
  \<open>isContained\<close> of two absolute normalized paths, through \<open>relative\<close>: a name below the root that
  itself begins with two dots counts as outside.
\<close>

definition below_root :: "string \<Rightarrow> string" where
  "below_root base = (if base = ''/'' then base else base @ ''/'')"

definition isContained :: "string \<Rightarrow> string \<Rightarrow> bool" where
  "isContained base target \<longleftrightarrow> target = base \<or>
     (starts_with target (below_root base) \<and>
      \<not> starts_with (drop (length (below_root base)) target) ''..'')"

section \<open>What lies in a workspace\<close>

datatype entry_kind = Entry_missing | Entry_symlink | Entry_file

record ws_entry =
  we_path :: string
  we_kind :: entry_kind
  we_digest :: "string option"
  we_size :: "nat option"

record ws_snapshot =
  wk_entries :: "ws_entry list"
  wk_ignoreSources :: "ws_entry list"
  wk_truncated :: bool

datatype lstat =
    St_missing
  | St_error string
  | St_dir
  | St_symlink "string + (string \<times> string)"
  | St_file "snap_error + (string \<times> nat)"
  | St_other

datatype real_path = Rp string | Rp_missing | Rp_notdir | Rp_error snap_error

record tree =
  tr_root :: "snap_error + string"
  tr_lstat :: "string \<Rightarrow> lstat"
  tr_real :: "string \<Rightarrow> real_path"
  tr_isFile :: "string \<Rightarrow> bool"
  tr_listed :: "snap_error + string list"
  tr_oldListed :: "string list \<Rightarrow> snap_error + string list"
  tr_ignore :: "snap_error + ws_entry list"

definition capture_entry :: "tree \<Rightarrow> string \<Rightarrow> string \<Rightarrow> snap_error + ws_entry option" where
  "capture_entry t base rel =
     (if length rel > snapshotPathBytes
      then Inl (mk_error ''snapshot_path_too_long''
             (''workspace path exceeds 1024 bytes: '' @ js_prefix 128 False rel))
      else case tr_lstat t rel of
             St_missing \<Rightarrow>
               Inr (Some \<lparr>we_path = rel, we_kind = Entry_missing, we_digest = None, we_size = None\<rparr>)
           | St_error m \<Rightarrow> Inl (mk_error ''snapshot_read_error''
               (''cannot inspect workspace path '' @ rel @ '': '' @ m))
           | St_dir \<Rightarrow> Inr None
           | St_symlink (Inl m) \<Rightarrow> Inl (mk_error ''snapshot_read_error''
               (''cannot resolve workspace symlink '' @ rel @ '': '' @ m))
           | St_symlink (Inr (target, targetReal)) \<Rightarrow>
               if \<not> isContained base targetReal
               then Inl (mk_error ''snapshot_symlink_escape''
                      (''workspace symlink escapes workspace: '' @ rel))
               else Inr (Some \<lparr>we_path = rel, we_kind = Entry_symlink,
                      we_digest = Some (''link:'' @ target @ '':'' @ targetReal), we_size = None\<rparr>)
           | St_file (Inl e) \<Rightarrow> Inl e
           | St_file (Inr (digest, bytes)) \<Rightarrow>
               Inr (Some \<lparr>we_path = rel, we_kind = Entry_file, we_digest = Some digest, we_size = Some bytes\<rparr>)
           | St_other \<Rightarrow> Inl (mk_error ''snapshot_unsupported_entry''
               (''unsupported workspace entry: '' @ rel)))"

definition too_large :: snap_error where
  "too_large = mk_error ''snapshot_too_large'' ''workspace snapshot exceeds 4096 entries''"

fun capture_entries :: "tree \<Rightarrow> string \<Rightarrow> nat \<Rightarrow> string list \<Rightarrow> snap_error + ws_entry list" where
  "capture_entries t base n [] = Inr []"
| "capture_entries t base n (p # ps) =
     (case capture_entry t base p of
        Inl e \<Rightarrow> Inl e
      | Inr None \<Rightarrow> capture_entries t base n ps
      | Inr (Some e) \<Rightarrow>
          if n \<ge> snapshotEntries then Inl too_large
          else map_sum id (Cons e) (capture_entries t base (Suc n) ps))"

definition captureWorkspaceEntries :: "tree \<Rightarrow> string \<Rightarrow> string list \<Rightarrow> snap_error + ws_entry list" where
  "captureWorkspaceEntries t base paths = capture_entries t base 0 paths"

text \<open>What git lists, less the controller's own directory and installed dependencies.\<close>

definition skipped_path :: "string \<Rightarrow> bool" where
  "skipped_path value \<longleftrightarrow>
     value = [] \<or> under_root RUNS_DIR_NAME value \<or> ''node_modules'' \<in> set (split_slash value)"

fun collect_paths :: "string list \<Rightarrow> string list \<Rightarrow> snap_error + string list" where
  "collect_paths found [] = Inr found"
| "collect_paths found (value # rest) =
     (if skipped_path value then collect_paths found rest
      else if length found \<ge> snapshotEntries then Inl too_large
      else collect_paths (if value \<in> set found then found else found @ [value]) rest)"

definition relevantWorkspacePaths :: "snap_error + string list \<Rightarrow> snap_error + string list" where
  "relevantWorkspacePaths git =
     (case git of Inl e \<Rightarrow> Inl e | Inr values \<Rightarrow> map_sum id sort (collect_paths [] values))"

definition entry_at :: "ws_entry list \<Rightarrow> string \<Rightarrow> ws_entry option" where
  "entry_at es path = find_last (\<lambda>e. we_path e = path) es"

definition changed_between :: "ws_entry list \<Rightarrow> ws_entry list \<Rightarrow> string list" where
  "changed_between before after =
     sort (filter (\<lambda>p. entry_at before p \<noteq> entry_at after p)
       (remdups (map we_path before @ map we_path after)))"

definition ignoreSourcesChanged :: "ws_entry list \<Rightarrow> ws_entry list \<Rightarrow> snap_error" where
  "ignoreSourcesChanged before after =
     mk_error ''snapshot_ignore_changed'' (''workspace ignore sources changed during worker execution: ''
       @ join_with '', '' (changed_between before after))"

definition captureWorkspaceSnapshot :: "tree \<Rightarrow> ws_entry list option \<Rightarrow> snap_error + ws_snapshot" where
  "captureWorkspaceSnapshot t expected =
     (case tr_root t of
        Inl e \<Rightarrow> Inl e
      | Inr base \<Rightarrow>
     (case tr_ignore t of
        Inl e \<Rightarrow> Inl e
      | Inr ignoreSources \<Rightarrow>
          if (case expected of None \<Rightarrow> False | Some es \<Rightarrow> es \<noteq> ignoreSources)
          then Inl (ignoreSourcesChanged (nullish expected []) ignoreSources)
          else (case relevantWorkspacePaths (tr_listed t) of
                  Inl e \<Rightarrow> Inl e
                | Inr paths \<Rightarrow>
                    map_sum id (\<lambda>es. \<lparr>wk_entries = es, wk_ignoreSources = ignoreSources, wk_truncated = False\<rparr>)
                      (captureWorkspaceEntries t base paths))))"

section \<open>The boundary a worker writes inside\<close>

definition path_join :: "string \<Rightarrow> string \<Rightarrow> string" where
  "path_join a b = below_root a @ b"

definition workspacePathComponents :: "string \<Rightarrow> string list" where
  "workspacePathComponents path = filter (\<lambda>c. c \<noteq> [] \<and> c \<noteq> ''.'') (split_slash path)"

fun walk_scope :: "tree \<Rightarrow> string \<Rightarrow> string \<Rightarrow> string list \<Rightarrow> string \<Rightarrow> snap_error + string" where
  "walk_scope t base path [] current = Inr current"
| "walk_scope t base path (c # cs) current =
     (case tr_real t (path_join current c) of
        Rp target \<Rightarrow>
          if \<not> isContained base target
          then Inl (mk_error ''scope_symlink_escape''
                 (''workspace scope path escapes workspace: '' @ path))
          else walk_scope t base path cs target
      | Rp_notdir \<Rightarrow> Inl (mk_error ''scope_invalid''
          (''workspace scope path is not a directory: '' @ path))
      | Rp_missing \<Rightarrow> Inr (fold (\<lambda>d a. path_join a d) (c # cs) current)
      | Rp_error e \<Rightarrow> Inl e)"

definition resolveScopePath :: "tree \<Rightarrow> string \<Rightarrow> string \<Rightarrow> snap_error + string" where
  "resolveScopePath t base path =
     map_sum id (\<lambda>current. if current = base then path else drop (length (below_root base)) current)
       (walk_scope t base path (workspacePathComponents path) base)"

definition expandScopePaths :: "tree \<Rightarrow> string \<Rightarrow> string list \<Rightarrow> snap_error + string list" where
  "expandScopePaths t base paths =
     map_sum id (uniq \<circ> concat)
       (try_map (\<lambda>path. map_sum id (\<lambda>r. if r = path then [path] else [path, r])
          (resolveScopePath t base path)) paths)"

definition isDeclaredScopePath :: "boundary \<Rightarrow> string \<Rightarrow> bool" where
  "isDeclaredScopePath allowed path \<longleftrightarrow>
     path \<in> set (bd_files allowed) \<or> path \<in> set (bd_fileRoots allowed) \<or>
     list_ex (\<lambda>base. base \<notin> set (bd_fileRoots allowed) \<and> under_root base path) (bd_roots allowed)"

definition scope_inconsistent :: "string \<Rightarrow> string \<Rightarrow> snap_error" where
  "scope_inconsistent kind what =
     mk_error ''scope_boundary_inconsistent'' (''persisted '' @ kind @ '' scope '' @ what)"

fun check_origins ::
  "string \<Rightarrow> string list \<Rightarrow> string list \<Rightarrow> (string \<times> string list) list
    \<Rightarrow> snap_error + (string \<times> string list) list" where
  "check_origins kind declared seen [] =
     (if length seen \<noteq> length declared \<or> list_ex (\<lambda>p. p \<notin> set seen) declared
      then Inl (scope_inconsistent kind ''origins do not match the declared scope'') else Inr [])"
| "check_origins kind declared seen ((raw, rawPaths) # rest) =
     (case normalizeScopePaths [raw] (kind @ ''Origins.literal'') of
        Inl e \<Rightarrow> Inl e
      | Inr literals \<Rightarrow>
     (case normalizeScopePaths rawPaths (kind @ ''Origins.paths'') of
        Inl e \<Rightarrow> Inl e
      | Inr paths \<Rightarrow>
          (let literal = hd literals
           in if literal \<in> set seen \<or> literal \<notin> set declared \<or> literal \<notin> set paths
              then Inl (scope_inconsistent kind ''origins do not match the declared scope'')
              else map_sum id (Cons (literal, uniq paths))
                     (check_origins kind declared (literal # seen) rest))))"

definition validateOrigins ::
  "string \<Rightarrow> string list \<Rightarrow> string list \<Rightarrow> (string \<times> string list) list
    \<Rightarrow> snap_error + (string \<times> string list) list" where
  "validateOrigins kind declared boundedPaths origins =
     (case check_origins kind declared [] origins of
        Inl e \<Rightarrow> Inl e
      | Inr checked \<Rightarrow>
          (let actual = uniq boundedPaths; expected = uniq (concat (map snd checked))
           in if length actual \<noteq> length expected \<or> list_ex (\<lambda>p. p \<notin> set expected) actual
              then Inl (scope_inconsistent kind ''boundary paths do not match their origins'')
              else Inr checked))"

definition validateWorkspaceScopeBoundary ::
  "tree \<Rightarrow> boundary \<Rightarrow> string list \<Rightarrow> string list \<Rightarrow> snap_error + boundary" where
  "validateWorkspaceScopeBoundary t b files' roots' =
     (case tr_root t of Inl e \<Rightarrow> Inl e | Inr base \<Rightarrow>
     (case normalizeScopePaths (bd_files b) ''boundary.files'' of Inl e \<Rightarrow> Inl e | Inr files \<Rightarrow>
     (case normalizeScopePaths (bd_roots b) ''boundary.roots'' of Inl e \<Rightarrow> Inl e | Inr roots \<Rightarrow>
     (case normalizeScopePaths (bd_fileRoots b) ''boundary.fileRoots'' of Inl e \<Rightarrow> Inl e | Inr fileRoots \<Rightarrow>
      if length files + length roots + length fileRoots + length (bd_fileOrigins b) +
         length (bd_rootOrigins b) > snapshotEntries
      then Inl (mk_error ''scope_boundary_too_large'' ''persisted worker scope boundary is too large'')
      else if list_ex (\<lambda>p. p \<notin> set roots) fileRoots
      then Inl (mk_error ''scope_boundary_invalid''
             ''persisted worker scope file roots must be declared roots'')
      else
     (case normalizeScopePaths files' ''files'' of Inl e \<Rightarrow> Inl e | Inr declaredFiles \<Rightarrow>
     (case normalizeScopePaths roots' ''roots'' of Inl e \<Rightarrow> Inl e | Inr declaredRoots \<Rightarrow>
     (case validateOrigins ''file'' declaredFiles files (bd_fileOrigins b) of Inl e \<Rightarrow> Inl e | Inr fileOrigins \<Rightarrow>
     (case validateOrigins ''root'' declaredRoots roots (bd_rootOrigins b) of Inl e \<Rightarrow> Inl e | Inr rootOrigins \<Rightarrow>
        Inr \<lparr>bd_files = uniq files, bd_roots = uniq roots, bd_fileRoots = uniq fileRoots,
             bd_fileOrigins = fileOrigins, bd_rootOrigins = rootOrigins\<rparr>))))))))"

text \<open>Every declared path with what it resolves to now; a root that is a file covers itself only.\<close>

definition scope_origins :: "tree \<Rightarrow> string \<Rightarrow> string list \<Rightarrow> snap_error + (string \<times> string list) list" where
  "scope_origins t base declared =
     try_map (\<lambda>literal. map_sum id (Pair literal) (expandScopePaths t base [literal])) declared"

definition captureWorkspaceScope :: "tree \<Rightarrow> string list \<Rightarrow> string list \<Rightarrow> snap_error + boundary" where
  "captureWorkspaceScope t files roots =
     (case tr_root t of Inl e \<Rightarrow> Inl e | Inr base \<Rightarrow>
     (case normalizeScopePaths files ''files'' of Inl e \<Rightarrow> Inl e | Inr declaredFiles \<Rightarrow>
     (case normalizeScopePaths roots ''roots'' of Inl e \<Rightarrow> Inl e | Inr declaredRoots \<Rightarrow>
     (case scope_origins t base declaredFiles of Inl e \<Rightarrow> Inl e | Inr fileOrigins \<Rightarrow>
     (case scope_origins t base declaredRoots of Inl e \<Rightarrow> Inl e | Inr rootOrigins \<Rightarrow>
        (let rootPaths = uniq (concat (map snd rootOrigins))
         in validateWorkspaceScopeBoundary t
              \<lparr>bd_files = uniq (concat (map snd fileOrigins)), bd_roots = rootPaths,
               bd_fileRoots = filter (\<lambda>p. tr_isFile t (path_join base p)) rootPaths,
               bd_fileOrigins = fileOrigins, bd_rootOrigins = rootOrigins\<rparr>
              declaredFiles declaredRoots))))))"

section \<open>What an attempt changed\<close>

text \<open>The scope of a comparison: the declared paths, and the boundary that was persisted for them.\<close>

definition allowed_paths ::
  "tree \<Rightarrow> string \<Rightarrow> boundary option \<Rightarrow> string list \<Rightarrow> string list \<Rightarrow> snap_error + boundary" where
  "allowed_paths t base persisted files roots =
     (case persisted of
        Some b \<Rightarrow> validateWorkspaceScopeBoundary t b files roots
      | None \<Rightarrow>
         (case normalizeScopePaths files ''files'' of Inl e \<Rightarrow> Inl e | Inr declaredFiles \<Rightarrow>
         (case expandScopePaths t base declaredFiles of Inl e \<Rightarrow> Inl e | Inr fs \<Rightarrow>
         (case normalizeScopePaths roots ''roots'' of Inl e \<Rightarrow> Inl e | Inr declaredRoots \<Rightarrow>
         (case expandScopePaths t base declaredRoots of Inl e \<Rightarrow> Inl e | Inr rs \<Rightarrow>
            Inr \<lparr>bd_files = fs, bd_roots = rs, bd_fileRoots = [], bd_fileOrigins = [],
                 bd_rootOrigins = []\<rparr>)))))"

text \<open>
  A declared edit of an ignore source is compared under the rules that held before it, so it
  cannot hide a write: the old rules list the paths, and the changed sources are added.
\<close>

definition observable_paths :: "tree \<Rightarrow> string list \<Rightarrow> snap_error + string list" where
  "observable_paths t changedSources =
     (if changedSources = [] then relevantWorkspacePaths (tr_listed t)
      else map_sum id (\<lambda>paths. sort (remdups (paths @
               filter (\<lambda>p. \<not> starts_with p ''.git/'') changedSources)))
             (relevantWorkspacePaths (tr_oldListed t changedSources)))"

record ws_change =
  wc_after :: ws_snapshot
  wc_changedPaths :: "string list"
  wc_unexpectedPaths :: "string list"

definition unexpected_of :: "boundary \<Rightarrow> string list \<Rightarrow> string list" where
  "unexpected_of allowed changedPaths =
     (let fileRoots = bd_fileRoots allowed;
          directoryRoots = filter (\<lambda>r. r \<notin> set fileRoots) (bd_roots allowed)
      in filter (\<lambda>p. p \<notin> set (bd_files allowed) \<and> p \<notin> set fileRoots \<and>
           \<not> list_ex (\<lambda>r. under_root r p) directoryRoots) changedPaths)"

definition compareWorkspaceSnapshot ::
  "tree \<Rightarrow> ws_snapshot \<Rightarrow> boundary option \<Rightarrow> string list \<Rightarrow> string list \<Rightarrow> snap_error + ws_change" where
  "compareWorkspaceSnapshot t before persisted files roots =
     (if wk_truncated before
      then Inl (mk_error ''snapshot_invalid'' ''workspace baseline snapshot is missing or truncated'')
      else
     (case tr_root t of Inl e \<Rightarrow> Inl e | Inr base \<Rightarrow>
     (case allowed_paths t base persisted files roots of Inl e \<Rightarrow> Inl e | Inr allowed \<Rightarrow>
     (case tr_ignore t of Inl e \<Rightarrow> Inl e | Inr sources \<Rightarrow>
       (let changedSources = changed_between (wk_ignoreSources before) sources
        in if list_ex (\<lambda>p. \<not> isDeclaredScopePath allowed p) changedSources
           then Inl (ignoreSourcesChanged (wk_ignoreSources before) sources)
           else
          (case observable_paths t changedSources of Inl e \<Rightarrow> Inl e | Inr paths \<Rightarrow>
          (case captureWorkspaceEntries t base paths of Inl e \<Rightarrow> Inl e | Inr entries \<Rightarrow>
             (let changedPaths = changed_between (wk_entries before) entries
              in Inr \<lparr>wc_after = \<lparr>wk_entries = entries, wk_ignoreSources = sources, wk_truncated = False\<rparr>,
                      wc_changedPaths = changedPaths,
                      wc_unexpectedPaths = unexpected_of allowed changedPaths\<rparr>))))))))"

text \<open>Whether a path holds ignore rules; the directories git or the controller own never do.\<close>

definition ROOT_IGNORE_SOURCES :: "string list" where
  "ROOT_IGNORE_SOURCES = [''.faberunignore'', ''.gitignore'', ''.git/config'']"

definition SKIPPED_SOURCE_DIRS :: "string list" where
  "SKIPPED_SOURCE_DIRS = [''.git'', RUNS_DIR_NAME, ''node_modules'', ''.venv'', ''venv'']"

definition isIgnoreSource :: "string \<Rightarrow> bool" where
  "isIgnoreSource path =
     (let slashed = map (\<lambda>c. if c = CHR 0x5C then CHR ''/'' else c) path;
          normalized = (if starts_with slashed ''./'' then drop 2 slashed else slashed);
          segments = split_slash normalized
      in if normalized \<in> set ROOT_IGNORE_SOURCES \<or> normalized = ''.git/info/exclude'' \<or> normalized = ''.git''
         then True
         else if list_ex (\<lambda>s. s \<in> set SKIPPED_SOURCE_DIRS) segments \<or>
                 hd segments \<in> {''.claude'', ''.codex''}
         then False
         else last_opt (filter (\<lambda>s. s \<noteq> []) segments) = Some ''.gitignore'')"

section \<open>Boundaries\<close>

lemma uniq_simps [simp]: "set (uniq xs) = set xs" "distinct (uniq xs)" "length (uniq xs) \<le> length xs"
  using length_remdups_leq [of "rev xs"] by (simp_all add: uniq_def)

lemma uniq_distinct [simp]: "distinct xs \<Longrightarrow> uniq xs = xs"
  by (simp add: uniq_def distinct_remdups_id)

lemma map_sum_Cons_iff: "map_sum id (Cons y) r = Inr ys \<longleftrightarrow> (\<exists>zs. ys = y # zs \<and> r = Inr zs)"
  by (cases r) auto

lemma try_map_iff: "try_map f xs = Inr ys \<longleftrightarrow> list_all2 (\<lambda>x y. f x = Inr y) xs ys"
  by (induction xs arbitrary: ys) (auto simp: list_all2_Cons1 map_sum_Cons_iff split: sum.splits)

lemma try_map_fixed: "(\<And>x. x \<in> set xs \<Longrightarrow> f x = Inr x) \<Longrightarrow> try_map f xs = Inr xs"
  by (simp add: try_map_iff list_all2_same)

lemma split_slash_nonempty [simp]: "split_slash s \<noteq> []"
  by (induction s) (auto split: list.splits)

lemma split_slash_append: "split_slash (a @ CHR ''/'' # b) = split_slash a @ split_slash b"
proof (induction a)
  case (Cons c a)
  obtain w ws where "split_slash a = w # ws" by (meson neq_Nil_conv split_slash_nonempty)
  with Cons show ?case by simp
qed simp

lemma strip_split: "\<exists>n. p = strip_slashes p @ replicate n (CHR ''/'')"
proof -
  define t where "t = takeWhile (\<lambda>c. c = CHR ''/'') (rev p)"
  have "rev p = t @ dropWhile (\<lambda>c. c = CHR ''/'') (rev p)" by (simp add: t_def)
  then have "p = strip_slashes p @ rev t"
    unfolding strip_slashes_def by (metis rev_append rev_rev_ident)
  moreover have "t = replicate (length t) (CHR ''/'')"
    unfolding t_def by (auto intro: replicate_eqI dest: set_takeWhileD)
  ultimately show ?thesis by (metis rev_replicate)
qed

lemma strip_strip [simp]: "strip_slashes (strip_slashes p) = strip_slashes p"
  by (simp add: strip_slashes_def)

lemma drive_append: "drive_letter p \<Longrightarrow> drive_letter (p @ q)"
  by (auto simp: drive_letter_def split: list.splits)

lemma starts_slash: "starts_with p ''/'' \<Longrightarrow> starts_with (p @ q) ''/''"
  by (cases p) (auto simp: starts_with_def)

lemma bad_strip:
  assumes "bad_scope_path (strip_slashes p)" and "strip_slashes p \<noteq> []"
  shows "bad_scope_path p"
proof -
  obtain n where p: "p = strip_slashes p @ replicate n (CHR ''/'')" using strip_split by blast
  have "''..'' \<in> set (split_slash q) \<Longrightarrow> ''..'' \<in> set (split_slash (q @ replicate n (CHR ''/'')))" for q
    by (cases n) (auto simp: split_slash_append)
  then have "bad_scope_path (q @ replicate n (CHR ''/''))" if "bad_scope_path q" "q \<noteq> []" for q
    using that drive_append starts_slash unfolding bad_scope_path_def by blast
  from this [OF assms] show ?thesis using p by metis
qed

lemma normalize_fixed: "normalize_path l p = Inr q \<Longrightarrow> normalize_path l' q = Inr q"
  using bad_strip [of p] by (auto simp: normalize_path_def Let_def split: if_splits)

lemma normalized_fixed:
  assumes "normalizeScopePaths ps l = Inr qs" and "set qs' \<subseteq> set qs"
  shows "normalizeScopePaths qs' l' = Inr qs'"
  unfolding normalizeScopePaths_def
proof (rule try_map_fixed)
  fix x assume "x \<in> set qs'"
  with assms(2) obtain i where i: "i < length qs" "x = qs ! i" by (metis in_set_conv_nth subsetD)
  with assms(1) have "normalize_path l (ps ! i) = Inr x"
    by (simp add: normalizeScopePaths_def try_map_iff list_all2_conv_all_nth)
  then show "normalize_path l' x = Inr x" by (rule normalize_fixed)
qed

lemma normalized_one: "normalizeScopePaths [p] l = Inr qs \<Longrightarrow> \<exists>q. qs = [q]"
  by (auto simp: normalizeScopePaths_def split: sum.splits)

lemma check_origins_again:
  "check_origins kind declared seen os = Inr os' \<Longrightarrow>
     check_origins kind declared seen os' = Inr os' \<and> length os' = length os"
proof (induction os arbitrary: seen os')
  case (Cons o' os)
  obtain raw rawPaths where o': "o' = (raw, rawPaths)" by (cases o')
  from Cons.prems obtain literals paths where
    l: "normalizeScopePaths [raw] (kind @ ''Origins.literal'') = Inr literals" and
    p: "normalizeScopePaths rawPaths (kind @ ''Origins.paths'') = Inr paths"
    by (auto simp: o' Let_def split: sum.splits if_splits)
  obtain lit where lit: "literals = [lit]" using normalized_one [OF l] by blast
  from Cons.prems obtain os2 where
    c: "\<not> (lit \<in> set seen \<or> lit \<notin> set declared \<or> lit \<notin> set paths)" and
    r: "check_origins kind declared (lit # seen) os = Inr os2" and os': "os' = (lit, uniq paths) # os2"
    unfolding o' check_origins.simps l p lit
    by (auto simp: Let_def map_sum_Cons_iff split: if_splits)
  have "normalizeScopePaths [lit] (kind @ ''Origins.literal'') = Inr [lit]"
    using normalized_fixed [OF l, of "[lit]"] lit by simp
  moreover have "normalizeScopePaths (uniq paths) (kind @ ''Origins.paths'') = Inr (uniq paths)"
    using normalized_fixed [OF p, of "uniq paths"] by simp
  ultimately show ?case using Cons.IH [OF r] c by (simp add: os' Let_def)
qed (auto split: if_splits)

lemma validateOrigins_again:
  assumes "validateOrigins kind declared ps os = Inr os'"
  shows "validateOrigins kind declared (uniq ps) os' = Inr os'" "length os' = length os"
  using assms check_origins_again [of kind declared "[]" os]
  by (auto simp: validateOrigins_def Let_def split: sum.splits if_splits)

lemma validated_boundary:
  assumes "validateWorkspaceScopeBoundary t b files roots = Inr b'"
  obtains fs rs frs dfs drs where "normalizeScopePaths (bd_files b) ''boundary.files'' = Inr fs"
    "normalizeScopePaths (bd_roots b) ''boundary.roots'' = Inr rs"
    "normalizeScopePaths (bd_fileRoots b) ''boundary.fileRoots'' = Inr frs"
    "normalizeScopePaths files ''files'' = Inr dfs" "normalizeScopePaths roots ''roots'' = Inr drs"
    "length fs + length rs + length frs + length (bd_fileOrigins b) + length (bd_rootOrigins b) \<le> snapshotEntries"
    "set frs \<subseteq> set rs"
    "validateOrigins ''file'' dfs fs (bd_fileOrigins b) = Inr (bd_fileOrigins b')"
    "validateOrigins ''root'' drs rs (bd_rootOrigins b) = Inr (bd_rootOrigins b')"
    "bd_files b' = uniq fs" "bd_roots b' = uniq rs" "bd_fileRoots b' = uniq frs"
proof -
  from assms show thesis
    by (auto intro: that simp: validateWorkspaceScopeBoundary_def list_ex_iff split: sum.splits if_splits)
qed

text \<open>A boundary that validation accepted is accepted again, unchanged, whatever the file system holds.\<close>

lemma validated_again:
  assumes v: "validateWorkspaceScopeBoundary t b files roots = Inr b'" and "tr_root t' = Inr base"
    and "normalizeScopePaths files' ''files'' = normalizeScopePaths files ''files''"
    and "normalizeScopePaths roots' ''roots'' = normalizeScopePaths roots ''roots''"
  shows "validateWorkspaceScopeBoundary t' b' files' roots' = Inr b'"
proof -
  from v obtain fs rs frs dfs drs where n: "normalizeScopePaths (bd_files b) ''boundary.files'' = Inr fs"
    "normalizeScopePaths (bd_roots b) ''boundary.roots'' = Inr rs"
    "normalizeScopePaths (bd_fileRoots b) ''boundary.fileRoots'' = Inr frs"
    and d: "normalizeScopePaths files ''files'' = Inr dfs" "normalizeScopePaths roots ''roots'' = Inr drs"
    and size: "length fs + length rs + length frs + length (bd_fileOrigins b) + length (bd_rootOrigins b) \<le> snapshotEntries"
    and sub: "set frs \<subseteq> set rs"
    and o': "validateOrigins ''file'' dfs fs (bd_fileOrigins b) = Inr (bd_fileOrigins b')"
      "validateOrigins ''root'' drs rs (bd_rootOrigins b) = Inr (bd_rootOrigins b')"
    and b': "bd_files b' = uniq fs" "bd_roots b' = uniq rs" "bd_fileRoots b' = uniq frs"
    by (rule validated_boundary)
  have n': "normalizeScopePaths (uniq fs) ''boundary.files'' = Inr (uniq fs)"
    "normalizeScopePaths (uniq rs) ''boundary.roots'' = Inr (uniq rs)"
    "normalizeScopePaths (uniq frs) ''boundary.fileRoots'' = Inr (uniq frs)"
    using normalized_fixed [OF n(1), of "uniq fs"] normalized_fixed [OF n(2), of "uniq rs"]
      normalized_fixed [OF n(3), of "uniq frs"] by simp_all
  have "length (uniq fs) + length (uniq rs) + length (uniq frs) + length (bd_fileOrigins b') +
      length (bd_rootOrigins b') \<le> snapshotEntries"
    using size validateOrigins_again(2) [OF o'(1)] validateOrigins_again(2) [OF o'(2)]
      uniq_simps(3) [of fs] uniq_simps(3) [of rs] uniq_simps(3) [of frs] by linarith
  moreover have "\<not> list_ex (\<lambda>p. p \<notin> set (uniq rs)) (uniq frs)" using sub by (auto simp: list_ex_iff)
  ultimately show ?thesis
    using assms(2-4) d n' validateOrigins_again(1) [OF o'(1)] validateOrigins_again(1) [OF o'(2)]
    by (auto simp: validateWorkspaceScopeBoundary_def b' intro!: boundary.equality)
qed

lemma checked_literals:
  "check_origins kind declared seen os = Inr os' \<Longrightarrow> p \<in> set declared \<Longrightarrow>
     p \<in> set seen \<or> p \<in> set (concat (map snd os'))"
proof (induction os arbitrary: seen os')
  case (Cons o' os)
  obtain raw rawPaths where o': "o' = (raw, rawPaths)" by (cases o')
  from Cons.prems(1) obtain literals paths os2 where
    "\<not> (hd literals \<in> set seen \<or> hd literals \<notin> set declared \<or> hd literals \<notin> set paths)" and
    r: "check_origins kind declared (hd literals # seen) os = Inr os2" and
    "os' = (hd literals, uniq paths) # os2"
    unfolding o' by (auto simp: Let_def map_sum_Cons_iff split: sum.splits if_splits)
  with Cons.IH [OF r Cons.prems(2)] show ?case by auto
qed (auto simp: list_ex_iff split: if_splits)

lemma validated_origins_cover:
  assumes "validateOrigins kind declared ps os = Inr os'"
  shows "set declared \<subseteq> set ps"
proof
  fix p assume p: "p \<in> set declared"
  from assms have c: "check_origins kind declared [] os = Inr os'"
    and len: "length (uniq ps) = length (uniq (concat (map snd os')))"
    and sub: "set (uniq ps) \<subseteq> set (uniq (concat (map snd os')))"
    by (auto simp: validateOrigins_def Let_def list_ex_iff split: sum.splits if_splits)
  have "card (set (uniq (concat (map snd os')))) \<le> card (set (uniq ps))"
    using len by (metis distinct_card order_refl uniq_simps(2))
  with sub have "set (uniq ps) = set (uniq (concat (map snd os')))"
    by (intro card_seteq) simp_all
  with checked_literals [OF c p] show "p \<in> set ps" by simp
qed

lemma normalized_strip:
  assumes "normalizeScopePaths ps l = Inr qs"
  shows "qs = map strip_slashes ps"
  using assms unfolding normalizeScopePaths_def
  by (induction ps arbitrary: qs)
    (auto simp: map_sum_Cons_iff normalize_path_def Let_def split: sum.splits if_splits)

lemma under_root_below: "under_root r (r @ CHR ''/'' # p)"
  by (simp add: under_root_def starts_with_def)

text \<open>
  The boundary captured before an attempt is the one every later comparison reads back, and it
  allows every declared file, every declared root, and everything below a root that is a directory.
\<close>

lemma scope_boundary_persists:
  assumes "captureWorkspaceScope t files roots = Inr b" and "tr_root t' = Inr base"
  shows "validateWorkspaceScopeBoundary t' b files roots = Inr b"
    "f \<in> set files \<union> set roots \<Longrightarrow> isDeclaredScopePath b (strip_slashes f)"
    "r \<in> set roots \<Longrightarrow> strip_slashes r \<notin> set (bd_fileRoots b) \<Longrightarrow>
       isDeclaredScopePath b (strip_slashes r @ ''/'' @ p)"
proof -
  from assms(1) obtain fs rs b0 where n: "normalizeScopePaths files ''files'' = Inr fs"
    "normalizeScopePaths roots ''roots'' = Inr rs"
    and v: "validateWorkspaceScopeBoundary t b0 fs rs = Inr b"
    by (auto simp: captureWorkspaceScope_def Let_def split: sum.splits)
  have twice: "normalizeScopePaths fs ''files'' = Inr fs" "normalizeScopePaths rs ''roots'' = Inr rs"
    using normalized_fixed [OF n(1)] normalized_fixed [OF n(2)] by simp_all
  show "validateWorkspaceScopeBoundary t' b files roots = Inr b"
    by (rule validated_again [OF v assms(2)]) (simp_all add: n twice)
  from v obtain gs hs where o': "validateOrigins ''file'' fs gs (bd_fileOrigins b0) = Inr (bd_fileOrigins b)"
    "validateOrigins ''root'' rs hs (bd_rootOrigins b0) = Inr (bd_rootOrigins b)"
    "bd_files b = uniq gs" "bd_roots b = uniq hs"
    by (rule validated_boundary) (auto simp: twice)
  then have cover: "set (map strip_slashes files) \<subseteq> set (bd_files b)"
    "set (map strip_slashes roots) \<subseteq> set (bd_roots b)"
    using validated_origins_cover [OF o'(1)] validated_origins_cover [OF o'(2)]
      normalized_strip [OF n(1)] normalized_strip [OF n(2)] by simp_all
  show "f \<in> set files \<union> set roots \<Longrightarrow> isDeclaredScopePath b (strip_slashes f)"
    using cover by (auto simp: isDeclaredScopePath_def list_ex_iff under_root_def)
  show "r \<in> set roots \<Longrightarrow> strip_slashes r \<notin> set (bd_fileRoots b) \<Longrightarrow>
      isDeclaredScopePath b (strip_slashes r @ ''/'' @ p)"
    using cover under_root_below [of "strip_slashes r" p]
    by (auto simp: isDeclaredScopePath_def list_ex_iff)
qed

section \<open>Comparisons\<close>

lemma entry_at_None: "entry_at es p = None \<longleftrightarrow> p \<notin> set (map we_path es)"
  by (auto simp: entry_at_def find_last_None_iff)

lemma changed_between_iff [simp]:
  "p \<in> set (changed_between a b) \<longleftrightarrow> entry_at a p \<noteq> entry_at b p"
  using entry_at_None [of a p] entry_at_None [of b p] by (auto simp: changed_between_def)

lemma changed_between_sorted [simp]: "sorted (changed_between a b)" "distinct (changed_between a b)"
  by (simp_all add: changed_between_def)

lemma unexpected_of_filter: "unexpected_of allowed ps = filter (\<lambda>p. \<not> isDeclaredScopePath allowed p) ps"
  by (auto simp: unexpected_of_def isDeclaredScopePath_def Let_def list_ex_iff intro!: filter_cong)

text \<open>
  A comparison reports every path that differs, in order and once, and calls unexpected exactly
  those outside what the boundary allows; and it refuses to answer when an ignore source outside
  the boundary changed.
\<close>

lemma comparison_exact:
  assumes "compareWorkspaceSnapshot t before persisted files roots = Inr c"
  obtains base allowed where "tr_root t = Inr base" "allowed_paths t base persisted files roots = Inr allowed"
    "wc_changedPaths c = changed_between (wk_entries before) (wk_entries (wc_after c))"
    "wc_unexpectedPaths c = filter (\<lambda>p. \<not> isDeclaredScopePath allowed p) (wc_changedPaths c)"
    "\<And>p. entry_at (wk_ignoreSources before) p \<noteq> entry_at (wk_ignoreSources (wc_after c)) p \<Longrightarrow>
       isDeclaredScopePath allowed p"
  using assms
  by (auto simp: compareWorkspaceSnapshot_def Let_def unexpected_of_filter list_ex_iff
      split: sum.splits if_splits)

lemmas workspace_evals = validateWorkspaceScopeBoundary_def normalizeScopePaths_def normalize_path_def
  bad_scope_path_def drive_letter_def strip_slashes_def starts_with_def Let_def snapshotPathBytes_def
  snapshotEntries_def validateOrigins_def uniq_def compareWorkspaceSnapshot_def allowed_paths_def
  changed_between_def observable_paths_def relevantWorkspacePaths_def skipped_path_def under_root_def
  RUNS_DIR_NAME_def captureWorkspaceEntries_def capture_entry_def entry_at_def find_last_def unexpected_of_def

text \<open>
  C15. The boundary captured before an attempt is the one its comparison applies, whatever the workspace
  looks like by then: the comparison reports exactly the paths whose entries differ, calls unexpected
  exactly those outside the captured boundary, and never so a declared file, a declared root, or anything
  below a root that was not a file when it was captured.
\<close>

theorem captured_boundary_decides:
  assumes "captureWorkspaceScope t files roots = Inr b"
    and "compareWorkspaceSnapshot t' before (Some b) files roots = Inr c"
  shows "(p \<in> set (wc_changedPaths c) \<longleftrightarrow>
      entry_at (wk_entries before) p \<noteq> entry_at (wk_entries (wc_after c)) p) \<and>
    (p \<in> set (wc_unexpectedPaths c) \<longleftrightarrow> p \<in> set (wc_changedPaths c) \<and> \<not> isDeclaredScopePath b p) \<and>
    (f \<in> set files \<union> set roots \<longrightarrow> strip_slashes f \<notin> set (wc_unexpectedPaths c)) \<and>
    (r \<in> set roots \<longrightarrow> strip_slashes r \<notin> set (bd_fileRoots b) \<longrightarrow>
      strip_slashes r @ ''/'' @ q \<notin> set (wc_unexpectedPaths c))"
proof -
  from assms(2) obtain base allowed where c: "tr_root t' = Inr base"
    "allowed_paths t' base (Some b) files roots = Inr allowed"
    "wc_changedPaths c = changed_between (wk_entries before) (wk_entries (wc_after c))"
    "wc_unexpectedPaths c = filter (\<lambda>p. \<not> isDeclaredScopePath allowed p) (wc_changedPaths c)"
    by (rule comparison_exact)
  note kept = scope_boundary_persists [OF assms(1) c(1)]
  have "allowed = b" using c(2) kept(1) by (simp add: allowed_paths_def)
  with c(3,4) kept(2,3) show ?thesis by auto
qed

definition sample_tree :: tree where
  "sample_tree = \<lparr>tr_root = Inr ''/wt/a'',
     tr_lstat = (\<lambda>p. St_file (Inr (''new'', 3))), tr_real = (\<lambda>p. Rp p), tr_isFile = (\<lambda>p. True),
     tr_listed = Inr [''src/a.mjs''], tr_oldListed = (\<lambda>ps. Inr []), tr_ignore = Inr []\<rparr>"

theorem captured_boundary_decides_witness:
  "\<exists>b c. captureWorkspaceScope sample_tree [''src/a.mjs''] [] = Inr b \<and>
     compareWorkspaceSnapshot (sample_tree\<lparr>tr_listed := Inr [''src/a.mjs'', ''x'']\<rparr>)
       \<lparr>wk_entries = [], wk_ignoreSources = [], wk_truncated = False\<rparr> (Some b) [''src/a.mjs''] [] = Inr c \<and>
     ''src/a.mjs'' \<in> set (wc_changedPaths c) \<and> ''src/a.mjs'' \<notin> set (wc_unexpectedPaths c) \<and>
     ''x'' \<in> set (wc_unexpectedPaths c)"
proof -
  let ?b = "\<lparr>bd_files = [''src/a.mjs''], bd_roots = [], bd_fileRoots = [],
      bd_fileOrigins = [(''src/a.mjs'', [''src/a.mjs''])], bd_rootOrigins = []\<rparr>"
  have b: "captureWorkspaceScope sample_tree [''src/a.mjs''] [] = Inr ?b"
    by (simp add: sample_tree_def workspace_evals captureWorkspaceScope_def scope_origins_def
        expandScopePaths_def resolveScopePath_def workspacePathComponents_def path_join_def below_root_def
        isContained_def)
  have "\<exists>c. compareWorkspaceSnapshot (sample_tree\<lparr>tr_listed := Inr [''src/a.mjs'', ''x'']\<rparr>)
       \<lparr>wk_entries = [], wk_ignoreSources = [], wk_truncated = False\<rparr> (Some ?b) [''src/a.mjs''] [] = Inr c \<and>
     ''x'' \<in> set (wc_unexpectedPaths c) \<and> ''src/a.mjs'' \<in> set (wc_changedPaths c)"
    by (simp add: sample_tree_def workspace_evals)
  then obtain c where c: "compareWorkspaceSnapshot (sample_tree\<lparr>tr_listed := Inr [''src/a.mjs'', ''x'']\<rparr>)
       \<lparr>wk_entries = [], wk_ignoreSources = [], wk_truncated = False\<rparr> (Some ?b) [''src/a.mjs''] [] = Inr c"
    "''x'' \<in> set (wc_unexpectedPaths c)" "''src/a.mjs'' \<in> set (wc_changedPaths c)" by blast
  with captured_boundary_decides [OF b c(1), of "''x''" "''src/a.mjs''" "''src/a.mjs''" "''y''"] b show ?thesis
    by (auto simp: workspace_evals)
qed

end
