(* ===== verification/Scope.thy ===== *)
theory Scope
  imports Workspace Settlement
begin

text \<open>
  Whether an attempt wrote where it may (\<open>src/engine/scope.mjs\<close>): the gate a closed worker goes
  through, the same question asked of a persisted attempt after a crash, and what an interrupted
  attempt whose effect nobody saw may be turned into.

  The argument \<open>outlook\<close> holds what the machine answers: the workspace of the attempt as a \<open>tree\<close>,
  its absolute path, the snapshots persisted beside the prompts, the receipts read from the tail
  of an invocation's output and the bench of its verification. An error without a code has the
  empty one.
\<close>

record outlook =
  ol_tree :: tree
  ol_workspace :: string
  ol_read :: "string \<Rightarrow> snap_error + ws_snapshot"
  ol_receipts :: "invocation option \<Rightarrow> (string \<times> string) list"
  ol_bench :: bench

record job =
  jb_invocation :: invocation
  jb_runtime :: string
  jb_exitCode :: "int option"
  jb_phase :: role
  jb_spawnError :: "string option"
  jb_materialization :: bool
  jb_baseline :: "ws_snapshot option"
  jb_checked :: bool
  jb_violation :: bool

section \<open>The boundary and the recorded scope\<close>

text \<open>The first 64 paths of each kind, with the counts of all.\<close>

definition boundedScope :: "ws_change \<Rightarrow> boundary \<Rightarrow> scope" where
  "boundedScope change b =
     \<lparr>sc_changedPathCount = Some (length (wc_changedPaths change)),
      sc_changedPaths = Some (take 64 (wc_changedPaths change)),
      sc_unexpectedPaths = take 64 (wc_unexpectedPaths change),
      sc_unexpectedPathCount = Some (length (wc_unexpectedPaths change)),
      sc_boundary = Some b,
      sc_truncated = (length (wc_changedPaths change) > 64 \<or> length (wc_unexpectedPaths change) > 64)\<rparr>"

definition readBoundary :: "tree \<Rightarrow> node \<Rightarrow> snapshot \<Rightarrow> snap_error + boundary" where
  "readBoundary t node s =
     (case Option.bind (ns_scope s) sc_boundary of
        None \<Rightarrow> Inl (mk_error ''scope_boundary_missing''
                  (''node '' @ nd_id node @ '' has no persisted worker scope boundary''))
      | Some b \<Rightarrow> validateWorkspaceScopeBoundary t b (nd_writeFiles node) (nd_writeRoots node))"

definition baseline_of :: "outlook \<Rightarrow> string \<Rightarrow> ws_snapshot option \<Rightarrow> string option \<Rightarrow> snap_error + ws_snapshot" where
  "baseline_of ol label given path =
     (case given of
        Some b \<Rightarrow> Inr b
      | None \<Rightarrow> (case Option.bind path nonempty of
            None \<Rightarrow> Inl (mk_error ''scope_snapshot_missing'' (label @ '' snapshot is missing''))
          | Some p \<Rightarrow> ol_read ol p))"

definition scope_code :: "snap_error \<Rightarrow> string" where
  "scope_code e = nullish (nonempty (er_code e)) ''scope_snapshot_invalid''"

definition scope_error :: "snap_error \<Rightarrow> snap_error" where
  "scope_error e = mk_error (scope_code e) (nullish (excerpt (er_message e)) [])"

text \<open>The comparison of an attempt's workspace with what it held before, inside its boundary.\<close>

definition scope_change ::
  "outlook \<Rightarrow> node \<Rightarrow> snapshot \<Rightarrow> snap_error + ws_snapshot \<Rightarrow> snap_error + (boundary \<times> ws_change)" where
  "scope_change ol node s baseline =
     (case baseline of
        Inl e \<Rightarrow> Inl e
      | Inr before \<Rightarrow>
     (case readBoundary (ol_tree ol) node s of
        Inl e \<Rightarrow> Inl e
      | Inr b \<Rightarrow>
          map_sum id (Pair b)
            (compareWorkspaceSnapshot (ol_tree ol) before (Some b) (nd_writeFiles node) (nd_writeRoots node))))"

section \<open>Paths a proof cites\<close>

record citation =
  ci_tokens :: "string list"
  ci_cwd :: string
  ci_literal :: bool
  ci_citation :: string

definition dod_citation :: "command list \<Rightarrow> dod_item \<Rightarrow> citation list" where
  "dod_citation commands item =
     (case dod_proof item of
        None \<Rightarrow> []
      | Some (Proof_path, ref) \<Rightarrow> [\<lparr>ci_tokens = [ref], ci_cwd = ''.'', ci_literal = True,
          ci_citation = dod_id item @ '' path proof''\<rparr>]
      | Some (Proof_command, ref) \<Rightarrow> [\<lparr>ci_tokens = shellWords ref, ci_cwd = ''.'', ci_literal = False,
          ci_citation = dod_id item @ '' command proof''\<rparr>]
      | Some (Proof_verification, ref) \<Rightarrow>
          (case Option.bind (parse_index ref)
                  (\<lambda>n. if n < length commands then Some (commands ! n) else None) of
             None \<Rightarrow> []
           | Some c \<Rightarrow> [\<lparr>ci_tokens = cmd_argv c, ci_cwd = nullish (cmd_cwd c) ''.'', ci_literal = False,
               ci_citation = dod_id item @ '' verification['' @ ref @ ''] proof''\<rparr>]))"

definition proofCitations :: "node \<Rightarrow> citation list" where
  "proofCitations node =
     (let commands = nd_verification node
      in concat (map (dod_citation commands) (nd_definitionOfDone node)) @
         map (\<lambda>(i, c). \<lparr>ci_tokens = cmd_argv c, ci_cwd = nullish (cmd_cwd c) ''.'', ci_literal = False,
                ci_citation = ''verification['' @ show_nat i @ '']''\<rparr>)
           (enumerate 0 commands))"

text \<open>\<open>resolve(base, path)\<close> for an absolute base, and the segments it leaves.\<close>

fun resolve_segments :: "string list \<Rightarrow> string list \<Rightarrow> string list" where
  "resolve_segments kept [] = kept"
| "resolve_segments kept (s # ss) =
     (if s = [] \<or> s = ''.'' then resolve_segments kept ss
      else if s = ''..'' then resolve_segments (butlast kept) ss
      else resolve_segments (kept @ [s]) ss)"

definition resolve_path :: "string \<Rightarrow> string \<Rightarrow> string" where
  "resolve_path base path =
     ''/'' @ join_with ''/'' (resolve_segments []
       (if starts_with path ''/'' then split_slash path else split_slash base @ split_slash path))"

definition is_alnum :: "char \<Rightarrow> bool" where
  "is_alnum c \<longleftrightarrow> is_word_char c \<and> c \<noteq> CHR ''_''"

text \<open>\<open>/\.[A-Za-z0-9]+$/\<close>\<close>

definition has_extension :: "string \<Rightarrow> bool" where
  "has_extension token \<longleftrightarrow>
     takeWhile is_alnum (rev token) \<noteq> [] \<and>
     head_opt (dropWhile is_alnum (rev token)) = Some (CHR ''.'')"

text \<open>The path a token names inside the workspace, and whether it may be a directory.\<close>

definition token_path :: "string \<Rightarrow> citation \<Rightarrow> string \<Rightarrow> (string \<times> bool) option" where
  "token_path workspace ci token =
     (let directory = ci_literal ci \<or> CHR ''/'' \<in> set token \<or> CHR 0x5C \<in> set token;
          target = resolve_path (resolve_path workspace (ci_cwd ci)) token;
          named = map (\<lambda>c. if c = CHR 0x5C then CHR ''/'' else c)
            (drop (length (below_root workspace)) target)
      in if token = [] \<or> starts_with token ''-'' then None
         else if \<not> directory \<and> \<not> has_extension token then None
         else if \<not> isContained workspace target \<or> target = workspace \<or> named = [] then None
         else Some (named, directory))"

definition token_cites :: "string \<Rightarrow> citation \<Rightarrow> string \<Rightarrow> string \<Rightarrow> bool" where
  "token_cites workspace ci token path =
     (case token_path workspace ci token of
        None \<Rightarrow> False
      | Some (named, directory) \<Rightarrow> path = named \<or> (directory \<and> starts_with path (named @ ''/'')))"

definition cite :: "string \<Rightarrow> string list \<Rightarrow> citation \<Rightarrow> string \<Rightarrow> (string \<times> string) list \<Rightarrow> (string \<times> string) list" where
  "cite workspace unexpected ci token cited =
     fold (\<lambda>path acc. if path \<notin> fst ` set acc \<and> token_cites workspace ci token path
       then acc @ [(path, ci_citation ci)] else acc) unexpected cited"

definition proofCitedWrites :: "node \<Rightarrow> string list \<Rightarrow> string \<Rightarrow> (string \<times> string) list" where
  "proofCitedWrites node unexpected workspace =
     fold (\<lambda>ci. fold (cite workspace unexpected ci) (ci_tokens ci)) (proofCitations node) []"

section \<open>The scope gate of a closed job\<close>

definition cited_message :: "(string \<times> string) list \<Rightarrow> string" where
  "cited_message cited =
     ''proof-cited unexpected write ('' @ show_nat (length cited) @ ''): '' @
     join_with '', '' (map (\<lambda>(path, by'). path @ '' ('' @ by' @ '')'') (take 8 cited))"

definition unexpected_message :: "ws_change \<Rightarrow> string" where
  "unexpected_message change =
     ''unexpected paths changed ('' @ show_nat (length (wc_unexpectedPaths change)) @ ''): '' @
     join_with '', '' (take 8 (wc_unexpectedPaths change))"

definition failed_event :: "details \<Rightarrow> ctl \<Rightarrow> ctl" where
  "failed_event d c = c\<lparr>ce_rd := appendTransitionEvent (ce_rd c) (ce_state c) Failed Failed d\<rparr>"

definition unless_settled_node :: "(ctl \<Rightarrow> ctl) \<Rightarrow> ctl \<Rightarrow> ctl" where
  "unless_settled_node f c = (if SETTLED (ns_status (ce_state c)) then c else f c)"

definition scope_failed :: "string \<Rightarrow> string \<Rightarrow> int \<Rightarrow> ctl \<Rightarrow> ctl" where
  "scope_failed code message now =
     stop_with Failed Ph_worker (mk_error code (nullish (excerpt message) [])) now"

text \<open>
  A completed attempt may have its verdict deferred until its verification passed, unless a proof
  cites one of the paths it should not have written.
\<close>

definition checkWorkerScope ::
  "outlook \<Rightarrow> node \<Rightarrow> bool \<Rightarrow> int \<Rightarrow> job \<Rightarrow> ctl \<Rightarrow> bool \<times> job \<times> ctl" where
  "checkWorkerScope ol node deferViolation now job c =
     (if jb_checked job then (\<not> jb_violation job, job, c)
      else
        (let checked = job\<lparr>jb_checked := True\<rparr>; violated = checked\<lparr>jb_violation := True\<rparr>
         in case scope_change ol node (ce_state c) (baseline_of ol ''worker scope'' (jb_baseline job)
                    (in_snapshotPath (jb_invocation job))) of
              Inl e \<Rightarrow>
                (False, violated, unless_settled_node (stop_with Failed Ph_worker (scope_error e) now) c)
            | Inr (b, change) \<Rightarrow>
                (let c1 = on_state (\<lambda>s. s\<lparr>ns_scope := Some (boundedScope change b)\<rparr>) c;
                     shown = take 64 (wc_unexpectedPaths change);
                     cited = proofCitedWrites node shown (ol_workspace ol)
                 in if wc_unexpectedPaths change = [] then (True, checked, c1)
                    else if deferViolation \<and> cited = [] then (True, violated, c1)
                    else (False, violated, unless_settled_node
                      (failed_event (Det_unexpected shown (Some (length (wc_unexpectedPaths change))))
                       \<circ> scope_failed ''unexpected_write''
                           (if cited \<noteq> [] then cited_message cited else unexpected_message change) now) c1))))"

text \<open>A turn that only writes the result file may change nothing else.\<close>

definition materialization_message :: "string list \<Rightarrow> nat \<Rightarrow> string" where
  "materialization_message paths count =
     ''result materialization changed workspace paths ('' @ show_nat count @ ''): '' @
     join_with '', '' (take 8 paths)"

definition checkResultMaterializationScope :: "outlook \<Rightarrow> int \<Rightarrow> job \<Rightarrow> ctl \<Rightarrow> bool \<times> job \<times> ctl" where
  "checkResultMaterializationScope ol now job c =
     (if jb_checked job then (\<not> jb_violation job, job, c)
      else
        (let checked = job\<lparr>jb_checked := True\<rparr>; violated = checked\<lparr>jb_violation := True\<rparr>
         in case (case baseline_of ol ''result materialization scope'' (jb_baseline job)
                         (in_snapshotPath (jb_invocation job)) of
                    Inl e \<Rightarrow> Inl e
                  | Inr before \<Rightarrow> compareWorkspaceSnapshot (ol_tree ol) before None [] []) of
              Inl e \<Rightarrow> (False, violated, stop_with Failed Ph_worker (scope_error e) now c)
            | Inr change \<Rightarrow>
                if wc_changedPaths change = [] then (True, checked, c)
                else (False, violated, scope_failed ''unexpected_write''
                  (materialization_message (wc_changedPaths change) (length (wc_changedPaths change))) now c)))"

text \<open>A judge that wrote into its own workspace, or whose workspace cannot be compared.\<close>

definition judgeWorkspaceWriteViolation :: "outlook \<Rightarrow> job \<Rightarrow> string option" where
  "judgeWorkspaceWriteViolation ol job =
     (case jb_baseline job of
        None \<Rightarrow> None
      | Some before \<Rightarrow>
          (case compareWorkspaceSnapshot (ol_tree ol) before None [] [] of
             Inl e \<Rightarrow> Some (nullish (excerpt (''judge workspace comparison failed ('' @ scope_code e @
                 ''): '' @ er_message e)) ''judge workspace comparison failed'')
           | Inr change \<Rightarrow>
               if wc_unexpectedPaths change = [] then None
               else Some (nullish (excerpt (''judge wrote into its own workspace ('' @
                   show_nat (length (wc_unexpectedPaths change)) @ ''): '' @
                   join_with '', '' (take 8 (wc_unexpectedPaths change))))
                 ''judge wrote into its own workspace'')))"

definition canReuseResultEvidence :: "snapshot \<Rightarrow> node \<Rightarrow> bool" where
  "canReuseResultEvidence s node =
     (case ns_verification s of
        None \<Rightarrow> False
      | Some v \<Rightarrow> ve_completed v \<and> ve_passed v \<and> \<not> gt_enabled (nd_gate node))"

definition scopeFindingFromScope :: "scope \<Rightarrow> string list" where
  "scopeFindingFromScope sc = take MAX_SCOPE_FINDING_PATHS (sc_unexpectedPaths sc)"

definition recordScopeFinding :: "ctl \<Rightarrow> ctl" where
  "recordScopeFinding c =
     (case ns_scope (ce_state c) of
        None \<Rightarrow> c
      | Some sc \<Rightarrow>
          if sc_unexpectedPaths sc = [] then c
          else (let found = scopeFindingFromScope sc;
                    c1 = persist (on_state (\<lambda>s. s\<lparr>ns_unexpectedPaths := found\<rparr>) c);
                    st = ns_status (ce_state c1)
                in c1\<lparr>ce_rd := appendTransitionEvent (ce_rd c1) (ce_state c1) st st
                     (Det_scope_finding found (sc_unexpectedPathCount sc))\<rparr>))"

section \<open>A persisted attempt\<close>

record scope_failure =
  sf_code :: string
  sf_detail :: string
  sf_unexpected :: "(string list \<times> nat) option"
  sf_changed :: "(string list \<times> nat) option"

text \<open>
  The same comparison for an attempt no controller watched to its end; a strict one allows no change
  at all. The scope it finds is kept on the snapshot in memory.
\<close>

definition judge_persisted_change :: "bool \<Rightarrow> ws_change \<Rightarrow> scope_failure option" where
  "judge_persisted_change strict change =
     (let unexpected = take 64 (wc_unexpectedPaths change); changed = take 64 (wc_changedPaths change)
      in if wc_unexpectedPaths change = [] \<and> (\<not> strict \<or> wc_changedPaths change = []) then None
         else if wc_unexpectedPaths change \<noteq> []
         then Some \<lparr>sf_code = ''unexpected_write'', sf_detail = unexpected_message change,
                    sf_unexpected = Some (unexpected, length (wc_unexpectedPaths change)),
                    sf_changed = None\<rparr>
         else Some \<lparr>sf_code = ''declared_paths_changed'',
                    sf_detail = ''declared workspace paths changed across the ambiguous window ('' @
                      show_nat (length (wc_changedPaths change)) @ ''): '' @ join_with '', '' (take 8 changed),
                    sf_unexpected = None,
                    sf_changed = Some (changed, length (wc_changedPaths change))\<rparr>)"

definition evaluatePersistedWorkerScope ::
  "outlook \<Rightarrow> node \<Rightarrow> invocation option \<Rightarrow> bool \<Rightarrow> snapshot \<Rightarrow> scope_failure option \<times> snapshot" where
  "evaluatePersistedWorkerScope ol node invoc strict s =
     (case scope_change ol node s (baseline_of ol ''worker scope'' None
             (Option.bind invoc in_snapshotPath)) of
        Inl e \<Rightarrow> (Some \<lparr>sf_code = scope_code e, sf_detail = er_message e, sf_unexpected = None,
                       sf_changed = None\<rparr>, s)
      | Inr (b, change) \<Rightarrow>
          (judge_persisted_change strict change, s\<lparr>ns_scope := Some (boundedScope change b)\<rparr>))"

definition persisted_message :: "bool \<Rightarrow> scope_failure \<Rightarrow> string \<times> string" where
  "persisted_message materialization failure =
     (if materialization \<and> sf_code failure \<in> {''unexpected_write'', ''declared_paths_changed''}
      then (''unexpected_write'',
            materialization_message
              (nullish (orelse (map_option fst (sf_changed failure)) (map_option fst (sf_unexpected failure))) [])
              (nullish (orelse (map_option snd (sf_changed failure)) (map_option snd (sf_unexpected failure))) 0))
      else (sf_code failure, sf_detail failure))"

definition checkPersistedWorkerScope ::
  "outlook \<Rightarrow> node \<Rightarrow> invocation option \<Rightarrow> bool \<Rightarrow> int \<Rightarrow> ctl \<Rightarrow> bool \<times> ctl" where
  "checkPersistedWorkerScope ol node invoc materialization now c =
     (let (failure, s) = evaluatePersistedWorkerScope ol node invoc materialization (ce_state c);
          c1 = on_state (\<lambda>_. s) c
      in case failure of
           None \<Rightarrow> (True, c1)
         | Some f \<Rightarrow>
             (let (code, message) = persisted_message materialization f;
                  c2 = scope_failed code message now c1
              in (False, case sf_unexpected f of
                    None \<Rightarrow> c2
                  | Some (paths, count) \<Rightarrow> failed_event (Det_unexpected paths (Some count)) c2)))"

section \<open>An attempt whose effect nobody saw\<close>

text \<open>
  What recovery concludes about an invocation (\<open>RecoveryOutcome\<close>); the usage and cost it carries are
  those of the provider's answer when there is one.
\<close>

datatype recovery_kind = Rk_adopted | Rk_rejudge | Rk_restart | Rk_exhausted | Rk_stalled | Rk_reconciled

record recovery =
  rv_kind :: recovery_kind
  rv_phase :: "role option"
  rv_invocationId :: "string option"
  rv_result :: "string option"
  rv_usage :: "usage option"
  rv_costUsd :: "rat option"
  rv_exhaustedUntil :: "stamp option"
  rv_error :: "provider_error option"
  rv_reason :: "string option"
  rv_continuationId :: "string option"

definition replay_reason :: "string \<Rightarrow> string \<Rightarrow> scope_failure \<Rightarrow> string" where
  "replay_reason nodeId otherwise' f =
     (if sf_code f = ''declared_paths_changed''
      then ''declared workspace changes across the ambiguous window are not proof that replay cannot duplicate effects for node ''
           @ nodeId @ '': '' @ sf_detail f
      else otherwise')"

datatype resolution = Reconcile string | Replay

text \<open>
  An interrupted attempt with an unknown effect is replayed only when its node allows it, its
  workspace is untouched and its verification passes; otherwise a person reconciles it.
\<close>

definition resolveUnknownEffect ::
  "outlook \<Rightarrow> contract \<Rightarrow> node \<Rightarrow> invocation option \<Rightarrow> ctl \<Rightarrow> resolution \<times> ctl" where
  "resolveUnknownEffect ol contract node workerInvocation c =
     (let policy = nullish (nd_replayPolicy node) ''safe''; i = ns_id (ce_state c)
      in if policy \<noteq> ''safe''
         then (Reconcile (''node '' @ i @ '' declares replayPolicy '' @ policy @
                 ''; the interrupted attempt with unknown effects requires manual reconciliation''), c)
         else
           (let (failure, s) = evaluatePersistedWorkerScope ol node workerInvocation True (ce_state c);
                c1 = on_state (\<lambda>_. s) c
            in case failure of
                 Some f \<Rightarrow> (Reconcile (replay_reason i
                   (''workspace moved outside the declared write scope across the ambiguous window: '' @
                    sf_detail f) f), c1)
               | None \<Rightarrow>
                   (let c2 = executeControllerVerification contract node (ol_bench ol) c1
                    in if map_option ve_passed (ns_verification (ce_state c2)) = Some True then (Replay, c2)
                       else (Reconcile (''deterministic verification failed while resolving the ambiguous window for node ''
                              @ i @ ''; partial effects cannot be proven absent''), c2))))"

definition recorded_override :: "exec_override \<Rightarrow> ctl \<Rightarrow> ctl" where
  "recorded_override x c =
     (let (rd, s) = recordExecutionOverride (ce_rd c) (ce_state c) x
      in c\<lparr>ce_rd := rd, ce_state := s\<rparr>)"

text \<open>The settlement of an invocation known by its id alone.\<close>

definition settle_id :: "string \<Rightarrow> settle_request \<Rightarrow> int \<Rightarrow> ctl \<Rightarrow> ctl" where
  "settle_id i request now c =
     c\<lparr>ce_rd := nullish (settleInvocation (ce_rd c) None i request now) (ce_rd c)\<rparr>"

definition ambiguous_reason :: "string \<Rightarrow> scope_failure \<Rightarrow> string" where
  "ambiguous_reason nodeId f =
     replay_reason nodeId
       (if sf_code f = ''unexpected_write''
        then ''workspace moved outside the declared write scope across the ambiguous window: '' @ sf_detail f
        else ''the ambiguous worker window for node '' @ nodeId @ '' cannot prove replay safety: '' @
             sf_detail f) f"

definition reconcileAmbiguousWorkerRestart ::
  "outlook \<Rightarrow> node \<Rightarrow> invocation option \<Rightarrow> recovery \<Rightarrow> bool \<Rightarrow> int \<Rightarrow> ctl \<Rightarrow> bool \<times> ctl" where
  "reconcileAmbiguousWorkerRestart ol node invoc rv persisted now c =
     (let (failure, s) = evaluatePersistedWorkerScope ol node invoc True (ce_state c);
          c1 = on_state (\<lambda>_. s) c
      in case failure of
           None \<Rightarrow> (False, c1)
         | Some f \<Rightarrow>
             (let i = orelse (rv_invocationId rv) (map_option in_id invoc);
                  reason = ambiguous_reason (ns_id s) f;
                  request = empty_request\<lparr>sr_status := Some ''reconciled'',
                    sr_usage := Put (orelse (Option.bind invoc in_usage) (rv_usage rv)),
                    sr_costUsd := Put (orelse (Option.bind invoc in_costUsd) (rv_costUsd rv)),
                    sr_receipts := ol_receipts ol invoc, sr_unknownEffect := Some True,
                    sr_classification := Some ''unknown_effect'', sr_reason := Some reason\<rparr>;
                  c2 = (case Option.bind i nonempty of None \<Rightarrow> c1 | Some k \<Rightarrow> settle_id k request now c1);
                  c3 = (if persisted then c2
                        else recorded_override ((mk_override ''recovery'')\<lparr>xo_decision := Some ''reconciled'',
                          xo_invocationId := i, xo_phase := rv_phase rv, xo_reason := Some reason\<rparr>) c2)
              in (True, stop_with Blocked (case rv_phase rv of Some Judge \<Rightarrow> Ph_judge | _ \<Rightarrow> Ph_worker)
                   (mk_error ''unknown_effect_reconciled'' (nullish (excerpt reason) [])) now c3)))"

section \<open>What the gate lets through\<close>

definition cites :: "node \<Rightarrow> string \<Rightarrow> string \<Rightarrow> bool" where
  "cites node workspace path \<longleftrightarrow>
     (\<exists>ci \<in> set (proofCitations node). \<exists>token \<in> set (ci_tokens ci). token_cites workspace ci token path)"

lemma fold_grow:
  assumes "\<And>x acc. P acc \<Longrightarrow> P (f x acc)" and "P acc"
  shows "P (fold f xs acc)"
  using assms(2) by (induction xs arbitrary: acc) (simp_all add: assms(1))

lemma cite_set:
  "fst ` set (cite w ps ci token cited) =
     fst ` set cited \<union> {p \<in> set ps. token_cites w ci token p}"
  unfolding cite_def by (induction ps arbitrary: cited) auto

lemma cite_distinct: "distinct (map fst cited) \<Longrightarrow> distinct (map fst (cite w ps ci token cited))"
  unfolding cite_def by (rule fold_grow) auto

lemma cite_tokens_set:
  "fst ` set (fold (cite w ps ci) tokens cited) =
     fst ` set cited \<union> {p \<in> set ps. \<exists>token \<in> set tokens. token_cites w ci token p}"
  by (induction tokens arbitrary: cited) (auto simp: cite_set)

lemma proofCitedWrites_set:
  "fst ` set (proofCitedWrites node ps w) = {p \<in> set ps. cites node w p}"
proof -
  have "fst ` set (fold (\<lambda>ci. fold (cite w ps ci) (ci_tokens ci)) cis cited) =
      fst ` set cited \<union> {p \<in> set ps. \<exists>ci \<in> set cis. \<exists>token \<in> set (ci_tokens ci). token_cites w ci token p}"
    for cis cited
    by (induction cis arbitrary: cited) (auto simp: cite_tokens_set)
  then show ?thesis by (auto simp: proofCitedWrites_def cites_def)
qed

lemma proofCitedWrites_distinct: "distinct (map fst (proofCitedWrites node ps w))"
  unfolding proofCitedWrites_def
  by (rule fold_grow) (auto intro: fold_grow [where P = "\<lambda>acc. distinct (map fst acc)"] cite_distinct)

lemma proofCitedWrites_empty: "proofCitedWrites node ps w = [] \<longleftrightarrow> (\<forall>p \<in> set ps. \<not> cites node w p)"
proof -
  have "proofCitedWrites node ps w = [] \<longleftrightarrow> fst ` set (proofCitedWrites node ps w) = {}" by simp
  then show ?thesis by (auto simp: proofCitedWrites_set)
qed

lemma settled_after [simp]:
  "SETTLED (ns_status (ce_state (unless_settled_node (stop_with Failed ph e now) c)))"
  "SETTLED (ns_status (ce_state (unless_settled_node (failed_event d \<circ> scope_failed code m now) c)))"
  by (auto simp: unless_settled_node_def scope_failed_def failed_event_def stop_with_def)

text \<open>
  The first verdict about a job's scope stands; it passes only an attempt that wrote nothing outside
  its boundary, or a completed one whose stray writes no proof cites among those that are recorded,
  and then the job remembers the violation; otherwise the node is settled.
\<close>

lemma worker_scope_verdict:
  assumes "checkWorkerScope ol node defer now job c = (ok, job', c')" and "\<not> jb_checked job"
  shows "ok \<Longrightarrow> \<exists>b change. scope_change ol node (ce_state c) (baseline_of ol ''worker scope''
      (jb_baseline job) (in_snapshotPath (jb_invocation job))) = Inr (b, change) \<and>
      ns_scope (ce_state c') = Some (boundedScope change b) \<and>
      (wc_unexpectedPaths change = [] \<or> jb_violation job' \<and> defer \<and>
       (\<forall>p \<in> set (take 64 (wc_unexpectedPaths change)). \<not> cites node (ol_workspace ol) p))"
    and "\<not> ok \<Longrightarrow> jb_violation job' \<and> SETTLED (ns_status (ce_state c'))"
    and "jb_checked job' \<and> checkWorkerScope ol node defer' now' job' c' = (\<not> jb_violation job', job', c')"
proof -
  show "ok \<Longrightarrow> \<exists>b change. scope_change ol node (ce_state c) (baseline_of ol ''worker scope''
      (jb_baseline job) (in_snapshotPath (jb_invocation job))) = Inr (b, change) \<and>
      ns_scope (ce_state c') = Some (boundedScope change b) \<and>
      (wc_unexpectedPaths change = [] \<or> jb_violation job' \<and> defer \<and>
       (\<forall>p \<in> set (take 64 (wc_unexpectedPaths change)). \<not> cites node (ol_workspace ol) p))"
    using assms
    by (auto simp: checkWorkerScope_def Let_def proofCitedWrites_empty on_state_def
        split: sum.splits if_splits)
  show "\<not> ok \<Longrightarrow> jb_violation job' \<and> SETTLED (ns_status (ce_state c'))"
    using assms settled_after
    by (auto simp: checkWorkerScope_def Let_def simp del: SETTLED.simps split: sum.splits if_splits)
  have "jb_checked job'" using assms
    by (auto simp: checkWorkerScope_def Let_def split: sum.splits if_splits)
  then show "jb_checked job' \<and> checkWorkerScope ol node defer' now' job' c' = (\<not> jb_violation job', job', c')"
    by (simp add: checkWorkerScope_def)
qed

lemma map_sum_Pair_iff: "map_sum id (Pair x) r = Inr (y, z) \<longleftrightarrow> y = x \<and> r = Inr z"
  by (cases r) auto

text \<open>
  An interrupted attempt is replayed only when its node's policy is the safe one, nothing at all
  changed in its workspace since it began, and its verification passed.
\<close>

lemma replay_is_safe:
  assumes "resolveUnknownEffect ol contract node invoc c = (Replay, c')"
  shows "nullish (nd_replayPolicy node) ''safe'' = ''safe''"
    and "\<exists>before b change. baseline_of ol ''worker scope'' None (Option.bind invoc in_snapshotPath) = Inr before \<and>
      readBoundary (ol_tree ol) node (ce_state c) = Inr b \<and>
      compareWorkspaceSnapshot (ol_tree ol) before (Some b) (nd_writeFiles node) (nd_writeRoots node) = Inr change \<and>
      wc_changedPaths change = []"
    and "map_option ve_passed (ns_verification (ce_state c')) = Some True"
  using assms
  by (auto simp: resolveUnknownEffect_def Let_def evaluatePersistedWorkerScope_def judge_persisted_change_def
      scope_change_def map_sum_Pair_iff split: if_splits option.splits sum.splits prod.splits)

text \<open>
  C16. An attempt whose effect nobody saw is replayed only where its node allows it, when nothing at
  all changed in its workspace since it began, inside its boundary or outside it, and after the
  controller's verification has passed; its node is otherwise left for a person to reconcile.
\<close>

theorem unknown_effect_replay_is_safe:
  assumes "resolveUnknownEffect ol contract node invoc c = (Replay, c')"
  shows "nullish (nd_replayPolicy node) ''safe'' = ''safe'' \<and>
    (\<exists>before b change. baseline_of ol ''worker scope'' None (Option.bind invoc in_snapshotPath) = Inr before \<and>
      readBoundary (ol_tree ol) node (ce_state c) = Inr b \<and>
      compareWorkspaceSnapshot (ol_tree ol) before (Some b) (nd_writeFiles node) (nd_writeRoots node) = Inr change \<and>
      (\<forall>p. entry_at (wk_entries before) p = entry_at (wk_entries (wc_after change)) p)) \<and>
    map_option ve_passed (ns_verification (ce_state c')) = Some True"
proof -
  from replay_is_safe(2) [OF assms] obtain before b change where
    c: "baseline_of ol ''worker scope'' None (Option.bind invoc in_snapshotPath) = Inr before"
    "readBoundary (ol_tree ol) node (ce_state c) = Inr b"
    "compareWorkspaceSnapshot (ol_tree ol) before (Some b) (nd_writeFiles node) (nd_writeRoots node) = Inr change"
    "wc_changedPaths change = []" by blast
  have "wc_changedPaths change = changed_between (wk_entries before) (wk_entries (wc_after change))"
    by (rule comparison_exact [OF c(3)])
  then have "entry_at (wk_entries before) p = entry_at (wk_entries (wc_after change)) p" for p
    using c(4) changed_between_iff [of p "wk_entries before" "wk_entries (wc_after change)"] by auto
  with c replay_is_safe(1,3) [OF assms] show ?thesis by blast
qed

text \<open>An interrupted attempt that left the one file of its workspace as it was.\<close>

definition quiet_entries :: "ws_entry list" where
  "quiet_entries = [\<lparr>we_path = ''src/a.mjs'', we_kind = Entry_file, we_digest = Some ''new'', we_size = Some 3\<rparr>]"

definition quiet_outlook :: outlook where
  "quiet_outlook = \<lparr>ol_tree = sample_tree, ol_workspace = ''/wt/a'',
     ol_read = (\<lambda>p. Inr \<lparr>wk_entries = quiet_entries, wk_ignoreSources = [], wk_truncated = False\<rparr>),
     ol_receipts = (\<lambda>i. []), ol_bench = sample_bench\<rparr>"

definition interrupted :: ctl where
  "interrupted = on_state (\<lambda>s. s\<lparr>ns_scope := Some (empty_scope \<lparr>bd_files = [''src/a.mjs''], bd_roots = [],
     bd_fileRoots = [], bd_fileOrigins = [(''src/a.mjs'', [''src/a.mjs''])], bd_rootOrigins = []\<rparr>)\<rparr>) sample_ctl"

definition interrupted_invocation :: invocation where
  "interrupted_invocation = (sample_invocation ''i-1'' Worker ''glm'')\<lparr>in_snapshotPath := Some ''s''\<rparr>"

lemma quiet_evaluation:
  "\<exists>sc. evaluatePersistedWorkerScope quiet_outlook (sample_node ''a'' [] None None) (Some interrupted_invocation) True
     (ce_state interrupted) = (None, (ce_state interrupted)\<lparr>ns_scope := Some sc\<rparr>)"
  by (simp add: evaluatePersistedWorkerScope_def quiet_outlook_def interrupted_def interrupted_invocation_def
      sample_invocation_def baseline_of_def nonempty_def scope_change_def readBoundary_def empty_scope_def
      sample_node_def on_state_def sample_ctl_def sample_snapshot_def sample_tree_def workspace_evals
      quiet_entries_def judge_persisted_change_def)

theorem unknown_effect_replay_is_safe_witness:
  "\<exists>c'. resolveUnknownEffect quiet_outlook (sample_contract False []) (sample_node ''a'' [] None None)
     (Some interrupted_invocation) interrupted = (Replay, c') \<and>
   map_option ve_passed (ns_verification (ce_state c')) = Some True"
proof -
  let ?n = "sample_node ''a'' [] None None"
  obtain sc where sc: "evaluatePersistedWorkerScope quiet_outlook ?n (Some interrupted_invocation) True
      (ce_state interrupted) = (None, (ce_state interrupted)\<lparr>ns_scope := Some sc\<rparr>)"
    using quiet_evaluation by blast
  have "map_option ve_passed (ns_verification (ce_state (executeControllerVerification (sample_contract False []) ?n
      sample_bench (on_state (\<lambda>_. (ce_state interrupted)\<lparr>ns_scope := Some sc\<rparr>) interrupted)))) = Some True"
    by code_simp
  moreover have "nd_replayPolicy ?n = None" "ol_bench quiet_outlook = sample_bench"
    by (simp_all add: sample_node_def quiet_outlook_def)
  ultimately have "fst (resolveUnknownEffect quiet_outlook (sample_contract False []) ?n
      (Some interrupted_invocation) interrupted) = Replay"
    by (simp add: resolveUnknownEffect_def Let_def sc)
  then obtain c' where "resolveUnknownEffect quiet_outlook (sample_contract False []) ?n
      (Some interrupted_invocation) interrupted = (Replay, c')" by (cases "resolveUnknownEffect quiet_outlook
      (sample_contract False []) ?n (Some interrupted_invocation) interrupted") auto
  with unknown_effect_replay_is_safe [OF this] show ?thesis by blast
qed

end
