(* ===== verification/Closing.thy ===== *)
theory Closing
  imports Scope Review_Safety
begin

text \<open>
  What a closed job does to its node: \<open>finalizeClosedJobs\<close> and \<open>applyInvalidWorkerResult\<close> of
  \<open>src/engine/lifecycle.mjs\<close>, \<open>resolveWorkerResult\<close> of \<open>src/engine/result-file.mjs\<close> and
  \<open>startResultMaterialization\<close> of \<open>src/engine/dispatch.mjs\<close>.

  The envelope is what the adapter made of the provider's output. The argument \<open>closing\<close> holds the
  rest of what the machine says: the \<open>outlook\<close> on the workspace, the result file the worker left in
  it, what \<open>extractJson\<close> finds in a final message, what is wrong with a discovered packet, whether
  the runtime can be continued and the error of the snapshot taken before it is. The usage ledger,
  the spend advisories and the derived totals of a snapshot are left out. The one branch that asks
  for a judge with reusable evidence needs a gate that is enabled and disabled at once; it has no
  counterpart here.
\<close>

record closing =
  cs_outlook :: outlook
  cs_attemptFile :: "string option"
  cs_extract :: "string option \<Rightarrow> string option"
  cs_packet :: "json \<Rightarrow> string option"
  cs_continues :: bool
  cs_snapshotError :: "string option"

section \<open>The canonical result\<close>

text \<open>\<open>materializeAttemptResult\<close>: the file the worker left becomes the run's.\<close>

definition materialize :: "closing \<Rightarrow> string \<Rightarrow> ctl \<Rightarrow> ctl" where
  "materialize cs nodeId c =
     (case cs_attemptFile cs of
        None \<Rightarrow> c
      | Some t \<Rightarrow>
          c\<lparr>ce_rd := (ce_rd c)\<lparr>rd_results := AList.update nodeId t (rd_results (ce_rd c))\<rparr>\<rparr>)"

abbreviation canonical_result :: "site \<Rightarrow> ctl \<Rightarrow> result_error + worker_result option" where
  "canonical_result si c \<equiv>
     readWorkerResultFile (oe_num (si_outside si)) (oe_parse (si_outside si)) (ce_rd c) (nd_id (si_node si))"

definition persist_result :: "site \<Rightarrow> worker_result \<Rightarrow> ctl \<Rightarrow> ctl" where
  "persist_result si r c =
     c\<lparr>ce_rd := (ce_rd c)\<lparr>rd_results := AList.update (nd_id (si_node si))
        (stringify (oe_num (si_outside si)) (write_worker_result r)) (rd_results (ce_rd c))\<rparr>\<rparr>"

text \<open>The file is authoritative; without it the final message is read, and kept as the file.\<close>

definition resolveWorkerResult ::
  "site \<Rightarrow> closing \<Rightarrow> string option \<Rightarrow> ctl \<Rightarrow> result_error + (worker_result \<times> ctl)" where
  "resolveWorkerResult si cs providerResult c =
     (case canonical_result si c of
        Inl e \<Rightarrow> Inl e
      | Inr fromFile \<Rightarrow>
     (case (case fromFile of
              Some r \<Rightarrow> Inr r
            | None \<Rightarrow> parseWorkerResult (oe_num (si_outside si)) (oe_parse (si_outside si))
                (nullish (orelse (cs_extract cs providerResult) providerResult) [])) of
        Inl e \<Rightarrow> Inl e
      | Inr r \<Rightarrow>
          if nd_mode (si_node si) = Mode_execution \<and> discoveryOutput r \<noteq> None then Inl Output_not_allowed
          else Inr (r, if fromFile = None then persist_result si r c else c)))"

section \<open>A result that cannot be read\<close>

definition invalid_result_verdict :: "result_error \<Rightarrow> gate_result" where
  "invalid_result_verdict cause =
     \<lparr>gr_verdict = V_fail, gr_maxSeverity = Critical,
      gr_summary = ''worker result did not match the structured result protocol'',
      gr_findings = [\<lparr>fi_severity = Critical, fi_description = invalidResultRepair cause,
        fi_evidence = boundedUtf8 (result_error_message cause) (4 * 1024)\<rparr>]\<rparr>"

definition protocol_envelope :: "snap_error \<Rightarrow> envelope" where
  "protocol_envelope e =
     \<lparr>en_status = Failed, en_result = None, en_usage = None, en_costUsd = None, en_priced = False,
      en_error = Some \<lparr>pe_code = er_code e, pe_message = er_message e, pe_resetAt = None\<rparr>,
      en_resetAt = None, en_exhaustedUntil = None, en_judgeCandidates = None,
      en_continuationId = None\<rparr>"

text \<open>One repair on the same provider while the budget lasts, then another provider, then a person.\<close>

definition applyInvalidWorkerResult :: "site \<Rightarrow> result_error \<Rightarrow> ctl \<Rightarrow> ctl option" where
  "applyInvalidWorkerResult si cause c0 =
     (let c = on_state clearTierExhaustion c0;
          message = result_error_message cause;
          verdict = invalid_result_verdict cause
      in if isRepairable (si_node si) (ce_state c)
         then applyRejection si verdict
                ((rejection_for ''invalid_worker_result'')\<lparr>rj_message := Some message\<rparr>) c
         else
           (let e = mk_error ''protocol_failure'' (nullish (excerpt message)
                  ''worker result did not match the structured result protocol'')
            in case handleProviderExhaustion si Worker (protocol_envelope e) (ns_runtime (ce_state c))
                      (Some (Edge Protocol_failure)) c of
                 None \<Rightarrow> None
               | Some (True, c') \<Rightarrow> Some c'
               | Some (False, c') \<Rightarrow>
                   Some (raiseNodeAttention ''protocol_failure''
                     (move Blocked (\<lambda>s. s\<lparr>ns_phase := Ph_worker, ns_gate := Some verdict,
                        ns_error := Some e\<rparr>) (si_now si) c'))))"

section \<open>The one turn that asks for a missing result\<close>

definition missing_result :: "string \<Rightarrow> site \<Rightarrow> ctl \<Rightarrow> ctl" where
  "missing_result message si = stop_with Failed Ph_worker (mk_error ''missing_worker_result'' message) (si_now si)"

definition startResultMaterialization ::
  "site \<Rightarrow> closing \<Rightarrow> string \<Rightarrow> string option \<Rightarrow> ctl \<Rightarrow> ctl" where
  "startResultMaterialization si cs runtimeId continuationId c =
     (case (if cs_continues cs then Option.bind continuationId nonempty else None) of
        None \<Rightarrow> missing_result ''worker completed without a canonical result file and this runtime did not provide a resumable session for the one-turn materialization'' si c
      | Some session \<Rightarrow>
     (case cs_snapshotError cs of
        Some message \<Rightarrow> stop_with Failed Ph_worker
          (mk_error ''result_materialization_snapshot_invalid'' message) (si_now si) c
      | None \<Rightarrow>
          (let oe = (si_outside si)\<lparr>oe_continuation := (\<lambda>_. Some session)\<rparr>;
               record = (\<lambda>i. record_invocation oe Worker (nd_id (si_node si)) i runtimeId (si_now si));
               c1 = persist (on_state (\<lambda>s. s\<lparr>ns_phase := Ph_worker, ns_runtime := Some runtimeId,
                      ns_error := Some (mk_error ''result_materialization_pending''
                        ''awaiting one-turn canonical worker-result materialization'')\<rparr>) c)
           in case oe_spawn oe Worker of
                Spawned i \<Rightarrow>
                  (let c2 = move Running (\<lambda>s. s\<lparr>ns_phase := Ph_worker, ns_runtime := Some runtimeId\<rparr>)
                         (si_now si) (record i c1)
                   in c2\<lparr>ce_running := map_option (AList.update (nd_id (si_node si)) runtimeId) (ce_running c2)\<rparr>)
              | Spawn_failed persisted code message \<Rightarrow>
                  stop_with Failed Ph_worker (mk_error ''result_materialization_failed'' message) (si_now si)
                    (case persisted of None \<Rightarrow> c1 | Some i \<Rightarrow> record i c1))))"

section \<open>The stages of a closed job\<close>

definition spawn_failed :: "site \<Rightarrow> job \<Rightarrow> string \<Rightarrow> ctl \<Rightarrow> ctl" where
  "spawn_failed si job message c =
     stop_with Failed (role_phase (jb_phase job)) (mk_error ''spawn_error'' message) (si_now si)
       (on_state clearTierExhaustion
         (settle_in (jb_invocation job) (empty_request\<lparr>sr_status := Some ''failed'',
            sr_error := Some (''spawn_error'', message), sr_reason := Some ''provider did not start'',
            sr_nextState := Put (Some (operationNextState (ce_state c)))\<rparr>) (si_now si) c))"

text \<open>What the canonical file says, read before the scope gate; a materialization has none of its own.\<close>

definition adopted_result :: "site \<Rightarrow> closing \<Rightarrow> job \<Rightarrow> ctl \<Rightarrow> (result_error + worker_result option) \<times> ctl" where
  "adopted_result si cs job c =
     (if jb_phase job = Worker \<and> \<not> jb_materialization job
      then (let c1 = materialize cs (nd_id (si_node si)) c in (canonical_result si c1, c1))
      else (Inr None, c))"

definition completed :: "result_error + worker_result option \<Rightarrow> bool" where
  "completed adopted = (case adopted of Inr (Some r) \<Rightarrow> wr_status r = Ws_done | _ \<Rightarrow> False)"

definition scope_gate :: "site \<Rightarrow> closing \<Rightarrow> bool \<Rightarrow> job \<Rightarrow> ctl \<Rightarrow> bool \<times> job \<times> ctl" where
  "scope_gate si cs completedAttempt job c =
     (if jb_phase job = Judge then (True, job, c)
      else if jb_materialization job then checkResultMaterializationScope (cs_outlook cs) (si_now si) job c
      else checkWorkerScope (cs_outlook cs) (si_node si) completedAttempt (si_now si) job c)"

definition scope_refused :: "site \<Rightarrow> job \<Rightarrow> envelope \<Rightarrow> ctl \<Rightarrow> ctl" where
  "scope_refused si job envelope c =
     (let e = nullish (ns_error (ce_state c)) (mk_error ''scope_check_failed'' ''worker scope check failed'')
      in settle_in (jb_invocation job) (empty_request\<lparr>sr_status := Some ''failed'',
           sr_usage := Put (in_usage (jb_invocation job)), sr_costUsd := Put (in_costUsd (jb_invocation job)),
           sr_receipts := providerReceipts envelope, sr_error := Some (er_code e, er_message e),
           sr_nextState := Put (Some (operationNextState (ce_state c)))\<rparr>) (si_now si) c)"

definition close_request :: "string \<Rightarrow> envelope \<Rightarrow> string option \<Rightarrow> snapshot \<Rightarrow> settle_request" where
  "close_request status envelope result s =
     empty_request\<lparr>sr_status := Some status, sr_usage := Put (en_usage envelope),
       sr_costUsd := Put (en_costUsd envelope),
       sr_structuredResult := Put (Some (result \<noteq> None \<and> result \<noteq> Some [])), sr_result := Put result,
       sr_receipts := providerReceipts envelope, sr_nextState := Put (Some (operationNextState s))\<rparr>"

definition with_evidence :: "envelope \<Rightarrow> string \<Rightarrow> invocation \<Rightarrow> invocation" where
  "with_evidence envelope i invoc =
     (if in_id invoc = i
      then invoc\<lparr>in_continuationId := orelse (en_continuationId envelope) (in_continuationId invoc),
                 in_usage := en_usage envelope, in_costUsd := en_costUsd envelope\<rparr>
      else invoc)"

definition record_close :: "site \<Rightarrow> job \<Rightarrow> envelope \<Rightarrow> ctl \<Rightarrow> ctl" where
  "record_close si job envelope c =
     (let c1 = on_state (\<lambda>s. s\<lparr>ns_invocations :=
            map (with_evidence envelope (in_id (jb_invocation job))) (ns_invocations s)\<rparr>) c
      in settle_in (jb_invocation job)
           ((close_request (show_status (en_status envelope)) envelope (en_result envelope) (ce_state c1))
             \<lparr>sr_error := map_option (\<lambda>e. (pe_code e, pe_message e)) (en_error envelope)\<rparr>) (si_now si) c1)"

text \<open>A provider that failed: the node's one automatic retry, a wait or an edge, or the failure itself.\<close>

definition failed_with :: "site \<Rightarrow> envelope \<Rightarrow> ctl \<Rightarrow> ctl" where
  "failed_with si envelope c =
     move (en_status envelope) (\<lambda>s. s\<lparr>ns_phase := Ph_worker,
         ns_error := map_option (\<lambda>e. mk_error (pe_code e) (pe_message e)) (en_error envelope)\<rparr>) (si_now si)
       (on_state clearTierExhaustion c)"

definition provider_failed :: "site \<Rightarrow> job \<Rightarrow> envelope \<Rightarrow> ctl \<Rightarrow> ctl option" where
  "provider_failed si job envelope c =
     (case autoRetryNode (ce_rd c) (ce_state c)
             (orelse (map_option pe_code (en_error envelope)) (map_option er_code (ns_error (ce_state c))))
             (si_now si) of
        Some (rd, s) \<Rightarrow> Some (c\<lparr>ce_rd := rd, ce_state := s\<rparr>)
      | None \<Rightarrow>
          (case networkTransition (si_contract si) (si_node si) (ce_state c) Worker envelope
                  (jb_exitCode job) (si_now si) (si_random si) of
             None \<Rightarrow> Some (failed_with si envelope c)
           | Some t \<Rightarrow>
               map_option (\<lambda>(decided, c'). if decided then c' else failed_with si envelope c')
                 (handleProviderExhaustion si Worker envelope (Some (jb_runtime job)) (Some t) c)))"

text \<open>A result that may be accepted goes through the controller's verification and the gate.\<close>

definition gate_round :: "site \<Rightarrow> ctl \<Rightarrow> (round \<times> ctl) option" where
  "gate_round si c =
     (if gt_enabled (nd_gate (si_node si))
      then auxJudgeRound (si_contract si) (si_node si) (si_outside si) (si_states si) (si_now si)
             (nullish (ce_running c) []) c
      else Some (startMechanicalGate (si_node si) (si_outside si) (ce_state c), c))"

definition judge_result_of_worker :: "site \<Rightarrow> job \<Rightarrow> worker_result \<Rightarrow> desk \<Rightarrow> desk option" where
  "judge_result_of_worker si job r w0 =
     (let w = at_node (\<lambda>c. executeControllerVerification (si_contract si) (si_node si) (si_bench si)
                (on_state clearTierExhaustion c)) w0
      in if map_option ve_passed (ns_verification (ce_state (iw_client w))) \<noteq> Some True
         then on_ctl (applyVerificationFailure si) w
         else (let w1 = (if jb_violation job then at_node recordScopeFinding w else w)
               in case gate_round si (iw_client w1) of
                    None \<Rightarrow> None
                  | Some (outcome, c) \<Rightarrow> applyJudgeRound si outcome (Some r) (w1\<lparr>iw_client := c\<rparr>)))"

definition result_failed :: "site \<Rightarrow> string \<Rightarrow> string \<Rightarrow> ctl \<Rightarrow> ctl" where
  "result_failed si code message c =
     stop_with Failed Ph_worker (mk_error code message) (si_now si) (on_state clearTierExhaustion c)"

definition owes_packet :: "node \<Rightarrow> worker_result \<Rightarrow> bool" where
  "owes_packet node r \<longleftrightarrow> nd_mode node = Mode_discovery \<and> nd_readFiles node = [] \<and> wr_status r = Ws_done"

definition take_result :: "site \<Rightarrow> closing \<Rightarrow> job \<Rightarrow> envelope \<Rightarrow> desk \<Rightarrow> desk option" where
  "take_result si cs job envelope w =
     (case resolveWorkerResult si cs (en_result envelope) (iw_client w) of
        Inl Output_not_allowed \<Rightarrow>
          Some (at_node (result_failed si ''execution_output_not_allowed''
            (result_error_message Output_not_allowed)) w)
      | Inl e \<Rightarrow>
          if jb_materialization job
          then Some (at_node (result_failed si ''missing_worker_result''
            (''result-only materialization did not produce a valid canonical worker result: '' @
             result_error_message e)) w)
          else on_ctl (applyInvalidWorkerResult si e) w
      | Inr (r, c) \<Rightarrow>
          (case (if owes_packet (si_node si) r
                 then parseDiscoveryResult (oe_parse (si_outside si)) (cs_packet cs) r else None) of
             Some e \<Rightarrow> on_ctl (applyInvalidWorkerResult si e) (w\<lparr>iw_client := c\<rparr>)
           | None \<Rightarrow>
               (let w1 = at_node (on_state (\<lambda>s. s\<lparr>ns_result := Some r\<rparr>)) (w\<lparr>iw_client := c\<rparr>)
                in if wr_status r = Ws_blocked_context
                   then Some (at_node (stop_with Blocked Ph_complete (mk_error ''context_missing''
                          (join_with ''; '' (wr_missingContext r))) (si_now si)
                          \<circ> on_state clearTierExhaustion) w1)
                   else if jb_materialization job \<and> canReuseResultEvidence (ce_state (iw_client w1)) (si_node si)
                   then settleDone si \<lparr>dp_result = Put (Some r), dp_gate = Keep, dp_error = Put None, dp_unblocked = False\<rparr>
                          (at_node (on_state clearTierExhaustion) w1)
                   else judge_result_of_worker si job r w1)))"

section \<open>Closing a job\<close>

definition close_judge :: "site \<Rightarrow> closing \<Rightarrow> job \<Rightarrow> envelope \<Rightarrow> desk \<Rightarrow> desk option" where
  "close_judge si cs job envelope w =
     (case judgeWorkspaceWriteViolation (cs_outlook cs) job of
        Some message \<Rightarrow>
          Some (at_node (raiseNodeAttention ''judge_protocol''
            \<circ> stop_with Blocked Ph_judge (mk_error ''judge_protocol'' message) (si_now si)
            \<circ> on_state clearTierExhaustion) w)
      | None \<Rightarrow>
          if en_status envelope = Exhausted
          then on_ctl (\<lambda>c. map_option snd (handleProviderExhaustion si Judge envelope
                 (Some (jb_runtime job)) None c)) w
          else settleJudgeRound si \<lparr>jj_runtime = jb_runtime job, jj_exitCode = jb_exitCode job\<rparr> envelope w)"

definition close_worker ::
  "site \<Rightarrow> closing \<Rightarrow> job \<Rightarrow> envelope \<Rightarrow> worker_result option \<Rightarrow> desk \<Rightarrow> desk option" where
  "close_worker si cs job envelope adopted w0 =
     (let settled = (\<lambda>c. case adopted of
            None \<Rightarrow> c
          | Some r \<Rightarrow> settle_in (jb_invocation job)
              ((close_request ''done'' envelope
                 (Some (stringify (oe_num (si_outside si)) (write_worker_result r))) (ce_state c)))
              (si_now si) c)
      in if adopted = None \<and> en_status envelope = Exhausted
         then on_ctl (\<lambda>c. map_option snd (handleProviderExhaustion si Worker envelope
                (Some (jb_runtime job)) None c)) w0
         else
           (let w = at_node (materialize cs (nd_id (si_node si)) \<circ> settled) w0;
                fileBacked = (map_of (rd_results (ce_rd (iw_client w))) (nd_id (si_node si)) \<noteq> None);
                fileBackedNoOp = (en_status envelope = No_op \<and> fileBacked)
            in if adopted = None \<and> en_status envelope = No_op \<and> \<not> fileBacked
               then Some (at_node
                 (if jb_materialization job
                  then missing_result ''result-only materialization produced no canonical worker result'' si
                    \<circ> on_state clearTierExhaustion
                  else startResultMaterialization si cs (jb_runtime job)
                    (orelse (en_continuationId envelope) (in_continuationId (jb_invocation job)))) w)
               else if adopted = None \<and> en_status envelope \<noteq> Done \<and> \<not> fileBackedNoOp
               then on_ctl (provider_failed si job envelope) w
               else take_result si cs job envelope w))"

definition close_checked ::
  "site \<Rightarrow> closing \<Rightarrow> job \<Rightarrow> envelope \<Rightarrow> result_error + worker_result option \<Rightarrow> desk \<Rightarrow> desk option" where
  "close_checked si cs job envelope adopted w =
     (if jb_phase job = Judge then close_judge si cs job envelope w
      else case adopted of
             Inl e \<Rightarrow>
               if en_status envelope = Done then on_ctl (applyInvalidWorkerResult si e) w
               else close_worker si cs job envelope None w
           | Inr r \<Rightarrow> close_worker si cs job envelope r w)"

definition finalizeClosedJob :: "site \<Rightarrow> closing \<Rightarrow> job \<Rightarrow> envelope \<Rightarrow> desk \<Rightarrow> desk option" where
  "finalizeClosedJob si cs job envelope w =
     (if SETTLED (ns_status (ce_state (iw_client w))) then Some (at_node persist w)
      else case jb_spawnError job of
             Some message \<Rightarrow> Some (at_node (spawn_failed si job message) w)
           | None \<Rightarrow>
               (let (adopted, c1) = adopted_result si cs job (iw_client w);
                    (ok, job', c2) = scope_gate si cs (completed adopted) job c1
                in if \<not> ok then Some (w\<lparr>iw_client := scope_refused si job' envelope c2\<rparr>)
                   else close_checked si cs job' envelope adopted
                          (w\<lparr>iw_client := record_close si job' envelope c2\<rparr>)))"

end
