(* ===== verification/Closing_Safety.thy ===== *)
theory Closing_Safety
  imports Closing
begin

text \<open>
  What holds of every way a job can close: the node stays within its review budget and is never left
  running without a job, and a worker's job alone never moves the run's ref past a gate that needs a
  judge, past an unverified result or past a write its scope refuses.
\<close>

section \<open>Steps that only prepare\<close>

lemma same_ready: "same_node (iw_client w) c \<Longrightarrow> ready si (w\<lparr>iw_client := c\<rparr>) = ready si w"
  by (simp add: ready_def same_node_def)

lemma same_step: "same_node (iw_client w) c \<Longrightarrow> desk_step si (w\<lparr>iw_client := c\<rparr>) w' \<Longrightarrow> desk_step si w w'"
  by (auto simp: desk_step_def budget_step_def same_node_def)

lemma at_node_client: "at_node f w = w\<lparr>iw_client := f (iw_client w)\<rparr>"
  by (simp add: at_node_def tell_def)

lemma same_at_node:
  assumes "same_node (iw_client w) (f (iw_client w))"
  shows "ready si (at_node f w) = ready si w" "desk_step si (at_node f w) w' \<Longrightarrow> desk_step si w w'"
  using same_ready [OF assms] same_step [OF assms] by (simp_all add: at_node_client)

text \<open>Preparations: the same node, with the same jobs.\<close>

lemma same_simps [simp]:
  "same_node c (settle_in i request now c)" "same_node c (persist c)"
  "same_node c (materialize cs n c)" "same_node c (persist_result si r c)"
  by (auto simp: same_node_def materialize_def persist_result_def split: option.split)

lemma same_on_state [simp]: "minor f \<Longrightarrow> (\<And>s. ns_executionOverrides (f s) = ns_executionOverrides s) \<Longrightarrow>
    same_node c (on_state f c)"
  by (simp add: same_node_def minor_def)

lemma running_simps [simp]:
  "ce_running (materialize cs n c) = ce_running c" "ce_state (materialize cs n c) = ce_state c"
  "ce_running (persist_result si r c) = ce_running c" "ce_state (persist_result si r c) = ce_state c"
  by (auto simp: materialize_def persist_result_def split: option.split)

lemma stop_same [simp]: "same_node c (stop_with st ph e now c)"
  by (simp add: stop_with_def same_node_def)

lemma stop_running [simp]: "ce_running (stop_with st ph e now c) = ce_running c"
  by (simp add: stop_with_def)

lemma verification_same [simp]:
  "same_node c (executeControllerVerification contract node b c)"
  "ce_running (executeControllerVerification contract node b c) = ce_running c"
  by (auto simp: executeControllerVerification_def Let_def same_node_def)

lemma scope_finding_same [simp]:
  "same_node c (recordScopeFinding c)" "ce_running (recordScopeFinding c) = ce_running c"
  "ns_verification (ce_state (recordScopeFinding c)) = ns_verification (ce_state c)"
  by (auto simp: recordScopeFinding_def Let_def same_node_def split: option.split)

lemma gate_same:
  assumes "scope_gate si cs done' job c = (ok, job', c')"
  shows "same_node c c' \<and> ce_running c' = ce_running c"
proof -
  have f: "same_node x (failed_event d x) \<and> ce_running (failed_event d x) = ce_running x" for d x
    by (simp add: failed_event_def same_node_def)
  then show ?thesis
    using assms
    by (auto simp: scope_gate_def checkWorkerScope_def checkResultMaterializationScope_def Let_def
        unless_settled_node_def scope_failed_def same_node_def failed_event_def stop_with_def
        split: if_splits sum.splits)
qed

lemma adopted_same:
  "adopted_result si cs job c = (adopted, c') \<Longrightarrow> same_node c c' \<and> ce_running c' = ce_running c"
  by (auto simp: adopted_result_def Let_def split: if_splits)

lemma record_close_same [simp]:
  "same_node c (record_close si job envelope c)" "ce_running (record_close si job envelope c) = ce_running c"
  by (simp_all add: record_close_def Let_def same_node_def)

section \<open>Each outcome keeps the budget\<close>

lemma invalid_result_step:
  assumes "applyInvalidWorkerResult si cause c = Some c'" and "ns_id (ce_state c) = nd_id (si_node si)"
  shows "budget_step (si_node si) c c' \<and> accounted_for c'"
proof -
  let ?d = "on_state clearTierExhaustion c"
  have d: "budget_step (si_node si) c ?d" "ns_id (ce_state ?d) = nd_id (si_node si)" using assms(2) by simp_all
  consider (reject) v rj where "applyRejection si v rj ?d = Some c'"
    | (route) e given pre x where "handleProviderExhaustion si Worker e given pre ?d = Some (True, x)" "c' = x"
    | (stop) e given pre x g er where "handleProviderExhaustion si Worker e given pre ?d = Some (False, x)"
        "c' = raiseNodeAttention ''protocol_failure'' (move Blocked (\<lambda>s. s\<lparr>ns_phase := Ph_worker,
          ns_gate := g, ns_error := er\<rparr>) (si_now si) x)"
    using assms(1) unfolding applyInvalidWorkerResult_def Let_def
    by (auto split: if_splits option.splits prod.splits bool.splits)
  then show ?thesis
  proof cases
    case reject
    with rejection_step [OF reject d(2)] budget_trans [OF d(1)] show ?thesis by blast
  next
    case route
    with exhaustion_step [OF route(1), of "si_node si"] budget_trans [OF d(1)] show ?thesis by blast
  next
    case stop
    from exhaustion_step [OF stop(1), of "si_node si"] have "budget_step (si_node si) ?d c'"
      by (simp add: stop(2) budget_step_def)
    with budget_trans [OF d(1)] stop(2) show ?thesis by (simp add: accounted_for_def)
  qed
qed

lemma transition_snd:
  "transition rd s st patch now = (rd', s') \<Longrightarrow> s' = (patch s)\<lparr>ns_status := st, ns_updatedAt := Some (Iso now)\<rparr>"
  using transition_frame(3) [of rd s st patch now] by simp

lemma auto_retry_step:
  assumes "autoRetryNode rd s code now = Some (rd', s')"
  shows "ns_id s' = ns_id s \<and> ns_revisions s' = ns_revisions s \<and> ns_status s' = Pending"
  using assms
  by (auto simp: autoRetryNode_def Let_def split: option.splits if_splits prod.splits dest!: transition_snd)

lemma failed_with_step:
  "ns_id (ce_state c') = ns_id (ce_state c) \<Longrightarrow> ns_revisions (ce_state c') = ns_revisions (ce_state c) \<Longrightarrow>
     ce_running c' = ce_running c \<Longrightarrow> SETTLED (en_status envelope) \<Longrightarrow>
     budget_step node c (failed_with si envelope c') \<and> accounted_for (failed_with si envelope c')"
  by (auto simp: failed_with_def budget_step_def accounted_for_def)

lemma provider_failed_step:
  assumes "provider_failed si job envelope c = Some c'" and "SETTLED (en_status envelope)"
  shows "budget_step (si_node si) c c' \<and> accounted_for c'"
proof -
  consider (retry) rd s where "autoRetryNode (ce_rd c) (ce_state c)
        (orelse (map_option pe_code (en_error envelope)) (map_option er_code (ns_error (ce_state c))))
        (si_now si) = Some (rd, s)" "c' = c\<lparr>ce_rd := rd, ce_state := s\<rparr>"
    | (failed) "c' = failed_with si envelope c"
    | (routed) t decided x where "handleProviderExhaustion si Worker envelope (Some (jb_runtime job)) (Some t) c
        = Some (decided, x)" "c' = (if decided then x else failed_with si envelope x)"
    using assms(1) unfolding provider_failed_def
    by (auto split: option.splits)
  then show ?thesis
  proof cases
    case retry
    from auto_retry_step [OF retry(1)] show ?thesis
      by (simp add: retry(2) budget_step_def accounted_for_def)
  next
    case failed
    with failed_with_step assms(2) show ?thesis by simp
  next
    case routed
    from exhaustion_step [OF routed(1), of "si_node si"] failed_with_step [of x c envelope] assms(2) routed(2)
    show ?thesis by (cases decided) simp_all
  qed
qed

lemma materialization_step:
  assumes "ns_id (ce_state c) = nd_id (si_node si)" and "ce_running c \<noteq> None"
  shows "budget_step (si_node si) c (startResultMaterialization si cs rt cid c) \<and>
    accounted_for (startResultMaterialization si cs rt cid c)"
  using assms
  by (auto simp: startResultMaterialization_def missing_result_def Let_def budget_step_def accounted_for_def
      stop_with_def has_job_def update_conv' recorded record_invocation_simps(1,2) split: option.splits spawn.splits)

section \<open>From a result to the run's ref\<close>

text \<open>
  The one way a worker's job reaches the ref: a result that says done, verified, on a node whose gate
  is off or does not need its judge.
\<close>

definition cleared :: "site \<Rightarrow> desk \<Rightarrow> desk \<Rightarrow> bool" where
  "cleared si w w' \<longleftrightarrow> (\<exists>w1 dp r. settleDone si dp w1 = Some w' \<and> untouched w w1 \<and>
     dp_result dp = Put (Some r) \<and> wr_status r = Ws_done \<and>
     map_option ve_passed (ns_verification (ce_state (iw_client w1))) = Some True \<and>
     (gt_enabled (nd_gate (si_node si)) \<longrightarrow>
        judgeSkippedByScope (si_node si) (ce_state (iw_client w1)) \<or> \<not> judgeRequired (si_node si)))"

definition judged_close :: "site \<Rightarrow> desk \<Rightarrow> desk \<Rightarrow> bool" where
  "judged_close si w w' \<longleftrightarrow> desk_step si w w' \<and> (untouched w w' \<or> cleared si w w')"

lemma judged_closeI: "desk_step si w w' \<Longrightarrow> untouched w w' \<Longrightarrow> judged_close si w w'"
  by (simp add: judged_close_def)

lemma cleared_from: "untouched w v \<Longrightarrow> cleared si v w' \<Longrightarrow> cleared si w w'"
  unfolding cleared_def using untouched_trans by blast

lemma judged_close_from:
  assumes "judged_close si (w\<lparr>iw_client := c\<rparr>) w'" and "same_node (iw_client w) c"
  shows "judged_close si w w'"
proof -
  have "untouched w (w\<lparr>iw_client := c\<rparr>)" by (simp add: untouched_def)
  with assms show ?thesis unfolding judged_close_def
    using same_step [OF assms(2)] cleared_from untouched_trans by blast
qed

lemma judged_at_node:
  assumes "judged_close si (at_node f w) w'" and "same_node (iw_client w) (f (iw_client w))"
  shows "judged_close si w w'"
  using judged_close_from assms by (simp add: at_node_client)

lemma judged_on_ctl:
  assumes "on_ctl f w = Some w'"
    and "\<And>c'. f (iw_client w) = Some c' \<Longrightarrow> budget_step (si_node si) (iw_client w) c' \<and> accounted_for c'"
  shows "judged_close si w w'"
  using assms by (auto simp: on_ctl_def judged_close_def desk_step_def untouched_def)

lemma judged_stop:
  assumes "budget_step (si_node si) (iw_client w) (f (iw_client w))" and "accounted_for (f (iw_client w))"
  shows "judged_close si w (at_node f w)"
  using assms by (simp add: judged_close_def desk_step_def)

lemma result_failed_simps [simp]:
  "budget_step node c (result_failed si code m c)" "accounted_for (result_failed si code m c)"
  using budget_trans [OF clear_tier_budget budget_stop] by (simp_all add: result_failed_def)

lemma gate_round_step:
  assumes "gate_round si c = Some (outcome, c')" and "ns_id (ce_state c) = nd_id (si_node si)"
    and "ce_running c \<noteq> None"
  shows "c' = c \<and> ((\<exists>v. outcome = Rejected v) \<or> (\<exists>g. outcome = Settle g) \<and>
      (gt_enabled (nd_gate (si_node si)) \<longrightarrow>
        judgeSkippedByScope (si_node si) (ce_state c) \<or> \<not> judgeRequired (si_node si))) \<or>
    (outcome = Dispatched \<or> outcome = Refused) \<and> budget_step (si_node si) c c' \<and> accounted_for c'"
proof (cases "gt_enabled (nd_gate (si_node si))")
  case False
  with assms(1) show ?thesis
    by (auto simp: gate_round_def startMechanicalGate_def Let_def split: prod.splits if_splits)
next
  case True
  then obtain i verdict where
    "aux_admission (si_contract si) (si_node si) (si_states si) Judge (si_now si) (nullish (ce_running c) []) c
       = Some (i, verdict)"
    and start: "case verdict of None \<Rightarrow> startJudge (si_contract si) (si_node si) (si_outside si) (si_now si) c = Some (outcome, c')
      | Some reason \<Rightarrow> outcome = Refused \<and> c' = recordAuxRefusal (ns_status (ce_state c)) Judge reason
          (move Pending (\<lambda>s. s\<lparr>ns_phase := Ph_judge, ns_error := None, ns_blockedBy := []\<rparr>) (si_now si) c)"
    using assms(1) by (auto simp: gate_round_def auxJudgeRound_def split: option.splits)
  then show ?thesis
  proof (cases verdict)
    case None
    with start have "startJudge (si_contract si) (si_node si) (si_outside si) (si_now si) c = Some (outcome, c')"
      by simp
    from startJudge_step [OF this assms(2,3)] same_node_budget show ?thesis by blast
  next
    case (Some reason)
    with start show ?thesis by simp
  qed
qed

lemma worker_result_close:
  assumes "judge_result_of_worker si job r w0 = Some w'" and "ready si w0"
    and "ce_running (iw_client w0) \<noteq> None" and "wr_status r = Ws_done"
  shows "judged_close si w0 w'"
proof -
  define prep where "prep = (\<lambda>c. executeControllerVerification (si_contract si) (si_node si) (si_bench si)
      (on_state clearTierExhaustion c))"
  define w where "w = at_node prep w0"
  have same: "same_node c (prep c)" for c
    unfolding prep_def
    by (rule same_node_trans [OF same_on_state [of clearTierExhaustion] verification_same(1)])
      (simp_all add: clearTierExhaustion_def)
  have w: "ready si w" "ce_running (iw_client w) \<noteq> None"
    using same_at_node(1) [of w0 prep si] same assms(2,3) by (simp_all add: w_def prep_def)
  have go: "(if map_option ve_passed (ns_verification (ce_state (iw_client w))) \<noteq> Some True
      then on_ctl (applyVerificationFailure si) w
      else (let w1 = (if jb_violation job then at_node recordScopeFinding w else w)
            in case gate_round si (iw_client w1) of
                 None \<Rightarrow> None
               | Some (outcome, c) \<Rightarrow> applyJudgeRound si outcome (Some r) (w1\<lparr>iw_client := c\<rparr>))) = Some w'"
    using assms(1) unfolding judge_result_of_worker_def Let_def w_def prep_def .
  have "judged_close si w w'"
  proof (cases "map_option ve_passed (ns_verification (ce_state (iw_client w))) = Some True")
    case False
    with go have "on_ctl (applyVerificationFailure si) w = Some w'" by simp
    then show ?thesis
      by (rule judged_on_ctl) (use rejection_step w(1) in \<open>auto simp: applyVerificationFailure_def ready_def\<close>)
  next
    case passed: True
    define w1 where "w1 = (if jb_violation job then at_node recordScopeFinding w else w)"
    have w1: "ready si w1" "ce_running (iw_client w1) \<noteq> None" "untouched w w1"
      "ns_verification (ce_state (iw_client w1)) = ns_verification (ce_state (iw_client w))"
      using w same_at_node(1) [of w recordScopeFinding si, OF scope_finding_same(1)]
      by (simp_all add: w1_def)
    from go passed obtain outcome c where g: "gate_round si (iw_client w1) = Some (outcome, c)"
      and j: "applyJudgeRound si outcome (Some r) (w1\<lparr>iw_client := c\<rparr>) = Some w'"
      unfolding w1_def by (auto simp: Let_def split: option.splits)
    note step = gate_round_step [OF g] w1(1,2)
    have "judged_close si w1 w'"
    proof (cases outcome)
      case (Rejected v)
      with step have "c = iw_client w1" by (auto simp: ready_def)
      with j Rejected have "on_ctl (applyRejection si v (rejection_for ''mechanical_gate_failed'')) w1 = Some w'"
        by (simp add: applyJudgeRound_def)
      from rejected_desk [OF this] w1(1) show ?thesis by (simp add: judged_close_def)
    next
      case (Settle v)
      with step have c: "c = iw_client w1" "gt_enabled (nd_gate (si_node si)) \<longrightarrow>
          judgeSkippedByScope (si_node si) (ce_state (iw_client w1)) \<or> \<not> judgeRequired (si_node si)"
        by (auto simp: ready_def)
      from j Settle c(1) have s: "settleDone si \<lparr>dp_result = Put (Some r), dp_gate = Put v, dp_error = Keep, dp_unblocked = False\<rparr> w1 = Some w'"
        by (simp add: applyJudgeRound_def)
      have "cleared si w1 w'"
        unfolding cleared_def
        by (rule exI [of _ w1], rule exI [of _ "\<lparr>dp_result = Put (Some r), dp_gate = Put v, dp_error = Keep, dp_unblocked = False\<rparr>"],
            rule exI [of _ r]) (use s c(2) assms(4) passed w1(4) in simp)
      with settled_desk [OF s w1(1)] show ?thesis by (simp add: judged_close_def)
    qed (use j step in \<open>auto simp: applyJudgeRound_def judged_close_def desk_step_def untouched_def ready_def\<close>)
    then show ?thesis unfolding w1_def by (auto split: if_splits intro: judged_at_node)
  qed
  then show ?thesis unfolding w_def by (rule judged_at_node) (rule same)
qed

lemma resolve_same:
  "resolveWorkerResult si cs pr c = Inr (r, c') \<Longrightarrow> same_node c c' \<and> ce_running c' = ce_running c"
  by (auto simp: resolveWorkerResult_def split: sum.splits option.splits if_splits)

lemma reuse_facts:
  "canReuseResultEvidence s node \<Longrightarrow> map_option ve_passed (ns_verification s) = Some True \<and> \<not> gt_enabled (nd_gate node)"
  by (auto simp: canReuseResultEvidence_def split: option.splits)

lemma take_result_close:
  assumes "take_result si cs job envelope w = Some w'" and "ready si w" and "ce_running (iw_client w) \<noteq> None"
  shows "judged_close si w w'"
proof (cases "resolveWorkerResult si cs (en_result envelope) (iw_client w)")
  case (Inl e)
  have invalid: "on_ctl (applyInvalidWorkerResult si x) w = Some w' \<Longrightarrow> judged_close si w w'" for x
    by (rule judged_on_ctl) (use invalid_result_step assms(2) in \<open>auto simp: ready_def\<close>)
  have stop: "judged_close si w (at_node (result_failed si code m) w)" for code m
    by (rule judged_stop) simp_all
  from assms(1) Inl show ?thesis
    using invalid [of e] stop by (cases e) (auto simp: take_result_def split: if_splits)
next
  case (Inr found)
  obtain r c where found: "resolveWorkerResult si cs (en_result envelope) (iw_client w) = Inr (r, c)"
    using Inr by (cases found) simp
  note c = resolve_same [OF found]
  let ?w = "w\<lparr>iw_client := c\<rparr>"
  have w: "ready si ?w" "ce_running (iw_client ?w) \<noteq> None" using c assms(2,3) same_ready by auto
  have "judged_close si ?w w'"
  proof (cases "if owes_packet (si_node si) r
      then parseDiscoveryResult (oe_parse (si_outside si)) (cs_packet cs) r else None")
    case (Some e)
    with assms(1) found have "on_ctl (applyInvalidWorkerResult si e) ?w = Some w'"
      by (simp add: take_result_def)
    then show ?thesis by (rule judged_on_ctl) (use invalid_result_step w(1) in \<open>auto simp: ready_def\<close>)
  next
    case None
    define w1 where "w1 = at_node (on_state (\<lambda>s. s\<lparr>ns_result := Some r\<rparr>)) ?w"
    have go: "(if wr_status r = Ws_blocked_context
        then Some (at_node (stop_with Blocked Ph_complete (mk_error ''context_missing''
               (join_with ''; '' (wr_missingContext r))) (si_now si) \<circ> on_state clearTierExhaustion) w1)
        else if jb_materialization job \<and> canReuseResultEvidence (ce_state (iw_client w1)) (si_node si)
        then settleDone si \<lparr>dp_result = Put (Some r), dp_gate = Keep, dp_error = Put None, dp_unblocked = False\<rparr>
               (at_node (on_state clearTierExhaustion) w1)
        else judge_result_of_worker si job r w1) = Some w'"
      using assms(1) found None unfolding take_result_def w1_def by (simp add: Let_def)
    have kept: "same_node (iw_client ?w) (on_state (\<lambda>s. s\<lparr>ns_result := Some r\<rparr>) (iw_client ?w))"
      by (simp add: same_node_def)
    have w1: "ready si w1" "ce_running (iw_client w1) \<noteq> None"
      using same_at_node(1) [of ?w "on_state (\<lambda>s. s\<lparr>ns_result := Some r\<rparr>)" si, OF kept] w
      by (simp_all add: w1_def)
    have "judged_close si w1 w'"
    proof (cases "wr_status r = Ws_blocked_context")
      case True
      with go have "w' = at_node (stop_with Blocked Ph_complete (mk_error ''context_missing''
          (join_with ''; '' (wr_missingContext r))) (si_now si) \<circ> on_state clearTierExhaustion) w1" by simp
      then show ?thesis using budget_trans [OF clear_tier_budget budget_stop] by (simp add: judged_stop)
    next
      case False
      then have done': "wr_status r = Ws_done" by (cases "wr_status r") simp_all
      show ?thesis
      proof (cases "jb_materialization job \<and> canReuseResultEvidence (ce_state (iw_client w1)) (si_node si)")
        case True
        let ?v = "at_node (on_state clearTierExhaustion) w1"
        let ?dp = "\<lparr>dp_result = Put (Some r), dp_gate = Keep, dp_error = Put None, dp_unblocked = False\<rparr>"
        have s: "settleDone si ?dp ?v = Some w'" using go False True by simp
        have "ready si ?v" using w1(1) by (simp add: minor_ready)
        from settled_desk [OF s this] minor_step [OF minor_facts(3)] have "desk_step si w1 w'" by blast
        moreover have "cleared si w1 w'"
          unfolding cleared_def
          by (rule exI [of _ ?v], rule exI [of _ ?dp], rule exI [of _ r])
            (use s True done' reuse_facts [of "ce_state (iw_client w1)" "si_node si"] in simp)
        ultimately show ?thesis by (simp add: judged_close_def)
      next
        case fresh: False
        with go False have "judge_result_of_worker si job r w1 = Some w'" by simp
        from worker_result_close [OF this w1 done'] show ?thesis .
      qed
    qed
    then show ?thesis unfolding w1_def by (rule judged_at_node) (rule kept)
  qed
  with judged_close_from c show ?thesis by blast
qed

lemma exhausted_close:
  assumes "on_ctl (\<lambda>c. map_option snd (handleProviderExhaustion si role envelope given None c)) w = Some w'"
  shows "judged_close si w w'"
proof (rule judged_on_ctl [OF assms])
  fix c' assume "map_option snd (handleProviderExhaustion si role envelope given None (iw_client w)) = Some c'"
  then obtain decided where h: "handleProviderExhaustion si role envelope given None (iw_client w) = Some (decided, c')"
    by auto
  have "decided"
    using h unfolding handleProviderExhaustion_def follow_plan_def Let_def
    by (auto split: if_splits option.splits sum.splits)
  with exhaustion_step [OF h] show "budget_step (si_node si) (iw_client w) c' \<and> accounted_for c'" by blast
qed

lemma close_worker_close:
  assumes "close_worker si cs job envelope adopted w0 = Some w'" and "ready si w0"
    and "ce_running (iw_client w0) \<noteq> None" and "SETTLED (en_status envelope)"
  shows "judged_close si w0 w'"
proof (cases "adopted = None \<and> en_status envelope = Exhausted")
  case True
  with assms(1) have "on_ctl (\<lambda>c. map_option snd (handleProviderExhaustion si Worker envelope
      (Some (jb_runtime job)) None c)) w0 = Some w'" by (simp add: close_worker_def)
  then show ?thesis by (rule exhausted_close)
next
  case False
  define settled where "settled = (\<lambda>c. case adopted of
            None \<Rightarrow> c
          | Some r \<Rightarrow> settle_in (jb_invocation job)
              ((close_request ''done'' envelope
                 (Some (stringify (oe_num (si_outside si)) (write_worker_result r))) (ce_state c)))
              (si_now si) c)"
  define prep where "prep = materialize cs (nd_id (si_node si)) \<circ> settled"
  have prep: "same_node c (prep c)" "ce_running (prep c) = ce_running c" for c
    unfolding prep_def settled_def by (cases adopted; simp add: same_node_def)+
  define w where "w = at_node prep w0"
  have w: "ready si w" "ce_running (iw_client w) \<noteq> None"
    using same_at_node(1) [of w0 prep si] prep assms(2,3) by (simp_all add: w_def)
  have "\<exists>f. w' = at_node f w \<and> (f = missing_result ''result-only materialization produced no canonical worker result'' si
          \<circ> on_state clearTierExhaustion \<or>
        f = startResultMaterialization si cs (jb_runtime job)
              (orelse (en_continuationId envelope) (in_continuationId (jb_invocation job)))) \<or>
      on_ctl (provider_failed si job envelope) w = Some w' \<or> take_result si cs job envelope w = Some w'"
    using assms(1) False unfolding close_worker_def Let_def w_def prep_def settled_def
    by (auto split: if_splits)
  moreover have "judged_close si w (at_node (missing_result m si \<circ> on_state clearTierExhaustion) w)" for m
    using budget_trans [OF clear_tier_budget budget_stop]
    by (simp add: judged_stop missing_result_def)
  moreover have "judged_close si w (at_node (startResultMaterialization si cs rt cid) w)" for rt cid
    using materialization_step [of "iw_client w" si] w by (simp add: judged_stop ready_def)
  moreover have "on_ctl (provider_failed si job envelope) w = Some w' \<Longrightarrow> judged_close si w w'"
    by (rule judged_on_ctl) (use provider_failed_step assms(4) in blast)+
  ultimately have "judged_close si w w'" using take_result_close [OF _ w] by blast
  then show ?thesis unfolding w_def by (rule judged_at_node) (rule prep(1))
qed

section \<open>Closing any job\<close>

lemma close_judge_close:
  assumes "close_judge si cs job envelope w = Some w'" and "ready si w" and "ce_running (iw_client w) \<noteq> None"
  shows "desk_step si w w'"
proof -
  consider (wrote) m where "w' = at_node (raiseNodeAttention ''judge_protocol''
            \<circ> stop_with Blocked Ph_judge (mk_error ''judge_protocol'' m) (si_now si)
            \<circ> on_state clearTierExhaustion) w"
    | (exhausted) "on_ctl (\<lambda>c. map_option snd (handleProviderExhaustion si Judge envelope
                 (Some (jb_runtime job)) None c)) w = Some w'"
    | (round') jj where "settleJudgeRound si jj envelope w = Some w'"
    using assms(1) unfolding close_judge_def by (auto split: option.splits if_splits)
  then show ?thesis
  proof cases
    case wrote
    then show ?thesis
      using budget_trans [OF clear_tier_budget budget_stop] by (simp add: desk_step_def)
  next
    case exhausted
    from exhausted_close [OF exhausted] show ?thesis by (simp add: judged_close_def)
  next
    case round'
    from settle_round_desk(1) [OF round' assms(2,3)] show ?thesis .
  qed
qed

text \<open>How a job that is not refused at once closes: the gate let it through, on the same node.\<close>

lemma gate_refusal_settles:
  assumes "scope_gate si cs done' job c = (False, job', c')"
    and "\<not> (jb_checked job \<and> jb_violation job)"
  shows "SETTLED (ns_status (ce_state c'))"
proof (cases "jb_phase job = Worker \<and> \<not> jb_materialization job")
  case True
  then have "checkWorkerScope (cs_outlook cs) (si_node si) done' (si_now si) job c = (False, job', c')"
    using assms(1) by (simp add: scope_gate_def)
  moreover from this assms(2) have "\<not> jb_checked job" by (auto simp: checkWorkerScope_def)
  ultimately show ?thesis using worker_scope_verdict(2) by blast
next
  case False
  then have "jb_phase job \<noteq> Judge" "jb_materialization job"
    using assms(1) by (cases "jb_phase job"; simp add: scope_gate_def)+
  then have "checkResultMaterializationScope (cs_outlook cs) (si_now si) job c = (False, job', c')"
    using assms(1) by (simp add: scope_gate_def)
  then show ?thesis
    using assms(2)
    by (auto simp: checkResultMaterializationScope_def Let_def scope_failed_def stop_with_def
        split: if_splits sum.splits)
qed

lemma finalize_cases:
  assumes "finalizeClosedJob si cs job envelope w = Some w'" and "\<not> (jb_checked job \<and> jb_violation job)"
  obtains (settled) "SETTLED (ns_status (ce_state (iw_client w)))" "w' = at_node persist w"
    | (unstarted) m where "w' = at_node (spawn_failed si job m) w"
    | (refused) c where "w' = w\<lparr>iw_client := c\<rparr>" "same_node (iw_client w) c" "SETTLED (ns_status (ce_state c))"
    | (checked) adopted c1 job' c2 c where "adopted_result si cs job (iw_client w) = (adopted, c1)"
        "scope_gate si cs (completed adopted) job c1 = (True, job', c2)" "same_node (iw_client w) c"
        "ce_running c = ce_running (iw_client w)"
        "close_checked si cs job' envelope adopted (w\<lparr>iw_client := c\<rparr>) = Some w'"
proof (cases "SETTLED (ns_status (ce_state (iw_client w))) \<or> jb_spawnError job \<noteq> None")
  case True
  with assms(1) settled unstarted show thesis
    by (auto simp: finalizeClosedJob_def simp del: SETTLED.simps split: if_splits)
next
  case False
  obtain adopted c1 where a: "adopted_result si cs job (iw_client w) = (adopted, c1)" by fastforce
  obtain ok job' c2 where g: "scope_gate si cs (completed adopted) job c1 = (ok, job', c2)"
    by (metis prod_cases3)
  have go: "(if \<not> ok then Some (w\<lparr>iw_client := scope_refused si job' envelope c2\<rparr>)
      else close_checked si cs job' envelope adopted (w\<lparr>iw_client := record_close si job' envelope c2\<rparr>)) = Some w'"
    using assms(1) False a g unfolding finalizeClosedJob_def by simp
  have same: "same_node (iw_client w) c2" "ce_running c2 = ce_running (iw_client w)"
    using gate_same [OF g] adopted_same [OF a] same_node_trans by auto
  show thesis
  proof (cases ok)
    case True
    show thesis
      by (rule checked [OF a _ same_node_trans [OF same(1) record_close_same(1)]])
        (use g go True same in simp_all)
  next
    case no: False
    from g no have "scope_gate si cs (completed adopted) job c1 = (False, job', c2)" by simp
    from gate_refusal_settles [OF this assms(2)] have "SETTLED (ns_status (ce_state c2))" .
    then show thesis
      by (intro refused [of "scope_refused si job' envelope c2"])
        (use go no same(1) in \<open>simp_all add: scope_refused_def Let_def same_node_def\<close>)
  qed
qed

lemma checked_close:
  assumes "close_checked si cs job envelope adopted w = Some w'" and "ready si w"
    and "ce_running (iw_client w) \<noteq> None" and "SETTLED (en_status envelope)"
  shows "desk_step si w w'" and "jb_phase job = Worker \<Longrightarrow> judged_close si w w'"
proof -
  have worker: "judged_close si w w'" if "jb_phase job = Worker"
  proof -
    have "(\<exists>e. on_ctl (applyInvalidWorkerResult si e) w = Some w') \<or>
        (\<exists>r. close_worker si cs job envelope r w = Some w')"
      using assms(1) that unfolding close_checked_def by (auto split: sum.splits if_splits)
    moreover have "on_ctl (applyInvalidWorkerResult si e) w = Some w' \<Longrightarrow> judged_close si w w'" for e
      by (rule judged_on_ctl) (use invalid_result_step assms(2) in \<open>auto simp: ready_def\<close>)
    ultimately show ?thesis using close_worker_close [OF _ assms(2-4)] by blast
  qed
  then show "desk_step si w w'"
    using close_judge_close [OF _ assms(2,3)] assms(1)
    by (cases "jb_phase job") (auto simp: close_checked_def judged_close_def)
  show "jb_phase job = Worker \<Longrightarrow> judged_close si w w'" by (rule worker)
qed

lemma finalize_desk:
  assumes "finalizeClosedJob si cs job envelope w = Some w'" and "ready si w"
    and "ce_running (iw_client w) \<noteq> None" and "SETTLED (en_status envelope)"
    and "\<not> (jb_checked job \<and> jb_violation job)"
  shows "desk_step si w w'"
  using assms(1,5)
proof (cases rule: finalize_cases)
  case settled
  then show ?thesis by (auto simp: desk_step_def accounted_for_def)
next
  case (unstarted m)
  let ?d = "settle_in (jb_invocation job) (empty_request\<lparr>sr_status := Some ''failed'',
            sr_error := Some (''spawn_error'', m), sr_reason := Some ''provider did not start'',
            sr_nextState := Put (Some (operationNextState (ce_state (iw_client w))))\<rparr>) (si_now si) (iw_client w)"
  have "budget_step (si_node si) (iw_client w) ?d" by (simp add: budget_step_def)
  then have "budget_step (si_node si) (iw_client w) (spawn_failed si job m (iw_client w))"
    unfolding spawn_failed_def by (blast intro: budget_trans budget_stop clear_tier_budget)
  with unstarted show ?thesis by (simp add: desk_step_def spawn_failed_def)
next
  case (refused c)
  then show ?thesis using same_node_budget by (auto simp: desk_step_def accounted_for_def)
next
  case (checked adopted c1 job' c2 c)
  have "ready si (w\<lparr>iw_client := c\<rparr>)" using same_ready [OF checked(3)] assms(2) by simp
  from checked_close(1) [OF checked(5) this _ assms(4)] checked(4) assms(3)
  have "desk_step si (w\<lparr>iw_client := c\<rparr>) w'" by simp
  then show ?thesis by (rule same_step [OF checked(3)])
qed

lemma gate_keeps_job:
  "scope_gate si cs done' job c = (ok, job', c') \<Longrightarrow>
     jb_phase job' = jb_phase job \<and> jb_materialization job' = jb_materialization job"
  by (auto simp: scope_gate_def checkWorkerScope_def checkResultMaterializationScope_def Let_def
      split: if_splits sum.splits)

lemma adopted_state: "adopted_result si cs job c = (adopted, c') \<Longrightarrow> ce_state c' = ce_state c"
  by (auto simp: adopted_result_def Let_def split: if_splits)

text \<open>What the gate knew of the workspace when it let a worker's job through.\<close>

lemma gate_passed:
  assumes "scope_gate si cs done' job c = (True, job', c')" and "jb_phase job = Worker" and "\<not> jb_checked job"
  shows "if jb_materialization job
    then \<exists>before change. baseline_of (cs_outlook cs) ''result materialization scope'' (jb_baseline job)
           (in_snapshotPath (jb_invocation job)) = Inr before \<and>
         compareWorkspaceSnapshot (ol_tree (cs_outlook cs)) before None [] [] = Inr change \<and>
         wc_changedPaths change = []
    else \<exists>b change. scope_change (cs_outlook cs) (si_node si) (ce_state c) (baseline_of (cs_outlook cs)
           ''worker scope'' (jb_baseline job) (in_snapshotPath (jb_invocation job))) = Inr (b, change) \<and>
         (wc_unexpectedPaths change = [] \<or> done' \<and>
          (\<forall>p \<in> set (take 64 (wc_unexpectedPaths change)).
             \<not> cites (si_node si) (ol_workspace (cs_outlook cs)) p))"
proof (cases "jb_materialization job")
  case True
  with assms show ?thesis
    by (auto simp: scope_gate_def checkResultMaterializationScope_def Let_def split: if_splits sum.splits)
next
  case False
  with assms have "checkWorkerScope (cs_outlook cs) (si_node si) done' (si_now si) job c = (True, job', c')"
    by (simp add: scope_gate_def)
  from worker_scope_verdict(1) [OF this assms(3)] False show ?thesis by auto
qed

section \<open>A sample close\<close>

text \<open>A site without a judge whose workers answer \<open>accepted_result\<close>, and a worker that wrote the file it may.\<close>

definition closing_site :: site where
  "closing_site = sample_site\<lparr>si_node := (si_node sample_site)\<lparr>nd_gate := (sample_gate None)\<lparr>gt_enabled := False\<rparr>\<rparr>,
     si_outside := sample_outside\<lparr>oe_parse := (\<lambda>t. Inr (write_worker_result accepted_result))\<rparr>\<rparr>"

definition sample_closing :: closing where
  "sample_closing = \<lparr>cs_outlook = \<lparr>ol_tree = sample_tree, ol_workspace = ''/wt/a'',
       ol_read = (\<lambda>p. Inl (mk_error [] [])), ol_receipts = (\<lambda>i. []), ol_bench = sample_bench\<rparr>,
     cs_attemptFile = None, cs_extract = (\<lambda>t. t), cs_packet = (\<lambda>j. None), cs_continues = False,
     cs_snapshotError = None\<rparr>"

definition sample_job :: job where
  "sample_job = \<lparr>jb_invocation = sample_invocation ''i-1'' Worker ''glm'', jb_runtime = ''glm'',
     jb_exitCode = Some 0, jb_phase = Worker, jb_spawnError = None, jb_materialization = False,
     jb_baseline = Some \<lparr>wk_entries = [], wk_ignoreSources = [], wk_truncated = False\<rparr>,
     jb_checked = False, jb_violation = False\<rparr>"

definition worker_desk :: desk where
  "worker_desk = at_node (on_state (\<lambda>s. s\<lparr>ns_phase := Ph_worker, ns_runtime := Some ''glm''\<rparr>)) sample_desk"

abbreviation done_envelope :: envelope where
  "done_envelope \<equiv> (sample_envelope Done None)\<lparr>en_result := Some ''done''\<rparr>"

lemma sample_adopted:
  "adopted_result closing_site sample_closing sample_job (iw_client worker_desk) = (Inr None, iw_client worker_desk)"
  by (simp add: adopted_result_def sample_job_def materialize_def sample_closing_def readWorkerResultFile_def
      worker_desk_def sample_desk_def sample_ctl_def sample_run_dir_def)

definition sample_scope :: scope where
  "sample_scope = \<lparr>sc_changedPathCount = Some 1, sc_changedPaths = Some [''src/a.mjs''],
     sc_unexpectedPaths = [], sc_unexpectedPathCount = Some 0, sc_boundary = Some \<lparr>bd_files = [''src/a.mjs''],
       bd_roots = [], bd_fileRoots = [], bd_fileOrigins = [(''src/a.mjs'', [''src/a.mjs''])],
       bd_rootOrigins = []\<rparr>, sc_truncated = False\<rparr>"

lemma sample_change:
  "\<exists>b change. scope_change (cs_outlook sample_closing) (si_node closing_site) (ce_state (iw_client worker_desk))
     (Inr \<lparr>wk_entries = [], wk_ignoreSources = [], wk_truncated = False\<rparr>) = Inr (b, change) \<and>
     boundedScope change b = sample_scope \<and> wc_unexpectedPaths change = []"
  by (simp add: sample_closing_def closing_site_def sample_site_def worker_desk_def sample_desk_def
     sample_node_def sample_tree_def scope_change_def readBoundary_def empty_scope_def
     workspace_evals
     boundedScope_def sample_scope_def)

lemma sample_gate_passes:
  "scope_gate closing_site sample_closing False sample_job (iw_client worker_desk) =
     (True, sample_job\<lparr>jb_checked := True\<rparr>,
      on_state (\<lambda>s. s\<lparr>ns_scope := Some sample_scope\<rparr>) (iw_client worker_desk))"
proof -
  from sample_change obtain b change where c: "scope_change (cs_outlook sample_closing) (si_node closing_site)
      (ce_state (iw_client worker_desk)) (Inr \<lparr>wk_entries = [], wk_ignoreSources = [], wk_truncated = False\<rparr>)
      = Inr (b, change)" "boundedScope change b = sample_scope" "wc_unexpectedPaths change = []" by blast
  have "baseline_of (cs_outlook sample_closing) ''worker scope'' (jb_baseline sample_job)
      (in_snapshotPath (jb_invocation sample_job)) =
      Inr \<lparr>wk_entries = [], wk_ignoreSources = [], wk_truncated = False\<rparr>"
    "jb_phase sample_job = Worker" "\<not> jb_materialization sample_job" "\<not> jb_checked sample_job"
    by (simp_all add: baseline_of_def sample_job_def)
  with c show ?thesis by (simp add: scope_gate_def checkWorkerScope_def Let_def)
qed

definition closed_desk :: desk where
  "closed_desk = worker_desk\<lparr>iw_client := record_close closing_site (sample_job\<lparr>jb_checked := True\<rparr>) done_envelope
     (on_state (\<lambda>s. s\<lparr>ns_scope := Some sample_scope\<rparr>) (iw_client worker_desk))\<rparr>"

lemma results_settle [simp]: "rd_results (ce_rd (settle_in i request now c)) = rd_results (ce_rd c)"
  by (simp add: settle_in_def settleInvocation_def Let_def)

lemma closed_desk_results: "rd_results (ce_rd (iw_client closed_desk)) = []"
  by (simp add: closed_desk_def record_close_def worker_desk_def sample_desk_def sample_ctl_def
      sample_run_dir_def Let_def)

lemma sample_closes:
  "finalizeClosedJob closing_site sample_closing sample_job done_envelope worker_desk =
     judge_result_of_worker closing_site (sample_job\<lparr>jb_checked := True\<rparr>) accepted_result
       (at_node (on_state (\<lambda>s. s\<lparr>ns_result := Some accepted_result\<rparr>)
          \<circ> persist_result closing_site accepted_result) closed_desk)"
proof -
  have s: "\<not> SETTLED (ns_status (ce_state (iw_client worker_desk)))" "jb_spawnError sample_job = None"
    "jb_phase sample_job = Worker" "\<not> jb_materialization sample_job"
    "en_status done_envelope = Done" "en_result done_envelope = Some ''done''"
    by (simp_all add: worker_desk_def sample_desk_def sample_ctl_def sample_snapshot_def sample_job_def
        sample_envelope_def)
  have "finalizeClosedJob closing_site sample_closing sample_job done_envelope worker_desk =
      close_worker closing_site sample_closing (sample_job\<lparr>jb_checked := True\<rparr>) done_envelope None closed_desk"
    using s by (simp add: finalizeClosedJob_def sample_adopted completed_def sample_gate_passes
        closed_desk_def close_checked_def del: SETTLED.simps)
  also have "\<dots> = take_result closing_site sample_closing (sample_job\<lparr>jb_checked := True\<rparr>) done_envelope closed_desk"
    using s by (simp add: close_worker_def Let_def materialize_def sample_closing_def at_node_client)
  also have "resolveWorkerResult closing_site sample_closing (Some ''done'') (iw_client closed_desk) =
      Inr (accepted_result, persist_result closing_site accepted_result (iw_client closed_desk))"
    using accepted_ok
    by (simp add: resolveWorkerResult_def readWorkerResultFile_def closed_desk_results parseWorkerResult_def
        sample_closing_def closing_site_def sample_outside_def result_bytes_def result_outputBytes_def
        discoveryOutput_def accepted_result_def sample_site_def)
  then have "take_result closing_site sample_closing (sample_job\<lparr>jb_checked := True\<rparr>) done_envelope closed_desk =
      judge_result_of_worker closing_site (sample_job\<lparr>jb_checked := True\<rparr>) accepted_result
        (at_node (on_state (\<lambda>s. s\<lparr>ns_result := Some accepted_result\<rparr>)
          \<circ> persist_result closing_site accepted_result) closed_desk)"
    using s by (simp add: take_result_def owes_packet_def closing_site_def sample_site_def sample_node_def
        accepted_result_def at_node_client)
  finally show ?thesis .
qed

text \<open>What the settlement of the invocation says does not matter to the rest.\<close>

lemma closed_desk_is:
  "\<exists>rs. closed_desk = worker_desk\<lparr>iw_client := (on_state (\<lambda>s. s\<lparr>ns_scope := Some sample_scope\<rparr>)
     (iw_client worker_desk))\<lparr>ce_rd := sample_run_dir\<lparr>rd_settlements := [(''i-1'', rs)]\<rparr>\<rparr>\<rparr>"
  by (simp add: closed_desk_def record_close_def settle_in_def settleInvocation_def worker_desk_def sample_desk_def
      sample_ctl_def sample_run_dir_def sample_snapshot_def sample_job_def sample_invocation_def Let_def
      on_state_def at_node_client)

lemma sample_close_accepts:
  "\<exists>w'. finalizeClosedJob closing_site sample_closing sample_job done_envelope worker_desk = Some w' \<and>
     iw_ref w' = Some ''base-a'' \<and> ns_status (ce_state (iw_client w')) = Done"
proof -
  obtain rs where rs: "closed_desk = worker_desk\<lparr>iw_client := (on_state (\<lambda>s. s\<lparr>ns_scope := Some sample_scope\<rparr>)
     (iw_client worker_desk))\<lparr>ce_rd := sample_run_dir\<lparr>rd_settlements := [(''i-1'', rs)]\<rparr>\<rparr>\<rparr>"
    using closed_desk_is by blast
  have "map_option (\<lambda>w. (iw_ref w, ns_status (ce_state (iw_client w))))
      (finalizeClosedJob closing_site sample_closing sample_job done_envelope worker_desk) =
      Some (Some ''base-a'', Done)"
    unfolding sample_closes rs by code_simp
  then show ?thesis by auto
qed

lemma worker_desk_ready:
  "ns_id (ce_state (iw_client worker_desk)) = nd_id (si_node closing_site)"
  "ce_running (iw_client worker_desk) \<noteq> None"
  "no_open_tx (iw_journal worker_desk) (nd_id (si_node closing_site)) (ns_attempt (ce_state (iw_client worker_desk)))"
  using sample_desks(1-3) by (simp_all add: worker_desk_def closing_site_def sample_site_def)

section \<open>What every closed job keeps\<close>

text \<open>
  C4. However a job of an attempt without an open integration transaction closes, a worker's or a
  judge's (a settled node, a process that never started, a write outside its scope, a result that cannot
  be read or breaks the protocol, an exhausted or a failing provider, a missing result that is asked for
  again, a result that is judged and integrated), the node has not lost a revision nor spent more than
  its gate allows, and it is not left running without a job.
\<close>

theorem closed_job_bounded_and_accounted:
  assumes "finalizeClosedJob si cs job envelope w = Some w'"
    and "ns_id (ce_state (iw_client w)) = nd_id (si_node si)" and "ce_running (iw_client w) \<noteq> None"
    and "no_open_tx (iw_journal w) (nd_id (si_node si)) (ns_attempt (ce_state (iw_client w)))"
    and "SETTLED (en_status envelope)" and "\<not> (jb_checked job \<and> jb_violation job)"
  shows "ns_revisions (ce_state (iw_client w)) \<le> ns_revisions (ce_state (iw_client w')) \<and>
    ns_revisions (ce_state (iw_client w'))
      \<le> max (ns_revisions (ce_state (iw_client w))) (maxRevisions (si_node si)) \<and>
    (ns_status (ce_state (iw_client w')) \<noteq> Running \<or> has_job (iw_client w'))"
  using finalize_desk [OF assms(1)] assms(2-6)
  by (auto simp: ready_def desk_step_def budget_step_def accounted_for_def simp del: SETTLED.simps)

theorem closed_job_bounded_and_accounted_witness:
  "\<exists>w'. finalizeClosedJob closing_site sample_closing sample_job done_envelope worker_desk = Some w' \<and>
     ns_status (ce_state (iw_client w')) = Done \<and> ns_revisions (ce_state (iw_client w')) \<le> 1"
proof -
  obtain w' where w': "finalizeClosedJob closing_site sample_closing sample_job done_envelope worker_desk = Some w'"
    "ns_status (ce_state (iw_client w')) = Done" using sample_close_accepts by blast
  have "maxRevisions (si_node closing_site) = 1" "ns_revisions (ce_state (iw_client worker_desk)) = 0"
    by (simp_all add: maxRevisions_def closing_site_def sample_gate_def worker_desk_def sample_desk_def
        sample_snapshot_def)
  with closed_job_bounded_and_accounted [OF w'(1) worker_desk_ready] w' show ?thesis
    by (auto simp: sample_job_def sample_envelope_def)
qed

text \<open>
  C2. Closing a worker's job moves the run's ref, or begins an integration, only for a result that
  says done, that the controller has verified, of a node whose gate is off or does not need its judge;
  and only after its workspace was compared with what it held before: a turn that was to write its
  result alone changed nothing, an attempt wrote nothing outside its boundary, or its own
  result file said done and no proof of the node names any of the stray paths that are recorded.
\<close>

theorem worker_close_guards_the_ref:
  assumes "finalizeClosedJob si cs job envelope w = Some w'"
    and "ns_id (ce_state (iw_client w)) = nd_id (si_node si)" and "ce_running (iw_client w) \<noteq> None"
    and "no_open_tx (iw_journal w) (nd_id (si_node si)) (ns_attempt (ce_state (iw_client w)))"
    and "SETTLED (en_status envelope)" and "jb_phase job = Worker" and "\<not> jb_checked job"
    and "iw_ref w' \<noteq> iw_ref w \<or> iw_journal w' \<noteq> iw_journal w"
  shows "(\<exists>v dp r. settleDone si dp v = Some w' \<and> dp_result dp = Put (Some r) \<and> wr_status r = Ws_done \<and>
      map_option ve_passed (ns_verification (ce_state (iw_client v))) = Some True \<and>
      (gt_enabled (nd_gate (si_node si)) \<longrightarrow>
         judgeSkippedByScope (si_node si) (ce_state (iw_client v)) \<or> \<not> judgeRequired (si_node si))) \<and>
    (if jb_materialization job
      then \<exists>before change. baseline_of (cs_outlook cs) ''result materialization scope'' (jb_baseline job)
             (in_snapshotPath (jb_invocation job)) = Inr before \<and>
           compareWorkspaceSnapshot (ol_tree (cs_outlook cs)) before None [] [] = Inr change \<and>
           wc_changedPaths change = []
      else \<exists>b change. scope_change (cs_outlook cs) (si_node si) (ce_state (iw_client w)) (baseline_of
             (cs_outlook cs) ''worker scope'' (jb_baseline job) (in_snapshotPath (jb_invocation job)))
               = Inr (b, change) \<and>
           (wc_unexpectedPaths change = [] \<or> completed (fst (adopted_result si cs job (iw_client w))) \<and>
            (\<forall>p \<in> set (take 64 (wc_unexpectedPaths change)).
               \<not> cites (si_node si) (ol_workspace (cs_outlook cs)) p)))"
proof -
  have fresh: "\<not> (jb_checked job \<and> jb_violation job)" and moved: "\<not> untouched w w'"
    using assms(7,8) by (auto simp: untouched_def)
  have ready: "ready si w" using assms(2,4) by (simp add: ready_def)
  obtain adopted c1 job' c2 c where
    a: "adopted_result si cs job (iw_client w) = (adopted, c1)"
    and g: "scope_gate si cs (completed adopted) job c1 = (True, job', c2)"
    and same: "same_node (iw_client w) c" "ce_running c = ce_running (iw_client w)"
    and close: "close_checked si cs job' envelope adopted (w\<lparr>iw_client := c\<rparr>) = Some w'"
    by (rule finalize_cases [OF assms(1) fresh]) (use moved in \<open>simp_all add: untouched_def\<close>)
  have "ready si (w\<lparr>iw_client := c\<rparr>)" using same_ready [OF same(1)] ready by simp
  moreover have "jb_phase job' = Worker" using gate_keeps_job [OF g] assms(6) by simp
  ultimately have "judged_close si (w\<lparr>iw_client := c\<rparr>) w'"
    using checked_close(2) [OF close _ _ assms(5)] same(2) assms(3) by simp
  with moved have "cleared si (w\<lparr>iw_client := c\<rparr>) w'" by (auto simp: judged_close_def untouched_def)
  then have "\<exists>v dp r. settleDone si dp v = Some w' \<and> dp_result dp = Put (Some r) \<and> wr_status r = Ws_done \<and>
      map_option ve_passed (ns_verification (ce_state (iw_client v))) = Some True \<and>
      (gt_enabled (nd_gate (si_node si)) \<longrightarrow>
         judgeSkippedByScope (si_node si) (ce_state (iw_client v)) \<or> \<not> judgeRequired (si_node si))"
    unfolding cleared_def by blast
  moreover have "if jb_materialization job
      then \<exists>before change. baseline_of (cs_outlook cs) ''result materialization scope'' (jb_baseline job)
             (in_snapshotPath (jb_invocation job)) = Inr before \<and>
           compareWorkspaceSnapshot (ol_tree (cs_outlook cs)) before None [] [] = Inr change \<and>
           wc_changedPaths change = []
      else \<exists>b change. scope_change (cs_outlook cs) (si_node si) (ce_state (iw_client w)) (baseline_of
             (cs_outlook cs) ''worker scope'' (jb_baseline job) (in_snapshotPath (jb_invocation job)))
               = Inr (b, change) \<and>
           (wc_unexpectedPaths change = [] \<or> completed (fst (adopted_result si cs job (iw_client w))) \<and>
            (\<forall>p \<in> set (take 64 (wc_unexpectedPaths change)).
               \<not> cites (si_node si) (ol_workspace (cs_outlook cs)) p))"
    using gate_passed [OF g assms(6,7)] by (simp only: a adopted_state [OF a] fst_conv)
  ultimately show ?thesis by blast
qed

theorem worker_close_guards_the_ref_witness:
  "\<exists>w' v dp r b change. finalizeClosedJob closing_site sample_closing sample_job done_envelope worker_desk = Some w' \<and>
     iw_ref w' = Some ''base-a'' \<and> settleDone closing_site dp v = Some w' \<and> dp_result dp = Put (Some r) \<and>
     wr_status r = Ws_done \<and> scope_change (cs_outlook sample_closing) (si_node closing_site) (ce_state (iw_client worker_desk))
       (Inr \<lparr>wk_entries = [], wk_ignoreSources = [], wk_truncated = False\<rparr>) = Inr (b, change) \<and>
     wc_unexpectedPaths change = []"
proof -
  obtain w' where w': "finalizeClosedJob closing_site sample_closing sample_job done_envelope worker_desk = Some w'"
    "iw_ref w' = Some ''base-a''" using sample_close_accepts by blast
  then have moved: "iw_ref w' \<noteq> iw_ref worker_desk \<or> iw_journal w' \<noteq> iw_journal worker_desk"
    by (simp add: worker_desk_def sample_desk_def)
  have job: "SETTLED (en_status done_envelope)" "jb_phase sample_job = Worker" "\<not> jb_checked sample_job"
    "\<not> jb_materialization sample_job" by (simp_all add: sample_job_def sample_envelope_def)
  have base: "baseline_of (cs_outlook sample_closing) ''worker scope'' (jb_baseline sample_job)
      (in_snapshotPath (jb_invocation sample_job)) =
      Inr \<lparr>wk_entries = [], wk_ignoreSources = [], wk_truncated = False\<rparr>"
    by (simp add: baseline_of_def sample_job_def)
  have "\<not> completed (fst (adopted_result closing_site sample_closing sample_job (iw_client worker_desk)))"
    by (simp add: sample_adopted completed_def)
  with worker_close_guards_the_ref [OF w'(1) worker_desk_ready job(1-3) moved] job(4)
  obtain v dp r b change where "settleDone closing_site dp v = Some w'" "dp_result dp = Put (Some r)"
    "wr_status r = Ws_done" "scope_change (cs_outlook sample_closing) (si_node closing_site)
       (ce_state (iw_client worker_desk))
       (Inr \<lparr>wk_entries = [], wk_ignoreSources = [], wk_truncated = False\<rparr>) = Inr (b, change)"
    "wc_unexpectedPaths change = []" unfolding base by auto
  with w' show ?thesis by blast
qed

end
