(* ===== verification/Orphan.thy ===== *)
theory Orphan
  imports Closing_Safety
begin

text \<open>
  What a resumed controller makes of an invocation the previous one left running
  (\<open>src/engine/recover.mjs\<close>, the evidence readers of \<open>src/engine/result-file.mjs\<close>): adopt a finished
  turn, judge a finished worker again, or start over, from the process, the ledger of operations and
  the files on disk.

  The record \<open>remains\<close> holds what the machine shows: whether the process is still the invocation's, the
  clock, what its transcript reads as at each of the moments the code reads it, and the polls of the
  loop that waits for it. Terminating the process and the heartbeat of the run are effects on the
  outside and leave no trace here.
\<close>

section \<open>Evidence on disk\<close>

text \<open>\<open>canonicalWorkerResultText\<close>: the file's JSON, or its bytes when they are not JSON.\<close>

definition canonicalWorkerResultText :: "site \<Rightarrow> run_dir \<Rightarrow> string option" where
  "canonicalWorkerResultText si rd =
     map_option (\<lambda>t. case oe_parse (si_outside si) t of
         Inl _ \<Rightarrow> t
       | Inr j \<Rightarrow> stringify (oe_num (si_outside si)) j) (map_of (rd_results rd) (nd_id (si_node si)))"

definition parse_evidence :: "site \<Rightarrow> closing \<Rightarrow> string \<Rightarrow> result_error + worker_result" where
  "parse_evidence si cs t =
     parseWorkerResult (oe_num (si_outside si)) (oe_parse (si_outside si)) (nullish (cs_extract cs (Some t)) t)"

definition parsePersistedWorkerResult :: "site \<Rightarrow> closing \<Rightarrow> string option \<Rightarrow> string option" where
  "parsePersistedWorkerResult si cs found =
     (case found of
        None \<Rightarrow> None
      | Some t \<Rightarrow> (case parse_evidence si cs t of Inl _ \<Rightarrow> None | Inr _ \<Rightarrow> Some t))"

text \<open>The canonical file, then the settlement, then the snapshot of an invocation that was closed.\<close>

definition persistedWorkerResult ::
  "site \<Rightarrow> closing \<Rightarrow> run_dir \<Rightarrow> snapshot \<Rightarrow> invocation \<Rightarrow> op_settlement option \<Rightarrow> string option" where
  "persistedWorkerResult si cs rd s invoc settlement =
     orelse (canonicalWorkerResultText si rd)
       (orelse (Option.bind (parsePersistedWorkerResult si cs (Option.bind settlement os_result)) nonempty)
         (if in_active invoc then None
          else parsePersistedWorkerResult si cs
            (map_option (\<lambda>r. stringify (oe_num (si_outside si)) (write_worker_result r)) (ns_result s))))"

definition judge_reads :: "site \<Rightarrow> string \<Rightarrow> bool" where
  "judge_reads si t = (case read_verdict_text si (Some t) of Inl _ \<Rightarrow> False | Inr _ \<Rightarrow> True)"

definition persistedJudgeResult ::
  "site \<Rightarrow> snapshot \<Rightarrow> invocation \<Rightarrow> op_settlement option \<Rightarrow> string option" where
  "persistedJudgeResult si s invoc settlement =
     List.find (judge_reads si)
       ((case Option.bind settlement os_result of None \<Rightarrow> [] | Some t \<Rightarrow> [t]) @
        (if in_active invoc then []
         else case ns_gate s of
                None \<Rightarrow> []
              | Some g \<Rightarrow> [stringify (oe_num (si_outside si)) (write_verdict g)]))"

section \<open>What the machine shows\<close>

text \<open>
  The moments the transcript is read: without a reliable start or close, past the budget, after the wait
  with the exit code, of a process that is gone, and of the worker behind a judge.
\<close>

datatype moment = M_unreliable | M_over_budget | M_ended | M_gone | M_worker

record poll =
  po_owned :: bool
  po_now :: int
  po_result :: "envelope option"
  po_read :: int

record remains =
  rm_owned :: bool
  rm_now :: int
  rm_polls :: "nat \<Rightarrow> poll"
  rm_waited :: int
  rm_result :: "moment \<Rightarrow> invocation \<Rightarrow> envelope option"
  rm_materialization :: "invocation \<Rightarrow> bool"
  rm_verifying :: bool

datatype watched = Finished envelope int | Ended

text \<open>The wait: as long as the process is the invocation's and its budget lasts.\<close>

partial_function (option) watch :: "(nat \<Rightarrow> poll) \<Rightarrow> rat \<Rightarrow> nat \<Rightarrow> watched option" where
  "watch polls deadline n =
     (let p = polls n
      in if \<not> (po_owned p \<and> of_int (po_now p) < deadline) then Some Ended
         else case po_result p of
                None \<Rightarrow> watch polls deadline (Suc n)
              | Some e \<Rightarrow>
                  if en_status e = Done then Some (Finished e (po_read p))
                  else watch polls deadline (Suc n))"

section \<open>Outcomes\<close>

definition restartRecovery :: "invocation \<Rightarrow> envelope option \<Rightarrow> string \<Rightarrow> recovery" where
  "restartRecovery invoc result reason =
     \<lparr>rv_kind = Rk_restart, rv_phase = Some (in_phase invoc), rv_invocationId = Some (in_id invoc),
      rv_result = None, rv_usage = orelse (Option.bind result en_usage) (in_usage invoc),
      rv_costUsd = orelse (Option.bind result en_costUsd) (in_costUsd invoc),
      rv_exhaustedUntil = None, rv_error = None, rv_reason = Some reason, rv_continuationId = None\<rparr>"

definition adopted_turn :: "invocation \<Rightarrow> envelope \<Rightarrow> recovery" where
  "adopted_turn invoc e =
     \<lparr>rv_kind = Rk_adopted, rv_phase = Some (in_phase invoc), rv_invocationId = Some (in_id invoc),
      rv_result = en_result e, rv_usage = en_usage e, rv_costUsd = en_costUsd e,
      rv_exhaustedUntil = en_exhaustedUntil e, rv_error = en_error e, rv_reason = None,
      rv_continuationId = en_continuationId e\<rparr>"

definition adopted_evidence :: "invocation \<Rightarrow> string \<Rightarrow> recovery" where
  "adopted_evidence invoc t =
     \<lparr>rv_kind = Rk_adopted, rv_phase = Some (in_phase invoc), rv_invocationId = Some (in_id invoc),
      rv_result = Some t, rv_usage = None, rv_costUsd = None, rv_exhaustedUntil = None, rv_error = None,
      rv_reason = None, rv_continuationId = None\<rparr>"

definition exhausted_turn :: "invocation \<Rightarrow> envelope \<Rightarrow> recovery" where
  "exhausted_turn invoc e =
     \<lparr>rv_kind = Rk_exhausted, rv_phase = Some (in_phase invoc), rv_invocationId = Some (in_id invoc),
      rv_result = (if in_phase invoc = Judge then None else en_result e), rv_usage = en_usage e,
      rv_costUsd = en_costUsd e, rv_exhaustedUntil = en_exhaustedUntil e, rv_error = en_error e,
      rv_reason = map_option pe_message (en_error e),
      rv_continuationId = (if in_phase invoc = Judge then None else en_continuationId e)\<rparr>"

definition last_worker :: "snapshot \<Rightarrow> invocation option" where
  "last_worker s = find_last (\<lambda>i. in_phase i = Worker) (ns_invocations s)"

text \<open>\<open>status === "done"\<close> of an envelope that may be missing.\<close>

definition finished :: "envelope option \<Rightarrow> bool" where
  "finished result = (case result of None \<Rightarrow> False | Some e \<Rightarrow> en_status e = Done)"

text \<open>A judge that left no verdict: its worker's finished stream is judged again, or the round restarts.\<close>

definition rejudgeOrRestart :: "remains \<Rightarrow> snapshot \<Rightarrow> invocation \<Rightarrow> envelope option \<Rightarrow> recovery" where
  "rejudgeOrRestart rm s judge result =
     (let workerResult = Option.bind (last_worker s) (rm_result rm M_worker);
          base = (restartRecovery judge None (''judge invocation '' @ in_id judge @
            '' completed but its worker stream is unavailable''))
            \<lparr>rv_phase := Some Judge, rv_usage := Option.bind result en_usage,
             rv_costUsd := Option.bind result en_costUsd\<rparr>
      in if finished workerResult
         then base\<lparr>rv_kind := Rk_rejudge, rv_phase := Some Worker,
                   rv_result := Option.bind workerResult en_result, rv_reason := None\<rparr>
         else base)"

definition adoptOrRejudgeJudge :: "site \<Rightarrow> remains \<Rightarrow> snapshot \<Rightarrow> invocation \<Rightarrow> envelope \<Rightarrow> recovery" where
  "adoptOrRejudgeJudge si rm s judge e =
     (if judge_reads si (nullish (en_result e) [])
      then (adopted_turn judge e)\<lparr>rv_phase := Some Judge, rv_exhaustedUntil := None, rv_error := None,
             rv_continuationId := None\<rparr>
      else rejudgeOrRestart rm s judge (Some e))"

definition adopt_finished :: "site \<Rightarrow> remains \<Rightarrow> snapshot \<Rightarrow> invocation \<Rightarrow> envelope \<Rightarrow> recovery" where
  "adopt_finished si rm s invoc e =
     (if in_phase invoc = Judge then adoptOrRejudgeJudge si rm s invoc e else adopted_turn invoc e)"

text \<open>An empty text is no evidence.\<close>

definition persisted_evidence ::
  "site \<Rightarrow> closing \<Rightarrow> run_dir \<Rightarrow> snapshot \<Rightarrow> invocation \<Rightarrow> op_settlement option \<Rightarrow> string option" where
  "persisted_evidence si cs rd s invoc settlement =
     Option.bind (if in_phase invoc = Worker then persistedWorkerResult si cs rd s invoc settlement
      else persistedJudgeResult si s invoc settlement) nonempty"

text \<open>An invocation whose start or close cannot be read: its transcript, its evidence, or a restart.\<close>

definition unreliable ::
  "site \<Rightarrow> closing \<Rightarrow> remains \<Rightarrow> run_dir \<Rightarrow> snapshot \<Rightarrow> invocation \<Rightarrow> op_settlement option \<Rightarrow> string \<Rightarrow> recovery" where
  "unreliable si cs rm rd s invoc settlement what =
     (let terminal = rm_result rm M_unreliable invoc
      in if finished terminal then adopt_finished si rm s invoc (the terminal)
         else case persisted_evidence si cs rd s invoc settlement of
                Some t \<Rightarrow> adopted_evidence invoc t
              | None \<Rightarrow> restartRecovery invoc terminal (''invocation '' @ in_id invoc @ what))"

definition over_budget :: "invocation \<Rightarrow> string" where
  "over_budget invoc = role_text (in_phase invoc) @ '' invocation '' @ in_id invoc @ '' exceeded its wall-clock budget''"

definition completed_late :: "invocation \<Rightarrow> string" where
  "completed_late invoc =
     role_text (in_phase invoc) @ '' invocation '' @ in_id invoc @ '' completed after its wall-clock budget''"

text \<open>
  A process that is gone. Its close time decides first: without one, as with one past the budget,
  neither its transcript nor what it left on disk is read.
\<close>

definition gone ::
  "site \<Rightarrow> closing \<Rightarrow> remains \<Rightarrow> run_dir \<Rightarrow> snapshot \<Rightarrow> invocation \<Rightarrow> op_settlement option \<Rightarrow> rat \<Rightarrow> recovery" where
  "gone si cs rm rd s invoc settlement deadline =
     (case parse_opt (in_closedAt invoc) of
        None \<Rightarrow> restartRecovery invoc None (completed_late invoc)
      | Some closedAt \<Rightarrow>
          if of_int closedAt > deadline then restartRecovery invoc None (completed_late invoc)
          else
            (let result = rm_result rm M_gone invoc
             in if in_phase invoc = Judge
                then (case result of
                        None \<Rightarrow> rejudgeOrRestart rm s invoc None
                      | Some e \<Rightarrow>
                          if en_status e = Done then adoptOrRejudgeJudge si rm s invoc e
                          else if en_status e = Exhausted then exhausted_turn invoc e
                          else rejudgeOrRestart rm s invoc (Some e))
                else if finished result then adopted_turn invoc (the result)
                else case (case result of
                             None \<Rightarrow> None
                           | Some e \<Rightarrow> if en_status e = Exhausted then Some e else None) of
                       Some e \<Rightarrow> exhausted_turn invoc e
                     | None \<Rightarrow>
                         (case persisted_evidence si cs rd s invoc settlement of
                            Some t \<Rightarrow> adopted_evidence invoc t
                          | None \<Rightarrow> restartRecovery invoc result (role_text (in_phase invoc) @ '' invocation '' @
                              in_id invoc @ '' died without a completed stream''))))"

text \<open>A process that ended, or was ended, before its budget: the judge is settled here, a worker as one gone.\<close>

definition ended_in_time ::
  "site \<Rightarrow> closing \<Rightarrow> remains \<Rightarrow> run_dir \<Rightarrow> snapshot \<Rightarrow> invocation \<Rightarrow> op_settlement option \<Rightarrow> rat \<Rightarrow> recovery" where
  "ended_in_time si cs rm rd s invoc settlement deadline =
     (if in_closedAt invoc = None
      then (case persisted_evidence si cs rd s invoc settlement of
              Some t \<Rightarrow> adopted_evidence invoc t
            | None \<Rightarrow> restartRecovery invoc None
                (role_text (in_phase invoc) @ '' invocation '' @ in_id invoc @ '' has no reliable close time''))
      else if in_phase invoc = Judge
      then (let result = rm_result rm M_ended invoc
            in case (case result of None \<Rightarrow> None
                     | Some e \<Rightarrow> if en_status e = Done then Some (adoptOrRejudgeJudge si rm s invoc e)
                                 else if en_status e = Exhausted then Some (exhausted_turn invoc e) else None) of
                 Some r \<Rightarrow> r
               | None \<Rightarrow>
                   (case persisted_evidence si cs rd s invoc settlement of
                      Some t \<Rightarrow> adopted_evidence invoc t
                    | None \<Rightarrow> rejudgeOrRestart rm s invoc result))
      else gone si cs rm rd s invoc settlement deadline)"

definition budget_end :: "contract \<Rightarrow> node \<Rightarrow> snapshot \<Rightarrow> invocation \<Rightarrow> rat option" where
  "budget_end contract node s invoc =
     map_option (\<lambda>startedAt. of_int startedAt +
         latestTimeoutSec s (nullish (nd_timeoutSec node) (ct_timeoutSec contract)) * 1000)
       (parse_opt (in_startedAt invoc))"

definition unreadable :: "stamp option \<Rightarrow> bool" where
  "unreadable t = (case t of Some (Unparsable _) \<Rightarrow> True | _ \<Rightarrow> False)"

definition orphan_outcome ::
  "site \<Rightarrow> closing \<Rightarrow> remains \<Rightarrow> run_dir \<Rightarrow> snapshot \<Rightarrow> invocation \<Rightarrow> op_settlement option \<Rightarrow> recovery option" where
  "orphan_outcome si cs rm rd s invoc settlement =
     (case budget_end (si_contract si) (si_node si) s invoc of
        None \<Rightarrow> Some (unreliable si cs rm rd s invoc settlement '' has no reliable start time or timeout deadline'')
      | Some deadline \<Rightarrow>
          if unreadable (in_closedAt invoc)
          then Some (unreliable si cs rm rd s invoc settlement '' has no reliable close time'')
          else if \<not> rm_owned rm then Some (gone si cs rm rd s invoc settlement deadline)
          else if of_int (rm_now rm) > deadline
          then Some (restartRecovery invoc (rm_result rm M_over_budget invoc) (over_budget invoc))
          else map_option (\<lambda>w. case w of
                 Finished e read \<Rightarrow>
                   if of_int read > deadline \<or>
                      (case in_closedAt invoc of Some (Iso t) \<Rightarrow> of_int t > deadline | _ \<Rightarrow> False)
                   then restartRecovery invoc (Some e) (completed_late invoc)
                   else adopt_finished si rm s invoc e
               | Ended \<Rightarrow>
                   if of_int (rm_waited rm) \<ge> deadline then restartRecovery invoc None (over_budget invoc)
                   else ended_in_time si cs rm rd s invoc settlement deadline)
               (watch (rm_polls rm) deadline 0))"

text \<open>An intent nobody settled is recorded as an unknown effect before anything else is decided.\<close>

definition note_unknown :: "snapshot \<Rightarrow> invocation \<Rightarrow> int \<Rightarrow> ctl \<Rightarrow> ctl" where
  "note_unknown s invoc now c =
     (if hasOperationIntent (ce_rd c) (in_id invoc) \<and> operationNeedsRecovery (ce_rd c) (in_id invoc)
      then settle_in invoc (empty_request\<lparr>sr_status := Some ''unknown_effect'',
             sr_terminalOutcome := Some ''unknown_effect'', sr_unknownEffect := Some True,
             sr_classification := Some ''unknown_effect'',
             sr_reason := Some (''invocation '' @ in_id invoc @ '' has an intent but no terminal settlement''),
             sr_nextState := Put (Some (operationNextState s))\<rparr>) now c
      else c)"

definition bare_restart :: recovery where
  "bare_restart = \<lparr>rv_kind = Rk_restart, rv_phase = None, rv_invocationId = None, rv_result = None,
     rv_usage = None, rv_costUsd = None, rv_exhaustedUntil = None, rv_error = None, rv_reason = None,
     rv_continuationId = None\<rparr>"

text \<open>The snapshot passed is the node's, read as running when its start is pending.\<close>

definition recoverOrphan ::
  "site \<Rightarrow> closing \<Rightarrow> remains \<Rightarrow> snapshot \<Rightarrow> ctl \<Rightarrow> (recovery option \<times> ctl) option" where
  "recoverOrphan si cs rm s c =
     (if ns_status s \<noteq> Running then Some (None, c)
      else case last_opt (ns_invocations s) of
             None \<Rightarrow> Some (Some (bare_restart\<lparr>rv_reason := Some (''node '' @ ns_id s @ '' has no live invocation'')\<rparr>), c)
           | Some invoc \<Rightarrow>
               (let c1 = note_unknown s invoc (si_now si) c
                in map_option (\<lambda>r. (Some r, c1))
                     (orphan_outcome si cs rm (ce_rd c1) s invoc
                       (readOperationSettlement (ce_rd c1) (in_id invoc)))))"

fun decision_kind :: "string option \<Rightarrow> recovery_kind" where
  "decision_kind decision =
     (if decision = Some ''rejudge'' then Rk_rejudge
      else if decision \<in> {Some ''restart'', Some ''safe_replay''} then Rk_restart
      else if decision = Some ''reconciled'' then Rk_reconciled
      else Rk_adopted)"

definition recoveryFromOverride :: "exec_override \<Rightarrow> string option \<Rightarrow> recovery" where
  "recoveryFromOverride x invocationId =
     \<lparr>rv_kind = decision_kind (xo_decision x), rv_phase = xo_phase x, rv_invocationId = invocationId,
      rv_result = xo_result x, rv_usage = xo_usage x, rv_costUsd = xo_costUsd x,
      rv_exhaustedUntil = None, rv_error = None, rv_reason = xo_reason x, rv_continuationId = None\<rparr>"

definition closePersistedInvocation ::
  "string option \<Rightarrow> usage option \<Rightarrow> rat option \<Rightarrow> int \<Rightarrow> invocation list \<Rightarrow> invocation list" where
  "closePersistedInvocation invocationId usage cost now =
     map (\<lambda>i. if Some (in_id i) = invocationId
       then i\<lparr>in_active := False, in_usage := orelse usage (in_usage i), in_costUsd := orelse cost (in_costUsd i),
              in_closedAt := Some (nullish (in_closedAt i) (Iso now))\<rparr>
       else i)"

end
