(* ===== verification/Resume.thy ===== *)
theory Resume
  imports Orphan Previous_Attempt
begin

text \<open>
  What a resume does to one node (\<open>resumeRun\<close> of \<open>src/engine/resume.mjs\<close>): the operator's answer, then
  the node's action in the resume plan; a node that is recovered is settled from what
  \<open>recoverOrphan\<close> concludes about its last invocation, or from the conclusion an earlier resume already
  recorded.

  The controller is not yet running (\<open>ce_running\<close> is \<open>None\<close>), so nothing is dispatched here. An override
  of a recovery carries the phase it was decided in.
\<close>

section \<open>The operator's answer\<close>

text \<open>Reserves one byte for the three-byte ellipsis, as the other summaries do.\<close>

definition answer_summary :: "string \<Rightarrow> string" where
  "answer_summary t = bounded t (4 * 1024)"

definition human_result :: "human_step \<Rightarrow> string \<Rightarrow> worker_result" where
  "human_result h answer =
     \<lparr>wr_status = Ws_done, wr_summary = answer_summary (if trim answer = [] then hs_step h else trim answer),
      wr_verification = [], wr_artifacts = [], wr_missingContext = [], wr_output = None\<rparr>"

definition operator_answer :: "string \<Rightarrow> string \<Rightarrow> exec_override" where
  "operator_answer reason answer =
     (mk_override ''operator-answer'')\<lparr>xo_reason := Some reason, xo_text := Some answer\<rparr>"

definition answer_node :: "site \<Rightarrow> string \<Rightarrow> ctl \<Rightarrow> string + ctl" where
  "answer_node si answer c =
     (let i = nd_id (si_node si)
      in if length answer > OPERATOR_ANSWER_MAX_BYTES then Inl ''answer file exceeds 8192 bytes''
         else case nd_humanStep (si_node si) of
           Some h \<Rightarrow>
             if \<not> isHumanStepPending (ce_state c) then Inl (''node '' @ i @ '' is not a pending human step'')
             else Inr (move Done (\<lambda>s. s\<lparr>ns_phase := Ph_complete, ns_error := None,
                         ns_result := Some (human_result h answer)\<rparr>) (si_now si)
                    (recorded_override (operator_answer (''operator confirmed the human step for node '' @ i) answer) c))
         | None \<Rightarrow>
             if TERMINAL (ns_status (ce_state c))
             then Inl (''node '' @ i @ '' is not blocked on missing context and is terminal, so it cannot accept an operator answer'')
             else Inr (on_state (\<lambda>s. s\<lparr>ns_previousAttempt :=
                         orelse (renderPreviousAttemptSection s) (ns_previousAttempt s)\<rparr>)
                    (recorded_override (operator_answer (''operator answered node '' @ i) answer) c)))"

section \<open>Nodes the plan retries, judges again or holds\<close>

definition isBlockedContextTerminal :: "snapshot \<Rightarrow> bool" where
  "isBlockedContextTerminal s = (ns_status s = Blocked \<and> has_error s ''context_missing'')"

definition reopen :: "phase \<Rightarrow> int \<Rightarrow> ctl \<Rightarrow> ctl" where
  "reopen ph now c =
     (let routing = orelse (tierExhaustionRestart (ce_state c)) (ns_routing (ce_state c))
      in move Pending (\<lambda>s. s\<lparr>ns_phase := ph, ns_error := None, ns_blockedBy := [], ns_routing := routing\<rparr>) now c)"

definition retry_node :: "int \<Rightarrow> ctl \<Rightarrow> ctl" where
  "retry_node now c =
     (let c1 = (if isUnknownEffectStop (ce_state c)
                then recorded_override ((mk_override ''recovery'')\<lparr>xo_decision := Some ''reconcile_acknowledged'',
                       xo_reason := Some (''unknown_effect_reconciled acknowledged by --reconcile; node '' @
                         ns_id (ce_state c) @ '' is re-dispatched'')\<rparr>) c
                else c)
      in reopen Ph_worker now (on_state (\<lambda>s. s\<lparr>ns_previousAttempt :=
           orelse (renderPreviousAttemptSection s) (ns_previousAttempt s)\<rparr>) c1))"

section \<open>The invocation a recovery is about\<close>

definition hasMeasuredUsage :: "usage option \<Rightarrow> bool" where
  "hasMeasuredUsage u =
     (case u of None \<Rightarrow> False
      | Some v \<Rightarrow> us_inputTokens v \<noteq> None \<or> us_outputTokens v \<noteq> None \<or> us_cacheReadInputTokens v \<noteq> None)"

definition recovered_invocation :: "recovery \<Rightarrow> ctl \<Rightarrow> invocation option" where
  "recovered_invocation rv c = List.find (\<lambda>i. Some (in_id i) = rv_invocationId rv) (ns_invocations (ce_state c))"

text \<open>Usage and cost found by the recovery are kept on the invocation first; a usage record follows elsewhere.\<close>

definition persistRecoveryUsage :: "recovery \<Rightarrow> ctl \<Rightarrow> ctl" where
  "persistRecoveryUsage rv c =
     (case recovered_invocation rv c of
        None \<Rightarrow> c
      | Some current \<Rightarrow>
          (let usage = (if hasMeasuredUsage (in_usage current) then in_usage current else rv_usage rv);
               cost = orelse (in_costUsd current) (rv_costUsd rv)
           in if in_usage current = usage \<and> in_costUsd current = cost then c
              else persist (on_state (\<lambda>s. s\<lparr>ns_invocations := map (\<lambda>i. if in_id i = in_id current
                     then i\<lparr>in_usage := usage, in_costUsd := cost\<rparr> else i) (ns_invocations s)\<rparr>) c)))"

text \<open>Its usage and cost win over the recovery's, which after the step above are the same cost.\<close>

definition close_recovered :: "recovery \<Rightarrow> int \<Rightarrow> ctl \<Rightarrow> ctl" where
  "close_recovered rv now c =
     (let invoc = recovered_invocation rv c;
          usage = (if Option.bind invoc in_usage = None then rv_usage rv else None);
          cost = (if Option.bind invoc in_costUsd = None then rv_costUsd rv else None)
      in on_state (\<lambda>s. s\<lparr>ns_invocations :=
           closePersistedInvocation (rv_invocationId rv) usage cost now (ns_invocations s)\<rparr>) c)"

definition settle_recovered :: "recovery \<Rightarrow> invocation option \<Rightarrow> settle_request \<Rightarrow> int \<Rightarrow> ctl \<Rightarrow> ctl" where
  "settle_recovered rv invoc request now c =
     (case invoc of
        Some i \<Rightarrow> settle_in i request now c
      | None \<Rightarrow> settle_id (nullish (rv_invocationId rv) []) request now c)"

definition recovery_request :: "string \<Rightarrow> recovery \<Rightarrow> invocation option \<Rightarrow> settle_request" where
  "recovery_request status rv invoc =
     empty_request\<lparr>sr_status := Some status,
       sr_usage := Put (orelse (Option.bind invoc in_usage) (rv_usage rv)),
       sr_costUsd := Put (orelse (Option.bind invoc in_costUsd) (rv_costUsd rv))\<rparr>"

definition recovery_error :: "recovery \<Rightarrow> (string \<times> string) option" where
  "recovery_error rv = map_option (\<lambda>e. (pe_code e, pe_message e)) (rv_error rv)"

definition recovery_role :: "recovery \<Rightarrow> invocation option \<Rightarrow> role" where
  "recovery_role rv invoc = nullish (rv_phase rv) (nullish (map_option in_phase invoc) Worker)"

section \<open>Exhausted, stalled and reconciled\<close>

definition emptyUsage :: usage where
  "emptyUsage = \<lparr>us_inputTokens = None, us_outputTokens = None, us_cacheReadInputTokens = None\<rparr>"

definition recoveryExhaustionEnvelope :: "recovery \<Rightarrow> invocation option \<Rightarrow> envelope" where
  "recoveryExhaustionEnvelope rv invoc =
     \<lparr>en_status = Exhausted, en_result = None,
      en_usage = Some (nullish (orelse (rv_usage rv) (Option.bind invoc in_usage)) emptyUsage),
      en_costUsd = orelse (rv_costUsd rv) (Option.bind invoc in_costUsd), en_priced = False,
      en_error = Some (nullish (rv_error rv) \<lparr>pe_code = ''provider_exhausted'',
        pe_message = nullish (rv_reason rv) ''provider exhausted'', pe_resetAt = None\<rparr>),
      en_resetAt = None, en_exhaustedUntil = rv_exhaustedUntil rv, en_judgeCandidates = None,
      en_continuationId = None\<rparr>"

definition recover_exhausted :: "site \<Rightarrow> closing \<Rightarrow> recovery \<Rightarrow> ctl \<Rightarrow> ctl option" where
  "recover_exhausted si cs rv c =
     (let invoc = recovered_invocation rv c;
          c1 = settle_recovered rv invoc ((recovery_request ''exhausted'' rv invoc)
                 \<lparr>sr_receipts := ol_receipts (cs_outlook cs) invoc, sr_error := recovery_error rv\<rparr>) (si_now si)
                 (persist (close_recovered rv (si_now si) c))
      in map_option snd (handleProviderExhaustion si (recovery_role rv invoc)
           (recoveryExhaustionEnvelope rv invoc) (Option.bind invoc in_runtimeId) None c1))"

definition recover_stalled :: "site \<Rightarrow> closing \<Rightarrow> recovery \<Rightarrow> ctl \<Rightarrow> ctl" where
  "recover_stalled si cs rv c =
     (let invoc = recovered_invocation rv c;
          e = (case rv_error rv of
                 Some p \<Rightarrow> mk_error (pe_code p) (pe_message p)
               | None \<Rightarrow> mk_error ''stall_timeout'' (nullish (rv_reason rv) ''worker made no progress''))
      in stop_with Stalled (role_phase (recovery_role rv invoc)) e (si_now si)
           (settle_recovered rv invoc ((recovery_request ''stalled'' rv invoc)
              \<lparr>sr_receipts := ol_receipts (cs_outlook cs) invoc, sr_error := recovery_error rv\<rparr>) (si_now si)
              (close_recovered rv (si_now si) c)))"

definition unknown_effect_stop :: "site \<Rightarrow> role \<Rightarrow> string \<Rightarrow> ctl \<Rightarrow> ctl" where
  "unknown_effect_stop si role reason =
     stop_with Blocked (role_phase role)
       (mk_error ''unknown_effect_reconciled'' (nullish (excerpt reason) [])) (si_now si)"

section \<open>An adopted turn\<close>

definition recoverWorkerResult ::
  "site \<Rightarrow> closing \<Rightarrow> remains \<Rightarrow> ctl \<Rightarrow> result_error + worker_result option" where
  "recoverWorkerResult si cs rm c =
     (case canonicalWorkerResultText si (ce_rd c) of
        Some t \<Rightarrow> map_sum id Some (parse_evidence si cs t)
      | None \<Rightarrow>
          (let result = Option.bind (last_worker (ce_state c)) (rm_result rm M_worker)
           in if \<not> finished result then Inr None
              else case parseWorkerResult (oe_num (si_outside si)) (oe_parse (si_outside si))
                          (nullish (en_result (the result)) []) of
                     Inl _ \<Rightarrow> Inr None
                   | Inr r \<Rightarrow> Inr (Some r)))"

definition decision_name :: "recovery_kind \<Rightarrow> string" where
  "decision_name k = (if k = Rk_rejudge then ''rejudge'' else ''adopted'')"

definition recovery_override :: "string \<Rightarrow> recovery \<Rightarrow> string option \<Rightarrow> exec_override" where
  "recovery_override decision rv reason =
     (mk_override ''recovery'')\<lparr>xo_decision := Some decision, xo_invocationId := rv_invocationId rv,
       xo_phase := rv_phase rv, xo_result := rv_result rv, xo_usage := rv_usage rv,
       xo_costUsd := rv_costUsd rv, xo_reason := reason\<rparr>"

definition unless_recorded :: "bool \<Rightarrow> exec_override \<Rightarrow> ctl \<Rightarrow> ctl" where
  "unless_recorded persisted x c = (if persisted then c else recorded_override x c)"

text \<open>The invocation is closed and settled as adopted or judged again, and the decision recorded once.\<close>

definition record_adoption :: "site \<Rightarrow> recovery \<Rightarrow> bool \<Rightarrow> ctl \<Rightarrow> ctl" where
  "record_adoption si rv persisted c =
     (let invoc = recovered_invocation rv c;
          i = nullish (rv_invocationId rv) [];
          reason = (if rv_kind rv = Rk_rejudge
            then ''judge invocation '' @ i @ '' was not adopted; completed worker stream was re-judged''
            else role_text (nullish (rv_phase rv) Worker) @ '' invocation '' @ i @ '' completed after controller loss'')
      in unless_recorded persisted (recovery_override (decision_name (rv_kind rv)) rv (Some reason))
           (settle_recovered rv invoc ((recovery_request (decision_name (rv_kind rv)) rv invoc)
              \<lparr>sr_structuredResult := Put (Some (rv_result rv \<noteq> None)), sr_result := Put (rv_result rv),
               sr_receipts := (case Option.bind (rv_continuationId rv) nonempty of
                   None \<Rightarrow> [] | Some ref \<Rightarrow> [(''provider'', ref)])\<rparr>) (si_now si)
              (close_recovered rv (si_now si) c)))"

text \<open>
  A worker's result passes the scope gate of a persisted attempt and the controller's verification; \<open>Inl\<close>
  is a node that was stopped or rejected on the way.
\<close>

definition adopt_worker ::
  "site \<Rightarrow> closing \<Rightarrow> remains \<Rightarrow> recovery \<Rightarrow> string \<Rightarrow> ctl \<Rightarrow> (ctl + ctl) option" where
  "adopt_worker si cs rm rv t c =
     (let invoc = (if rv_kind rv = Rk_rejudge then last_worker (ce_state c) else recovered_invocation rv c);
          materialization = (case invoc of None \<Rightarrow> False | Some i \<Rightarrow> rm_materialization rm i);
          (ok, c1) = checkPersistedWorkerScope (cs_outlook cs) (si_node si) invoc materialization (si_now si) c;
          invalid = (\<lambda>e. map_option Inl (applyInvalidWorkerResult si e c1))
      in if \<not> ok then Some (Inl c1)
         else case parse_evidence si cs t of
                Inl e \<Rightarrow> invalid e
              | Inr r \<Rightarrow>
                  (case (if owes_packet (si_node si) r
                         then parseDiscoveryResult (oe_parse (si_outside si)) (cs_packet cs) r else None) of
                     Some e \<Rightarrow> invalid e
                   | None \<Rightarrow>
                       (let c2 = on_state (\<lambda>s. s\<lparr>ns_result := Some r\<rparr>) c1
                        in if wr_status r = Ws_blocked_context
                           then Some (Inl (stop_with Blocked Ph_complete (mk_error ''context_missing''
                                  (join_with ''; '' (wr_missingContext r))) (si_now si) c2))
                           else (let c3 = executeControllerVerification (si_contract si) (si_node si) (si_bench si) c2
                                 in if map_option ve_passed (ns_verification (ce_state c3)) = Some True
                                    then Some (Inr c3)
                                    else map_option Inl (applyVerificationFailure si c3)))))"

definition recover_adopted ::
  "site \<Rightarrow> closing \<Rightarrow> remains \<Rightarrow> recovery \<Rightarrow> bool \<Rightarrow> desk \<Rightarrow> desk option" where
  "recover_adopted si cs rm rv persisted w0 =
     (let w = at_node (materialize cs (nd_id (si_node si))) w0; c = iw_client w;
          recorded = (\<lambda>c'. w\<lparr>iw_client := record_adoption si rv persisted c'\<rparr>)
      in case rv_phase rv of
           None \<Rightarrow> None
         | Some Judge \<Rightarrow>
             (case recoverWorkerResult si cs rm c of
                Inl e \<Rightarrow> on_ctl (applyInvalidWorkerResult si e) w
              | Inr r \<Rightarrow> applyJudgeResult si (rv_result rv)
                  (recorded (on_state (\<lambda>s. s\<lparr>ns_result := orelse r (ns_result s)\<rparr>) c)))
         | Some Worker \<Rightarrow>
             (case (case orelse (canonicalWorkerResultText si (ce_rd c)) (rv_result rv) of
                      None \<Rightarrow> Some (Inr c)
                    | Some t \<Rightarrow> adopt_worker si cs rm rv t c) of
                None \<Rightarrow> None
              | Some (Inl c') \<Rightarrow> Some (w\<lparr>iw_client := c'\<rparr>)
              | Some (Inr c') \<Rightarrow>
                  if gt_enabled (nd_gate (si_node si))
                  then Some (at_node (move Pending (\<lambda>s. s\<lparr>ns_phase := Ph_judge, ns_error := None,
                         ns_blockedBy := []\<rparr>) (si_now si)) (recorded c'))
                  else settleDone si \<lparr>dp_result = Keep, dp_gate = Keep, dp_error = Put None, dp_unblocked = True\<rparr>
                         (recorded c')))"

section \<open>A restart\<close>

text \<open>A turn that was only to write its result already ran; it never becomes fresh work.\<close>

definition fail_materialization :: "site \<Rightarrow> recovery \<Rightarrow> invocation \<Rightarrow> ctl \<Rightarrow> ctl" where
  "fail_materialization si rv invoc c =
     (let message = ''result-only materialization produced no canonical worker result'';
          c1 = (case rv_invocationId rv of
                  None \<Rightarrow> c
                | Some i \<Rightarrow>
                    (let c2 = on_state (\<lambda>s. s\<lparr>ns_invocations := closePersistedInvocation (Some i) (rv_usage rv)
                           (rv_costUsd rv) (si_now si) (ns_invocations s)\<rparr>) c
                     in if hasOperationSettlement (ce_rd c2) i then c2
                        else settle_in invoc (empty_request\<lparr>sr_status := Some ''failed'',
                               sr_error := Some (''missing_worker_result'', message), sr_reason := rv_reason rv,
                               sr_nextState := Put (Some (Next_text ''failed''))\<rparr>) (si_now si) c2))
      in missing_result (message @ '' before the controller was interrupted'') si c1)"

text \<open>The invocation a restart is about, and the worker behind it.\<close>

definition restarted_invocation :: "recovery \<Rightarrow> ctl \<Rightarrow> invocation option" where
  "restarted_invocation rv c = orelse (recovered_invocation rv c) (last_opt (ns_invocations (ce_state c)))"

definition worker_behind :: "invocation option \<Rightarrow> ctl \<Rightarrow> invocation option" where
  "worker_behind invoc c =
     (if map_option in_phase invoc = Some Worker then invoc else last_worker (ce_state c))"

definition unknown_invocation :: "recovery \<Rightarrow> string option \<Rightarrow> ctl \<Rightarrow> invocation option" where
  "unknown_invocation rv unknownId c =
     (let restarted = restarted_invocation rv c
      in if map_option in_id restarted = unknownId then restarted
         else List.find (\<lambda>i. Some (in_id i) = unknownId) (ns_invocations (ce_state c)))"

definition unknown_request :: "outlook \<Rightarrow> recovery \<Rightarrow> invocation option \<Rightarrow> invocation option \<Rightarrow> resolution \<Rightarrow> settle_request" where
  "unknown_request ol rv invoc worker resolution =
     (recovery_request (case resolution of Replay \<Rightarrow> ''safe_replay'' | Reconcile _ \<Rightarrow> ''reconciled'') rv invoc)
       \<lparr>sr_receipts := ol_receipts ol (orelse invoc worker), sr_unknownEffect := Some True,
        sr_classification := Some ''unknown_effect'',
        sr_reason := Some (case resolution of Replay \<Rightarrow> ''unknown_effect resolved as safe replay''
          | Reconcile reason \<Rightarrow> reason)\<rparr>"

text \<open>
  An invocation with an intent nobody settled: its resolution is settled and recorded; \<open>Inl\<close> is a node
  that is decided by it.
\<close>

definition settle_unknown ::
  "site \<Rightarrow> closing \<Rightarrow> recovery \<Rightarrow> string option \<Rightarrow> role \<Rightarrow> bool \<Rightarrow> ctl \<Rightarrow> ctl + ctl" where
  "settle_unknown si cs rv unknownId role persisted c =
     (let invoc = unknown_invocation rv unknownId c;
          worker = worker_behind invoc c;
          (resolution, c1) = resolveUnknownEffect (cs_outlook cs) (si_contract si) (si_node si) worker c;
          request = unknown_request (cs_outlook cs) rv invoc worker resolution;
          c2 = (case orelse invoc worker of
                  Some i \<Rightarrow> settle_in i request (si_now si) c1
                | None \<Rightarrow> settle_id (nullish unknownId []) request (si_now si) c1);
          c3 = unless_recorded persisted ((mk_override ''recovery'')\<lparr>
                 xo_decision := Some (case resolution of Replay \<Rightarrow> ''safe_replay'' | Reconcile _ \<Rightarrow> ''reconciled''),
                 xo_invocationId := unknownId, xo_phase := Some role,
                 xo_reason := Some (case resolution of
                     Replay \<Rightarrow> ''unknown_effect resolved as safe replay; scope clean and deterministic verification passed''
                   | Reconcile reason \<Rightarrow> reason)\<rparr>) c2
      in case resolution of
           Reconcile reason \<Rightarrow> Inl (unknown_effect_stop si role reason c3)
         | Replay \<Rightarrow>
             if role = Judge
             then Inl (move Pending (\<lambda>s. s\<lparr>ns_phase := Ph_judge, ns_error := None, ns_blockedBy := []\<rparr>)
                    (si_now si) c3)
             else Inr c3)"

definition dispatch_again :: "int \<Rightarrow> ctl \<Rightarrow> ctl" where
  "dispatch_again now = move Pending (\<lambda>s. s\<lparr>ns_phase := Ph_waiting, ns_error := None, ns_blockedBy := []\<rparr>) now"

text \<open>The invocation is closed and settled as restarted, unless it is settled already.\<close>

definition close_restarted :: "site \<Rightarrow> closing \<Rightarrow> recovery \<Rightarrow> invocation option \<Rightarrow> ctl \<Rightarrow> ctl" where
  "close_restarted si cs rv restarted c =
     (case rv_invocationId rv of
        None \<Rightarrow> c
      | Some i \<Rightarrow>
          (let invoc = recovered_invocation rv c; c1 = close_recovered rv (si_now si) c
           in if hasOperationSettlement (ce_rd c1) i then c1
              else settle_recovered rv invoc ((recovery_request ''restarted'' rv invoc)
                     \<lparr>sr_receipts := ol_receipts (cs_outlook cs) (orelse invoc restarted),
                      sr_error := recovery_error rv, sr_reason := rv_reason rv\<rparr>) (si_now si) c1))"

definition replaying_judge :: "role \<Rightarrow> recovery \<Rightarrow> exec_override option \<Rightarrow> ctl \<Rightarrow> bool" where
  "replaying_judge role rv recorded c \<longleftrightarrow>
     role = Judge \<and> (Option.bind recorded xo_decision = Some ''safe_replay'' \<or>
       map_option os_status (readOperationSettlement (ce_rd c) (nullish (rv_invocationId rv) [])) = Some ''safe_replay'')"

definition finish_restart ::
  "site \<Rightarrow> closing \<Rightarrow> recovery \<Rightarrow> invocation option \<Rightarrow> role \<Rightarrow> exec_override option \<Rightarrow> ctl \<Rightarrow> ctl" where
  "finish_restart si cs rv restarted role recorded c =
     (let c1 = close_restarted si cs rv restarted c
      in if replaying_judge role rv recorded c1
         then move Pending (\<lambda>s. s\<lparr>ns_phase := Ph_judge, ns_error := None, ns_blockedBy := []\<rparr>) (si_now si) c1
         else dispatch_again (si_now si)
                (unless_recorded (recorded \<noteq> None) (recovery_override ''restart'' rv (rv_reason rv)) c1))"

definition recover_restart ::
  "site \<Rightarrow> closing \<Rightarrow> remains \<Rightarrow> recovery \<Rightarrow> string option \<Rightarrow> exec_override option \<Rightarrow> ctl \<Rightarrow> ctl" where
  "recover_restart si cs rm rv lastId recorded c =
     (let restarted = restarted_invocation rv c;
          unknownId = orelse (rv_invocationId rv) lastId;
          role = recovery_role rv restarted;
          persisted = (recorded \<noteq> None);
          worker_turn = (map_option in_phase restarted = Some Worker);
          unknown = (case Option.bind unknownId nonempty of
              None \<Rightarrow> False
            | Some k \<Rightarrow> hasOperationIntent (ce_rd c) k \<and> operationNeedsRecovery (ce_rd c) k)
      in if worker_turn \<and> rm_materialization rm (the restarted) then fail_materialization si rv (the restarted) c
         else case (if unknown then settle_unknown si cs rv unknownId role persisted c else Inr c) of
                Inl c1 \<Rightarrow> c1
              | Inr c1 \<Rightarrow>
                  if rv_phase rv = Some Worker \<or> worker_turn
                  then (let (stopped, c2) = reconcileAmbiguousWorkerRestart (cs_outlook cs) (si_node si)
                               (orelse restarted (last_worker (ce_state c1))) rv persisted (si_now si) c1
                        in if stopped then c2 else finish_restart si cs rv restarted role recorded c2)
                  else finish_restart si cs rv restarted role recorded c1)"

section \<open>One node of a resume\<close>

text \<open>A verification the controller was in the middle of is run again.\<close>

definition recoverVerificationAttempts :: "remains \<Rightarrow> ctl \<Rightarrow> ctl" where
  "recoverVerificationAttempts rm c =
     (if rm_verifying rm
      then persist (on_state (\<lambda>s. s\<lparr>ns_verification := map_option (\<lambda>v. v\<lparr>ve_completed := False,
             ve_passed := False, ve_error := None\<rparr>) (ns_verification s)\<rparr>) c)
      else c)"

definition settle_recovery ::
  "site \<Rightarrow> closing \<Rightarrow> remains \<Rightarrow> string option \<Rightarrow> exec_override option \<Rightarrow> recovery option \<Rightarrow> desk \<Rightarrow> desk option" where
  "settle_recovery si cs rm lastId recorded found w =
     (case found of
        None \<Rightarrow> Some (at_node (dispatch_again (si_now si)) w)
      | Some rv \<Rightarrow>
          (let w1 = at_node (persistRecoveryUsage rv) w
           in case rv_kind rv of
                Rk_reconciled \<Rightarrow> Some (at_node (unknown_effect_stop si (nullish (rv_phase rv) Worker)
                  (nullish (rv_reason rv) ''unknown effect requires manual reconciliation'')) w1)
              | Rk_exhausted \<Rightarrow> on_ctl (recover_exhausted si cs rv) w1
              | Rk_stalled \<Rightarrow> Some (at_node (recover_stalled si cs rv) w1)
              | Rk_restart \<Rightarrow> Some (at_node (recover_restart si cs rm rv lastId recorded) w1)
              | _ \<Rightarrow> recover_adopted si cs rm rv (recorded \<noteq> None) w1))"

text \<open>
  What the resumed controller goes by: the decision a resume before it recorded for the last invocation, or what
  \<open>recoverOrphan\<close> concludes of it.
\<close>

definition last_id :: "snapshot \<Rightarrow> string option" where
  "last_id s = map_option in_id (last_opt (ns_invocations s))"

definition in_role_phase :: "snapshot \<Rightarrow> bool" where
  "in_role_phase s \<longleftrightarrow> ns_phase s = Ph_worker \<or> ns_phase s = Ph_judge"

definition pending_start :: "snapshot \<Rightarrow> bool" where
  "pending_start s \<longleftrightarrow> ns_status s = Pending \<and> in_role_phase s \<and>
     map_option in_active (last_opt (ns_invocations s)) = Some True"

definition recorded_recovery :: "snapshot \<Rightarrow> exec_override option" where
  "recorded_recovery s =
     (if last_id s = None then None
      else find_last (\<lambda>x. xo_kind x = ''recovery'' \<and> xo_invocationId x = last_id s) (ns_executionOverrides s))"

definition found_recovery :: "site \<Rightarrow> closing \<Rightarrow> remains \<Rightarrow> ctl \<Rightarrow> (recovery option \<times> ctl) option" where
  "found_recovery si cs rm c =
     (let s = ce_state c
      in if (ns_status s = Running \<or> pending_start s) \<and> recorded_recovery s \<noteq> None
         then Some (Some (recoveryFromOverride (the (recorded_recovery s)) (last_id s)), c)
         else recoverOrphan si cs rm (if pending_start s then s\<lparr>ns_status := Running\<rparr> else s) c)"

definition recover_node :: "site \<Rightarrow> closing \<Rightarrow> remains \<Rightarrow> desk \<Rightarrow> desk option" where
  "recover_node si cs rm w0 =
     (let w = at_node (recoverVerificationAttempts rm) w0;
          s = ce_state (iw_client w)
      in if \<not> pending_start s \<and> ns_status s = Pending \<and> in_role_phase s then Some w
         else (case found_recovery si cs rm (iw_client w) of
                 None \<Rightarrow> None
               | Some (found, c) \<Rightarrow>
                   settle_recovery si cs rm (last_id s) (recorded_recovery s) found (w\<lparr>iw_client := c\<rparr>)))"

text \<open>The action is the plan's, or a retry for a node whose packet was just widened.\<close>

definition resume_node ::
  "site \<Rightarrow> closing \<Rightarrow> remains \<Rightarrow> resume_action \<Rightarrow> bool \<Rightarrow> bool \<Rightarrow> desk \<Rightarrow> desk option" where
  "resume_node si cs rm action answered widened w =
     (let s = ce_state (iw_client w)
      in if ns_status s = Done then Some w
         else if isBlockedContextTerminal s \<and> \<not> answered \<and> \<not> widened then Some w
         else if isHumanStepPending s \<and> \<not> answered then Some w
         else case (if widened then Retry_node else action) of
                Rejudge \<Rightarrow> Some (at_node (reopen Ph_judge (si_now si)) w)
              | Hold \<Rightarrow> Some w
              | Retry_node \<Rightarrow> Some (at_node (retry_node (si_now si)) w)
              | Recover \<Rightarrow> recover_node si cs rm w)"

end
