(* ===== verification/Resume_Safety.thy ===== *)
theory Resume_Safety
  imports Resume
begin

text \<open>
  What holds of every node a resume treats: recovery returns, it leaves nothing running, it starts a
  worker over only in an untouched workspace, and it reaches the run's ref only with evidence.
\<close>

section \<open>Recovery returns\<close>

text \<open>The wait ends at the first poll at which the process is gone or its budget is spent.\<close>

lemma watch_returns:
  assumes "\<exists>m \<ge> n. \<not> (po_owned (polls m) \<and> of_int (po_now (polls m)) < d)"
  shows "\<exists>r. watch polls d n = Some r"
proof -
  have "\<exists>r. watch polls d (m - k) = Some r" if "\<not> (po_owned (polls m) \<and> of_int (po_now (polls m)) < d)" for m k
  proof (induction k)
    case 0
    show ?case using that by (subst watch.simps) (auto simp: Let_def)
  next
    case (Suc k)
    show ?case
    proof (cases "m - k = 0")
      case True
      with Suc show ?thesis by simp
    next
      case False
      then have "Suc (m - Suc k) = m - k" by simp
      with Suc show ?thesis by (subst watch.simps) (auto simp: Let_def split: option.splits)
    qed
  qed
  moreover obtain m where "m \<ge> n" "\<not> (po_owned (polls m) \<and> of_int (po_now (polls m)) < d)" using assms by blast
  ultimately show ?thesis by (metis diff_diff_cancel)
qed

lemma outcome_returns:
  assumes "\<And>t. \<exists>n. \<not> po_owned (rm_polls rm n) \<or> t \<le> po_now (rm_polls rm n)"
  shows "\<exists>r. orphan_outcome si cs rm rd s invoc settlement = Some r"
proof -
  have "\<exists>r. watch (rm_polls rm) d 0 = Some r" for d
    by (rule watch_returns) (use assms [of "\<lceil>d\<rceil>"] in \<open>auto simp: not_less ceiling_le_iff\<close>)
  then show ?thesis by (auto simp: orphan_outcome_def split: option.split)
qed

text \<open>What an adopted judge says reads as a verdict.\<close>

lemma persisted_judge_reads:
  "persistedJudgeResult si s invoc settlement = Some t \<Longrightarrow> judge_reads si t"
  by (auto simp: persistedJudgeResult_def dest: find_SomeD)

lemma evidence_reads:
  "persisted_evidence si cs rd s invoc settlement = Some t \<Longrightarrow> in_phase invoc = Judge \<Longrightarrow> judge_reads si t"
  by (auto simp: persisted_evidence_def nonempty_def split: if_splits bind_splits dest: persisted_judge_reads)

definition verdict_reads :: "site \<Rightarrow> recovery \<Rightarrow> bool" where
  "verdict_reads si rv \<longleftrightarrow> (rv_kind rv = Rk_adopted \<longrightarrow> rv_phase rv = Some Judge \<longrightarrow>
     judge_reads si (nullish (rv_result rv) []))"

lemma verdict_reads_simps [simp]:
  "verdict_reads si (restartRecovery invoc result reason)" "verdict_reads si (exhausted_turn invoc e)"
  "verdict_reads si (rejudgeOrRestart rm s invoc result)" "verdict_reads si (adoptOrRejudgeJudge si rm s invoc e)"
  "in_phase invoc = Worker \<Longrightarrow> verdict_reads si (adopted_turn invoc e)"
  "verdict_reads si (adopt_finished si rm s invoc e)"
  by (auto simp: verdict_reads_def restartRecovery_def exhausted_turn_def rejudgeOrRestart_def Let_def
      adoptOrRejudgeJudge_def adopt_finished_def adopted_turn_def split: role.splits)

lemma unreliable_reads [simp]: "verdict_reads si (unreliable si cs rm rd s invoc settlement what)"
  by (auto simp: unreliable_def Let_def split: option.split)
     (auto simp: verdict_reads_def adopted_evidence_def dest: evidence_reads)

lemma evidence_verdict [simp]:
  "persisted_evidence si cs rd s invoc settlement = Some t \<Longrightarrow> verdict_reads si (adopted_evidence invoc t)"
  by (auto simp: verdict_reads_def adopted_evidence_def dest: evidence_reads)

lemma gone_reads [simp]: "verdict_reads si (gone si cs rm rd s invoc settlement d)"
  by (cases "in_phase invoc") (simp_all add: gone_def Let_def split: option.split)

lemma ended_reads [simp]: "verdict_reads si (ended_in_time si cs rm rd s invoc settlement d)"
  by (auto simp: ended_in_time_def Let_def split: option.split if_splits)

lemma outcome_reads:
  "orphan_outcome si cs rm rd s invoc settlement = Some rv \<Longrightarrow> verdict_reads si rv"
proof (cases "budget_end (si_contract si) (si_node si) s invoc")
  case (Some d)
  have "map_option (verdict_reads si) (map_option f x) \<in> {None, Some True}"
    if "\<And>w. verdict_reads si (f w)" for f and x :: "watched option"
    using that by (cases x) simp_all
  then have "map_option (verdict_reads si) (orphan_outcome si cs rm rd s invoc settlement) \<in> {None, Some True}"
    using Some by (simp add: orphan_outcome_def split: watched.split del: map_option_case option.map_comp)
  then show "orphan_outcome si cs rm rd s invoc settlement = Some rv \<Longrightarrow> verdict_reads si rv" by simp
qed (simp add: orphan_outcome_def, metis unreliable_reads)

section \<open>Steps that keep the node\<close>

definition kept :: "ctl \<Rightarrow> ctl \<Rightarrow> bool" where
  "kept c c' \<longleftrightarrow> ns_id (ce_state c') = ns_id (ce_state c) \<and>
     ns_revisions (ce_state c') = ns_revisions (ce_state c) \<and>
     ns_attempt (ce_state c') = ns_attempt (ce_state c) \<and> ce_running c' = ce_running c"

lemma kept_refl [simp]: "kept c c"
  by (simp add: kept_def)

lemma kept_trans: "kept a b \<Longrightarrow> kept b c \<Longrightarrow> kept a c"
  by (simp add: kept_def)

lemma kept_budget: "kept a b \<Longrightarrow> budget_step node a b"
  by (simp add: kept_def budget_step_def)

lemma kept_step: "kept (iw_client w) c \<Longrightarrow> desk_step si (w\<lparr>iw_client := c\<rparr>) w' \<Longrightarrow> desk_step si w w'"
  by (auto simp: desk_step_def kept_def budget_step_def)

lemma kept_ready: "kept (iw_client w) c \<Longrightarrow> ready si (w\<lparr>iw_client := c\<rparr>) = ready si w"
  by (simp add: ready_def kept_def)

lemma settle_id_simps [simp]:
  "ce_state (settle_id i r now c) = ce_state c" "ce_running (settle_id i r now c) = ce_running c"
  by (simp_all add: settle_id_def)

lemma recorded_override_simps [simp]:
  "ce_state (recorded_override x c) = (ce_state c)\<lparr>ns_executionOverrides := ns_executionOverrides (ce_state c) @ [x]\<rparr>"
  "ce_running (recorded_override x c) = ce_running c"
  by (simp_all add: recorded_override_def recordExecutionOverride_def Let_def)

lemma settle_recovered_simps [simp]:
  "ce_state (settle_recovered rv i r now c) = ce_state c" "ce_running (settle_recovered rv i r now c) = ce_running c"
  by (simp_all add: settle_recovered_def split: option.split)

lemma verification_kept: "kept c (executeControllerVerification contract node b c)"
  using verification_same [where c = c] by (simp add: kept_def same_node_def)

lemma kept_simps [simp]:
  "kept c (persistRecoveryUsage rv c)" "kept c (close_recovered rv now c)" "kept c (record_adoption si rv p c)"
  "kept c (move st f now d) = kept c (on_state f d)" "kept c (unless_recorded p x d) = kept c d"
  "kept c (settle_recovered rv i r now d) = kept c d" "kept c (note_unknown s j now d) = kept c d"
  "kept c (persist d) = kept c d" "kept c (stop_with st ph e now d) = kept c d"
  "kept c (recoverVerificationAttempts rm d) = kept c d" "kept c (materialize cs n d) = kept c d"
  "kept c (settle_id k r now d) = kept c d" "kept c (settle_in j r now d) = kept c d"
  by (auto simp: kept_def persistRecoveryUsage_def close_recovered_def record_adoption_def Let_def
      unless_recorded_def note_unknown_def stop_with_def recoverVerificationAttempts_def split: option.splits)

text \<open>What the gate looks at is kept as well: the scope, and what verification found.\<close>

lemma evidence_simps [simp]:
  "ns_scope (ce_state (persistRecoveryUsage rv c)) = ns_scope (ce_state c)"
  "ns_verification (ce_state (persistRecoveryUsage rv c)) = ns_verification (ce_state c)"
  "ns_scope (ce_state (record_adoption si rv p c)) = ns_scope (ce_state c)"
  "ns_verification (ce_state (record_adoption si rv p c)) = ns_verification (ce_state c)"
  by (auto simp: persistRecoveryUsage_def close_recovered_def record_adoption_def Let_def
      unless_recorded_def split: option.splits)

section \<open>A worker starts over only in an untouched workspace\<close>

text \<open>What is compared depends on the node's boundary alone.\<close>

lemma boundary_cong:
  assumes "ns_scope s = ns_scope t"
  shows "scope_change ol node s = scope_change ol node t"
proof -
  have "readBoundary t' node s = readBoundary t' node t" for t' using assms by (simp add: readBoundary_def)
  then show ?thesis by (simp add: scope_change_def fun_eq_iff split: sum.split)
qed

lemma strict_scope:
  assumes "evaluatePersistedWorkerScope ol node invoc True s = (None, s')"
  shows "\<exists>before b change. baseline_of ol ''worker scope'' None (Option.bind invoc in_snapshotPath) = Inr before \<and>
      readBoundary (ol_tree ol) node s = Inr b \<and>
      compareWorkspaceSnapshot (ol_tree ol) before (Some b) (nd_writeFiles node) (nd_writeRoots node) = Inr change \<and>
      wc_changedPaths change = []"
  using assms
  by (auto simp: evaluatePersistedWorkerScope_def judge_persisted_change_def Let_def
      scope_change_def map_sum_Pair_iff split: if_splits option.splits sum.splits prod.splits)

text \<open>The workspace of an attempt is what it was when the attempt began, and was compared to know it.\<close>

definition workspace_as_before :: "outlook \<Rightarrow> node \<Rightarrow> snapshot \<Rightarrow> invocation option \<Rightarrow> bool" where
  "workspace_as_before ol node s invoc \<longleftrightarrow>
     (\<exists>before b change. baseline_of ol ''worker scope'' None (Option.bind invoc in_snapshotPath) = Inr before \<and>
      readBoundary (ol_tree ol) node s = Inr b \<and>
      compareWorkspaceSnapshot (ol_tree ol) before (Some b) (nd_writeFiles node) (nd_writeRoots node) = Inr change \<and>
      (\<forall>p. entry_at (wk_entries before) p = entry_at (wk_entries (wc_after change)) p))"

lemma unchanged_is_as_before:
  assumes "baseline_of ol ''worker scope'' None (Option.bind invoc in_snapshotPath) = Inr before"
    and "readBoundary (ol_tree ol) node s = Inr b"
    and "compareWorkspaceSnapshot (ol_tree ol) before (Some b) (nd_writeFiles node) (nd_writeRoots node) = Inr change"
    and "wc_changedPaths change = []"
  shows "workspace_as_before ol node s invoc"
proof -
  have "wc_changedPaths change = changed_between (wk_entries before) (wk_entries (wc_after change))"
    by (rule comparison_exact [OF assms(3)])
  then have "entry_at (wk_entries before) p = entry_at (wk_entries (wc_after change)) p" for p
    using assms(4) changed_between_iff [of p "wk_entries before" "wk_entries (wc_after change)"] by auto
  with assms(1-3) show ?thesis unfolding workspace_as_before_def by blast
qed

lemma replay_leaves_as_before:
  "resolveUnknownEffect ol contract node invoc c = (Replay, c') \<Longrightarrow> workspace_as_before ol node (ce_state c) invoc"
  using replay_is_safe(2) unchanged_is_as_before by blast

lemma restart_leaves_as_before:
  assumes "reconcileAmbiguousWorkerRestart ol node invoc rv persisted now c = (False, c')"
  shows "workspace_as_before ol node (ce_state c) invoc"
proof -
  have "\<exists>s'. evaluatePersistedWorkerScope ol node invoc True (ce_state c) = (None, s')"
    using assms by (auto simp: reconcileAmbiguousWorkerRestart_def Let_def split: prod.splits option.splits)
  then show ?thesis using strict_scope unchanged_is_as_before by blast
qed

text \<open>A worker's restart is about the invocation whose effects are in doubt.\<close>

lemma last_worker_last: "last_opt (ns_invocations s) = Some i \<Longrightarrow> in_phase i = Worker \<Longrightarrow> last_worker s = Some i"
  by (cases "ns_invocations s" rule: rev_cases) (auto simp: last_worker_def last_opt_def find_last_def)

lemma doubtful_is_restarted:
  assumes "restarted_invocation rv c = Some i" and "in_phase i = Worker"
    and "lastId = map_option in_id (last_opt (ns_invocations (ce_state c)))"
  shows "worker_behind (unknown_invocation rv (orelse (rv_invocationId rv) lastId) c) c = Some i"
proof (cases "recovered_invocation rv c")
  case (Some j)
  then have "j = i" "rv_invocationId rv = Some (in_id i)"
    using assms(1) by (auto simp: restarted_invocation_def recovered_invocation_def dest!: find_SomeD)
  then show ?thesis using assms(1,2) by (simp add: unknown_invocation_def worker_behind_def)
next
  case None
  then have l: "last_opt (ns_invocations (ce_state c)) = Some i"
    using assms(1) by (simp add: restarted_invocation_def)
  show ?thesis
  proof (cases "rv_invocationId rv")
    case None
    then show ?thesis using assms(1-3) l by (simp add: unknown_invocation_def worker_behind_def)
  next
    case (Some k)
    have "List.find (\<lambda>j. Some (in_id j) = Some k) (ns_invocations (ce_state c)) = None"
      using \<open>recovered_invocation rv c = None\<close> Some by (simp add: recovered_invocation_def)
    moreover have "in_id i \<noteq> k"
      using calculation l last_in_set by (fastforce simp: find_None_iff last_opt_def split: if_splits)
    ultimately show ?thesis
      using assms(1,2) last_worker_last [OF l] Some by (simp add: unknown_invocation_def worker_behind_def)
  qed
qed

lemma finish_restart_kept [simp]: "kept c (finish_restart si cs rv restarted role recorded d) = kept c d"
  by (auto simp: finish_restart_def close_restarted_def dispatch_again_def Let_def kept_def unless_recorded_def
      close_recovered_def split: option.splits)

lemma unknown_settled_stops:
  assumes "settle_unknown si cs rv unknownId role persisted c = Inl c'"
  shows "ns_status (ce_state c') = Blocked \<or> role = Judge"
  using assms
  by (auto simp: settle_unknown_def Let_def unknown_effect_stop_def stop_with_def split: prod.splits resolution.splits if_splits)

lemma unknown_settled_replays:
  assumes "settle_unknown si cs rv unknownId role persisted c = Inr c'"
  shows "\<exists>d. resolveUnknownEffect (cs_outlook cs) (si_contract si) (si_node si)
    (worker_behind (unknown_invocation rv unknownId c) c) c = (Replay, d)"
  using assms
  by (auto simp: settle_unknown_def Let_def split: prod.splits resolution.splits if_splits)

lemma worker_restart_untouched:
  assumes "ns_status (ce_state (recover_restart si cs rm rv lastId recorded c)) = Pending"
    and "restarted_invocation rv c = Some i" and "in_phase i = Worker" and "rv_phase rv \<noteq> Some Judge"
    and "lastId = map_option in_id (last_opt (ns_invocations (ce_state c)))"
  shows "\<not> rm_materialization rm i" and "workspace_as_before (cs_outlook cs) (si_node si) (ce_state c) (Some i)"
proof -
  define unknownId where "unknownId = orelse (rv_invocationId rv) lastId"
  define role where "role = recovery_role rv (Some i)"
  have role: "role = Worker" using assms(3,4) by (cases "rv_phase rv"; cases "the (rv_phase rv)") (simp_all add: role_def recovery_role_def)
  have failed: "ns_status (ce_state (fail_materialization si rv i c)) = Failed"
    by (simp add: fail_materialization_def missing_result_def stop_with_def Let_def)
  show fresh: "\<not> rm_materialization rm i"
    using assms(1-3) failed by (auto simp: recover_restart_def Let_def)
  let ?unknown = "case Option.bind unknownId nonempty of None \<Rightarrow> False
    | Some k \<Rightarrow> hasOperationIntent (ce_rd c) k \<and> operationNeedsRecovery (ce_rd c) k"
  let ?settled = "if ?unknown then settle_unknown si cs rv unknownId role (recorded \<noteq> None) c else Inr c"
  have go: "recover_restart si cs rm rv lastId recorded c =
      (case ?settled of Inl c1 \<Rightarrow> c1
       | Inr c1 \<Rightarrow> (let (stopped, c2) = reconcileAmbiguousWorkerRestart (cs_outlook cs) (si_node si) (Some i) rv
             (recorded \<noteq> None) (si_now si) c1
           in if stopped then c2 else finish_restart si cs rv (Some i) role recorded c2))"
    using assms(2,3) fresh
    by (simp only: recover_restart_def Let_def assms(2) option.map(2) unknownId_def role_def option.sel
        simp_thms if_False if_True orelse_simps split: sum.split)
  show "workspace_as_before (cs_outlook cs) (si_node si) (ce_state c) (Some i)"
  proof (cases ?settled)
    case (Inl c1)
    then have "settle_unknown si cs rv unknownId role (recorded \<noteq> None) c = Inl c1" by (simp split: if_splits)
    from unknown_settled_stops [OF this] go Inl assms(1) role show ?thesis by simp
  next
    case (Inr c1)
    show ?thesis
    proof (cases ?unknown)
      case True
      with Inr have "settle_unknown si cs rv unknownId role (recorded \<noteq> None) c = Inr c1" by simp
      from unknown_settled_replays [OF this] doubtful_is_restarted [OF assms(2,3,5)] show ?thesis
        unfolding unknownId_def using replay_leaves_as_before by fastforce
    next
      case False
      with Inr have "c1 = c" by (simp split: if_splits)
      obtain stopped c2 where r: "reconcileAmbiguousWorkerRestart (cs_outlook cs) (si_node si) (Some i) rv
          (recorded \<noteq> None) (si_now si) c = (stopped, c2)" by fastforce
      have "\<not> stopped"
      proof
        assume stopped
        then have "ns_status (ce_state c2) = Blocked"
          using r by (auto simp: reconcileAmbiguousWorkerRestart_def Let_def stop_with_def split: prod.splits option.splits)
        moreover have "recover_restart si cs rm rv lastId recorded c = c2"
          using go \<open>stopped\<close> r Inr \<open>c1 = c\<close> by simp
        ultimately show False using assms(1) by simp
      qed
      with r restart_leaves_as_before show ?thesis by simp
    qed
  qed
qed

section \<open>Every recovery accounts for its node\<close>

lemma evaluated_snapshot:
  "evaluatePersistedWorkerScope ol node invoc strict s = (failure, s') \<Longrightarrow> \<exists>sc. s' = s\<lparr>ns_scope := sc\<rparr>"
  by (auto simp: evaluatePersistedWorkerScope_def intro: exI [of _ "ns_scope s"] split: sum.splits)

lemma scope_check_kept:
  assumes "checkPersistedWorkerScope ol node invoc materialization now c = (ok, c')"
  shows "kept c c'" and "\<not> ok \<Longrightarrow> ns_status (ce_state c') = Failed"
    and "ok \<Longrightarrow> \<exists>b change. scope_change ol node (ce_state c)
      (baseline_of ol ''worker scope'' None (Option.bind invoc in_snapshotPath)) = Inr (b, change) \<and>
      wc_unexpectedPaths change = []"
proof -
  obtain failure s where e: "evaluatePersistedWorkerScope ol node invoc materialization (ce_state c) = (failure, s)"
    by fastforce
  obtain sc where s: "s = (ce_state c)\<lparr>ns_scope := sc\<rparr>" using evaluated_snapshot [OF e] by blast
  show "kept c c'" "\<not> ok \<Longrightarrow> ns_status (ce_state c') = Failed"
    using assms by (auto simp: checkPersistedWorkerScope_def Let_def e s scope_failed_def failed_event_def kept_def
        stop_with_def split: option.splits prod.splits)
  show "ok \<Longrightarrow> \<exists>b change. scope_change ol node (ce_state c)
      (baseline_of ol ''worker scope'' None (Option.bind invoc in_snapshotPath)) = Inr (b, change) \<and>
      wc_unexpectedPaths change = []"
    using assms e by (auto simp: checkPersistedWorkerScope_def evaluatePersistedWorkerScope_def
        judge_persisted_change_def Let_def split: option.splits prod.splits sum.splits if_splits)
qed

lemma kept_then: "kept c d \<Longrightarrow> budget_step node d e \<and> accounted_for e \<Longrightarrow> budget_step node c e \<and> accounted_for e"
  using budget_trans kept_budget by blast

text \<open>
  An adopted worker's text reaches the next step only when it parses as done, the attempt's writes stayed inside
  the boundary, and the verification the controller then runs passed.
\<close>

definition adopted_invocation :: "recovery \<Rightarrow> ctl \<Rightarrow> invocation option" where
  "adopted_invocation rv c =
     (if rv_kind rv = Rk_rejudge then last_worker (ce_state c) else recovered_invocation rv c)"

definition adopted_text :: "site \<Rightarrow> recovery \<Rightarrow> ctl \<Rightarrow> string option" where
  "adopted_text si rv c = orelse (canonicalWorkerResultText si (ce_rd c)) (rv_result rv)"

definition adopts_text :: "site \<Rightarrow> closing \<Rightarrow> recovery \<Rightarrow> ctl \<Rightarrow> string \<Rightarrow> ctl \<Rightarrow> bool" where
  "adopts_text si cs rv c t c' \<longleftrightarrow>
     (\<exists>r b change c1. parse_evidence si cs t = Inr r \<and> wr_status r = Ws_done \<and>
        scope_change (cs_outlook cs) (si_node si) (ce_state c) (baseline_of (cs_outlook cs) ''worker scope'' None
          (Option.bind (adopted_invocation rv c) in_snapshotPath)) = Inr (b, change) \<and>
        wc_unexpectedPaths change = [] \<and>
        kept c c1 \<and> ns_result (ce_state c1) = Some r \<and>
        c' = executeControllerVerification (si_contract si) (si_node si) (si_bench si) c1 \<and>
        map_option ve_passed (ns_verification (ce_state c')) = Some True)"

lemma adopt_worker_step:
  assumes "adopt_worker si cs rm rv t c = Some out" and "ns_id (ce_state c) = nd_id (si_node si)"
  shows "case out of
      Inl c' \<Rightarrow> budget_step (si_node si) c c' \<and> accounted_for c'
    | Inr c' \<Rightarrow> kept c c' \<and> adopts_text si cs rv c t c'"
proof -
  define invoc where "invoc = adopted_invocation rv c"
  define mat where "mat = (case invoc of None \<Rightarrow> False | Some i \<Rightarrow> rm_materialization rm i)"
  obtain ok c1 where g: "checkPersistedWorkerScope (cs_outlook cs) (si_node si) invoc mat (si_now si) c = (ok, c1)"
    by fastforce
  note k = scope_check_kept [OF g]
  have id: "ns_id (ce_state c1) = nd_id (si_node si)" using k(1) assms(2) by (simp add: kept_def)
  have go: "Some out = (if \<not> ok then Some (Inl c1)
         else case parse_evidence si cs t of
                Inl e \<Rightarrow> map_option Inl (applyInvalidWorkerResult si e c1)
              | Inr r \<Rightarrow>
                  (case (if owes_packet (si_node si) r
                         then parseDiscoveryResult (oe_parse (si_outside si)) (cs_packet cs) r else None) of
                     Some e \<Rightarrow> map_option Inl (applyInvalidWorkerResult si e c1)
                   | None \<Rightarrow>
                       (let c2 = on_state (\<lambda>s. s\<lparr>ns_result := Some r\<rparr>) c1
                        in if wr_status r = Ws_blocked_context
                           then Some (Inl (stop_with Blocked Ph_complete (mk_error ''context_missing''
                                  (join_with ''; '' (wr_missingContext r))) (si_now si) c2))
                           else (let c3 = executeControllerVerification (si_contract si) (si_node si) (si_bench si) c2
                                 in if map_option ve_passed (ns_verification (ce_state c3)) = Some True
                                    then Some (Inr c3)
                                    else map_option Inl (applyVerificationFailure si c3)))))"
    using assms(1) g unfolding adopt_worker_def Let_def adopted_invocation_def [symmetric]
      invoc_def [symmetric] mat_def [symmetric] by simp
  show ?thesis
  proof (cases ok)
    case False
    with go have "out = Inl c1" by simp
    with k False kept_budget show ?thesis by (simp add: accounted_for_def)
  next
    case ok: True
    have invalid: ?thesis if "map_option Inl (applyInvalidWorkerResult si e c1) = Some out" for e
    proof -
      from that obtain c' where c': "applyInvalidWorkerResult si e c1 = Some c'" "out = Inl c'" by auto
      from kept_then [OF k(1) invalid_result_step [OF c'(1) id]] c'(2) show ?thesis by simp
    qed
    show ?thesis
    proof (cases "parse_evidence si cs t")
      case (Inl e)
      with go ok invalid show ?thesis by simp
    next
      case (Inr r)
      show ?thesis
      proof (cases "if owes_packet (si_node si) r
          then parseDiscoveryResult (oe_parse (si_outside si)) (cs_packet cs) r else None")
        case (Some e)
        with go ok Inr invalid show ?thesis by simp
      next
        case None
        define c2 where "c2 = on_state (\<lambda>s. s\<lparr>ns_result := Some r\<rparr>) c1"
        define c3 where "c3 = executeControllerVerification (si_contract si) (si_node si) (si_bench si) c2"
        have k2: "kept c c2" "kept c c3"
          using kept_trans [OF k(1)] verification_kept kept_trans
          by (simp_all add: c2_def c3_def kept_def)
        show ?thesis
        proof (cases "wr_status r = Ws_blocked_context")
          case True
          with go ok Inr None have "out = Inl (stop_with Blocked Ph_complete (mk_error ''context_missing''
              (join_with ''; '' (wr_missingContext r))) (si_now si) c2)" by (simp add: c2_def)
          with kept_budget [OF k2(1)] budget_trans [OF _ budget_stop] show ?thesis by simp
        next
          case False
          then have done': "wr_status r = Ws_done" by (cases "wr_status r") simp_all
          show ?thesis
          proof (cases "map_option ve_passed (ns_verification (ce_state c3)) = Some True")
            case True
            with go ok Inr None False have "out = Inr c3" by (simp add: c2_def c3_def Let_def)
            moreover obtain b change where "scope_change (cs_outlook cs) (si_node si) (ce_state c) (baseline_of
                (cs_outlook cs) ''worker scope'' None (Option.bind invoc in_snapshotPath)) = Inr (b, change)"
                "wc_unexpectedPaths change = []" using k(3) ok by blast
            moreover have "ns_result (ce_state c2) = Some r" by (simp add: c2_def)
            ultimately have "adopts_text si cs rv c t c3"
              using True k2(1) Inr done' unfolding adopts_text_def invoc_def c3_def by blast
            with \<open>out = Inr c3\<close> k2(2) show ?thesis by simp
          next
            case unverified: False
            have "Some out = map_option Inl (applyVerificationFailure si c3)"
              using go ok Inr None False unverified unfolding Let_def c3_def c2_def
              by (simp only: if_True if_False simp_thms sum.case option.case)
            then obtain c' where "applyVerificationFailure si c3 = Some c'" "out = Inl c'"
              by (cases "applyVerificationFailure si c3") auto
            moreover have "ns_id (ce_state c3) = nd_id (si_node si)" using k2(2) assms(2) by (simp add: kept_def)
            ultimately show ?thesis
              using kept_then [OF k2(2) rejection_step] by (simp add: applyVerificationFailure_def)
          qed
        qed
      qed
    qed
  qed
qed

text \<open>The ways an adoption reaches the run's ref.\<close>

definition adopts :: "site \<Rightarrow> closing \<Rightarrow> recovery \<Rightarrow> desk \<Rightarrow> desk \<Rightarrow> bool" where
  "adopts si cs rv w w' \<longleftrightarrow>
     (case rv_phase rv of
        None \<Rightarrow> False
      | Some Judge \<Rightarrow> advises si \<or> \<not> judged si w \<or> lets_through si (rv_result rv)
      | Some Worker \<Rightarrow> \<not> gt_enabled (nd_gate (si_node si)) \<and>
          (let c = materialize cs (nd_id (si_node si)) (iw_client w)
           in case adopted_text si rv c of
                None \<Rightarrow> True
              | Some t \<Rightarrow> \<exists>c' v dp. adopts_text si cs rv c t c' \<and> settleDone si dp v = Some w' \<and>
                  ns_verification (ce_state (iw_client v)) = ns_verification (ce_state c')))"

lemma kept_at_node:
  assumes "kept (iw_client w) (f (iw_client w))"
  shows "ready si (at_node f w) = ready si w" "desk_step si (at_node f w) w' \<Longrightarrow> desk_step si w w'"
  using kept_ready [OF assms] kept_step [OF assms] by (simp_all add: at_node_client)

lemma on_ctl_desk:
  assumes "on_ctl f w = Some w'"
    and "\<And>c'. f (iw_client w) = Some c' \<Longrightarrow> budget_step (si_node si) (iw_client w) c' \<and> accounted_for c'"
  shows "desk_step si w w' \<and> untouched w w'"
  using assms by (auto simp: on_ctl_def desk_step_def untouched_def)

lemma adopted_desk:
  assumes "recover_adopted si cs rm rv persisted w = Some w'" and "ready si w"
  shows "desk_step si w w' \<and> (untouched w w' \<or> adopts si cs rv w w')"
proof -
  define d where "d = at_node (materialize cs (nd_id (si_node si))) w"
  define recorded where "recorded c' = d\<lparr>iw_client := record_adoption si rv persisted c'\<rparr>" for c'
  have state: "ce_state (iw_client d) = ce_state (iw_client w)" by (simp add: d_def)
  have d: "kept (iw_client w) (iw_client d)" "untouched w d" by (simp_all add: d_def)
  have step: "desk_step si d x \<Longrightarrow> desk_step si w x" "untouched d x \<Longrightarrow> untouched w x" for x
    using kept_step [OF d(1)] untouched_trans [OF d(2)] by (simp_all add: d_def at_node_client)
  have rd: "ready si d" using kept_ready [OF d(1), of si] assms(2) by (simp add: d_def at_node_client)
  have rec: "ready si (recorded c')" "untouched d (recorded c')" "desk_step si (recorded c') x \<Longrightarrow> desk_step si d x"
    if "kept (iw_client d) c'" for c' x
    using kept_ready [OF kept_trans [OF that kept_simps(3)], of si] rd
      kept_step [OF kept_trans [OF that kept_simps(3)]] by (simp_all add: recorded_def untouched_def)
  consider (judge) "rv_phase rv = Some Judge" | (worker) "rv_phase rv = Some Worker"
    using assms(1) by (auto simp: recover_adopted_def Let_def split: option.splits role.splits)
  then show ?thesis
  proof cases
    case judge
    show ?thesis
    proof (cases "recoverWorkerResult si cs rm (iw_client d)")
      case (Inl e)
      with assms(1) judge have "on_ctl (applyInvalidWorkerResult si e) d = Some w'"
        by (simp add: recover_adopted_def Let_def d_def)
      then have "desk_step si d w' \<and> untouched d w'"
        by (rule on_ctl_desk) (use invalid_result_step rd in \<open>auto simp: ready_def\<close>)
      with step show ?thesis by blast
    next
      case (Inr r)
      define x where "x = recorded (on_state (\<lambda>s. s\<lparr>ns_result := orelse r (ns_result s)\<rparr>) (iw_client d))"
      have k: "kept (iw_client d) (on_state (\<lambda>s. s\<lparr>ns_result := orelse r (ns_result s)\<rparr>) (iw_client d))"
        by (simp add: kept_def)
      from assms(1) judge Inr have go: "applyJudgeResult si (rv_result rv) x = Some w'"
        by (simp add: recover_adopted_def Let_def d_def x_def recorded_def)
      have "judged si x = judged si w"
        using skip_cong [of "ce_state (iw_client x)" "ce_state (iw_client w)"] state
        by (simp add: judged_def x_def recorded_def)
      moreover have x: "ready si x" "untouched w x" "desk_step si x w' \<Longrightarrow> desk_step si w w'"
        using rec [OF k] step by (simp_all add: x_def)
      moreover have "untouched x w' \<or> advises si \<or> \<not> judged si x \<or> lets_through si (rv_result rv)"
        using judge_result_desk(2) [OF go x(1)] by blast
      ultimately show ?thesis
        using judge_result_desk(1) [OF go x(1)] untouched_trans [OF x(2)] judge by (auto simp: adopts_def)
    qed
  next
    case worker
    define found where "found = orelse (canonicalWorkerResultText si (ce_rd (iw_client d))) (rv_result rv)"
    obtain out where out: "(case found of None \<Rightarrow> Some (Inr (iw_client d))
        | Some t \<Rightarrow> adopt_worker si cs rm rv t (iw_client d)) = Some out"
      and go: "Some w' = (case out of Inl c' \<Rightarrow> Some (d\<lparr>iw_client := c'\<rparr>)
        | Inr c' \<Rightarrow> if gt_enabled (nd_gate (si_node si))
            then Some (at_node (move Pending (\<lambda>s. s\<lparr>ns_phase := Ph_judge, ns_error := None,
                   ns_blockedBy := []\<rparr>) (si_now si)) (recorded c'))
            else settleDone si \<lparr>dp_result = Keep, dp_gate = Keep, dp_error = Put None, dp_unblocked = True\<rparr>
                   (recorded c'))"
      using assms(1) worker unfolding recover_adopted_def Let_def d_def [symmetric] found_def recorded_def
      by (auto split: option.splits sum.splits)
    have id: "ns_id (ce_state (iw_client d)) = nd_id (si_node si)" using rd by (simp add: ready_def)
    show ?thesis
    proof (cases out)
      case (Inl c')
      with out obtain t where "adopt_worker si cs rm rv t (iw_client d) = Some (Inl c')"
        by (auto split: option.splits)
      from adopt_worker_step [OF this id] go Inl have "desk_step si d w'" "untouched d w'"
        by (simp_all add: desk_step_def untouched_def)
      with step show ?thesis by blast
    next
      case (Inr c')
      have a: "kept (iw_client d) c'" "case found of None \<Rightarrow> True | Some t \<Rightarrow> adopts_text si cs rv (iw_client d) t c'"
        using out Inr adopt_worker_step [OF _ id, of cs rm rv _ "Inr c'"]
        by (auto split: option.splits)
      show ?thesis
      proof (cases "gt_enabled (nd_gate (si_node si))")
        case True
        with go Inr have "w' = at_node (move Pending (\<lambda>s. s\<lparr>ns_phase := Ph_judge, ns_error := None,
            ns_blockedBy := []\<rparr>) (si_now si)) (recorded c')" by simp
        then have "desk_step si (recorded c') w'" "untouched (recorded c') w'" by (simp_all add: desk_step_def)
        with rec(2,3) [OF a(1)] step untouched_trans show ?thesis by blast
      next
        case False
        with go Inr have s: "settleDone si \<lparr>dp_result = Keep, dp_gate = Keep, dp_error = Put None, dp_unblocked = True\<rparr>
            (recorded c') = Some w'" by simp
        have "ns_verification (ce_state (iw_client (recorded c'))) = ns_verification (ce_state c')"
          by (simp add: recorded_def)
        moreover have client: "iw_client d = materialize cs (nd_id (si_node si)) (iw_client w)" by (simp add: d_def)
        ultimately have "case found of None \<Rightarrow> True | Some t \<Rightarrow> \<exists>c' v dp. adopts_text si cs rv (iw_client d) t c' \<and>
            settleDone si dp v = Some w' \<and> ns_verification (ce_state (iw_client v)) = ns_verification (ce_state c')"
          using s a(2) by (cases found) (simp, simp only: option.case, blast)
        then have "adopts si cs rv w w'"
          using worker False unfolding found_def client by (simp add: adopts_def adopted_text_def Let_def)
        with settled_desk [OF s rec(1) [OF a(1)]] rec(3) [OF a(1)] step(1) show ?thesis by blast
      qed
    qed
  qed
qed

lemma kept_stop: "kept c d \<Longrightarrow> st \<noteq> Running \<Longrightarrow> budget_step node c (stop_with st ph e now d) \<and>
    accounted_for (stop_with st ph e now d)"
  using kept_budget [of c d] budget_trans [OF _ budget_stop] by simp

lemma failed_materialization_step:
  "budget_step node c (fail_materialization si rv i c) \<and> accounted_for (fail_materialization si rv i c)"
  by (auto simp: fail_materialization_def missing_result_def Let_def budget_step_def accounted_for_def
      stop_with_def split: option.splits)

lemma settle_unknown_step:
  assumes "settle_unknown si cs rv unknownId role persisted c = r"
  shows "case r of Inl c' \<Rightarrow> budget_step node c c' \<and> accounted_for c' | Inr c' \<Rightarrow> kept c c'"
proof -
  have resolve: "kept c d" if "resolveUnknownEffect ol contract node' i c = (res, d)" for ol contract node' i res d
    using that evaluated_snapshot verification_kept
    by (auto simp: resolveUnknownEffect_def Let_def kept_def split: if_splits prod.splits option.splits
        dest!: evaluated_snapshot)
  show ?thesis
    using assms
    by (auto simp: settle_unknown_def Let_def unknown_effect_stop_def budget_step_def accounted_for_def
        kept_def unless_recorded_def stop_with_def dest!: resolve split: prod.splits resolution.splits option.splits if_splits)
qed

lemma reconcile_step:
  assumes "reconcileAmbiguousWorkerRestart ol node' i rv persisted now c = (stopped, c')"
  shows "kept c c'" and "stopped \<Longrightarrow> accounted_for c'"
  using assms
  by (auto simp: reconcileAmbiguousWorkerRestart_def Let_def kept_def accounted_for_def stop_with_def
      dest!: evaluated_snapshot split: prod.splits option.splits)

lemma finish_restart_pending [simp]: "ns_status (ce_state (finish_restart si cs rv restarted role recorded d)) = Pending"
  by (simp add: finish_restart_def dispatch_again_def Let_def)

lemma finish_step:
  "kept c d \<Longrightarrow> budget_step node c (finish_restart si cs rv restarted role recorded d) \<and>
    accounted_for (finish_restart si cs rv restarted role recorded d)"
  using kept_budget [of c "finish_restart si cs rv restarted role recorded d"] by (simp add: accounted_for_def)

lemma restart_step:
  "budget_step node c (recover_restart si cs rm rv lastId recorded c) \<and>
    accounted_for (recover_restart si cs rm rv lastId recorded c)"
proof -
  define r where "r = (if case Option.bind (orelse (rv_invocationId rv) lastId) nonempty of
      None \<Rightarrow> False | Some k \<Rightarrow> hasOperationIntent (ce_rd c) k \<and> operationNeedsRecovery (ce_rd c) k
    then settle_unknown si cs rv (orelse (rv_invocationId rv) lastId)
      (recovery_role rv (restarted_invocation rv c)) (recorded \<noteq> None) c else Inr c)"
  have r: "case r of Inl c' \<Rightarrow> budget_step node c c' \<and> accounted_for c' | Inr c' \<Rightarrow> kept c c'"
    using settle_unknown_step [OF refl] by (simp add: r_def)
  show ?thesis
  proof (cases "map_option in_phase (restarted_invocation rv c) = Some Worker \<and>
      rm_materialization rm (the (restarted_invocation rv c))")
    case True
    with failed_materialization_step show ?thesis by (simp add: recover_restart_def Let_def)
  next
    case False
    let ?go = "recover_restart si cs rm rv lastId recorded c"
    have go: "?go = (case r of Inl c1 \<Rightarrow> c1
        | Inr c1 \<Rightarrow>
            if rv_phase rv = Some Worker \<or> map_option in_phase (restarted_invocation rv c) = Some Worker
            then (let (stopped, c2) = reconcileAmbiguousWorkerRestart (cs_outlook cs) (si_node si)
                       (orelse (restarted_invocation rv c) (last_worker (ce_state c1))) rv (recorded \<noteq> None) (si_now si) c1
                  in if stopped then c2 else finish_restart si cs rv (restarted_invocation rv c)
                       (recovery_role rv (restarted_invocation rv c)) recorded c2)
            else finish_restart si cs rv (restarted_invocation rv c)
                   (recovery_role rv (restarted_invocation rv c)) recorded c1)"
      unfolding recover_restart_def Let_def r_def if_not_P [OF False] ..
    show ?thesis
    proof (cases r)
      case (Inl c1)
      with go r show ?thesis by simp
    next
      case (Inr c1)
      obtain stopped c2 where a: "reconcileAmbiguousWorkerRestart (cs_outlook cs) (si_node si)
          (orelse (restarted_invocation rv c) (last_worker (ce_state c1))) rv (recorded \<noteq> None) (si_now si) c1
          = (stopped, c2)" by fastforce
      have k: "kept c c1" "kept c c2" using r Inr reconcile_step(1) [OF a] kept_trans by auto
      from go Inr a have "?go = c2 \<and> stopped \<or> (\<exists>x \<in> {c1, c2}. ?go = finish_restart si cs rv
          (restarted_invocation rv c) (recovery_role rv (restarted_invocation rv c)) recorded x)" by auto
      then show ?thesis using finish_step k kept_budget reconcile_step(2) [OF a] by auto
    qed
  qed
qed

lemma settled_recovery_desk:
  assumes "settle_recovery si cs rm lastId recorded found w = Some w'" and "ready si w"
  shows "desk_step si w w' \<and> (untouched w w' \<or>
    (\<exists>rv. found = Some rv \<and> rv_kind rv \<in> {Rk_adopted, Rk_rejudge} \<and> adopts si cs rv (at_node (persistRecoveryUsage rv) w) w'))"
proof (cases found)
  case None
  with assms(1) show ?thesis by (auto simp: settle_recovery_def desk_step_def dispatch_again_def)
next
  case (Some rv)
  let ?v = "at_node (persistRecoveryUsage rv) w"
  have v: "ready si ?v" "desk_step si ?v x \<Longrightarrow> desk_step si w x" for x
    using kept_at_node [of w "persistRecoveryUsage rv"] assms(2) by simp_all
  have at: "w' = at_node f ?v \<Longrightarrow> budget_step (si_node si) (iw_client ?v) (f (iw_client ?v)) \<Longrightarrow>
      accounted_for (f (iw_client ?v)) \<Longrightarrow> desk_step si ?v w' \<and> untouched ?v w'" for f
    by (simp add: desk_step_def)
  have "desk_step si ?v w' \<and> (untouched ?v w' \<or> rv_kind rv \<in> {Rk_adopted, Rk_rejudge} \<and> adopts si cs rv ?v w')"
  proof (cases "rv_kind rv \<in> {Rk_adopted, Rk_rejudge}")
    case True
    with assms(1) Some have "recover_adopted si cs rm rv (recorded \<noteq> None) ?v = Some w'"
      by (auto simp: settle_recovery_def)
    from adopted_desk [OF this v(1)] True show ?thesis by blast
  next
    case False
    have stop: "budget_step (si_node si) c (unknown_effect_stop si role m c) \<and>
        accounted_for (unknown_effect_stop si role m c)" for c role m
      by (simp add: unknown_effect_stop_def)
    have stalled: "budget_step (si_node si) c (recover_stalled si cs rv c) \<and> accounted_for (recover_stalled si cs rv c)" for c
      by (simp add: recover_stalled_def Let_def kept_stop)
    have exhausted: "desk_step si ?v w'" "untouched ?v w'" if e: "on_ctl (recover_exhausted si cs rv) ?v = Some w'"
    proof -
      define settle where "settle c = settle_recovered rv (recovered_invocation rv c)
        ((recovery_request ''exhausted'' rv (recovered_invocation rv c))
           \<lparr>sr_receipts := ol_receipts (cs_outlook cs) (recovered_invocation rv c), sr_error := recovery_error rv\<rparr>)
        (si_now si) (persist (close_recovered rv (si_now si) c))" for c
      let ?i = "recovered_invocation rv (iw_client ?v)"
      have k: "kept c (settle c)" for c by (simp add: settle_def)
      have "on_ctl (\<lambda>c. map_option snd (handleProviderExhaustion si (recovery_role rv ?i)
          (recoveryExhaustionEnvelope rv ?i) (Option.bind ?i in_runtimeId) None c)) (at_node settle ?v) = Some w'"
        using e by (simp add: on_ctl_def recover_exhausted_def Let_def settle_def at_node_client)
      from exhausted_close [OF this] have "desk_step si (at_node settle ?v) w'"
        by (simp add: judged_close_def)
      then show "desk_step si ?v w'" using kept_at_node(2) [of ?v settle] k by blast
      show "untouched ?v w'" using e by (auto simp: on_ctl_def untouched_def)
    qed
    show ?thesis
      using assms(1) Some False at stop stalled restart_step exhausted
      by (cases "rv_kind rv") (auto simp: settle_recovery_def Let_def)
  qed
  moreover have "untouched ?v w' \<Longrightarrow> untouched w w'" by (simp add: untouched_def)
  ultimately show ?thesis using Some v(2) by blast
qed

lemma recovered_orphan:
  assumes "recoverOrphan si cs rm s c = Some (found, c')"
  shows "kept c c'" and "ce_state c' = ce_state c"
proof -
  have "c' = c \<or> (\<exists>i now. c' = note_unknown s i now c)"
    using assms by (auto simp: recoverOrphan_def Let_def split: if_splits option.splits)
  moreover have "ce_state (note_unknown s i now c) = ce_state c" for i now by (simp add: note_unknown_def)
  ultimately show "kept c c'" "ce_state c' = ce_state c" by auto
qed

text \<open>A node is left as it is, or settled from a recovery, on a desk with the same node.\<close>

lemma found_recovery_kept:
  assumes "found_recovery si cs rm c = Some (found, c')"
  shows "kept c c'" and "ce_state c' = ce_state c"
  using assms recovered_orphan [of si cs rm _ c found c'] by (auto simp: found_recovery_def Let_def split: if_splits)

lemma recover_node_cases:
  assumes "recover_node si cs rm w = Some w'"
  obtains (waits) "ns_status (ce_state (iw_client w)) = Pending" "w' = at_node (recoverVerificationAttempts rm) w"
    | (settled) lastId recorded found c where
        "settle_recovery si cs rm lastId recorded found (w\<lparr>iw_client := c\<rparr>) = Some w'" "kept (iw_client w) c"
        "ce_state c = ce_state (recoverVerificationAttempts rm (iw_client w))"
        "found_recovery si cs rm (recoverVerificationAttempts rm (iw_client w)) = Some (found, c)"
proof -
  let ?c = "recoverVerificationAttempts rm (iw_client w)"
  have "w' = at_node (recoverVerificationAttempts rm) w \<and> ns_status (ce_state (iw_client w)) = Pending \<or>
    (\<exists>found c lastId recorded. found_recovery si cs rm ?c = Some (found, c) \<and>
        settle_recovery si cs rm lastId recorded found (w\<lparr>iw_client := c\<rparr>) = Some w')"
    using assms unfolding recover_node_def Let_def
    by (auto simp: at_node_client recoverVerificationAttempts_def split: if_splits option.splits)
  then show thesis
  proof (elim disjE exE conjE)
    fix found c lastId recorded
    assume f: "found_recovery si cs rm ?c = Some (found, c)"
      and "settle_recovery si cs rm lastId recorded found (w\<lparr>iw_client := c\<rparr>) = Some w'"
    moreover have "kept (iw_client w) ?c" by simp
    ultimately show thesis
      using settled kept_trans found_recovery_kept [OF f] by blast
  qed (use waits in blast)
qed

lemma running_is_recovered:
  "ns_status s = Running \<Longrightarrow> fst (classify_node targets options now i s) = Recover"
  by (auto simp: classify_node_def Let_def isJudgeUnavailable_def isUnknownEffectStop_def isRetryableFailure_def
      isDependencyFailed_def)

lemma recover_node_desk:
  assumes "recover_node si cs rm w = Some w'" and "ready si w"
  shows "desk_step si w w'"
  using assms(1)
proof (cases rule: recover_node_cases)
  case waits
  then show ?thesis
    by (auto simp: desk_step_def accounted_for_def recoverVerificationAttempts_def budget_step_def)
next
  case (settled lastId recorded found c)
  have "ready si (w\<lparr>iw_client := c\<rparr>)" using kept_ready [OF settled(2), of si] assms(2) by simp
  from settled_recovery_desk [OF settled(1) this] kept_step [OF settled(2)] show ?thesis by blast
qed

lemma resume_desk:
  assumes "resume_node si cs rm (fst (classify_node targets options now i (ce_state (iw_client w)))) answered widened w
      = Some w'"
    and "ns_status (ce_state (iw_client w)) = Running" and "ready si w"
  shows "desk_step si w w'"
proof -
  have "recover_node si cs rm w = Some w' \<or> w' = at_node (retry_node (si_now si)) w \<and> widened \<or>
      (isHumanStepPending (ce_state (iw_client w)) \<and> \<not> answered)"
    using assms(1,2) running_is_recovered [OF assms(2)]
    by (auto simp: resume_node_def Let_def isBlockedContextTerminal_def split: if_splits)
  moreover have "\<not> isHumanStepPending (ce_state (iw_client w))"
    using assms(2) by (simp add: isHumanStepPending_def)
  moreover have "desk_step si w (at_node (retry_node (si_now si)) w)"
    by (auto simp: desk_step_def retry_node_def reopen_def Let_def budget_step_def accounted_for_def)
  ultimately show ?thesis using recover_node_desk assms(3) by blast
qed

section \<open>A judge that answered while nobody listened\<close>

definition judge_turn :: invocation where
  "judge_turn = (sample_invocation ''i-2'' Judge ''gpt'')\<lparr>in_closedAt := Some (Iso 5)\<rparr>"

definition answered_remains :: remains where
  "answered_remains = \<lparr>rm_owned = False, rm_now = 0, rm_polls = (\<lambda>n. \<lparr>po_owned = False, po_now = 0, po_result = None,
     po_read = 0\<rparr>), rm_waited = 0, rm_result = (\<lambda>m i. Some ((sample_envelope Done None)\<lparr>en_result := Some ''pass''\<rparr>)),
     rm_materialization = (\<lambda>i. False), rm_verifying = False\<rparr>"

definition orphaned_desk :: desk where
  "orphaned_desk = at_node (\<lambda>c. (on_state (\<lambda>s. s\<lparr>ns_invocations := [judge_turn]\<rparr>) c)\<lparr>ce_running := None\<rparr>) sample_desk"

lemma orphan_found:
  "recoverOrphan sample_site sample_closing answered_remains (ce_state (iw_client orphaned_desk)) (iw_client orphaned_desk) =
     Some (Some (adopted_turn judge_turn ((sample_envelope Done None)\<lparr>en_result := Some ''pass''\<rparr>)), iw_client orphaned_desk)"
proof -
  have b: "budget_end (si_contract sample_site) (si_node sample_site) (ce_state (iw_client orphaned_desk)) judge_turn
      = Some 600000"
    by code_simp
  have "\<not> hasOperationIntent (ce_rd (iw_client orphaned_desk)) (in_id judge_turn)" by code_simp
  then have n: "note_unknown s judge_turn now (iw_client orphaned_desk) = iw_client orphaned_desk" for s now
    by (simp add: note_unknown_def)
  have s: "ns_status (ce_state (iw_client orphaned_desk)) = Running"
    "last_opt (ns_invocations (ce_state (iw_client orphaned_desk))) = Some judge_turn" by code_simp+
  have "judge_reads sample_site ''pass''"
    using answers(1) by (simp add: judge_reads_def)
  moreover have "in_phase judge_turn = Judge" "in_closedAt judge_turn = Some (Iso 5)"
    by (simp_all add: judge_turn_def sample_invocation_def)
  ultimately show ?thesis
    by (simp add: recoverOrphan_def s n orphan_outcome_def b gone_def adoptOrRejudgeJudge_def answered_remains_def
      adopted_turn_def Let_def unreadable_def parse_opt_def sample_envelope_def)
qed

definition judge_answer :: recovery where
  "judge_answer = adopted_turn judge_turn ((sample_envelope Done None)\<lparr>en_result := Some ''pass''\<rparr>)"

definition adopted_client :: ctl where
  "adopted_client = record_adoption sample_site judge_answer False (on_state (\<lambda>s. s\<lparr>ns_result := orelse
     None (ns_result s)\<rparr>) (persistRecoveryUsage judge_answer (iw_client orphaned_desk)))"

definition adoption_note :: exec_override where
  "adoption_note = recovery_override ''adopted'' judge_answer
     (Some ''judge invocation i-2 completed after controller loss'')"

lemma adopted_client_is:
  "\<exists>st sn. adopted_client = (iw_client orphaned_desk)\<lparr>ce_state := (ce_state (iw_client orphaned_desk))
      \<lparr>ns_invocations := [judge_turn\<lparr>in_active := False\<rparr>], ns_executionOverrides := [adoption_note]\<rparr>,
     ce_rd := sample_run_dir\<lparr>rd_settlements := [(''i-2'', st)], rd_nodes := [(''a'', sn)],
       rd_events := [event_of ((ce_state (iw_client orphaned_desk))\<lparr>ns_invocations := [judge_turn\<lparr>in_active := False\<rparr>]\<rparr>)
         Running Running (Det_override adoption_note)]\<rparr>\<rparr>"
  by (simp add: adopted_client_def record_adoption_def Let_def persistRecoveryUsage_def recovered_invocation_def
     judge_answer_def adopted_turn_def orphaned_desk_def sample_desk_def sample_ctl_def
     close_recovered_def closePersistedInvocation_def unless_recorded_def recorded_override_def recordExecutionOverride_def
     sample_snapshot_def judge_turn_def sample_invocation_def settle_recovered_def settle_in_def sample_envelope_def
     hasMeasuredUsage_def on_state_def settleInvocation_def sample_run_dir_def writeNode_def appendTransitionEvent_def
     event_of_def adoption_note_def decision_name_def role_text.simps)

lemma judged_done:
  "map_option (\<lambda>w. (iw_ref w, ns_status (ce_state (iw_client w))))
     (settleDone sample_site \<lparr>dp_result = Keep, dp_gate = Put (Some passing_verdict), dp_error = Keep, dp_unblocked = False\<rparr>
        (at_node (on_state clearJudgeReask)
          (at_node (on_state (\<lambda>s. s\<lparr>ns_gate := Some passing_verdict, ns_judgeFailures := Some 0\<rparr>))
            (orphaned_desk\<lparr>iw_client := adopted_client\<rparr>)))) = Some (Some ''base-a'', Done)"
proof -
  obtain st sn where c: "adopted_client = (iw_client orphaned_desk)\<lparr>ce_state := (ce_state (iw_client orphaned_desk))
      \<lparr>ns_invocations := [judge_turn\<lparr>in_active := False\<rparr>], ns_executionOverrides := [adoption_note]\<rparr>,
     ce_rd := sample_run_dir\<lparr>rd_settlements := [(''i-2'', st)], rd_nodes := [(''a'', sn)],
       rd_events := [event_of ((ce_state (iw_client orphaned_desk))\<lparr>ns_invocations := [judge_turn\<lparr>in_active := False\<rparr>]\<rparr>)
         Running Running (Det_override adoption_note)]\<rparr>\<rparr>" using adopted_client_is by blast
  show ?thesis unfolding c by code_simp
qed

lemma resumed:
  "recover_node sample_site sample_closing answered_remains orphaned_desk =
     settleDone sample_site \<lparr>dp_result = Keep, dp_gate = Put (Some passing_verdict), dp_error = Keep, dp_unblocked = False\<rparr>
        (at_node (on_state clearJudgeReask)
          (at_node (on_state (\<lambda>s. s\<lparr>ns_gate := Some passing_verdict, ns_judgeFailures := Some 0\<rparr>))
            (orphaned_desk\<lparr>iw_client := adopted_client\<rparr>)))"
proof -
  have mode: "(reviewMode (nd_gate (si_node sample_site)) = Rev_advisory) = False"
    "shouldFail (si_node sample_site) passing_verdict = False" by code_simp+
  have verdict: "applyJudgeResult sample_site (Some ''pass'') v =
      settleDone sample_site \<lparr>dp_result = Keep, dp_gate = Put (Some passing_verdict), dp_error = Keep, dp_unblocked = False\<rparr>
        (at_node (on_state clearJudgeReask)
          (at_node (on_state (\<lambda>s. s\<lparr>ns_gate := Some passing_verdict, ns_judgeFailures := Some 0\<rparr>)) v))" for v
    by (simp add: applyJudgeResult_def answers(1) mode Let_def passing_verdict_def [THEN arg_cong, of gr_verdict])
  have s: "ns_executionOverrides (ce_state (iw_client orphaned_desk)) = []"
    "ns_status (ce_state (iw_client orphaned_desk)) = Running"
    "rm_verifying answered_remains = False" "cs_attemptFile sample_closing = None"
    by (simp_all add: orphaned_desk_def sample_desk_def sample_ctl_def sample_snapshot_def answered_remains_def
        sample_closing_def)
  have l: "last_opt (ns_invocations (ce_state (iw_client orphaned_desk))) = Some judge_turn" "in_id judge_turn = ''i-2''"
    by code_simp+
  have d: "at_node (recoverVerificationAttempts answered_remains) orphaned_desk = orphaned_desk"
    by (simp add: recoverVerificationAttempts_def s(3) at_node_id)
  have "recover_node sample_site sample_closing answered_remains orphaned_desk =
     settle_recovery sample_site sample_closing answered_remains (Some ''i-2'') None (Some judge_answer) orphaned_desk"
    unfolding recover_node_def found_recovery_def Let_def
    by (simp add: d s l orphan_found find_last_def judge_answer_def recorded_recovery_def last_id_def pending_start_def)
  also have "\<dots> = applyJudgeResult sample_site (Some ''pass'') (orphaned_desk\<lparr>iw_client := adopted_client\<rparr>)"
  proof -
    have k: "rv_kind judge_answer = Rk_adopted" "rv_phase judge_answer = Some Judge" "rv_result judge_answer = Some ''pass''"
      by (simp_all add: judge_answer_def adopted_turn_def judge_turn_def sample_invocation_def)
    have m: "materialize sample_closing n c = c" for n c
      using s(4) by (simp add: materialize_def)
    have r: "recoverWorkerResult sample_site sample_closing answered_remains
        (persistRecoveryUsage judge_answer (iw_client orphaned_desk)) = Inr None"
      by code_simp
    show ?thesis
      by (simp add: settle_recovery_def recover_adopted_def Let_def k m r adopted_client_def at_node_client)
  qed
  finally show ?thesis unfolding verdict .
qed
lemma orphaned_ready:
  "ns_id (ce_state (iw_client orphaned_desk)) = nd_id (si_node sample_site)"
  "ns_status (ce_state (iw_client orphaned_desk)) = Running" "ce_running (iw_client orphaned_desk) = None"
  "no_open_tx (iw_journal orphaned_desk) n a" "iw_ref orphaned_desk = Some ''base''"
  using sample_desks(1,3) by (simp_all add: orphaned_desk_def sample_desk_def sample_ctl_def sample_snapshot_def)

lemma orphaned_resumes:
  "\<exists>w'. resume_node sample_site sample_closing answered_remains
     (fst (classify_node None opts now ''a'' (ce_state (iw_client orphaned_desk)))) False False orphaned_desk = Some w' \<and>
   iw_ref w' = Some ''base-a'' \<and> ns_status (ce_state (iw_client w')) = Done"
proof -
  have "\<not> isHumanStepPending (ce_state (iw_client orphaned_desk))"
    using orphaned_ready(2) by (simp add: isHumanStepPending_def)
  then have "resume_node sample_site sample_closing answered_remains
     (fst (classify_node None opts now ''a'' (ce_state (iw_client orphaned_desk)))) False False orphaned_desk =
     recover_node sample_site sample_closing answered_remains orphaned_desk"
    using orphaned_ready(2)
    by (simp add: resume_node_def Let_def running_is_recovered isBlockedContextTerminal_def)
  with judged_done resumed show ?thesis by auto
qed

section \<open>What a resume guarantees\<close>

text \<open>
  C10. A resume never leaves a node running: no job of the previous controller is waited for, so a
  node found running is settled, queued or stopped, whatever its invocation left behind; and no
  revision is lost, nor more of them spent than its gate allows.
\<close>

theorem resume_leaves_no_running:
  assumes "resume_node si cs rm (fst (classify_node targets options now i (ce_state (iw_client w)))) answered widened w
      = Some w'"
    and "ns_status (ce_state (iw_client w)) = Running" and "ce_running (iw_client w) = None"
    and "ns_id (ce_state (iw_client w)) = nd_id (si_node si)"
    and "no_open_tx (iw_journal w) (nd_id (si_node si)) (ns_attempt (ce_state (iw_client w)))"
  shows "ns_status (ce_state (iw_client w')) \<noteq> Running \<and>
    ns_revisions (ce_state (iw_client w)) \<le> ns_revisions (ce_state (iw_client w')) \<and>
    ns_revisions (ce_state (iw_client w')) \<le> max (ns_revisions (ce_state (iw_client w))) (maxRevisions (si_node si))"
proof -
  have "desk_step si w w'" using resume_desk [OF assms(1,2)] assms(4,5) by (simp add: ready_def)
  with assms(3) show ?thesis by (auto simp: desk_step_def budget_step_def accounted_for_def has_job_def)
qed

theorem resume_leaves_no_running_witness:
  "\<exists>w'. resume_node sample_site sample_closing answered_remains
     (fst (classify_node None \<lparr>rp_node = None, rp_reconcile = None, rp_answer = None\<rparr> 0 ''a''
       (ce_state (iw_client orphaned_desk)))) False False orphaned_desk = Some w' \<and>
   ns_status (ce_state (iw_client w')) \<noteq> Running"
proof -
  obtain w' where "resume_node sample_site sample_closing answered_remains
     (fst (classify_node None \<lparr>rp_node = None, rp_reconcile = None, rp_answer = None\<rparr> 0 ''a''
       (ce_state (iw_client orphaned_desk)))) False False orphaned_desk = Some w'"
    using orphaned_resumes by blast
  with resume_leaves_no_running [OF this orphaned_ready(2,3,1,4)] show ?thesis by blast
qed

lemma verifying_judged:
  "judged si (at_node (recoverVerificationAttempts rm) w) \<or> \<not> judged si w"
  by (auto simp: judged_def recoverVerificationAttempts_def judgeSkippedByScope_def split: option.splits if_splits)

text \<open>The paths recorded when the node's invocations began survive what a recovery writes before it adopts.\<close>

lemma usage_keeps_paths:
  "in_snapshotPath ` set (ns_invocations (ce_state (persistRecoveryUsage rv c))) =
   in_snapshotPath ` set (ns_invocations (ce_state c))"
proof -
  have "map in_snapshotPath (map (\<lambda>i. if P i then i\<lparr>in_usage := u, in_costUsd := q\<rparr> else i) xs) =
      map in_snapshotPath xs" for P u q xs by simp
  then have "map in_snapshotPath (ns_invocations (ce_state (persistRecoveryUsage rv c))) =
      map in_snapshotPath (ns_invocations (ce_state c))"
    by (simp add: persistRecoveryUsage_def Let_def split: option.split)
  then show ?thesis by (metis set_map)
qed

lemma adopted_among: "adopted_invocation rv c = Some i \<Longrightarrow> i \<in> set (ns_invocations (ce_state c))"
  by (auto simp: adopted_invocation_def last_worker_def recovered_invocation_def find_last_def
      dest: find_SomeD split: if_splits)

text \<open>
  C6. A resume of an interrupted node begins an integration, or moves the run's ref, only when what the
  controller recorded for the node's last invocation, or concludes of it, is to adopt it: as a judge's turn, and
  then the verdict it adopts is one the gate lets through, when the gate blocks and needs one; or as a worker's
  turn, and then the node has no gate, and the text it adopts (the run's canonical result, else the turn's) parses
  as a result that says done, the writes of that invocation stayed inside its boundary, and the controller has run
  the verification on it, and it passed, before the node is settled (a turn that left no text at all is the
  exception: it is adopted as it is). The node's snapshot is the one being resumed, with no integration open for
  its attempt, as a resume leaves the journal before it looks at its nodes.
\<close>

theorem recovery_guards_the_ref:
  assumes "recover_node si cs rm w = Some w'"
    and "ns_id (ce_state (iw_client w)) = nd_id (si_node si)"
    and "no_open_tx (iw_journal w) (nd_id (si_node si)) (ns_attempt (ce_state (iw_client w)))"
    and "iw_ref w' \<noteq> iw_ref w \<or> iw_journal w' \<noteq> iw_journal w"
  shows "\<exists>rv c. found_recovery si cs rm (recoverVerificationAttempts rm (iw_client w)) = Some (Some rv, c) \<and>
    rv_kind rv \<in> {Rk_adopted, Rk_rejudge} \<and>
    (rv_phase rv = Some Judge \<and>
       (reviewMode (nd_gate (si_node si)) = Rev_advisory \<or> \<not> judgeRequired (si_node si) \<or>
        judgeSkippedByScope (si_node si) (ce_state (iw_client w)) \<or>
        (\<exists>verdict. read_verdict_text si (rv_result rv) = Inr verdict \<and> \<not> shouldFail (si_node si) verdict)) \<or>
     rv_phase rv = Some Worker \<and> \<not> gt_enabled (nd_gate (si_node si)) \<and>
       (let d = materialize cs (nd_id (si_node si)) (persistRecoveryUsage rv c)
        in case adopted_text si rv d of
             None \<Rightarrow> True
           | Some t \<Rightarrow> \<exists>c' v dp. adopts_text si cs rv d t c' \<and> settleDone si dp v = Some w' \<and>
               ns_verification (ce_state (iw_client v)) = ns_verification (ce_state c')))"
  using assms(1)
proof (cases rule: recover_node_cases)
  case waits
  with assms(4) show ?thesis by simp
next
  case (settled lastId recorded found c)
  let ?v = "w\<lparr>iw_client := c\<rparr>"
  have "ready si ?v" using kept_ready [OF settled(2), of si] assms(2,3) by (simp add: ready_def)
  from settled_recovery_desk [OF settled(1) this] assms(4) obtain rv where
    rv: "found = Some rv" "rv_kind rv \<in> {Rk_adopted, Rk_rejudge}" "adopts si cs rv (at_node (persistRecoveryUsage rv) ?v) w'"
    by (auto simp: untouched_def)
  have "judged si (at_node (persistRecoveryUsage rv) ?v) \<or> \<not> judged si w"
    using verifying_judged [of si rm w] skip_cong [of "ce_state (persistRecoveryUsage rv c)" "ce_state c" "si_node si"]
      settled(3) by (auto simp: judged_def)
  then have "\<not> judged si (at_node (persistRecoveryUsage rv) ?v) \<Longrightarrow>
      \<not> judgeRequired (si_node si) \<or> judgeSkippedByScope (si_node si) (ce_state (iw_client w))"
    by (auto simp: judged_def)
  with rv settled(4) show ?thesis
    by (intro exI [of _ rv] exI [of _ c])
      (auto simp: adopts_def lets_through_def at_node_client split: option.splits role.splits)
qed

theorem recovery_guards_the_ref_witness:
  "\<exists>w' rv c. recover_node sample_site sample_closing answered_remains orphaned_desk = Some w' \<and>
     iw_ref w' = Some ''base-a'' \<and>
     found_recovery sample_site sample_closing answered_remains
       (recoverVerificationAttempts answered_remains (iw_client orphaned_desk)) = Some (Some rv, c) \<and>
     rv_phase rv = Some Judge \<and> (\<exists>verdict. read_verdict_text sample_site (rv_result rv) = Inr verdict \<and>
        \<not> shouldFail (si_node sample_site) verdict)"
proof -
  obtain w' where w': "recover_node sample_site sample_closing answered_remains orphaned_desk = Some w'"
    "iw_ref w' = Some ''base-a''" using judged_done resumed by auto
  then have "iw_ref w' \<noteq> iw_ref orphaned_desk \<or> iw_journal w' \<noteq> iw_journal orphaned_desk"
    by (simp add: orphaned_ready)
  moreover have "reviewMode (nd_gate (si_node sample_site)) = Rev_blocking" "judgeRequired (si_node sample_site)"
    "\<not> judgeSkippedByScope (si_node sample_site) (ce_state (iw_client orphaned_desk))"
    "gt_enabled (nd_gate (si_node sample_site))" by code_simp+
  ultimately show ?thesis
    using recovery_guards_the_ref [OF w'(1) orphaned_ready(1,4)] w' by fastforce
qed

text \<open>
  C9. A worker that was interrupted starts over only when it may: its turn was not one that was to write
  its result alone, and nothing at all changed in its workspace since it began, inside its boundary or
  outside it, compared with the snapshot taken then; otherwise the node fails or waits for a person.
\<close>

theorem interrupted_worker_restarts_only_untouched:
  assumes "ns_status (ce_state (recover_restart si cs rm rv lastId recorded c)) = Pending"
    and "restarted_invocation rv c = Some i" and "in_phase i = Worker" and "rv_phase rv \<noteq> Some Judge"
    and "lastId = map_option in_id (last_opt (ns_invocations (ce_state c)))"
  shows "\<not> rm_materialization rm i \<and>
    (\<exists>before b change. baseline_of (cs_outlook cs) ''worker scope'' None (in_snapshotPath i) = Inr before \<and>
      readBoundary (ol_tree (cs_outlook cs)) (si_node si) (ce_state c) = Inr b \<and>
      compareWorkspaceSnapshot (ol_tree (cs_outlook cs)) before (Some b) (nd_writeFiles (si_node si))
        (nd_writeRoots (si_node si)) = Inr change \<and>
      (\<forall>p. entry_at (wk_entries before) p = entry_at (wk_entries (wc_after change)) p))"
  using worker_restart_untouched [OF assms] by (simp add: workspace_as_before_def)

definition restart_desk :: ctl where
  "restart_desk = (on_state (\<lambda>s. s\<lparr>ns_invocations := [interrupted_invocation]\<rparr>) Scope.interrupted)\<lparr>ce_running := None\<rparr>"

definition restart_site :: site where
  "restart_site = sample_site\<lparr>si_node := sample_node ''a'' [] None None\<rparr>"

definition died :: recovery where
  "died = restartRecovery interrupted_invocation None ''died''"

lemma sample_restart:
  "ns_status (ce_state (recover_restart restart_site (sample_closing\<lparr>cs_outlook := quiet_outlook\<rparr>) answered_remains
     died (Some ''i-1'') None restart_desk)) = Pending"
proof -
  obtain sc where sc: "evaluatePersistedWorkerScope quiet_outlook (sample_node ''a'' [] None None)
      (Some interrupted_invocation) True (ce_state restart_desk) = (None, (ce_state restart_desk)\<lparr>ns_scope := Some sc\<rparr>)"
    by (simp add: evaluatePersistedWorkerScope_def quiet_outlook_def restart_desk_def Scope.interrupted_def
        interrupted_invocation_def sample_invocation_def baseline_of_def nonempty_def scope_change_def readBoundary_def
        empty_scope_def sample_node_def on_state_def sample_ctl_def sample_snapshot_def sample_tree_def workspace_evals
        quiet_entries_def judge_persisted_change_def)
  have "restarted_invocation died restart_desk = Some interrupted_invocation"
    "rv_invocationId died = Some ''i-1''" "in_phase interrupted_invocation = Worker"
    "\<not> hasOperationIntent (ce_rd restart_desk) ''i-1''"
    by (simp_all add: restarted_invocation_def recovered_invocation_def died_def restartRecovery_def
        interrupted_invocation_def sample_invocation_def restart_desk_def Scope.interrupted_def sample_ctl_def
        sample_run_dir_def hasOperationIntent_def)
  then show ?thesis
    by (simp add: recover_restart_def Let_def answered_remains_def nonempty_def reconcileAmbiguousWorkerRestart_def
        restart_site_def sc)
qed

theorem interrupted_worker_restarts_only_untouched_witness:
  "ns_status (ce_state (recover_restart restart_site (sample_closing\<lparr>cs_outlook := quiet_outlook\<rparr>) answered_remains
     died (Some ''i-1'') None restart_desk)) = Pending \<and>
   (\<exists>before b. baseline_of quiet_outlook ''worker scope'' None (in_snapshotPath interrupted_invocation) = Inr before \<and>
     readBoundary (ol_tree quiet_outlook) (si_node restart_site) (ce_state restart_desk) = Inr b)"
proof -
  have "restarted_invocation died restart_desk = Some interrupted_invocation" "in_phase interrupted_invocation = Worker"
    "rv_phase died \<noteq> Some Judge" "Some ''i-1'' = map_option in_id (last_opt (ns_invocations (ce_state restart_desk)))"
    by (simp_all add: restarted_invocation_def recovered_invocation_def died_def restartRecovery_def
        interrupted_invocation_def sample_invocation_def restart_desk_def last_opt_def)
  from interrupted_worker_restarts_only_untouched [OF sample_restart this] sample_restart show ?thesis by auto
qed

text \<open>
  C11. Recovery always concludes, as long as the clock it polls goes on or the process it waits for ends;
  and what it adopts of a judge is an answer that reads as a verdict, whether it comes from the
  provider's stream, from the settlement or from the snapshot.
\<close>

theorem recovery_concludes_with_a_verdict:
  assumes "\<And>t. \<exists>n. \<not> po_owned (rm_polls rm n) \<or> t \<le> po_now (rm_polls rm n)"
  shows "\<exists>found c'. recoverOrphan si cs rm s c = Some (found, c') \<and>
    (\<forall>rv. found = Some rv \<longrightarrow> rv_kind rv = Rk_adopted \<longrightarrow> rv_phase rv = Some Judge \<longrightarrow>
      (\<exists>verdict. read_verdict_text si (rv_result rv) = Inr verdict))"
proof (cases "ns_status s = Running")
  case False
  then show ?thesis by (simp add: recoverOrphan_def)
next
  case True
  show ?thesis
  proof (cases "last_opt (ns_invocations s)")
    case None
    with True show ?thesis by (simp add: recoverOrphan_def bare_restart_def)
  next
    case (Some invoc)
    define d where "d = note_unknown s invoc (si_now si) c"
    obtain rv where rv: "orphan_outcome si cs rm (ce_rd d) s invoc
        (readOperationSettlement (ce_rd d) (in_id invoc)) = Some rv"
      using outcome_returns [OF assms] by blast
    have "recoverOrphan si cs rm s c = Some (Some rv, d)"
      using True Some rv by (simp add: recoverOrphan_def Let_def d_def)
    moreover have "read_verdict_text si (Some (nullish x [])) = read_verdict_text si x" for x
      by (simp add: read_verdict_text_def)
    ultimately show ?thesis using outcome_reads [OF rv]
      by (auto simp: verdict_reads_def judge_reads_def split: sum.splits)
  qed
qed

theorem recovery_concludes_with_a_verdict_witness:
  "\<exists>rv c'. recoverOrphan sample_site sample_closing answered_remains (ce_state (iw_client orphaned_desk))
     (iw_client orphaned_desk) = Some (Some rv, c') \<and> rv_kind rv = Rk_adopted \<and> rv_phase rv = Some Judge \<and>
   (\<exists>verdict. read_verdict_text sample_site (rv_result rv) = Inr verdict)"
proof -
  have "\<exists>n. \<not> po_owned (rm_polls answered_remains n) \<or> t \<le> po_now (rm_polls answered_remains n)" for t
    by (simp add: answered_remains_def)
  from recovery_concludes_with_a_verdict [OF this, of sample_site sample_closing "ce_state (iw_client orphaned_desk)"
      "iw_client orphaned_desk"]
  have "\<forall>rv. Some judge_answer = Some rv \<longrightarrow> rv_kind rv = Rk_adopted \<longrightarrow> rv_phase rv = Some Judge \<longrightarrow>
      (\<exists>verdict. read_verdict_text sample_site (rv_result rv) = Inr verdict)"
    by (simp add: orphan_found judge_answer_def)
  moreover have "rv_kind judge_answer = Rk_adopted" "rv_phase judge_answer = Some Judge"
    by (simp_all add: judge_answer_def adopted_turn_def judge_turn_def sample_invocation_def)
  ultimately show ?thesis using orphan_found by (auto simp: judge_answer_def)
qed

text \<open>
  The operator's confirmation of a human step becomes the node's result, cut to the protocol's own
  ceiling; but an answer of more than 4096 bytes, cut at a character boundary, is two bytes too long, and the
  controller's own validation refuses the result it has just written.
\<close>

theorem long_answer_breaks_the_protocol:
  assumes "answer_node si answer c = Inr c'" and "nd_humanStep (si_node si) = Some h"
    and "4096 < length (trim answer)" and "\<not> cont_at (trim answer) 4095"
  shows "\<exists>r. ns_result (ce_state c') = Some r \<and> wr_status r = Ws_done \<and> length (wr_summary r) = 4098 \<and>
    validateWorkerResult num (write_worker_result r) \<noteq> Inr r"
proof -
  have r: "ns_result (ce_state c') = Some (human_result h answer)"
    using assms(1,2) by (auto simp: answer_node_def Let_def split: if_splits)
  have "retreat (trim answer) k = k" if "\<not> cont_at (trim answer) k" for k using that by (cases k) auto
  then have "retreat (trim answer) 4095 = 4095" using assms(4) .
  with assms(3,4) have l: "length (wr_summary (human_result h answer)) = 4098"
    by (auto simp: human_result_def answer_summary_def bounded_def decode_prefix_def ellipsis_def)
  then have "\<not> worker_result_ok num (human_result h answer)"
    by (simp add: worker_result_ok_def result_summaryBytes_def)
  then have "validateWorkerResult num (write_worker_result (human_result h answer)) \<noteq> Inr (human_result h answer)"
    using worker_result_roundtrip(1) by blast
  with r l show ?thesis by (auto simp: human_result_def)
qed

definition long_answer :: string where
  "long_answer = replicate 4097 (CHR ''a'')"

definition human_site :: site where
  "human_site = sample_site\<lparr>si_node := (sample_node ''a'' [] None None)\<lparr>nd_humanStep :=
     Some \<lparr>hs_step = ''press the button'', hs_command = []\<rparr>\<rparr>\<rparr>"

definition waiting_human :: ctl where
  "waiting_human = on_state (\<lambda>s. s\<lparr>ns_status := Blocked, ns_error := Some (mk_error HUMAN_STEP_ERROR_CODE [])\<rparr>) sample_ctl"

theorem long_answer_breaks_the_protocol_witness:
  "\<exists>c' r. answer_node human_site long_answer waiting_human = Inr c' \<and> ns_result (ce_state c') = Some r \<and>
     validateWorkerResult (\<lambda>q. []) (write_worker_result r) \<noteq> Inr r"
proof -
  have a: "trim long_answer = long_answer" "length long_answer = 4097"
    by (simp_all add: trim_def long_answer_def is_space_def)
  then have n: "4096 < length (trim long_answer)" "\<not> cont_at (trim long_answer) 4095"
    by (simp_all add: cont_at_def is_cont_def long_answer_def)
  have h: "nd_humanStep (si_node human_site) = Some \<lparr>hs_step = ''press the button'', hs_command = []\<rparr>"
    by (simp add: human_site_def)
  obtain c' where c': "answer_node human_site long_answer waiting_human = Inr c'"
    by (simp add: answer_node_def h a(2) OPERATOR_ANSWER_MAX_BYTES_def isHumanStepPending_def waiting_human_def)
  with long_answer_breaks_the_protocol [OF c' h n] show ?thesis by blast
qed

end
