(* ===== verification/Reserve.thy ===== *)
theory Reserve
  imports Review_Safety
begin

text \<open>
  The optional balance of a campaign (\<open>src/campaign/reserve.mjs\<close>): reservations held against it,
  released or charged, each operation under the reserve's lock; the admission of a dispatch
  through it (\<open>src/engine/reserve-admission.mjs\<close>) and what the closed call does to its hold
  (\<open>persistInvocation\<close> of \<open>src/engine/dispatch.mjs\<close>).

  The lock is an argument: \<open>None\<close> when it was acquired, the message thrown when it was not. What
  \<open>JSON.parse\<close> and the rest of the record's schema refuse is \<open>Unreadable\<close>; the new id of a reservation
  is an argument, as \<open>randomUUID\<close> gives it. An amount a message names is printed by \<open>usd\<close>.
\<close>

section \<open>The files\<close>

datatype hold_status = Held | Released | Charged

record reservation =
  hd_id :: string
  hd_at :: stamp
  hd_runId :: "string option"
  hd_node :: "string option"
  hd_costUsd :: "rat option"
  hd_status :: hold_status
  hd_chargedUsd :: "rat option"
  hd_lateChargeUsd :: "rat option"
  hd_settledAt :: "stamp option"

record campaign =
  cp_id :: string
  cp_closed :: bool
  cp_reserveUsd :: "rat option"
  cp_updatedAt :: "stamp option"

datatype campaign_file = No_campaign | Unreadable string | Campaign campaign

datatype reserve_file = No_state | Not_json string | No_reservations | Reservations "reservation list"

record campaign_dir =
  cg_path :: string
  cg_campaign :: campaign_file
  cg_state :: reserve_file

section \<open>Amounts\<close>

text \<open>\<open>Math.round\<close> rounds a half up.\<close>

definition round4 :: "rat \<Rightarrow> rat" where
  "round4 v = of_int \<lfloor>v * 10000 + 1 / 2\<rfloor> / 10000"

definition nonNegativeNumber :: "rat \<Rightarrow> string \<Rightarrow> string + rat" where
  "nonNegativeNumber v label = (if v < 0 then Inl (label @ '' must be a non-negative number'') else Inr v)"

definition readCampaign :: "campaign_dir \<Rightarrow> string + campaign" where
  "readCampaign cd =
     (case cg_campaign cd of
        No_campaign \<Rightarrow> Inl (''campaign not found: '' @ cg_path cd)
      | Unreadable message \<Rightarrow> Inl message
      | Campaign c \<Rightarrow>
          (case cp_reserveUsd c of
             Some v \<Rightarrow> (case nonNegativeNumber v ''campaign.reserveUsd'' of Inl e \<Rightarrow> Inl e | Inr _ \<Rightarrow> Inr c)
           | None \<Rightarrow> Inr c))"

definition readStateFile :: "campaign_dir \<Rightarrow> string + reservation list" where
  "readStateFile cd =
     (case cg_state cd of
        No_state \<Rightarrow> Inr []
      | Not_json message \<Rightarrow> Inl message
      | No_reservations \<Rightarrow>
          Inl (''reserve state '' @ cg_path cd @ ''/reserve/state.json has no reservations array'')
      | Reservations rs \<Rightarrow> Inr rs)"

definition writeStateFile :: "campaign_dir \<Rightarrow> reservation list \<Rightarrow> campaign_dir" where
  "writeStateFile cd rs = cd\<lparr>cg_state := Reservations rs\<rparr>"

text \<open>The loop of \<open>availableUsdOf\<close>: what is held and what was charged.\<close>

fun held_and_charged :: "reservation list \<Rightarrow> rat \<times> rat \<Rightarrow> rat \<times> rat" where
  "held_and_charged [] acc = acc"
| "held_and_charged (r # rs) (held, charged) =
     held_and_charged rs
       (case hd_status r of
          Held \<Rightarrow> (case hd_costUsd r of None \<Rightarrow> (held, charged) | Some v \<Rightarrow> (held + v, charged))
        | Charged \<Rightarrow> (held, charged + nullish (hd_chargedUsd r) 0)
        | Released \<Rightarrow> (held, charged))"

definition availableUsdOf :: "rat \<Rightarrow> reservation list \<Rightarrow> rat" where
  "availableUsdOf configured rs =
     (let (held, charged) = held_and_charged rs (0, 0) in round4 (configured - held - charged))"

definition findReservation :: "reservation list \<Rightarrow> string \<Rightarrow> string + reservation" where
  "findReservation rs i =
     (case List.find (\<lambda>r. hd_id r = i) rs of
        None \<Rightarrow> Inl (''no reservation '' @ i @ '' in the campaign's reserve'')
      | Some r \<Rightarrow> Inr r)"

text \<open>The found object is mutated in place: the first of that id.\<close>

fun mutate_first :: "string \<Rightarrow> reservation \<Rightarrow> reservation list \<Rightarrow> reservation list" where
  "mutate_first i r' [] = []"
| "mutate_first i r' (r # rs) = (if hd_id r = i then r' # rs else r # mutate_first i r' rs)"

section \<open>Operations\<close>

type_synonym 'a reserve_op = "campaign_dir \<Rightarrow> (string + 'a) \<times> campaign_dir"

definition withReserveLock :: "string option \<Rightarrow> 'a reserve_op \<Rightarrow> 'a reserve_op" where
  "withReserveLock lock body cd = (case lock of Some e \<Rightarrow> (Inl e, cd) | None \<Rightarrow> body cd)"

definition configureCampaignReserve :: "rat \<Rightarrow> stamp \<Rightarrow> campaign reserve_op" where
  "configureCampaignReserve reserveUsd moment cd =
     (case nonNegativeNumber reserveUsd ''reserveUsd'' of
        Inl e \<Rightarrow> (Inl e, cd)
      | Inr _ \<Rightarrow>
          (case readCampaign cd of
             Inl e \<Rightarrow> (Inl e, cd)
           | Inr c \<Rightarrow>
               if cp_closed c then (Inl (''campaign is closed: '' @ cp_id c), cd)
               else (let updated = c\<lparr>cp_reserveUsd := Some reserveUsd, cp_updatedAt := Some moment\<rparr>
                     in (Inr updated, cd\<lparr>cg_campaign := Campaign updated\<rparr>))))"

record reserve_request =
  rq_runId :: "string option"
  rq_node :: "string option"
  rq_costUsd :: "rat option"
  rq_at :: stamp

record reserve_decision =
  dc_admitted :: bool
  dc_armed :: bool
  dc_reservation :: "reservation option"
  dc_availableUsd :: "rat option"

definition new_reservation :: "string \<Rightarrow> reserve_request \<Rightarrow> reservation" where
  "new_reservation i rq =
     \<lparr>hd_id = i, hd_at = rq_at rq, hd_runId = rq_runId rq, hd_node = rq_node rq,
      hd_costUsd = rq_costUsd rq, hd_status = Held, hd_chargedUsd = None,
      hd_lateChargeUsd = None, hd_settledAt = None\<rparr>"

definition reserve_locked :: "reserve_request \<Rightarrow> string \<Rightarrow> reserve_decision reserve_op" where
  "reserve_locked rq i cd =
     (case readCampaign cd of
        Inl e \<Rightarrow> (Inl e, cd)
      | Inr c \<Rightarrow>
          (case cp_reserveUsd c of
             None \<Rightarrow> (Inr \<lparr>dc_admitted = True, dc_armed = False, dc_reservation = None,
                          dc_availableUsd = None\<rparr>, cd)
           | Some configured \<Rightarrow>
               (case readStateFile cd of
                  Inl e \<Rightarrow> (Inl e, cd)
                | Inr rs \<Rightarrow>
                    (let available = availableUsdOf configured rs
                     in if (case rq_costUsd rq of
                              None \<Rightarrow> False | Some v \<Rightarrow> round4 v > round4 available)
                        then (Inr \<lparr>dc_admitted = False, dc_armed = True, dc_reservation = None,
                                   dc_availableUsd = Some available\<rparr>, cd)
                        else (let r = new_reservation i rq
                              in (Inr \<lparr>dc_admitted = True, dc_armed = True, dc_reservation = Some r,
                                       dc_availableUsd =
                                         Some (round4 (available - nullish (hd_costUsd r) 0))\<rparr>,
                                  writeStateFile cd (rs @ [r])))))))"

definition reserveCampaignCost ::
    "string option \<Rightarrow> reserve_request \<Rightarrow> string \<Rightarrow> reserve_decision reserve_op" where
  "reserveCampaignCost lock rq i cd =
     (case (case rq_costUsd rq of None \<Rightarrow> Inr 0 | Some v \<Rightarrow> nonNegativeNumber v ''costUsd'') of
        Inl e \<Rightarrow> (Inl e, cd)
      | Inr _ \<Rightarrow> withReserveLock lock (reserve_locked rq i) cd)"

definition release_locked :: "string \<Rightarrow> stamp \<Rightarrow> reservation reserve_op" where
  "release_locked i moment cd =
     (case readStateFile cd of
        Inl e \<Rightarrow> (Inl e, cd)
      | Inr rs \<Rightarrow>
          (case findReservation rs i of
             Inl e \<Rightarrow> (Inl e, cd)
           | Inr r \<Rightarrow>
               if hd_status r = Held
               then (let r' = r\<lparr>hd_status := Released, hd_settledAt := Some moment\<rparr>
                     in (Inr r', writeStateFile cd (mutate_first i r' rs)))
               else (Inr r, cd)))"

definition releaseCampaignReservation ::
    "string option \<Rightarrow> string \<Rightarrow> stamp \<Rightarrow> reservation reserve_op" where
  "releaseCampaignReservation lock i moment = withReserveLock lock (release_locked i moment)"

definition charge_hold :: "rat \<Rightarrow> stamp \<Rightarrow> reservation \<Rightarrow> reservation" where
  "charge_hold charge moment r =
     r\<lparr>hd_status := Charged, hd_chargedUsd := Some charge,
       hd_lateChargeUsd := map_option (\<lambda>v. round4 (max 0 (charge - v))) (hd_costUsd r),
       hd_settledAt := Some moment\<rparr>"

definition reconcile_locked ::
    "(rat \<Rightarrow> string) \<Rightarrow> string \<Rightarrow> rat \<Rightarrow> stamp \<Rightarrow> reservation reserve_op" where
  "reconcile_locked usd i charge moment cd =
     (case readStateFile cd of
        Inl e \<Rightarrow> (Inl e, cd)
      | Inr rs \<Rightarrow>
          (case findReservation rs i of
             Inl e \<Rightarrow> (Inl e, cd)
           | Inr r \<Rightarrow>
               (case hd_status r of
                  Charged \<Rightarrow>
                    if hd_chargedUsd r = Some charge then (Inr r, cd)
                    else (Inl (''reservation '' @ i @ '' already charged '' @
                            (case hd_chargedUsd r of Some v \<Rightarrow> usd v | None \<Rightarrow> ''undefined'') @
                            '' USD, refusing to recharge at '' @ usd charge @ '' USD''), cd)
                | Released \<Rightarrow>
                    (Inl (''reservation '' @ i @
                       '' was released without a charge; it cannot take one afterwards''), cd)
                | Held \<Rightarrow>
                    (let r' = charge_hold charge moment r
                     in (Inr r', writeStateFile cd (mutate_first i r' rs))))))"

definition reconcileCampaignReservation ::
    "(rat \<Rightarrow> string) \<Rightarrow> string option \<Rightarrow> string \<Rightarrow> rat option \<Rightarrow> stamp \<Rightarrow> reservation reserve_op" where
  "reconcileCampaignReservation usd lock i costUsd moment cd =
     (case costUsd of
        None \<Rightarrow> (Inl ''costUsd must be a non-negative number'', cd)
      | Some v \<Rightarrow>
          (case nonNegativeNumber v ''costUsd'' of
             Inl e \<Rightarrow> (Inl e, cd)
           | Inr charge \<Rightarrow> withReserveLock lock (reconcile_locked usd i charge moment) cd))"

record reserve_status =
  rs_armed :: bool
  rs_configuredUsd :: "rat option"
  rs_heldUsd :: rat
  rs_chargedUsd :: rat
  rs_availableUsd :: "rat option"
  rs_unknownExposureCount :: nat
  rs_reservations :: "reservation list"

fun tally :: "reservation list \<Rightarrow> rat \<times> rat \<times> nat \<Rightarrow> rat \<times> rat \<times> nat" where
  "tally [] acc = acc"
| "tally (r # rs) (held, charged, unknown) =
     tally rs
       (case hd_status r of
          Held \<Rightarrow> (case hd_costUsd r of
                     None \<Rightarrow> (held, charged, unknown + 1)
                   | Some v \<Rightarrow> (held + v, charged, unknown))
        | Charged \<Rightarrow> (held, charged + nullish (hd_chargedUsd r) 0, unknown)
        | Released \<Rightarrow> (held, charged, unknown))"

definition readCampaignReserve :: "campaign_dir \<Rightarrow> string + reserve_status" where
  "readCampaignReserve cd =
     (case readCampaign cd of
        Inl e \<Rightarrow> Inl e
      | Inr c \<Rightarrow>
          (case readStateFile cd of
             Inl e \<Rightarrow> Inl e
           | Inr rs \<Rightarrow>
               (let (held, charged, unknown) = tally rs (0, 0, 0)
                in Inr \<lparr>rs_armed = (cp_reserveUsd c \<noteq> None), rs_configuredUsd = cp_reserveUsd c,
                     rs_heldUsd = round4 held, rs_chargedUsd = round4 charged,
                     rs_availableUsd = map_option (\<lambda>v. availableUsdOf v rs) (cp_reserveUsd c),
                     rs_unknownExposureCount = unknown, rs_reservations = rs\<rparr>)))"

section \<open>Admission of a dispatch and its settlement\<close>

datatype reserve_admission = Admit "reservation option" | Refuse snap_error

text \<open>\<open>None\<close> is an error the dispatch does not catch: the state file or its lock.\<close>

definition reserveAdmission ::
    "(rat \<Rightarrow> string) \<Rightarrow> string option \<Rightarrow> string \<Rightarrow> stamp \<Rightarrow> snapshot \<Rightarrow> string \<Rightarrow> string \<Rightarrow> role \<Rightarrow>
     campaign_dir option \<Rightarrow> (string + reserve_admission) \<times> campaign_dir option" where
  "reserveAdmission usd lock fresh moment state runId nodeId role dir =
     (case dir of
        None \<Rightarrow> (Inr (Admit None), None)
      | Some cd \<Rightarrow>
          if cg_campaign cd = No_campaign then (Inr (Admit None), Some cd)
          else (case readCampaign cd of
              Inl e \<Rightarrow>
                (Inr (Refuse (mk_error ''campaign_record_unreadable''
                   (''campaign record at '' @ cg_path cd @
                    '' cannot be read or validated, refusing the new '' @ role_text role @
                    '' dispatch: '' @ e))), Some cd)
            | Inr c \<Rightarrow>
                if cp_reserveUsd c = None then (Inr (Admit None), Some cd)
                else (let estimate = Option.bind (last_opt (ns_invocations state)) in_costUsd
                      in case reserveCampaignCost lock
                            \<lparr>rq_runId = Some runId, rq_node = Some nodeId, rq_costUsd = estimate,
                             rq_at = moment\<rparr> fresh cd of
                           (Inl e, cd') \<Rightarrow> (Inl e, Some cd')
                         | (Inr d, cd') \<Rightarrow>
                             (Inr (if \<not> dc_admitted d
                                   then Refuse (mk_error ''reserve_insufficient''
                                     (''reserve refused the new '' @ role_text role @
                                      '' dispatch: estimated '' @
                                      (case estimate of Some v \<Rightarrow> usd v | None \<Rightarrow> ''null'') @
                                      '' USD cannot be held against '' @
                                      usd (nullish (dc_availableUsd d) 0) @ '' USD available''))
                                   else Admit (dc_reservation d)), Some cd'))))"

text \<open>Neither ever throws: what fails leaves the hold where it is.\<close>

definition releaseReservation ::
    "string option \<Rightarrow> stamp \<Rightarrow> reservation option \<Rightarrow> campaign_dir option \<Rightarrow> campaign_dir option" where
  "releaseReservation lock moment reservation dir =
     (case (dir, reservation) of
        (Some cd, Some r) \<Rightarrow> Some (snd (releaseCampaignReservation lock (hd_id r) moment cd))
      | _ \<Rightarrow> dir)"

definition settle_hold ::
    "(rat \<Rightarrow> string) \<Rightarrow> string option \<Rightarrow> stamp \<Rightarrow> rat option \<Rightarrow> reservation option \<Rightarrow>
     campaign_dir option \<Rightarrow> campaign_dir option" where
  "settle_hold usd lock moment charge reservation dir =
     (case (dir, reservation) of
        (Some cd, Some r) \<Rightarrow>
          (case charge of
             Some v \<Rightarrow> Some (snd (reconcileCampaignReservation usd lock (hd_id r) (Some v) moment cd))
           | None \<Rightarrow> Some (snd (releaseCampaignReservation lock (hd_id r) moment cd)))
      | _ \<Rightarrow> dir)"

section \<open>What the reservations commit\<close>

definition held_usd :: "reservation \<Rightarrow> rat" where
  "held_usd r = (if hd_status r = Held then nullish (hd_costUsd r) 0 else 0)"

definition charged_usd :: "reservation \<Rightarrow> rat" where
  "charged_usd r = (if hd_status r = Charged then nullish (hd_chargedUsd r) 0 else 0)"

text \<open>What a charge took beyond its own hold; all of it, when the cost was unknown.\<close>

definition late_usd :: "reservation \<Rightarrow> rat" where
  "late_usd r =
     (case hd_costUsd r of None \<Rightarrow> charged_usd r
      | Some v \<Rightarrow> if hd_status r = Charged then max 0 (charged_usd r - v) else 0)"

definition committed :: "reservation list \<Rightarrow> rat" where
  "committed rs = (\<Sum>r\<leftarrow>rs. held_usd r + charged_usd r)"

definition late :: "reservation list \<Rightarrow> rat" where
  "late rs = (\<Sum>r\<leftarrow>rs. late_usd r)"

lemma held_and_charged_sums:
  "held_and_charged rs (h, c) = (h + (\<Sum>r\<leftarrow>rs. held_usd r), c + (\<Sum>r\<leftarrow>rs. charged_usd r))"
  by (induction rs arbitrary: h c)
    (auto simp: held_usd_def charged_usd_def split: hold_status.split option.split)

lemma tally_sums:
  "tally rs (h, c, n) = (h + (\<Sum>r\<leftarrow>rs. held_usd r), c + (\<Sum>r\<leftarrow>rs. charged_usd r),
     n + length (filter (\<lambda>r. hd_status r = Held \<and> hd_costUsd r = None) rs))"
  by (induction rs arbitrary: h c n)
    (auto simp: held_usd_def charged_usd_def split: hold_status.split option.split)

lemma availableUsdOf_committed: "availableUsdOf v rs = round4 (v - committed rs)"
  by (simp add: availableUsdOf_def held_and_charged_sums committed_def sum_list_addf diff_diff_eq)

lemma round4_close: "v - 1 / 20000 < round4 v" "round4 v \<le> v + 1 / 20000"
  unfolding round4_def by linarith+

lemma round4_of_round4 [simp]: "round4 (round4 v) = round4 v"
proof -
  have "\<lfloor>of_int n + 1 / 2 :: rat\<rfloor> = n" for n :: int by linarith
  then show ?thesis by (simp add: round4_def)
qed

text \<open>What passes the comparison of two rounded amounts overdraws by less than their last digit.\<close>

lemma admitted_cost:
  assumes "\<not> round4 v > round4 (availableUsdOf configured rs)"
  shows "committed rs + v < configured + 1 / 10000"
  using assms round4_close(1) [of v] round4_close(2) [of "configured - committed rs"]
  by (simp add: availableUsdOf_committed)

section \<open>Reservations over time\<close>

definition reservations :: "campaign_dir \<Rightarrow> reservation list" where
  "reservations cd = (case cg_state cd of Reservations rs \<Rightarrow> rs | _ \<Rightarrow> [])"

definition balance_within :: "rat \<Rightarrow> campaign_file \<Rightarrow> bool" where
  "balance_within v f = (case f of Campaign c \<Rightarrow> (case cp_reserveUsd c of Some x \<Rightarrow> x \<le> v | None \<Rightarrow> True)
     | _ \<Rightarrow> True)"

text \<open>
  One operation of any process on a campaign whose balance nobody sets above \<open>v\<close>. The operations
  exclude each other by the lock; a new id is one no reservation has. Another writer may replace
  the campaign's record.
\<close>

inductive reserve_step :: "rat \<Rightarrow> campaign_dir \<Rightarrow> campaign_dir \<Rightarrow> bool" for v where
  reserves: "i \<notin> hd_id ` set (reservations cd) \<Longrightarrow>
     reserve_step v cd (snd (reserveCampaignCost lock rq i cd))"
| releases: "reserve_step v cd (snd (releaseCampaignReservation lock i moment cd))"
| reconciles: "reserve_step v cd (snd (reconcileCampaignReservation usd lock i cost moment cd))"
| configures: "amount \<le> v \<Longrightarrow> reserve_step v cd (snd (configureCampaignReserve amount moment cd))"
| replaced: "balance_within v f \<Longrightarrow> reserve_step v cd (cd\<lparr>cg_campaign := f\<rparr>)"

inductive_cases reserve_stepE: "reserve_step v cd cd'"

text \<open>
  Every operation leaves the reservations, or appends a hold that fits, or settles a held
  reservation in place.
\<close>

definition settles_to :: "reservation \<Rightarrow> reservation \<Rightarrow> bool" where
  "settles_to r r' \<longleftrightarrow> hd_status r = Held \<and> hd_id r' = hd_id r \<and> hd_costUsd r' = hd_costUsd r \<and>
     (hd_status r' = Released \<or>
      (\<exists>charge \<ge> 0. hd_status r' = Charged \<and> hd_chargedUsd r' = Some charge))"

lemma find_split:
  assumes "List.find P xs = Some x"
  obtains ys zs where "xs = ys @ x # zs" "P x" "\<forall>y \<in> set ys. \<not> P y"
proof -
  from assms obtain n where n: "n < length xs" "P (xs ! n)" "x = xs ! n" "\<forall>j < n. \<not> P (xs ! j)"
    by (auto simp: find_Some_iff)
  have "xs = take n xs @ x # drop (Suc n) xs" using n(1,3) by (simp add: id_take_nth_drop)
  moreover have "\<forall>y \<in> set (take n xs). \<not> P y" using n(4) by (auto simp: in_set_conv_nth)
  ultimately show thesis using n(2,3) that by blast
qed

lemma mutate_first_split:
  "\<forall>y \<in> set ys. hd_id y \<noteq> i \<Longrightarrow> hd_id r = i \<Longrightarrow>
   mutate_first i r' (ys @ r # zs) = ys @ r' # zs"
  by (induction ys) auto

lemma found_and_mutated:
  assumes "findReservation rs i = Inr r"
  obtains ys zs where "rs = ys @ r # zs" "mutate_first i r' rs = ys @ r' # zs"
  using assms
  by (auto simp: findReservation_def mutate_first_split split: option.splits elim!: find_split)

text \<open>An operation under the lock either writes nothing or settles the reservation it found.\<close>

definition settles_one :: "campaign_dir \<Rightarrow> campaign_dir \<Rightarrow> bool" where
  "settles_one cd cd' \<longleftrightarrow> cd' = cd \<or>
     (\<exists>ys r r' zs. reservations cd = ys @ r # zs \<and> reservations cd' = ys @ r' # zs \<and>
        cg_campaign cd' = cg_campaign cd \<and> settles_to r r')"

lemma settles_one_found:
  assumes "readStateFile cd = Inr rs" and "findReservation rs i = Inr r" and "settles_to r r'"
  shows "settles_one cd (writeStateFile cd (mutate_first i r' rs))"
proof -
  obtain ys zs where "rs = ys @ r # zs" "mutate_first i r' rs = ys @ r' # zs"
    using assms(2) by (rule found_and_mutated)
  moreover have "reservations cd = rs"
    using assms(1) by (auto simp: readStateFile_def reservations_def split: reserve_file.splits)
  ultimately show ?thesis using assms(3)
    by (auto simp: settles_one_def writeStateFile_def reservations_def)
qed

lemma settles_one_refl [simp]: "settles_one cd cd"
  by (simp add: settles_one_def)

lemma release_settles_one: "settles_one cd (snd (releaseCampaignReservation lock i moment cd))"
proof (cases lock)
  case None
  then show ?thesis
    by (auto simp: releaseCampaignReservation_def withReserveLock_def release_locked_def Let_def
        settles_to_def split: sum.split intro!: settles_one_found)
qed (simp add: releaseCampaignReservation_def withReserveLock_def)

lemma reconcile_settles_one:
  "settles_one cd (snd (reconcileCampaignReservation usd lock i cost moment cd))"
proof (cases "lock = None \<and> (\<exists>v. cost = Some v)")
  case True
  then show ?thesis
    by (auto simp: reconcileCampaignReservation_def withReserveLock_def reconcile_locked_def Let_def
        nonNegativeNumber_def settles_to_def charge_hold_def
        split: sum.split hold_status.split intro!: settles_one_found)
next
  case False
  then show ?thesis
    by (cases lock) (auto simp: reconcileCampaignReservation_def withReserveLock_def
        split: option.split sum.split)
qed

lemma reserve_step_reservations:
  assumes "reserve_step v cd cd'" and "balance_within v (cg_campaign cd)"
  obtains (same) "reservations cd' = reservations cd" "balance_within v (cg_campaign cd')"
  | (hold) r where "reservations cd' = reservations cd @ [r]" "cg_campaign cd' = cg_campaign cd"
      "hd_status r = Held" "hd_id r \<notin> hd_id ` set (reservations cd)"
      "\<And>x. hd_costUsd r = Some x \<Longrightarrow> 0 \<le> x \<and> committed (reservations cd) + x < v + 1 / 10000"
  | (settle) ys r r' zs where "reservations cd = ys @ r # zs" "reservations cd' = ys @ r' # zs"
      "cg_campaign cd' = cg_campaign cd" "settles_to r r'"
  using assms(1)
proof cases
  case (reserves i lock rq)
  have "reservations cd' = reservations cd \<and> cg_campaign cd' = cg_campaign cd \<or>
    reservations cd' = reservations cd @ [new_reservation i rq] \<and>
    cg_campaign cd' = cg_campaign cd \<and>
    (\<forall>x. rq_costUsd rq = Some x \<longrightarrow> 0 \<le> x \<and> committed (reservations cd) + x < v + 1 / 10000)"
    using assms(2) reserves(1)
    by (auto simp: reserveCampaignCost_def withReserveLock_def reserve_locked_def Let_def
        readCampaign_def readStateFile_def reservations_def writeStateFile_def balance_within_def nonNegativeNumber_def
        split: option.splits sum.splits campaign_file.splits reserve_file.splits if_splits
        dest!: admitted_cost)
  then show thesis
  proof
    assume "reservations cd' = reservations cd \<and> cg_campaign cd' = cg_campaign cd"
    with assms(2) show thesis using same by simp
  next
    assume a: "reservations cd' = reservations cd @ [new_reservation i rq] \<and>
      cg_campaign cd' = cg_campaign cd \<and>
      (\<forall>x. rq_costUsd rq = Some x \<longrightarrow> 0 \<le> x \<and> committed (reservations cd) + x < v + 1 / 10000)"
    show thesis by (rule hold [of "new_reservation i rq"]) (use a reserves in \<open>auto simp: new_reservation_def\<close>)
  qed
next
  case (releases lock i moment)
  then show thesis
    using release_settles_one [of cd lock i moment] same settle assms(2)
    by (auto simp: settles_one_def)
next
  case (reconciles usd lock i cost moment)
  then show thesis
    using reconcile_settles_one [of cd usd lock i cost moment] same settle assms(2)
    by (auto simp: settles_one_def)
next
  case (configures amount moment)
  then show thesis using same assms(2)
    by (auto simp: configureCampaignReserve_def reservations_def balance_within_def
        Let_def split: sum.splits if_splits)
next
  case (replaced f)
  then show thesis using same by (simp add: reservations_def)
qed

text \<open>The bound every state keeps, with the reservations' ids distinct.\<close>

definition reserve_ok :: "rat \<Rightarrow> campaign_dir \<Rightarrow> bool" where
  "reserve_ok v cd \<longleftrightarrow> balance_within v (cg_campaign cd) \<and> distinct (map hd_id (reservations cd)) \<and>
     committed (reservations cd) - late (reservations cd) < v + 1 / 10000 \<and>
     (\<forall>r \<in> set (reservations cd). charged_usd r \<ge> 0 \<and> nullish (hd_costUsd r) 0 \<ge> 0)"

lemma late_nonneg: "\<forall>r \<in> set rs. charged_usd r \<ge> 0 \<Longrightarrow> late rs \<ge> 0"
  unfolding late_def by (rule sum_list_nonneg) (auto simp: late_usd_def split: option.split)

lemma settles_to_amounts:
  assumes "settles_to r r'" and "nullish (hd_costUsd r) 0 \<ge> 0"
  shows "held_usd r' + charged_usd r' - late_usd r' \<le> held_usd r + charged_usd r - late_usd r"
    "charged_usd r' \<ge> 0" "nullish (hd_costUsd r') 0 \<ge> 0"
  using assms
  by (auto simp: settles_to_def held_usd_def charged_usd_def late_usd_def split: option.splits)

lemma reserve_ok_step:
  assumes "reserve_step v cd cd'" and "reserve_ok v cd" and "v \<ge> 0"
  shows "reserve_ok v cd'"
proof -
  have "balance_within v (cg_campaign cd)" using assms(2) by (simp add: reserve_ok_def)
  with assms(1) show ?thesis
  proof (cases rule: reserve_step_reservations)
    case same
    with assms(2) show ?thesis by (simp add: reserve_ok_def)
  next
    case (hold r)
    have l: "late (reservations cd) \<ge> 0"
      using assms(2) by (auto simp: reserve_ok_def intro: late_nonneg)
    have n: "late_usd r = 0" "charged_usd r = 0" "held_usd r = nullish (hd_costUsd r) 0"
      using hold(3) by (simp_all add: late_usd_def charged_usd_def held_usd_def split: option.split)
    have b: "committed (reservations cd) + nullish (hd_costUsd r) 0 - late (reservations cd)
        < v + 1 / 10000 \<and> nullish (hd_costUsd r) 0 \<ge> 0"
    proof (cases "hd_costUsd r")
      case None
      with assms(2) show ?thesis by (simp add: reserve_ok_def)
    next
      case (Some x)
      from hold(5) [OF this] l Some show ?thesis by simp
    qed
    with assms(2) hold(1,2,4) n show ?thesis
      by (auto simp: reserve_ok_def committed_def late_def)
  next
    case (settle ys r r' zs)
    have r: "nullish (hd_costUsd r) 0 \<ge> 0" using assms(2) settle(1) by (simp add: reserve_ok_def)
    have "hd_id r' = hd_id r" using settle(4) by (simp add: settles_to_def)
    with assms(2) settle settles_to_amounts [OF settle(4) r] show ?thesis
      by (auto simp: reserve_ok_def committed_def late_def)
  qed
qed

text \<open>A campaign nobody has reserved against.\<close>

definition untouched :: "rat \<Rightarrow> campaign_dir \<Rightarrow> bool" where
  "untouched v cd \<longleftrightarrow> cg_state cd = No_state \<and> balance_within v (cg_campaign cd) \<and> v \<ge> 0"

lemma reserve_ok_reachable:
  assumes "(reserve_step v)\<^sup>*\<^sup>* cd cd'" and "reserve_ok v cd" and "v \<ge> 0"
  shows "reserve_ok v cd'"
  using assms by (induction rule: rtranclp_induct) (auto intro: reserve_ok_step)

lemma untouched_ok: "untouched v cd \<Longrightarrow> reserve_ok v cd"
  by (simp add: untouched_def reserve_ok_def reservations_def committed_def late_def)

text \<open>
  C13. Whatever the order in which processes reserve, release, reconcile and re-arm the balance of a
  campaign, what is held and charged passes the largest balance ever set by less than a hundredth
  of a cent, beyond what single charges took over their own holds and what calls of unknown cost
  were charged.
\<close>

theorem balance_never_overdrawn:
  assumes "untouched v cd" and "(reserve_step v)\<^sup>*\<^sup>* cd cd'"
  shows "committed (reservations cd') < v + 1 / 10000 + late (reservations cd')"
  using reserve_ok_reachable [OF assms(2) untouched_ok [OF assms(1)]] assms(1)
  by (simp add: untouched_def reserve_ok_def)

section \<open>Settled reservations\<close>

lemma reserve_step_keeps:
  assumes "reserve_step v cd cd'" and "reserve_ok v cd" and "r \<in> set (reservations cd)"
  obtains r' where "r' \<in> set (reservations cd')" "hd_id r' = hd_id r" "hd_costUsd r' = hd_costUsd r"
    "hd_status r \<noteq> Held \<Longrightarrow> r' = r"
proof -
  have "balance_within v (cg_campaign cd)" using assms(2) by (simp add: reserve_ok_def)
  with assms(1) show thesis
  proof (cases rule: reserve_step_reservations)
    case same
    with assms(3) that show thesis by simp
  next
    case (hold s)
    with assms(3) that [of r] show thesis by simp
  next
    case (settle ys s s' zs)
    show thesis
    proof (cases "r = s")
      case True
      with settle that [of s'] show thesis by (simp add: settles_to_def)
    next
      case False
      with settle assms(3) that [of r] show thesis by auto
    qed
  qed
qed

text \<open>
  A reservation is never lost and keeps the cost it was admitted with; once it is released or
  charged, nothing any process does changes it again: no second charge, no charge after a release.
\<close>

theorem settled_reservation_is_final:
  assumes "untouched v cd0" and "(reserve_step v)\<^sup>*\<^sup>* cd0 cd" and "(reserve_step v)\<^sup>*\<^sup>* cd cd'"
    and "r \<in> set (reservations cd)"
  shows "\<exists>r' \<in> set (reservations cd'). hd_id r' = hd_id r \<and> hd_costUsd r' = hd_costUsd r \<and>
    (hd_status r = Held \<or> r' = r)"
  using assms(3)
proof (induction rule: rtranclp_induct)
  case base
  with assms(4) show ?case by blast
next
  case (step y z)
  then obtain s where s: "s \<in> set (reservations y)" "hd_id s = hd_id r"
      "hd_costUsd s = hd_costUsd r" "hd_status r = Held \<or> s = r"
    by blast
  have "reserve_ok v y"
    using assms(1) by (intro reserve_ok_reachable [OF rtranclp_trans [OF assms(2) step(1)]])
      (auto simp: untouched_def intro: untouched_ok)
  from reserve_step_keeps [OF step(2) this s(1)] s(2-4) show ?case by metis
qed

text \<open>Charging a hold twice the same amount is charging it once; another amount is refused.\<close>

lemma found_id: "findReservation rs i = Inr r \<Longrightarrow> hd_id r = i"
  by (auto simp: findReservation_def dest: find_SomeD split: option.splits)

lemma found_after_mutation:
  assumes "findReservation rs i = Inr r" and "hd_id r' = i"
  shows "findReservation (mutate_first i r' rs) i = Inr r'"
  using assms by (induction rs) (auto simp: findReservation_def split: if_splits option.splits)

lemma charge_hold_fields [simp]:
  "hd_id (charge_hold charge m r) = hd_id r"
  "hd_status (charge_hold charge m r) = Charged"
  "hd_chargedUsd (charge_hold charge m r) = Some charge"
  by (simp_all add: charge_hold_def)

lemma reconcile_again:
  assumes "reconcileCampaignReservation usd None i (Some charge) m cd = (Inr r, cd')"
  shows "reconcileCampaignReservation usd None i (Some charge) m' cd' = (Inr r, cd')"
    and "other \<noteq> charge \<Longrightarrow>
      \<exists>e. reconcileCampaignReservation usd None i (Some other) m' cd' = (Inl e, cd')"
    and "releaseCampaignReservation None i m' cd' = (Inr r, cd')"
proof -
  have c: "charge \<ge> 0" "reconcile_locked usd i charge m cd = (Inr r, cd')"
    using assms by (auto simp: reconcileCampaignReservation_def withReserveLock_def
        nonNegativeNumber_def split: if_splits)
  obtain rs q where q: "readStateFile cd = Inr rs" "findReservation rs i = Inr q"
    using c(2) by (auto simp: reconcile_locked_def split: sum.splits)
  have "\<exists>rs'. readStateFile cd' = Inr rs' \<and> findReservation rs' i = Inr r \<and>
      hd_status r = Charged \<and> hd_chargedUsd r = Some charge"
  proof (cases "hd_status q")
    case Held
    with c(2) q found_id [OF q(2)] found_after_mutation [OF q(2), of "charge_hold charge m q"]
    show ?thesis by (auto simp: reconcile_locked_def Let_def writeStateFile_def readStateFile_def)
  next
    case Charged
    with c(2) q show ?thesis by (auto simp: reconcile_locked_def split: if_splits)
  next
    case Released
    with c(2) q show ?thesis by (simp add: reconcile_locked_def)
  qed
  then obtain rs' where st: "readStateFile cd' = Inr rs'" "findReservation rs' i = Inr r"
      "hd_status r = Charged" "hd_chargedUsd r = Some charge"
    by blast
  show "reconcileCampaignReservation usd None i (Some charge) m' cd' = (Inr r, cd')"
    using st c(1) by (simp add: reconcileCampaignReservation_def withReserveLock_def
        reconcile_locked_def nonNegativeNumber_def)
  show "releaseCampaignReservation None i m' cd' = (Inr r, cd')"
    using st by (simp add: releaseCampaignReservation_def withReserveLock_def release_locked_def)
  show "\<exists>e. reconcileCampaignReservation usd None i (Some other) m' cd' = (Inl e, cd')"
    if "other \<noteq> charge"
    using st c(1) that by (auto simp: reconcileCampaignReservation_def withReserveLock_def
        reconcile_locked_def nonNegativeNumber_def)
qed

text \<open>The status a reader sees agrees with what admission goes by.\<close>

lemma readCampaignReserve_available:
  assumes "readCampaignReserve cd = Inr st" and "rs_configuredUsd st = Some v"
  shows "rs_availableUsd st = Some (round4 (v - committed (reservations cd)))"
    and "\<bar>rs_heldUsd st + rs_chargedUsd st - committed (reservations cd)\<bar> \<le> 1 / 10000"
proof -
  define H where "H = (\<Sum>r\<leftarrow>reservations cd. held_usd r)"
  define C where "C = (\<Sum>r\<leftarrow>reservations cd. charged_usd r)"
  have "committed (reservations cd) = H + C"
    by (simp add: committed_def H_def C_def sum_list_addf)
  moreover have st: "rs_heldUsd st = round4 H" "rs_chargedUsd st = round4 C"
      "rs_availableUsd st = Some (availableUsdOf v (reservations cd))"
    using assms
    by (auto simp: readCampaignReserve_def readStateFile_def reservations_def H_def C_def
        tally_sums split: sum.splits reserve_file.splits prod.splits)
  ultimately show "rs_availableUsd st = Some (round4 (v - committed (reservations cd)))"
    and "\<bar>rs_heldUsd st + rs_chargedUsd st - committed (reservations cd)\<bar> \<le> 1 / 10000"
    using round4_close [of H] round4_close [of C]
    unfolding abs_le_iff availableUsdOf_committed by (simp, linarith)
qed

section \<open>The gate of a dispatch\<close>

text \<open>What \<open>startWorker\<close> and \<open>startJudge\<close> are told: the refusal, or nothing.\<close>

definition reserve_gate ::
    "(rat \<Rightarrow> string) \<Rightarrow> string \<Rightarrow> stamp \<Rightarrow> snapshot \<Rightarrow> string \<Rightarrow> string \<Rightarrow> campaign_dir \<Rightarrow>
     role \<Rightarrow> snap_error option" where
  "reserve_gate usd fresh m s runId nodeId cd role =
     (case fst (reserveAdmission usd None fresh m s runId nodeId role (Some cd)) of
        Inr (Refuse e) \<Rightarrow> Some e | _ \<Rightarrow> None)"

definition does_not_fit :: "campaign_dir \<Rightarrow> snapshot \<Rightarrow> bool" where
  "does_not_fit cd s \<longleftrightarrow> (\<exists>c rs v x. readCampaign cd = Inr c \<and> cp_reserveUsd c = Some v \<and>
     readStateFile cd = Inr rs \<and> Option.bind (last_opt (ns_invocations s)) in_costUsd = Some x \<and>
     x \<ge> 0 \<and> round4 x > round4 (v - committed rs))"

lemma reserve_gate_refuses:
  assumes "does_not_fit cd s"
  obtains e where "reserve_gate usd fresh m s runId nodeId cd role = Some e"
    "er_code e = ''reserve_insufficient''"
    "snd (reserveAdmission usd None fresh m s runId nodeId role (Some cd)) = Some cd"
  using assms
  by (auto simp: does_not_fit_def reserve_gate_def reserveAdmission_def reserveCampaignCost_def
      nonNegativeNumber_def withReserveLock_def reserve_locked_def availableUsdOf_committed Let_def
      readCampaign_def split: campaign_file.splits)

lemma reserve_gate_unreadable:
  assumes "readCampaign cd = Inl e" and "cg_campaign cd \<noteq> No_campaign"
  obtains e' where "reserve_gate usd fresh m s runId nodeId cd role = Some e'"
    "er_code e' = ''campaign_record_unreadable''"
    "snd (reserveAdmission usd None fresh m s runId nodeId role (Some cd)) = Some cd"
  using assms by (simp add: reserve_gate_def reserveAdmission_def)

text \<open>Only \<open>persistInvocationIntent\<close> writes an intent; a settlement or a transition writes none.\<close>

lemma settled_intents: "settleInvocation rd v i request now = Some rd' \<Longrightarrow> rd_intents rd' = rd_intents rd"
  by (auto simp: settleInvocation_def Let_def split: if_splits)

lemma settle_in_intents: "rd_intents (ce_rd (settle_in i request now c)) = rd_intents (ce_rd c)"
  by (cases "settleInvocation (ce_rd c) (Some i) (in_id i) request now")
    (simp_all add: settle_in_def settled_intents)

lemma settle_previous_intents: "rd_intents (ce_rd (settle_previous now c)) = rd_intents (ce_rd c)"
  by (simp add: settle_previous_def settle_in_intents split: option.split)

lemma stop_with_intents: "rd_intents (ce_rd (stop_with st ph e now c)) = rd_intents (ce_rd c)"
  by (auto simp: stop_with_def move_def transition_def transition_write_def transition_record_def
      settle_open_def appendTransitionEvent_def writeNode_def Let_def nullish_def split: option.split dest: settled_intents)

lemma clear_stale_result_intents:
  "rd_intents (ce_rd (clear_stale_result oe i c)) = rd_intents (ce_rd c)"
  by (auto simp: clear_stale_result_def Let_def split: option.split sum.split)

lemmas kept_intents = settle_previous_intents stop_with_intents clear_stale_result_intents

text \<open>
  C30. A worker whose node's last call cost more than the campaign's balance has left - both rounded
  to four decimals, as the code compares them -, or whose campaign's record cannot be read, is not
  started: the node is blocked, no job and no invocation are added, no intent is recorded in the run's
  directory, and nothing is held against the balance.
\<close>

theorem refused_dispatch_spends_nothing:
  assumes "does_not_fit cd (ce_state c) \<or>
      (\<exists>e. readCampaign cd = Inl e) \<and> cg_campaign cd \<noteq> No_campaign"
    and "oe_reserve oe Worker =
      reserve_gate usd fresh m (ce_state c) runId (nd_id node) cd Worker"
    and "c' = launch_worker oe node runtimeId b now c"
  shows "ns_status (ce_state c') = Blocked \<and> ce_running c' = ce_running c \<and>
    map in_id (ns_invocations (ce_state c')) = map in_id (ns_invocations (ce_state c)) \<and>
    rd_intents (ce_rd c') = rd_intents (ce_rd c) \<and>
    snd (reserveAdmission usd None fresh m (ce_state c) runId (nd_id node) Worker (Some cd)) = Some cd"
proof -
  obtain e where e: "oe_reserve oe Worker = Some e"
      "snd (reserveAdmission usd None fresh m (ce_state c) runId (nd_id node) Worker (Some cd)) = Some cd"
    using assms(1)
  proof
    assume "does_not_fit cd (ce_state c)"
    from reserve_gate_refuses [OF this, of usd fresh m runId "nd_id node" Worker]
    show thesis using that assms(2) by metis
  next
    assume "(\<exists>e. readCampaign cd = Inl e) \<and> cg_campaign cd \<noteq> No_campaign"
    then obtain e where "readCampaign cd = Inl e" "cg_campaign cd \<noteq> No_campaign" by blast
    from reserve_gate_unreadable [OF this, of usd fresh m "ce_state c" runId "nd_id node" Worker]
    show thesis using that assms(2) by metis
  qed
  show ?thesis unfolding assms(3)
    using e kept_intents [unfolded stop_with_def]
    by (simp add: launch_worker_def Let_def stop_with_def started_def worker_reset_def persist_def
        writeNode_def on_state_def)
qed

section \<open>A campaign's balance at work\<close>

text \<open>
  A balance of a dollar: sixty cents held and charged at seventy, a hold of fifty refused, a
  quarter held and released.
\<close>

definition sample_campaign :: campaign_dir where
  "sample_campaign = \<lparr>cg_path = ''c'', cg_campaign = Campaign \<lparr>cp_id = ''c'', cp_closed = False,
     cp_reserveUsd = Some 1, cp_updatedAt = None\<rparr>, cg_state = No_state\<rparr>"

definition ask :: "rat option \<Rightarrow> string \<Rightarrow> campaign_dir \<Rightarrow> campaign_dir" where
  "ask cost i cd = snd (reserveCampaignCost None
     \<lparr>rq_runId = None, rq_node = None, rq_costUsd = cost, rq_at = Iso 0\<rparr> i cd)"

definition sample_charged :: campaign_dir where
  "sample_charged = snd (reconcileCampaignReservation (\<lambda>v. []) None ''h1'' (Some (7 / 10)) (Iso 1)
     (ask (Some (6 / 10)) ''h1'' sample_campaign))"

definition sample_spent :: campaign_dir where
  "sample_spent = snd (releaseCampaignReservation None ''h3'' (Iso 2)
     (ask (Some (1 / 4)) ''h3'' (ask (Some (1 / 2)) ''h2'' sample_charged)))"

lemma round4_fraction [simp]:
  "round4 (3 / 5) = 3 / 5" "round4 (7 / 10) = 7 / 10" "round4 (3 / 10) = 3 / 10"
  "round4 (1 / 4) = 1 / 4" "round4 (1 / 2) = 1 / 2" "round4 1 = 1" "round4 (1 / 10) = 1 / 10"
  by (simp_all add: round4_def floor_eq_iff)

lemmas reserve_evaluation =
  ask_def reserveCampaignCost_def reserve_locked_def withReserveLock_def readCampaign_def
  nonNegativeNumber_def readStateFile_def availableUsdOf_def new_reservation_def
  writeStateFile_def reconcileCampaignReservation_def reconcile_locked_def findReservation_def
  releaseCampaignReservation_def release_locked_def charge_hold_def Let_def reservations_def

definition charged_hold :: reservation where
  "charged_hold = \<lparr>hd_id = ''h1'', hd_at = Iso 0, hd_runId = None, hd_node = None,
     hd_costUsd = Some (6 / 10), hd_status = Charged, hd_chargedUsd = Some (7 / 10),
     hd_lateChargeUsd = Some (1 / 10), hd_settledAt = Some (Iso 1)\<rparr>"

lemma sample_charged_reservations: "reservations sample_charged = [charged_hold]"
  by (simp add: sample_charged_def sample_campaign_def reserve_evaluation charged_hold_def)

lemma sample_spent_reservations:
  "map (\<lambda>r. (hd_id r, hd_status r)) (reservations sample_spent) =
     [(''h1'', Charged), (''h3'', Released)]"
  by (simp add: sample_spent_def sample_charged_def sample_campaign_def reserve_evaluation)

lemma ask_step: "i \<notin> hd_id ` set (reservations cd) \<Longrightarrow> reserve_step v cd (ask cost i cd)"
  unfolding ask_def by (rule reserves)

lemma two_steps: "reserve_step v a b \<Longrightarrow> reserve_step v b c \<Longrightarrow> (reserve_step v)\<^sup>*\<^sup>* a c"
  by (blast intro: rtranclp.intros)

lemma sample_steps:
  "(reserve_step 1)\<^sup>*\<^sup>* sample_campaign sample_charged"
  "(reserve_step 1)\<^sup>*\<^sup>* sample_charged sample_spent"
proof -
  have "reserve_step 1 sample_campaign (ask (Some (6 / 10)) ''h1'' sample_campaign)"
    by (rule ask_step) (simp add: reservations_def sample_campaign_def)
  from two_steps [OF this reconciles] show "(reserve_step 1)\<^sup>*\<^sup>* sample_campaign sample_charged"
    unfolding sample_charged_def .
  let ?a = "ask (Some (1 / 2)) ''h2'' sample_charged"
  have a: "reserve_step 1 sample_charged ?a"
    by (rule ask_step) (simp add: sample_charged_reservations charged_hold_def)
  have "reserve_step 1 ?a (ask (Some (1 / 4)) ''h3'' ?a)"
    by (rule ask_step) (simp add: sample_charged_def sample_campaign_def reserve_evaluation)
  from two_steps [OF this releases] a show "(reserve_step 1)\<^sup>*\<^sup>* sample_charged sample_spent"
    unfolding sample_spent_def by (rule converse_rtranclp_into_rtranclp [rotated])
qed

lemma untouched_sample: "untouched 1 sample_campaign"
  by (simp add: untouched_def sample_campaign_def balance_within_def)

theorem balance_never_overdrawn_witness:
  "committed (reservations sample_charged) < 1 + 1 / 10000 + late (reservations sample_charged) \<and>
   committed (reservations sample_charged) = 7 / 10"
  using balance_never_overdrawn [OF untouched_sample sample_steps(1)]
  by (simp add: sample_charged_reservations committed_def held_usd_def charged_usd_def charged_hold_def)

theorem settled_reservation_is_final_witness:
  "charged_hold \<in> set (reservations sample_spent) \<and>
   map (\<lambda>r. (hd_id r, hd_status r)) (reservations sample_spent) =
     [(''h1'', Charged), (''h3'', Released)]"
  using settled_reservation_is_final
    [OF untouched_sample sample_steps(1,2), unfolded sample_charged_reservations, of charged_hold]
    sample_spent_reservations
  by (auto simp: charged_hold_def)

text \<open>A node whose last call cost half a dollar, when thirty cents are left.\<close>

definition sample_costly :: ctl where
  "sample_costly = on_state (\<lambda>s. s\<lparr>ns_invocations :=
     [(sample_invocation ''i-1'' Worker ''glm'')\<lparr>in_costUsd := Some (1 / 2)\<rparr>]\<rparr>) sample_ctl"

definition sample_gated :: outside where
  "sample_gated = sample_outside\<lparr>oe_reserve :=
     reserve_gate (\<lambda>v. []) ''h5'' (Iso 3) (ce_state sample_costly) ''r'' ''a'' sample_charged\<rparr>"

definition sample_bounds :: boundary where
  "sample_bounds = \<lparr>bd_files = [''x''], bd_roots = [], bd_fileRoots = [], bd_fileOrigins = [],
     bd_rootOrigins = []\<rparr>"

lemma half_does_not_fit: "does_not_fit sample_charged (ce_state sample_costly)"
proof -
  have av: "round4 (1 - committed [charged_hold]) = 3 / 10"
    by (simp add: committed_def held_usd_def charged_usd_def charged_hold_def)
  have rs: "readStateFile sample_charged = Inr [charged_hold]"
    by (simp add: sample_charged_def sample_campaign_def reserve_evaluation charged_hold_def)
  have rc: "readCampaign sample_charged = Inr \<lparr>cp_id = ''c'', cp_closed = False,
      cp_reserveUsd = Some 1, cp_updatedAt = None\<rparr>"
    by (simp add: sample_charged_def sample_campaign_def reserve_evaluation)
  have cost: "Option.bind (last_opt (ns_invocations (ce_state sample_costly))) in_costUsd = Some (1 / 2)"
    by (simp add: sample_costly_def on_state_def last_opt_def)
  show ?thesis
    unfolding does_not_fit_def
    by (intro exI conjI, rule rc, simp, rule rs, rule cost, simp, simp add: av)
qed

theorem refused_dispatch_spends_nothing_witness:
  "ns_status (ce_state (launch_worker sample_gated (sample_node ''a'' [] None None) ''glm''
     sample_bounds 5 sample_costly)) = Blocked \<and>
   snd (reserveAdmission (\<lambda>v. []) None ''h5'' (Iso 3) (ce_state sample_costly) ''r'' ''a'' Worker
     (Some sample_charged)) = Some sample_charged"
  using refused_dispatch_spends_nothing [of sample_charged sample_costly sample_gated "\<lambda>v. []" "''h5''"
      "Iso 3" "''r''" "sample_node ''a'' [] None None", OF disjI1 [OF half_does_not_fit] _ refl]
  by (simp add: sample_gated_def sample_node_def)

end
