(* ===== verification/Journal.thy ===== *)
theory Journal
  imports Previous_Attempt Worker_Result "HOL-Library.List_Lexorder" "HOL-Library.Char_ord"
    "HOL-Library.Product_Lexorder"
begin

text \<open>
  The journal of a campaign (\<open>src/campaign/journal.mjs\<close>): the shapes of its entries, what an append
  writes and what it refuses, the reading of the file with its unterminated last line, and the
  durable positions of its watchers.

  \<open>JSON.parse\<close>, the printing of numbers and \<open>Date.parse\<close> are the argument \<open>text_env\<close>; texts are
  compared by their bytes. A file written by \<open>writeJsonAtomic\<close> holds the value written.
\<close>

record text_env =
  te_parse :: "string \<Rightarrow> string + json"
  te_num :: "rat \<Rightarrow> string"
  te_date :: "string \<Rightarrow> bool"

section \<open>The shapes of entries\<close>

type_synonym entry = "(string \<times> json) list"

definition JOURNAL_TYPES :: "string list" where
  "JOURNAL_TYPES = [''campaign.initialized'', ''campaign.closed'', ''campaign.unparked'',
     ''run.registered'', ''session.attached'', ''intent'', ''decision'', ''supersede'', ''constraint'',
     ''outcome'', ''next'', ''open-question'', ''question.resolved'', ''operator.command'',
     ''retrospective'', ''liveness'', ''seat.allowance'']"

definition SESSION_REQUIRED_TYPES :: "string list" where
  "SESSION_REQUIRED_TYPES = [''session.attached'', ''intent'', ''decision'', ''supersede'',
     ''constraint'', ''outcome'', ''next'', ''open-question'', ''question.resolved'', ''retrospective'']"

definition ENTRY_SHAPES :: "(string \<times> string list) list" where
  "ENTRY_SHAPES =
     [(''campaign.initialized'', [''at'', ''type'', ''eventId'']),
      (''campaign.closed'', [''at'', ''type'', ''eventId'']),
      (''campaign.unparked'', [''at'', ''type'', ''eventId'', ''code'', ''runId'']),
      (''run.registered'', [''at'', ''type'', ''eventId'', ''runId'']),
      (''session.attached'', [''at'', ''type'', ''eventId'', ''sessionId'', ''tool'', ''transcript'',
         ''transcriptUnavailable'', ''format'', ''cursor'']),
      (''intent'', [''at'', ''type'', ''eventId'', ''sessionId'', ''text'']),
      (''decision'', [''at'', ''type'', ''eventId'', ''sessionId'', ''decisionId'', ''text'']),
      (''supersede'', [''at'', ''type'', ''eventId'', ''sessionId'', ''supersedes'', ''text'']),
      (''constraint'', [''at'', ''type'', ''eventId'', ''sessionId'', ''text'']),
      (''outcome'', [''at'', ''type'', ''eventId'', ''sessionId'', ''text'', ''runId'']),
      (''next'', [''at'', ''type'', ''eventId'', ''sessionId'', ''text'']),
      (''open-question'', [''at'', ''type'', ''eventId'', ''sessionId'', ''questionId'', ''text'']),
      (''question.resolved'', [''at'', ''type'', ''eventId'', ''sessionId'', ''questionId'', ''text'']),
      (''operator.command'', [''at'', ''type'', ''eventId'', ''command'', ''sessionId'', ''runId'']),
      (''retrospective'', [''at'', ''type'', ''eventId'', ''sessionId'', ''text'']),
      (''liveness'', [''at'', ''type'', ''eventId'', ''campaignId'', ''runId'', ''nodeId'', ''phase'',
         ''checkpointsDone'', ''checkpointsTotal'', ''runtime'', ''state'', ''lastProgressAt'',
         ''attention'']),
      (''seat.allowance'', [''at'', ''type'', ''eventId'', ''sample'', ''harness'', ''remaining'',
         ''limit'', ''resetsAt'', ''delta'', ''window''])]"

definition JOURNAL_TEXT_BYTES :: nat where "JOURNAL_TEXT_BYTES = 2 * 1024"

text \<open>A check's message, or nothing; \<open>a &&& b\<close> of the source's statements is \<open>orelse a b\<close>.\<close>

definition require_text :: "json option \<Rightarrow> string \<Rightarrow> string option" where
  "require_text v label =
     (case v of
        Some (J_str s) \<Rightarrow> if trim s = [] then Some (label @ '' must be a non-empty string'') else None
      | _ \<Rightarrow> Some (label @ '' must be a non-empty string''))"

definition requireTimestamp :: "text_env \<Rightarrow> json option \<Rightarrow> string \<Rightarrow> string option" where
  "requireTimestamp te v label =
     (case v of
        Some (J_str s) \<Rightarrow>
          if trim s = [] \<or> \<not> te_date te s then Some (label @ '' must be a valid timestamp'') else None
      | _ \<Rightarrow> Some (label @ '' must be a valid timestamp''))"

definition null_or :: "(json \<Rightarrow> bool) \<Rightarrow> json option \<Rightarrow> bool" where
  "null_or P v = (case v of None \<Rightarrow> False | Some w \<Rightarrow> w = J_null \<or> P w)"

fun is_str :: "json \<Rightarrow> bool" where
  "is_str (J_str _) = True"
| "is_str _ = False"

fun is_num :: "json \<Rightarrow> bool" where
  "is_num (J_num _) = True"
| "is_num _ = False"

definition validateSeatAllowanceEntry :: "entry \<Rightarrow> string option" where
  "validateSeatAllowanceEntry e =
     (if map_of e ''sample'' \<notin> {Some (J_str ''start''), Some (J_str ''freeze'')}
      then Some ''seat.allowance sample must be start or freeze''
      else if \<not> null_or is_str (map_of e ''harness'')
      then Some ''seat.allowance harness must be null or a string''
      else case List.find (\<lambda>f. \<not> null_or is_num (map_of e f)) [''remaining'', ''limit'', ''delta''] of
             Some f \<Rightarrow> Some (''seat.allowance '' @ f @ '' must be null or a number'')
           | None \<Rightarrow>
               if \<not> null_or is_str (map_of e ''resetsAt'')
               then Some ''seat.allowance resetsAt must be null or a string''
               else if map_of e ''window'' \<noteq> None \<and> \<not> null_or is_str (map_of e ''window'')
               then Some ''seat.allowance window must be null or a string''
               else None)"

definition nonblank :: "json option \<Rightarrow> bool" where
  "nonblank v = (case v of Some (J_str s) \<Rightarrow> trim s \<noteq> [] | _ \<Rightarrow> False)"

definition absolute :: "json option \<Rightarrow> bool" where
  "absolute v = (case v of Some (J_str s) \<Rightarrow> starts_with s ''/'' | _ \<Rightarrow> False)"

definition validateSessionEntry :: "entry \<Rightarrow> string option" where
  "validateSessionEntry e =
     orelse (require_text (map_of e ''tool'') ''session.tool'')
     (orelse (require_text (map_of e ''sessionId'') ''session.sessionId'')
     (orelse (case map_of e ''transcriptUnavailable'' of
          Some (J_bool True) \<Rightarrow>
            if map_of e ''transcript'' \<noteq> Some J_null
            then Some ''unavailable session must not include a transcript path''
            else if map_of e ''format'' \<noteq> Some J_null
            then Some ''unavailable session must not include a transcript format'' else None
        | Some (J_bool False) \<Rightarrow>
            if \<not> absolute (map_of e ''transcript'')
            then Some ''session.transcript must be an absolute path when available''
            else if \<not> nonblank (map_of e ''format'')
            then Some ''session.format must be a non-empty string when a transcript is available''
            else None
        | _ \<Rightarrow> Some ''session.transcriptUnavailable must be a boolean'')
     (if map_of e ''cursor'' \<notin> {None, Some J_null} \<and> \<not> nonblank (map_of e ''cursor'')
      then Some ''session.cursor must be null, omitted, or a non-empty string'' else None)))"

definition optional_text :: "json option \<Rightarrow> string \<Rightarrow> string option" where
  "optional_text v label = (if v = None then None else require_text v label)"

text \<open>What each type of entry asks for beyond the fields every entry has.\<close>

definition validate_kind :: "string \<Rightarrow> entry \<Rightarrow> string option" where
  "validate_kind type e =
     (if type = ''liveness'' then None
      else if type = ''operator.command''
      then orelse (require_text (map_of e ''command'') ''entry.command'')
        (orelse (optional_text (map_of e ''sessionId'') ''entry.sessionId'')
        (optional_text (map_of e ''runId'') ''entry.runId''))
      else if type = ''seat.allowance'' then validateSeatAllowanceEntry e
      else if type = ''session.attached'' then validateSessionEntry e
      else if type = ''run.registered'' then require_text (map_of e ''runId'') ''entry.runId''
      else if type = ''campaign.initialized'' \<or> type = ''campaign.closed'' then None
      else if type = ''campaign.unparked''
      then orelse (require_text (map_of e ''code'') ''entry.code'')
        (if map_of e ''runId'' \<in> {None, Some J_null} then None
         else require_text (map_of e ''runId'') ''entry.runId'')
      else orelse (require_text (map_of e ''text'') ''entry.text'')
        (orelse (if type = ''decision'' then require_text (map_of e ''decisionId'') ''entry.decisionId''
           else None)
        (orelse (if type = ''supersede'' then require_text (map_of e ''supersedes'') ''entry.supersedes''
           else None)
        (orelse (if type = ''open-question'' \<or> type = ''question.resolved''
           then require_text (map_of e ''questionId'') ''entry.questionId'' else None)
        (if type = ''outcome'' then optional_text (map_of e ''runId'') ''entry.runId'' else None)))))"

definition type_of :: "entry \<Rightarrow> string option" where
  "type_of e =
     (case map_of e ''type'' of
        Some (J_str t) \<Rightarrow> if t \<in> set JOURNAL_TYPES then Some t else None
      | _ \<Rightarrow> None)"

definition validateJournalEntry :: "text_env \<Rightarrow> json \<Rightarrow> string option" where
  "validateJournalEntry te v =
     (case v of
        J_obj e \<Rightarrow>
          (case type_of e of
             None \<Rightarrow> Some (''journal entry type must be one of '' @ join_with '', '' JOURNAL_TYPES)
           | Some type \<Rightarrow>
               (case List.find (\<lambda>k. k \<notin> set (nullish (map_of ENTRY_SHAPES type) [])) (map fst e) of
                  Some k \<Rightarrow> Some (''journal entry '' @ type @ '' has unexpected field '' @ k)
                | None \<Rightarrow>
                    orelse (requireTimestamp te (map_of e ''at'') ''entry.at'')
                    (orelse (require_text (map_of e ''eventId'') ''entry.eventId'')
                    (orelse (if type \<in> set SESSION_REQUIRED_TYPES
                       then require_text (map_of e ''sessionId'') ''entry.sessionId'' else None)
                    (validate_kind type e)))))
      | _ \<Rightarrow> Some ''journal entry must be an object'')"

section \<open>Appending\<close>

text \<open>
  \<open>collapseLines\<close> of \<open>src/util.mjs\<close>; a run of control characters, like any white space, ends up as
  one space.
\<close>

definition collapseLines :: "string \<Rightarrow> string" where
  "collapseLines s = trim (collapse False (map (\<lambda>c. if is_control c then CHR '' '' else c) s))"

definition normalizeText :: "string \<Rightarrow> string \<Rightarrow> nat \<Rightarrow> string + string" where
  "normalizeText value label maxBytes =
     (if trim value = [] then Inl (label @ '' must be a non-empty string'')
      else (let collapsed = collapseLines value; bytes = length collapsed
            in if collapsed = [] then Inl (label @ '' must not be blank'')
               else if bytes > maxBytes
               then Inl (label @ '' is '' @ show_nat bytes @ '' bytes, over the '' @
                      show_nat maxBytes @ ''-byte cap; cut '' @ show_nat (bytes - maxBytes) @
                      '' bytes and retry'')
               else Inr collapsed))"

fun normalizeEntry :: "entry \<Rightarrow> string + entry" where
  "normalizeEntry [] = Inr []"
| "normalizeEntry ((k, v) # e) =
     (case (case v of
              J_str s \<Rightarrow>
                if k = ''text'' then map_sum id J_str (normalizeText s ''entry.text'' JOURNAL_TEXT_BYTES)
                else Inr (J_str (collapseLines s))
            | _ \<Rightarrow> Inr v) of
        Inl m \<Rightarrow> Inl m
      | Inr v' \<Rightarrow> map_sum id (Cons (k, v')) (normalizeEntry e))"

text \<open>\<open>text.split(/\r?\n/u)\<close>\<close>

definition chomp :: "string \<Rightarrow> string" where
  "chomp line = (if line \<noteq> [] \<and> last line = CHR 0x0D then butlast line else line)"

definition split_lines :: "string \<Rightarrow> string list" where
  "split_lines text' = (let ls = lines_of text' in map chomp (butlast ls) @ [last ls])"

fun parsed_lines :: "text_env \<Rightarrow> string list \<Rightarrow> json list" where
  "parsed_lines te [] = []"
| "parsed_lines te (line # ls) =
     (if trim line = [] then parsed_lines te ls
      else case te_parse te line of
             Inl _ \<Rightarrow> parsed_lines te ls
           | Inr v \<Rightarrow> v # parsed_lines te ls)"

definition readJournalForDedupe :: "text_env \<Rightarrow> string option \<Rightarrow> json list" where
  "readJournalForDedupe te journal =
     (case journal of None \<Rightarrow> [] | Some text' \<Rightarrow> parsed_lines te (split_lines text'))"

text \<open>The search for the event's id among what was read; a \<open>null\<close> line makes it throw.\<close>

fun find_event :: "json option \<Rightarrow> json list \<Rightarrow> string + json option" where
  "find_event i [] = Inr None"
| "find_event i (v # vs) =
     (if v = J_null then Inl ''Cannot read properties of null (reading 'eventId')''
      else if field_of v ''eventId'' = i then Inr (Some v)
      else find_event i vs)"

record appended =
  ap_entry :: json
  ap_deduplicated :: bool

definition appendJournal ::
    "text_env \<Rightarrow> json \<Rightarrow> string option \<Rightarrow> (string + appended) \<times> string option" where
  "appendJournal te v journal =
     (case validateJournalEntry te v of
        Some m \<Rightarrow> (Inl m, journal)
      | None \<Rightarrow>
          (case normalizeEntry (case v of J_obj e \<Rightarrow> e | _ \<Rightarrow> []) of
             Inl m \<Rightarrow> (Inl m, journal)
           | Inr e \<Rightarrow>
               (case find_event (map_of e ''eventId'') (readJournalForDedupe te journal) of
                  Inl m \<Rightarrow> (Inl m, journal)
                | Inr (Some existing) \<Rightarrow>
                    (Inr \<lparr>ap_entry = existing, ap_deduplicated = True\<rparr>, journal)
                | Inr None \<Rightarrow>
                    (Inr \<lparr>ap_entry = J_obj e, ap_deduplicated = False\<rparr>,
                     Some (nullish journal [] @ stringify (te_num te) (J_obj e) @ newline)))))"

text \<open>\<open>{ type, eventId, at, ...allowance }\<close>\<close>

definition appendSeatAllowanceEvent ::
    "text_env \<Rightarrow> string \<Rightarrow> string \<Rightarrow> entry \<Rightarrow> string option \<Rightarrow> (string + appended) \<times> string option" where
  "appendSeatAllowanceEvent te i moment allowance =
     appendJournal te (J_obj (AList.updates (map fst allowance) (map snd allowance)
       [(''type'', J_str ''seat.allowance''), (''eventId'', J_str i), (''at'', J_str moment)]))"

section \<open>Reading\<close>

definition LEGACY_LIVENESS_FIELDS :: "string list" where
  "LEGACY_LIVENESS_FIELDS = [''weightedUsed'', ''weightedCap'']"

definition withoutLegacyLivenessFields :: "json \<Rightarrow> string + json" where
  "withoutLegacyLivenessFields v =
     (case v of
        J_null \<Rightarrow> Inl ''Cannot read properties of null (reading 'type')''
      | J_obj e \<Rightarrow>
          Inr (if map_of e ''type'' \<noteq> Some (J_str ''liveness'') then v
               else J_obj (fold AList.delete LEGACY_LIVENESS_FIELDS e))
      | _ \<Rightarrow> Inr v)"

text \<open>One line of the journal as an entry.\<close>

definition read_line :: "text_env \<Rightarrow> string \<Rightarrow> string + entry" where
  "read_line te line =
     (case te_parse te line of
        Inl m \<Rightarrow> Inl m
      | Inr v \<Rightarrow>
          (case withoutLegacyLivenessFields v of
             Inl m \<Rightarrow> Inl m
           | Inr w \<Rightarrow>
               (case validateJournalEntry te w of
                  Some m \<Rightarrow> Inl m
                | None \<Rightarrow> Inr (case w of J_obj e \<Rightarrow> e | _ \<Rightarrow> []))))"

fun read_journal_lines :: "text_env \<Rightarrow> bool \<Rightarrow> nat \<Rightarrow> string list \<Rightarrow> string + entry list" where
  "read_journal_lines te terminated index [] = Inr []"
| "read_journal_lines te terminated index (line # ls) =
     (if trim line = [] \<or> ls = [] \<and> \<not> terminated
      then read_journal_lines te terminated (index + 1) ls
      else case read_line te line of
             Inl m \<Rightarrow> Inl (''journal line '' @ show_nat (index + 1) @ '' is invalid: '' @ m)
           | Inr e \<Rightarrow> map_sum id (Cons e) (read_journal_lines te terminated (index + 1) ls))"

definition ends_line :: "string \<Rightarrow> bool" where
  "ends_line text' \<longleftrightarrow> text' \<noteq> [] \<and> last text' = CHR 0x0A"

definition readJournal :: "text_env \<Rightarrow> string option \<Rightarrow> string + entry list" where
  "readJournal te journal =
     (case journal of
        None \<Rightarrow> Inr []
      | Some text' \<Rightarrow> read_journal_lines te (ends_line text') 0 (split_lines text'))"

section \<open>Watching\<close>

definition text_field :: "entry \<Rightarrow> string \<Rightarrow> string" where
  "text_field e k = (case map_of e k of Some (J_str s) \<Rightarrow> s | _ \<Rightarrow> [])"

type_synonym position = "string \<times> string"

text \<open>\<open>compareJournalPositions\<close> orders by the timestamp's text, then by the event's id.\<close>

definition position_of :: "entry \<Rightarrow> position" where
  "position_of e = (text_field e ''at'', text_field e ''eventId'')"

definition safe_identifier :: "string \<Rightarrow> bool" where
  "safe_identifier s \<longleftrightarrow> s \<noteq> [] \<and> length s \<le> 128 \<and> is_alnum (hd s) \<and>
     list_all (\<lambda>c. is_alnum c \<or> c \<in> set ''._-'') s"

type_synonym cursors = "(string \<times> json) list"

definition readJournalCursor :: "cursors \<Rightarrow> string \<Rightarrow> string + position" where
  "readJournalCursor cs i =
     (case map_of cs i of
        None \<Rightarrow> Inr ([], [])
      | Some J_null \<Rightarrow> Inl ''Cannot read properties of null (reading 'at')''
      | Some v \<Rightarrow>
          (case require_text (field_of v ''at'') ''journal watch cursor.at'' of
             Some m \<Rightarrow> Inl m
           | None \<Rightarrow>
               (case (field_of v ''at'', field_of v ''eventId'') of
                  (Some (J_str moment), Some (J_str e)) \<Rightarrow> Inr (moment, e)
                | _ \<Rightarrow> Inl ''journal watch cursor.eventId must be a string'')))"

definition writeJournalCursor :: "string \<Rightarrow> position \<Rightarrow> string \<Rightarrow> cursors \<Rightarrow> cursors" where
  "writeJournalCursor i pos now cs =
     AList.update i (J_obj [(''schemaVersion'', J_num 1), (''cursorId'', J_str i), (''at'', J_str (fst pos)),
       (''eventId'', J_str (snd pos)), (''updatedAt'', J_str now)]) cs"

record watch_result =
  wa_cursor :: "(string \<times> position) option"
  wa_events :: "entry list"

definition watch_entries :: "text_env \<Rightarrow> string option \<Rightarrow> string + entry list" where
  "watch_entries te journal =
     map_sum id (\<lambda>es. sort_key position_of (filter (\<lambda>e. map_of e ''type'' \<noteq> Some (J_str ''liveness'')) es))
       (readJournal te journal)"

definition watchJournal ::
    "text_env \<Rightarrow> string option \<Rightarrow> string option \<Rightarrow> string option \<Rightarrow> bool \<Rightarrow> string \<Rightarrow> cursors \<Rightarrow>
     (string + watch_result) \<times> cursors" where
  "watchJournal te journal since cursor readOnly now cs =
     (if (since \<noteq> None) = (cursor \<noteq> None)
      then (Inl ''watch requires exactly one of --since or --cursor'', cs)
      else case watch_entries te journal of
             Inl m \<Rightarrow> (Inl m, cs)
           | Inr es \<Rightarrow>
               (case (case (since, cursor) of
                        (Some s, _) \<Rightarrow>
                          (case List.find (\<lambda>e. map_of e ''eventId'' = Some (J_str s)) es of
                             None \<Rightarrow> Inl ''--since event ID is not retained in the journal''
                           | Some e \<Rightarrow> Inr (position_of e))
                      | (None, Some i) \<Rightarrow>
                          if \<not> safe_identifier i then Inl ''--cursor must be a safe identifier''
                          else readJournalCursor cs i
                      | _ \<Rightarrow> Inl []) of
                  Inl m \<Rightarrow> (Inl m, cs)
                | Inr position \<Rightarrow>
                    (let events = filter (\<lambda>e. position_of e > position) es
                     in case cursor of
                          None \<Rightarrow> (Inr \<lparr>wa_cursor = None, wa_events = events\<rparr>, cs)
                        | Some i \<Rightarrow>
                            if readOnly \<or> events = []
                            then (Inr \<lparr>wa_cursor = Some (i, position), wa_events = events\<rparr>, cs)
                            else (let position' = position_of (last events)
                                  in (Inr \<lparr>wa_cursor = Some (i, position'), wa_events = events\<rparr>,
                                      writeJournalCursor i position' now cs)))))"

definition acknowledgeJournalEvent ::
    "text_env \<Rightarrow> string option \<Rightarrow> string \<Rightarrow> string \<Rightarrow> string \<Rightarrow> cursors \<Rightarrow>
     (string + string \<times> position) \<times> cursors" where
  "acknowledgeJournalEvent te journal i eventId now cs =
     (if \<not> safe_identifier i then (Inl ''--cursor must be a safe identifier'', cs)
      else if trim eventId = [] then (Inl ''--event-id requires a value'', cs)
      else case readJournalCursor cs i of
             Inl m \<Rightarrow> (Inl m, cs)
           | Inr current \<Rightarrow>
               (case readJournal te journal of
                  Inl m \<Rightarrow> (Inl m, cs)
                | Inr es \<Rightarrow>
                    (case (case List.find (\<lambda>e. map_of e ''eventId'' = Some (J_str eventId)) es of
                             Some e \<Rightarrow> Inr (position_of e)
                           | None \<Rightarrow>
                               if snd current \<noteq> [] \<and> snd current = eventId then Inr current
                               else Inl ''--event-id is not retained in the journal'') of
                       Inl m \<Rightarrow> (Inl m, cs)
                     | Inr found \<Rightarrow>
                         (let position = (if snd current \<noteq> [] \<and> found \<le> current then current else found)
                          in (Inr (i, position),
                              if snd current = [] \<or> position > current
                              then writeJournalCursor i position now cs else cs)))))"

section \<open>Lines\<close>

abbreviation nl :: char where "nl \<equiv> CHR 0x0A"

text \<open>A text whose last line is terminated, and the terminated lines of any text.\<close>

definition complete :: "string \<Rightarrow> bool" where
  "complete t \<longleftrightarrow> t = [] \<or> last t = nl"

definition complete_lines :: "string \<Rightarrow> string list" where
  "complete_lines t = map chomp (butlast (lines_of t))"

lemma lines_of_line: "nl \<notin> set l \<Longrightarrow> lines_of (l @ nl # t) = l # lines_of t"
  by (subst lines_of.simps) (auto simp: Let_def takeWhile_append dropWhile_append)

lemma lines_of_rest: "nl \<notin> set l \<Longrightarrow> lines_of l = [l]"
  by (subst lines_of.simps) (auto simp: Let_def takeWhile_eq_all_conv)

lemma line_cases [case_names rest line]:
  obtains "nl \<notin> set t" | l u where "t = l @ nl # u" "nl \<notin> set l"
  by (metis split_list_first)

lemma line_induct [case_names rest line]:
  assumes "\<And>t. nl \<notin> set t \<Longrightarrow> P t" and "\<And>l t. nl \<notin> set l \<Longrightarrow> P t \<Longrightarrow> P (l @ nl # t)"
  shows "P t"
proof (induction t rule: length_induct)
  case (1 t)
  show ?case
  proof (cases t rule: line_cases)
    case rest
    with assms(1) show ?thesis .
  next
    case (line l u)
    with 1 assms(2) [of l u] show ?thesis by simp
  qed
qed

lemma lines_of_nonempty [simp]: "lines_of t \<noteq> []"
  by (subst lines_of.simps) (simp add: Let_def)

lemma complete_lines_line:
  "nl \<notin> set l \<Longrightarrow> complete_lines (l @ nl # t) = chomp l # complete_lines t"
  by (simp add: complete_lines_def lines_of_line)

lemma complete_lines_rest: "nl \<notin> set l \<Longrightarrow> complete_lines l = []"
  by (simp add: complete_lines_def lines_of_rest)

lemma complete_lines_Nil [simp]: "complete_lines [] = []"
  by (simp add: complete_lines_rest)

lemma complete_line: "nl \<notin> set l \<Longrightarrow> complete (l @ nl # t) \<longleftrightarrow> complete t"
  by (simp add: complete_def)

lemma complete_rest: "nl \<notin> set l \<Longrightarrow> complete l \<longleftrightarrow> l = []"
  using last_in_set by (fastforce simp: complete_def)

lemma complete_lines_append:
  "complete a \<Longrightarrow> complete_lines (a @ b) = complete_lines a @ complete_lines b"
  by (induction a rule: line_induct) (simp_all add: complete_lines_line complete_rest complete_line)

lemma complete_append: "complete a \<Longrightarrow> complete b \<Longrightarrow> complete (a @ b)"
  by (cases "b = []") (auto simp: complete_def)

lemma last_line: "complete t \<Longrightarrow> last (lines_of t) = []"
  by (induction t rule: line_induct) (simp_all add: lines_of_line lines_of_rest complete_line complete_rest)

lemma last_lines_of_append: "complete a \<Longrightarrow> nl \<notin> set torn \<Longrightarrow> last (lines_of (a @ torn)) = torn"
  by (induction a rule: line_induct) (simp_all add: lines_of_line lines_of_rest complete_line complete_rest)

lemma split_lines_complete: "split_lines t = complete_lines t @ [last (lines_of t)]"
  by (simp add: split_lines_def complete_lines_def Let_def)

text \<open>The entries of some lines; \<open>None\<close> when a line is not one.\<close>

fun entries_of :: "text_env \<Rightarrow> string list \<Rightarrow> entry list option" where
  "entries_of te [] = Some []"
| "entries_of te (l # ls) =
     (if trim l = [] then entries_of te ls
      else case read_line te l of
             Inl _ \<Rightarrow> None | Inr e \<Rightarrow> map_option (Cons e) (entries_of te ls))"

lemma entries_of_append:
  "entries_of te (xs @ ys) =
     Option.bind (entries_of te xs) (\<lambda>es. map_option (\<lambda>fs. es @ fs) (entries_of te ys))"
proof (induction xs)
  case (Cons l xs)
  then show ?case
    by (cases "entries_of te xs"; cases "entries_of te ys") (auto split: sum.split)
qed (cases "entries_of te ys", simp_all)

definition to_option :: "'e + 'a \<Rightarrow> 'a option" where
  "to_option r = (case r of Inl _ \<Rightarrow> None | Inr x \<Rightarrow> Some x)"

lemma to_option_simps [simp]:
  "to_option (Inl m) = None" "to_option (Inr x) = Some x"
  "to_option (map_sum f g r) = map_option g (to_option r)"
  "to_option r = Some x \<longleftrightarrow> r = Inr x"
  by (simp_all add: to_option_def split: sum.split)

lemma trim_Nil [simp]: "trim [] = []"
  by (simp add: trim_def)

lemma read_journal_lines_entries:
  "last ls = [] \<or> \<not> terminated \<Longrightarrow> ls \<noteq> [] \<Longrightarrow>
   to_option (read_journal_lines te terminated n ls) = entries_of te (butlast ls)"
  by (induction ls arbitrary: n) (auto split: sum.split)

text \<open>What the whole file reads as depends on its terminated lines alone.\<close>

lemma readJournal_entries: "to_option (readJournal te (Some t)) = entries_of te (complete_lines t)"
proof -
  have "last (split_lines t) = [] \<or> \<not> ends_line t"
    using last_line [of t] by (auto simp: split_lines_complete ends_line_def complete_def)
  then have "to_option (readJournal te (Some t)) = entries_of te (butlast (split_lines t))"
    by (simp add: readJournal_def read_journal_lines_entries split_lines_complete)
  then show ?thesis by (simp add: split_lines_complete)
qed

lemma readJournal_iff: "readJournal te (Some t) = Inr es \<longleftrightarrow> entries_of te (complete_lines t) = Some es"
  unfolding readJournal_entries [symmetric] by simp

section \<open>What an append writes\<close>

lemma quotes_no_newline [simp]: "byte 92 \<noteq> nl" "nl \<noteq> byte 92" "byte 34 \<noteq> nl" "nl \<noteq> byte 34"
  by (simp_all add: byte_def char_of_def)

lemma json_char_no_newline: "nl \<notin> set (json_char c)"
proof -
  have "set (json_char c) \<subseteq> {byte 92, c} \<union> set ''btnfru00'' \<union> set ''0123456789abcdef''"
  proof -
    have "hex_digit n \<in> set ''0123456789abcdef''" for n
      unfolding hex_digit_def by (rule nth_mem) simp
    then show ?thesis by (auto simp: json_char_def Let_def)
  qed
  moreover have "c = nl \<Longrightarrow> ?thesis"
    by (simp add: json_char_def Let_def)
  ultimately show ?thesis by auto
qed

lemma json_string_no_newline: "nl \<notin> set (json_string s)"
  using json_char_no_newline by (auto simp: json_string_def)

lemma join_with_set: "set (join_with sep xs) \<subseteq> set sep \<union> \<Union> (set ` set xs)"
  by (induction sep xs rule: join_with.induct) auto

lemma stringify_no_newline:
  assumes "\<And>q. nl \<notin> set (num q)"
  shows "nl \<notin> set (stringify num v)"
proof (induction v)
  case (J_arr xs)
  then show ?case using join_with_set [of "'',''" "map (stringify num) xs"] by auto
next
  case (J_obj ps)
  then show ?case
    using join_with_set [of "'',''" "map (\<lambda>p. json_string (fst p) @ '':'' @ stringify num (snd p)) ps"]
      json_string_no_newline
    by fastforce
qed (use assms json_string_no_newline in auto)

text \<open>What \<open>JSON.parse\<close> and \<open>JSON.stringify\<close> promise of one entry.\<close>

definition prints_back :: "text_env \<Rightarrow> entry \<Rightarrow> bool" where
  "prints_back te e \<longleftrightarrow> (\<forall>q. nl \<notin> set (te_num te q)) \<and>
     te_parse te (stringify (te_num te) (J_obj e)) = Inr (J_obj e)"

abbreviation printed :: "text_env \<Rightarrow> entry \<Rightarrow> string" where
  "printed te e \<equiv> stringify (te_num te) (J_obj e)"

lemma last_printed: "last (printed te e) = CHR ''}''" "hd (printed te e) = CHR ''{''"
  by simp_all

lemma chomp_printed [simp]: "chomp (a @ printed te e) = a @ printed te e"
  by (simp add: chomp_def)

lemma trim_eq_Nil: "trim s = [] \<longleftrightarrow> list_all is_space s"
proof -
  have "(\<forall>x \<in> set (dropWhile is_space s). is_space x) \<longleftrightarrow> (\<forall>x \<in> set s. is_space x)"
    by (metis dropWhile_eq_Nil_conv hd_dropWhile hd_in_set empty_iff list.set(1))
  then show ?thesis by (simp add: trim_def list_all_iff)
qed

lemma trim_printed [simp]: "trim (a @ printed te e) \<noteq> []"
  by (simp add: trim_eq_Nil is_space_def)

lemma printed_no_newline: "prints_back te e \<Longrightarrow> nl \<notin> set (printed te e)"
  using stringify_no_newline [of "te_num te" "J_obj e"] by (auto simp: prints_back_def)

lemma complete_lines_printed:
  assumes "prints_back te e"
  shows "complete_lines (printed te e @ newline) = [printed te e]" "complete (printed te e @ newline)"
  using complete_lines_line [OF printed_no_newline [OF assms], of "[]"] chomp_printed [of "[]" te e]
  by (simp_all add: newline_def complete_def del: stringify.simps)

text \<open>Entries a legacy field was never allowed in are read as they are.\<close>

lemma type_of_SomeD: "type_of e = Some t \<Longrightarrow> map_of e ''type'' = Some (J_str t) \<and> t \<in> set JOURNAL_TYPES"
  by (auto simp: type_of_def split: option.splits json.splits if_splits)

lemma legacy_untouched:
  "''weightedUsed'' \<notin> fst ` set e \<Longrightarrow> ''weightedCap'' \<notin> fst ` set e \<Longrightarrow>
   fold AList.delete LEGACY_LIVENESS_FIELDS e = e"
proof -
  assume "''weightedUsed'' \<notin> fst ` set e" "''weightedCap'' \<notin> fst ` set e"
  then have "AList.delete ''weightedUsed'' e = e" "AList.delete ''weightedCap'' e = e"
    by (force simp: AList.delete_eq filter_id_conv)+
  then show ?thesis by (simp add: LEGACY_LIVENESS_FIELDS_def)
qed

lemma liveness_fields:
  assumes "validateJournalEntry te (J_obj e) = None" and "map_of e ''type'' = Some (J_str ''liveness'')"
  shows "''weightedUsed'' \<notin> fst ` set e" and "''weightedCap'' \<notin> fst ` set e"
proof -
  obtain t where "type_of e = Some t"
    using assms(1) by (auto simp: validateJournalEntry_def split: option.splits)
  then have "type_of e = Some ''liveness''" using assms(2) type_of_SomeD by fastforce
  with assms(1) have "\<forall>k \<in> fst ` set e. k \<in> set (nullish (map_of ENTRY_SHAPES ''liveness'') [])"
    by (auto simp: validateJournalEntry_def find_None_iff split: option.splits)
  then show "''weightedUsed'' \<notin> fst ` set e" and "''weightedCap'' \<notin> fst ` set e"
    by (fastforce simp: ENTRY_SHAPES_def)+
qed

lemma no_legacy_fields:
  "validateJournalEntry te (J_obj e) = None \<Longrightarrow> map_of e ''type'' = Some (J_str ''liveness'') \<Longrightarrow>
   fold AList.delete LEGACY_LIVENESS_FIELDS e = e"
  using liveness_fields legacy_untouched by blast

lemma read_printed:
  assumes "prints_back te e" and "validateJournalEntry te (J_obj e) = None"
  shows "read_line te (printed te e) = Inr e"
  using assms no_legacy_fields [OF assms(2)]
  by (simp add: read_line_def prints_back_def withoutLegacyLivenessFields_def del: stringify.simps)

text \<open>Normalising an entry keeps its fields, and the type it was accepted with.\<close>

lemma normalizeEntry_Cons:
  assumes "normalizeEntry ((k, v) # e0) = Inr e"
  obtains w e' where "e = (k, w) # e'" "normalizeEntry e0 = Inr e'"
    "k \<noteq> ''text'' \<longrightarrow> w = (case v of J_str s \<Rightarrow> J_str (collapseLines s) | _ \<Rightarrow> v)"
proof -
  let ?w = "case v of
      J_str s \<Rightarrow>
        if k = ''text'' then map_sum id J_str (normalizeText s ''entry.text'' JOURNAL_TEXT_BYTES)
        else Inr (J_str (collapseLines s))
    | _ \<Rightarrow> Inr v"
  obtain w where w: "?w = Inr w" using assms by (cases ?w) simp_all
  with assms obtain e' where "normalizeEntry e0 = Inr e'" "e = (k, w) # e'"
    by (cases "normalizeEntry e0") simp_all
  moreover have "k \<noteq> ''text'' \<longrightarrow> w = (case v of J_str s \<Rightarrow> J_str (collapseLines s) | _ \<Rightarrow> v)"
    using w by (cases v) auto
  ultimately show thesis using that by blast
qed

lemma normalizeEntry_keys: "normalizeEntry e0 = Inr e \<Longrightarrow> map fst e = map fst e0"
proof (induction e0 arbitrary: e)
  case (Cons p e0)
  obtain l v where p: "p = (l, v)" by (cases p)
  from Cons.prems [unfolded p] obtain w e' where "e = (l, w) # e'" "normalizeEntry e0 = Inr e'"
    by (rule normalizeEntry_Cons)
  with Cons.IH p show ?case by simp
qed simp

lemma normalizeEntry_map_of:
  "normalizeEntry e0 = Inr e \<Longrightarrow> k \<noteq> ''text'' \<Longrightarrow>
   map_of e k = map_option (\<lambda>v. case v of J_str s \<Rightarrow> J_str (collapseLines s) | _ \<Rightarrow> v) (map_of e0 k)"
proof (induction e0 arbitrary: e)
  case (Cons p e0)
  obtain l v where p: "p = (l, v)" by (cases p)
  from Cons.prems(1) [unfolded p] obtain w e' where e: "e = (l, w) # e'" "normalizeEntry e0 = Inr e'"
      "l \<noteq> ''text'' \<longrightarrow> w = (case v of J_str s \<Rightarrow> J_str (collapseLines s) | _ \<Rightarrow> v)"
    by (rule normalizeEntry_Cons)
  show ?case
  proof (cases "k = l")
    case True
    with e p Cons.prems(2) show ?thesis by simp
  next
    case False
    with e(1) p Cons.IH [OF e(2) Cons.prems(2)] show ?thesis by simp
  qed
qed simp

lemma collapsed_type: "t \<in> set JOURNAL_TYPES \<Longrightarrow> collapseLines t = t"
proof -
  have "list_all (\<lambda>t. collapseLines t = t) JOURNAL_TYPES"
    by (simp add: JOURNAL_TYPES_def collapseLines_def trim_def is_space_def is_control_def)
  then show "t \<in> set JOURNAL_TYPES \<Longrightarrow> ?thesis" by (simp add: list_all_iff)
qed

lemma read_normalized:
  assumes "prints_back te e" and "validateJournalEntry te (J_obj e0) = None" and "normalizeEntry e0 = Inr e"
  shows "read_line te (printed te e) =
    (case validateJournalEntry te (J_obj e) of Some m \<Rightarrow> Inl m | None \<Rightarrow> Inr e)"
proof -
  have "fold AList.delete LEGACY_LIVENESS_FIELDS e = e" if "map_of e ''type'' = Some (J_str ''liveness'')"
  proof -
    obtain t where "type_of e0 = Some t"
      using assms(2) by (auto simp: validateJournalEntry_def split: option.splits)
    then have t: "map_of e0 ''type'' = Some (J_str t)" "t \<in> set JOURNAL_TYPES"
      using type_of_SomeD by auto
    then have "map_of e0 ''type'' = Some (J_str ''liveness'')"
      using normalizeEntry_map_of [OF assms(3), of "''type''"] that by (simp add: collapsed_type)
    moreover have "fst ` set e = fst ` set e0"
      using normalizeEntry_keys [OF assms(3)] by (metis list.set_map)
    ultimately show ?thesis using legacy_untouched [of e] liveness_fields [OF assms(2)] by metis
  qed
  then have "withoutLegacyLivenessFields (J_obj e) = Inr (J_obj e)"
    by (simp add: withoutLegacyLivenessFields_def)
  with assms(1) show ?thesis
    by (simp add: read_line_def prints_back_def del: stringify.simps split: option.split)
qed

section \<open>An append, once\<close>

lemma readJournal_nullish:
  "readJournal te j = Inr es \<longleftrightarrow> entries_of te (complete_lines (nullish j [])) = Some es"
proof (cases j)
  case None
  then show ?thesis by (auto simp: readJournal_def)
qed (simp add: readJournal_iff)

lemma read_line_parsed:
  "read_line te l = Inr e \<Longrightarrow>
   \<exists>v. te_parse te l = Inr v \<and> v \<noteq> J_null \<and> field_of v ''eventId'' = map_of e ''eventId''"
  by (cases "te_parse te l")
    (auto simp: read_line_def withoutLegacyLivenessFields_def LEGACY_LIVENESS_FIELDS_def
      validateJournalEntry_def delete_conv' split: json.splits option.splits if_splits)

lemma dedupe_lines:
  "entries_of te ls = Some es \<Longrightarrow>
   if i \<in> set (map (\<lambda>e. map_of e ''eventId'') es)
   then \<exists>v. find_event i (parsed_lines te (ls @ rest)) = Inr (Some v)
   else find_event i (parsed_lines te (ls @ rest)) = find_event i (parsed_lines te rest)"
proof (induction ls arbitrary: es)
  case (Cons l ls)
  show ?case
  proof (cases "trim l = []")
    case True
    with Cons show ?thesis by simp
  next
    case False
    with Cons.prems obtain e fs where e: "read_line te l = Inr e" "entries_of te ls = Some fs" "es = e # fs"
      by (auto split: sum.splits)
    from Cons.IH [OF e(2)] read_line_parsed [OF e(1)] False e(3) show ?thesis
      by (auto split: if_splits)
  qed
qed simp

lemma dedupe_complete:
  assumes "complete (nullish j [])" and "readJournal te j = Inr es"
  shows "if i \<in> set (map (\<lambda>e. map_of e ''eventId'') es)
    then \<exists>v. find_event i (readJournalForDedupe te j) = Inr (Some v)
    else find_event i (readJournalForDedupe te j) = Inr None"
proof (cases j)
  case None
  with assms(2) show ?thesis by (simp add: readJournal_def readJournalForDedupe_def)
next
  case (Some t)
  with assms dedupe_lines [of te "complete_lines t" es i "[[]]"] last_line [of t]
  show ?thesis by (simp add: readJournal_iff readJournalForDedupe_def split_lines_complete)
qed

lemma validated_object:
  assumes "validateJournalEntry te v = None"
  obtains e where "v = J_obj e"
  using assms by (cases v) (simp_all add: validateJournalEntry_def)

lemma appendJournal_written:
  assumes "appendJournal te v j = (Inr ap, j')" and "\<not> ap_deduplicated ap"
  obtains e0 e where "v = J_obj e0" "validateJournalEntry te v = None" "normalizeEntry e0 = Inr e"
    "ap_entry ap = J_obj e" "find_event (map_of e ''eventId'') (readJournalForDedupe te j) = Inr None"
    "j' = Some (nullish j [] @ printed te e @ newline)"
proof -
  have ok: "validateJournalEntry te v = None"
    using assms(1) by (cases "validateJournalEntry te v") (simp_all add: appendJournal_def)
  then obtain e0 where v: "v = J_obj e0" by (rule validated_object)
  with assms(1) ok obtain e where e: "normalizeEntry e0 = Inr e"
    by (cases "normalizeEntry e0") (simp_all add: appendJournal_def)
  have found: "find_event (map_of e ''eventId'') (readJournalForDedupe te j) = Inr None"
    using assms v ok e
    by (cases "find_event (map_of e ''eventId'') (readJournalForDedupe te j)")
      (auto simp: appendJournal_def split: option.splits)
  with assms(1) v ok e have "ap_entry ap = J_obj e" "j' = Some (nullish j [] @ printed te e @ newline)"
    by (auto simp: appendJournal_def simp del: stringify.simps)
  then show thesis using that [OF v ok e _ found] by blast
qed

lemma find_event_last:
  "find_event i vs = Inr None \<Longrightarrow> v \<noteq> J_null \<Longrightarrow> field_of v ''eventId'' = i \<Longrightarrow>
   find_event i (vs @ v # ws) = Inr (Some v)"
  by (induction vs) (auto split: if_splits)

lemma parsed_lines_append: "parsed_lines te (xs @ ys) = parsed_lines te xs @ parsed_lines te ys"
  by (induction xs) (auto split: sum.split)

lemma entries_of_bad:
  "l \<in> set ls \<Longrightarrow> trim l \<noteq> [] \<Longrightarrow> read_line te l = Inl m \<Longrightarrow> entries_of te ls = None"
  by (induction ls) (auto split: sum.split)

text \<open>A line that is no entry, once terminated, keeps the whole journal from being read.\<close>

lemma ruined:
  assumes "complete a" and "nl \<notin> set l" and "chomp l = l" and "trim l \<noteq> []" and "read_line te l = Inl m"
  shows "\<exists>error. readJournal te (Some ((a @ l @ newline) @ later)) = Inl error"
proof -
  have "complete_lines (a @ l @ nl # later) = complete_lines a @ l # complete_lines later"
    using complete_lines_append [OF assms(1)] complete_lines_line [OF assms(2)] assms(3) by simp
  then have "entries_of te (complete_lines ((a @ l @ newline) @ later)) = None"
    using entries_of_bad [OF _ assms(4,5)] by (simp add: newline_def)
  then show ?thesis by (metis readJournal_iff option.distinct(1) sum.exhaust_sel isl_def)
qed

text \<open>
  C23. To a journal whose last line is complete and which reads, an append that reports a new entry
  writes it under an id none of the entries had, and asking again for the same append writes nothing
  and returns the entry. When the entry as it is written (every text collapsed to one line) is still a
  valid entry, exactly it is added to what is read and the last line is complete again. When it is not
  - an id made of control characters, say, passes the check before it is collapsed to nothing - the
  append was accepted all the same, and from then on the journal cannot be read, whatever is appended
  later. Assumed of \<open>JSON\<close>: the entry's text is parsed back as the entry, and numbers print without a
  newline.
\<close>

theorem append_adds_one_entry:
  assumes "complete (nullish j [])" and "readJournal te j = Inr es"
    and "appendJournal te v j = (Inr ap, j')" and "\<not> ap_deduplicated ap"
    and "ap_entry ap = J_obj e" and "prints_back te e"
  shows "(if validateJournalEntry te (J_obj e) = None
       then readJournal te j' = Inr (es @ [e]) \<and> complete (nullish j' [])
       else \<forall>later. \<exists>error. readJournal te (Some (nullish j' [] @ later)) = Inl error) \<and>
    map_of e ''eventId'' \<notin> set (map (\<lambda>e. map_of e ''eventId'') es) \<and>
    appendJournal te v j' = (Inr \<lparr>ap_entry = J_obj e, ap_deduplicated = True\<rparr>, j')"
proof -
  obtain e0 where e0: "v = J_obj e0" "validateJournalEntry te v = None" "normalizeEntry e0 = Inr e"
      "find_event (map_of e ''eventId'') (readJournalForDedupe te j) = Inr None"
      "j' = Some (nullish j [] @ printed te e @ newline)"
    using appendJournal_written [OF assms(3,4)] assms(5) by (metis json.inject(5))
  note shown = read_normalized [OF assms(6) _ e0(3)]
  have lines: "complete_lines (nullish j' []) = complete_lines (nullish j []) @ [printed te e]"
    using complete_lines_append [OF assms(1)] complete_lines_printed(1) [OF assms(6)] e0(5) by simp
  have compl: "complete (nullish j' [])"
    using complete_append [OF assms(1) complete_lines_printed(2) [OF assms(6)]] e0(5) by simp
  have es: "entries_of te (complete_lines (nullish j [])) = Some es"
    using assms(2) by (simp add: readJournal_nullish)
  have new: "map_of e ''eventId'' \<notin> set (map (\<lambda>e. map_of e ''eventId'') es)"
    using dedupe_complete [OF assms(1,2), of "map_of e ''eventId''"] e0(4) by (auto split: if_splits)
  have added: "readJournal te j' = Inr (es @ [e])" if "validateJournalEntry te (J_obj e) = None"
    using es shown e0(1,2) that trim_printed [of "[]" te e]
    by (simp add: readJournal_nullish lines entries_of_append del: stringify.simps)
  have lost: "\<exists>error. readJournal te (Some (nullish j' [] @ later)) = Inl error"
    if "validateJournalEntry te (J_obj e) = Some m" for m later
    using ruined [OF assms(1) printed_no_newline [OF assms(6)] _ _ shown [unfolded that option.case]]
      chomp_printed [of "[]" te e] trim_printed [of "[]" te e] e0(1,2,5)
    by (simp del: stringify.simps)
  have "find_event (map_of e ''eventId'') (parsed_lines te (complete_lines (nullish j []))) = Inr None"
    using dedupe_lines [OF es, of "map_of e ''eventId''" "[]"] new by simp
  from find_event_last [OF this, of "J_obj e" "[]"]
  have "find_event (map_of e ''eventId'') (readJournalForDedupe te j') = Inr (Some (J_obj e))"
    using lines last_line [OF compl] e0(5) assms(6) trim_printed [of "[]" te e]
    by (simp add: readJournalForDedupe_def split_lines_complete parsed_lines_append prints_back_def
        del: stringify.simps)
  then show ?thesis using added lost new compl e0 by (auto simp: appendJournal_def)
qed

section \<open>A torn line\<close>

text \<open>
  C24. A write interrupted before its newline leaves an unterminated text behind the last complete
  line; \<open>readJournal\<close> goes on returning the entries before it. What the next append of a valid entry
  under a new id does depends on what \<open>readJournalForDedupe\<close> makes of that text, which it does not
  skip. If the text is no entry of that id (it does not parse, or it has another id), the entry is
  reported as written but is glued to the text: when the two together are not \<open>JSON\<close>, which is the
  hypothesis on \<open>te_parse\<close>, the entry is lost and the journal cannot be read any more, whatever is
  appended later. If the text is an entry of that id which lost only its newline, the append reports
  it as already there and writes nothing, though no reader shows it. If the text is \<open>null\<close>, the append
  throws. As in C23, an entry's own text is parsed back as the entry, and numbers print without a newline.
\<close>

theorem torn_append_ruins_the_journal:
  assumes "complete a" and "nl \<notin> set torn" and "readJournal te (Some a) = Inr es"
    and "validateJournalEntry te (J_obj e0) = None" and "normalizeEntry e0 = Inr e"
    and "map_of e ''eventId'' \<notin> set (map (\<lambda>e. map_of e ''eventId'') es)"
    and "prints_back te e" and "te_parse te (torn @ printed te e) = Inl m"
  shows "readJournal te (Some (a @ torn)) = Inr es \<and>
    (case find_event (map_of e ''eventId'') (parsed_lines te [torn]) of
       Inr None \<Rightarrow>
         appendJournal te (J_obj e0) (Some (a @ torn)) =
           (Inr \<lparr>ap_entry = J_obj e, ap_deduplicated = False\<rparr>, Some (a @ torn @ printed te e @ newline)) \<and>
         (\<forall>later. \<exists>error. readJournal te (Some ((a @ torn @ printed te e @ newline) @ later)) = Inl error)
     | Inr (Some x) \<Rightarrow>
         appendJournal te (J_obj e0) (Some (a @ torn)) =
           (Inr \<lparr>ap_entry = x, ap_deduplicated = True\<rparr>, Some (a @ torn))
     | Inl error \<Rightarrow> appendJournal te (J_obj e0) (Some (a @ torn)) = (Inl error, Some (a @ torn)))"
proof -
  have es: "entries_of te (complete_lines a) = Some es" using assms(3) by (simp add: readJournal_iff)
  have lines: "complete_lines (a @ torn) = complete_lines a" "last (lines_of (a @ torn)) = torn"
    using complete_lines_append [OF assms(1), of torn] complete_lines_rest [OF assms(2)]
      last_lines_of_append [OF assms(1,2)] by simp_all
  have shown: "readJournal te (Some (a @ torn)) = Inr es" using es by (simp add: readJournal_iff lines)
  have found: "find_event (map_of e ''eventId'') (readJournalForDedupe te (Some (a @ torn))) =
      find_event (map_of e ''eventId'') (parsed_lines te [torn])"
    using dedupe_lines [OF es, of "map_of e ''eventId''" "[torn]"] assms(6)
    by (simp add: readJournalForDedupe_def split_lines_complete lines del: parsed_lines.simps)
  have "nl \<notin> set (torn @ printed te e)"
    using assms(2) printed_no_newline [OF assms(7)] by (simp del: stringify.simps)
  from ruined [OF assms(1) this chomp_printed trim_printed, of te m] assms(8)
  have "\<exists>error. readJournal te (Some ((a @ torn @ printed te e @ newline) @ later)) = Inl error" for later
    by (simp add: read_line_def del: stringify.simps)
  with shown found assms(4,5) show ?thesis
    by (simp add: appendJournal_def del: stringify.simps parsed_lines.simps split: sum.split option.split)
qed

section \<open>What a watcher is shown\<close>

definition narrative :: "entry list \<Rightarrow> entry list" where
  "narrative es = filter (\<lambda>e. map_of e ''type'' \<noteq> Some (J_str ''liveness'')) es"

lemma watch_entries_narrative:
  "readJournal te j = Inr es \<Longrightarrow> watch_entries te j = Inr (sort_key position_of (narrative es))"
  by (simp add: watch_entries_def narrative_def)

lemma read_line_valid: "read_line te l = Inr e \<Longrightarrow> validateJournalEntry te (J_obj e) = None"
proof -
  assume "read_line te l = Inr e"
  then obtain w where "validateJournalEntry te w = None" "e = (case w of J_obj e \<Rightarrow> e | _ \<Rightarrow> [])"
    by (auto simp: read_line_def split: sum.splits option.splits)
  then show ?thesis by (metis validated_object json.simps(41))
qed

lemma entries_of_valid:
  "entries_of te ls = Some es \<Longrightarrow> e \<in> set es \<Longrightarrow> validateJournalEntry te (J_obj e) = None"
proof (induction ls arbitrary: es)
  case (Cons l ls)
  from Cons read_line_valid show ?case by (auto split: if_splits sum.splits)
qed simp

lemma require_text_None: "require_text v label = None \<longleftrightarrow> (\<exists>s. v = Some (J_str s) \<and> trim s \<noteq> [])"
  by (auto simp: require_text_def split: option.split json.split)

lemma position_shown:
  assumes "readJournal te j = Inr es" and "e \<in> set es"
  shows "trim (fst (position_of e)) \<noteq> []" "snd (position_of e) \<noteq> []"
proof -
  have "validateJournalEntry te (J_obj e) = None"
    using assms entries_of_valid by (auto simp: readJournal_nullish)
  then have "requireTimestamp te (map_of e ''at'') ''entry.at'' = None"
    "require_text (map_of e ''eventId'') ''entry.eventId'' = None"
    by (auto simp: validateJournalEntry_def split: option.splits)
  then show "trim (fst (position_of e)) \<noteq> []" "snd (position_of e) \<noteq> []"
    by (auto simp: requireTimestamp_def require_text_None position_of_def text_field_def
        split: option.splits json.splits if_splits)
qed

lemma read_written_cursor:
  "trim (fst pos) \<noteq> [] \<Longrightarrow>
   readJournalCursor (writeJournalCursor i pos now cs) k =
     (if k = i then Inr pos else readJournalCursor cs k)"
  by (simp add: readJournalCursor_def writeJournalCursor_def update_conv' require_text_def)

text \<open>A durable watch, on a journal that reads and with a cursor that reads.\<close>

lemma watch_cursor:
  assumes "readJournal te j = Inr es" and "readJournalCursor cs i = Inr p" and "safe_identifier i"
    and "events = filter (\<lambda>e. position_of e > p) (sort_key position_of (narrative es))"
    and "q = (if events = [] then p else position_of (last events))"
  shows "watchJournal te j None (Some i) False now cs =
    (Inr \<lparr>wa_cursor = Some (i, q), wa_events = events\<rparr>,
     if events = [] then cs else writeJournalCursor i q now cs)"
  using assms(1-3) unfolding assms(4,5)
  by (simp add: watchJournal_def watch_entries_narrative Let_def)

lemma sorted_last_max:
  "sorted (map f xs) \<Longrightarrow> x \<in> set xs \<Longrightarrow> f x \<le> (f (last xs) :: 'b :: linorder)"
  by (induction xs) (auto split: if_splits)

lemma insort_key_append:
  "\<forall>y \<in> set ys. f x \<le> (f y :: 'b :: linorder) \<Longrightarrow>
   insort_key f x (xs @ ys) = insort_key f x xs @ ys"
  by (induction xs) (cases ys, auto)

lemma sort_key_later:
  "\<forall>x \<in> set xs. \<forall>y \<in> set ys. f x \<le> (f y :: 'b :: linorder) \<Longrightarrow>
   sort_key f (xs @ ys) = sort_key f xs @ sort_key f ys"
  by (induction xs) (auto simp: insort_key_append)

text \<open>
  C25. A durable watch misses nothing and repeats nothing: what it shows now, followed by what it
  shows when the journal has grown by entries of later positions, is every narrative entry beyond
  its first position, in order, each once.
\<close>

theorem watch_shows_each_entry_once:
  assumes "readJournal te j1 = Inr es" and "readJournal te j2 = Inr (es @ new)"
    and "readJournalCursor cs i = Inr p" and "safe_identifier i"
    and "\<forall>n \<in> set new. position_of n > p \<and> (\<forall>e \<in> set es. position_of n > position_of e)"
  shows "\<exists>w1 cs1 w2 cs2. watchJournal te j1 None (Some i) False now cs = (Inr w1, cs1) \<and>
    watchJournal te j2 None (Some i) False now' cs1 = (Inr w2, cs2) \<and>
    wa_events w1 @ wa_events w2 =
      filter (\<lambda>e. position_of e > p) (sort_key position_of (narrative (es @ new)))"
proof -
  let ?S = "sort_key position_of (narrative es)" and ?N = "sort_key position_of (narrative new)"
  define e1 where "e1 = filter (\<lambda>e. position_of e > p) ?S"
  define q where "q = (if e1 = [] then p else position_of (last e1))"
  define cs1 where "cs1 = (if e1 = [] then cs else writeJournalCursor i q now cs)"
  have w1: "watchJournal te j1 None (Some i) False now cs =
      (Inr \<lparr>wa_cursor = Some (i, q), wa_events = e1\<rparr>, cs1)"
    using watch_cursor [OF assms(1,3,4) e1_def q_def] by (simp add: cs1_def)
  have in_es: "e \<in> set es" if "e \<in> set e1" for e
    using that by (auto simp: e1_def narrative_def)
  have last: "last e1 \<in> set es" if "e1 \<noteq> []" using in_es [OF last_in_set [OF that]] .
  have cs1: "readJournalCursor cs1 i = Inr q"
    using assms(3) position_shown(1) [OF assms(1) last]
    by (auto simp: cs1_def q_def read_written_cursor)
  have all: "sort_key position_of (narrative (es @ new)) = ?S @ ?N"
    using assms(5) by (auto simp: narrative_def intro!: sort_key_later less_imp_le)
  have "sorted (map position_of e1)"
    unfolding e1_def by (rule sorted_filter [OF sorted_sort_key])
  note top = sorted_last_max [OF this]
  have "p \<le> q"
    using last_in_set [of e1] by (auto simp: q_def e1_def)
  then have below: "position_of e \<le> q" if "e \<in> set ?S" for e
  proof (cases "e \<in> set e1")
    case True
    with top [OF this] show ?thesis by (auto simp: q_def)
  next
    case False
    with that \<open>p \<le> q\<close> show ?thesis by (auto simp: e1_def not_less)
  qed
  have above: "q < position_of n \<and> p < position_of n" if "n \<in> set ?N" for n
    using that assms(5) last by (auto simp: narrative_def q_def)
  have "filter (\<lambda>e. position_of e > q) (?S @ ?N) = ?N"
    using below above by (auto simp: filter_empty_conv not_less filter_id_conv)
  moreover have "filter (\<lambda>e. position_of e > p) (?S @ ?N) = e1 @ ?N"
    using above by (auto simp: e1_def filter_id_conv)
  ultimately show ?thesis
    using w1 watch_cursor [OF assms(2) cs1 assms(4) refl refl, of now'] all
    by (metis watch_result.select_convs(2))
qed

section \<open>Positions only advance\<close>

inductive cursor_step :: "text_env \<Rightarrow> cursors \<Rightarrow> cursors \<Rightarrow> bool" for te where
  watch: "cursor_step te cs (snd (watchJournal te j since cursor readOnly now cs))"
| ack: "cursor_step te cs (snd (acknowledgeJournalEvent te j i eventId now cs))"

definition cursors_ok :: "cursors \<Rightarrow> bool" where
  "cursors_ok cs \<longleftrightarrow> (\<forall>i. \<exists>p. readJournalCursor cs i = Inr p \<and> (p = ([], []) \<or> snd p \<noteq> []))"

lemma empty_position_least: "([], []) \<le> (p :: position)"
  by (cases p) (simp add: less_eq_prod_def)

text \<open>An operation leaves the cursors, or moves one of them forward.\<close>

lemma watch_advances:
  assumes "cursors_ok cs"
  obtains "snd (watchJournal te j since cursor readOnly now cs) = cs"
  | i p pos where "snd (watchJournal te j since cursor readOnly now cs) = writeJournalCursor i pos now cs"
      "readJournalCursor cs i = Inr p" "p < pos" "trim (fst pos) \<noteq> []" "snd pos \<noteq> []"
proof (cases "snd (watchJournal te j since cursor readOnly now cs) = cs")
  case False
  then obtain i es p where c: "since = None" "cursor = Some i" "watch_entries te j = Inr es"
      "safe_identifier i" "readJournalCursor cs i = Inr p" "\<not> readOnly"
      "filter (\<lambda>e. position_of e > p) es \<noteq> []"
    by (auto simp: watchJournal_def Let_def split: if_splits sum.splits option.splits)
  let ?l = "last (filter (\<lambda>e. position_of e > p) es)"
  have w: "snd (watchJournal te j since cursor readOnly now cs) = writeJournalCursor i (position_of ?l) now cs"
    using c by (simp add: watchJournal_def Let_def)
  have "?l \<in> set (filter (\<lambda>e. position_of e > p) es)" using c(7) by (rule last_in_set)
  then have l: "p < position_of ?l" "?l \<in> set es" by simp_all
  obtain fs where fs: "readJournal te j = Inr fs"
    using c(3) by (cases "readJournal te j") (simp_all add: watch_entries_def)
  with c(3) l(2) have "?l \<in> set fs" by (auto simp: watch_entries_def)
  from position_shown [OF fs this] that(2) [OF w c(5) l(1)] show thesis by blast
qed (rule that(1))

lemma ack_advances:
  assumes "cursors_ok cs"
  obtains "snd (acknowledgeJournalEvent te j i eventId now cs) = cs"
  | p pos where "snd (acknowledgeJournalEvent te j i eventId now cs) = writeJournalCursor i pos now cs"
      "readJournalCursor cs i = Inr p" "p < pos" "trim (fst pos) \<noteq> []" "snd pos \<noteq> []"
proof (cases "snd (acknowledgeJournalEvent te j i eventId now cs) = cs")
  case False
  then obtain p es where c: "safe_identifier i" "trim eventId \<noteq> []" "readJournalCursor cs i = Inr p"
      "readJournal te j = Inr es"
    by (auto simp: acknowledgeJournalEvent_def split: if_splits sum.splits)
  have p: "p = ([], []) \<or> snd p \<noteq> []" using assms c(3) by (metis cursors_ok_def sum.inject(2))
  show thesis
  proof (cases "List.find (\<lambda>e. map_of e ''eventId'' = Some (J_str eventId)) es")
    case None
    with False c have False
      by (auto simp: acknowledgeJournalEvent_def Let_def split: if_splits)
    then show thesis ..
  next
    case (Some e)
    then have "e \<in> set es" by (auto dest: find_SomeD)
    from position_shown [OF c(4) this]
    have e: "trim (fst (position_of e)) \<noteq> []" "snd (position_of e) \<noteq> []" .
    have lt: "p < position_of e"
    proof (cases "snd p = []")
      case True
      with p have "p = ([], [])" by simp
      with empty_position_least [of "position_of e"] e(2) show ?thesis
        by (cases "position_of e") (auto simp: le_less)
    next
      case snd: False
      with False c Some show ?thesis
        by (auto simp: acknowledgeJournalEvent_def Let_def not_le split: if_splits)
    qed
    then have "snd (acknowledgeJournalEvent te j i eventId now cs) =
        writeJournalCursor i (position_of e) now cs"
      using c Some by (simp add: acknowledgeJournalEvent_def Let_def not_le [symmetric])
    from that(2) [OF this c(3) lt e] show thesis .
  qed
qed (rule that(1))

lemma cursor_step_advances:
  assumes "cursor_step te cs cs'" and "cursors_ok cs"
  shows "cursors_ok cs'"
    and "readJournalCursor cs i = Inr p \<Longrightarrow> \<exists>p'. readJournalCursor cs' i = Inr p' \<and> p \<le> p'"
proof -
  have "cs' = cs \<or> (\<exists>k now p pos. cs' = writeJournalCursor k pos now cs \<and>
      readJournalCursor cs k = Inr p \<and> p < pos \<and> trim (fst pos) \<noteq> [] \<and> snd pos \<noteq> [])"
    using assms(1)
  proof cases
    case (watch j since cursor readOnly now)
    then show ?thesis
      using watch_advances [OF assms(2), of te j since cursor readOnly now] by metis
  next
    case (ack j i eventId now)
    then show ?thesis
      using ack_advances [OF assms(2), of te j i eventId now] by metis
  qed
  then consider "cs' = cs"
    | k now p pos where "cs' = writeJournalCursor k pos now cs" "readJournalCursor cs k = Inr p" "p < pos"
        "trim (fst pos) \<noteq> []" "snd pos \<noteq> []"
    by blast
  then have "cursors_ok cs' \<and>
    (readJournalCursor cs i = Inr p \<longrightarrow> (\<exists>p'. readJournalCursor cs' i = Inr p' \<and> p \<le> p'))"
  proof cases
    case 1
    with assms(2) show ?thesis by blast
  next
    case (2 k now q pos)
    note w = read_written_cursor [OF 2(4), of k now cs]
    have "cursors_ok cs'"
      using assms(2) 2(1,5) w unfolding cursors_ok_def by metis
    moreover have "\<exists>p'. readJournalCursor cs' i = Inr p' \<and> p \<le> p'" if "readJournalCursor cs i = Inr p"
      using that 2(1-3) w [of i] by (cases "i = k") auto
    ultimately show ?thesis by blast
  qed
  then show "cursors_ok cs'"
    and "readJournalCursor cs i = Inr p \<Longrightarrow> \<exists>p'. readJournalCursor cs' i = Inr p' \<and> p \<le> p'"
    by blast+
qed

text \<open>
  Whatever watches and acknowledgements follow each other, on whatever state of the journal, the
  durable position of a watcher never moves back.
\<close>

theorem cursor_never_regresses:
  assumes "(cursor_step te)\<^sup>*\<^sup>* [] cs" and "(cursor_step te)\<^sup>*\<^sup>* cs cs'"
    and "readJournalCursor cs i = Inr p"
  shows "\<exists>p'. readJournalCursor cs' i = Inr p' \<and> p \<le> p'"
proof -
  have "cursors_ok []" by (simp add: cursors_ok_def readJournalCursor_def)
  with assms(1) have "cursors_ok cs"
    by (induction rule: rtranclp_induct) (auto intro: cursor_step_advances(1))
  from assms(2) this have "cursors_ok cs' \<and> (\<exists>p'. readJournalCursor cs' i = Inr p' \<and> p \<le> p')"
  proof (induction rule: rtranclp_induct)
    case base
    with assms(3) show ?case by blast
  next
    case (step a b)
    with cursor_step_advances [OF step(2)] show ?case by (meson order_trans)
  qed
  then show ?thesis by simp
qed

section \<open>A journal at work\<close>

definition sample_intent :: "string \<Rightarrow> string \<Rightarrow> entry" where
  "sample_intent i moment = [(''type'', J_str ''intent''), (''eventId'', J_str i), (''at'', J_str moment),
     (''sessionId'', J_str ''s''), (''text'', J_str ''go'')]"

text \<open>A parser that knows the two entries, in the text they are printed as.\<close>

definition sample_env :: text_env where
  "sample_env = \<lparr>te_parse = (\<lambda>t. case List.find (\<lambda>e. stringify (\<lambda>q. ''0'') (J_obj e) = t)
       [sample_intent ''e1'' ''2026-01'', sample_intent ''e2'' ''2026-02''] of
     Some e \<Rightarrow> Inr (J_obj e) | None \<Rightarrow> Inl ''Unexpected token''),
     te_num = (\<lambda>q. ''0''), te_date = (\<lambda>s. True)\<rparr>"

definition sample_journal :: string where
  "sample_journal = printed sample_env (sample_intent ''e1'' ''2026-01'') @ newline"

lemma sample_entries:
  "i \<in> {''e1'', ''e2''} \<Longrightarrow> moment \<in> {''2026-01'', ''2026-02''} \<Longrightarrow>
   validateJournalEntry sample_env (J_obj (sample_intent i moment)) = None"
  by (auto simp: sample_intent_def sample_env_def validateJournalEntry_def type_of_def JOURNAL_TYPES_def
      ENTRY_SHAPES_def requireTimestamp_def require_text_def SESSION_REQUIRED_TYPES_def
      validate_kind_def trim_def is_space_def)

lemma sample_prints:
  "prints_back sample_env (sample_intent ''e1'' ''2026-01'')"
  "prints_back sample_env (sample_intent ''e2'' ''2026-02'')"
  "te_parse sample_env (''{'' @ printed sample_env (sample_intent ''e2'' ''2026-02'')) =
     Inl ''Unexpected token''"
  by (simp_all add: prints_back_def sample_env_def sample_intent_def json_string_def json_char_def byte_def)

abbreviation first_entry :: entry where "first_entry \<equiv> sample_intent ''e1'' ''2026-01''"
abbreviation second_entry :: entry where "second_entry \<equiv> sample_intent ''e2'' ''2026-02''"

lemma sample_journal_reads:
  "complete sample_journal" "complete_lines sample_journal = [printed sample_env first_entry]"
  "readJournal sample_env (Some sample_journal) = Inr [first_entry]"
proof -
  show c: "complete sample_journal" "complete_lines sample_journal = [printed sample_env first_entry]"
    using complete_lines_printed [OF sample_prints(1)] by (simp_all add: sample_journal_def del: stringify.simps)
  show "readJournal sample_env (Some sample_journal) = Inr [first_entry]"
    using read_printed [OF sample_prints(1) sample_entries] trim_printed [of "[]" sample_env first_entry]
    by (simp add: readJournal_iff c del: stringify.simps)
qed

lemma sample_normal: "normalizeEntry second_entry = Inr second_entry"
  by (simp add: sample_intent_def normalizeText_def collapseLines_def trim_def is_space_def is_control_def
      Let_def JOURNAL_TEXT_BYTES_def)

lemma sample_append:
  assumes "parsed_lines sample_env [torn] = []" and "nl \<notin> set torn"
  shows "appendJournal sample_env (J_obj second_entry) (Some (sample_journal @ torn)) =
    (Inr \<lparr>ap_entry = J_obj second_entry, ap_deduplicated = False\<rparr>,
     Some (sample_journal @ torn @ printed sample_env second_entry @ newline))"
proof -
  have "lines_of (sample_journal @ torn) = [printed sample_env first_entry, torn]"
    using lines_of_line [OF printed_no_newline [OF sample_prints(1)]] lines_of_rest [OF assms(2)]
    by (simp add: sample_journal_def newline_def del: stringify.simps)
  then have "readJournalForDedupe sample_env (Some (sample_journal @ torn)) = [J_obj first_entry]"
    using assms(1) chomp_printed [of "[]" sample_env first_entry] trim_printed [of "[]" sample_env first_entry]
      sample_prints(1) parsed_lines_append [of sample_env "[printed sample_env first_entry]" "[torn]"]
    by (simp add: readJournalForDedupe_def split_lines_def prints_back_def Let_def
        del: stringify.simps parsed_lines.simps(2)) (simp add: prints_back_def del: stringify.simps)
  then show ?thesis
    using sample_normal sample_entries [of "''e2''" "''2026-02''"]
    by (simp add: appendJournal_def sample_intent_def del: stringify.simps normalizeEntry.simps)
qed

abbreviation grown :: string where
  "grown \<equiv> sample_journal @ printed sample_env second_entry @ newline"

lemma sample_grown_reads: "readJournal sample_env (Some grown) = Inr [first_entry, second_entry]"
  using read_printed [OF sample_prints(2) sample_entries] trim_printed [of "[]" sample_env second_entry]
    sample_journal_reads(3)
  by (simp add: readJournal_iff complete_lines_append [OF sample_journal_reads(1)]
      complete_lines_printed(1) [OF sample_prints(2)] entries_of_append del: stringify.simps)

theorem append_adds_one_entry_witness:
  "readJournal sample_env (Some grown) = Inr [first_entry, second_entry] \<and>
   appendJournal sample_env (J_obj second_entry) (Some grown) =
     (Inr \<lparr>ap_entry = J_obj second_entry, ap_deduplicated = True\<rparr>, Some grown)"
proof -
  have "appendJournal sample_env (J_obj second_entry) (Some sample_journal) =
    (Inr \<lparr>ap_entry = J_obj second_entry, ap_deduplicated = False\<rparr>, Some grown)"
    using sample_append [of "[]"] by (simp del: stringify.simps)
  from append_adds_one_entry [OF _ sample_journal_reads(3) this _ _ sample_prints(2)] sample_entries
  show ?thesis by (simp add: sample_journal_reads(1) del: stringify.simps)
qed

theorem torn_append_ruins_the_journal_witness:
  "readJournal sample_env (Some (sample_journal @ ''{'')) = Inr [first_entry] \<and>
   appendJournal sample_env (J_obj second_entry) (Some (sample_journal @ ''{'')) =
     (Inr \<lparr>ap_entry = J_obj second_entry, ap_deduplicated = False\<rparr>,
      Some (sample_journal @ ''{'' @ printed sample_env second_entry @ newline)) \<and>
   (\<exists>error. readJournal sample_env
      (Some (sample_journal @ ''{'' @ printed sample_env second_entry @ newline)) = Inl error)"
proof -
  have t: "parsed_lines sample_env [''{''] = []"
    by (simp add: sample_env_def sample_intent_def json_string_def trim_def is_space_def)
  have "map_of second_entry ''eventId'' \<notin> set (map (\<lambda>e. map_of e ''eventId'') [first_entry])"
    by (simp add: sample_intent_def)
  note torn = torn_append_ruins_the_journal [OF sample_journal_reads(1) _ sample_journal_reads(3)
      sample_entries sample_normal this sample_prints(2,3), unfolded t find_event.simps(1) sum.case option.case]
  from torn [THEN conjunct1] torn [THEN conjunct2, THEN conjunct1]
    torn [THEN conjunct2, THEN conjunct2, THEN spec, of "[]"] show ?thesis
    by (simp del: stringify.simps)
qed

theorem watch_shows_each_entry_once_witness:
  "\<exists>w1 cs1 w2 cs2. watchJournal sample_env (Some sample_journal) None (Some ''w'') False ''n'' [] = (Inr w1, cs1) \<and>
    watchJournal sample_env (Some grown) None (Some ''w'') False ''n'' cs1 = (Inr w2, cs2) \<and>
    wa_events w1 @ wa_events w2 = [first_entry, second_entry]"
proof -
  have pos: "position_of first_entry = (''2026-01'', ''e1'')" "position_of second_entry = (''2026-02'', ''e2'')"
    by (simp_all add: position_of_def text_field_def sample_intent_def)
  have "\<exists>w1 cs1 w2 cs2. watchJournal sample_env (Some sample_journal) None (Some ''w'') False ''n'' [] = (Inr w1, cs1) \<and>
    watchJournal sample_env (Some grown) None (Some ''w'') False ''n'' cs1 = (Inr w2, cs2) \<and>
    wa_events w1 @ wa_events w2 = filter (\<lambda>e. position_of e > ([], []))
      (sort_key position_of (narrative ([first_entry] @ [second_entry])))"
  proof (rule watch_shows_each_entry_once)
    show "readJournal sample_env (Some grown) = Inr ([first_entry] @ [second_entry])"
      using sample_grown_reads by (simp del: stringify.simps)
  qed (use sample_journal_reads(3) in \<open>simp_all add: readJournalCursor_def safe_identifier_def is_alnum_def
      is_word_char_def pos\<close>)
  moreover have "narrative ([first_entry] @ [second_entry]) = [first_entry, second_entry]"
    by (simp add: narrative_def sample_intent_def)
  then have "filter (\<lambda>e. position_of e > ([], []))
      (sort_key position_of (narrative ([first_entry] @ [second_entry]))) = [first_entry, second_entry]"
    by (simp add: pos del: append.simps)
  ultimately show ?thesis by (simp only:)
qed

definition sample_watched :: cursors where
  "sample_watched = snd (watchJournal sample_env (Some sample_journal) None (Some ''w'') False ''n'' [])"

theorem cursor_never_regresses_witness:
  "readJournalCursor sample_watched ''w'' = Inr (''2026-01'', ''e1'') \<and>
   (\<exists>p'. readJournalCursor (snd (acknowledgeJournalEvent sample_env (Some grown) ''w'' ''e2'' ''n''
      sample_watched)) ''w'' = Inr p' \<and> (''2026-01'', ''e1'') \<le> p')"
proof -
  have "position_of first_entry = (''2026-01'', ''e1'')" "narrative [first_entry] = [first_entry]"
    by (simp_all add: position_of_def text_field_def sample_intent_def narrative_def)
  then have "sample_watched = writeJournalCursor ''w'' (''2026-01'', ''e1'') ''n'' []"
    using watch_cursor [OF sample_journal_reads(3) _ _ refl refl, of "[]" "''w''" "([], [])" "''n''"]
    by (simp add: sample_watched_def readJournalCursor_def safe_identifier_def is_alnum_def is_word_char_def)
  moreover have "trim (fst (''2026-01'', ''e1'')) \<noteq> []"
    by (simp add: trim_def is_space_def)
  note read_written_cursor [OF this, of "''w''" "''n''" "[]" "''w''"]
  ultimately have at: "readJournalCursor sample_watched ''w'' = Inr (''2026-01'', ''e1'')"
    by (simp only: if_True refl)
  have "(cursor_step sample_env)\<^sup>*\<^sup>* [] sample_watched"
    unfolding sample_watched_def by (rule r_into_rtranclp [of "cursor_step sample_env", OF cursor_step.watch])
  from cursor_never_regresses [OF this r_into_rtranclp [of "cursor_step sample_env", OF cursor_step.ack] at] at
  show ?thesis by blast
qed

end
