(* ===== verification/Projection.thy ===== *)
theory Projection
  imports Journal
begin

text \<open>
  The journal folded into current state (\<open>src/campaign/projection.mjs\<close>): the fold and its caps, the
  stored projection that is brought up to date from the bytes the journal has grown by, and the
  scan for the last complete byte.

  The stored file is \<open>stored\<close>: absent or no JSON, JSON of another shape, or a record whose members
  have the types the code checks; its numbers are checked here.
\<close>

section \<open>The fold\<close>

definition PROJECTION_LIST_CAP :: nat where "PROJECTION_LIST_CAP = 60"
definition PROJECTION_ACTIVE_CAP :: nat where "PROJECTION_ACTIVE_CAP = 100"
definition JOURNAL_TAIL_BYTES :: nat where "JOURNAL_TAIL_BYTES = 4096"

record projection =
  pj_updatedAt :: "json option"
  pj_decisions :: "(string \<times> entry) list"
  pj_questions :: "(string \<times> entry) list"
  pj_constraints :: "entry list"
  pj_intents :: "entry list"
  pj_outcomes :: "entry list"
  pj_sessions :: "entry list"
  pj_next :: "entry option"
  pj_evicted :: "(string \<times> nat) list"

definition emptyProjection :: projection where
  "emptyProjection = \<lparr>pj_updatedAt = None, pj_decisions = [], pj_questions = [], pj_constraints = [],
     pj_intents = [], pj_outcomes = [], pj_sessions = [], pj_next = None, pj_evicted = []\<rparr>"

definition count_evicted :: "string \<Rightarrow> nat \<Rightarrow> (string \<times> nat) list \<Rightarrow> (string \<times> nat) list" where
  "count_evicted key n evicted = AList.update key (nullish (map_of evicted key) 0 + n) evicted"

definition pushCapped ::
    "entry list \<Rightarrow> entry \<Rightarrow> string \<Rightarrow> (string \<times> nat) list \<Rightarrow> entry list \<times> (string \<times> nat) list" where
  "pushCapped list entry key evicted =
     (let next = list @ [entry]
      in if length next > PROJECTION_LIST_CAP
         then (let dropped = length next - PROJECTION_LIST_CAP
               in (drop dropped next, count_evicted key dropped evicted))
         else (next, evicted))"

text \<open>\<open>keys.reduce\<close>: of two keys the left one stays when its entry is not later.\<close>

definition time_of :: "(string \<times> entry) list \<Rightarrow> string \<Rightarrow> string" where
  "time_of m k = text_field (nullish (map_of m k) []) ''at''"

definition oldest_key :: "(string \<times> entry) list \<Rightarrow> string" where
  "oldest_key m =
     (case map fst m of
        [] \<Rightarrow> []
      | k # ks \<Rightarrow> fold (\<lambda>right left. if time_of m left \<le> time_of m right then left else right) ks k)"

definition setCapped ::
    "(string \<times> entry) list \<Rightarrow> string \<Rightarrow> entry \<Rightarrow> (string \<times> nat) list \<Rightarrow> string \<Rightarrow>
     (string \<times> entry) list \<times> (string \<times> nat) list" where
  "setCapped m key entry evicted evictionKey =
     (let next = AList.update key entry m
      in if length next > PROJECTION_ACTIVE_CAP
         then (AList.delete (oldest_key next) next, count_evicted evictionKey 1 evicted)
         else (next, evicted))"

text \<open>The branches of the loop of \<open>foldEntries\<close>, in their order; keys are the validated texts.\<close>

definition fold_entry :: "entry \<Rightarrow> projection \<Rightarrow> projection" where
  "fold_entry e s =
     (let type = text_field e ''type''
      in if type = ''liveness'' then s
         else (let n = s\<lparr>pj_updatedAt := map_of e ''at''\<rparr>
               in if type = ''session.attached''
                  then (let (l, ev) = pushCapped (pj_sessions n) e ''sessions'' (pj_evicted n)
                        in n\<lparr>pj_sessions := l, pj_evicted := ev\<rparr>)
                  else if type = ''intent''
                  then (let (l, ev) = pushCapped (pj_intents n) e ''intents'' (pj_evicted n)
                        in n\<lparr>pj_intents := l, pj_evicted := ev\<rparr>)
                  else if type = ''decision'' \<and> map_of e ''decisionId'' \<noteq> None
                  then (let (m, ev) = setCapped (pj_decisions n) (text_field e ''decisionId'') e
                              (pj_evicted n) ''decisions''
                        in n\<lparr>pj_decisions := m, pj_evicted := ev\<rparr>)
                  else if type = ''supersede'' \<and> map_of e ''supersedes'' \<noteq> None
                  then n\<lparr>pj_decisions := AList.delete (text_field e ''supersedes'') (pj_decisions n)\<rparr>
                  else if type = ''constraint''
                  then (let (l, ev) = pushCapped (pj_constraints n) e ''constraints'' (pj_evicted n)
                        in n\<lparr>pj_constraints := l, pj_evicted := ev\<rparr>)
                  else if type = ''outcome'' \<or> type = ''retrospective''
                  then (let (l, ev) = pushCapped (pj_outcomes n) e ''outcomes'' (pj_evicted n)
                        in n\<lparr>pj_outcomes := l, pj_evicted := ev\<rparr>)
                  else if type = ''next'' then n\<lparr>pj_next := Some e\<rparr>
                  else if type = ''open-question'' \<and> map_of e ''questionId'' \<noteq> None
                  then (let (m, ev) = setCapped (pj_questions n) (text_field e ''questionId'') e
                              (pj_evicted n) ''questions''
                        in n\<lparr>pj_questions := m, pj_evicted := ev\<rparr>)
                  else if type = ''question.resolved'' \<and> map_of e ''questionId'' \<noteq> None
                  then n\<lparr>pj_questions := AList.delete (text_field e ''questionId'') (pj_questions n)\<rparr>
                  else n))"

definition foldEntries :: "projection \<Rightarrow> entry list \<Rightarrow> projection" where
  "foldEntries state es = fold fold_entry es state"

definition projectState :: "entry list \<Rightarrow> projection" where
  "projectState journal = foldEntries emptyProjection journal"

record decided =
  pd_id :: string
  pd_text :: string
  pd_at :: string
  pd_sessionId :: string

definition projectCampaignDecisions :: "projection \<Rightarrow> decided list" where
  "projectCampaignDecisions state =
     sort_key (\<lambda>d. (pd_at d, pd_id d))
       (map (\<lambda>e. \<lparr>pd_id = text_field e ''decisionId'', pd_text = text_field e ''text'',
                  pd_at = text_field e ''at'', pd_sessionId = text_field e ''sessionId''\<rparr>)
         (filter (\<lambda>e. map_of e ''type'' = Some (J_str ''decision'') \<and>
              (\<exists>s. map_of e ''decisionId'' = Some (J_str s))) (map snd (pj_decisions state))))"

section \<open>The stored projection\<close>

record projection_record =
  pw_cursor :: int
  pw_byte :: int
  pw_size :: int
  pw_projection :: projection

datatype stored = No_record | Other_shape | Stored projection_record

definition validProjectionRecord :: "stored \<Rightarrow> bool" where
  "validProjectionRecord st =
     (case st of
        Stored r \<Rightarrow> pw_cursor r \<ge> 0 \<and> pw_byte r \<ge> 0 \<and> pw_size r \<ge> 0 \<and> \<not> (pw_byte r = 0 \<and> pw_cursor r > 0)
      | _ \<Rightarrow> False)"

text \<open>The loop over the lines of the bytes read, with the offset of the rest in them.\<close>

function delta_lines :: "text_env \<Rightarrow> string \<Rightarrow> nat \<Rightarrow> string + entry list \<times> nat" where
  "delta_lines te buffer start =
     (let line = takeWhile (\<lambda>c. c \<noteq> CHR 0x0A) buffer; rest = dropWhile (\<lambda>c. c \<noteq> CHR 0x0A) buffer
      in if rest = [] then Inr ([], start)
         else (let go = delta_lines te (tl rest) (start + length line + 1)
               in if trim (chomp line) = [] then go
                  else case read_line te (chomp line) of
                         Inl m \<Rightarrow> Inl m
                       | Inr e \<Rightarrow> map_sum id (\<lambda>(es, n). (e # es, n)) go))"
  by pat_completeness auto
termination
proof (relation "measure (\<lambda>(te, buffer, start). length buffer)")
  fix buffer :: string and rest
  assume "rest = dropWhile (\<lambda>c. c \<noteq> CHR 0x0A) buffer" and "rest \<noteq> []"
  then have "length (tl rest) < length rest" "length rest \<le> length buffer"
    by (simp_all add: length_dropWhile_le)
  then show "((te, tl rest, n), te, buffer, start) \<in> measure (\<lambda>(te, buffer, start). length buffer)"
    for te :: text_env and n start :: nat
    by simp
qed simp

declare delta_lines.simps [simp del]

definition readJournalDelta :: "text_env \<Rightarrow> string option \<Rightarrow> nat \<Rightarrow> string + entry list \<times> nat" where
  "readJournalDelta te journal fromByte =
     (case journal of
        None \<Rightarrow> Inr ([], fromByte)
      | Some text' \<Rightarrow>
          if fromByte \<ge> length text' then Inr ([], fromByte)
          else map_sum id (\<lambda>(es, n). (es, fromByte + n)) (delta_lines te (drop fromByte text') 0))"

text \<open>The backward scan in windows; \<open>start\<close> is where the bytes in hand begin.\<close>

definition last_newline :: "string \<Rightarrow> nat option" where
  "last_newline buffer =
     (let tail = takeWhile (\<lambda>c. c \<noteq> CHR 0x0A) (rev buffer)
      in if length tail = length buffer then None else Some (length buffer - length tail - 1))"

function scan_back :: "string \<Rightarrow> nat \<Rightarrow> nat" where
  "scan_back text' start =
     (let buffer = drop start text'
      in if last buffer = CHR 0x0A then length text'
         else case last_newline buffer of
                Some n \<Rightarrow> start + n + 1
              | None \<Rightarrow> if start = 0 then 0 else scan_back text' (start - JOURNAL_TAIL_BYTES))"
  by pat_completeness auto
termination
  by (relation "measure snd") (auto simp: JOURNAL_TAIL_BYTES_def)

declare scan_back.simps [simp del]

definition completeJournalByte :: "string option \<Rightarrow> nat" where
  "completeJournalByte journal =
     (case journal of
        None \<Rightarrow> 0
      | Some text' \<Rightarrow>
          if text' = [] then 0 else scan_back text' (length text' - JOURNAL_TAIL_BYTES))"

record projected =
  pc_state :: projection
  pc_cursor :: int
  pc_byte :: int
  pc_size :: int
  pc_changed :: bool

definition reproject :: "text_env \<Rightarrow> string option \<Rightarrow> string + projected" where
  "reproject te journal =
     map_sum id (\<lambda>es. \<lparr>pc_state = projectState es, pc_cursor = int (length es),
         pc_byte = int (completeJournalByte journal),
         pc_size = int (length (nullish journal [])), pc_changed = True\<rparr>)
       (readJournal te journal)"

definition readProjectionState :: "text_env \<Rightarrow> stored \<Rightarrow> string option \<Rightarrow> string + projected" where
  "readProjectionState te st journal =
     (let journalSize = int (length (nullish journal []))
      in case st of
           Stored r \<Rightarrow>
             if validProjectionRecord st \<and> pw_size r \<le> journalSize
             then (case readJournalDelta te journal (nat (pw_byte r)) of
                 Inl _ \<Rightarrow> reproject te journal
               | Inr (es, nextByte) \<Rightarrow>
                   if es = []
                   then Inr \<lparr>pc_state = pw_projection r, pc_cursor = pw_cursor r, pc_byte = int nextByte,
                          pc_size = pw_size r, pc_changed = False\<rparr>
                   else Inr \<lparr>pc_state = foldEntries (pw_projection r) es,
                          pc_cursor = pw_cursor r + int (length es), pc_byte = int nextByte,
                          pc_size = journalSize, pc_changed = True\<rparr>)
             else reproject te journal
         | _ \<Rightarrow> reproject te journal)"

section \<open>The byte of the last complete line\<close>

definition complete_length :: "string \<Rightarrow> nat" where
  "complete_length t = length t - length (takeWhile (\<lambda>c. c \<noteq> nl) (rev t))"

lemma tail_of_rest: "nl \<notin> set t \<Longrightarrow> length (takeWhile (\<lambda>c. c \<noteq> nl) (rev t)) = length t"
proof -
  assume "nl \<notin> set t"
  then have "takeWhile (\<lambda>c. c \<noteq> nl) (rev t) = rev t"
    by (intro takeWhile_eq_all_conv [THEN iffD2]) auto
  then show ?thesis by (simp only: length_rev)
qed

lemma shorter_tail:
  assumes "nl \<in> set t"
  shows "length (takeWhile (\<lambda>c. c \<noteq> nl) (rev t)) < length t"
proof -
  from assms obtain ys zs where t: "rev t = ys @ nl # zs" "nl \<notin> set ys"
    by (metis set_rev split_list_first)
  then have "takeWhile (\<lambda>c. c \<noteq> nl) (rev t) = ys" by (auto simp: takeWhile_append)
  moreover have "length ys < length (rev t)" using t(1) by simp
  ultimately show ?thesis by simp
qed

lemma complete_length_rest: "nl \<notin> set t \<Longrightarrow> complete_length t = 0"
  by (simp add: complete_length_def tail_of_rest)

lemma complete_length_Nil [simp]: "complete_length [] = 0"
  by (simp add: complete_length_def)

lemma complete_length_line: "complete_length (l @ nl # t) = length l + 1 + complete_length t"
proof (cases "nl \<in> set t")
  case True
  have "takeWhile (\<lambda>c. c \<noteq> nl) (rev t @ nl # rev l) = takeWhile (\<lambda>c. c \<noteq> nl) (rev t)"
    using True by (auto intro: takeWhile_append1)
  moreover have "length (takeWhile (\<lambda>c. c \<noteq> nl) (rev t)) \<le> length t"
    using length_takeWhile_le [of "\<lambda>c. c \<noteq> nl" "rev t"] by simp
  ultimately show ?thesis by (simp add: complete_length_def)
next
  case False
  then have "takeWhile (\<lambda>c. c \<noteq> nl) (rev t @ nl # rev l) = rev t"
    by (subst takeWhile_append2) auto
  then have "complete_length (l @ nl # t) = length (l @ nl # t) - length t"
    unfolding complete_length_def by (simp only: rev_append rev.simps append_assoc append.simps length_rev)
  with False show ?thesis by (simp add: complete_length_rest)
qed

lemma delta_lines_entries:
  "to_option (delta_lines te buffer start) =
     map_option (\<lambda>es. (es, start + complete_length buffer)) (entries_of te (complete_lines buffer))"
proof (induction buffer arbitrary: start rule: line_induct)
  case (rest t)
  then have "dropWhile (\<lambda>c. c \<noteq> nl) t = []" by (auto simp: dropWhile_eq_Nil_conv)
  with rest show ?case by (simp add: delta_lines.simps complete_lines_rest complete_length_rest Let_def)
next
  case (line l t)
  have "takeWhile (\<lambda>c. c \<noteq> nl) (l @ nl # t) = l" "dropWhile (\<lambda>c. c \<noteq> nl) (l @ nl # t) = nl # t"
    using line(1) by (auto simp: takeWhile_append dropWhile_append)
  moreover note line(2) [of "start + length l + 1"]
  ultimately show ?case
    using line(1)
    by (subst delta_lines.simps)
      (auto simp: complete_lines_line complete_length_line Let_def option.map_comp comp_def add.assoc
        split: sum.split)
qed

lemma scan_back_complete:
  "start < length t \<Longrightarrow> scan_back t start = complete_length t"
proof (induction t start rule: scan_back.induct)
  case (1 t start)
  let ?b = "drop start t"
  have t: "rev t = rev ?b @ rev (take start t)" by (metis append_take_drop_id rev_append)
  show ?case
  proof (cases "last ?b = nl")
    case True
    with 1(2) have "rev t = nl # rev (butlast t)"
      by (metis append_butlast_last_id last_drop length_greater_0_conv list.size(3) not_less_zero rev_eq_Cons_iff rev_rev_ident)
    then have "takeWhile (\<lambda>c. c \<noteq> nl) (rev t) = []" by (simp only: takeWhile.simps) simp
    then have "complete_length t = length t" unfolding complete_length_def by (simp only: list.size diff_zero)
    with True show ?thesis by (simp add: scan_back.simps [of t start] Let_def)
  next
    case False
    show ?thesis
    proof (cases "nl \<in> set ?b")
      case True
      then have w: "takeWhile (\<lambda>c. c \<noteq> nl) (rev t) = takeWhile (\<lambda>c. c \<noteq> nl) (rev ?b)"
        unfolding t by (auto intro: takeWhile_append1)
      from 1(2) False w shorter_tail [OF True] show ?thesis
        by (simp add: scan_back.simps [of t start] last_newline_def complete_length_def Let_def)
    next
      case none: False
      then have "last_newline ?b = None"
        using tail_of_rest [of ?b] by (simp add: last_newline_def Let_def)
      with False none 1 show ?thesis
        by (auto simp: scan_back.simps [of t start] complete_length_rest)
    qed
  qed
qed

text \<open>However long the unterminated rest is, the windows find the end of the last complete line.\<close>

lemma completeJournalByte_eq: "completeJournalByte (Some t) = complete_length t"
  by (cases "t = []")
    (simp_all add: completeJournalByte_def scan_back_complete complete_length_def JOURNAL_TAIL_BYTES_def)

lemma complete_length_le: "complete_length t \<le> length t"
  by (simp add: complete_length_def)

lemma complete_length_append: "complete a \<Longrightarrow> complete_length (a @ b) = length a + complete_length b"
  by (induction a rule: line_induct) (simp_all add: complete_length_line complete_rest complete_line)

lemma complete_prefix:
  "complete (take (complete_length t) t)" "complete_lines (take (complete_length t) t) = complete_lines t"
  by (induction t rule: line_induct)
    (simp_all add: complete_length_line complete_length_rest complete_line complete_lines_line
      complete_lines_rest complete_def [of "[]"])

section \<open>Catching up is starting over\<close>

lemma foldEntries_append: "foldEntries (foldEntries s xs) ys = foldEntries s (xs @ ys)"
  by (simp add: foldEntries_def)

lemma projectState_append: "foldEntries (projectState xs) ys = projectState (xs @ ys)"
  by (simp add: projectState_def foldEntries_append)

text \<open>
  A record that some earlier state of the journal was folded into: its byte ends a complete line.
\<close>

definition checkpoint :: "text_env \<Rightarrow> string \<Rightarrow> projection_record \<Rightarrow> bool" where
  "checkpoint te t r \<longleftrightarrow> (\<exists>a b es. t = a @ b \<and> complete a \<and> entries_of te (complete_lines a) = Some es \<and>
     pw_byte r = int (length a) \<and> pw_cursor r = int (length es) \<and> pw_projection r = projectState es \<and>
     0 \<le> pw_size r \<and> pw_size r \<le> int (length t))"

definition record_of :: "projected \<Rightarrow> projection_record" where
  "record_of p = \<lparr>pw_cursor = pc_cursor p, pw_byte = pc_byte p, pw_size = pc_size p,
     pw_projection = pc_state p\<rparr>"

lemma checkpointI:
  assumes "entries_of te (complete_lines t) = Some es" and "pw_byte r = int (complete_length t)"
    and "pw_cursor r = int (length es)" and "pw_projection r = projectState es"
    and "0 \<le> pw_size r" and "pw_size r \<le> int (length t)"
  shows "checkpoint te t r"
proof -
  let ?a = "take (complete_length t) t"
  have "t = ?a @ drop (complete_length t) t" by simp
  moreover have "int (length ?a) = int (complete_length t)" using complete_length_le [of t] by simp
  ultimately show ?thesis
    unfolding checkpoint_def using assms complete_prefix [of t] by metis
qed

text \<open>
  C12. Bringing a stored projection up to date from the bytes the journal has grown by is folding the
  whole journal again: the same state, the same count of entries, the same byte, and again a valid
  checkpoint; and a journal that cannot be read is refused either way.
\<close>

theorem incremental_projection_is_full:
  assumes "checkpoint te t r"
  shows "case readJournal te (Some (t @ later)) of
      Inl m \<Rightarrow> readProjectionState te (Stored r) (Some (t @ later)) = Inl m
    | Inr es \<Rightarrow> \<exists>p. readProjectionState te (Stored r) (Some (t @ later)) = Inr p \<and>
        pc_state p = projectState es \<and> pc_cursor p = int (length es) \<and>
        pc_byte p = int (completeJournalByte (Some (t @ later))) \<and>
        checkpoint te (t @ later) (record_of p)"
proof -
  obtain a b es where c: "t = a @ b" "complete a" "entries_of te (complete_lines a) = Some es"
      "pw_byte r = int (length a)" "pw_cursor r = int (length es)" "pw_projection r = projectState es"
      "0 \<le> pw_size r" "pw_size r \<le> int (length t)"
    using assms by (auto simp: checkpoint_def)
  let ?u = "t @ later" and ?d = "b @ later"
  have valid: "validProjectionRecord (Stored r)"
    using c by (cases a) (auto simp: validProjectionRecord_def)
  have u: "?u = a @ ?d" using c(1) by simp
  have whole: "entries_of te (complete_lines ?u) =
      map_option (\<lambda>fs. es @ fs) (entries_of te (complete_lines ?d))"
    unfolding u using c(2,3) by (simp add: complete_lines_append entries_of_append)
  have delta: "to_option (readJournalDelta te (Some ?u) (length a)) =
      map_option (\<lambda>fs. (fs, length a + complete_length ?d)) (entries_of te (complete_lines ?d))"
  proof (cases "?d = []")
    case True
    then show ?thesis unfolding u by (simp add: readJournalDelta_def complete_length_rest)
  next
    case False
    then show ?thesis unfolding u
      by (simp add: readJournalDelta_def delta_lines_entries option.map_comp comp_def case_prod_beta)
  qed
  show ?thesis
  proof (cases "entries_of te (complete_lines ?d)")
    case None
    with whole obtain m where m: "readJournal te (Some ?u) = Inl m"
      by (metis readJournal_iff option.distinct(1) option.map(1) sum.exhaust)
    moreover from delta None obtain m' where "readJournalDelta te (Some ?u) (length a) = Inl m'"
      by (cases "readJournalDelta te (Some ?u) (length a)") auto
    ultimately show ?thesis
      by (simp add: readProjectionState_def c(4) reproject_def Let_def)
  next
    case (Some fs)
    with whole have j: "readJournal te (Some ?u) = Inr (es @ fs)" by (simp add: readJournal_iff)
    have n: "complete_length ?u = length a + complete_length ?d"
      unfolding u using c(2) by (rule complete_length_append)
    from delta Some have d: "readJournalDelta te (Some ?u) (length a) = Inr (fs, complete_length ?u)"
      by (simp add: n)
    define p where "p = (if fs = []
      then \<lparr>pc_state = pw_projection r, pc_cursor = pw_cursor r, pc_byte = int (complete_length ?u),
             pc_size = pw_size r, pc_changed = False\<rparr>
      else \<lparr>pc_state = foldEntries (pw_projection r) fs, pc_cursor = pw_cursor r + int (length fs),
             pc_byte = int (complete_length ?u), pc_size = int (length ?u), pc_changed = True\<rparr>)"
    have "readProjectionState te (Stored r) (Some ?u) = Inr p"
      using valid c(4,8) d by (simp add: readProjectionState_def p_def)
    moreover have "pc_state p = projectState (es @ fs)" "pc_cursor p = int (length (es @ fs))"
        "pc_byte p = int (complete_length ?u)" "0 \<le> pc_size p" "pc_size p \<le> int (length ?u)"
      using c(5-8) by (simp_all add: p_def projectState_append)
    moreover from this have "checkpoint te ?u (record_of p)"
      using j by (intro checkpointI [of te ?u "es @ fs"]) (simp_all add: record_of_def readJournal_iff)
    ultimately show ?thesis using j by (auto simp: completeJournalByte_eq)
  qed
qed

section \<open>What the lists keep\<close>

definition last_n :: "nat \<Rightarrow> 'a list \<Rightarrow> 'a list" where
  "last_n n xs = drop (length xs - n) xs"

definition of_types :: "string list \<Rightarrow> entry list \<Rightarrow> entry list" where
  "of_types ts es = filter (\<lambda>e. text_field e ''type'' \<in> set ts) es"

abbreviation evicted_count :: "(string \<times> nat) list \<Rightarrow> string \<Rightarrow> nat" where
  "evicted_count ev key \<equiv> nullish (map_of ev key) 0"

lemma evicted_count_count [simp]:
  "evicted_count (count_evicted key n ev) k = evicted_count ev k + (if k = key then n else 0)"
  by (simp add: count_evicted_def update_conv')

lemma pushed_other [simp]: "k \<noteq> key \<Longrightarrow> evicted_count (snd (pushCapped l e key ev)) k = evicted_count ev k"
  by (simp add: pushCapped_def Let_def)

lemma set_other [simp]: "k \<noteq> key \<Longrightarrow> evicted_count (snd (setCapped m i e ev key)) k = evicted_count ev k"
  by (simp add: setCapped_def Let_def)

text \<open>A capped list with its count stands for the whole list.\<close>

definition tracks :: "entry list \<Rightarrow> nat \<Rightarrow> entry list \<Rightarrow> bool" where
  "tracks l n xs \<longleftrightarrow> l = last_n PROJECTION_LIST_CAP xs \<and> n = length xs - PROJECTION_LIST_CAP"

lemma tracks_push:
  assumes "tracks l (evicted_count ev key) xs"
  shows "tracks (fst (pushCapped l e key ev)) (evicted_count (snd (pushCapped l e key ev)) key) (xs @ [e])"
proof (cases "length xs < PROJECTION_LIST_CAP")
  case True
  then show ?thesis using assms by (simp add: tracks_def last_n_def pushCapped_def Let_def)
next
  case False
  then have "length l = PROJECTION_LIST_CAP" using assms by (simp add: tracks_def last_n_def)
  with False assms show ?thesis
    by (simp add: tracks_def last_n_def pushCapped_def Let_def Suc_diff_le drop_Suc [symmetric] add.commute)
qed

lemma fold_entry_intents:
  "pj_intents (fold_entry e s) = (if text_field e ''type'' = ''intent''
     then fst (pushCapped (pj_intents s) e ''intents'' (pj_evicted s)) else pj_intents s)"
  "evicted_count (pj_evicted (fold_entry e s)) ''intents'' = (if text_field e ''type'' = ''intent''
     then evicted_count (snd (pushCapped (pj_intents s) e ''intents'' (pj_evicted s))) ''intents''
     else evicted_count (pj_evicted s) ''intents'')"
  by (simp_all add: fold_entry_def Let_def case_prod_beta)

lemma fold_entry_sessions:
  "pj_sessions (fold_entry e s) = (if text_field e ''type'' = ''session.attached''
     then fst (pushCapped (pj_sessions s) e ''sessions'' (pj_evicted s)) else pj_sessions s)"
  "evicted_count (pj_evicted (fold_entry e s)) ''sessions'' = (if text_field e ''type'' = ''session.attached''
     then evicted_count (snd (pushCapped (pj_sessions s) e ''sessions'' (pj_evicted s))) ''sessions''
     else evicted_count (pj_evicted s) ''sessions'')"
  by (simp_all add: fold_entry_def Let_def case_prod_beta)

lemma fold_entry_constraints:
  "pj_constraints (fold_entry e s) = (if text_field e ''type'' = ''constraint''
     then fst (pushCapped (pj_constraints s) e ''constraints'' (pj_evicted s)) else pj_constraints s)"
  "evicted_count (pj_evicted (fold_entry e s)) ''constraints'' = (if text_field e ''type'' = ''constraint''
     then evicted_count (snd (pushCapped (pj_constraints s) e ''constraints'' (pj_evicted s))) ''constraints''
     else evicted_count (pj_evicted s) ''constraints'')"
  by (simp_all add: fold_entry_def Let_def case_prod_beta)

lemma fold_entry_outcomes:
  "pj_outcomes (fold_entry e s) = (if text_field e ''type'' \<in> {''outcome'', ''retrospective''}
     then fst (pushCapped (pj_outcomes s) e ''outcomes'' (pj_evicted s)) else pj_outcomes s)"
  "evicted_count (pj_evicted (fold_entry e s)) ''outcomes'' =
     (if text_field e ''type'' \<in> {''outcome'', ''retrospective''}
     then evicted_count (snd (pushCapped (pj_outcomes s) e ''outcomes'' (pj_evicted s))) ''outcomes''
     else evicted_count (pj_evicted s) ''outcomes'')"
  by (auto simp: fold_entry_def Let_def case_prod_beta)

lemma projectState_snoc: "projectState (es @ [e]) = fold_entry e (projectState es)"
  by (simp add: projectState_def foldEntries_def)

lemma of_types_snoc: "of_types ts (es @ [e]) = of_types ts es @ (if text_field e ''type'' \<in> set ts then [e] else [])"
  by (simp add: of_types_def)

lemma tracks_empty: "tracks [] 0 []"
  by (simp add: tracks_def last_n_def)

text \<open>
  Each list of the projection is the last sixty entries of its types in the journal, and the
  count beside it says exactly how many older ones it no longer holds.
\<close>

theorem projection_lists_are_the_last_sixty:
  "tracks (pj_intents (projectState es)) (evicted_count (pj_evicted (projectState es)) ''intents'')
     (of_types [''intent''] es) \<and>
   tracks (pj_sessions (projectState es)) (evicted_count (pj_evicted (projectState es)) ''sessions'')
     (of_types [''session.attached''] es) \<and>
   tracks (pj_constraints (projectState es)) (evicted_count (pj_evicted (projectState es)) ''constraints'')
     (of_types [''constraint''] es) \<and>
   tracks (pj_outcomes (projectState es)) (evicted_count (pj_evicted (projectState es)) ''outcomes'')
     (of_types [''outcome'', ''retrospective''] es)"
proof (induction es rule: rev_induct)
  case Nil
  show ?case by (simp add: projectState_def foldEntries_def emptyProjection_def of_types_def tracks_empty)
next
  case (snoc e es)
  then show ?case
    unfolding projectState_snoc of_types_snoc fold_entry_intents fold_entry_sessions
      fold_entry_constraints fold_entry_outcomes
    by (simp add: tracks_push)
qed

section \<open>What is active\<close>

lemma fold_entry_decisions:
  "pj_decisions (fold_entry e s) =
     (if text_field e ''type'' = ''decision'' \<and> map_of e ''decisionId'' \<noteq> None
      then fst (setCapped (pj_decisions s) (text_field e ''decisionId'') e (pj_evicted s) ''decisions'')
      else if text_field e ''type'' = ''supersede'' \<and> map_of e ''supersedes'' \<noteq> None
      then AList.delete (text_field e ''supersedes'') (pj_decisions s) else pj_decisions s)"
  "evicted_count (pj_evicted (fold_entry e s)) ''decisions'' =
     (if text_field e ''type'' = ''decision'' \<and> map_of e ''decisionId'' \<noteq> None
      then evicted_count (snd (setCapped (pj_decisions s) (text_field e ''decisionId'') e (pj_evicted s)
        ''decisions'')) ''decisions''
      else evicted_count (pj_evicted s) ''decisions'')"
  by (auto simp: fold_entry_def Let_def case_prod_beta)

text \<open>Every decision recorded and not superseded since, without any cap.\<close>

definition decide :: "entry \<Rightarrow> (string \<rightharpoonup> entry) \<Rightarrow> (string \<rightharpoonup> entry)" where
  "decide e m =
     (if text_field e ''type'' = ''decision'' \<and> map_of e ''decisionId'' \<noteq> None
      then m(text_field e ''decisionId'' \<mapsto> e)
      else if text_field e ''type'' = ''supersede'' \<and> map_of e ''supersedes'' \<noteq> None
      then m(text_field e ''supersedes'' := None) else m)"

definition active_decisions :: "entry list \<Rightarrow> (string \<rightharpoonup> entry)" where
  "active_decisions es = fold decide es Map.empty"

lemma oldest_key_in: "m \<noteq> [] \<Longrightarrow> oldest_key m \<in> fst ` set m"
proof -
  have "fold (\<lambda>right left. if time_of m left \<le> time_of m right then left else right) ks k \<in> insert k (set ks)"
    for ks k by (induction ks arbitrary: k) (auto split: if_splits)
  moreover assume "m \<noteq> []"
  ultimately show ?thesis by (cases m) (force simp: oldest_key_def)+
qed

lemma length_delete_in: "distinct (map fst m) \<Longrightarrow> k \<in> fst ` set m \<Longrightarrow> length (AList.delete k m) = length m - 1"
proof (induction m)
  case (Cons a m)
  show ?case
  proof (cases "fst a = k")
    case True
    with Cons.prems(1) have "k \<notin> fst ` set m" by auto
    then have "AList.delete k m = m" by (induction m) auto
    with True show ?thesis by (cases a) (simp add: AList.delete_eq filter_id_conv)
  next
    case False
    with Cons have "length (AList.delete k m) = length m - 1" "m \<noteq> []" by auto
    with False show ?thesis by (cases a) (simp add: Suc_pred)
  qed
qed simp

lemma length_update_le: "length (AList.update k v m) \<le> Suc (length m)"
  by (induction m) auto

lemma setCapped_shape:
  assumes "distinct (map fst m)" and "length m \<le> PROJECTION_ACTIVE_CAP"
  shows "distinct (map fst (fst (setCapped m k e ev key)))"
    and "length (fst (setCapped m k e ev key)) \<le> PROJECTION_ACTIVE_CAP"
    and "map_of (fst (setCapped m k e ev key)) \<subseteq>\<^sub>m (map_of m)(k \<mapsto> e)"
    and "evicted_count (snd (setCapped m k e ev key)) key = evicted_count ev key \<Longrightarrow>
      map_of (fst (setCapped m k e ev key)) = (map_of m)(k \<mapsto> e)"
    and "evicted_count ev key \<le> evicted_count (snd (setCapped m k e ev key)) key"
proof -
  let ?n = "AList.update k e m"
  have d: "distinct (map fst ?n)" using assms(1) by (rule distinct_update)
  have n: "length ?n \<le> Suc PROJECTION_ACTIVE_CAP" "map_of ?n = (map_of m)(k \<mapsto> e)"
    using length_update_le [of k e m] assms(2) by (auto simp: update_conv)
  have "length ?n > PROJECTION_ACTIVE_CAP \<Longrightarrow> length (AList.delete (oldest_key ?n) ?n) = length ?n - 1"
    using d by (intro length_delete_in oldest_key_in) auto
  with d n show "distinct (map fst (fst (setCapped m k e ev key)))"
    and "length (fst (setCapped m k e ev key)) \<le> PROJECTION_ACTIVE_CAP"
    and "map_of (fst (setCapped m k e ev key)) \<subseteq>\<^sub>m (map_of m)(k \<mapsto> e)"
    and "evicted_count (snd (setCapped m k e ev key)) key = evicted_count ev key \<Longrightarrow>
      map_of (fst (setCapped m k e ev key)) = (map_of m)(k \<mapsto> e)"
    and "evicted_count ev key \<le> evicted_count (snd (setCapped m k e ev key)) key"
    by (auto simp: setCapped_def Let_def distinct_delete map_le_def delete_conv)
qed

lemma decide_mono: "m \<subseteq>\<^sub>m n \<Longrightarrow> decide e m \<subseteq>\<^sub>m decide e n"
  by (auto simp: decide_def map_le_def)

text \<open>
  C32. At most a hundred decisions are active in the projection, each under its own id; every one is
  the last recorded under that id and not superseded since; and unless one was evicted, all such
  decisions are there.
\<close>

theorem projection_decisions_are_active:
  "length (pj_decisions (projectState es)) \<le> PROJECTION_ACTIVE_CAP \<and>
   distinct (map fst (pj_decisions (projectState es))) \<and>
   map_of (pj_decisions (projectState es)) \<subseteq>\<^sub>m active_decisions es \<and>
   (evicted_count (pj_evicted (projectState es)) ''decisions'' = 0 \<longrightarrow>
      map_of (pj_decisions (projectState es)) = active_decisions es)"
proof (induction es rule: rev_induct)
  case Nil
  show ?case by (simp add: projectState_def foldEntries_def emptyProjection_def active_decisions_def)
next
  case (snoc e es)
  let ?s = "projectState es"
  have a: "active_decisions (es @ [e]) = decide e (active_decisions es)"
    by (simp add: active_decisions_def)
  have ih: "length (pj_decisions ?s) \<le> PROJECTION_ACTIVE_CAP" "distinct (map fst (pj_decisions ?s))"
      "map_of (pj_decisions ?s) \<subseteq>\<^sub>m active_decisions es"
      "evicted_count (pj_evicted ?s) ''decisions'' = 0 \<Longrightarrow>
        map_of (pj_decisions ?s) = active_decisions es"
    using snoc by blast+
  note m = decide_mono [OF ih(3), of e]
  consider (decision) "text_field e ''type'' = ''decision'' \<and> map_of e ''decisionId'' \<noteq> None"
    | (supersede) "text_field e ''type'' = ''supersede'' \<and> map_of e ''supersedes'' \<noteq> None"
    | (other) "\<not> (text_field e ''type'' = ''decision'' \<and> map_of e ''decisionId'' \<noteq> None)"
        "\<not> (text_field e ''type'' = ''supersede'' \<and> map_of e ''supersedes'' \<noteq> None)"
    by blast
  then show ?case
  proof cases
    case decision
    note c = setCapped_shape [OF ih(2,1), where k = "text_field e ''decisionId''" and e = e
        and ev = "pj_evicted ?s" and key = "''decisions''"]
    have d: "decide e m = m(text_field e ''decisionId'' \<mapsto> e)" for m
      using decision by (simp add: decide_def)
    show ?thesis
      unfolding a projectState_snoc fold_entry_decisions if_P [OF decision] d
    proof (intro conjI impI)
      show "map_of (fst (setCapped (pj_decisions ?s) (text_field e ''decisionId'') e (pj_evicted ?s)
          ''decisions'')) \<subseteq>\<^sub>m (active_decisions es)(text_field e ''decisionId'' \<mapsto> e)"
        using map_le_trans [OF c(3)] m unfolding d by blast
      assume "evicted_count (snd (setCapped (pj_decisions ?s) (text_field e ''decisionId'') e
        (pj_evicted ?s) ''decisions'')) ''decisions'' = 0"
      with c(4,5) ih(4) show "map_of (fst (setCapped (pj_decisions ?s) (text_field e ''decisionId'') e
          (pj_evicted ?s) ''decisions'')) = (active_decisions es)(text_field e ''decisionId'' \<mapsto> e)"
        by simp
    qed (rule c(1,2))+
  next
    case supersede
    let ?k = "text_field e ''supersedes''"
    have n: "\<not> (text_field e ''type'' = ''decision'' \<and> map_of e ''decisionId'' \<noteq> None)"
      using supersede by simp
    have d: "decide e m = m(?k := None)" for m
      unfolding decide_def if_not_P [OF n] if_P [OF supersede] ..
    show ?thesis
      unfolding a projectState_snoc fold_entry_decisions if_not_P [OF n] if_P [OF supersede] d delete_conv'
    proof (intro conjI impI)
      show "length (AList.delete ?k (pj_decisions ?s)) \<le> PROJECTION_ACTIVE_CAP"
        using ih(1) length_delete_le [of ?k "pj_decisions ?s"] by linarith
      show "(map_of (pj_decisions ?s))(?k := None) \<subseteq>\<^sub>m (active_decisions es)(?k := None)"
        using m unfolding d .
    qed (use ih(4) distinct_delete [OF ih(2)] in simp_all)
  next
    case other
    have d: "decide e m = m" for m
      unfolding decide_def if_not_P [OF other(1)] if_not_P [OF other(2)] ..
    show ?thesis
      unfolding a projectState_snoc fold_entry_decisions if_not_P [OF other(1)] if_not_P [OF other(2)] d
      using ih by blast
  qed
qed

section \<open>A projection at work\<close>

definition sample_record :: projection_record where
  "sample_record = \<lparr>pw_cursor = 1, pw_byte = int (length sample_journal), pw_size = int (length sample_journal),
     pw_projection = projectState [first_entry]\<rparr>"

theorem incremental_projection_is_full_witness:
  "\<exists>p. readProjectionState sample_env (Stored sample_record) (Some grown) = Inr p \<and>
     pc_state p = projectState [first_entry, second_entry] \<and> pc_cursor p = 2"
proof -
  have "checkpoint sample_env sample_journal sample_record"
    using sample_journal_reads complete_length_append [OF sample_journal_reads(1), of "[]"]
    by (intro checkpointI [of _ _ "[first_entry]"])
      (simp_all add: sample_record_def readJournal_iff del: stringify.simps)
  from incremental_projection_is_full [OF this, of "printed sample_env second_entry @ newline"]
  show ?thesis using sample_grown_reads by (auto simp del: stringify.simps)
qed

definition sample_decision :: "string \<Rightarrow> string \<Rightarrow> entry" where
  "sample_decision i moment = [(''type'', J_str ''decision''), (''eventId'', J_str moment), (''at'', J_str moment),
     (''sessionId'', J_str ''s''), (''decisionId'', J_str i), (''text'', J_str ''go'')]"

theorem projection_decisions_are_active_witness:
  "map_of (pj_decisions (projectState [sample_decision ''a'' ''1'', sample_decision ''b'' ''2'',
     [(''type'', J_str ''supersede''), (''supersedes'', J_str ''a'')]])) =
   active_decisions [sample_decision ''a'' ''1'', sample_decision ''b'' ''2'',
     [(''type'', J_str ''supersede''), (''supersedes'', J_str ''a'')]] \<and>
   map fst (pj_decisions (projectState [sample_decision ''a'' ''1'', sample_decision ''b'' ''2'',
     [(''type'', J_str ''supersede''), (''supersedes'', J_str ''a'')]])) = [''b'']"
proof -
  let ?es = "[sample_decision ''a'' ''1'', sample_decision ''b'' ''2'',
    [(''type'', J_str ''supersede''), (''supersedes'', J_str ''a'')]]"
  have p: "evicted_count (pj_evicted (projectState ?es)) ''decisions'' = 0"
    "map fst (pj_decisions (projectState ?es)) = [''b'']"
    by (simp_all add: projectState_def foldEntries_def fold_entry_def emptyProjection_def sample_decision_def
        text_field_def setCapped_def PROJECTION_ACTIVE_CAP_def Let_def)
  with projection_decisions_are_active [of ?es] show ?thesis by blast
qed

end
