(* ===== verification/Contract_Check.thy ===== *)
theory Contract_Check
  imports Review
begin

text \<open>
  What the contract validator checks of a raw field (\<open>src/contract/assert.mjs\<close>), of a gate and of the
  small fields beside it (\<open>validateGate\<close>, \<open>validateGateSkipWhen\<close>, \<open>validateNodeAdvisory\<close>,
  \<open>validateReplayPolicy\<close>, \<open>reservedArticleClaim\<close> of \<open>src/contract/index.mjs\<close>, \<open>src/contract/human-step.mjs\<close>,
  \<open>src/contract/judges.mjs\<close>), and of a Definition of Done (\<open>src/contract/definition-of-done.mjs\<close>).

  A value is parsed JSON. The check of required capabilities and the syntax check of an inline
  script are arguments; a field the model does not carry is checked and dropped.
\<close>

section \<open>Assertions\<close>

text \<open>A check is the message it throws, or nothing; \<open>checked\<close> goes on when it threw nothing.\<close>

definition checked :: "string option \<Rightarrow> string + 'a \<Rightarrow> string + 'a" where
  "checked e k = (case e of Some m \<Rightarrow> Inl m | None \<Rightarrow> k)"

definition and_then :: "string + 'a \<Rightarrow> ('a \<Rightarrow> string + 'b) \<Rightarrow> string + 'b" where
  "and_then r k = (case r of Inl m \<Rightarrow> Inl m | Inr x \<Rightarrow> k x)"

lemma checked_Inr [simp]: "checked e k = Inr x \<longleftrightarrow> e = None \<and> k = Inr x"
  by (simp add: checked_def split: option.split)

lemma and_then_Inr: "and_then r k = Inr y \<longleftrightarrow> (\<exists>x. r = Inr x \<and> k x = Inr y)"
  by (simp add: and_then_def split: sum.split)

lemma map_sum_Inr: "map_sum id f r = Inr y \<longleftrightarrow> (\<exists>x. r = Inr x \<and> y = f x)"
  by (cases r) auto

definition quoted :: "string \<Rightarrow> string" where
  "quoted s = dquote # s @ [dquote]"

definition rejectUnknown :: "(string \<times> json) list \<Rightarrow> string list \<Rightarrow> string \<Rightarrow> string option" where
  "rejectUnknown value allowed label =
     (case List.find (\<lambda>k. k \<notin> set allowed) (map fst value) of
        Some k \<Rightarrow> Some (label @ '' has unexpected field '' @ k)
      | None \<Rightarrow> None)"

definition assertObject :: "json option \<Rightarrow> string \<Rightarrow> string + (string \<times> json) list" where
  "assertObject value label =
     (case value of Some (J_obj e) \<Rightarrow> Inr e | _ \<Rightarrow> Inl (label @ '' must be an object''))"

definition id_char :: "char \<Rightarrow> bool" where
  "id_char c \<longleftrightarrow> is_alnum c \<or> c \<in> set ''._-''"

definition requireId :: "json option \<Rightarrow> string \<Rightarrow> string + string" where
  "requireId value label =
     (case value of
        Some (J_str s) \<Rightarrow>
          if s = [] then Inl (label @ '' is required'')
          else if \<not> list_all id_char s
          then Inl (label @ '' must contain only letters, numbers, dot, underscore, or dash'')
          else if s = ''.'' \<or> s = ''..''
          then Inl (label @ '' must not be '' @ quoted ''.'' @ '' or '' @ quoted ''..'')
          else Inr s
      | _ \<Rightarrow> Inl (label @ '' is required''))"

definition requireString :: "json option \<Rightarrow> string \<Rightarrow> string + string" where
  "requireString value label =
     (case value of
        Some (J_str s) \<Rightarrow> if trim s = [] then Inl (label @ '' must be a non-empty string'') else Inr s
      | _ \<Rightarrow> Inl (label @ '' must be a non-empty string''))"

definition boundedString :: "json option \<Rightarrow> string \<Rightarrow> nat \<Rightarrow> string + string" where
  "boundedString value label maxBytes =
     and_then (requireString value label) (\<lambda>s.
       if length s > maxBytes then Inl (label @ '' exceeds '' @ show_nat maxBytes @ '' bytes'') else Inr s)"

definition is_integer :: "rat \<Rightarrow> bool" where
  "is_integer q \<longleftrightarrow> of_int \<lfloor>q\<rfloor> = q"

definition positiveInteger :: "json option \<Rightarrow> string \<Rightarrow> string + nat" where
  "positiveInteger value label =
     (case value of
        Some (J_num q) \<Rightarrow>
          if \<not> is_integer q \<or> q \<le> 0 then Inl (label @ '' must be a positive integer'')
          else Inr (nat \<lfloor>q\<rfloor>)
      | _ \<Rightarrow> Inl (label @ '' must be a positive integer''))"

definition nonNegativeInteger :: "json option \<Rightarrow> string \<Rightarrow> string + nat" where
  "nonNegativeInteger value label =
     (case value of
        Some (J_num q) \<Rightarrow>
          if \<not> is_integer q \<or> q < 0 then Inl (label @ '' must be a non-negative integer'')
          else Inr (nat \<lfloor>q\<rfloor>)
      | _ \<Rightarrow> Inl (label @ '' must be a non-negative integer''))"

definition positiveNumber :: "json option \<Rightarrow> string \<Rightarrow> string + rat" where
  "positiveNumber value label =
     (case value of
        Some (J_num q) \<Rightarrow> if q \<le> 0 then Inl (label @ '' must be a positive number'') else Inr q
      | _ \<Rightarrow> Inl (label @ '' must be a positive number''))"

definition non_negative :: "json option \<Rightarrow> string \<Rightarrow> string + rat" where
  "non_negative value label =
     (case value of
        Some (J_num q) \<Rightarrow> if q < 0 then Inl (label @ '' must be a non-negative number'') else Inr q
      | _ \<Rightarrow> Inl (label @ '' must be a non-negative number''))"

definition requireRuntime :: "runtimes \<Rightarrow> json option \<Rightarrow> string \<Rightarrow> string + string" where
  "requireRuntime rts i label =
     (case i of
        Some (J_str s) \<Rightarrow>
          if map_of rts s = None then Inl (label @ '' names an unknown runtime'') else Inr s
      | _ \<Rightarrow> Inl (label @ '' names an unknown runtime''))"

text \<open>A field that may be missing.\<close>

definition optional ::
    "json option \<Rightarrow> (json option \<Rightarrow> string + 'a) \<Rightarrow> string + 'a option" where
  "optional value check = (if value = None then Inr None else map_sum id Some (check value))"

fun each :: "(nat \<Rightarrow> 'a \<Rightarrow> string + 'b) \<Rightarrow> nat \<Rightarrow> 'a list \<Rightarrow> string + 'b list" where
  "each f i [] = Inr []"
| "each f i (x # xs) = and_then (f i x) (\<lambda>y. map_sum id (Cons y) (each f (i + 1) xs))"

section \<open>The gate of a node\<close>

definition node_label :: "nat \<Rightarrow> string" where
  "node_label index = ''nodes['' @ show_nat index @ '']''"

definition validateGateSkipWhen :: "json option \<Rightarrow> string \<Rightarrow> string + skip_when option" where
  "validateGateSkipWhen value label =
     (if value = None then Inr None
      else and_then (assertObject value label) (\<lambda>e.
        checked (rejectUnknown e [''verificationGreen'', ''maxChangedPaths''] label)
          (if map_of e ''verificationGreen'' \<noteq> Some (J_bool True)
           then Inl (label @ ''.verificationGreen must be true'')
           else map_sum id (\<lambda>n. Some \<lparr>sk_maxChangedPaths = n\<rparr>)
             (nonNegativeInteger (map_of e ''maxChangedPaths'') (label @ ''.maxChangedPaths'')))))"

definition GATE_FIELDS :: "string list" where
  "GATE_FIELDS = [''enabled'', ''runtime'', ''review'', ''failOn'', ''maxRevisions'', ''requiredCapabilities'',
     ''skipWhen'']"

fun fail_severity :: "json \<Rightarrow> severity option" where
  "fail_severity (J_str s) =
     (if s = ''minor'' then Some Minor else if s = ''major'' then Some Major
      else if s = ''critical'' then Some Critical else None)"
| "fail_severity _ = None"

definition read_review :: "json option \<Rightarrow> review_mode option" where
  "read_review v =
     (if v = Some (J_str ''none'') then Some Rev_none
      else if v = None \<or> v = Some (J_str ''advisory'') then Some Rev_advisory
      else if v = Some (J_str ''blocking'') then Some Rev_blocking else None)"

definition read_failOn :: "json option \<Rightarrow> severity list option" where
  "read_failOn v =
     (case v of
        None \<Rightarrow> Some [Critical]
      | Some J_null \<Rightarrow> Some [Critical]
      | Some (J_arr xs) \<Rightarrow>
          if list_ex (\<lambda>x. fail_severity x = None) xs then None else Some (List.map_filter fail_severity xs)
      | _ \<Rightarrow> None)"

abbreviation no_gate :: gate where
  "no_gate \<equiv> \<lparr>gt_enabled = False, gt_review = None, gt_runtime = None, gt_failOn = None,
     gt_maxRevisions = None, gt_skipWhen = None\<rparr>"

definition defaulted :: "json option \<Rightarrow> json \<Rightarrow> json option" where
  "defaulted v d = (case v of None \<Rightarrow> Some d | Some J_null \<Rightarrow> Some d | _ \<Rightarrow> v)"

definition validateGate ::
    "(json option \<Rightarrow> string \<Rightarrow> string option) \<Rightarrow> json option \<Rightarrow> runtimes \<Rightarrow> nat \<Rightarrow> string \<Rightarrow>
     string + gate" where
  "validateGate capabilities value rts index nodeId =
     (let at_gate = node_label index @ ''.gate'';
          label = node_label index @ '' ('' @ nodeId @ '')''
      in if value = None \<or> value = Some (J_bool False) then Inr no_gate
         else and_then (assertObject value at_gate) (\<lambda>e.
           checked (rejectUnknown e GATE_FIELDS at_gate)
           (let field = (\<lambda>k. map_of e k)
            in if field ''enabled'' = Some (J_bool False)
               then if list_ex (\<lambda>k. k \<notin> {''enabled'', ''maxRevisions''}) (map fst e)
                    then Inl (at_gate @ '' disabled shape only allows enabled and maxRevisions'')
                    else map_sum id (\<lambda>n. no_gate\<lparr>gt_maxRevisions := n\<rparr>)
                      (optional (field ''maxRevisions'') (\<lambda>v. nonNegativeInteger v (at_gate @ ''.maxRevisions'')))
               else if field ''enabled'' \<notin> {None, Some (J_bool True)}
               then Inl (at_gate @ ''.enabled must be true or false'')
               else case read_review (field ''review'') of
                 None \<Rightarrow> Inl (at_gate @ ''.review must be none, advisory, or blocking'')
               | Some review \<Rightarrow>
                   and_then (optional (field ''runtime'') (\<lambda>v. requireRuntime rts v (at_gate @ ''.runtime'')))
                     (\<lambda>runtime.
                   case read_failOn (field ''failOn'') of
                     None \<Rightarrow> Inl (at_gate @ ''.failOn contains an invalid severity'')
                   | Some fails \<Rightarrow>
                       if Major \<in> set fails \<and> Critical \<notin> set fails
                       then Inl (label @ '': gate.failOn lists major without critical, and the gate checks exact membership, so a critical finding would pass (TECH-SPEC lean, rule 2)'')
                       else if review = Rev_blocking \<and> Major \<notin> set fails
                       then Inl (label @ '': gate.review blocking requires major in gate.failOn (TECH-SPEC lean, rule 2)'')
                       else and_then (nonNegativeInteger (defaulted (field ''maxRevisions'') (J_num 1))
                                (at_gate @ ''.maxRevisions'')) (\<lambda>revisions.
                            and_then (validateGateSkipWhen (field ''skipWhen'') (at_gate @ ''.skipWhen'')) (\<lambda>skip.
                            checked (capabilities (field ''requiredCapabilities'')
                                (at_gate @ ''.requiredCapabilities''))
                              (Inr \<lparr>gt_enabled = True, gt_review = Some review, gt_runtime = runtime,
                                 gt_failOn = Some fails, gt_maxRevisions = Some revisions,
                                 gt_skipWhen = skip\<rparr>)))))))"

section \<open>Small fields\<close>

record advisory_policy =
  ay_costUsd :: "rat option"
  ay_durationSec :: "rat option"

definition validateNodeAdvisory :: "json option \<Rightarrow> string + advisory_policy" where
  "validateNodeAdvisory value =
     (if value = None then Inr \<lparr>ay_costUsd = None, ay_durationSec = None\<rparr>
      else and_then (assertObject value ''contract.nodeAdvisory'') (\<lambda>e.
        checked (rejectUnknown e [''costUsd'', ''durationSec''] ''contract.nodeAdvisory'')
          (and_then (optional (map_of e ''costUsd'') (\<lambda>v. non_negative v ''contract.nodeAdvisory.costUsd''))
             (\<lambda>cost.
           and_then (optional (map_of e ''durationSec'')
               (\<lambda>v. non_negative v ''contract.nodeAdvisory.durationSec'')) (\<lambda>duration.
           Inr \<lparr>ay_costUsd = cost, ay_durationSec = duration\<rparr>)))))"

definition validateReplayPolicy :: "json option \<Rightarrow> string \<Rightarrow> string + string" where
  "validateReplayPolicy value label =
     (case value of
        None \<Rightarrow> Inr ''safe''
      | Some (J_str s) \<Rightarrow>
          if s \<in> {''safe'', ''reconcile'', ''never''} then Inr s
          else Inl (label @ ''.replayPolicy must be one of safe, reconcile, never'')
      | _ \<Rightarrow> Inl (label @ ''.replayPolicy must be one of safe, reconcile, never''))"

definition validateHumanStep :: "json option \<Rightarrow> string \<Rightarrow> string + human_step option" where
  "validateHumanStep value label =
     (if value = None then Inr None
      else and_then (assertObject value label) (\<lambda>e.
        checked (rejectUnknown e [''step'', ''command''] label)
          (and_then (boundedString (map_of e ''step'') (label @ ''.step'') 4096) (\<lambda>step.
           and_then (boundedString (map_of e ''command'') (label @ ''.command'') 4096) (\<lambda>command.
           Inr (Some \<lparr>hs_step = step, hs_command = command\<rparr>))))))"

definition validateJudgeList :: "json option \<Rightarrow> runtimes \<Rightarrow> string \<Rightarrow> string + string list option" where
  "validateJudgeList value rts label =
     (case value of
        None \<Rightarrow> Inr None
      | Some (J_arr xs) \<Rightarrow>
          if xs = [] then Inl (label @ '' must be a non-empty array of runtime ids'')
          else and_then (each (\<lambda>i x. and_then
                   (requireId (Some x) (label @ ''['' @ show_nat i @ '']''))
                   (\<lambda>s. requireRuntime rts (Some (J_str s)) (label @ ''['' @ show_nat i @ '']''))) 0 xs)
                 (\<lambda>ids. if distinct ids then Inr (Some ids)
                        else Inl (label @ '' must not repeat a runtime id''))
      | _ \<Rightarrow> Inl (label @ '' must be a non-empty array of runtime ids''))"

definition validateJudgeIndependence :: "json option \<Rightarrow> string \<Rightarrow> string + bool" where
  "validateJudgeIndependence value label =
     (if value = None then Inr False
      else if value = Some (J_str ''same-vendor'') then Inr True
      else Inl (label @ '' must be '' @ quoted ''same-vendor''))"

definition validateMaxParallel :: "json option \<Rightarrow> string + nat" where
  "validateMaxParallel value = positiveInteger value ''contract.maxParallel''"

definition booleanField :: "json option \<Rightarrow> bool \<Rightarrow> string \<Rightarrow> string + bool" where
  "booleanField value fallback label =
     (case value of
        None \<Rightarrow> Inr fallback
      | Some (J_bool b) \<Rightarrow> Inr b
      | _ \<Rightarrow> Inl (label @ '' must be a boolean''))"

definition RESERVED_ARTICLES :: "string list" where
  "RESERVED_ARTICLES = [''references/rules.md'', ''references/engineering.md'', ''references/workflow.md'',
     ''references/handoffs.md'']"

definition ends_with :: "string \<Rightarrow> string \<Rightarrow> bool" where
  "ends_with s suffix \<longleftrightarrow> length suffix \<le> length s \<and> drop (length s - length suffix) s = suffix"

definition reservedArticleClaim :: "string list \<Rightarrow> string list \<Rightarrow> string list \<Rightarrow> string option" where
  "reservedArticleClaim writeFiles writeRoots scopeAcknowledged =
     List.find (\<lambda>path. list_ex (\<lambda>article. path = article \<or> ends_with path (''/'' @ article)) RESERVED_ARTICLES)
       (writeFiles @ writeRoots @ scopeAcknowledged)"

section \<open>The Definition of Done\<close>

record dod_options =
  op_commands :: "string list list option"
  op_nodeId :: "string option"
  op_verificationCount :: "nat option"
  op_recordableCount :: "nat option"

text \<open>\<open>String(value)\<close> of a number is its digits when it is an integer below \<open>1e21\<close>.\<close>

definition number_text :: "rat \<Rightarrow> string option" where
  "number_text q = (if is_integer q \<and> 0 \<le> q \<and> q < 10 ^ 21 then Some (show_nat (nat \<lfloor>q\<rfloor>)) else None)"

definition isIndexLike :: "string \<Rightarrow> bool" where
  "isIndexLike t \<longleftrightarrow> trim t \<noteq> [] \<and> list_all is_digit (trim t)"

definition checkedIndex :: "nat \<Rightarrow> string \<Rightarrow> dod_options \<Rightarrow> string + string" where
  "checkedIndex index label op =
     (if (case op_verificationCount op of Some n \<Rightarrow> index \<ge> n | None \<Rightarrow> False)
      then Inl (label @ ''.ref '' @ show_nat index @ '' names no verification command: the packet declares '' @
             show_nat (nullish (op_verificationCount op) 0))
      else if (case op_recordableCount op of Some n \<Rightarrow> index \<ge> n | None \<Rightarrow> False)
      then Inl (label @ ''.ref '' @ show_nat index @ '' cannot be reused at gate time: only the first '' @
             show_nat (nullish (op_recordableCount op) 0) @
             '' verification commands are recorded on the node'')
      else Inr (show_nat index))"

definition resolveTextRef :: "string \<Rightarrow> string \<Rightarrow> dod_options \<Rightarrow> string + string" where
  "resolveTextRef value label op =
     (let commands = map (join_with '' '') (nullish (op_commands op) []);
          index = length (takeWhile (\<lambda>c. c \<noteq> value) commands)
      in if index = length commands
         then Inl (label @ ''.ref '' @ quoted value @ '' names no verification command of '' @
                nullish (op_nodeId op) ''this node'' @ ''; its verification commands are:'' @ newline @
                (if commands = [] then ''(no verification commands)''
                 else join_with newline
                   (map (\<lambda>(i, c). show_nat i @ '': '' @ c) (enumerate 0 commands))))
         else checkedIndex index label op)"

definition validateVerificationRef :: "json option \<Rightarrow> string \<Rightarrow> dod_options \<Rightarrow> string + string" where
  "validateVerificationRef value label op =
     (let refusal = label @ ''.ref must be the zero-based index of a verification command, or the exact text of one'';
          by_index = (\<lambda>t. if isIndexLike t then checkedIndex (nullish (parse_index t) 0) label op else Inl refusal)
      in case value of
           Some (J_str s) \<Rightarrow>
             if op_commands op \<noteq> None \<and> \<not> isIndexLike s then resolveTextRef s label op else by_index s
         | Some (J_num q) \<Rightarrow> (case number_text q of Some t \<Rightarrow> by_index t | None \<Rightarrow> Inl refusal)
         | _ \<Rightarrow> Inl refusal)"

definition validateProof :: "json \<Rightarrow> string \<Rightarrow> dod_options \<Rightarrow> string + proof_kind \<times> string" where
  "validateProof value label op =
     (case value of
        J_obj e \<Rightarrow>
          checked (rejectUnknown e [''kind'', ''ref''] label)
          (let kind = map_of e ''kind''
           in if kind = Some (J_str ''verification'')
              then map_sum id (Pair Proof_verification) (validateVerificationRef (map_of e ''ref'') label op)
              else if kind = Some (J_str ''command'')
              then map_sum id (Pair Proof_command) (requireString (map_of e ''ref'') (label @ ''.ref''))
              else if kind = Some (J_str ''path'')
              then map_sum id (Pair Proof_path) (requireString (map_of e ''ref'') (label @ ''.ref''))
              else Inl (label @ ''.kind must be '' @ quoted ''command'' @ '', '' @ quoted ''path'' @ '', or '' @
                     quoted ''verification''))
      | _ \<Rightarrow> Inl (label @ '' must be an object with kind and ref''))"

definition validate_item :: "string \<Rightarrow> dod_options \<Rightarrow> nat \<Rightarrow> json \<Rightarrow> string + dod_item" where
  "validate_item outer op index item =
     (let label = outer @ ''['' @ show_nat index @ '']''
      in case item of
           J_str _ \<Rightarrow> Inl (label @ '' must be an object, not a schema-1 string item'')
         | J_obj e \<Rightarrow>
             checked (rejectUnknown e [''id'', ''text'', ''proof'', ''judgment'', ''reason''] label)
             (and_then (requireId (map_of e ''id'') (label @ ''.id'')) (\<lambda>i.
              and_then (requireString (map_of e ''text'') (label @ ''.text'')) (\<lambda>text.
              let judgment = (map_of e ''judgment'' = Some (J_bool True))
              in if map_of e ''judgment'' \<noteq> None \<and> \<not> judgment
                 then Inl (label @ ''.judgment must be true when present'')
                 else if map_of e ''reason'' \<noteq> None \<and> \<not> judgment
                 then Inl (label @ ''.reason requires judgment: true'')
                 else and_then (optional (map_of e ''reason'') (\<lambda>v. requireString v (label @ ''.reason'')))
                   (\<lambda>reason.
                 and_then (case map_of e ''proof'' of
                     None \<Rightarrow> Inr None
                   | Some v \<Rightarrow> map_sum id Some (validateProof v (label @ ''.proof'') op)) (\<lambda>proof.
                 if proof = None \<and> \<not> judgment
                 then Inl (label @ '' must declare proof or judgment: true'')
                 else Inr \<lparr>dod_id = i, dod_proof = proof, dod_judgment = judgment\<rparr>)))))
         | _ \<Rightarrow> Inl (label @ '' must be an object with id, text, and proof or judgment: true''))"

definition validateDefinitionOfDone :: "json \<Rightarrow> string \<Rightarrow> dod_options \<Rightarrow> string + dod_item list" where
  "validateDefinitionOfDone value label op =
     (case value of
        J_arr items \<Rightarrow> each (validate_item label op) 0 items
      | _ \<Rightarrow> Inl (label @ '' must be an array of Definition of Done objects''))"

section \<open>Proof commands\<close>

definition SHELL_SEPARATORS :: "string list" where
  "SHELL_SEPARATORS = [''&&'', ''||'', ''|'', '';'', ''&'', ''>'', ''>>'', ''<'']"

definition isNodeExecutable :: "string \<Rightarrow> bool" where
  "isNodeExecutable token =
     (lower_case (rev (takeWhile (\<lambda>c. c \<noteq> CHR ''/'' \<and> c \<noteq> backslash) (rev token)))
        \<in> {''node'', ''nodejs'', ''node.exe''})"

text \<open>
  The scan that starts behind a node executable: it ends with a body, with none, or at a separator or
  the end, where the outer scan goes on with the next token.
\<close>

fun script_after :: "string list \<Rightarrow> string option option" where
  "script_after [] = None"
| "script_after (token # ts) =
     (if token \<in> set SHELL_SEPARATORS then None
      else if token = ''-e'' \<or> token = ''--eval''
      then Some (case ts of [] \<Rightarrow> None | body # _ \<Rightarrow> if body \<in> set SHELL_SEPARATORS then None else Some body)
      else if starts_with token ''--eval='' then Some (Some (drop (length ''--eval='') token))
      else if starts_with token ''-e='' then Some (Some (drop (length ''-e='') token))
      else script_after ts)"

fun script_of_words :: "string list \<Rightarrow> string option" where
  "script_of_words [] = None"
| "script_of_words (token # ts) =
     (if isNodeExecutable token
      then (case script_after ts of Some found \<Rightarrow> found | None \<Rightarrow> script_of_words ts)
      else script_of_words ts)"

definition inlineScriptBody :: "string \<Rightarrow> string option" where
  "inlineScriptBody commandText = script_of_words (shellWords commandText)"

definition inlineScriptParseError :: "(string \<Rightarrow> string option) \<Rightarrow> string \<Rightarrow> string option" where
  "inlineScriptParseError syntax commandText = Option.bind (inlineScriptBody commandText) syntax"

text \<open>The first command proof that fails a check, with what it fails with.\<close>

fun first_bad_proof :: "(string \<Rightarrow> 'a option) \<Rightarrow> node list \<Rightarrow> (string \<times> string \<times> 'a) option" where
  "first_bad_proof check [] = None"
| "first_bad_proof check (n # ns) =
     (case List.find (\<lambda>item. case dod_proof item of
              Some (Proof_command, ref) \<Rightarrow> check ref \<noteq> None | _ \<Rightarrow> False) (nd_definitionOfDone n) of
        Some item \<Rightarrow> Option.bind (dod_proof item) (\<lambda>p. map_option (\<lambda>e. (nd_id n, dod_id item, e)) (check (snd p)))
      | None \<Rightarrow> first_bad_proof check ns)"

definition assertInlineScriptProofsParse :: "(string \<Rightarrow> string option) \<Rightarrow> node list \<Rightarrow> string option" where
  "assertInlineScriptProofsParse syntax nodes =
     map_option (\<lambda>(nodeId, item, e). ''node '' @ nodeId @ '', Definition of Done item '' @ quoted item @
         '': the proof command's inline script does not parse: '' @ e)
       (first_bad_proof (inlineScriptParseError syntax) nodes)"

text \<open>One character of the quote scanner: the open quote, and whether the next character is escaped.\<close>

fun quote_step :: "char \<Rightarrow> char option \<times> bool \<Rightarrow> char option \<times> bool" where
  "quote_step c (quote, escaped) =
     (if escaped then (quote, False)
      else if quote \<noteq> Some squote \<and> c = backslash then (quote, True)
      else if quote = None \<and> (c = squote \<or> c = dquote) then (Some c, False)
      else if quote = Some c then (None, False)
      else (quote, False))"

definition unclosedQuote :: "string \<Rightarrow> char option" where
  "unclosedQuote commandText = fst (fold quote_step commandText (None, False))"

text \<open>\<open>None\<close> accepts; otherwise the node, the item and the quote left open.\<close>

definition assertProofCommandsParse :: "node list \<Rightarrow> (string \<times> string \<times> char) option" where
  "assertProofCommandsParse nodes = first_bad_proof unclosedQuote nodes"

section \<open>An accepted gate\<close>

lemma read_failOn_closed:
  assumes "validateGate caps v rts i nodeId = Inr g" and "gt_enabled g"
  obtains fails where "gt_failOn g = Some fails" "Major \<in> set fails \<Longrightarrow> Critical \<in> set fails"
    "gt_review g = Some Rev_blocking \<Longrightarrow> Major \<in> set fails"
    "\<And>r. gt_runtime g = Some r \<Longrightarrow> map_of rts r \<noteq> None"
  using assms
  by (auto simp: validateGate_def Let_def and_then_Inr map_sum_Inr optional_def requireRuntime_def
      split: if_splits option.splits json.splits)

text \<open>
  C31. A gate the validator accepts as blocking fails every verdict that reports a major or critical
  finding, and names only a declared runtime as its judge.
\<close>

theorem accepted_blocking_gate_fails_serious:
  assumes "validateGate caps v rts i (nd_id node) = Inr (nd_gate node)"
    and "reviewMode (nd_gate node) = Rev_blocking"
  shows "(\<forall>verdict. gr_verdict verdict = V_fail \<and> gr_maxSeverity verdict \<in> {Major, Critical} \<longrightarrow>
      shouldFail node verdict) \<and>
    (\<forall>r. gt_runtime (nd_gate node) = Some r \<longrightarrow> map_of rts r \<noteq> None)"
proof -
  have g: "gt_enabled (nd_gate node)" "gt_review (nd_gate node) = Some Rev_blocking"
    using assms(2) by (auto simp: reviewMode_def nullish_def split: if_splits option.splits)
  obtain fails where f: "gt_failOn (nd_gate node) = Some fails" "Major \<in> set fails" "Critical \<in> set fails"
      "\<forall>r. gt_runtime (nd_gate node) = Some r \<longrightarrow> map_of rts r \<noteq> None"
    by (rule read_failOn_closed [OF assms(1) g(1)]) (use g(2) in blast)
  then have "failOn node = fails" by (simp add: failOn_def)
  with f show ?thesis unfolding shouldFail_def by (metis insertE severity.distinct singletonD)
qed

section \<open>An accepted verification proof\<close>

lemma digit_char:
  "k < 10 \<Longrightarrow> is_digit (char_of (48 + k :: nat)) \<and> of_char (char_of (48 + k) :: char) = (48 + k :: nat)"
  by (simp add: is_digit_def)

lemma digit_not_space: "is_digit c \<Longrightarrow> \<not> is_space c"
  by (auto simp: is_digit_def is_space_def Let_def)

lemma show_nat_digits: "list_all is_digit (show_nat n) \<and> show_nat n \<noteq> []"
proof (induction n rule: show_nat.induct)
  case (1 n)
  then show ?case using digit_char [of n] digit_char [of "n mod 10"]
    by (subst (1 2) show_nat.simps) auto
qed

lemma digits_value: "fold (\<lambda>c n. 10 * n + (of_char c - 48)) (show_nat n) (0 :: nat) = n"
proof (induction n rule: show_nat.induct)
  case (1 n)
  show ?case
  proof (cases "n < 10")
    case True
    then show ?thesis using digit_char [of n] by (subst show_nat.simps) simp
  next
    case False
    with 1 digit_char [of "n mod 10"] show ?thesis by (subst show_nat.simps) simp
  qed
qed

lemma parse_index_show [simp]: "parse_index (show_nat n) = Some n"
proof -
  have d: "\<forall>c \<in> set (show_nat n). is_digit c" "show_nat n \<noteq> []"
    using show_nat_digits [of n] by (auto simp: list_all_iff)
  then have "dropWhile is_space (show_nat n) = show_nat n"
    using digit_not_space by (cases "show_nat n") auto
  moreover have "takeWhile is_digit (show_nat n) = show_nat n"
    using d(1) by (intro takeWhile_eq_all_conv [THEN iffD2]) auto
  ultimately have "parse_index (show_nat n) =
      (if show_nat n = [] then None else Some (fold (\<lambda>c n. 10 * n + (of_char c - 48)) (show_nat n) 0))"
    unfolding parse_index_def Let_def by (simp only:)
  then show ?thesis using d(2) digits_value [of n] by simp
qed

lemma checkedIndex_Inr:
  "checkedIndex n label op = Inr ref \<Longrightarrow> op_verificationCount op = Some count \<Longrightarrow>
   op_recordableCount op = Some recordable \<Longrightarrow> ref = show_nat n \<and> n < count \<and> n < recordable"
  by (auto simp: checkedIndex_def split: if_splits)

lemma validateVerificationRef_Inr:
  assumes "validateVerificationRef v label op = Inr ref" and "op_verificationCount op = Some count"
    and "op_recordableCount op = Some recordable"
  shows "\<exists>n. ref = show_nat n \<and> n < count \<and> n < recordable"
proof -
  obtain n where "checkedIndex n label op = Inr ref"
    using assms(1)
    by (auto simp: validateVerificationRef_def resolveTextRef_def Let_def
        split: option.splits json.splits if_splits)
  with checkedIndex_Inr [OF this assms(2,3)] show ?thesis by blast
qed

lemma each_in: "each f i xs = Inr ys \<Longrightarrow> y \<in> set ys \<Longrightarrow> \<exists>j x. f j x = Inr y"
proof (induction xs arbitrary: i ys)
  case (Cons x xs)
  then obtain z zs where "f i x = Inr z" "each f (i + 1) xs = Inr zs" "ys = z # zs"
    by (auto simp: and_then_Inr map_sum_Inr)
  with Cons show ?case by (cases "y = z") (blast, force)
qed simp

lemma validate_item_proof:
  assumes "validate_item outer op j x = Inr item" and "dod_proof item = Some (Proof_verification, ref)"
  shows "\<exists>v label. validateVerificationRef v label op = Inr ref"
proof -
  have "\<exists>v. validateProof v (outer @ ''['' @ show_nat j @ '']'' @ ''.proof'') op = Inr (Proof_verification, ref)"
    using assms
    by (cases x)
      (auto simp: validate_item_def and_then_Inr map_sum_Inr Let_def split: if_splits option.splits)
  then obtain v label where "validateProof v label op = Inr (Proof_verification, ref)" by blast
  then show ?thesis
    by (cases v) (auto simp: validateProof_def map_sum_Inr Let_def split: if_splits)
qed

text \<open>The proof's index is that of a command of the packet, and one the record has room for.\<close>

lemma accepted_ref:
  assumes "validateDefinitionOfDone v label op = Inr items" and "item \<in> set items"
    and "dod_proof item = Some (Proof_verification, ref)"
    and "op_verificationCount op = Some count" and "op_recordableCount op = Some recordable"
  obtains n where "ref = show_nat n" "n < count" "n < recordable"
proof -
  obtain xs where "each (validate_item label op) 0 xs = Inr items"
    using assms(1) by (auto simp: validateDefinitionOfDone_def split: json.splits)
  from each_in [OF this assms(2)] validate_item_proof [OF _ assms(3)]
    validateVerificationRef_Inr [OF _ assms(4,5)] that
  show thesis by blast
qed

definition argv_bytes :: "command_result list \<Rightarrow> nat" where
  "argv_bytes cs = sum_list (map (bytes_of \<circ> cr_argv) cs)"

definition env_bytes :: "command_result list \<Rightarrow> nat" where
  "env_bytes cs = sum_list (map (bytes_of \<circ> cr_env) cs)"

lemma compact_commands_length:
  "n < length (compact_commands k a e cs) \<longleftrightarrow> n < length cs \<and> k + n < stateCommands \<and>
     a + argv_bytes (take (Suc n) cs) \<le> stateArgvBytes \<and> e + env_bytes (take (Suc n) cs) \<le> stateEnvBytes"
proof (induction cs arbitrary: n k a e)
  case (Cons c cs)
  show ?case
  proof (cases n)
    case 0
    then show ?thesis by (auto simp: argv_bytes_def env_bytes_def)
  next
    case (Suc m)
    then show ?thesis
      using Cons.IH [of m "k + 1" "a + bytes_of (cr_argv c)" "e + bytes_of (cr_env c)"]
      by (auto simp: argv_bytes_def env_bytes_def)
  qed
qed simp

lemma compact_commands_nth:
  "n < length (compact_commands k a e cs) \<Longrightarrow>
   cr_passed (compact_commands k a e cs ! n) = cr_passed (cs ! n)"
  using compact_commands_prefix [of k a e cs] by auto

lemma proveVerification_pass:
  "pr_pass (proveVerification i (show_nat n) recorded) \<longleftrightarrow>
     n < length recorded \<and> cr_passed (recorded ! n)"
  by (simp add: proveVerification_def Let_def)

text \<open>
  A verification proof the validator accepts names one of the packet's commands, and at the gate
  it stands exactly when that command passed and the argument and environment bytes of the commands up
  to it fit the record; beyond those bytes it fails although the command passed.
\<close>

theorem accepted_proof_reads_its_command:
  assumes "validateDefinitionOfDone v label op = Inr items" and "item \<in> set items"
    and "dod_proof item = Some (Proof_verification, ref)"
    and "op_verificationCount op = Some count" and "op_recordableCount op = Some stateCommands"
    and "count \<le> length results"
  shows "\<exists>n < count. ref = show_nat n \<and>
    (pr_pass (proveVerification (dod_id item) ref (compact_commands 0 0 0 results)) \<longleftrightarrow>
       cr_passed (results ! n) \<and> argv_bytes (take (Suc n) results) \<le> stateArgvBytes \<and>
       env_bytes (take (Suc n) results) \<le> stateEnvBytes)"
proof -
  obtain n where n: "ref = show_nat n" "n < count" "n < stateCommands"
    using assms(1-5) by (rule accepted_ref)
  with assms(6) compact_commands_length [of n 0 0 0 results] compact_commands_nth [of n 0 0 0 results]
  show ?thesis by (intro exI [of _ n]) (auto simp: proveVerification_pass)
qed

section \<open>Quoted words leave nothing open\<close>

lemma quote_inside:
  "fold quote_step (escape_word w) (Some dquote, False) = (Some dquote, False)"
  by (induction w) (auto simp: escape_word_def)

lemma quoted_word_closed: "fold quote_step (quote_word w) (None, False) = (None, False)"
  by (simp add: quote_word_def quote_inside)

lemma quoted_words_closed: "unclosedQuote (join_with [CHR '' ''] (map quote_word ws)) = None"
proof -
  have "fold quote_step (join_with [CHR '' ''] (map quote_word ws)) (None, False) = (None, False)"
    by (induction ws rule: induct_list012) (auto simp: quoted_word_closed)
  then show ?thesis by (simp add: unclosedQuote_def)
qed

section \<open>Witnesses\<close>

definition sample_blocking :: json where
  "sample_blocking = J_obj [(''review'', J_str ''blocking''), (''failOn'', J_arr [J_str ''major'', J_str ''critical''])]"

theorem accepted_blocking_gate_fails_serious_witness:
  "let g = \<lparr>gt_enabled = True, gt_review = Some Rev_blocking, gt_runtime = None,
       gt_failOn = Some [Major, Critical], gt_maxRevisions = Some 1, gt_skipWhen = None\<rparr>;
     node = (sample_node ''a'' [] None None)\<lparr>nd_gate := g\<rparr>
   in validateGate (\<lambda>v l. None) (Some sample_blocking) [] 0 ''a'' = Inr g \<and>
     shouldFail node \<lparr>gr_verdict = V_fail, gr_maxSeverity = Critical, gr_summary = [], gr_findings = []\<rparr>"
proof -
  let ?g = "\<lparr>gt_enabled = True, gt_review = Some Rev_blocking, gt_runtime = None,
       gt_failOn = Some [Major, Critical], gt_maxRevisions = Some 1, gt_skipWhen = None\<rparr>"
  let ?n = "(sample_node ''a'' [] None None)\<lparr>nd_gate := ?g\<rparr>"
  have v: "validateGate (\<lambda>v l. None) (Some sample_blocking) [] 0 (nd_id ?n) = Inr (nd_gate ?n)"
    by (simp add: sample_blocking_def validateGate_def assertObject_def rejectUnknown_def GATE_FIELDS_def
        and_then_def checked_def read_review_def read_failOn_def optional_def defaulted_def
        nonNegativeInteger_def is_integer_def validateGateSkipWhen_def Let_def map_filter_simps)
  have "reviewMode (nd_gate ?n) = Rev_blocking" by (simp add: reviewMode_def)
  from accepted_blocking_gate_fails_serious [OF v this] v show ?thesis
    by (simp add: sample_node_def)
qed

text \<open>Two passing commands of five thousand bytes each: the record keeps the first.\<close>

definition long_result :: command_result where
  "long_result = \<lparr>cr_argv = [replicate 5000 CHR ''x''],
     cr_env = [], cr_passed = True, cr_attempts = []\<rparr>"

definition sample_done :: json where
  "sample_done = J_arr [J_obj [(''id'', J_str ''d''), (''text'', J_str ''t''),
     (''proof'', J_obj [(''kind'', J_str ''verification''), (''ref'', J_str ''1'')])]]"

theorem accepted_proof_reads_its_command_witness:
  "cr_passed ([long_result, long_result] ! 1) \<and>
   \<not> pr_pass (proveVerification ''d'' ''1'' (compact_commands 0 0 0 [long_result, long_result]))"
proof -
  let ?op = "\<lparr>op_commands = None, op_nodeId = None, op_verificationCount = Some 2,
    op_recordableCount = Some stateCommands\<rparr>"
  let ?item = "\<lparr>dod_id = ''d'', dod_proof = Some (Proof_verification, ''1''), dod_judgment = False\<rparr>"
  have one: "show_nat 1 = ''1''" by code_simp
  have p: "parse_index ''1'' = Some 1" using parse_index_show [of 1] unfolding one .
  have "validateDefinitionOfDone sample_done ''x'' ?op = Inr [?item]"
    by (simp add: sample_done_def validateDefinitionOfDone_def validate_item_def rejectUnknown_def checked_def
        and_then_def requireId_def requireString_def validateProof_def validateVerificationRef_def
        isIndexLike_def checkedIndex_def optional_def trim_def is_space_def is_digit_def id_char_def
        is_alnum_def is_word_char_def p one [simplified] stateCommands_def Let_def)
  from accepted_proof_reads_its_command [OF this, of ?item "''1''" 2 "[long_result, long_result]",
      unfolded dod_item.select_convs dod_options.select_convs, OF _ refl refl refl]
  have "\<exists>n < 2. ''1'' = show_nat n \<and>
    (pr_pass (proveVerification ''d'' ''1'' (compact_commands 0 0 0 [long_result, long_result])) \<longleftrightarrow>
       cr_passed ([long_result, long_result] ! n) \<and>
       argv_bytes (take (Suc n) [long_result, long_result]) \<le> stateArgvBytes \<and>
       env_bytes (take (Suc n) [long_result, long_result]) \<le> stateEnvBytes)"
    by (simp only: list.set insertI1 list.size)
  then obtain n where n: "n < 2" "''1'' = show_nat n"
    "pr_pass (proveVerification ''d'' ''1'' (compact_commands 0 0 0 [long_result, long_result])) \<longleftrightarrow>
       cr_passed ([long_result, long_result] ! n) \<and>
       argv_bytes (take (Suc n) [long_result, long_result]) \<le> stateArgvBytes \<and>
       env_bytes (take (Suc n) [long_result, long_result]) \<le> stateEnvBytes"
    by blast
  from n(2) have "Some n = Some 1" using parse_index_show [of n] p by simp
  with n(3) show ?thesis
    by (simp add: argv_bytes_def bytes_of_def long_result_def stateArgvBytes_def)
qed

end
