(* ===== verification/Contract_Graph.thy ===== *)
theory Contract_Graph
  imports Contract_Check Scheduler
begin

text \<open>
  The dependency graph of a contract (\<open>validateContract\<close>, \<open>assertAcyclic\<close>,
  \<open>transitiveDependencyClosure\<close> and \<open>dependencyCoversPath\<close> of \<open>src/contract/index.mjs\<close>): which graphs
  the validator accepts, what a node's closure is, and what acceptance means for the scheduler.

  \<open>byId\<close>, a map built from the nodes in order, is \<open>node_of\<close>: the last node of an id. Whether a root
  names a regular file is an argument.
\<close>

section \<open>The checks\<close>

definition node_of :: "node list \<Rightarrow> string \<Rightarrow> node option" where
  "node_of nodes i = find_last (\<lambda>n. nd_id n = i) nodes"

lemma node_of_SomeD: "node_of nodes i = Some n \<Longrightarrow> n \<in> set nodes \<and> nd_id n = i"
  by (auto simp: node_of_def dest: find_last_SomeD)

text \<open>The message of the first id that comes again.\<close>

fun duplicate_id :: "string list \<Rightarrow> node list \<Rightarrow> string option" where
  "duplicate_id seen [] = None"
| "duplicate_id seen (n # ns) =
     (if nd_id n \<in> set seen then Some (''duplicate node id: '' @ nd_id n)
      else duplicate_id (nd_id n # seen) ns)"

fun bad_dependency :: "string list \<Rightarrow> string \<Rightarrow> string list \<Rightarrow> string option" where
  "bad_dependency ids i [] = None"
| "bad_dependency ids i (d # ds) =
     (if d \<notin> set ids then Some (i @ '' depends on unknown node '' @ d)
      else if d = i then Some (i @ '' cannot depend on itself'')
      else bad_dependency ids i ds)"

fun bad_dependencies :: "string list \<Rightarrow> node list \<Rightarrow> string option" where
  "bad_dependencies ids [] = None"
| "bad_dependencies ids (n # ns) =
     orelse (bad_dependency ids (nd_id n) (nd_dependsOn n)) (bad_dependencies ids ns)"

text \<open>
  \<open>visit\<close> over a list of ids: \<open>path\<close> is the set \<open>visiting\<close>, \<open>visited\<close> grows. The left is the id the
  cycle is reported at.
\<close>

function visit_all :: "node list \<Rightarrow> string list \<Rightarrow> string list \<Rightarrow> string list \<Rightarrow> string + string list" where
  "visit_all nodes path [] visited = Inr visited"
| "visit_all nodes path (i # is) visited =
     (if i \<in> set path then Inl i
      else if i \<in> set visited then visit_all nodes path is visited
      else case node_of nodes i of
             None \<Rightarrow> Inl i
           | Some n \<Rightarrow>
               (case visit_all nodes (i # path) (nd_dependsOn n) visited of
                  Inl e \<Rightarrow> Inl e
                | Inr visited' \<Rightarrow> visit_all nodes path is (i # visited')))"
  by pat_completeness auto

termination
proof (relation "measures [\<lambda>(nodes, path, is, visited). card (nd_id ` set nodes - set path),
    \<lambda>(nodes, path, is, visited). length is]")
  fix nodes path i "is" visited n
  assume "i \<notin> set path" and "node_of nodes i = Some n"
  then have "card (nd_id ` set nodes - set (i # path)) < card (nd_id ` set nodes - set path)"
    by (intro psubset_card_mono) (auto dest!: node_of_SomeD)
  then show "((nodes, i # path, nd_dependsOn n, visited), nodes, path, i # is, visited)
    \<in> measures [\<lambda>(nodes, path, is, visited). card (nd_id ` set nodes - set path),
        \<lambda>(nodes, path, is, visited). length is]"
    by simp
qed simp_all

definition assertAcyclic :: "node list \<Rightarrow> string option" where
  "assertAcyclic nodes =
     (case visit_all nodes [] (map nd_id nodes) [] of
        Inl i \<Rightarrow> Some (''dependency cycle includes '' @ i)
      | Inr _ \<Rightarrow> None)"

definition validate_graph :: "node list \<Rightarrow> string option" where
  "validate_graph nodes =
     orelse (duplicate_id [] nodes)
     (orelse (bad_dependencies (map nd_id nodes) nodes) (assertAcyclic nodes))"

text \<open>\<open>visit\<close> of \<open>transitiveDependencyClosure\<close>, over a list of ids.\<close>

function closure_visit :: "node list \<Rightarrow> string list \<Rightarrow> string list \<Rightarrow> string list" where
  "closure_visit nodes [] closure = closure"
| "closure_visit nodes (i # is) closure =
     (case node_of nodes i of
        None \<Rightarrow> closure_visit nodes is closure
      | Some n \<Rightarrow>
          if i \<in> set closure then closure_visit nodes is closure
          else closure_visit nodes (nd_dependsOn n @ is) (closure @ [i]))"
  by pat_completeness auto
termination
proof (relation "measures [\<lambda>(nodes, is, closure). card (nd_id ` set nodes - set closure),
    \<lambda>(nodes, is, closure). length is]")
  fix nodes i "is" closure n
  assume "node_of nodes i = Some n" and "i \<notin> set closure"
  then have "card (nd_id ` set nodes - set (closure @ [i])) < card (nd_id ` set nodes - set closure)"
    by (intro psubset_card_mono) (auto dest!: node_of_SomeD)
  then show "((nodes, nd_dependsOn n @ is, closure @ [i]), nodes, i # is, closure)
    \<in> measures [\<lambda>(nodes, is, closure). card (nd_id ` set nodes - set closure),
        \<lambda>(nodes, is, closure). length is]"
    by simp
qed simp_all

definition transitiveDependencyClosure :: "node \<Rightarrow> node list \<Rightarrow> string list" where
  "transitiveDependencyClosure node nodes = closure_visit nodes (nd_dependsOn node) []"

definition packet_covers :: "(string \<Rightarrow> bool) \<Rightarrow> string \<Rightarrow> node \<Rightarrow> bool" where
  "packet_covers isRegularFileRoot path n \<longleftrightarrow>
     path \<in> set (nd_writeFiles n) \<or>
     list_ex (\<lambda>root. path = root \<or> \<not> isRegularFileRoot root \<and> starts_with path (root @ ''/''))
       (nd_writeRoots n)"

definition dependencyCoversPath :: "(string \<Rightarrow> bool) \<Rightarrow> node list \<Rightarrow> string list \<Rightarrow> string \<Rightarrow> bool" where
  "dependencyCoversPath isRegularFileRoot nodes closure path =
     list_ex (\<lambda>i. case node_of nodes i of None \<Rightarrow> False | Some n \<Rightarrow> packet_covers isRegularFileRoot path n)
       closure"

text \<open>The reads a packet defers: the first no dependency produces.\<close>

definition deferred_read_error ::
    "(string \<Rightarrow> bool) \<Rightarrow> node list \<Rightarrow> node \<Rightarrow> (string \<times> string) list \<Rightarrow> string option" where
  "deferred_read_error isRegularFileRoot nodes node reads =
     (let closure = transitiveDependencyClosure node nodes
      in map_option (\<lambda>(path, label). label @ '' does not exist: '' @ path)
           (List.find (\<lambda>(path, label). \<not> dependencyCoversPath isRegularFileRoot nodes closure path) reads))"

section \<open>Accepted graphs are acyclic\<close>

definition dep :: "node list \<Rightarrow> (string \<times> string) set" where
  "dep nodes = {(i, d). \<exists>n. node_of nodes i = Some n \<and> d \<in> set (nd_dependsOn n)}"

lemma finite_dep: "finite (dep nodes)"
proof -
  have "dep nodes \<subseteq> (\<Union>n \<in> set nodes. \<Union>d \<in> set (nd_dependsOn n). {(nd_id n, d)})"
    by (auto simp: dep_def dest!: node_of_SomeD)
  then show ?thesis by (rule finite_subset) auto
qed

text \<open>An id that is known, and whose dependencies are, all the way down.\<close>

inductive grounded :: "node list \<Rightarrow> string \<Rightarrow> bool" for nodes where
  "node_of nodes i = Some n \<Longrightarrow> (\<And>d. d \<in> set (nd_dependsOn n) \<Longrightarrow> grounded nodes d) \<Longrightarrow> grounded nodes i"

inductive_cases groundedE: "grounded nodes i"

lemma visit_all_sound:
  "visit_all nodes path is visited = Inr visited' \<Longrightarrow> \<forall>i \<in> set visited. grounded nodes i \<Longrightarrow>
   set visited \<subseteq> set visited' \<and> set is \<subseteq> set visited' \<and> (\<forall>i \<in> set visited'. grounded nodes i)"
proof (induction nodes path "is" visited arbitrary: visited' rule: visit_all.induct)
  case (2 nodes path i "is" visited)
  show ?case
  proof (cases "i \<in> set visited")
    case True
    with 2 show ?thesis by (auto split: if_splits)
  next
    case False
    have p: "i \<notin> set path" using 2(4) by (cases "i \<in> set path") simp_all
    obtain n where n: "node_of nodes i = Some n"
      using 2(4) p False by (cases "node_of nodes i") simp_all
    obtain w where w0: "visit_all nodes (i # path) (nd_dependsOn n) visited = Inr w"
      using 2(4) p False n by (cases "visit_all nodes (i # path) (nd_dependsOn n) visited") simp_all
    then have v: "visit_all nodes path is (i # w) = Inr visited'"
      using 2(4) p False n by simp
    note n = p n w0 v
    note ih = 2(2) [OF n(1) False n(2,3) 2(5)]
    note w = ih [THEN conjunct1] ih [THEN conjunct2, THEN conjunct1] ih [THEN conjunct2, THEN conjunct2]
    have "grounded nodes i" using n(2)
    proof (rule grounded.intros)
      fix d assume "d \<in> set (nd_dependsOn n)"
      with w show "grounded nodes d" by blast
    qed
    with w have "\<forall>j \<in> set (i # w). grounded nodes j" by simp
    from 2(3) [OF n(1) False n(2,3,4) this] w(1) show ?thesis by auto
  qed
qed auto

lemma grounded_no_loop: "grounded nodes i \<Longrightarrow> (i, i) \<notin> (dep nodes)\<^sup>+"
proof (induction rule: grounded.induct)
  case (1 i n)
  show ?case
  proof
    assume "(i, i) \<in> (dep nodes)\<^sup>+"
    then obtain d where d: "(i, d) \<in> dep nodes" "(d, i) \<in> (dep nodes)\<^sup>*"
      by (meson tranclD)
    then have "d \<in> set (nd_dependsOn n)" using 1(1) by (auto simp: dep_def)
    moreover have "(d, d) \<in> (dep nodes)\<^sup>+" using d by (meson rtrancl_into_trancl1)
    ultimately show False using 1(3) by blast
  qed
qed

lemma visit_all_complete:
  assumes "\<forall>i \<in> set is. grounded nodes i" and "\<forall>p \<in> set path. \<forall>i \<in> set is. (p, i) \<in> (dep nodes)\<^sup>+"
  shows "\<exists>visited'. visit_all nodes path is visited = Inr visited'"
  using assms
proof (induction nodes path "is" visited rule: visit_all.induct)
  case (2 nodes path i "is" visited)
  have g: "grounded nodes i" using 2(4) by simp
  have p: "i \<notin> set path" using 2(5) grounded_no_loop [OF g] by auto
  show ?case
  proof (cases "i \<in> set visited")
    case True
    with 2 p show ?thesis by auto
  next
    case False
    from g obtain n where n: "node_of nodes i = Some n" "\<And>d. d \<in> set (nd_dependsOn n) \<Longrightarrow> grounded nodes d"
      by (rule groundedE) auto
    have d: "(i, d) \<in> dep nodes" if "d \<in> set (nd_dependsOn n)" for d
      using that n(1) by (auto simp: dep_def)
    have "\<forall>q \<in> set (i # path). \<forall>d \<in> set (nd_dependsOn n). (q, d) \<in> (dep nodes)\<^sup>+"
      using d 2(5) by (auto intro: trancl_into_trancl)
    with 2(2) [OF p False n(1)] n(2) obtain w where
        w: "visit_all nodes (i # path) (nd_dependsOn n) visited = Inr w"
      by blast
    with 2(3) [OF p False n(1) w] 2(4,5) p False n(1) show ?thesis by simp
  qed
qed simp

lemma assertAcyclic_grounded: "assertAcyclic nodes = None \<longleftrightarrow> (\<forall>n \<in> set nodes. grounded nodes (nd_id n))"
proof
  assume "assertAcyclic nodes = None"
  then obtain v where "visit_all nodes [] (map nd_id nodes) [] = Inr v"
    by (auto simp: assertAcyclic_def split: sum.splits)
  from visit_all_sound [OF this] show "\<forall>n \<in> set nodes. grounded nodes (nd_id n)" by auto
next
  assume "\<forall>n \<in> set nodes. grounded nodes (nd_id n)"
  then obtain v where "visit_all nodes [] (map nd_id nodes) [] = Inr v"
    using visit_all_complete [of "map nd_id nodes" nodes "[]" "[]"] by auto
  then show "assertAcyclic nodes = None" by (simp add: assertAcyclic_def)
qed

lemma duplicate_id_None: "duplicate_id seen ns = None \<longleftrightarrow>
    distinct (map nd_id ns) \<and> nd_id ` set ns \<inter> set seen = {}"
  by (induction ns arbitrary: seen) auto

lemma bad_dependency_None: "bad_dependency ids i ds = None \<longleftrightarrow> set ds \<subseteq> set ids - {i}"
  by (induction ds) auto

lemma bad_dependencies_None: "bad_dependencies ids ns = None \<longleftrightarrow>
    (\<forall>n \<in> set ns. set (nd_dependsOn n) \<subseteq> set ids - {nd_id n})"
  by (induction ns) (auto simp: bad_dependency_None)

lemma node_of_distinct: "distinct (map nd_id nodes) \<Longrightarrow> n \<in> set nodes \<Longrightarrow> node_of nodes (nd_id n) = Some n"
  by (induction nodes rule: rev_induct) (auto simp: node_of_def)

lemma grounded_acyclic:
  assumes "\<forall>n \<in> set nodes. grounded nodes (nd_id n)"
  shows "acyclic (dep nodes)"
proof (rule acyclicI, rule allI)
  fix i
  show "(i, i) \<notin> (dep nodes)\<^sup>+"
  proof
    assume l: "(i, i) \<in> (dep nodes)\<^sup>+"
    then obtain d where "(i, d) \<in> dep nodes" by (meson tranclD)
    then have "i \<in> nd_id ` set nodes" by (auto simp: dep_def dest!: node_of_SomeD)
    with assms grounded_no_loop l show False by blast
  qed
qed

lemma acyclic_grounded:
  assumes "acyclic (dep nodes)" and "\<forall>n \<in> set nodes. set (nd_dependsOn n) \<subseteq> nd_id ` set nodes"
    and "i \<in> nd_id ` set nodes"
  shows "grounded nodes i"
proof -
  have "wf ((dep nodes)\<inverse>)" using finite_dep assms(1) by (rule finite_acyclic_wf_converse)
  then show ?thesis using assms(3)
  proof (induction i rule: wf_induct_rule)
    case (less i)
    from less.prems obtain m where "m \<in> set nodes" "nd_id m = i" by blast
    then have "node_of nodes i \<noteq> None" unfolding node_of_def find_last_None_iff by blast
    then obtain n where n: "node_of nodes i = Some n" by blast
    show ?case
    proof (rule grounded.intros [OF n])
      fix d assume "d \<in> set (nd_dependsOn n)"
      moreover from this have "(i, d) \<in> dep nodes" using n by (auto simp: dep_def)
      moreover have "d \<in> nd_id ` set nodes"
        using assms(2) node_of_SomeD [OF n] \<open>d \<in> set (nd_dependsOn n)\<close> by blast
      ultimately show "grounded nodes d" using less.IH by simp
    qed
  qed
qed

text \<open>
  The validator accepts a contract's graph exactly when its ids are distinct, every dependency
  names a node of the contract, and no node depends on itself, directly or through others.
\<close>

theorem accepted_graph_is_acyclic:
  "validate_graph nodes = None \<longleftrightarrow>
     distinct (map nd_id nodes) \<and>
     (\<forall>n \<in> set nodes. set (nd_dependsOn n) \<subseteq> nd_id ` set nodes) \<and>
     acyclic {(nd_id n, d) | n d. n \<in> set nodes \<and> d \<in> set (nd_dependsOn n)}"
proof -
  let ?E = "{(nd_id n, d) | n d. n \<in> set nodes \<and> d \<in> set (nd_dependsOn n)}"
  have E: "?E = dep nodes" if "distinct (map nd_id nodes)"
    using node_of_distinct [OF that] by (force simp: dep_def dest!: node_of_SomeD)
  have g: "(\<forall>n \<in> set nodes. grounded nodes (nd_id n)) \<longleftrightarrow> acyclic (dep nodes)"
    if "\<forall>n \<in> set nodes. set (nd_dependsOn n) \<subseteq> nd_id ` set nodes"
    using grounded_acyclic acyclic_grounded [OF _ that] by blast
  have self: "d \<noteq> nd_id n" if "acyclic ?E" "n \<in> set nodes" "d \<in> set (nd_dependsOn n)" for n d
  proof
    assume "d = nd_id n"
    with that(2,3) have "(nd_id n, nd_id n) \<in> ?E" by blast
    then have "(nd_id n, nd_id n) \<in> ?E\<^sup>+" by blast
    with that(1) show False by (simp add: acyclic_def)
  qed
  have "validate_graph nodes = None \<longleftrightarrow> distinct (map nd_id nodes) \<and>
    (\<forall>n \<in> set nodes. set (nd_dependsOn n) \<subseteq> nd_id ` set nodes - {nd_id n}) \<and>
    (\<forall>n \<in> set nodes. grounded nodes (nd_id n))"
    by (simp add: validate_graph_def duplicate_id_None bad_dependencies_None assertAcyclic_grounded)
  note v = this
  show ?thesis
  proof
    assume a: "validate_graph nodes = None"
    with v have d: "distinct (map nd_id nodes)"
      and k: "\<forall>n \<in> set nodes. set (nd_dependsOn n) \<subseteq> nd_id ` set nodes" by blast+
    with a v g [OF k] have "acyclic ?E" unfolding E [OF d] by blast
    with d k show "distinct (map nd_id nodes) \<and>
      (\<forall>n \<in> set nodes. set (nd_dependsOn n) \<subseteq> nd_id ` set nodes) \<and> acyclic ?E" by simp
  next
    assume a: "distinct (map nd_id nodes) \<and>
      (\<forall>n \<in> set nodes. set (nd_dependsOn n) \<subseteq> nd_id ` set nodes) \<and> acyclic ?E"
    then have d: "distinct (map nd_id nodes)"
      and k: "\<forall>n \<in> set nodes. set (nd_dependsOn n) \<subseteq> nd_id ` set nodes" and c: "acyclic ?E" by simp_all
    have "\<forall>n \<in> set nodes. grounded nodes (nd_id n)"
      using g [OF k] c unfolding E [OF d] by simp
    moreover have "\<forall>n \<in> set nodes. set (nd_dependsOn n) \<subseteq> nd_id ` set nodes - {nd_id n}"
      using k self [OF c] by blast
    ultimately show "validate_graph nodes = None" using v d by simp
  qed
qed

section \<open>The closure is what is reachable\<close>

abbreviation known :: "node list \<Rightarrow> string set" where
  "known nodes \<equiv> {i. node_of nodes i \<noteq> None}"

definition reaches_from :: "node list \<Rightarrow> string set \<Rightarrow> string set \<Rightarrow> string set \<Rightarrow> bool" where
  "reaches_from nodes todo closure result \<longleftrightarrow>
     closure \<subseteq> result \<and> todo \<inter> known nodes \<subseteq> result \<and>
     (\<forall>c \<in> result. dep nodes `` {c} \<inter> known nodes \<subseteq> result) \<and>
     result \<subseteq> closure \<union> (dep nodes)\<^sup>* `` todo"

lemma reaches_from_step:
  assumes "reaches_from nodes (D \<union> T) (insert i C) R" and "dep nodes `` {i} = D"
  shows "reaches_from nodes (insert i T) C R"
proof -
  have "y \<in> (dep nodes)\<^sup>* `` insert i T" if "y \<in> (dep nodes)\<^sup>* `` (D \<union> T)" for y
  proof -
    from that obtain x where x: "x \<in> D \<or> x \<in> T" "(x, y) \<in> (dep nodes)\<^sup>*" by blast
    show ?thesis
    proof (cases "x \<in> T")
      case False
      with x(1) assms(2) have "(i, x) \<in> dep nodes" by blast
      with x(2) have "(i, y) \<in> (dep nodes)\<^sup>*" by (meson converse_rtrancl_into_rtrancl)
      then show ?thesis by blast
    qed (use x(2) in blast)
  qed
  then have sub: "(dep nodes)\<^sup>* `` (D \<union> T) \<subseteq> (dep nodes)\<^sup>* `` insert i T" by (rule subsetI)
  have i: "i \<in> (dep nodes)\<^sup>* `` insert i T" by blast
  have r: "insert i C \<subseteq> R" "(D \<union> T) \<inter> known nodes \<subseteq> R"
    "\<forall>c \<in> R. dep nodes `` {c} \<inter> known nodes \<subseteq> R" "R \<subseteq> insert i C \<union> (dep nodes)\<^sup>* `` (D \<union> T)"
    using assms(1) unfolding reaches_from_def by blast+
  show ?thesis unfolding reaches_from_def
  proof (intro conjI)
    show "R \<subseteq> C \<union> (dep nodes)\<^sup>* `` insert i T"
    proof
      fix y assume "y \<in> R"
      then have "y \<in> insert i C \<union> (dep nodes)\<^sup>* `` (D \<union> T)" by (rule subsetD [OF r(4)])
      with sub i show "y \<in> C \<union> (dep nodes)\<^sup>* `` insert i T" by (elim UnE insertE) auto
    qed
    show "insert i T \<inter> known nodes \<subseteq> R"
    proof
      fix y assume "y \<in> insert i T \<inter> known nodes"
      with r(1,2) show "y \<in> R" by (cases "y = i") auto
    qed
    show "C \<subseteq> R" using r(1) by simp
  qed (rule r(3))
qed

lemma closure_visit_reach:
  "\<forall>c \<in> set closure. dep nodes `` {c} \<inter> known nodes \<subseteq> set closure \<union> set is \<Longrightarrow>
   reaches_from nodes (set is) (set closure) (set (closure_visit nodes is closure))"
proof (induction nodes "is" closure rule: closure_visit.induct)
  case (1 nodes closure)
  then show ?case by (simp add: reaches_from_def)
next
  case (2 nodes i "is" closure)
  let ?C = "set closure" and ?R = "set (closure_visit nodes (i # is) closure)"
  have inv: "\<forall>c \<in> ?C. dep nodes `` {c} \<inter> known nodes \<subseteq> ?C \<union> insert i (set is)"
    using 2(4) by simp
  show ?case
  proof (cases "node_of nodes i")
    case None
    then have i: "i \<notin> known nodes" by simp
    have "\<forall>c \<in> ?C. dep nodes `` {c} \<inter> known nodes \<subseteq> ?C \<union> set is" using inv i by blast
    from 2(1) [OF None this] have r: "reaches_from nodes (set is) ?C ?R" using None by simp
    then show ?thesis using i unfolding reaches_from_def list.set by blast
  next
    case (Some n)
    show ?thesis
    proof (cases "i \<in> ?C")
      case True
      have "\<forall>c \<in> ?C. dep nodes `` {c} \<inter> known nodes \<subseteq> ?C \<union> set is" using inv True by blast
      from 2(2) [OF Some True this] have r: "reaches_from nodes (set is) ?C ?R" using Some True by simp
      then show ?thesis using True unfolding reaches_from_def list.set by blast
    next
      case False
      have deps: "dep nodes `` {i} = set (nd_dependsOn n)" using Some by (auto simp: dep_def)
      have "\<forall>c \<in> set (closure @ [i]).
          dep nodes `` {c} \<inter> known nodes \<subseteq> set (closure @ [i]) \<union> set (nd_dependsOn n @ is)"
        using inv deps unfolding set_append list.set by blast
      from 2(3) [OF Some False this]
      have r: "reaches_from nodes (set (nd_dependsOn n) \<union> set is) (insert i ?C) ?R"
        using Some False by simp
      from reaches_from_step [OF r deps] show ?thesis by simp
    qed
  qed
qed

text \<open>
  In an accepted contract the closure against which a node's missing reads are checked is every
  node it depends on, directly or through others, and never the node itself.
\<close>

theorem closure_is_every_dependency:
  assumes "validate_graph nodes = None" and "n \<in> set nodes"
  shows "set (transitiveDependencyClosure n nodes) = {i. (nd_id n, i) \<in> (dep nodes)\<^sup>+} \<and>
    nd_id n \<notin> set (transitiveDependencyClosure n nodes)"
proof -
  have v: "distinct (map nd_id nodes)" "\<forall>n \<in> set nodes. set (nd_dependsOn n) \<subseteq> nd_id ` set nodes"
    and g: "\<forall>n \<in> set nodes. grounded nodes (nd_id n)"
    using assms(1) unfolding validate_graph_def orelse_eq_None duplicate_id_None bad_dependencies_None
      assertAcyclic_grounded by auto
  have n: "node_of nodes (nd_id n) = Some n" using node_of_distinct [OF v(1) assms(2)] .
  have deps: "set (nd_dependsOn n) = dep nodes `` {nd_id n}" using n by (auto simp: dep_def)
  have known: "d \<in> known nodes" if "(i, d) \<in> dep nodes" for i d
    using that v node_of_distinct [OF v(1)] by (force simp: dep_def dest!: node_of_SomeD)
  let ?R = "set (transitiveDependencyClosure n nodes)"
  have r: "reaches_from nodes (set (nd_dependsOn n)) {} ?R"
    using closure_visit_reach [of "[]" nodes "nd_dependsOn n"] by (simp add: transitiveDependencyClosure_def)
  have "i \<in> ?R" if "(nd_id n, i) \<in> (dep nodes)\<^sup>+" for i
    using that
  proof (induction rule: trancl_induct)
    case (base d)
    with r deps known [OF base] show ?case unfolding reaches_from_def by blast
  next
    case (step d e)
    with r known [OF step(2)] show ?case unfolding reaches_from_def by blast
  qed
  moreover have "(nd_id n, i) \<in> (dep nodes)\<^sup>+" if "i \<in> ?R" for i
  proof -
    from that r obtain d where "d \<in> set (nd_dependsOn n)" "(d, i) \<in> (dep nodes)\<^sup>*"
      unfolding reaches_from_def by blast
    with deps show ?thesis by (auto intro: rtrancl_into_trancl2)
  qed
  ultimately have "?R = {i. (nd_id n, i) \<in> (dep nodes)\<^sup>+}" by blast
  with g grounded_no_loop assms(2) show ?thesis by auto
qed

section \<open>No contract the validator accepts deadlocks\<close>

lemma block_pass_blocks:
  assumes "distinct (map nd_id ns)" and "n \<in> set ns" and "status_of (snd w) (nd_id n) = Some Pending"
    and "d \<in> set (nd_dependsOn n)" and "parked_in (snd w) d"
  shows "status_of (snd (fold (block_step now) ns w)) (nd_id n) = Some Blocked"
  using assms
proof (induction ns arbitrary: w)
  case (Cons m ns)
  let ?w = "block_step now m w"
  have parked: "parked_in (snd ?w) d"
  proof (cases "d = nd_id m")
    case True
    with Cons.prems(5) show ?thesis
      using block_step_self [of now m w] by (auto simp: parked_in_def split: option.splits if_splits)
  next
    case False
    with Cons.prems(5) show ?thesis by (simp add: parked_in_def status_of_def block_step_other)
  qed
  show ?case
  proof (cases "n = m")
    case True
    have b: "status_of (snd ?w) (nd_id n) = Some Blocked"
      using True Cons.prems(3-5) block_step_self [of now m w] by (auto simp: list_ex_iff)
    have "nd_id n \<notin> nd_id ` set ns" using True Cons.prems(1) by simp
    then have "status_of (snd (fold (block_step now) ns v)) (nd_id n) = status_of (snd v) (nd_id n)" for v
      by (induction ns arbitrary: v) (auto simp: status_of_def block_step_other)
    with b show ?thesis by simp
  next
    case False
    with Cons.prems(1,2) have n: "n \<in> set ns" "nd_id n \<noteq> nd_id m" by (auto simp: image_iff)
    with Cons.prems(3) have "status_of (snd ?w) (nd_id n) = Some Pending"
      by (simp add: status_of_def block_step_other)
    with Cons.IH [of ?w] Cons.prems(1,4) n(1) parked show ?thesis by simp
  qed
qed simp

text \<open>
  C14. A controller of an accepted contract is stuck only behind a node that is canceled or \<open>no-op\<close>: while
  some node is pending and none runs, some pending node can be started, or the pass over the dependants of
  parked nodes blocks one, or a pending node depends on one that is canceled or \<open>no-op\<close>. Those two are
  terminal, but a dependant is started only when its dependencies are \<open>done\<close> and blocked only when one of
  them is parked, so behind them it waits; nothing else can hold a run.
\<close>

theorem accepted_contract_never_stuck:
  assumes "validate_graph (ct_nodes contract) = None"
    and "\<forall>n \<in> set (ct_nodes contract). \<exists>s. status_of (snd w) (nd_id n) = Some s \<and> s \<noteq> Running"
    and "n \<in> set (ct_nodes contract)" and "status_of (snd w) (nd_id n) = Some Pending"
  shows "ready_nodes contract (snd w) [] \<noteq> [] \<or>
    (\<exists>m \<in> set (ct_nodes contract). status_of (snd w) (nd_id m) = Some Pending \<and>
       (status_of (snd (blockDependents contract w now)) (nd_id m) = Some Blocked \<or>
        (\<exists>d \<in> set (nd_dependsOn m). status_of (snd w) d \<in> {Some Canceled, Some No_op})))"
proof -
  let ?N = "ct_nodes contract" and ?pending = "\<lambda>i. status_of (snd w) i = Some Pending"
  have v: "distinct (map nd_id ?N)" "\<forall>n \<in> set ?N. set (nd_dependsOn n) \<subseteq> nd_id ` set ?N"
    and g: "\<forall>n \<in> set ?N. grounded ?N (nd_id n)"
    using assms(1) unfolding validate_graph_def orelse_eq_None duplicate_id_None bad_dependencies_None
      assertAcyclic_grounded by auto
  have "wf ((dep ?N)\<inverse>)"
    using finite_dep grounded_acyclic [OF g] by (rule finite_acyclic_wf_converse)
  moreover have "nd_id n \<in> {i \<in> nd_id ` set ?N. ?pending i}" using assms(3,4) by simp
  ultimately obtain i where i: "i \<in> nd_id ` set ?N" "?pending i"
      "\<And>j. (j, i) \<in> (dep ?N)\<inverse> \<Longrightarrow> j \<notin> {i \<in> nd_id ` set ?N. ?pending i}"
    by (rule wfE_min) blast
  then obtain m where m: "m \<in> set ?N" "nd_id m = i" by blast
  have d: "d \<in> nd_id ` set ?N" "\<not> ?pending d" if "d \<in> set (nd_dependsOn m)" for d
  proof -
    show k: "d \<in> nd_id ` set ?N" using that v(2) m(1) by blast
    have "(i, d) \<in> dep ?N" using node_of_distinct [OF v(1) m(1)] m(2) that by (auto simp: dep_def)
    with i(3) [of d] k show "\<not> ?pending d" by simp
  qed
  show ?thesis
  proof (cases "\<exists>d \<in> set (nd_dependsOn m). parked_in (snd w) d")
    case True
    then have "status_of (snd (blockDependents contract w now)) (nd_id m) = Some Blocked"
      using block_pass_blocks [OF v(1) m(1)] i(2) m(2) unfolding blockDependents_def by blast
    with m i(2) show ?thesis by blast
  next
    case unparked: False
    show ?thesis
    proof (cases "\<exists>d \<in> set (nd_dependsOn m). status_of (snd w) d \<in> {Some Canceled, Some No_op}")
      case True
      with m i(2) show ?thesis by blast
    next
      case False
      have "status_of (snd w) d = Some Done" if "d \<in> set (nd_dependsOn m)" for d
      proof -
        have k: "d \<in> nd_id ` set ?N" using d(1) [OF that] .
        obtain s where s: "status_of (snd w) d = Some s" "s \<noteq> Running"
          using k assms(2) by blast
        have "\<not> PARKED s" using unparked that s(1) by (auto simp: parked_in_def)
        with s d(2) [OF that] False that show ?thesis by (cases s) auto
      qed
      then have "m \<in> set (ready_nodes contract (snd w) [])"
        using m i(2) by (auto simp: ready_nodes_def list_all_iff)
      then show ?thesis by auto
    qed
  qed
qed

section \<open>Witnesses\<close>

text \<open>A contract that lists a dependant before what it depends on, and one with a cycle.\<close>

definition sample_graph :: "node list" where
  "sample_graph = [sample_node ''c'' [''b''] None None, sample_node ''b'' [''a''] None None,
     sample_node ''a'' [] None None]"

lemma sample_graph_accepted: "validate_graph sample_graph = None"
  by code_simp

theorem accepted_graph_is_acyclic_witness:
  "acyclic {(nd_id n, d) | n d. n \<in> set sample_graph \<and> d \<in> set (nd_dependsOn n)} \<and>
   validate_graph [sample_node ''a'' [''b''] None None, sample_node ''b'' [''a''] None None] =
     Some ''dependency cycle includes a''"
proof -
  have "validate_graph [sample_node ''a'' [''b''] None None, sample_node ''b'' [''a''] None None] =
     Some ''dependency cycle includes a''" by code_simp
  with accepted_graph_is_acyclic [of sample_graph] sample_graph_accepted show ?thesis by blast
qed

theorem closure_is_every_dependency_witness:
  "{i. (''c'', i) \<in> (dep sample_graph)\<^sup>+} = {''a'', ''b''}"
proof -
  have n: "sample_node ''c'' [''b''] None None \<in> set sample_graph" by (simp add: sample_graph_def)
  have "transitiveDependencyClosure (sample_node ''c'' [''b''] None None) sample_graph = [''b'', ''a'']"
    by code_simp
  moreover have "nd_id (sample_node ''c'' [''b''] None None) = ''c''" by (simp add: sample_node_def)
  ultimately show ?thesis
    using closure_is_every_dependency [OF sample_graph_accepted n] by auto
qed

theorem accepted_contract_never_stuck_witness:
  "\<exists>m \<in> set sample_graph.
     status_of (snd (blockDependents (sample_contract False sample_graph)
       (sample_run_dir, [(''a'', sample_snapshot ''a'' Failed Ph_worker),
          (''b'', sample_snapshot ''b'' Pending Ph_waiting), (''c'', sample_snapshot ''c'' Pending Ph_waiting)]) 1))
       (nd_id m) = Some Blocked"
proof -
  let ?K = "sample_contract False sample_graph"
  let ?w = "(sample_run_dir, [(''a'', sample_snapshot ''a'' Failed Ph_worker),
    (''b'', sample_snapshot ''b'' Pending Ph_waiting), (''c'', sample_snapshot ''c'' Pending Ph_waiting)])"
  have k: "ct_nodes ?K = sample_graph" by (simp add: sample_contract_def)
  have s: "\<forall>n \<in> set (ct_nodes ?K). \<exists>s. status_of (snd ?w) (nd_id n) = Some s \<and> s \<noteq> Running"
    unfolding k by (auto simp: sample_graph_def sample_node_def status_of_def sample_snapshot_def)
  have g: "validate_graph (ct_nodes ?K) = None" unfolding k by (rule sample_graph_accepted)
  have b: "sample_node ''b'' [''a''] None None \<in> set (ct_nodes ?K)" unfolding k by (simp add: sample_graph_def)
  have p: "status_of (snd ?w) (nd_id (sample_node ''b'' [''a''] None None)) = Some Pending"
    by (simp add: sample_node_def status_of_def sample_snapshot_def)
  have r: "ready_nodes ?K (snd ?w) [] = []" by code_simp
  from accepted_contract_never_stuck [OF g s b p, of 1] r
  have "\<exists>m \<in> set (ct_nodes ?K). status_of (snd (blockDependents ?K ?w 1)) (nd_id m) = Some Blocked \<or>
      (\<exists>d \<in> set (nd_dependsOn m). status_of (snd ?w) d \<in> {Some Canceled, Some No_op})" by blast
  moreover have "\<forall>m \<in> set (ct_nodes ?K). \<forall>d \<in> set (nd_dependsOn m). status_of (snd ?w) d \<notin> {Some Canceled, Some No_op}"
    unfolding k by (auto simp: sample_graph_def sample_node_def status_of_def sample_snapshot_def)
  ultimately have "\<exists>m \<in> set (ct_nodes ?K). status_of (snd (blockDependents ?K ?w 1)) (nd_id m) = Some Blocked"
    by blast
  then show ?thesis unfolding k .
qed

end
