(* ===== verification/Plan_Sizing.thy ===== *)
theory Plan_Sizing
  imports Contract_Check Workspace
begin

text \<open>
  The sizing of a drafted plan (\<open>src/plan/sizing.mjs\<close>, with \<open>toSizingNode\<close>, \<open>toContractNode\<close> of
  \<open>src/plan/pipeline-shape.mjs\<close> and \<open>carryPhaseDeclarations\<close> of \<open>src/plan/pipeline.mjs\<close>): which
  nodes are merged, what a merged node carries, which run in parallel, how deep the graph is.

  A drafted node is the record \<open>plan_node\<close>. The code folds a child into its parent by writing into the
  parent and filtering the child out of a copied list; here a fold returns the new list. A
  transformation keeps its rule and its nodes; its detail is prose. \<open>byId\<close>, a map built in order, is the
  last node of an id. A packet's \<open>writeRoots\<close>, which no rule reads and \<open>toSizingNode\<close> does not pass, is
  left out.
\<close>

section \<open>Plans\<close>

record sizing_command =
  sc_command :: command
  sc_measuredMs :: "rat option"
  sc_flagged :: bool

record plan_node =
  pn_id :: string
  pn_dependsOn :: "string list option"
  pn_taskKind :: "string option"
  pn_riskTier :: "string option"
  pn_objective :: "string option"
  pn_expectedTurns :: "nat option"
  pn_definitionOfDone :: "dod_item list option"
  pn_readFiles :: "string list option"
  pn_writeFiles :: "string list option"
  pn_scopeAcknowledged :: "string list option"
  pn_verification :: "sizing_command list"
  pn_parallel :: bool
  pn_flaggedOverTurnCeiling :: bool

record transformation =
  tr_rule :: string
  tr_nodes :: "string list"

record sizing_options =
  so_nodeBudgetMs :: rat
  so_targetedFix :: bool
  so_paths :: "string list option"
  so_testFiles :: "(string \<times> string list) list"
  so_minWriteFiles :: "nat option"
  so_maxMergedWriteFiles :: "nat option"
  so_turnCeiling :: "nat option"
  so_exploratory :: bool
  so_readVolume :: "(string \<Rightarrow> nat option) option"

record sized =
  sz_nodes :: "plan_node list"
  sz_transformations :: "transformation list"
  sz_overheadMinutes :: rat

definition DEPTH_CEILING :: nat where "DEPTH_CEILING = 8"
definition MIN_WRITE_FILES :: nat where "MIN_WRITE_FILES = 4"
definition MAX_MERGED_WRITE_FILES :: nat where "MAX_MERGED_WRITE_FILES = 6"
definition NODE_OVERHEAD_MINUTES :: rat where "NODE_OVERHEAD_MINUTES = 29 / 2"
definition MAX_PROVEN_PARALLELISM :: nat where "MAX_PROVEN_PARALLELISM = 2"
definition READ_VOLUME_IMBALANCE_RATIO :: rat where "READ_VOLUME_IMBALANCE_RATIO = 3"

section \<open>Folding a node into another\<close>

definition deps_of :: "plan_node \<Rightarrow> string list" where
  "deps_of n = nullish (pn_dependsOn n) []"

definition hasMechanicalProof :: "plan_node \<Rightarrow> bool" where
  "hasMechanicalProof n \<longleftrightarrow> list_ex (\<lambda>item. dod_proof item \<noteq> None) (nullish (pn_definitionOfDone n) [])"

definition writeFilesOf :: "plan_node \<Rightarrow> string list" where
  "writeFilesOf n = nullish (pn_writeFiles n) []"

definition isNonEmptySubsetOf :: "string list \<Rightarrow> string list \<Rightarrow> bool" where
  "isNonEmptySubsetOf sub super \<longleftrightarrow> sub \<noteq> [] \<and> list_all (\<lambda>p. p \<in> set super) sub"

definition findContainingNode :: "plan_node \<Rightarrow> plan_node list \<Rightarrow> plan_node option" where
  "findContainingNode n nodes =
     List.find (\<lambda>c. pn_id c \<noteq> pn_id n \<and> isNonEmptySubsetOf (writeFilesOf n) (writeFilesOf c)) nodes"

text \<open>\<open>dedupe\<close> is \<open>uniq\<close>; the two others keep the first of every key.\<close>

fun first_of_key :: "('a \<Rightarrow> 'k) \<Rightarrow> 'k list \<Rightarrow> 'a list \<Rightarrow> 'a list" where
  "first_of_key key seen [] = []"
| "first_of_key key seen (x # xs) =
     (if key x \<in> set seen then first_of_key key seen xs
      else x # first_of_key key (key x # seen) xs)"

definition dedupeById :: "dod_item list \<Rightarrow> dod_item list" where
  "dedupeById items = first_of_key dod_id [] items"

definition verification_key :: "sizing_command \<Rightarrow> string" where
  "verification_key v = join_with [CHR 0x00] (cmd_argv (sc_command v))"

definition dedupeVerification :: "sizing_command list \<Rightarrow> sizing_command list" where
  "dedupeVerification commands = first_of_key verification_key [] commands"

definition union_files :: "string list option \<Rightarrow> string list option \<Rightarrow> bool \<Rightarrow> string list option" where
  "union_files parent child keep =
     (if keep then Some (uniq (nullish parent [] @ nullish child [])) else parent)"

definition merged_node :: "plan_node \<Rightarrow> plan_node \<Rightarrow> plan_node" where
  "merged_node child parent = parent\<lparr>
     pn_writeFiles := union_files (pn_writeFiles parent) (pn_writeFiles child) True,
     pn_readFiles := union_files (pn_readFiles parent) (pn_readFiles child)
       (pn_readFiles parent \<noteq> None \<or> nullish (pn_readFiles child) [] \<noteq> []),
     pn_scopeAcknowledged := union_files (pn_scopeAcknowledged parent) (pn_scopeAcknowledged child)
       (nullish (pn_scopeAcknowledged parent) [] \<noteq> [] \<or> nullish (pn_scopeAcknowledged child) [] \<noteq> []),
     pn_expectedTurns :=
       (if pn_expectedTurns parent \<noteq> None \<or> pn_expectedTurns child \<noteq> None
        then Some (nullish (pn_expectedTurns parent) 0 + nullish (pn_expectedTurns child) 0)
        else pn_expectedTurns parent),
     pn_objective :=
       (case (pn_objective parent, pn_objective child) of
          (Some a, Some b) \<Rightarrow> Some (if a = b then a else a @ '' Also: '' @ b)
        | (a, _) \<Rightarrow> a),
     pn_verification := dedupeVerification (pn_verification parent @ pn_verification child),
     pn_definitionOfDone :=
       Some (dedupeById (nullish (pn_definitionOfDone parent) [] @ nullish (pn_definitionOfDone child) [])),
     pn_dependsOn := Some (filter (\<lambda>i. i \<noteq> pn_id parent \<and> i \<noteq> pn_id child)
       (uniq (deps_of parent @ deps_of child)))\<rparr>"

definition redirected :: "string \<Rightarrow> string \<Rightarrow> plan_node \<Rightarrow> plan_node" where
  "redirected child parent n = n\<lparr>pn_dependsOn := Some (filter (\<lambda>i. i \<noteq> pn_id n)
     (uniq (map (\<lambda>i. if i = child then parent else i) (deps_of n))))\<rparr>"

definition foldNodeInto :: "plan_node list \<Rightarrow> plan_node \<Rightarrow> plan_node \<Rightarrow> plan_node list" where
  "foldNodeInto nodes child parent =
     map (\<lambda>n. if pn_id n = pn_id parent then merged_node child parent
              else redirected (pn_id child) (pn_id parent) n)
       (filter (\<lambda>n. pn_id n \<noteq> pn_id child) nodes)"

definition merge_of :: "string \<Rightarrow> plan_node \<Rightarrow> plan_node \<Rightarrow> transformation" where
  "merge_of rule child parent = \<lparr>tr_rule = rule, tr_nodes = [pn_id child, pn_id parent]\<rparr>"

lemma foldNodeInto_shorter:
  "child \<in> set nodes \<Longrightarrow> length (foldNodeInto nodes child parent) < length nodes"
  by (auto simp: foldNodeInto_def intro: length_filter_less)

section \<open>The merge rules\<close>

text \<open>The first declared dependency that the plan has, else the first node that contains its writes.\<close>

definition plan_node_of :: "plan_node list \<Rightarrow> string \<Rightarrow> plan_node option" where
  "plan_node_of nodes i = find_last (\<lambda>n. pn_id n = i) nodes"

definition proof_parent :: "plan_node \<Rightarrow> plan_node list \<Rightarrow> plan_node option" where
  "proof_parent child nodes =
     orelse (head_opt (List.map_filter (plan_node_of nodes) (deps_of child))) (findContainingNode child nodes)"

function mergeNoMechanicalProof ::
    "plan_node list \<Rightarrow> string list \<Rightarrow> transformation list \<Rightarrow> plan_node list \<times> transformation list" where
  "mergeNoMechanicalProof nodes skip ts =
     (case List.find (\<lambda>n. pn_id n \<notin> set skip \<and> \<not> hasMechanicalProof n) nodes of
        None \<Rightarrow> (nodes, ts)
      | Some child \<Rightarrow>
          (case proof_parent child nodes of
             None \<Rightarrow> mergeNoMechanicalProof nodes (pn_id child # skip) ts
           | Some parent \<Rightarrow>
               mergeNoMechanicalProof (foldNodeInto nodes child parent) skip
                 (ts @ [merge_of ''no-mechanical-proof-merge'' child parent])))"
  by pat_completeness auto
termination
proof (relation "measures [\<lambda>(nodes, skip, ts). length nodes,
    \<lambda>(nodes, skip, ts). length (filter (\<lambda>n. pn_id n \<notin> set skip) nodes)]")
  fix nodes skip child
  assume "List.find (\<lambda>n. pn_id n \<notin> set skip \<and> \<not> hasMechanicalProof n) nodes = Some child"
  then have child: "child \<in> set nodes" "pn_id child \<notin> set skip" by (auto dest: find_SomeD)
  show "((foldNodeInto nodes child parent, skip, ts'), nodes, skip, ts)
    \<in> measures [\<lambda>(nodes, skip, ts). length nodes,
        \<lambda>(nodes, skip, ts). length (filter (\<lambda>n. pn_id n \<notin> set skip) nodes)]"
    for parent ts' and ts :: "transformation list"
    using foldNodeInto_shorter [OF child(1)] by simp
  have "filter (\<lambda>n. pn_id n \<notin> set (pn_id child # skip)) nodes =
      filter (\<lambda>n. pn_id n \<noteq> pn_id child) (filter (\<lambda>n. pn_id n \<notin> set skip) nodes)"
    by (auto intro: filter_cong)
  moreover have "length \<dots> < length (filter (\<lambda>n. pn_id n \<notin> set skip) nodes)"
    by (rule length_filter_less [of child]) (use child in auto)
  ultimately show "((nodes, pn_id child # skip, ts), nodes, skip, ts)
    \<in> measures [\<lambda>(nodes, skip, ts). length nodes,
        \<lambda>(nodes, skip, ts). length (filter (\<lambda>n. pn_id n \<notin> set skip) nodes)]"
    for ts :: "transformation list"
    by simp
qed simp

function mergeContainedWriteSet ::
    "plan_node list \<Rightarrow> transformation list \<Rightarrow> plan_node list \<times> transformation list" where
  "mergeContainedWriteSet nodes ts =
     (case List.find (\<lambda>n. pn_verification n = [] \<and> findContainingNode n nodes \<noteq> None) nodes of
        None \<Rightarrow> (nodes, ts)
      | Some child \<Rightarrow>
          (case findContainingNode child nodes of
             None \<Rightarrow> (nodes, ts)
           | Some parent \<Rightarrow>
               mergeContainedWriteSet (foldNodeInto nodes child parent)
                 (ts @ [merge_of ''contained-write-set-merge'' child parent])))"
  by pat_completeness auto
termination
  by (relation "measure (\<lambda>(nodes, ts). length nodes)")
    (auto dest!: find_SomeD intro: foldNodeInto_shorter)

text \<open>The walk of \<open>dependencyRelated\<close>; the head of \<open>stack\<close> is the end of the code's array.\<close>

definition deps_at :: "plan_node list \<Rightarrow> string \<Rightarrow> string list" where
  "deps_at nodes i = (case plan_node_of nodes i of None \<Rightarrow> [] | Some n \<Rightarrow> deps_of n)"

definition mentioned :: "plan_node list \<Rightarrow> string set" where
  "mentioned nodes = (\<Union>n \<in> set nodes. set (deps_of n))"

lemma finite_mentioned [simp]: "finite (mentioned nodes)"
  by (simp add: mentioned_def)

lemma plan_node_of_SomeD: "plan_node_of nodes i = Some n \<Longrightarrow> n \<in> set nodes \<and> pn_id n = i"
  by (auto simp: plan_node_of_def dest: find_last_SomeD)

lemma deps_at_mentioned: "set (deps_at nodes i) \<subseteq> mentioned nodes"
proof (cases "plan_node_of nodes i")
  case (Some n)
  then show ?thesis using plan_node_of_SomeD [OF Some] by (auto simp: deps_at_def mentioned_def)
qed (simp add: deps_at_def)

function reaches_loop :: "plan_node list \<Rightarrow> string \<Rightarrow> string list \<Rightarrow> string list \<Rightarrow> bool" where
  "reaches_loop nodes target [] seen = False"
| "reaches_loop nodes target (i # stack) seen =
     (if i = target then True
      else if i \<in> set seen then reaches_loop nodes target stack seen
      else reaches_loop nodes target (rev (deps_at nodes i) @ stack) (i # seen))"
  by pat_completeness auto
termination
proof (relation "measures [\<lambda>(nodes, target, stack, seen). card ((set stack \<union> mentioned nodes) - set seen),
    \<lambda>(nodes, target, stack, seen). length stack]", goal_cases)
  case 1
  show ?case by simp
next
  case (2 nodes target i stack seen)
  then have "set (i # stack) \<union> mentioned nodes - set seen = set stack \<union> mentioned nodes - set seen" by auto
  then show ?case by simp
next
  case (3 nodes target i stack seen)
  have "card ((set (rev (deps_at nodes i) @ stack) \<union> mentioned nodes) - set (i # seen))
      < card ((set (i # stack) \<union> mentioned nodes) - set seen)"
    using deps_at_mentioned [of nodes i] 3(2) by (intro psubset_card_mono) auto
  then show ?case by simp
qed

definition dependencyRelated :: "plan_node \<Rightarrow> plan_node \<Rightarrow> plan_node list \<Rightarrow> bool" where
  "dependencyRelated left right nodes \<longleftrightarrow>
     reaches_loop nodes (pn_id right) [pn_id left] [] \<or> reaches_loop nodes (pn_id left) [pn_id right] []"

definition isUnderfilled :: "plan_node \<Rightarrow> nat \<Rightarrow> bool" where
  "isUnderfilled n minWriteFiles \<longleftrightarrow>
     length (writeFilesOf n) > 0 \<and> length (writeFilesOf n) < minWriteFiles"

text \<open>\<open>dirname\<close> of \<open>node:path\<close> on POSIX: without trailing slashes, up to the last slash.\<close>

definition dirname :: "string \<Rightarrow> string" where
  "dirname path =
     (let rooted = starts_with path ''/'';
          body = rev (dropWhile (\<lambda>c. c = CHR ''/'') (rev path));
          e = length (rev (dropWhile (\<lambda>c. c \<noteq> CHR ''/'') (rev body))) - 1
      in if e = 0 then (if rooted then ''/'' else ''.'')
         else if rooted \<and> e = 1 then ''//''
         else take e path)"

definition sharesDirectory :: "plan_node \<Rightarrow> plan_node \<Rightarrow> bool" where
  "sharesDirectory left right \<longleftrightarrow>
     list_ex (\<lambda>p. dirname p \<in> set (map dirname (writeFilesOf left))) (writeFilesOf right)"

definition mergeable :: "nat \<Rightarrow> nat \<Rightarrow> plan_node list \<Rightarrow> plan_node \<Rightarrow> plan_node \<Rightarrow> bool" where
  "mergeable minWriteFiles cap nodes child candidate \<longleftrightarrow>
     isUnderfilled candidate minWriteFiles \<and>
     pn_taskKind candidate = pn_taskKind child \<and> pn_riskTier candidate = pn_riskTier child \<and>
     sharesDirectory candidate child \<and>
     length (uniq (writeFilesOf candidate @ writeFilesOf child)) \<le> cap \<and>
     \<not> dependencyRelated candidate child nodes"

fun underfilled_pair ::
    "nat \<Rightarrow> nat \<Rightarrow> plan_node list \<Rightarrow> plan_node list \<Rightarrow> plan_node list \<Rightarrow> (plan_node \<times> plan_node) option" where
  "underfilled_pair minWriteFiles cap nodes earlier [] = None"
| "underfilled_pair minWriteFiles cap nodes earlier (child # later) =
     (case (if isUnderfilled child minWriteFiles
            then List.find (mergeable minWriteFiles cap nodes child) earlier else None) of
        Some parent \<Rightarrow> Some (child, parent)
      | None \<Rightarrow> underfilled_pair minWriteFiles cap nodes (earlier @ [child]) later)"

lemma underfilled_pair_SomeD:
  assumes "underfilled_pair m c nodes earlier later = Some (child, parent)"
  shows "\<exists>before after. later = before @ child # after \<and> parent \<in> set (earlier @ before) \<and>
    mergeable m c nodes child parent"
  using assms
proof (induction m c nodes earlier later rule: underfilled_pair.induct)
  case (2 m c nodes earlier n later)
  show ?case
  proof (cases "if isUnderfilled n m then List.find (mergeable m c nodes n) earlier else None")
    case None
    with 2 obtain before after where "later = before @ child # after" "parent \<in> set ((earlier @ [n]) @ before)"
        "mergeable m c nodes child parent"
      by auto
    then show ?thesis by (intro exI [of _ "n # before"] exI [of _ after]) auto
  next
    case (Some p)
    with 2(2) have "n = child" "p = parent" by auto
    with Some have "parent \<in> set earlier" "mergeable m c nodes child parent"
      by (auto split: if_splits dest: find_SomeD)
    with \<open>n = child\<close> show ?thesis by (intro exI [of _ "[]"] exI [of _ later]) simp
  qed
qed simp

function mergeUnderfilled ::
    "nat \<Rightarrow> nat \<Rightarrow> plan_node list \<Rightarrow> transformation list \<Rightarrow> plan_node list \<times> transformation list" where
  "mergeUnderfilled minWriteFiles cap nodes ts =
     (case underfilled_pair minWriteFiles cap nodes [] nodes of
        None \<Rightarrow> (nodes, ts)
      | Some (child, parent) \<Rightarrow>
          mergeUnderfilled minWriteFiles cap (foldNodeInto nodes child parent)
            (ts @ [merge_of ''underfilled-sibling-merge'' child parent]))"
  by pat_completeness auto
termination
  by (relation "measure (\<lambda>(minWriteFiles, cap, nodes, ts). length nodes)")
    (auto dest!: underfilled_pair_SomeD intro!: foldNodeInto_shorter)

definition mergeUnderfilledSiblings ::
    "plan_node list \<Rightarrow> nat option \<Rightarrow> nat \<Rightarrow> transformation list \<Rightarrow> plan_node list \<times> transformation list" where
  "mergeUnderfilledSiblings nodes minWriteFiles cap ts =
     (case minWriteFiles of
        None \<Rightarrow> (nodes, ts)
      | Some m \<Rightarrow> mergeUnderfilled m cap nodes ts)"

declare mergeNoMechanicalProof.simps [simp del] mergeContainedWriteSet.simps [simp del]
  mergeUnderfilled.simps [simp del]

section \<open>Rules that edit a node in place\<close>

definition flagOverTurnCeiling ::
    "plan_node list \<Rightarrow> nat option \<Rightarrow> transformation list \<Rightarrow> plan_node list \<times> transformation list" where
  "flagOverTurnCeiling nodes cap ts =
     (case cap of
        None \<Rightarrow> (nodes, ts)
      | Some c \<Rightarrow>
          (let over = (\<lambda>n. (case pn_expectedTurns n of None \<Rightarrow> False | Some e \<Rightarrow> e > c) \<and>
                 \<not> pn_flaggedOverTurnCeiling n)
           in (map (\<lambda>n. if over n then n\<lparr>pn_flaggedOverTurnCeiling := True\<rparr> else n) nodes,
               ts @ map (\<lambda>n. \<lparr>tr_rule = ''over-turn-ceiling'', tr_nodes = [pn_id n]\<rparr>) (filter over nodes))))"

definition coversSomething :: "string \<times> string list \<Rightarrow> string list \<Rightarrow> bool" where
  "coversSomething file writeFiles \<longleftrightarrow> list_ex (\<lambda>m. m \<in> set writeFiles) (snd file)"

definition overBudget :: "rat \<Rightarrow> sizing_command \<Rightarrow> bool" where
  "overBudget nodeBudgetMs v \<longleftrightarrow>
     (case sc_measuredMs v of None \<Rightarrow> False | Some ms \<Rightarrow> ms > nodeBudgetMs) \<and> \<not> sc_flagged v"

definition test_command :: "string \<Rightarrow> sizing_command" where
  "test_command path = \<lparr>sc_command = \<lparr>cmd_argv = [''node'', ''--test'', path], cmd_timeoutSec = None,
      cmd_repeat = None, cmd_env = None, cmd_mutation = None, cmd_cwd = None\<rparr>,
     sc_measuredMs = None, sc_flagged = False\<rparr>"

text \<open>What one command of a node becomes, with the transformation it leaves.\<close>

definition split_command ::
    "rat \<Rightarrow> (string \<times> string list) list \<Rightarrow> plan_node \<Rightarrow> sizing_command \<Rightarrow>
     sizing_command list \<times> transformation list" where
  "split_command nodeBudgetMs testFiles n v =
     (if \<not> overBudget nodeBudgetMs v then ([v], [])
      else (let candidates = uniq (map fst (filter (\<lambda>f. coversSomething f (writeFilesOf n)) testFiles))
            in if candidates \<noteq> [] \<and> length candidates \<le> maxCommands
               then (map test_command candidates,
                     [\<lparr>tr_rule = ''over-budget-verification-split'', tr_nodes = [pn_id n]\<rparr>])
               else ([v\<lparr>sc_flagged := True\<rparr>],
                     [\<lparr>tr_rule = ''over-budget-verification-flagged'', tr_nodes = [pn_id n]\<rparr>])))"

definition splitOverBudgetVerification ::
    "plan_node list \<Rightarrow> rat \<Rightarrow> (string \<times> string list) list \<Rightarrow> transformation list \<Rightarrow>
     plan_node list \<times> transformation list" where
  "splitOverBudgetVerification nodes nodeBudgetMs testFiles ts =
     (let split = (\<lambda>n. map (split_command nodeBudgetMs testFiles n) (pn_verification n))
      in (map (\<lambda>n. n\<lparr>pn_verification := concat (map fst (split n))\<rparr>) nodes,
          ts @ concat (map (\<lambda>n. concat (map snd (split n))) nodes)))"

definition parallelisable :: "plan_node list \<Rightarrow> plan_node \<Rightarrow> bool" where
  "parallelisable nodes n \<longleftrightarrow>
     \<not> pn_parallel n \<and> deps_of n = [] \<and> \<not> list_ex (\<lambda>m. pn_id n \<in> set (deps_of m)) nodes \<and>
     list_all (\<lambda>m. pn_id m = pn_id n \<or>
       \<not> list_ex (\<lambda>p. p \<in> set (writeFilesOf n)) (writeFilesOf m)) nodes"

definition markParallelisable ::
    "plan_node list \<Rightarrow> transformation list \<Rightarrow> plan_node list \<times> transformation list" where
  "markParallelisable nodes ts =
     (map (\<lambda>n. if parallelisable nodes n then n\<lparr>pn_parallel := True\<rparr> else n) nodes,
      ts @ map (\<lambda>n. \<lparr>tr_rule = ''parallelisable'', tr_nodes = [pn_id n]\<rparr>)
        (filter (parallelisable nodes) nodes))"

definition provenParallelism :: "plan_node list \<Rightarrow> nat" where
  "provenParallelism nodes = min MAX_PROVEN_PARALLELISM (max 1 (length (filter pn_parallel nodes)))"

text \<open>The lines a node reads, when at least one of its files has a count.\<close>

definition read_lines :: "(string \<Rightarrow> nat option) \<Rightarrow> plan_node \<Rightarrow> nat option" where
  "read_lines readVolume n =
     (let counts = List.map_filter readVolume (nullish (pn_readFiles n) [])
      in if counts = [] then None else Some (sum_list counts))"

definition median_of :: "nat list \<Rightarrow> rat" where
  "median_of totals =
     (let middle = length totals div 2
      in if even (length totals)
         then (of_nat (totals ! (middle - 1)) + of_nat (totals ! middle)) / 2
         else of_nat (totals ! middle))"

definition flagReadVolumeImbalance ::
    "plan_node list \<Rightarrow> (string \<Rightarrow> nat option) option \<Rightarrow> transformation list \<Rightarrow>
     plan_node list \<times> transformation list" where
  "flagReadVolumeImbalance nodes readVolume ts =
     (case readVolume of
        None \<Rightarrow> (nodes, ts)
      | Some f \<Rightarrow>
          if length nodes < 2 then (nodes, ts)
          else (let volumes = List.map_filter (\<lambda>n. map_option (\<lambda>t. (pn_id n, t)) (read_lines f n)) nodes;
                    median = median_of (sort (map snd volumes))
                in if length volumes < 2 \<or> median \<le> 0 then (nodes, ts)
                   else (nodes, ts @ map (\<lambda>(i, _). \<lparr>tr_rule = ''read-volume-imbalance'', tr_nodes = [i]\<rparr>)
                     (filter (\<lambda>(_, t). of_nat t > median * READ_VOLUME_IMBALANCE_RATIO) volumes))))"

section \<open>The checks and the whole pass\<close>

definition refuseReadSelectionOutsideFactSet :: "plan_node list \<Rightarrow> string list option \<Rightarrow> string option" where
  "refuseReadSelectionOutsideFactSet nodes paths =
     (case paths of
        None \<Rightarrow> None
      | Some facts \<Rightarrow>
          map_option (\<lambda>(i, path). ''sizing_read_outside_fact_set: node '' @ i @
              '' declares readFiles entry '' @ path @ '', which the phase fact set does not hold'')
            (List.find (\<lambda>(i, path). path \<notin> set facts)
               (concat (map (\<lambda>n. map (Pair (pn_id n)) (nullish (pn_readFiles n) [])) nodes))))"

text \<open>
  \<open>depthOf\<close> over a list of ids: \<open>path\<close> is the set \<open>inProgress\<close>, \<open>memo\<close> the map of the depths found. The
  result is the greatest depth among the ids, 0 for none; the left is the id a cycle is named by.
\<close>

function depth_ids ::
    "plan_node list \<Rightarrow> string list \<Rightarrow> string list \<Rightarrow> (string \<times> nat) list \<Rightarrow> string + nat \<times> (string \<times> nat) list" where
  "depth_ids nodes path [] memo = Inr (0, memo)"
| "depth_ids nodes path (i # is) memo =
     (case map_of memo i of
        Some d \<Rightarrow> map_sum id (\<lambda>(m, memo'). (max d m, memo')) (depth_ids nodes path is memo)
      | None \<Rightarrow>
          if i \<in> set path then Inl i
          else (case depth_ids nodes (i # path) (deps_at nodes i) memo of
                  Inl e \<Rightarrow> Inl e
                | Inr (m, memo') \<Rightarrow>
                    map_sum id (\<lambda>(m', memo''). (max (Suc m) m', memo''))
                      (depth_ids nodes path is ((i, Suc m) # memo'))))"
  by pat_completeness auto
termination
proof (relation "measures [\<lambda>(nodes, path, is, memo). card (pn_id ` set nodes - set path),
    \<lambda>(nodes, path, is, memo). length is]", goal_cases)
  case (2 nodes path i "is" memo)
  show ?case
  proof (cases "i \<in> pn_id ` set nodes")
    case True
    then have "card (pn_id ` set nodes - set (i # path)) < card (pn_id ` set nodes - set path)"
      using 2(2) by (intro psubset_card_mono) auto
    then show ?thesis by simp
  next
    case False
    then have "plan_node_of nodes i = None" by (auto simp: plan_node_of_def find_last_None_iff)
    moreover have "pn_id ` set nodes - set (i # path) = pn_id ` set nodes - set path" using False by auto
    ultimately show ?thesis by (simp add: deps_at_def)
  qed
qed simp_all

definition longestChainDepth :: "plan_node list \<Rightarrow> string + nat" where
  "longestChainDepth nodes =
     (case depth_ids nodes [] (map pn_id nodes) [] of
        Inl i \<Rightarrow> Inl (''sizing_dependency_cycle: node '' @ i @ '' depends on itself through a dependsOn cycle'')
      | Inr (d, _) \<Rightarrow> Inr d)"

definition merged_plan :: "plan_node list \<Rightarrow> sizing_options \<Rightarrow> plan_node list \<times> transformation list" where
  "merged_plan nodes op =
     (let (ns, ts) = (if so_exploratory op then (nodes, []) else mergeNoMechanicalProof nodes [] []);
          (ns, ts) = (if so_exploratory op then (ns, ts) else mergeContainedWriteSet ns ts)
      in mergeUnderfilledSiblings ns (if so_exploratory op then None else so_minWriteFiles op)
            (nullish (so_maxMergedWriteFiles op) MAX_MERGED_WRITE_FILES) ts)"

definition reshaped :: "plan_node list \<Rightarrow> sizing_options \<Rightarrow> plan_node list \<times> transformation list" where
  "reshaped nodes op =
     (let (ns, ts) = merged_plan nodes op;
          (ns, ts) = splitOverBudgetVerification ns (so_nodeBudgetMs op) (so_testFiles op) ts;
          (ns, ts) = markParallelisable ns ts;
          (ns, ts) = flagOverTurnCeiling ns (so_turnCeiling op) ts
      in if so_exploratory op then flagReadVolumeImbalance ns (so_readVolume op) ts else (ns, ts))"

definition applySizingRules :: "plan_node list \<Rightarrow> bool \<Rightarrow> sizing_options \<Rightarrow> string + sized" where
  "applySizingRules nodes justified op =
     (let (ns, ts) = reshaped nodes op
      in case refuseReadSelectionOutsideFactSet ns (so_paths op) of
           Some e \<Rightarrow> Inl e
         | None \<Rightarrow>
             if length ns = 1 \<and> \<not> so_targetedFix op
             then Inl (''sizing_single_node_plan: node '' @ pn_id (hd ns) @
                '' is the plan's only node; pass options.targetedFix to allow a single-node plan'')
             else (case longestChainDepth ns of
                 Inl e \<Rightarrow> Inl e
               | Inr depth \<Rightarrow>
                   if depth > DEPTH_CEILING \<and> \<not> justified
                   then Inl (''sizing_depth_exceeds_ceiling: dependency chain depth '' @ show_nat depth @
                      '' exceeds '' @ show_nat DEPTH_CEILING @ '' and plan.justification is required'')
                   else Inr \<lparr>sz_nodes = ns, sz_transformations = ts,
                      sz_overheadMinutes = of_nat (length ns) * NODE_OVERHEAD_MINUTES\<rparr>))"

section \<open>What the pipeline makes of it\<close>

record phase_declaration =
  pd_id :: string
  pd_requirementIds :: "string list"
  pd_nodeIds :: "string list option"
  pd_deliverable :: string

definition parents_of :: "transformation list \<Rightarrow> (string \<times> string) list" where
  "parents_of ts = fold (\<lambda>t m. case tr_nodes t of [a, b] \<Rightarrow> AList.update a b m | _ \<Rightarrow> m) ts []"

function resolve_owner :: "(string \<times> string) list \<Rightarrow> string list \<Rightarrow> string \<Rightarrow> string" where
  "resolve_owner parentOf seen current =
     (case map_of parentOf current of
        None \<Rightarrow> current
      | Some p \<Rightarrow> if current \<in> set seen then current else resolve_owner parentOf (current # seen) p)"
  by pat_completeness auto
termination
proof (relation "measure (\<lambda>(parentOf, seen, current). card (fst ` set parentOf - set seen))", goal_cases)
  case (2 parentOf seen current p)
  then have "current \<in> fst ` set parentOf" by (force dest: map_of_SomeD)
  then have "card (fst ` set parentOf - set (current # seen)) < card (fst ` set parentOf - set seen)"
    using 2(2) by (intro psubset_card_mono) auto
  then show ?case by simp
qed simp

declare resolve_owner.simps [simp del]

definition carryPhaseDeclarations ::
    "phase_declaration list option \<Rightarrow> transformation list \<Rightarrow> phase_declaration list option" where
  "carryPhaseDeclarations phases ts =
     (case phases of
        None \<Rightarrow> None
      | Some ps \<Rightarrow>
          if parents_of ts = [] then Some ps
          else Some (map (\<lambda>p. case pd_nodeIds p of
              None \<Rightarrow> p
            | Some ids \<Rightarrow> p\<lparr>pd_nodeIds := Some (uniq (map (resolve_owner (parents_of ts) []) ids))\<rparr>) ps))"

text \<open>
  The command a proof runs (\<open>proofCommandText\<close> of \<open>src/plan/proof-check.mjs\<close>): the reference of a
  verification proof is a position in the node's own list. \<open>Number\<close> of a validated reference is its digits.
\<close>

definition proofCommandText :: "plan_node \<Rightarrow> (proof_kind \<times> string) option \<Rightarrow> string option" where
  "proofCommandText n proof =
     (case proof of
        Some (Proof_command, ref) \<Rightarrow> Some ref
      | Some (Proof_verification, ref) \<Rightarrow>
          (case parse_index ref of
             Some k \<Rightarrow> if k < length (pn_verification n)
                       then Some (join_with '' '' (cmd_argv (sc_command (pn_verification n ! k)))) else None
           | None \<Rightarrow> None)
      | _ \<Rightarrow> None)"

text \<open>
  The gate \<open>toContractNode\<close> gives a frozen node, from its risk tier and the judge that routing assigned; the
  contract validator accepts it, and a high risk makes it blocking.
\<close>

definition planned_gate :: "string option \<Rightarrow> string option \<Rightarrow> json" where
  "planned_gate riskTier judge =
     (if riskTier = Some ''low'' then J_bool False
      else J_obj ([(''review'', J_str (if riskTier = Some ''high'' then ''blocking'' else ''advisory'')),
          (''failOn'', J_arr (map J_str
             (if riskTier = Some ''high'' then [''major'', ''critical''] else [''critical''])))] @
        (if nullish judge [] \<noteq> [] then [(''runtime'', J_str (nullish judge []))] else [])))"

lemma planned_gate_accepted:
  assumes "nullish judge [] \<noteq> [] \<longrightarrow> map_of rts (nullish judge []) \<noteq> None"
  shows "\<exists>g. validateGate (\<lambda>_ _. None) (Some (planned_gate riskTier judge)) rts i nodeId = Inr g \<and>
    (gt_enabled g \<longleftrightarrow> riskTier \<noteq> Some ''low'') \<and>
    (riskTier = Some ''high'' \<longrightarrow> reviewMode g = Rev_blocking)"
  using assms
  by (auto simp: planned_gate_def validateGate_def Let_def assertObject_def rejectUnknown_def GATE_FIELDS_def
      read_review_def read_failOn_def List.map_filter_def optional_def requireRuntime_def and_then_def
      checked_def nonNegativeInteger_def defaulted_def is_integer_def validateGateSkipWhen_def reviewMode_def)

end
