(* ===== verification/Sizing_Safety.thy ===== *)
theory Sizing_Safety
  imports Plan_Sizing
begin

text \<open>
  What the sizing of a plan keeps: the dependency order, the work of every drafted node, the
  independence of the nodes it marks parallel, and what it does not keep: the command a proof refers to
  by its position.
\<close>

section \<open>The dependency relation\<close>

lemma find_last_map: "find_last P (map f xs) = map_option f (find_last (P \<circ> f) xs)"
proof -
  have "List.find P (map f ys) = map_option f (List.find (P \<circ> f) ys)" for ys by (induction ys) auto
  then show ?thesis by (simp add: find_last_def rev_map)
qed

definition needs :: "plan_node list \<Rightarrow> (string \<times> string) set" where
  "needs nodes = {(i, d). d \<in> set (deps_at nodes i)}"

definition plan_ok :: "plan_node list \<Rightarrow> bool" where
  "plan_ok nodes \<longleftrightarrow> distinct (map pn_id nodes) \<and> (\<forall>n \<in> set nodes. pn_id n \<notin> set (deps_of n))"

lemma plan_node_of_distinct:
  assumes "distinct (map pn_id nodes)" and "n \<in> set nodes"
  shows "plan_node_of nodes (pn_id n) = Some n"
proof -
  obtain m where "plan_node_of nodes (pn_id n) = Some m"
    using assms(2) by (cases "plan_node_of nodes (pn_id n)") (auto simp: plan_node_of_def find_last_None_iff)
  with plan_node_of_SomeD [OF this] assms show ?thesis by (auto simp: distinct_map dest: inj_onD)
qed

lemma needs_distinct:
  assumes "distinct (map pn_id nodes)"
  shows "needs nodes = {(pn_id n, d) | n d. n \<in> set nodes \<and> d \<in> set (deps_of n)}"
proof (intro set_eqI iffI; clarify)
  fix i d
  assume "(i, d) \<in> needs nodes"
  then obtain n where "plan_node_of nodes i = Some n" "d \<in> set (deps_of n)"
    by (cases "plan_node_of nodes i") (auto simp: needs_def deps_at_def)
  with plan_node_of_SomeD show "\<exists>n d'. (i, d) = (pn_id n, d') \<and> n \<in> set nodes \<and> d' \<in> set (deps_of n)" by blast
next
  fix n d
  assume "n \<in> set nodes" and "d \<in> set (deps_of n)"
  with plan_node_of_distinct [OF assms] show "(pn_id n, d) \<in> needs nodes" by (simp add: needs_def deps_at_def)
qed

lemma needsI:
  "distinct (map pn_id nodes) \<Longrightarrow> n \<in> set nodes \<Longrightarrow> d \<in> set (deps_of n) \<Longrightarrow> (pn_id n, d) \<in> needs nodes"
  unfolding needs_distinct by blast

lemma reaches_loop_iff:
  assumes "\<forall>x \<in> set seen. x \<noteq> target \<and> needs nodes `` {x} \<subseteq> set seen \<union> set stack"
  shows "reaches_loop nodes target stack seen \<longleftrightarrow> (\<exists>s \<in> set stack. (s, target) \<in> (needs nodes)\<^sup>*)"
  using assms
proof (induction nodes target stack seen rule: reaches_loop.induct)
  case (1 nodes target seen)
  show ?case by simp
next
  case (2 nodes target i stack seen)
  show ?case
  proof (cases "i = target")
    case False
    have next_seen: "set (deps_at nodes i) = needs nodes `` {i}" by (simp add: needs_def Image_def)
    show ?thesis
    proof (cases "i \<in> set seen")
      case True
      then have inv: "\<forall>x \<in> set seen. x \<noteq> target \<and> needs nodes `` {x} \<subseteq> set seen \<union> set stack"
        using 2(3) by auto
      have "\<exists>s \<in> set stack. (s, target) \<in> (needs nodes)\<^sup>*" if "(i, target) \<in> (needs nodes)\<^sup>*"
      proof -
        from that have "i \<in> set seen \<Longrightarrow> \<exists>s \<in> set stack. (s, target) \<in> (needs nodes)\<^sup>*"
        proof (induction rule: converse_rtrancl_induct)
          case base
          with inv show ?case by blast
        next
          case (step y z)
          from inv step.hyps(1) step.prems have "z \<in> set seen \<union> set stack" by blast
          with step.IH step.hyps(2) show ?case by blast
        qed
        with True show ?thesis by blast
      qed
      with 2(1) [OF False True inv] False True show ?thesis by auto
    next
      case fresh: False
      have inv: "\<forall>x \<in> set (i # seen). x \<noteq> target \<and>
          needs nodes `` {x} \<subseteq> set (i # seen) \<union> set (rev (deps_at nodes i) @ stack)"
        using 2(3) False next_seen by auto
      have "(i, target) \<in> (needs nodes)\<^sup>* \<longleftrightarrow> (\<exists>s \<in> set (deps_at nodes i). (s, target) \<in> (needs nodes)\<^sup>*)"
        using False by (auto simp: next_seen elim: converse_rtranclE intro: converse_rtrancl_into_rtrancl)
      with 2(2) [OF False fresh inv] False fresh show ?thesis by auto
    qed
  qed auto
qed

lemma dependencyRelated_iff:
  "dependencyRelated left right nodes \<longleftrightarrow>
     (pn_id left, pn_id right) \<in> (needs nodes)\<^sup>* \<or> (pn_id right, pn_id left) \<in> (needs nodes)\<^sup>*"
  using reaches_loop_iff [of "[]"] by (simp add: dependencyRelated_def del: reaches_loop.simps)

section \<open>Folding contracts the graph\<close>

definition contracted :: "string \<Rightarrow> string \<Rightarrow> (string \<times> string) set \<Rightarrow> (string \<times> string) set" where
  "contracted c p E = (let f = (\<lambda>x. if x = c then p else x) in {(f a, f b) | a b. (a, b) \<in> E \<and> f a \<noteq> f b})"

lemma contractedI:
  assumes "(a, b) \<in> E" and "(if a = c then p else a) \<noteq> (if b = c then p else b)"
  shows "(if a = c then p else a, if b = c then p else b) \<in> contracted c p E"
  unfolding contracted_def Let_def using assms by blast

lemma contracted_path:
  assumes "(a, b) \<in> E\<^sup>*" and "f = (\<lambda>x. if x = c then p else x)"
  shows "(f a, f b) \<in> (contracted c p E)\<^sup>*"
  using assms(1)
proof (induction rule: rtrancl_induct)
  case (step y z)
  then have "f y = f z \<or> (f y, f z) \<in> contracted c p E" by (auto simp: contracted_def assms(2) Let_def)
  with step.IH show ?case by (metis rtrancl.rtrancl_into_rtrancl)
qed simp

lemma contracted_acyclic_iff:
  assumes "acyclic E" and "c \<noteq> p"
  shows "acyclic (contracted c p E) \<longleftrightarrow>
    \<not> (\<exists>z. z \<noteq> c \<and> z \<noteq> p \<and> ((c, z) \<in> E\<^sup>+ \<and> (z, p) \<in> E\<^sup>+ \<or> (p, z) \<in> E\<^sup>+ \<and> (z, c) \<in> E\<^sup>+))"
    (is "acyclic ?C \<longleftrightarrow> \<not> ?between")
proof
  assume C: "acyclic ?C"
  show "\<not> ?between"
  proof
    assume ?between
    then obtain z where z: "z \<noteq> c" "z \<noteq> p"
        "(c, z) \<in> E\<^sup>* \<and> (z, p) \<in> E\<^sup>* \<or> (p, z) \<in> E\<^sup>* \<and> (z, c) \<in> E\<^sup>*"
      by (auto dest: trancl_into_rtrancl)
    define f where "f = (\<lambda>x. if x = c then p else x)"
    have path: "(f a, f b) \<in> ?C\<^sup>*" if "(a, b) \<in> E\<^sup>*" for a b by (rule contracted_path [OF that f_def])
    have f: "f z = z" "f c = p" "f p = p" using z by (simp_all add: f_def)
    from z(3) have "(p, z) \<in> ?C\<^sup>*" "(z, p) \<in> ?C\<^sup>*"
      using path [of c z] path [of z p] path [of p z] path [of z c] unfolding f by blast+
    with z(2) have "(p, p) \<in> ?C\<^sup>+" by (metis rtranclD trancl_trans)
    with C show False by (simp add: acyclic_def)
  qed
next
  assume between: "\<not> ?between"
  have no_return: "(z, q) \<notin> E\<^sup>+" if "(q', z) \<in> E\<^sup>+" "q \<in> {c, p}" "q' \<in> {c, p}" "z \<notin> {c, p}" for q q' z
    using that between assms(1) by (auto simp: acyclic_def dest: trancl_trans)
  have stays: "v \<notin> {c, p} \<and> (\<exists>q \<in> {c, p}. (q, v) \<in> E\<^sup>+)" if "(p, v) \<in> ?C\<^sup>+" for v
    using that
  proof (induction rule: trancl_induct)
    case (base y)
    then show ?case using assms(2) by (auto simp: contracted_def Let_def split: if_splits)
  next
    case (step y z)
    then obtain q where q: "q \<in> {c, p}" "(q, y) \<in> E\<^sup>+" "y \<notin> {c, p}" by blast
    from step(2) obtain b where b: "(y, b) \<in> E" "z = (if b = c then p else b)"
      using q(3) by (auto simp: contracted_def Let_def split: if_splits)
    with q no_return [OF q(2) _ q(1,3)] have "b \<notin> {c, p}" by (metis r_into_trancl)
    with b q show ?case by (auto intro: trancl_into_trancl)
  qed
  have lifts: "(a, b) \<in> E" if "(a, b) \<in> ?C" "a \<noteq> p" "b \<noteq> p" for a b
    using that by (auto simp: contracted_def Let_def split: if_splits)
  have no_loop: "(p, p) \<notin> ?C\<^sup>+" using stays by blast
  show "acyclic ?C"
  proof (rule acyclicI, rule allI, rule notI)
    fix x
    assume x: "(x, x) \<in> ?C\<^sup>+"
    have avoids: "w \<noteq> p" if "(x, w) \<in> ?C\<^sup>*" "(w, x) \<in> ?C\<^sup>*" for w
      using that x no_loop by (metis trancl_rtrancl_trancl rtrancl_trancl_trancl)
    have "(x, w) \<in> E\<^sup>+" if "(x, w) \<in> ?C\<^sup>+" "(w, x) \<in> ?C\<^sup>*" for w
      using that
    proof (induction rule: trancl_induct)
      case (base y)
      then have "(x, y) \<in> E" using avoids [of x] avoids [of y] by (intro lifts) auto
      then show ?case ..
    next
      case (step y z)
      from step.hyps(2) step.prems have yx: "(y, x) \<in> ?C\<^sup>*" by (rule converse_rtrancl_into_rtrancl)
      moreover have "y \<noteq> p" using avoids [OF _ yx] step.hyps(1) by (simp add: trancl_into_rtrancl)
      moreover have "z \<noteq> p"
        using avoids [OF _ step.prems] step.hyps by (meson trancl_into_trancl trancl_into_rtrancl)
      ultimately show ?case using step.IH lifts [OF step.hyps(2)] by (meson trancl_into_trancl)
    qed
    with x assms(1) show False by (auto simp: acyclic_def)
  qed
qed

lemma merged_node_simps [simp]:
  "pn_id (merged_node child parent) = pn_id parent"
  "pn_id (redirected c p n) = pn_id n"
  by (simp_all add: merged_node_def redirected_def)

lemma deps_of_folded:
  "set (deps_of (merged_node child parent)) =
     (set (deps_of parent) \<union> set (deps_of child)) - {pn_id parent, pn_id child}"
  "set (deps_of (redirected c p n)) = (\<lambda>i. if i = c then p else i) ` set (deps_of n) - {pn_id n}"
  by (auto simp: deps_of_def merged_node_def redirected_def)

lemma fold_ids: "map pn_id (foldNodeInto nodes child parent) = filter (\<lambda>i. i \<noteq> pn_id child) (map pn_id nodes)"
  by (induction nodes) (auto simp: foldNodeInto_def)

lemma fold_members:
  assumes "distinct (map pn_id nodes)" and "parent \<in> set nodes" and "pn_id child \<noteq> pn_id parent"
  shows "set (foldNodeInto nodes child parent) =
    insert (merged_node child parent)
      (redirected (pn_id child) (pn_id parent) `
         {n \<in> set nodes. pn_id n \<noteq> pn_id child \<and> pn_id n \<noteq> pn_id parent})"
  using assms by (auto simp: foldNodeInto_def distinct_map dest: inj_onD)

lemma plan_ok_fold:
  assumes "plan_ok nodes" and "parent \<in> set nodes" and "pn_id child \<noteq> pn_id parent"
  shows "plan_ok (foldNodeInto nodes child parent)"
  using assms fold_members [of nodes parent child]
  by (auto simp: plan_ok_def fold_ids deps_of_folded)

lemma needs_fold:
  assumes "plan_ok nodes" and "child \<in> set nodes" and "parent \<in> set nodes" and "pn_id child \<noteq> pn_id parent"
  shows "needs (foldNodeInto nodes child parent) = contracted (pn_id child) (pn_id parent) (needs nodes)"
proof -
  let ?f = "\<lambda>i. if i = pn_id child then pn_id parent else i"
  have d: "distinct (map pn_id nodes)" using assms(1) by (simp add: plan_ok_def)
  have d': "distinct (map pn_id (foldNodeInto nodes child parent))"
    using plan_ok_fold [OF assms(1,3,4)] by (simp add: plan_ok_def)
  have same: "n = child" if "n \<in> set nodes" "pn_id n = pn_id child" for n
    using that d assms(2) by (auto simp: distinct_map dest: inj_onD)
  have same': "n = parent" if "n \<in> set nodes" "pn_id n = pn_id parent" for n
    using that d assms(3) by (auto simp: distinct_map dest: inj_onD)
  have own: "pn_id n \<notin> set (deps_of n)" if "n \<in> set nodes" for n using that assms(1) by (simp add: plan_ok_def)
  show ?thesis
  proof (intro set_eqI iffI; clarify)
    fix a b
    assume "(a, b) \<in> needs (foldNodeInto nodes child parent)"
    then obtain m where m: "m \<in> set (foldNodeInto nodes child parent)" "a = pn_id m" "b \<in> set (deps_of m)"
      unfolding needs_distinct [OF d'] by blast
    then consider "m = merged_node child parent"
      | n where "n \<in> set nodes" "pn_id n \<noteq> pn_id child" "pn_id n \<noteq> pn_id parent"
          "m = redirected (pn_id child) (pn_id parent) n"
      unfolding fold_members [OF d assms(3,4)] by blast
    then show "(a, b) \<in> contracted (pn_id child) (pn_id parent) (needs nodes)"
    proof cases
      case 1
      then have "(pn_id parent, b) \<in> needs nodes \<or> (pn_id child, b) \<in> needs nodes"
          "b \<noteq> pn_id parent" "b \<noteq> pn_id child" "a = pn_id parent"
        using m assms(2,3) unfolding needs_distinct [OF d] by (auto simp: deps_of_folded)
      then show ?thesis
        using contractedI [of "pn_id parent" b "needs nodes" "pn_id child" "pn_id parent"]
          contractedI [of "pn_id child" b "needs nodes" "pn_id child" "pn_id parent"] assms(4) by auto
    next
      case 2
      then obtain e where "e \<in> set (deps_of n)" "b = ?f e" "b \<noteq> pn_id n" "a = pn_id n"
        using m by (auto simp: deps_of_folded)
      moreover from this(1) 2(1) have "(pn_id n, e) \<in> needs nodes" unfolding needs_distinct [OF d] by blast
      ultimately show ?thesis
        using contractedI [of "pn_id n" e "needs nodes" "pn_id child" "pn_id parent"] 2 by (auto split: if_splits)
    qed
  next
    fix a b
    assume "(a, b) \<in> contracted (pn_id child) (pn_id parent) (needs nodes)"
    then obtain n e where n: "n \<in> set nodes" "e \<in> set (deps_of n)" "a = ?f (pn_id n)" "b = ?f e" "a \<noteq> b"
      unfolding contracted_def needs_distinct [OF d] Let_def by auto
    show "(a, b) \<in> needs (foldNodeInto nodes child parent)"
    proof (cases "pn_id n \<in> {pn_id child, pn_id parent}")
      case True
      then have "n = child \<or> n = parent" using same same' n(1) by blast
      then have "b \<in> set (deps_of (merged_node child parent))" "a = pn_id parent"
        using n True by (auto simp: deps_of_folded split: if_splits)
      moreover have "merged_node child parent \<in> set (foldNodeInto nodes child parent)"
        unfolding fold_members [OF d assms(3,4)] by simp
      ultimately show ?thesis using needsI [OF d', of "merged_node child parent" b] by simp
    next
      case False
      then have "b \<in> set (deps_of (redirected (pn_id child) (pn_id parent) n))" "a = pn_id n"
        using n by (auto simp: deps_of_folded)
      moreover have "redirected (pn_id child) (pn_id parent) n \<in> set (foldNodeInto nodes child parent)"
        unfolding fold_members [OF d assms(3,4)] using n(1) False by simp
      ultimately show ?thesis using needsI [OF d', of "redirected (pn_id child) (pn_id parent) n" b] by simp
    qed
  qed
qed

text \<open>
  C28. Merging a node into another keeps the dependency order of a plan if and only if no third node lies
  between them: none that one of the two needs, directly or through others, and that itself needs the
  other.
\<close>

theorem merge_keeps_order_iff:
  assumes "plan_ok nodes" and "acyclic (needs nodes)" and "child \<in> set nodes" and "parent \<in> set nodes"
    and "pn_id child \<noteq> pn_id parent"
  shows "acyclic (needs (foldNodeInto nodes child parent)) \<longleftrightarrow>
    \<not> (\<exists>z. z \<noteq> pn_id child \<and> z \<noteq> pn_id parent \<and>
        ((pn_id child, z) \<in> (needs nodes)\<^sup>+ \<and> (z, pn_id parent) \<in> (needs nodes)\<^sup>+ \<or>
         (pn_id parent, z) \<in> (needs nodes)\<^sup>+ \<and> (z, pn_id child) \<in> (needs nodes)\<^sup>+))"
  unfolding needs_fold [OF assms(1,3-5)] by (rule contracted_acyclic_iff [OF assms(2,5)])

section \<open>The merge rules as sequences of folds\<close>

inductive merge_step :: "plan_node list \<times> transformation list \<Rightarrow> plan_node list \<times> transformation list \<Rightarrow> bool" where
  "\<lbrakk>child \<in> set nodes; parent \<in> set nodes; pn_id child \<noteq> pn_id parent\<rbrakk> \<Longrightarrow>
   merge_step (nodes, ts) (foldNodeInto nodes child parent, ts @ [merge_of rule child parent])"

inductive_cases merge_stepE: "merge_step x y"

lemma merges_plan_ok: "merge_step\<^sup>*\<^sup>* x y \<Longrightarrow> plan_ok (fst x) \<Longrightarrow> plan_ok (fst y)"
  by (induction rule: rtranclp_induct) (auto elim!: merge_stepE intro: plan_ok_fold)

lemma proof_parent_SomeD:
  assumes "proof_parent child nodes = Some parent" and "pn_id child \<notin> set (deps_of child)"
  shows "parent \<in> set nodes \<and> pn_id child \<noteq> pn_id parent"
proof (cases "head_opt (List.map_filter (plan_node_of nodes) (deps_of child))")
  case None
  with assms(1) show ?thesis
    by (auto simp: proof_parent_def findContainingNode_def dest!: find_SomeD)
next
  case (Some n)
  with assms(1) have "n = parent" by (simp add: proof_parent_def)
  with Some obtain i where "i \<in> set (deps_of child)" "plan_node_of nodes i = Some parent"
    by (force simp: List.map_filter_def dest: head_opt_in_set)
  with plan_node_of_SomeD [OF this(2)] assms(2) show ?thesis by auto
qed

lemma no_proof_merges:
  "mergeNoMechanicalProof nodes skip ts = r \<Longrightarrow> plan_ok nodes \<Longrightarrow> merge_step\<^sup>*\<^sup>* (nodes, ts) r"
proof (induction nodes skip ts rule: mergeNoMechanicalProof.induct)
  case (1 nodes skip ts)
  show ?case
  proof (cases "List.find (\<lambda>n. pn_id n \<notin> set skip \<and> \<not> hasMechanicalProof n) nodes")
    case None
    with 1(3) show ?thesis by (simp add: mergeNoMechanicalProof.simps [of nodes])
  next
    case (Some child)
    then have child: "child \<in> set nodes" by (auto dest: find_SomeD)
    show ?thesis
    proof (cases "proof_parent child nodes")
      case None
      with 1(1) [OF Some None] Some 1(3,4) show ?thesis by (simp add: mergeNoMechanicalProof.simps [of nodes skip])
    next
      case (Some parent)
      note find = \<open>List.find _ nodes = Some child\<close>
      have p: "parent \<in> set nodes" "pn_id child \<noteq> pn_id parent"
        using proof_parent_SomeD [OF Some] child 1(4) by (auto simp: plan_ok_def)
      let ?y = "(foldNodeInto nodes child parent, ts @ [merge_of ''no-mechanical-proof-merge'' child parent])"
      have "merge_step (nodes, ts) ?y" using child p by (rule merge_step.intros)
      moreover have "merge_step\<^sup>*\<^sup>* ?y r"
        using 1(2) [OF find Some] 1(3) plan_ok_fold [OF 1(4) p] find Some
        by (simp add: mergeNoMechanicalProof.simps [of nodes skip])
      ultimately show ?thesis by (rule converse_rtranclp_into_rtranclp)
    qed
  qed
qed

lemma contained_merges:
  "mergeContainedWriteSet nodes ts = r \<Longrightarrow> plan_ok nodes \<Longrightarrow> merge_step\<^sup>*\<^sup>* (nodes, ts) r"
proof (induction nodes ts rule: mergeContainedWriteSet.induct)
  case (1 nodes ts)
  show ?case
  proof (cases "List.find (\<lambda>n. pn_verification n = [] \<and> findContainingNode n nodes \<noteq> None) nodes")
    case None
    with 1(2) show ?thesis by (simp add: mergeContainedWriteSet.simps [of nodes])
  next
    case (Some child)
    then obtain parent where c: "child \<in> set nodes" "findContainingNode child nodes = Some parent"
      by (auto dest!: find_SomeD)
    then have p: "parent \<in> set nodes" "pn_id child \<noteq> pn_id parent"
      by (auto simp: findContainingNode_def dest!: find_SomeD)
    let ?y = "(foldNodeInto nodes child parent, ts @ [merge_of ''contained-write-set-merge'' child parent])"
    have "merge_step (nodes, ts) ?y" using c(1) p by (rule merge_step.intros)
    moreover have "merge_step\<^sup>*\<^sup>* ?y r"
      using 1(1) [OF Some c(2)] 1(2) plan_ok_fold [OF 1(3) p] Some c(2)
      by (simp add: mergeContainedWriteSet.simps [of nodes ts])
    ultimately show ?thesis by (rule converse_rtranclp_into_rtranclp)
  qed
qed

text \<open>The rule for siblings folds two nodes of which neither needs the other.\<close>

lemma underfilled_step:
  assumes "underfilled_pair m cap nodes [] nodes = Some (child, parent)" and "plan_ok nodes"
  shows "child \<in> set nodes \<and> parent \<in> set nodes \<and> pn_id child \<noteq> pn_id parent \<and>
    (pn_id parent, pn_id child) \<notin> (needs nodes)\<^sup>* \<and> (pn_id child, pn_id parent) \<notin> (needs nodes)\<^sup>*"
  using underfilled_pair_SomeD [OF assms(1)] assms(2)
  by (auto simp: mergeable_def dependencyRelated_iff)

lemma underfilled_merges:
  "mergeUnderfilled m cap nodes ts = r \<Longrightarrow> plan_ok nodes \<Longrightarrow>
   merge_step\<^sup>*\<^sup>* (nodes, ts) r \<and> (acyclic (needs nodes) \<longrightarrow> acyclic (needs (fst r)))"
proof (induction m cap nodes ts rule: mergeUnderfilled.induct)
  case (1 m cap nodes ts)
  show ?case
  proof (cases "underfilled_pair m cap nodes [] nodes")
    case None
    with 1(2) show ?thesis by (auto simp: mergeUnderfilled.simps [of m cap nodes])
  next
    case (Some q)
    obtain child parent where q: "q = (child, parent)" by (cases q)
    note u = underfilled_step [OF Some [unfolded q] 1(3)]
    let ?y = "(foldNodeInto nodes child parent, ts @ [merge_of ''underfilled-sibling-merge'' child parent])"
    have "merge_step (nodes, ts) ?y" using u by (blast intro: merge_step.intros)
    moreover have "merge_step\<^sup>*\<^sup>* ?y r \<and> (acyclic (needs (fst ?y)) \<longrightarrow> acyclic (needs (fst r)))"
      using 1(1) [OF Some q [symmetric]] 1(2) plan_ok_fold [OF 1(3)] u Some q
      by (simp add: mergeUnderfilled.simps [of m cap nodes ts])
    moreover have "acyclic (needs (fst ?y))" if "acyclic (needs nodes)"
      using u that unfolding fst_conv needs_fold [OF 1(3) conjunct1 [OF u]
          conjunct1 [OF conjunct2 [OF u]] conjunct1 [OF conjunct2 [OF conjunct2 [OF u]]]]
      by (subst contracted_acyclic_iff) (auto dest: trancl_into_rtrancl rtrancl_trans)
    ultimately show ?thesis by (meson converse_rtranclp_into_rtranclp)
  qed
qed

section \<open>Depth\<close>

text \<open>\<open>chain E i k\<close>: \<open>k\<close> nodes in a row from \<open>i\<close>, each needing the next.\<close>

inductive chain :: "(string \<times> string) set \<Rightarrow> string \<Rightarrow> nat \<Rightarrow> bool" for E where
  "chain E i 1"
| "(i, j) \<in> E \<Longrightarrow> chain E j k \<Longrightarrow> chain E i (Suc k)"

inductive_cases chainE: "chain E i k"

definition deepest :: "(string \<times> string) set \<Rightarrow> string \<Rightarrow> nat \<Rightarrow> bool" where
  "deepest E i d \<longleftrightarrow> chain E i d \<and> (\<forall>k. chain E i k \<longrightarrow> k \<le> d)"

lemma deepest_step:
  assumes "\<forall>j. (i, j) \<in> E \<longrightarrow> (\<exists>d \<le> m. deepest E j d)" and "m \<noteq> 0 \<longrightarrow> (\<exists>j. (i, j) \<in> E \<and> deepest E j m)"
  shows "deepest E i (Suc m)"
  unfolding deepest_def
proof (intro conjI allI impI)
  show "chain E i (Suc m)"
    using assms(2) chain.intros(1) [of E i] by (cases "m = 0") (auto simp: deepest_def intro: chain.intros(2))
  fix k
  assume "chain E i k"
  then show "k \<le> Suc m" using assms(1) by (cases rule: chainE) (fastforce simp: deepest_def)+
qed

text \<open>What \<open>depth_ids\<close> returns: the greatest depth among the ids, and a memo of true depths.\<close>

definition memo_ok :: "plan_node list \<Rightarrow> (string \<times> nat) list \<Rightarrow> bool" where
  "memo_ok nodes memo \<longleftrightarrow> (\<forall>i d. map_of memo i = Some d \<longrightarrow> deepest (needs nodes) i d)"

lemma depth_ids_correct:
  assumes "memo_ok nodes memo" and "depth_ids nodes path is memo = Inr (m, memo')"
  shows "memo_ok nodes memo' \<and> (\<forall>j \<in> set is. \<exists>d \<le> m. deepest (needs nodes) j d) \<and>
    (m \<noteq> 0 \<longrightarrow> (\<exists>j \<in> set is. deepest (needs nodes) j m))"
  using assms
proof (induction nodes path "is" memo arbitrary: m memo' rule: depth_ids.induct)
  case (1 nodes path memo)
  then show ?case by simp
next
  case (2 nodes path i "is" memo)
  have found: ?case if d: "deepest (needs nodes) i d" and rest: "depth_ids nodes path is memo2 = Inr (m2, memo')"
      and IH: "memo_ok nodes memo' \<and> (\<forall>j \<in> set is. \<exists>d \<le> m2. deepest (needs nodes) j d) \<and>
        (m2 \<noteq> 0 \<longrightarrow> (\<exists>j \<in> set is. deepest (needs nodes) j m2))"
      and m: "m = max d m2" for d m2 memo2
  proof -
    have "\<exists>e \<le> m. deepest (needs nodes) j e" if "j \<in> set is" for j
      using IH that unfolding m by (meson le_trans max.cobounded2)
    moreover have "\<exists>e \<le> m. deepest (needs nodes) i e" using d m by (intro exI [of _ d]) simp
    moreover have "\<exists>j \<in> set (i # is). deepest (needs nodes) j m" if "m \<noteq> 0"
      using d IH that unfolding m by (cases "d \<le> m2") (auto simp: max_def)
    ultimately show ?thesis using IH by simp
  qed
  show ?case
  proof (cases "map_of memo i")
    case (Some d)
    then obtain m2 where r: "depth_ids nodes path is memo = Inr (m2, memo')" "m = max d m2"
      using 2(5) by (auto simp: map_sum_Inr)
    have "deepest (needs nodes) i d" using 2(4) Some by (simp add: memo_ok_def)
    then show ?thesis using r(1) 2(3) [OF Some 2(4) r(1)] r(2) by (rule found)
  next
    case None
    with 2(5) have i: "i \<notin> set path" by (auto split: if_splits)
    obtain m1 memo1 where r1: "depth_ids nodes (i # path) (deps_at nodes i) memo = Inr (m1, memo1)"
      using 2(5) None i by (auto split: sum.splits)
    then obtain m2 where r2: "depth_ids nodes path is ((i, Suc m1) # memo1) = Inr (m2, memo')"
        "m = max (Suc m1) m2"
      using 2(5) None i by (auto simp: map_sum_Inr)
    note one = 2(1) [OF None i 2(4) r1]
    then have d: "deepest (needs nodes) i (Suc m1)"
      by (intro deepest_step) (auto simp: needs_def)
    with one have "memo_ok nodes ((i, Suc m1) # memo1)" by (simp add: memo_ok_def)
    from 2(2) [OF None i r1 refl this r2(1)] r2 show ?thesis by (intro found [OF d])
  qed
qed

lemma depth_ids_cycle:
  assumes "depth_ids nodes path is memo = Inl e" and "\<forall>x \<in> set path. \<forall>j \<in> set is. (x, j) \<in> (needs nodes)\<^sup>+"
  shows "(e, e) \<in> (needs nodes)\<^sup>+"
  using assms
proof (induction nodes path "is" memo rule: depth_ids.induct)
  case (1 nodes path memo)
  then show ?case by simp
next
  case (2 nodes path i "is" memo)
  show ?case
  proof (cases "map_of memo i")
    case (Some d)
    then show ?thesis using 2(3) [OF Some] 2(4,5) by (cases "depth_ids nodes path is memo") auto
  next
    case None
    show ?thesis
    proof (cases "i \<in> set path")
      case True
      then show ?thesis using 2(4,5) None by auto
    next
      case False
      have inner: "\<forall>x \<in> set (i # path). \<forall>j \<in> set (deps_at nodes i). (x, j) \<in> (needs nodes)\<^sup>+"
        using 2(5) by (auto simp: needs_def intro: trancl_into_trancl)
      show ?thesis
      proof (cases "depth_ids nodes (i # path) (deps_at nodes i) memo")
        case (Inl e')
        with 2(4) None False have "e' = e" by simp
        with Inl have "depth_ids nodes (i # path) (deps_at nodes i) memo = Inl e" by simp
        from 2(1) [OF None False this inner] show ?thesis .
      next
        case (Inr q)
        obtain m1 memo1 where q: "q = (m1, memo1)" by (cases q)
        show ?thesis using 2(2) [OF None False Inr q [symmetric]] 2(4,5) None False Inr q
          by (cases "depth_ids nodes path is ((i, Suc m1) # memo1)") auto
      qed
    qed
  qed
qed

lemma chain_of_path:
  assumes "(i, j) \<in> E\<^sup>+" and "chain E j k"
  shows "\<exists>k' > k. chain E i k'"
  using assms by (induction rule: converse_trancl_induct) (meson chain.intros(2) lessI less_trans_Suc Suc_lessD)+

lemma deepest_no_loop:
  assumes "deepest E i d"
  shows "(i, i) \<notin> E\<^sup>+"
  using assms chain_of_path [of i i E] by (auto simp: deepest_def dest: leD)

lemma longestChainDepth_Inr:
  assumes "longestChainDepth nodes = Inr d"
  shows "acyclic (needs nodes) \<and> (\<forall>n \<in> set nodes. \<exists>k \<le> d. deepest (needs nodes) (pn_id n) k) \<and>
    (d \<noteq> 0 \<longrightarrow> (\<exists>n \<in> set nodes. deepest (needs nodes) (pn_id n) d))"
proof -
  obtain memo where r: "depth_ids nodes [] (map pn_id nodes) [] = Inr (d, memo)"
    using assms by (auto simp: longestChainDepth_def split: sum.splits)
  note c = depth_ids_correct [OF _ r]
  have "(x, x) \<notin> (needs nodes)\<^sup>+" for x
  proof
    assume x: "(x, x) \<in> (needs nodes)\<^sup>+"
    then obtain y where "(x, y) \<in> needs nodes" by (meson converse_tranclE)
    then have "x \<in> pn_id ` set nodes"
      by (cases "plan_node_of nodes x") (auto simp: needs_def deps_at_def dest: plan_node_of_SomeD)
    then obtain n where "n \<in> set nodes" "x = pn_id n" by blast
    with c obtain k where "deepest (needs nodes) x k" by (auto simp: memo_ok_def)
    from deepest_no_loop [OF this] x show False by blast
  qed
  with c show ?thesis by (auto simp: memo_ok_def acyclic_def)
qed

lemma longestChainDepth_Inl:
  "longestChainDepth nodes = Inl e \<Longrightarrow> \<not> acyclic (needs nodes)"
  using depth_ids_cycle [of nodes "[]" "map pn_id nodes" "[]"]
  by (auto simp: longestChainDepth_def acyclic_def split: sum.splits)

section \<open>The work of a merged node\<close>

definition carries :: "plan_node \<Rightarrow> plan_node \<Rightarrow> bool" where
  "carries n m \<longleftrightarrow>
     set (writeFilesOf n) \<subseteq> set (writeFilesOf m) \<and>
     set (nullish (pn_readFiles n) []) \<subseteq> set (nullish (pn_readFiles m) []) \<and>
     set (nullish (pn_scopeAcknowledged n) []) \<subseteq> set (nullish (pn_scopeAcknowledged m) []) \<and>
     dod_id ` set (nullish (pn_definitionOfDone n) []) \<subseteq> dod_id ` set (nullish (pn_definitionOfDone m) []) \<and>
     verification_key ` set (pn_verification n) \<subseteq> verification_key ` set (pn_verification m)"

lemma carries_refl [simp]: "carries n n"
  by (simp add: carries_def)

lemma carries_trans: "carries l m \<Longrightarrow> carries m n \<Longrightarrow> carries l n"
  unfolding carries_def by (elim conjE, intro conjI) (erule (1) order_trans)+

lemma first_of_key_keys: "key ` set (first_of_key key seen xs) = key ` set xs - set seen"
  by (induction key seen xs rule: first_of_key.induct) auto

lemma first_of_key_subset: "set (first_of_key key seen xs) \<subseteq> set xs"
  by (induction key seen xs rule: first_of_key.induct) auto

lemma first_of_key_cong: "set seen = set seen' \<Longrightarrow> first_of_key key seen xs = first_of_key key seen' xs"
proof (induction xs arbitrary: seen seen')
  case (Cons x xs)
  have "first_of_key key (key x # seen) xs = first_of_key key (key x # seen') xs"
    by (rule Cons.IH) (simp add: Cons.prems)
  moreover have "first_of_key key seen xs = first_of_key key seen' xs" by (rule Cons.IH [OF Cons.prems])
  ultimately show ?case by (simp only: first_of_key.simps Cons.prems)
qed simp

lemma first_of_key_append:
  "first_of_key key seen (xs @ ys) = first_of_key key seen xs @ first_of_key key (rev (map key xs) @ seen) ys"
proof (induction key seen xs rule: first_of_key.induct)
  case (2 key seen x xs)
  have "first_of_key key (rev (map key xs) @ seen) ys =
      first_of_key key (rev (map key xs) @ key x # seen) ys" if "key x \<in> set seen"
    using that by (intro first_of_key_cong) auto
  with 2 show ?case by auto
qed simp

lemma union_files_set:
  "set (nullish (union_files a b keep) []) = set (nullish a []) \<union> (if keep then set (nullish b []) else {})"
  by (cases a) (auto simp: union_files_def)

lemma merged_carries: "carries parent (merged_node child parent)" "carries child (merged_node child parent)"
  by (auto simp: carries_def merged_node_def writeFilesOf_def union_files_set dedupeById_def
      dedupeVerification_def first_of_key_keys)

lemma redirected_carries: "carries n (redirected c p n)"
  by (simp add: carries_def redirected_def writeFilesOf_def)

text \<open>The fold accounts for every node: the folded child by the parent, the others by themselves.\<close>

lemma fold_carries:
  assumes "plan_ok nodes" and "child \<in> set nodes" and "parent \<in> set nodes" and "pn_id child \<noteq> pn_id parent"
    and "n \<in> set nodes"
  shows "\<exists>m \<in> set (foldNodeInto nodes child parent).
    pn_id m = (if pn_id n = pn_id child then pn_id parent else pn_id n) \<and> carries n m"
proof -
  have d: "distinct (map pn_id nodes)" using assms(1) by (simp add: plan_ok_def)
  note members = fold_members [OF d assms(3,4)]
  consider "n = child" | "n = parent" | "pn_id n \<noteq> pn_id child" "pn_id n \<noteq> pn_id parent"
    using d assms(2,3,5) by (auto simp: distinct_map dest: inj_onD)
  then show ?thesis
  proof cases
    case 3
    then have "redirected (pn_id child) (pn_id parent) n \<in> set (foldNodeInto nodes child parent)"
      using assms(5) members by blast
    with 3 show ?thesis using redirected_carries by (intro bexI) auto
  qed (use merged_carries assms(4) members in \<open>auto intro!: bexI [of _ "merged_node child parent"]\<close>)
qed

section \<open>The owner of a drafted node\<close>

lemma resolve_step:
  assumes "\<forall>a b. map_of P a = Some b \<longrightarrow> rank a < (rank b :: nat)"
    and "\<forall>s \<in> set seen. rank s < rank i" and "\<forall>s \<in> set seen'. rank s < rank i"
  shows "resolve_owner P seen i = resolve_owner P seen' i"
  using assms
proof (induction P seen i arbitrary: seen' rule: resolve_owner.induct)
  case (1 P seen i)
  show ?case
  proof (cases "map_of P i")
    case None
    then show ?thesis by (simp add: resolve_owner.simps)
  next
    case (Some q)
    then have less: "rank i < rank q" using 1(2) by blast
    have "i \<notin> set seen" "i \<notin> set seen'" using 1(3,4) by auto
    moreover have "\<forall>s \<in> set (i # seen). rank s < rank q" "\<forall>s \<in> set (i # seen'). rank s < rank q"
      using 1(3,4) less by (auto intro: less_trans)
    then have "resolve_owner P (i # seen) q = resolve_owner P (i # seen') q"
      by (rule 1(1) [OF Some \<open>i \<notin> set seen\<close> 1(2)])
    ultimately show ?thesis using Some by (simp add: resolve_owner.simps [of P _ i])
  qed
qed

lemma resolve_unfold:
  assumes "\<forall>a b. map_of P a = Some b \<longrightarrow> rank a < (rank b :: nat)"
  shows "resolve_owner P [] i = (case map_of P i of None \<Rightarrow> i | Some q \<Rightarrow> resolve_owner P [] q)"
  using resolve_step [OF assms, of "[i]" _ "[]"] assms
  by (subst resolve_owner.simps) (auto split: option.splits)

lemma resolve_update_ranked:
  assumes "\<forall>a b. map_of P a = Some b \<longrightarrow> rank a < (rank b :: nat)"
    and "\<forall>a b. map_of (AList.update c p P) a = Some b \<longrightarrow> rank' a < (rank' b :: nat)"
    and "map_of P c = None" and "map_of P p = None" and "\<forall>s \<in> set seen. rank s < rank i"
  shows "resolve_owner (AList.update c p P) [] i =
      (if resolve_owner P [] i = c then p else resolve_owner P [] i)"
  using assms
proof (induction P seen i rule: resolve_owner.induct)
  case (1 P seen i)
  note unfold = resolve_unfold [OF 1(2)] and unfold' = resolve_unfold [OF 1(3)]
  show ?case
  proof (cases "map_of P i")
    case None
    have "rank' c < rank' p" using 1(3) by (simp add: update_conv')
    then have "p \<noteq> c" by auto
    then have "resolve_owner (AList.update c p P) [] p = p" using 1(5) by (simp add: unfold' [of p] update_conv')
    with None show ?thesis by (simp add: unfold [of i] unfold' [of i] update_conv')
  next
    case (Some q)
    then have "rank i < rank q" using 1(2) by blast
    with 1(6) have "\<forall>s \<in> set (i # seen). rank s < rank q" by (auto intro: less_trans)
    moreover have "i \<notin> set seen" using 1(6) by auto
    ultimately have "resolve_owner (AList.update c p P) [] q =
        (if resolve_owner P [] q = c then p else resolve_owner P [] q)"
      using 1(1) [OF Some _ 1(2-5)] by blast
    moreover have "i \<noteq> c" using Some 1(4) by auto
    ultimately show ?thesis using Some by (simp add: unfold [of i] unfold' [of i] update_conv')
  qed
qed

lemma resolve_update:
  assumes "\<forall>a b. map_of P a = Some b \<longrightarrow> rank a < (rank b :: nat)"
    and "map_of P c = None" and "map_of P p = None" and "c \<noteq> p"
  shows "resolve_owner (AList.update c p P) [] i =
      (if resolve_owner P [] i = c then p else resolve_owner P [] i)"
    and "\<exists>rank'. \<forall>a b. map_of (AList.update c p P) a = Some b \<longrightarrow> rank' a < (rank' b :: nat)"
proof -
  define rank' where "rank' = rank(p := Suc (rank p + rank c))"
  have r': "\<forall>a b. map_of (AList.update c p P) a = Some b \<longrightarrow> rank' a < rank' b"
    using assms by (auto simp: update_conv' rank'_def intro: less_SucI trans_less_add1)
  then show "\<exists>rank'. \<forall>a b. map_of (AList.update c p P) a = Some b \<longrightarrow> rank' a < (rank' b :: nat)" by blast
  show "resolve_owner (AList.update c p P) [] i =
      (if resolve_owner P [] i = c then p else resolve_owner P [] i)"
    by (rule resolve_update_ranked [OF assms(1) r' assms(2,3), of "[]"]) simp
qed

lemma parents_of_merge [simp]:
  "parents_of (ts @ [merge_of rule child parent]) = AList.update (pn_id child) (pn_id parent) (parents_of ts)"
  by (simp add: parents_of_def merge_of_def)

lemma parents_of_edits [simp]:
  "\<forall>t \<in> set us. length (tr_nodes t) = 1 \<Longrightarrow> parents_of (ts @ us) = parents_of ts"
proof (induction us rule: rev_induct)
  case (snoc u us)
  then obtain i where "tr_nodes u = [i]" by (auto simp: length_Suc_conv)
  with snoc show ?case by (simp add: parents_of_def)
qed simp

text \<open>What every sequence of merges accounts for.\<close>

definition accounted :: "plan_node list \<Rightarrow> plan_node list \<times> transformation list \<Rightarrow> bool" where
  "accounted drafted r \<longleftrightarrow> plan_ok (fst r) \<and>
     (\<exists>rank. \<forall>a b. map_of (parents_of (snd r)) a = Some b \<longrightarrow> rank a < (rank b :: nat)) \<and>
     (\<forall>n \<in> set (fst r). map_of (parents_of (snd r)) (pn_id n) = None) \<and>
     (\<forall>n \<in> set drafted. \<exists>m \<in> set (fst r).
        pn_id m = resolve_owner (parents_of (snd r)) [] (pn_id n) \<and> carries n m)"

lemma accounted_step:
  assumes "merge_step x y" and "accounted drafted x"
  shows "accounted drafted y"
proof -
  obtain child parent nodes ts rule where c: "child \<in> set nodes" "parent \<in> set nodes" "pn_id child \<noteq> pn_id parent"
      and x: "x = (nodes, ts)" and y: "y = (foldNodeInto nodes child parent, ts @ [merge_of rule child parent])"
    using assms(1) by (auto elim: merge_stepE)
  let ?P = "parents_of ts" and ?c = "pn_id child" and ?p = "pn_id parent"
  obtain rank where r: "\<forall>a b. map_of ?P a = Some b \<longrightarrow> rank a < (rank b :: nat)"
      and ok: "plan_ok nodes" and gone: "\<forall>n \<in> set nodes. map_of ?P (pn_id n) = None"
      and kept: "\<forall>n \<in> set drafted. \<exists>m \<in> set nodes. pn_id m = resolve_owner ?P [] (pn_id n) \<and> carries n m"
    using assms(2) by (auto simp: accounted_def x)
  note up = resolve_update [OF r gone [rule_format, OF c(1)] gone [rule_format, OF c(2)] c(3)]
  have "\<exists>m \<in> set (fst y). pn_id m = resolve_owner (parents_of (snd y)) [] (pn_id n) \<and> carries n m"
    if n: "n \<in> set drafted" for n
  proof -
    obtain m where m: "m \<in> set nodes" "pn_id m = resolve_owner ?P [] (pn_id n)" "carries n m" using kept n by blast
    with fold_carries [OF ok c m(1)] show ?thesis using carries_trans unfolding y by (fastforce simp: up(1))
  qed
  moreover have "\<forall>n \<in> set (fst y). map_of (parents_of (snd y)) (pn_id n) = None"
  proof
    fix n
    assume "n \<in> set (fst y)"
    then have "pn_id n \<in> set (map pn_id (foldNodeInto nodes child parent))" by (simp add: y)
    then have "pn_id n \<in> set (filter (\<lambda>i. i \<noteq> ?c) (map pn_id nodes))" unfolding fold_ids .
    then show "map_of (parents_of (snd y)) (pn_id n) = None" using gone unfolding y by (auto simp: update_conv')
  qed
  ultimately show ?thesis using plan_ok_fold [OF ok c(2,3)] up(2) by (simp add: accounted_def y)
qed

lemma accounted_merges: "merge_step\<^sup>*\<^sup>* x y \<Longrightarrow> accounted drafted x \<Longrightarrow> accounted drafted y"
  by (induction rule: rtranclp_induct) (auto intro: accounted_step)

lemma accounted_start: "plan_ok nodes \<Longrightarrow> accounted nodes (nodes, [])"
  by (auto simp: accounted_def parents_of_def resolve_owner.simps)

section \<open>The whole pass\<close>

text \<open>What the rules that edit a node in place leave of it.\<close>

definition unmeasured :: "plan_node list \<Rightarrow> bool" where
  "unmeasured nodes \<longleftrightarrow> (\<forall>n \<in> set nodes. \<forall>v \<in> set (pn_verification n). sc_measuredMs v = None)"

lemma merge_step_unmeasured: "merge_step x y \<Longrightarrow> unmeasured (fst x) \<Longrightarrow> unmeasured (fst y)"
  by (auto elim!: merge_stepE simp: unmeasured_def foldNodeInto_def merged_node_def redirected_def
      dedupeVerification_def dest!: subsetD [OF first_of_key_subset])

lemma merges_unmeasured: "merge_step\<^sup>*\<^sup>* x y \<Longrightarrow> unmeasured (fst x) \<Longrightarrow> unmeasured (fst y)"
  by (induction rule: rtranclp_induct) (auto intro: merge_step_unmeasured)

lemma unmeasured_split: "unmeasured nodes \<Longrightarrow> splitOverBudgetVerification nodes b files ts = (nodes, ts)"
proof -
  assume u: "unmeasured nodes"
  have split: "map (split_command b files n) (pn_verification n) = map (\<lambda>v. ([v], [])) (pn_verification n)"
    if "n \<in> set nodes" for n
    using u that by (auto simp: unmeasured_def split_command_def overBudget_def)
  have "concat (map (\<lambda>v. [v]) vs) = vs" for vs :: "sizing_command list" by (induction vs) simp_all
  then have "map (\<lambda>n. n\<lparr>pn_verification :=
      concat (map fst (map (split_command b files n) (pn_verification n)))\<rparr>) nodes = nodes"
    by (intro map_idI) (simp add: split comp_def)
  moreover have "concat (map (\<lambda>n. concat (map snd (map (split_command b files n) (pn_verification n)))) nodes) = []"
    by (simp add: split concat_eq_Nil_conv del: map_map)
  ultimately show ?thesis unfolding splitOverBudgetVerification_def Let_def by simp
qed

text \<open>The merges and then the edits: \<open>edited\<close> nodes keep everything but their marks.\<close>

definition edited :: "plan_node \<Rightarrow> plan_node \<Rightarrow> bool" where
  "edited n m \<longleftrightarrow> (\<exists>a b. m = n\<lparr>pn_parallel := a, pn_flaggedOverTurnCeiling := b\<rparr>)"

lemma edited_simps:
  assumes "edited n m"
  shows "pn_id m = pn_id n" "deps_of m = deps_of n" "writeFilesOf m = writeFilesOf n" "carries n m"
  using assms by (auto simp: edited_def deps_of_def writeFilesOf_def carries_def)

lemma merged_plan_merges:
  assumes "plan_ok nodes"
  shows "merge_step\<^sup>*\<^sup>* (nodes, []) (merged_plan nodes op)"
proof (cases "so_exploratory op")
  case True
  then show ?thesis by (simp add: merged_plan_def mergeUnderfilledSiblings_def)
next
  case False
  obtain ns1 ts1 where r1: "mergeNoMechanicalProof nodes [] [] = (ns1, ts1)" by fastforce
  obtain ns2 ts2 where r2: "mergeContainedWriteSet ns1 ts1 = (ns2, ts2)" by fastforce
  have m1: "merge_step\<^sup>*\<^sup>* (nodes, []) (ns1, ts1)" using no_proof_merges [OF r1 assms] .
  then have ok1: "plan_ok ns1" using merges_plan_ok assms by fastforce
  have m2: "merge_step\<^sup>*\<^sup>* (ns1, ts1) (ns2, ts2)" using contained_merges [OF r2 ok1] .
  then have ok2: "plan_ok ns2" using merges_plan_ok ok1 by fastforce
  have m3: "merge_step\<^sup>*\<^sup>* (ns2, ts2) (mergeUnderfilledSiblings ns2 m cap ts2)" for m cap
    using underfilled_merges [OF refl ok2] by (cases m) (simp_all add: mergeUnderfilledSiblings_def)
  from rtranclp_trans [OF rtranclp_trans [OF m1 m2] m3] show ?thesis using False by (simp add: merged_plan_def r1 r2)
qed

definition marked :: "plan_node list \<Rightarrow> sizing_options \<Rightarrow> plan_node \<Rightarrow> plan_node" where
  "marked ms op n =
     (let p = pn_parallel n \<or> parallelisable ms n;
          f = pn_flaggedOverTurnCeiling n \<or>
            (case (so_turnCeiling op, pn_expectedTurns n) of (Some c, Some e) \<Rightarrow> e > c | _ \<Rightarrow> False)
      in n\<lparr>pn_parallel := p, pn_flaggedOverTurnCeiling := f\<rparr>)"

lemma marked_edited: "edited n (marked ms op n)"
  by (auto simp: edited_def marked_def Let_def)

lemma reshaped_merged:
  assumes "unmeasured (fst (merged_plan nodes op))"
  shows "\<exists>us. reshaped nodes op =
      (map (marked (fst (merged_plan nodes op)) op) (fst (merged_plan nodes op)), snd (merged_plan nodes op) @ us) \<and>
    (\<forall>t \<in> set us. length (tr_nodes t) = 1)"
proof -
  obtain ms ts where m: "merged_plan nodes op = (ms, ts)" by fastforce
  obtain ns1 us1 where p: "markParallelisable ms ts = (ns1, ts @ us1)" and u1: "\<forall>t \<in> set us1. length (tr_nodes t) = 1"
      and ns1: "ns1 = map (\<lambda>n. if parallelisable ms n then n\<lparr>pn_parallel := True\<rparr> else n) ms"
    by (simp add: markParallelisable_def)
  obtain ns2 us2 where f: "flagOverTurnCeiling ns1 (so_turnCeiling op) (ts @ us1) = (ns2, (ts @ us1) @ us2)"
      and u2: "\<forall>t \<in> set us2. length (tr_nodes t) = 1" and ns2: "ns2 = map (marked ms op) ms"
  proof (cases "so_turnCeiling op")
    case None
    then have "ns1 = map (marked ms op) ms" by (auto simp: ns1 marked_def)
    with None that [of ns1 "[]"] show thesis by (simp add: flagOverTurnCeiling_def)
  next
    case (Some c)
    show thesis
      by (rule that) (use Some in \<open>auto simp: flagOverTurnCeiling_def Let_def ns1 marked_def split: option.splits\<close>)
  qed
  have v: "\<exists>us3. flagReadVolumeImbalance ns2 g zs = (ns2, zs @ us3) \<and> (\<forall>t \<in> set us3. length (tr_nodes t) = 1)" for g zs
    by (cases g) (auto simp: flagReadVolumeImbalance_def Let_def)
  have "reshaped nodes op = (if so_exploratory op
      then flagReadVolumeImbalance ns2 (so_readVolume op) ((ts @ us1) @ us2) else (ns2, (ts @ us1) @ us2))"
    using assms m p f unmeasured_split [of ms]
    by (simp add: reshaped_def merged_plan_def Let_def split_def)
  with v [of "so_readVolume op" "(ts @ us1) @ us2"] u1 u2 ns2 show ?thesis
    by (auto simp: m intro: exI [of _ "us1 @ us2"])
qed

lemma applySizingRules_Inr:
  assumes "applySizingRules nodes justified op = Inr sz"
  shows "reshaped nodes op = (sz_nodes sz, sz_transformations sz) \<and>
    (length (sz_nodes sz) = 1 \<longrightarrow> so_targetedFix op) \<and>
    (\<exists>d. longestChainDepth (sz_nodes sz) = Inr d \<and> (d \<le> DEPTH_CEILING \<or> justified))"
  using assms by (auto simp: applySizingRules_def Let_def split: prod.splits option.splits if_splits sum.splits)

lemma sized_accounts:
  assumes "plan_ok nodes" and "unmeasured nodes" and "applySizingRules nodes justified op = Inr sz"
  obtains us where "sz_nodes sz = map (marked (fst (merged_plan nodes op)) op) (fst (merged_plan nodes op))"
    "sz_transformations sz = snd (merged_plan nodes op) @ us" "\<forall>t \<in> set us. length (tr_nodes t) = 1"
    "accounted nodes (merged_plan nodes op)"
proof -
  have m: "merge_step\<^sup>*\<^sup>* (nodes, []) (merged_plan nodes op)" using merged_plan_merges [OF assms(1)] .
  have "unmeasured (fst (merged_plan nodes op))" using merges_unmeasured [OF m] assms(2) by simp
  from reshaped_merged [OF this] applySizingRules_Inr [OF assms(3)]
  obtain us where "sz_nodes sz = map (marked (fst (merged_plan nodes op)) op) (fst (merged_plan nodes op))"
      "sz_transformations sz = snd (merged_plan nodes op) @ us" "\<forall>t \<in> set us. length (tr_nodes t) = 1"
    by auto
  with accounted_merges [OF m accounted_start [OF assms(1)]] show thesis by (intro that)
qed

lemma carried_declaration:
  assumes "k < length phases" and "pd_nodeIds (phases ! k) = Some ids" and "i \<in> set ids"
  shows "\<exists>carried ids'. carryPhaseDeclarations (Some phases) ts = Some carried \<and> length carried = length phases \<and>
    pd_nodeIds (carried ! k) = Some ids' \<and> resolve_owner (parents_of ts) [] i \<in> set ids'"
proof (cases "parents_of ts = []")
  case True
  then have "resolve_owner (parents_of ts) [] i = i" by (simp add: resolve_owner.simps)
  with True assms show ?thesis by (simp add: carryPhaseDeclarations_def)
next
  case False
  with assms show ?thesis by (simp add: carryPhaseDeclarations_def)
qed

text \<open>
  C27. Take a drafted plan whose ids are distinct, in which no node depends on itself and no verification
  command carries a measured time, as none does in the pipeline. When sizing accepts it, it has lost no
  work: for every drafted node there is a node of the sized plan that has all its write files, read files,
  acknowledged paths, verification commands and Definition of Done items, by their keys (an item by its id,
  a command by its argv); and every phase that named the drafted node names that one. The first two
  conditions are needed: sizing does not check them, and a node that depends on itself can vanish from a plan
  it accepts (\<open>self_dependent_node_vanishes\<close>). So is the third: measured commands over the budget are replaced.
\<close>

theorem sizing_keeps_the_work:
  assumes "plan_ok nodes" and "unmeasured nodes" and "applySizingRules nodes justified op = Inr sz"
    and "n \<in> set nodes"
  shows "\<exists>m \<in> set (sz_nodes sz). carries n m \<and>
    (\<forall>phases k ids. k < length phases \<and> pd_nodeIds (phases ! k) = Some ids \<and> pn_id n \<in> set ids \<longrightarrow>
       (\<exists>carried ids'. carryPhaseDeclarations (Some phases) (sz_transformations sz) = Some carried \<and>
          pd_nodeIds (carried ! k) = Some ids' \<and> pn_id m \<in> set ids'))"
proof -
  from sized_accounts [OF assms(1-3)] obtain us
    where nodes: "sz_nodes sz = map (marked (fst (merged_plan nodes op)) op) (fst (merged_plan nodes op))"
      and ts: "sz_transformations sz = snd (merged_plan nodes op) @ us" "\<forall>t \<in> set us. length (tr_nodes t) = 1"
      and acc: "accounted nodes (merged_plan nodes op)" .
  from acc assms(4) obtain l where l: "l \<in> set (fst (merged_plan nodes op))"
      "pn_id l = resolve_owner (parents_of (sz_transformations sz)) [] (pn_id n)" "carries n l"
    using ts by (auto simp: accounted_def)
  let ?m = "marked (fst (merged_plan nodes op)) op l"
  note e = edited_simps [OF marked_edited [of l "fst (merged_plan nodes op)" op]]
  have "?m \<in> set (sz_nodes sz)" "carries n ?m" using l(1,3) e(4) carries_trans by (auto simp: nodes)
  with l(2) e(1) show ?thesis using carried_declaration by metis
qed

text \<open>
  A plan that sizing accepts has an acyclic dependency graph, and no chain of more than eight nodes
  unless the plan gives a justification.
\<close>

theorem sized_plan_is_shallow:
  assumes "applySizingRules nodes justified op = Inr sz"
  shows "acyclic (needs (sz_nodes sz)) \<and>
    (\<forall>i k. chain (needs (sz_nodes sz)) i k \<longrightarrow> i \<in> pn_id ` set (sz_nodes sz) \<longrightarrow> k \<le> 8 \<or> justified)"
proof -
  from applySizingRules_Inr [OF assms] obtain d
    where d: "longestChainDepth (sz_nodes sz) = Inr d" "d \<le> DEPTH_CEILING \<or> justified" by blast
  with longestChainDepth_Inr [OF d(1)] show ?thesis
    by (fastforce simp: deepest_def DEPTH_CEILING_def)
qed

lemma merges_unmarked:
  "merge_step\<^sup>*\<^sup>* x y \<Longrightarrow> \<forall>n \<in> set (fst x). \<not> pn_parallel n \<Longrightarrow> \<forall>n \<in> set (fst y). \<not> pn_parallel n"
  by (induction rule: rtranclp_induct)
    (auto elim!: merge_stepE simp: foldNodeInto_def merged_node_def redirected_def)

lemma needs_marked: "needs (map (marked ms' op) ms) = needs ms"
proof -
  note e = edited_simps [OF marked_edited [of _ ms' op]]
  have "plan_node_of (map (marked ms' op) ms) i = map_option (marked ms' op) (plan_node_of ms i)" for i
    unfolding plan_node_of_def find_last_map by (simp add: comp_def e)
  then have "deps_at (map (marked ms' op) ms) i = deps_at ms i" for i
    by (cases "plan_node_of ms i") (simp_all add: deps_at_def e)
  then show ?thesis by (simp add: needs_def)
qed

text \<open>
  C29. Two nodes that sizing marks parallel share no write file, and neither needs the other, directly or
  through others; in a drafted plan of distinct ids in which no node depends on itself, none is marked
  parallel beforehand and no command carries a measured time.
\<close>

theorem parallel_nodes_are_independent:
  assumes "plan_ok nodes" and "unmeasured nodes" and "\<forall>n \<in> set nodes. \<not> pn_parallel n"
    and "applySizingRules nodes justified op = Inr sz"
    and "a \<in> set (sz_nodes sz)" and "b \<in> set (sz_nodes sz)" and "pn_parallel a" and "a \<noteq> b"
  shows "set (writeFilesOf a) \<inter> set (writeFilesOf b) = {} \<and>
    (pn_id a, pn_id b) \<notin> (needs (sz_nodes sz))\<^sup>+ \<and> (pn_id b, pn_id a) \<notin> (needs (sz_nodes sz))\<^sup>+"
proof -
  let ?M = "fst (merged_plan nodes op)"
  from sized_accounts [OF assms(1,2,4)] have sz: "sz_nodes sz = map (marked ?M op) ?M" and ok: "plan_ok ?M"
    by (auto simp: accounted_def)
  have unmarked: "\<forall>n \<in> set ?M. \<not> pn_parallel n"
    using merges_unmarked [OF merged_plan_merges [OF assms(1)]] assms(3) by simp
  obtain n m where n: "n \<in> set ?M" "a = marked ?M op n" and m: "m \<in> set ?M" "b = marked ?M op m"
    using assms(5,6) sz by auto
  note an = edited_simps [OF marked_edited [of n ?M op]] and bm = edited_simps [OF marked_edited [of m ?M op]]
  have p: "parallelisable ?M n" using assms(7) n unmarked by (simp add: marked_def Let_def)
  have ids: "pn_id n \<noteq> pn_id m" using n m assms(8) ok by (auto simp: plan_ok_def distinct_map dest: inj_onD)
  have "set (writeFilesOf a) \<inter> set (writeFilesOf b) = {}"
    using p ids m(1) by (auto simp: parallelisable_def list_all_iff list_ex_iff n(2) m(2) an bm)
  moreover have needs: "needs (sz_nodes sz) = needs ?M"
    unfolding sz by (rule needs_marked)
  moreover have d: "distinct (map pn_id ?M)" using ok by (simp add: plan_ok_def)
  moreover have "(pn_id n, j) \<notin> needs ?M" for j
    using p by (simp add: needs_def deps_at_def plan_node_of_distinct [OF d n(1)] parallelisable_def)
  moreover have "(j, pn_id n) \<notin> needs ?M" for j
    using p unfolding needs_distinct [OF d] by (auto simp: parallelisable_def list_ex_iff)
  ultimately show ?thesis by (auto simp: n(2) an elim: tranclE converse_tranclE)
qed

section \<open>What a merge does to a proof\<close>

lemma first_of_key_keeps:
  "x \<in> set xs \<Longrightarrow> key x \<notin> set seen \<Longrightarrow> distinct (map key xs) \<Longrightarrow> x \<in> set (first_of_key key seen xs)"
proof (induction key seen xs rule: first_of_key.induct)
  case (2 key seen y ys)
  have "key x \<noteq> key y" if "x \<in> set ys"
  proof
    assume "key x = key y"
    with imageI [OF that, of key] have "key y \<in> key ` set ys" by simp
    with 2 show False by simp
  qed
  with 2 show ?case by auto
qed simp

text \<open>
  C26. A merge keeps the Definition of Done items of the folded node (of distinct ids) whose ids are new to
  the parent, but not what their verification proofs mean: a proof that names a position the parent's list
  has, once its repeated commands are dropped, reads the parent's command there, whatever the folded node's
  command was.
\<close>

theorem merged_proof_reads_the_parents_command:
  assumes "item \<in> set (nullish (pn_definitionOfDone child) [])"
    and "distinct (map dod_id (nullish (pn_definitionOfDone child) []))"
    and "dod_id item \<notin> dod_id ` set (nullish (pn_definitionOfDone parent) [])"
    and "dod_proof item = Some (Proof_verification, show_nat k)"
    and "k < length (dedupeVerification (pn_verification parent))"
  shows "item \<in> set (nullish (pn_definitionOfDone (merged_node child parent)) []) \<and>
    proofCommandText (merged_node child parent) (dod_proof item) =
      Some (join_with '' '' (cmd_argv (sc_command (dedupeVerification (pn_verification parent) ! k))))"
proof
  have "item \<in> set (first_of_key dod_id (rev (map dod_id (nullish (pn_definitionOfDone parent) [])))
      (nullish (pn_definitionOfDone child) []))"
    using assms(1-3) by (intro first_of_key_keeps) auto
  then show "item \<in> set (nullish (pn_definitionOfDone (merged_node child parent)) [])"
    by (simp add: merged_node_def dedupeById_def first_of_key_append)
  have "pn_verification (merged_node child parent) = dedupeVerification (pn_verification parent) @
      first_of_key verification_key (rev (map verification_key (pn_verification parent))) (pn_verification child)"
    by (simp add: merged_node_def dedupeVerification_def first_of_key_append)
  then show "proofCommandText (merged_node child parent) (dod_proof item) =
      Some (join_with '' '' (cmd_argv (sc_command (dedupeVerification (pn_verification parent) ! k))))"
    using assms(4,5) by (simp add: proofCommandText_def nth_append)
qed

section \<open>Witnesses\<close>

definition drafted :: "string \<Rightarrow> string list \<Rightarrow> string list \<Rightarrow> bool \<Rightarrow> plan_node" where
  "drafted i deps writes proven = \<lparr>pn_id = i, pn_dependsOn = Some deps, pn_taskKind = Some ''feature'',
     pn_riskTier = Some ''low'', pn_objective = Some ''do'', pn_expectedTurns = None,
     pn_definitionOfDone = Some [\<lparr>dod_id = i @ ''-done'',
       dod_proof = (if proven then Some (Proof_verification, ''0'') else None), dod_judgment = \<not> proven\<rparr>],
     pn_readFiles = Some [], pn_writeFiles = Some writes, pn_scopeAcknowledged = Some [],
     pn_verification = [test_command (''test/'' @ i)], pn_parallel = False, pn_flaggedOverTurnCeiling = False\<rparr>"

definition sample_sizing :: sizing_options where
  "sample_sizing = \<lparr>so_nodeBudgetMs = 1000, so_targetedFix = False, so_paths = None, so_testFiles = [],
     so_minWriteFiles = Some MIN_WRITE_FILES, so_maxMergedWriteFiles = None, so_turnCeiling = None, so_exploratory = False,
     so_readVolume = None\<rparr>"

text \<open>Three nodes, the last needing the first both directly and through the second.\<close>

definition sample_triangle :: "plan_node list" where
  "sample_triangle = [drafted ''a'' [] [''src/a.js''] True, drafted ''b'' [''a''] [''lib/b.js''] True,
     drafted ''c'' [''a'', ''b''] [''doc/c.md''] False]"

text \<open>Two underfilled nodes of one directory, and one of another.\<close>

definition sample_siblings :: "plan_node list" where
  "sample_siblings = [drafted ''a'' [] [''src/a.js''] True, drafted ''b'' [] [''src/b.js''] True,
     drafted ''c'' [] [''doc/c.md''] True]"

lemma triangle_is_refused:
  "longestChainDepth sample_triangle = Inr 3"
  "applySizingRules sample_triangle False sample_sizing =
     Inl ''sizing_dependency_cycle: node a depends on itself through a dependsOn cycle''"
  by code_simp+

lemma siblings_are_sized:
  "\<not> isl (applySizingRules sample_siblings False sample_sizing)"
  by code_simp

text \<open>After sizing, the proof of \<open>b\<close> runs the test of \<open>a\<close>.\<close>

lemma sized_proof_runs_another_test:
  "map (\<lambda>n. (pn_id n, pn_parallel n, map (\<lambda>i. (dod_id i, proofCommandText n (dod_proof i)))
      (nullish (pn_definitionOfDone n) []))) (sz_nodes (projr (applySizingRules sample_siblings False sample_sizing))) =
   [(''a'', True, [(''a-done'', Some ''node --test test/a''), (''b-done'', Some ''node --test test/a'')]),
    (''c'', True, [(''c-done'', Some ''node --test test/c'')])]"
  by code_simp

text \<open>A node without a mechanical proof that names itself first is folded into itself and is gone.\<close>

lemma self_dependent_node_vanishes:
  "map pn_id (sz_nodes (projr (applySizingRules
     (sample_siblings @ [drafted ''d'' [''d''] [''etc/d''] False]) False sample_sizing))) = [''a'', ''c'']"
  by code_simp

lemma sample_plans_ok: "plan_ok sample_triangle" "plan_ok sample_siblings" "unmeasured sample_siblings"
  by (simp_all add: sample_triangle_def sample_siblings_def drafted_def plan_ok_def unmeasured_def
      deps_of_def test_command_def)

text \<open>The second node lies between the last and the first, so the merge closes a cycle.\<close>

theorem merge_keeps_order_iff_witness:
  "acyclic (needs sample_triangle) \<and>
   \<not> acyclic (needs (foldNodeInto sample_triangle (sample_triangle ! 2) (sample_triangle ! 0)))"
proof
  show a: "acyclic (needs sample_triangle)" using longestChainDepth_Inr [OF triangle_is_refused(1)] by blast
  have "deps_at sample_triangle ''c'' = [''a'', ''b'']" "deps_at sample_triangle ''b'' = [''a'']" by code_simp+
  then have "(''c'', ''b'') \<in> needs sample_triangle" "(''b'', ''a'') \<in> needs sample_triangle"
    by (simp_all add: needs_def)
  then have between: "\<exists>z. z \<noteq> ''c'' \<and> z \<noteq> ''a'' \<and>
      ((''c'', z) \<in> (needs sample_triangle)\<^sup>+ \<and> (z, ''a'') \<in> (needs sample_triangle)\<^sup>+ \<or>
       (''a'', z) \<in> (needs sample_triangle)\<^sup>+ \<and> (z, ''c'') \<in> (needs sample_triangle)\<^sup>+)"
    by (intro exI [of _ "''b''"]) (simp add: r_into_trancl)
  have ids: "pn_id (sample_triangle ! 2) = ''c''" "pn_id (sample_triangle ! 0) = ''a''" by code_simp+
  have members: "sample_triangle ! 2 \<in> set sample_triangle" "sample_triangle ! 0 \<in> set sample_triangle"
    by (simp_all add: sample_triangle_def)
  have "pn_id (sample_triangle ! 2) \<noteq> pn_id (sample_triangle ! 0)" by (simp add: ids)
  from merge_keeps_order_iff [OF sample_plans_ok(1) a members this, unfolded ids] between
  show "\<not> acyclic (needs (foldNodeInto sample_triangle (sample_triangle ! 2) (sample_triangle ! 0)))"
    by blast
qed

theorem sizing_keeps_the_work_witness:
  "\<exists>m \<in> set (sz_nodes (projr (applySizingRules sample_siblings False sample_sizing))).
     carries (drafted ''b'' [] [''src/b.js''] True) m"
proof -
  obtain sz where sz: "applySizingRules sample_siblings False sample_sizing = Inr sz"
    using siblings_are_sized by (cases "applySizingRules sample_siblings False sample_sizing") auto
  have "drafted ''b'' [] [''src/b.js''] True \<in> set sample_siblings" by (simp add: sample_siblings_def)
  from sizing_keeps_the_work [OF sample_plans_ok(2,3) sz this] sz show ?thesis by auto
qed

theorem sized_plan_is_shallow_witness:
  "acyclic (needs (sz_nodes (projr (applySizingRules sample_siblings False sample_sizing))))"
proof -
  obtain sz where sz: "applySizingRules sample_siblings False sample_sizing = Inr sz"
    using siblings_are_sized by (cases "applySizingRules sample_siblings False sample_sizing") auto
  from sized_plan_is_shallow [OF sz] sz show ?thesis by simp
qed

theorem parallel_nodes_are_independent_witness:
  "\<exists>a b. {a, b} \<subseteq> set (sz_nodes (projr (applySizingRules sample_siblings False sample_sizing))) \<and>
     pn_parallel a \<and> pn_parallel b \<and> a \<noteq> b \<and> set (writeFilesOf a) \<inter> set (writeFilesOf b) = {}"
proof -
  obtain sz where sz: "applySizingRules sample_siblings False sample_sizing = Inr sz"
    using siblings_are_sized by (cases "applySizingRules sample_siblings False sample_sizing") auto
  let ?N = "sz_nodes (projr (applySizingRules sample_siblings False sample_sizing))"
  have "length ?N = 2 \<and> pn_parallel (?N ! 0) \<and> pn_parallel (?N ! 1) \<and> pn_id (?N ! 0) \<noteq> pn_id (?N ! 1)"
    by code_simp
  then have n: "length (sz_nodes sz) = 2" "pn_parallel (sz_nodes sz ! 0)" "pn_parallel (sz_nodes sz ! 1)"
      "sz_nodes sz ! 0 \<noteq> sz_nodes sz ! 1"
    using sz by auto
  have "\<forall>n \<in> set sample_siblings. \<not> pn_parallel n" by (simp add: sample_siblings_def drafted_def)
  from parallel_nodes_are_independent [OF sample_plans_ok(2,3) this sz, of "sz_nodes sz ! 0" "sz_nodes sz ! 1"] n
  show ?thesis using sz by (intro exI [of _ "sz_nodes sz ! 0"] exI [of _ "sz_nodes sz ! 1"]) auto
qed

theorem merged_proof_reads_the_parents_command_witness:
  "proofCommandText (drafted ''b'' [] [''src/b.js''] True) (Some (Proof_verification, ''0'')) =
     Some ''node --test test/b'' \<and>
   proofCommandText (merged_node (drafted ''b'' [] [''src/b.js''] True) (drafted ''a'' [] [''src/a.js''] True))
     (Some (Proof_verification, ''0'')) = Some ''node --test test/a''"
proof
  show "proofCommandText (drafted ''b'' [] [''src/b.js''] True) (Some (Proof_verification, ''0'')) =
     Some ''node --test test/b''"
    by code_simp
  let ?item = "\<lparr>dod_id = ''b-done'', dod_proof = Some (Proof_verification, ''0''), dod_judgment = False\<rparr>"
  have zero: "show_nat 0 = ''0''" by code_simp
  have "dedupeVerification (pn_verification (drafted ''a'' [] [''src/a.js''] True)) = [test_command ''test/a'']"
    by (simp add: drafted_def dedupeVerification_def)
  moreover have "join_with '' '' (cmd_argv (sc_command (test_command ''test/a''))) = ''node --test test/a''"
    by code_simp
  ultimately show "proofCommandText (merged_node (drafted ''b'' [] [''src/b.js''] True)
      (drafted ''a'' [] [''src/a.js''] True)) (Some (Proof_verification, ''0'')) = Some ''node --test test/a''"
    using merged_proof_reads_the_parents_command [where k = 0, of ?item "drafted ''b'' [] [''src/b.js''] True"
        "drafted ''a'' [] [''src/a.js''] True"] zero
    by (simp add: drafted_def)
qed

end
