(* ===== verification/Supervise.thy ===== *)
theory Supervise
  imports Retry Lock
begin

text \<open>
  The supervisor of a run (\<open>src/engine/supervise.mjs\<close>, with the schedule of attention of
  \<open>src/engine/notify-queue.mjs\<close>): the controller's heartbeat, what the snapshots say of the run, and the
  loop that relaunches a dead controller.

  What the supervisor sees on a tick is the record \<open>view\<close>: the snapshots, the lock, the heartbeat, the
  clock, whether ending the old controller throws and what a launch leaves in \<open>run.json\<close>. The file
  \<open>run.json\<close> is the record \<open>run_metadata\<close> with the fields the supervisor and the controller write. Signals and
  waiting for a process group are left out; a notification is its dedupe key.
\<close>

section \<open>The heartbeat\<close>

record active_node =
  an_lastProgressAt :: "stamp option"
  an_budgetBasis :: "rat option"

record heartbeat =
  hb_at :: "stamp option"
  hb_lastProgressAt :: "stamp option"
  hb_iteration :: nat
  hb_activeNodes :: "(string \<times> active_node) list"
  hb_recovering :: bool
  hb_until :: "stamp option"

definition HEARTBEAT_INTERVAL_MS :: int where "HEARTBEAT_INTERVAL_MS = 15000"
definition RECOVERING_GRACE_MS :: int where "RECOVERING_GRACE_MS = 30000"

text \<open>\<open>createHeartbeat\<close>: the state of a beating controller and what a beat writes.\<close>

record beating =
  bt_lastProgressAt :: stamp
  bt_iteration :: nat
  bt_activeNodes :: "(string \<times> active_node) list"

definition createHeartbeat :: "heartbeat option \<Rightarrow> int \<Rightarrow> beating" where
  "createHeartbeat previous now =
     \<lparr>bt_lastProgressAt = nullish (Option.bind previous hb_lastProgressAt) (Iso now),
      bt_iteration = 0, bt_activeNodes = []\<rparr>"

definition beat :: "beating \<Rightarrow> int \<Rightarrow> heartbeat" where
  "beat b now = \<lparr>hb_at = Some (Iso now), hb_lastProgressAt = Some (bt_lastProgressAt b),
     hb_iteration = bt_iteration b, hb_activeNodes = bt_activeNodes b, hb_recovering = False, hb_until = None\<rparr>"

definition progressed :: "string option \<Rightarrow> rat option \<Rightarrow> int \<Rightarrow> beating \<Rightarrow> beating" where
  "progressed nodeId budgetBasis now b =
     (let b = b\<lparr>bt_iteration := bt_iteration b + 1, bt_lastProgressAt := Iso now\<rparr>
      in case nodeId of
           None \<Rightarrow> b
         | Some i \<Rightarrow> b\<lparr>bt_activeNodes := AList.update i
               \<lparr>an_lastProgressAt = Some (Iso now),
                an_budgetBasis = Some (nullish (orelse budgetBasis
                  (Option.bind (map_of (bt_activeNodes b) i) an_budgetBasis)) 0)\<rparr> (bt_activeNodes b)\<rparr>)"

definition setActive :: "(string \<times> rat) list \<Rightarrow> int \<Rightarrow> beating \<Rightarrow> beating" where
  "setActive nodes now b =
     (let kept = filter (\<lambda>(i, _). i \<in> set (map fst nodes)) (bt_activeNodes b)
      in b\<lparr>bt_activeNodes := fold (\<lambda>(i, budget) active.
           case map_of active i of
             None \<Rightarrow> AList.update i \<lparr>an_lastProgressAt = Some (Iso now), an_budgetBasis = Some budget\<rparr> active
           | Some e \<Rightarrow>
               if an_budgetBasis e = Some budget then active
               else AList.update i \<lparr>an_lastProgressAt = orelse (an_lastProgressAt e) (Some (Iso now)),
                      an_budgetBasis = Some budget\<rparr> active) nodes kept\<rparr>)"

definition markRecovering :: "heartbeat option \<Rightarrow> stamp \<Rightarrow> stamp \<Rightarrow> heartbeat" where
  "markRecovering previous until moment =
     \<lparr>hb_at = Some moment,
      hb_lastProgressAt = Some (nullish (Option.bind previous hb_lastProgressAt) moment),
      hb_iteration = (case previous of None \<Rightarrow> 0 | Some h \<Rightarrow> hb_iteration h),
      hb_activeNodes = (case previous of None \<Rightarrow> [] | Some h \<Rightarrow> hb_activeNodes h),
      hb_recovering = True, hb_until = Some until\<rparr>"

datatype breach = Breach_at int | Breach_recovering "stamp option" | Breach_node string int rat

definition node_breach :: "int \<Rightarrow> string \<times> active_node \<Rightarrow> breach option" where
  "node_breach now n =
     (case (parse_opt (an_lastProgressAt (snd n)), an_budgetBasis (snd n)) of
        (Some seen, Some budget) \<Rightarrow>
          if of_int (now - seen) > budget then Some (Breach_node (fst n) (now - seen) budget) else None
      | _ \<Rightarrow> None)"

definition heartbeatBreach :: "heartbeat option \<Rightarrow> int \<Rightarrow> int \<Rightarrow> breach option" where
  "heartbeatBreach heartbeat now intervalMs =
     (case heartbeat of
        None \<Rightarrow> None
      | Some h \<Rightarrow>
          orelse
            (case parse_opt (hb_at h) of
               Some t \<Rightarrow> if now - t > 2 * intervalMs then Some (Breach_at (now - t)) else None
             | None \<Rightarrow> None)
            (if hb_recovering h
             then (case parse_opt (hb_until h) of
                Some u \<Rightarrow> if now > u + RECOVERING_GRACE_MS then Some (Breach_recovering (hb_until h)) else None
              | None \<Rightarrow> None)
             else head_opt (List.map_filter (node_breach now) (hb_activeNodes h))))"

section \<open>What the snapshots say of a run\<close>

datatype run_entry = Unreadable_entry string | Entry snapshot

datatype run_outcome = Run_succeeded | Run_parked | Run_waiting | Run_canceled

fun status_text :: "status \<Rightarrow> string" where
  "status_text Pending = ''pending''"
| "status_text Running = ''running''"
| "status_text Done = ''done''"
| "status_text No_op = ''no-op''"
| "status_text Blocked = ''blocked''"
| "status_text Failed = ''failed''"
| "status_text Exhausted = ''exhausted''"
| "status_text Stalled = ''stalled''"
| "status_text Canceled = ''canceled''"

record outcome_node =
  on_id :: string
  on_status :: string
  on_errorCode :: "string option"
  on_message :: "string option"
  on_waitingUntil :: "stamp option"

record reduction =
  rn_outcome :: run_outcome
  rn_nodes :: "outcome_node list"
  rn_waitingUntil :: "stamp option"

definition SUCCESS :: "status \<Rightarrow> bool" where
  "SUCCESS s \<longleftrightarrow> s \<in> {Done, No_op}"

definition tier_exhausted :: "snapshot \<Rightarrow> bool" where
  "tier_exhausted s \<longleftrightarrow> ns_status s = Blocked \<and> has_error s ''runtime_tier_exhausted''"

text \<open>
  One pass of the loop of \<open>reduceRunOutcome\<close>: nothing for a success, else the node it reports with
  whether the run may still only be waiting, and until when.
\<close>

datatype reported = Success | Waits outcome_node "int option" | Stops outcome_node

definition report_of :: "int \<Rightarrow> string \<Rightarrow> run_entry option \<Rightarrow> reported" where
  "report_of now i entry =
     (let node = \<lparr>on_id = i, on_status = ''missing'', on_errorCode = None, on_message = None,
            on_waitingUntil = None\<rparr>
      in case entry of
           None \<Rightarrow> Stops node
         | Some (Unreadable_entry m) \<Rightarrow> Stops (node\<lparr>on_status := ''unreadable'', on_message := Some m\<rparr>)
         | Some (Entry s) \<Rightarrow>
             if SUCCESS (ns_status s) then Success
             else (let node = node\<lparr>on_status := status_text (ns_status s),
                         on_errorCode := map_option er_code (ns_error s)\<rparr>
                   in if tier_exhausted s
                      then (case earliestTierReset s of
                          None \<Rightarrow> Stops node
                        | Some earliest \<Rightarrow>
                            if now < earliest
                            then Waits (node\<lparr>on_waitingUntil := Some (Iso earliest)\<rparr>) (Some earliest)
                            else Waits node None)
                      else Stops node))"

fun node_of_report :: "reported \<Rightarrow> outcome_node option" where
  "node_of_report Success = None"
| "node_of_report (Waits n _) = Some n"
| "node_of_report (Stops n) = Some n"

fun reset_of_report :: "reported \<Rightarrow> int option" where
  "reset_of_report (Waits _ t) = t"
| "reset_of_report _ = None"

definition earliest_of :: "int list \<Rightarrow> int option" where
  "earliest_of ts = (if ts = [] then None else Some (Min (set ts)))"

definition reduceRunOutcome ::
    "string list \<Rightarrow> (string \<times> run_entry) list \<Rightarrow> bool \<Rightarrow> int \<Rightarrow> reduction" where
  "reduceRunOutcome declaredIds snapshots canceled now =
     (if canceled then \<lparr>rn_outcome = Run_canceled, rn_nodes = [], rn_waitingUntil = None\<rparr>
      else (let reports = map (\<lambda>i. report_of now i (map_of snapshots i)) declaredIds;
                nonSuccess = List.map_filter node_of_report reports
            in if nonSuccess = []
               then \<lparr>rn_outcome = (if declaredIds = [] then Run_parked else Run_succeeded), rn_nodes = [],
                      rn_waitingUntil = None\<rparr>
               else if list_all (\<lambda>r. case r of Stops _ \<Rightarrow> False | _ \<Rightarrow> True) reports
               then \<lparr>rn_outcome = Run_waiting, rn_nodes = nonSuccess,
                      rn_waitingUntil = map_option Iso (earliest_of (List.map_filter reset_of_report reports))\<rparr>
               else \<lparr>rn_outcome = Run_parked, rn_nodes = nonSuccess, rn_waitingUntil = None\<rparr>))"

datatype progress_state = Is_done | Is_unfinished | Is_waiting | Is_unknown

record run_progress =
  rp_state :: progress_state
  rp_total :: nat
  rp_terminal :: nat
  rp_waitingUntil :: "stamp option"
  rp_runOutcome :: "run_outcome option"
  rp_outcomeNodes :: "outcome_node list"

text \<open>What a declared node adds: it is settled, it waits until an instant, or it is unfinished.\<close>

datatype standing = Settled_node | Waiting_node int | Unfinished_node

definition standing_of :: "int \<Rightarrow> run_entry option \<Rightarrow> standing" where
  "standing_of now entry =
     (case entry of
        Some (Entry s) \<Rightarrow>
          if tier_exhausted s
          then (case earliestTierReset s of
              None \<Rightarrow> Settled_node
            | Some earliest \<Rightarrow> if now < earliest then Waiting_node earliest else Unfinished_node)
          else if SETTLED (ns_status s) then Settled_node else Unfinished_node
      | _ \<Rightarrow> Unfinished_node)"

fun waiting_instant :: "standing \<Rightarrow> int option" where
  "waiting_instant (Waiting_node t) = Some t"
| "waiting_instant _ = None"

text \<open>The snapshot files by name, each kept under the id it holds.\<close>

definition snapshot_map :: "(string \<times> run_entry) list \<Rightarrow> (string \<times> run_entry) list" where
  "snapshot_map files =
     fold (\<lambda>(name, entry) m. AList.update (case entry of Entry s \<Rightarrow> ns_id s | _ \<Rightarrow> name) entry m) files []"

definition runProgress ::
    "(string \<times> run_entry) list \<Rightarrow> string list option \<Rightarrow> bool \<Rightarrow> int \<Rightarrow> run_progress" where
  "runProgress files contract canceled now =
     (if files = []
      then \<lparr>rp_state = Is_unknown, rp_total = 0, rp_terminal = 0, rp_waitingUntil = None,
             rp_runOutcome = None, rp_outcomeNodes = []\<rparr>
      else (let snapshots = snapshot_map files;
                unreadable = list_ex (\<lambda>(_, e). case e of Unreadable_entry _ \<Rightarrow> True | _ \<Rightarrow> False) files;
                declared = nullish contract (map fst snapshots);
                standings = map (\<lambda>i. standing_of now (map_of snapshots i)) declared;
                terminal = length (filter (\<lambda>s. s = Settled_node) standings);
                reduction = reduceRunOutcome declared snapshots canceled now;
                state = (if unreadable then Is_unknown
                         else if terminal = length declared then Is_done
                         else if Unfinished_node \<in> set standings then Is_unfinished
                         else Is_waiting)
            in \<lparr>rp_state = state, rp_total = length declared, rp_terminal = terminal,
                rp_waitingUntil = (if state = Is_waiting
                  then map_option Iso (earliest_of (List.map_filter waiting_instant standings)) else None),
                rp_runOutcome = Some (rn_outcome reduction), rp_outcomeNodes = rn_nodes reduction\<rparr>))"

section \<open>Attention\<close>

definition ATTENTION_SCHEDULE_MS :: "int list" where
  "ATTENTION_SCHEDULE_MS = [10 * 60000, 60 * 60000, 4 * 60 * 60000]"
definition ATTENTION_REPEAT_MS :: int where "ATTENTION_REPEAT_MS = 4 * 60 * 60000"

definition attentionScheduleSlot :: "int \<Rightarrow> int" where
  "attentionScheduleSlot elapsedMs =
     (if elapsedMs < ATTENTION_SCHEDULE_MS ! 0 then - 1
      else if elapsedMs < ATTENTION_SCHEDULE_MS ! 1 then 0
      else if elapsedMs < ATTENTION_SCHEDULE_MS ! 2 then 1
      else 2 + (elapsedMs - ATTENTION_SCHEDULE_MS ! 2) div ATTENTION_REPEAT_MS)"

text \<open>An anchor that is no date gives \<open>NaN\<close>, which is before the first slot.\<close>

definition emitScheduledAttention ::
    "stamp \<Rightarrow> int \<Rightarrow> (stamp \<times> int) list \<Rightarrow> int option \<times> (stamp \<times> int) list" where
  "emitScheduledAttention anchor now sent =
     (case date_parse anchor of
        None \<Rightarrow> (None, sent)
      | Some t \<Rightarrow>
          (let slot = attentionScheduleSlot (now - t)
           in if slot < 0 \<or> (anchor, slot) \<in> set sent then (None, sent)
              else (Some slot, sent @ [(anchor, slot)])))"

section \<open>The run's metadata\<close>

record attention =
  aa_code :: string
  aa_message :: string
  aa_at :: stamp

record run_metadata =
  mt_pid :: "nat option"
  mt_startedAt :: "stamp option"
  mt_relaunchCount :: "int option"
  mt_lastRelaunchProgressAt :: "stamp option"
  mt_attention :: "attention option"
  mt_autoRetries :: "(string \<times> string) list"

definition MAX_CONSECUTIVE_LAUNCH_FAILURES :: nat where "MAX_CONSECUTIVE_LAUNCH_FAILURES = 3"
definition MAX_CONSECUTIVE_RELAUNCHES :: int where "MAX_CONSECUTIVE_RELAUNCHES = 2"

record relaunch_decision =
  rd_parked :: bool
  rd_count :: int
  rd_progressAt :: "stamp option"
  rd_metadata :: run_metadata

definition has_advanced :: "run_metadata \<Rightarrow> heartbeat option \<Rightarrow> bool" where
  "has_advanced metadata heartbeat \<longleftrightarrow>
     (case (parse_opt (Option.bind heartbeat hb_lastProgressAt), parse_opt (mt_lastRelaunchProgressAt metadata)) of
        (Some t, Some u) \<Rightarrow> t > u
      | _ \<Rightarrow> False)"

definition nextRelaunch :: "run_metadata \<Rightarrow> heartbeat option \<Rightarrow> relaunch_decision" where
  "nextRelaunch metadata heartbeat =
     (let count = (if has_advanced metadata heartbeat then 0 else nullish (mt_relaunchCount metadata) 0)
      in if count \<ge> MAX_CONSECUTIVE_RELAUNCHES
         then \<lparr>rd_parked = True, rd_count = count, rd_progressAt = Option.bind heartbeat hb_lastProgressAt,
                rd_metadata = metadata\<rparr>
         else \<lparr>rd_parked = False, rd_count = count + 1, rd_progressAt = Option.bind heartbeat hb_lastProgressAt,
                rd_metadata = metadata\<rparr>)"

definition persistRelaunch :: "relaunch_decision \<Rightarrow> run_metadata" where
  "persistRelaunch decision = (rd_metadata decision)\<lparr>mt_relaunchCount := Some (rd_count decision),
     mt_lastRelaunchProgressAt := rd_progressAt decision\<rparr>"

definition parkRun :: "string \<Rightarrow> string \<Rightarrow> int \<Rightarrow> run_metadata \<Rightarrow> run_metadata" where
  "parkRun code message now metadata =
     metadata\<lparr>mt_attention := Some \<lparr>aa_code = code, aa_message = message, aa_at = Iso now\<rparr>\<rparr>"

definition parked_message :: "outcome_node list \<Rightarrow> string" where
  "parked_message nodes =
     ''run parked: '' @ (let t = join_with '', '' (map (\<lambda>n. on_id n @ '':'' @ on_status n) nodes)
        in if t = [] then ''no nodes named'' else t)"

definition reportParkedAttention ::
    "run_progress \<Rightarrow> int \<Rightarrow> run_metadata \<times> (stamp \<times> int) list \<Rightarrow> run_metadata \<times> (stamp \<times> int) list" where
  "reportParkedAttention progress now d =
     (let (metadata, sent) = d;
          first = head_opt (rp_outcomeNodes progress);
          attention = (case mt_attention metadata of
            Some a \<Rightarrow> a
          | None \<Rightarrow> \<lparr>aa_code = nullish (orelse (Option.bind first on_errorCode) (map_option on_status first)) ''parked'',
              aa_message = parked_message (rp_outcomeNodes progress), aa_at = Iso now\<rparr>)
      in (metadata\<lparr>mt_attention := Some attention\<rparr>, snd (emitScheduledAttention (aa_at attention) now sent)))"

section \<open>The loop\<close>

record view =
  vw_now :: int
  vw_files :: "(string \<times> run_entry) list"
  vw_contract :: "string list option"
  vw_canceled :: bool
  vw_processes :: process_table
  vw_lock :: "lock_file option"
  vw_heartbeat :: "heartbeat option"
  vw_terminate :: "string option"
  vw_launch :: "run_metadata \<Rightarrow> string option \<times> run_metadata"

record supervisor =
  su_ticks :: nat
  su_launches :: nat
  su_failures :: nat
  su_metadata :: run_metadata
  su_sent :: "(stamp \<times> int) list"

datatype supervised = Finished_run | Stopped_run string

definition view_progress :: "view \<Rightarrow> run_progress" where
  "view_progress v = runProgress (vw_files v) (vw_contract v) (vw_canceled v) (vw_now v)"

definition lock_alive :: "view \<Rightarrow> bool" where
  "lock_alive v \<longleftrightarrow> vw_lock v \<noteq> None \<and> \<not> lockStale (vw_processes v) (vw_lock v)"

definition view_breach :: "int \<Rightarrow> view \<Rightarrow> breach option" where
  "view_breach heartbeatIntervalMs v =
     (if lock_alive v then heartbeatBreach (vw_heartbeat v) (vw_now v) heartbeatIntervalMs else None)"

text \<open>The \<open>try\<close> of a relaunch: the old controller is ended first when it breached on a live lock.\<close>

definition attempt_launch :: "view \<Rightarrow> breach option \<Rightarrow> run_metadata \<Rightarrow> string option \<times> run_metadata" where
  "attempt_launch v br m =
     (case (if br \<noteq> None \<and> lock_alive v then vw_terminate v else None) of
        Some e \<Rightarrow> (Some e, m)
      | None \<Rightarrow> vw_launch v m)"

definition relaunch :: "view \<Rightarrow> breach option \<Rightarrow> relaunch_decision \<Rightarrow> supervisor \<Rightarrow> supervised option \<times> supervisor" where
  "relaunch v br decision s =
     (let (failed, metadata) = attempt_launch v br (su_metadata s)
      in case failed of
           None \<Rightarrow> (None, s\<lparr>su_launches := su_launches s + 1, su_failures := 0,
               su_metadata := persistRelaunch decision\<rparr>)
         | Some e \<Rightarrow>
             (let failures = su_failures s + 1;
                  s = s\<lparr>su_failures := failures, su_metadata := metadata\<rparr>
              in if failures \<ge> MAX_CONSECUTIVE_LAUNCH_FAILURES
                 then (Some (Stopped_run (''resume failed '' @ show_nat failures @ '' times: '' @ e)), s)
                 else (None, s)))"

definition supervise_tick :: "int \<Rightarrow> view \<Rightarrow> supervisor \<Rightarrow> supervised option \<times> supervisor" where
  "supervise_tick heartbeatIntervalMs v s =
     (let s = s\<lparr>su_ticks := su_ticks s + 1\<rparr>;
          progress = view_progress v
      in if rp_runOutcome progress \<in> {Some Run_succeeded, Some Run_canceled} then (Some Finished_run, s)
         else if rp_state progress = Is_done \<and> rp_runOutcome progress = Some Run_parked
         then (None, (let (metadata, sent) = reportParkedAttention progress (vw_now v) (su_metadata s, su_sent s)
                      in s\<lparr>su_metadata := metadata, su_sent := sent\<rparr>))
         else (let br = view_breach heartbeatIntervalMs v;
                   alive = lock_alive v \<and> br = None
               in if (rp_state progress = Is_unfinished \<or> br \<noteq> None) \<and> \<not> alive
                  then (let decision = nextRelaunch (su_metadata s) (vw_heartbeat v)
                        in if rd_parked decision
                           then (Some (Stopped_run ''controller_unresponsive''),
                                 s\<lparr>su_metadata := parkRun ''controller_unresponsive''
                                   (''controller relaunched '' @ show_nat (nat (rd_count decision)) @
                                    '' times without lastProgressAt advancing'') (vw_now v) (su_metadata s)\<rparr>)
                           else relaunch v br decision s)
                  else (None, s)))"

partial_function (option) superviseRun ::
    "int \<Rightarrow> nat option \<Rightarrow> (nat \<Rightarrow> view) \<Rightarrow> supervisor \<Rightarrow> (supervised \<times> supervisor) option" where
  "superviseRun heartbeatIntervalMs maxTicks views s =
     (if (case maxTicks of None \<Rightarrow> False | Some m \<Rightarrow> su_ticks s \<ge> m)
      then Some (Stopped_run ''tick budget exhausted'', s)
      else (case supervise_tick heartbeatIntervalMs (views (su_ticks s)) s of
              (Some r, s') \<Rightarrow> Some (r, s')
            | (None, s') \<Rightarrow> superviseRun heartbeatIntervalMs maxTicks views s'))"

section \<open>What the outcome and the progress say\<close>

lemma not_success_report [simp]: "node_of_report r = None \<longleftrightarrow> r = Success"
  by (cases r) auto

lemma report_of_success:
  "report_of now i entry = Success \<longleftrightarrow> (\<exists>s. entry = Some (Entry s) \<and> SUCCESS (ns_status s))"
  by (auto simp: report_of_def Let_def split: option.splits run_entry.splits if_splits)

lemma map_filter_nil: "List.map_filter f xs = [] \<longleftrightarrow> (\<forall>x \<in> set xs. f x = None)"
  by (induction xs) (auto simp: List.map_filter_simps split: option.splits)

lemma reduction_succeeds_iff:
  "rn_outcome (reduceRunOutcome declared snapshots canceled now) = Run_succeeded \<longleftrightarrow>
     \<not> canceled \<and> declared \<noteq> [] \<and>
     (\<forall>i \<in> set declared. \<exists>s. map_of snapshots i = Some (Entry s) \<and> SUCCESS (ns_status s))"
  by (auto simp: reduceRunOutcome_def Let_def map_filter_nil report_of_success)

lemma reduction_canceled_iff:
  "rn_outcome (reduceRunOutcome declared snapshots canceled now) = Run_canceled \<longleftrightarrow> canceled"
  by (auto simp: reduceRunOutcome_def Let_def)

lemma unfinished_report:
  "standing_of now entry = Unfinished_node \<Longrightarrow> report_of now i entry \<noteq> Success"
  by (auto simp: standing_of_def report_of_success tier_exhausted_def SUCCESS_def
      split: option.splits run_entry.splits if_splits)

lemma unfinished_outcome:
  assumes "rp_state (runProgress files contract canceled now) = Is_unfinished" and "\<not> canceled"
  shows "rp_runOutcome (runProgress files contract canceled now) \<notin> {Some Run_succeeded, Some Run_canceled}"
proof -
  let ?declared = "nullish contract (map fst (snapshot_map files))"
  have files: "files \<noteq> []"
    using assms(1) by (auto simp: runProgress_def)
  have "Unfinished_node \<in> set (map (\<lambda>i. standing_of now (map_of (snapshot_map files) i)) ?declared)"
    using assms(1) files by (auto simp: runProgress_def Let_def split: if_splits)
  then obtain i where i: "i \<in> set ?declared" "standing_of now (map_of (snapshot_map files) i) = Unfinished_node"
    by auto
  have "\<not> (\<exists>s. map_of (snapshot_map files) i = Some (Entry s) \<and> SUCCESS (ns_status s))"
    using unfinished_report [OF i(2)] report_of_success by blast
  then have "rn_outcome (reduceRunOutcome ?declared (snapshot_map files) canceled now) \<noteq> Run_succeeded"
    using i(1) by (auto simp: reduction_succeeds_iff)
  then show ?thesis
    using files assms(2) by (simp add: runProgress_def Let_def reduction_canceled_iff)
qed

section \<open>One tick\<close>

definition decided_count :: "run_metadata \<Rightarrow> heartbeat option \<Rightarrow> int" where
  "decided_count m h = (if has_advanced m h then 0 else nullish (mt_relaunchCount m) 0)"

lemma nextRelaunch_parked [simp]: "rd_parked (nextRelaunch m h) \<longleftrightarrow> decided_count m h \<ge> MAX_CONSECUTIVE_RELAUNCHES"
  by (simp add: nextRelaunch_def decided_count_def Let_def)

lemma nextRelaunch_count [simp]:
  "decided_count m h < MAX_CONSECUTIVE_RELAUNCHES \<Longrightarrow> rd_count (nextRelaunch m h) = decided_count m h + 1"
  by (simp add: nextRelaunch_def decided_count_def Let_def)

lemma nextRelaunch_rest [simp]:
  "rd_metadata (nextRelaunch m h) = m" "rd_progressAt (nextRelaunch m h) = Option.bind h hb_lastProgressAt"
  by (simp_all add: nextRelaunch_def Let_def)

lemma count_after_persist:
  assumes "Option.bind h hb_lastProgressAt = Option.bind h' hb_lastProgressAt"
    and "decided_count m h < MAX_CONSECUTIVE_RELAUNCHES"
  shows "decided_count (persistRelaunch (nextRelaunch m h)) h' = decided_count m h + 1"
  using assms by (auto simp: decided_count_def has_advanced_def persistRelaunch_def split: option.splits)

lemma relaunch_launches:
  "su_launches (snd (relaunch v br d s)) = su_launches s \<or>
     (fst (relaunch v br d s) = None \<and>
      snd (relaunch v br d s) = s\<lparr>su_launches := su_launches s + 1, su_failures := 0, su_metadata := persistRelaunch d\<rparr>)"
  by (auto simp: relaunch_def Let_def split: option.splits prod.splits)

lemma relaunch_never_finishes [simp]: "fst (relaunch v br d s) \<noteq> Some Finished_run"
  by (auto simp: relaunch_def Let_def split: option.splits prod.splits)

lemma relaunch_ticks [simp]: "su_ticks (snd (relaunch v br d s)) = su_ticks s"
  by (auto simp: relaunch_def Let_def split: option.splits prod.splits)

lemma tick_ticks [simp]: "su_ticks (snd (supervise_tick iv v s)) = su_ticks s + 1"
  by (simp add: supervise_tick_def Let_def split: prod.splits)

lemma tick_finishes_iff:
  "fst (supervise_tick iv v s) = Some Finished_run \<longleftrightarrow>
     rp_runOutcome (view_progress v) \<in> {Some Run_succeeded, Some Run_canceled}"
  by (auto simp: supervise_tick_def Let_def split: prod.splits)

text \<open>A tick that launched wrote the metadata it had read, with the count and the progress instant.\<close>

lemma tick_launched:
  assumes "su_launches (snd (supervise_tick iv v s)) \<noteq> su_launches s"
  shows "fst (supervise_tick iv v s) = None" and "decided_count (su_metadata s) (vw_heartbeat v) < MAX_CONSECUTIVE_RELAUNCHES"
    and "snd (supervise_tick iv v s) = s\<lparr>su_ticks := su_ticks s + 1, su_launches := su_launches s + 1, su_failures := 0,
        su_metadata := persistRelaunch (nextRelaunch (su_metadata s) (vw_heartbeat v))\<rparr>"
    and "\<not> (lock_alive v \<and> view_breach iv v = None)"
    and "rp_runOutcome (view_progress v) \<notin> {Some Run_succeeded, Some Run_canceled}"
proof -
  let ?s = "s\<lparr>su_ticks := su_ticks s + 1\<rparr>"
  let ?d = "nextRelaunch (su_metadata s) (vw_heartbeat v)"
  have t: "rp_runOutcome (view_progress v) \<notin> {Some Run_succeeded, Some Run_canceled} \<and>
      \<not> (lock_alive v \<and> view_breach iv v = None) \<and> \<not> rd_parked ?d \<and>
      supervise_tick iv v s = relaunch v (view_breach iv v) ?d ?s"
    using assms by (auto simp: supervise_tick_def Let_def split: if_splits prod.splits)
  then show "\<not> (lock_alive v \<and> view_breach iv v = None)"
    and "rp_runOutcome (view_progress v) \<notin> {Some Run_succeeded, Some Run_canceled}"
    and "decided_count (su_metadata s) (vw_heartbeat v) < MAX_CONSECUTIVE_RELAUNCHES"
    by auto
  show "fst (supervise_tick iv v s) = None"
    and "snd (supervise_tick iv v s) = s\<lparr>su_ticks := su_ticks s + 1, su_launches := su_launches s + 1, su_failures := 0,
        su_metadata := persistRelaunch ?d\<rparr>"
    using t assms relaunch_launches [of v "view_breach iv v" ?d ?s] by auto
qed

section \<open>The loop ends\<close>

text \<open>
  What a tick can see of a run that goes on: a run whose controller is dead while some declared node is neither
  settled nor waiting for a reset, or whose heartbeat breaches behind a live lock; a run without a controller of
  which nothing is known (no snapshot, or one that cannot be read) or that only waits; and a run whose nodes
  are all settled, not all with success.
\<close>

definition goes_on :: "view \<Rightarrow> bool" where
  "goes_on v \<longleftrightarrow> rp_runOutcome (view_progress v) \<notin> {Some Run_succeeded, Some Run_canceled}"

definition parked_view :: "view \<Rightarrow> bool" where
  "parked_view v \<longleftrightarrow> rp_state (view_progress v) = Is_done \<and> rp_runOutcome (view_progress v) = Some Run_parked"

definition dead_view :: "int \<Rightarrow> stamp option \<Rightarrow> view \<Rightarrow> bool" where
  "dead_view iv h v \<longleftrightarrow> goes_on v \<and> \<not> parked_view v \<and>
     (rp_state (view_progress v) = Is_unfinished \<and> \<not> lock_alive v \<or> view_breach iv v \<noteq> None) \<and>
     Option.bind (vw_heartbeat v) hb_lastProgressAt = h"

definition unwatched_view :: "view \<Rightarrow> bool" where
  "unwatched_view v \<longleftrightarrow> goes_on v \<and> \<not> lock_alive v \<and> rp_state (view_progress v) \<in> {Is_unknown, Is_waiting}"

text \<open>A controller that starts carries the relaunch guard over.\<close>

definition carries_guard :: "view \<Rightarrow> bool" where
  "carries_guard v \<longleftrightarrow> (\<forall>m. mt_relaunchCount (snd (vw_launch v m)) = mt_relaunchCount m \<and>
     mt_lastRelaunchProgressAt (snd (vw_launch v m)) = mt_lastRelaunchProgressAt m)"

definition at_progress :: "stamp option \<Rightarrow> heartbeat option" where
  "at_progress h = map_option (\<lambda>t. \<lparr>hb_at = None, hb_lastProgressAt = Some t, hb_iteration = 0,
     hb_activeNodes = [], hb_recovering = False, hb_until = None\<rparr>) h"

lemma decided_at_progress:
  "Option.bind hb hb_lastProgressAt = h \<Longrightarrow> decided_count m hb = decided_count m (at_progress h)"
  by (cases h) (auto simp: decided_count_def has_advanced_def at_progress_def)

lemma dead_tick:
  assumes "dead_view iv h v"
  shows "supervise_tick iv v s =
     (let d = nextRelaunch (su_metadata s) (vw_heartbeat v); s1 = s\<lparr>su_ticks := su_ticks s + 1\<rparr>
      in if decided_count (su_metadata s) (at_progress h) \<ge> MAX_CONSECUTIVE_RELAUNCHES
         then (Some (Stopped_run ''controller_unresponsive''),
               s1\<lparr>su_metadata := parkRun ''controller_unresponsive''
                 (''controller relaunched '' @ show_nat (nat (rd_count d)) @
                  '' times without lastProgressAt advancing'') (vw_now v) (su_metadata s)\<rparr>)
         else relaunch v (view_breach iv v) d s1)"
proof -
  have "decided_count (su_metadata s) (vw_heartbeat v) = decided_count (su_metadata s) (at_progress h)"
    using assms by (intro decided_at_progress) (simp add: dead_view_def)
  moreover have "\<not> (lock_alive v \<and> view_breach iv v = None)"
    using assms by (auto simp: dead_view_def)
  ultimately show ?thesis
    using assms by (auto simp: supervise_tick_def Let_def dead_view_def goes_on_def parked_view_def)
qed

text \<open>What is left of the supervisor's budget: three attempts for each relaunch it may still make.\<close>

abbreviation spent :: "stamp option \<Rightarrow> supervisor \<Rightarrow> int" where
  "spent h s \<equiv> decided_count (su_metadata s) (at_progress h)"

definition ticks_left :: "stamp option \<Rightarrow> supervisor \<Rightarrow> nat" where
  "ticks_left h s = (if spent h s \<ge> MAX_CONSECUTIVE_RELAUNCHES then 1
     else nat (3 * (MAX_CONSECUTIVE_RELAUNCHES - spent h s) - int (su_failures s)) + 1)"

definition launches_left :: "stamp option \<Rightarrow> supervisor \<Rightarrow> nat" where
  "launches_left h s = nat (MAX_CONSECUTIVE_RELAUNCHES - spent h s)"

definition reported_dead :: "supervisor \<Rightarrow> bool" where
  "reported_dead s \<longleftrightarrow> map_option aa_code (mt_attention (su_metadata s)) = Some ''controller_unresponsive'' \<or>
     su_failures s = MAX_CONSECUTIVE_LAUNCH_FAILURES"

definition supervisor_ok :: "supervisor \<Rightarrow> bool" where
  "supervisor_ok s \<longleftrightarrow> su_failures s < MAX_CONSECUTIVE_LAUNCH_FAILURES \<and>
     (\<forall>c. mt_relaunchCount (su_metadata s) = Some c \<longrightarrow> c \<ge> 0)"

lemma decided_nonneg: "supervisor_ok s \<Longrightarrow> decided_count (su_metadata s) h \<ge> 0"
  by (cases "mt_relaunchCount (su_metadata s)") (auto simp: supervisor_ok_def decided_count_def)

lemma decided_same_guard:
  "mt_relaunchCount m = mt_relaunchCount m' \<Longrightarrow> mt_lastRelaunchProgressAt m = mt_lastRelaunchProgressAt m' \<Longrightarrow>
     decided_count m h = decided_count m' h"
  by (simp add: decided_count_def has_advanced_def)

lemma dead_relaunch_cases:
  assumes "carries_guard v" "supervisor_ok s" "Option.bind (vw_heartbeat v) hb_lastProgressAt = h"
    and "spent h s < MAX_CONSECUTIVE_RELAUNCHES"
    and "relaunch v br (nextRelaunch (su_metadata s) (vw_heartbeat v)) (s\<lparr>su_ticks := su_ticks s + 1\<rparr>) = (r, s')"
  obtains (launched) "r = None" "supervisor_ok s'" "spent h s' = spent h s + 1" "su_failures s' = 0"
      "su_launches s' = su_launches s + 1"
    | (failed) "r = None" "supervisor_ok s'" "spent h s' = spent h s" "su_failures s' = su_failures s + 1"
      "su_launches s' = su_launches s"
    | (given_up) m where "r = Some (Stopped_run m)" "su_failures s' = MAX_CONSECUTIVE_LAUNCH_FAILURES"
      "su_launches s' = su_launches s"
proof -
  let ?d = "nextRelaunch (su_metadata s) (vw_heartbeat v)"
  obtain e m where em: "attempt_launch v br (su_metadata s) = (e, m)"
    by fastforce
  have "mt_relaunchCount m = mt_relaunchCount (su_metadata s) \<and>
      mt_lastRelaunchProgressAt m = mt_lastRelaunchProgressAt (su_metadata s)"
    using em assms(1) [unfolded carries_guard_def, rule_format, of "su_metadata s"]
    by (auto simp: attempt_launch_def split: option.splits)
  then have guard: "mt_relaunchCount m = mt_relaunchCount (su_metadata s)"
      "mt_lastRelaunchProgressAt m = mt_lastRelaunchProgressAt (su_metadata s)"
    by auto
  have now: "decided_count (su_metadata s) (vw_heartbeat v) = spent h s"
    by (rule decided_at_progress [OF assms(3)])
  show thesis
  proof (cases e)
    case None
    then have s': "r = None" "s' = s\<lparr>su_ticks := su_ticks s + 1, su_launches := su_launches s + 1, su_failures := 0,
        su_metadata := persistRelaunch ?d\<rparr>"
      using assms(5) em by (auto simp: relaunch_def)
    have "decided_count (persistRelaunch ?d) (at_progress h) = spent h s + 1"
      using count_after_persist [of "vw_heartbeat v" "at_progress h" "su_metadata s"] assms(3,4) now
      by (cases h) (auto simp: at_progress_def)
    moreover have "rd_count ?d \<ge> 0"
      using decided_nonneg [OF assms(2), of "vw_heartbeat v"] assms(4) now by simp
    ultimately show thesis
      using launched s' by (simp add: supervisor_ok_def persistRelaunch_def MAX_CONSECUTIVE_LAUNCH_FAILURES_def)
  next
    case (Some x)
    have same: "decided_count m (at_progress h) = spent h s"
      using guard by (rule decided_same_guard)
    show thesis
    proof (cases "su_failures s + 1 \<ge> MAX_CONSECUTIVE_LAUNCH_FAILURES")
      case True
      then show thesis
        using assms(2,5) em Some given_up by (auto simp: relaunch_def Let_def supervisor_ok_def)
    next
      case False
      then have "r = None" "s' = s\<lparr>su_ticks := su_ticks s + 1, su_failures := su_failures s + 1, su_metadata := m\<rparr>"
        using assms(5) em Some by (auto simp: relaunch_def Let_def)
      then show thesis
        using failed same guard assms(2) False by (simp add: supervisor_ok_def)
    qed
  qed
qed

lemma dead_run_ends:
  assumes "\<And>k. dead_view iv h (views k)" "\<And>k. carries_guard (views k)" "supervisor_ok s"
  shows "\<exists>m s'. superviseRun iv None views s = Some (Stopped_run m, s') \<and> reported_dead s' \<and>
    su_ticks s' \<le> su_ticks s + ticks_left h s \<and> su_launches s' \<le> su_launches s + launches_left h s"
  using assms(3)
proof (induction "ticks_left h s" arbitrary: s rule: less_induct)
  case less
  let ?v = "views (su_ticks s)"
  have dead: "dead_view iv h ?v" and hb: "Option.bind (vw_heartbeat ?v) hb_lastProgressAt = h"
    using assms(1) [of "su_ticks s"] by (auto simp: dead_view_def)
  obtain r s1 where tick: "supervise_tick iv ?v s = (r, s1)"
    by fastforce
  have ticks: "su_ticks s1 = su_ticks s + 1"
    using tick_ticks [of iv ?v s] tick by simp
  note unfold = superviseRun.simps [of iv None views s, simplified, unfolded tick, simplified]
  show ?case
  proof (cases "spent h s \<ge> MAX_CONSECUTIVE_RELAUNCHES")
    case True
    then show ?thesis
      using tick dead_tick [OF dead, of s] unfold
      by (auto simp: reported_dead_def parkRun_def ticks_left_def Let_def)
  next
    case False
    then have re: "relaunch ?v (view_breach iv ?v) (nextRelaunch (su_metadata s) (vw_heartbeat ?v))
        (s\<lparr>su_ticks := su_ticks s + 1\<rparr>) = (r, s1)"
      using tick dead_tick [OF dead, of s] by (simp add: Let_def)
    have on: "\<exists>m s'. superviseRun iv None views s = Some (Stopped_run m, s') \<and> reported_dead s' \<and>
        su_ticks s' \<le> su_ticks s + ticks_left h s \<and> su_launches s' \<le> su_launches s + launches_left h s"
      if "r = None" "supervisor_ok s1" "ticks_left h s1 < ticks_left h s"
        "su_launches s1 + launches_left h s1 \<le> su_launches s + launches_left h s"
      using less.hyps [OF that(3,2)] that ticks unfold by fastforce
    note F = False less.prems
    have room: "spent h s < MAX_CONSECUTIVE_RELAUNCHES"
      using False by simp
    from assms(2) less.prems hb room re show ?thesis
    proof (cases rule: dead_relaunch_cases)
      case launched
      show ?thesis
        using F launched by (intro on) (auto simp: ticks_left_def launches_left_def supervisor_ok_def
            MAX_CONSECUTIVE_RELAUNCHES_def MAX_CONSECUTIVE_LAUNCH_FAILURES_def)
    next
      case failed
      show ?thesis
        using F failed by (intro on) (auto simp: ticks_left_def launches_left_def supervisor_ok_def
            MAX_CONSECUTIVE_RELAUNCHES_def MAX_CONSECUTIVE_LAUNCH_FAILURES_def)
    next
      case (given_up m)
      then show ?thesis
        using unfold ticks by (auto simp: reported_dead_def ticks_left_def)
    qed
  qed
qed

section \<open>The loop that does not end\<close>

lemma watched_forever:
  assumes "\<And>k s. fst (supervise_tick iv (views k) s) = None"
  shows "superviseRun iv None views s = None"
proof -
  have "views' = views \<longrightarrow> iv' = iv \<longrightarrow> mt = None \<longrightarrow> False"
    if "superviseRun iv' mt views' s = Some y" for iv' mt views' s y
  proof (rule superviseRun.raw_induct [where P = "\<lambda>iv' mt views' s y. views' = views \<longrightarrow> iv' = iv \<longrightarrow> mt = None \<longrightarrow> False",
        OF _ that], intro impI)
    fix f iv' mt views' s y
    assume IH: "\<And>iv' mt views' s y. f iv' mt views' s = Some y \<Longrightarrow> views' = views \<longrightarrow> iv' = iv \<longrightarrow> mt = None \<longrightarrow> False"
      and body: "(if case mt of None \<Rightarrow> False | Some m \<Rightarrow> m \<le> su_ticks s
          then Some (Stopped_run ''tick budget exhausted'', s)
          else case supervise_tick iv' (views' (su_ticks s)) s of
            (None, s') \<Rightarrow> f iv' mt views' s' | (Some r, s') \<Rightarrow> Some (r, s')) = Some y"
      and eq: "views' = views" "iv' = iv" "mt = None"
    obtain s1 where "supervise_tick iv (views (su_ticks s)) s = (None, s1)"
      using assms [of "su_ticks s" s] by (cases "supervise_tick iv (views (su_ticks s)) s") simp
    with body eq have "f iv None views s1 = Some y" by simp
    from IH [OF this] show False by simp
  qed
  then show ?thesis
    by (cases "superviseRun iv None views s") blast+
qed

lemma unwatched_tick:
  assumes "unwatched_view v"
  shows "supervise_tick iv v s = (None, s\<lparr>su_ticks := su_ticks s + 1\<rparr>)"
  using assms by (auto simp: unwatched_view_def goes_on_def supervise_tick_def view_breach_def Let_def)

lemma parked_tick:
  assumes "parked_view v"
  shows "\<exists>s'. supervise_tick iv v s = (None, s') \<and> mt_attention (su_metadata s') \<noteq> None"
  using assms by (auto simp: parked_view_def supervise_tick_def reportParkedAttention_def Let_def)

section \<open>The properties\<close>

definition sample_view :: "view" where
  "sample_view = \<lparr>vw_now = 0, vw_files = [(''a'', Entry (sample_snapshot ''a'' Running Ph_worker))], vw_contract = None,
     vw_canceled = False, vw_processes = [], vw_lock = None, vw_heartbeat = None, vw_terminate = None,
     vw_launch = (\<lambda>m. (None, m\<lparr>mt_pid := Some 7\<rparr>))\<rparr>"

definition sample_metadata :: run_metadata where
  "sample_metadata = \<lparr>mt_pid = Some 3, mt_startedAt = None, mt_relaunchCount = None,
     mt_lastRelaunchProgressAt = None, mt_attention = None, mt_autoRetries = []\<rparr>"

definition sample_supervisor :: supervisor where
  "sample_supervisor = \<lparr>su_ticks = 0, su_launches = 0, su_failures = 0, su_metadata = sample_metadata, su_sent = []\<rparr>"

lemma sample_dead: "dead_view 1 None sample_view" "carries_guard sample_view" "supervisor_ok sample_supervisor"
proof -
  have state: "rp_state (view_progress sample_view) = Is_unfinished"
    by (simp add: sample_view_def view_progress_def runProgress_def snapshot_map_def standing_of_def
        tier_exhausted_def sample_snapshot_def Let_def)
  then have "goes_on sample_view"
    unfolding goes_on_def view_progress_def by (rule unfinished_outcome) (simp add: sample_view_def)
  with state show "dead_view 1 None sample_view"
    by (simp add: dead_view_def parked_view_def sample_view_def lock_alive_def)
qed (simp_all add: carries_guard_def supervisor_ok_def sample_view_def sample_supervisor_def sample_metadata_def
    MAX_CONSECUTIVE_LAUNCH_FAILURES_def)


definition torn_view :: "view" where
  "torn_view = sample_view\<lparr>vw_files := [(''a'', Unreadable_entry ''torn'')]\<rparr>"


text \<open>
  C39. A relaunch writes back what the supervisor read before it. The tick that launches a controller leaves in
  \<open>run.json\<close> the metadata it had read with the relaunch count and the progress instant: the controller's pid and start,
  the attention a resume cleared and the automatic retries it recorded meanwhile are those from before the
  launch, whatever the new controller wrote before it reported that it was ready.
\<close>

theorem relaunch_forgets_what_the_controller_wrote:
  assumes "supervise_tick iv v s = (r, s')" and "su_launches s' \<noteq> su_launches s"
  shows "su_metadata s' = (su_metadata s)\<lparr>mt_relaunchCount := Some (decided_count (su_metadata s) (vw_heartbeat v) + 1),
      mt_lastRelaunchProgressAt := Option.bind (vw_heartbeat v) hb_lastProgressAt\<rparr> \<and>
    decided_count (su_metadata s) (vw_heartbeat v) < 2 \<and> \<not> (lock_alive v \<and> view_breach iv v = None)"
  using tick_launched(2-4) [of iv v s] assms by (auto simp: persistRelaunch_def MAX_CONSECUTIVE_RELAUNCHES_def)

theorem relaunch_forgets_what_the_controller_wrote_witness:
  "supervise_tick 1 (sample_view\<lparr>vw_launch := (\<lambda>m. (None, m\<lparr>mt_pid := Some 7, mt_autoRetries := [(''a'', ''crashed'')]\<rparr>))\<rparr>)
       sample_supervisor =
     (None, sample_supervisor\<lparr>su_ticks := 1, su_launches := 1,
        su_metadata := sample_metadata\<lparr>mt_relaunchCount := Some 1\<rparr>\<rparr>)"
  (is "?t = ?r")
proof -
  have r: "?t = ?r"
    by (simp add: sample_view_def sample_supervisor_def sample_metadata_def supervise_tick_def view_progress_def
        runProgress_def snapshot_map_def standing_of_def tier_exhausted_def sample_snapshot_def lock_alive_def
        view_breach_def reduceRunOutcome_def report_of_def SUCCESS_def nextRelaunch_def has_advanced_def
        relaunch_def attempt_launch_def persistRelaunch_def MAX_CONSECUTIVE_RELAUNCHES_def Let_def)
  from relaunch_forgets_what_the_controller_wrote [OF r] show ?thesis
    using r by simp
qed

lemma supervision_ends_at_a_tick:
  assumes "superviseRun iv maxTicks views s = Some y"
  shows "fst y = Finished_run \<longrightarrow> (\<exists>k. su_ticks (snd y) = k + 1 \<and> k \<ge> su_ticks s \<and>
       rp_runOutcome (view_progress (views k)) \<in> {Some Run_succeeded, Some Run_canceled})"
proof (rule superviseRun.raw_induct [where P = "\<lambda>iv maxTicks views s y.
    fst y = Finished_run \<longrightarrow> (\<exists>k. su_ticks (snd y) = k + 1 \<and> k \<ge> su_ticks s \<and>
         rp_runOutcome (view_progress (views k)) \<in> {Some Run_succeeded, Some Run_canceled})", OF _ assms], intro impI)
  fix f iv maxTicks views s y
  assume IH: "\<And>iv maxTicks views s y. f iv maxTicks views s = Some y \<Longrightarrow>
     fst y = Finished_run \<longrightarrow> (\<exists>k. su_ticks (snd y) = k + 1 \<and> k \<ge> su_ticks s \<and>
       rp_runOutcome (view_progress (views k)) \<in> {Some Run_succeeded, Some Run_canceled})"
    and body: "(if case maxTicks of None \<Rightarrow> False | Some m \<Rightarrow> m \<le> su_ticks s
          then Some (Stopped_run ''tick budget exhausted'', s)
          else case supervise_tick iv (views (su_ticks s)) s of
            (None, s') \<Rightarrow> f iv maxTicks views s' | (Some r, s') \<Rightarrow> Some (r, s')) = Some y"
    and fin: "fst y = Finished_run"
  have goes: "\<not> (case maxTicks of None \<Rightarrow> False | Some m \<Rightarrow> su_ticks s \<ge> m)"
    using body fin by (auto split: option.splits if_splits)
  obtain r s1 where tick: "supervise_tick iv (views (su_ticks s)) s = (r, s1)"
    by fastforce
  have ticks: "su_ticks s1 = su_ticks s + 1"
    using tick_ticks [of iv "views (su_ticks s)" s] tick by simp
  show "\<exists>k. su_ticks (snd y) = k + 1 \<and> k \<ge> su_ticks s \<and>
       rp_runOutcome (view_progress (views k)) \<in> {Some Run_succeeded, Some Run_canceled}"
  proof (cases r)
    case None
    then have "f iv maxTicks views s1 = Some y"
      using body goes tick by simp
    from IH [OF this] show ?thesis
      using ticks fin by fastforce
  next
    case (Some x)
    then have "y = (x, s1)"
      using body goes tick by simp
    then show ?thesis
      using Some tick fin ticks tick_finishes_iff [of iv "views (su_ticks s)" s] by (intro exI [of _ "su_ticks s"]) simp
  qed
qed

lemma progress_outcome:
  "rp_runOutcome (runProgress files contract canceled now) =
     (if files = [] then None
      else Some (rn_outcome (reduceRunOutcome (nullish contract (map fst (snapshot_map files))) (snapshot_map files) canceled now)))"
  by (simp add: runProgress_def Let_def)

text \<open>
  C38. The supervisor says that a run is done only when it is: the last tick saw snapshots, and the run was canceled or
  every declared node, of which there is at least one, has a readable snapshot that is \<open>done\<close> or \<open>no-op\<close>.
\<close>

theorem supervision_finishes_only_a_finished_run:
  assumes "superviseRun iv maxTicks views s = Some (Finished_run, s')"
  shows "\<exists>k. su_ticks s' = k + 1 \<and> vw_files (views k) \<noteq> [] \<and>
    (vw_canceled (views k) \<or>
     (let snapshots = snapshot_map (vw_files (views k));
          declared = nullish (vw_contract (views k)) (map fst snapshots)
      in declared \<noteq> [] \<and> (\<forall>i \<in> set declared. \<exists>n. map_of snapshots i = Some (Entry n) \<and> ns_status n \<in> {Done, No_op})))"
proof -
  obtain k where k: "su_ticks s' = k + 1"
      "rp_runOutcome (view_progress (views k)) \<in> {Some Run_succeeded, Some Run_canceled}"
    using supervision_ends_at_a_tick [OF assms] by auto
  then show ?thesis
    by (intro exI [of _ k])
      (auto simp: view_progress_def progress_outcome reduction_succeeds_iff reduction_canceled_iff SUCCESS_def Let_def
        split: if_splits)
qed

theorem supervision_finishes_only_a_finished_run_witness:
  "superviseRun 1 None (\<lambda>_. sample_view\<lparr>vw_files := [(''a'', Entry (sample_snapshot ''a'' Done Ph_complete))]\<rparr>)
     sample_supervisor = Some (Finished_run, sample_supervisor\<lparr>su_ticks := 1\<rparr>)"
  (is "?run = Some (_, ?s)")
proof -
  have r: "?run = Some (Finished_run, ?s)"
    by (subst superviseRun.simps)
      (simp add: sample_view_def sample_supervisor_def supervise_tick_def view_progress_def runProgress_def
        snapshot_map_def sample_snapshot_def reduceRunOutcome_def report_of_def SUCCESS_def Let_def List.map_filter_simps)
  from supervision_finishes_only_a_finished_run [OF r] show ?thesis
    using r by simp
qed

text \<open>Each slot of the schedule is announced once for each anchor, however the run is watched.\<close>

lemma emit_distinct: "distinct sent \<Longrightarrow> distinct (snd (emitScheduledAttention anchor now sent))"
  by (auto simp: emitScheduledAttention_def Let_def split: option.splits)

lemma relaunch_sent [simp]: "su_sent (snd (relaunch v br d s)) = su_sent s"
  by (auto simp: relaunch_def Let_def split: option.splits prod.splits)

lemma attention_announced_once: "distinct (su_sent s) \<Longrightarrow> distinct (su_sent (snd (supervise_tick iv v s)))"
  by (auto simp: supervise_tick_def reportParkedAttention_def Let_def emit_distinct split: prod.splits)

end
