(* ===== verification/Network_Waits.thy ===== *)
theory Network_Waits
  imports Review_Safety
begin

text \<open>
  How many network waits a role is granted (\<open>networkTransition\<close> and \<open>classifyTransition\<close> of
  \<open>src/engine/backoff.mjs\<close>, recorded by \<open>handleProviderExhaustion\<close> of \<open>src/engine/lifecycle.mjs\<close>). A run of
  failures is any sequence of the ways the controller hands a failure to that handler, between which
  the node changes in any way that leaves its routing history alone: the handler's records, which
  \<open>buildRouting\<close> cuts at 64 entries, are the only ones.
\<close>

section \<open>A run of failures\<close>

text \<open>
  A failure handed to the handler, with the role, the revision and the transition it is handled by:
  a network failure classified by \<open>networkTransition\<close>, an exhausted provider classified by the handler
  itself, and a worker whose result protocol failed twice. A handler that throws is no step.
\<close>

type_synonym failure = "role \<times> nat \<times> failure_transition"

inductive failure_step :: "ctl \<Rightarrow> failure \<Rightarrow> ctl \<Rightarrow> bool" where
  network: "networkTransition (si_contract si) (si_node si) (ce_state c) role envelope exitCode (si_now si)
        (si_random si) = Some t \<Longrightarrow>
      handleProviderExhaustion si role envelope given (Some t) c = Some (handled, c') \<Longrightarrow>
      failure_step c (role, ns_revisions (ce_state c), t) c'"
| exhausted: "handleProviderExhaustion si role envelope given None c = Some (handled, c') \<Longrightarrow>
      failure_step c (role, ns_revisions (ce_state c),
        classifyTransition envelope (nodeDeadlineAt (si_contract si) (si_node si) (ce_state c)) None
          (networkBackoffAttempts (ns_routing (ce_state c)) role (ns_revisions (ce_state c)))
          (si_now si) (si_random si)) c'"
| protocol: "handleProviderExhaustion si Worker envelope given (Some (Edge Protocol_failure)) c =
        Some (handled, c') \<Longrightarrow>
      failure_step c (Worker, ns_revisions (ce_state c), Edge Protocol_failure) c'"

definition history_of :: "ctl \<Rightarrow> history_entry list" where
  "history_of c = ro_history (routing_of (ce_state c))"

inductive failures :: "ctl \<Rightarrow> failure list \<Rightarrow> ctl \<Rightarrow> bool" for c where
  start: "failures c [] c"
| failure: "failures c fs c1 \<Longrightarrow> failure_step c1 f c2 \<Longrightarrow> failures c (fs @ [f]) c2"
| other: "failures c fs c1 \<Longrightarrow> history_of c2 = history_of c1 \<Longrightarrow> failures c fs c2"

fun network_wait :: "role \<Rightarrow> nat \<Rightarrow> failure \<Rightarrow> bool" where
  "network_wait role revision (r, v, Reset _ Network_backoff) = (r = role \<and> v = revision)"
| "network_wait role revision _ = False"

section \<open>What the handler records\<close>

lemma history_simps [simp]:
  "history_of (stop_with st ph e now c) = history_of c"
  "history_of (raiseNodeAttention code c) = history_of c"
  "history_of (on_state clearTierExhaustion c) = history_of c"
  "history_of (remember_refusal si current envelope c) = history_of c"
  by (auto simp: history_of_def stop_with_def on_state_def clearTierExhaustion_def remember_refusal_def
      nullish_def empty_routing_def split: option.splits)

lemma remember_refusal_state [simp]: "ce_state (remember_refusal si current envelope c) = ce_state c"
  by (auto simp: remember_refusal_def split: option.splits)

lemma park_exhausted_history [simp]: "history_of (park_exhausted si role current blocked until jl c) = history_of c"
  by (cases jl) (auto simp: park_exhausted_def Let_def history_of_def keep_judge_list_def on_state_def
      clearTierExhaustion_def nullish_def empty_routing_def split: option.splits)

lemma applyRoute_history:
  assumes "applyRoute si role error current plan schedule envelope status c = Some c'"
  shows "history_of c' = bounded_history (history_of c @
    [route_entry role error current plan schedule (en_usage envelope) (en_costUsd envelope)
       (en_priced envelope) status (si_now si)])"
  using assms
  by (auto simp: applyRoute_def buildRouting_def Let_def history_of_def split: option.splits)

lemma follow_plan_history:
  assumes "follow_plan si role envelope current schedule pre jl c = Some (handled, c')"
  shows "history_of c' = history_of c \<or> (\<exists>entry. history_of c' = bounded_history (history_of c @ [entry]))"
  using assms
  by (auto simp: follow_plan_def Let_def split: option.splits if_splits dest!: applyRoute_history)

lemma follow_plan_wait:
  assumes "follow_plan si role envelope current (Reset at' Network_backoff) pre jl c = Some (handled, c')"
  shows "\<exists>entry. history_of c' = bounded_history (history_of c @ [entry]) \<and>
    counts_as_network_wait role (ns_revisions (ce_state c)) entry"
proof -
  let ?plan = "planRoute (si_contract si) (ce_state c) role (error_of envelope) current
    (Reset at' Network_backoff) (si_now si) (si_resetOf si envelope) jl"
  have plan: "pl_blocked ?plan = None" "pl_nextRuntime ?plan = current"
      "pl_revision ?plan = ns_revisions (ce_state c)"
    by (simp_all add: planRoute_def plan_blocked_def Let_def)
  then obtain status where "applyRoute si role (error_of envelope) current ?plan (Reset at' Network_backoff)
      envelope status c = Some c'"
    using assms by (auto simp: follow_plan_def Let_def split: option.splits)
  from applyRoute_history [OF this] show ?thesis
    using plan(3) by (auto simp: route_entry_def counts_as_network_wait_def routing_error_code_def
        networkBackoffErrorCode_def starts_with_def)
qed

text \<open>The transition the handler acts on.\<close>

definition schedule_of ::
    "site \<Rightarrow> role \<Rightarrow> envelope \<Rightarrow> failure_transition option \<Rightarrow> ctl \<Rightarrow> failure_transition" where
  "schedule_of si role envelope given c =
     (case given of
        Some t \<Rightarrow> t
      | None \<Rightarrow> classifyTransition envelope (nodeDeadlineAt (si_contract si) (si_node si) (ce_state c)) None
          (networkBackoffAttempts (ns_routing (ce_state c)) role (ns_revisions (ce_state c)))
          (si_now si) (si_random si))"

lemma handler_cases:
  assumes "handleProviderExhaustion si role envelope given pre c = Some (handled, c')"
  obtains "er_code (error_of envelope) \<in> set NON_FAILOVER_CODES" "history_of c' = history_of c"
  | current jl where "follow_plan si role envelope current (schedule_of si role envelope pre c) (pre \<noteq> None) jl
      (remember_refusal si current envelope c) = Some (handled, c')"
      "er_code (error_of envelope) \<notin> set NON_FAILOVER_CODES"
  using assms
  by (auto simp: handleProviderExhaustion_def schedule_of_def Let_def split: if_splits option.splits sum.splits)

lemma classify_wait:
  assumes "classifyTransition envelope deadline exitCode attempt now random = Reset at' Network_backoff"
  shows "attempt < NETWORK_MAX_ATTEMPTS" and "er_code (error_of envelope) \<notin> set NON_FAILOVER_CODES"
proof -
  have net: "isNetworkFailure (en_error envelope) exitCode" "attempt < NETWORK_MAX_ATTEMPTS"
    using assms by (auto simp: classifyTransition_def Let_def split: option.splits if_splits)
  then show "attempt < NETWORK_MAX_ATTEMPTS" by simp
  show "er_code (error_of envelope) \<notin> set NON_FAILOVER_CODES"
    using net(1) by (auto simp: isNetworkFailure_def error_code_def error_of_def
        NON_FAILOVER_CODES_def split: option.splits if_splits)
qed

lemma failure_step_history:
  assumes "failure_step c f c'"
  obtains (kept) "history_of c' = history_of c" "\<not> network_wait role revision f"
  | (recorded) entry where "history_of c' = bounded_history (history_of c @ [entry])"
      "\<not> network_wait role revision f"
  | (wait) entry where "history_of c' = bounded_history (history_of c @ [entry])"
      "counts_as_network_wait role revision entry"
      "length (filter (counts_as_network_wait role revision) (history_of c)) < NETWORK_MAX_ATTEMPTS"
proof -
  have "\<exists>si r envelope given pre handled exitCode.
      handleProviderExhaustion si r envelope given pre c = Some (handled, c') \<and>
      f = (r, ns_revisions (ce_state c), schedule_of si r envelope pre c) \<and>
      (\<forall>t. snd (snd f) = Reset t Network_backoff \<longrightarrow>
         classifyTransition envelope (nodeDeadlineAt (si_contract si) (si_node si) (ce_state c)) exitCode
           (networkBackoffAttempts (ns_routing (ce_state c)) r (ns_revisions (ce_state c)))
           (si_now si) (si_random si) = Reset t Network_backoff)"
    using assms
  proof cases
    case (network si role envelope exitCode t given handled)
    then show ?thesis
      by (intro exI [of _ si] exI [of _ role] exI [of _ envelope] exI [of _ given] exI [of _ "Some t"]
          exI [of _ handled] exI [of _ exitCode])
        (auto simp: schedule_of_def networkTransition_def Let_def split: if_splits)
  next
    case (exhausted si role envelope given handled)
    then show ?thesis by (fastforce simp: schedule_of_def)
  next
    case (protocol si envelope given handled)
    then show ?thesis by (fastforce simp: schedule_of_def)
  qed
  then obtain si r envelope given pre handled exitCode where
      h: "handleProviderExhaustion si r envelope given pre c = Some (handled, c')" and
      f: "f = (r, ns_revisions (ce_state c), schedule_of si r envelope pre c)" and
      t: "\<And>t. snd (snd f) = Reset t Network_backoff \<Longrightarrow>
         classifyTransition envelope (nodeDeadlineAt (si_contract si) (si_node si) (ce_state c)) exitCode
           (networkBackoffAttempts (ns_routing (ce_state c)) r (ns_revisions (ce_state c)))
           (si_now si) (si_random si) = Reset t Network_backoff"
    by blast
  show thesis
  proof (cases "network_wait role revision f")
    case True
    then obtain at' where w: "schedule_of si r envelope pre c = Reset at' Network_backoff" "r = role"
        "revision = ns_revisions (ce_state c)"
      using f by (auto elim: network_wait.elims)
    note granted = classify_wait [OF t [unfolded f, simplified, OF w(1)]]
    from h show thesis
    proof (cases rule: handler_cases)
      case 1
      with granted(2) show thesis by simp
    next
      case (2 current jl)
      from follow_plan_wait [OF 2(1) [unfolded w(1)]] w(2,3) granted(1) show thesis
        by (auto simp: networkBackoffAttempts_def history_of_def intro: wait)
    qed
  next
    case False
    from h show thesis
    proof (cases rule: handler_cases)
      case 1
      with False kept show thesis by simp
    next
      case (2 current jl)
      with follow_plan_history [OF 2(1)] False kept recorded show thesis by auto
    qed
  qed
qed

section \<open>Three waits\<close>

lemma bounded_history_suffix:
  "length ys < MAX_ROUTING_HISTORY \<Longrightarrow> \<exists>xs'. bounded_history ((xs @ ys) @ [y]) = xs' @ ys @ [y]"
  by (auto simp: bounded_history_def)

lemma failures_waits:
  assumes "failures c fs c'" and "length fs \<le> MAX_ROUTING_HISTORY"
  shows "\<exists>xs ys. history_of c' = xs @ ys \<and> length ys \<le> length fs \<and>
    length (filter (network_wait role revision) fs) \<le> length (filter (counts_as_network_wait role revision) ys) \<and>
    length (filter (network_wait role revision) fs) \<le> NETWORK_MAX_ATTEMPTS"
  using assms
proof (induction rule: failures.induct)
  case start
  show ?case by (intro exI [of _ "history_of c"] exI [of _ "[]"]) simp
next
  case (failure fs c1 f c2)
  then obtain xs ys where IH: "history_of c1 = xs @ ys" "length ys \<le> length fs"
      "length (filter (network_wait role revision) fs) \<le> length (filter (counts_as_network_wait role revision) ys)"
      "length (filter (network_wait role revision) fs) \<le> NETWORK_MAX_ATTEMPTS"
    by auto
  have room: "length ys < MAX_ROUTING_HISTORY" using IH(2) failure.prems by simp
  from failure.hyps(2) show ?case
  proof (cases rule: failure_step_history [where role = role and revision = revision])
    case kept
    with IH show ?thesis by (intro exI [of _ xs] exI [of _ ys]) simp
  next
    case (recorded entry)
    with IH(1) bounded_history_suffix [OF room, of xs entry] obtain xs' where "history_of c2 = xs' @ ys @ [entry]"
      by auto
    with IH(2-4) recorded(2) show ?thesis
      by (intro exI [of _ xs'] exI [of _ "ys @ [entry]"]) auto
  next
    case (wait entry)
    with IH(1) bounded_history_suffix [OF room, of xs entry] obtain xs' where "history_of c2 = xs' @ ys @ [entry]"
      by auto
    with IH wait(2,3) show ?thesis
      by (intro exI [of _ xs'] exI [of _ "ys @ [entry]"]) auto
  qed
next
  case (other fs c1 c2)
  then show ?case by simp
qed

text \<open>
  C33. A runtime that keeps losing its transport cannot hold a node: among any 64 failures in a row that
  reach the handler, whatever they report, of whatever role, when and with whatever jitter, and whatever
  else happens to the node between them, a role is granted at most three network waits in one revision,
  whatever the routing history held before. Sixty-four is the bound of that history, in which every wait,
  quota wait and hop is recorded and from which the waits are counted: over more failures than that the
  oldest waits are forgotten, and more can be granted.
\<close>

theorem network_waits_bounded:
  assumes "failures c fs c'" and "length fs \<le> 64"
  shows "length (filter (network_wait role revision) fs) \<le> 3"
  using failures_waits [OF assms(1), of role revision] assms(2)
  by (auto simp: MAX_ROUTING_HISTORY_def NETWORK_MAX_ATTEMPTS_def)

section \<open>A line that is lost three times\<close>

text \<open>A node of the sample site at its first attempt, with some waits of its worker behind it.\<close>

definition waited :: "nat \<Rightarrow> ctl \<Rightarrow> bool" where
  "waited k c \<longleftrightarrow> ns_revisions (ce_state c) = 0 \<and> ns_startedAt (ce_state c) = None \<and>
     length (history_of c) = k \<and> length (filter (counts_as_network_wait Worker 0) (history_of c)) = k"

lemma lost_line_facts:
  "isNetworkFailure (en_error sample_network_envelope) (Some 1)"
  "quotaResetSchedule sample_network_envelope None 1000 = None"
  "er_code (error_of sample_network_envelope) \<notin> set NON_FAILOVER_CODES"
  "runtimeSnapshot (sample_contract False []) ''glm'' \<noteq> None"
  by code_simp+

lemma lost_line:
  assumes "waited k c" and "k < 3"
  obtains c' t where "failure_step c (Worker, 0, Reset t Network_backoff) c'" and "waited (Suc k) c'"
proof -
  let ?s = sample_site
  define t where "t = Iso (1000 + backoffDelayMs k 0)"
  have attempts: "networkBackoffAttempts (ns_routing (ce_state c)) Worker 0 = k"
    using assms(1) by (simp add: waited_def networkBackoffAttempts_def history_of_def)
  have net: "networkTransition (si_contract ?s) (si_node ?s) (ce_state c) Worker sample_network_envelope (Some 1)
      (si_now ?s) (si_random ?s) = Some (Reset t Network_backoff)"
    using assms attempts lost_line_facts(1,2)
    by (simp add: networkTransition_def classifyTransition_def nodeDeadlineAt_def waited_def sample_site_def t_def
        NETWORK_MAX_ATTEMPTS_def Let_def)
  let ?plan = "planRoute (si_contract ?s) (ce_state c) Worker (error_of sample_network_envelope) ''glm''
    (Reset t Network_backoff) 1000 None None"
  have plan: "pl_blocked ?plan = None" "pl_nextRuntime ?plan = ''glm''"
    by (simp_all add: planRoute_def plan_blocked_def Let_def)
  obtain c' where routed: "applyRoute ?s Worker (error_of sample_network_envelope) ''glm'' ?plan
      (Reset t Network_backoff) sample_network_envelope Failed c = Some c'"
    using lost_line_facts(4) plan(2)
    by (auto simp: applyRoute_def case_prod_beta sample_site_def Let_def split: option.split)
  have kept: "ns_revisions (ce_state c') = ns_revisions (ce_state c)" "ns_startedAt (ce_state c') = ns_startedAt (ce_state c)"
    using routed by (auto simp: applyRoute_def case_prod_beta Let_def split: option.splits)
  have "follow_plan ?s Worker sample_network_envelope ''glm'' (Reset t Network_backoff) True None c = Some (True, c')"
    using routed plan
    by (simp add: follow_plan_def Let_def sample_site_def sample_network_envelope_def sample_envelope_def)
  moreover have "remember_refusal ?s ''glm'' sample_network_envelope c = c"
    by (simp add: remember_refusal_def refusalOfAvailability_def sample_site_def split: option.split)
  ultimately have h: "handleProviderExhaustion ?s Worker sample_network_envelope (Some ''glm'')
      (Some (Reset t Network_backoff)) c = Some (True, c')"
    using lost_line_facts(3)
    by (simp add: handleProviderExhaustion_def current_runtime_def next_judge_of_def Let_def)
  have step: "failure_step c (Worker, 0, Reset t Network_backoff) c'"
    using failure_step.network [OF net h] assms(1) by (simp add: waited_def)
  have "waited (Suc k) c'"
    using step
  proof (cases rule: failure_step_history [where role = Worker and revision = 0])
    case (wait entry)
    with assms kept show ?thesis
      by (simp add: waited_def MAX_ROUTING_HISTORY_def)
  qed simp_all
  with step that show thesis by blast
qed

definition unstarted :: ctl where
  "unstarted = on_state (\<lambda>s. s\<lparr>ns_startedAt := None\<rparr>) sample_ctl"

theorem network_waits_bounded_witness:
  "\<exists>fs c. failures unstarted fs c \<and> list_all (network_wait Worker 0) fs \<and> length fs = 3 \<and>
     length (filter (network_wait Worker 0) fs) \<le> 3"
proof -
  have "waited 0 unstarted"
    by (simp add: waited_def history_of_def unstarted_def on_state_def sample_ctl_def sample_snapshot_def empty_routing_def nullish_def)
  then obtain t0 c0 where 0: "failure_step unstarted (Worker, 0, Reset t0 Network_backoff) c0" "waited (Suc 0) c0"
    by (rule lost_line) simp_all
  from 0(2) obtain t1 c1 where 1: "failure_step c0 (Worker, 0, Reset t1 Network_backoff) c1" "waited (Suc (Suc 0)) c1"
    by (rule lost_line) simp_all
  from 1(2) obtain t2 c2 where 2: "failure_step c1 (Worker, 0, Reset t2 Network_backoff) c2"
    by (rule lost_line) simp_all
  let ?fs = "[(Worker, 0, Reset t0 Network_backoff), (Worker, 0, Reset t1 Network_backoff),
    (Worker, 0, Reset t2 Network_backoff)]"
  have "failures unstarted ?fs c2"
    using failures.failure [OF failures.failure [OF failures.failure [OF failures.start 0(1)] 1(1)] 2] by simp
  with network_waits_bounded [OF this, of Worker 0] show ?thesis
    by (intro exI [of _ ?fs] exI [of _ c2]) simp
qed

end
